(* ===== verification/Libfw_Prelude.thy ===== *)
theory Libfw_Prelude
  imports Main "HOL-Library.Word" "HOL-Library.Sublist" "HOL-Library.Char_ord"
begin

text \<open>
  Shared vocabulary of the libfw development.

  Conventions.  A Rust \<open>u64\<close>/\<open>usize\<close> quantity is a \<open>nat\<close>, and every operation that can leave the
  64-bit range is written with the Rust operator's meaning: \<open>u64_add\<close> and \<open>u64_sub\<close> wrap (a release
  build), \<open>sat_add\<close> is \<open>saturating_add\<close>, \<open>checked_add\<close> is \<open>checked_add\<close>; \<open>saturating_sub\<close> is the
  truncating subtraction of \<open>nat\<close>.  Bit-level code (base64, zstd headers, hex) uses words.  A Rust
  \<open>str\<close> is the list of its UTF-8 bytes, a HOL \<open>string\<close> whose \<open>char\<close>s are bytes; splitting and
  trimming are byte operations that agree with the Rust ones on valid UTF-8.  A \<open>Result\<close> is a sum
  with the error on the left.
\<close>

named_theorems u64_simps \<open>definitions of the machine arithmetic\<close>
named_theorems str_simps \<open>facts about splitting, joining and trimming strings\<close>

type_synonym byte = "8 word"
type_synonym bytes = "byte list"

subsection \<open>Machine arithmetic\<close>

definition u64_max :: nat where
  "u64_max = 2 ^ 64 - 1"

definition i64_max :: int where
  "i64_max = 2 ^ 63 - 1"

definition u64_add :: "nat \<Rightarrow> nat \<Rightarrow> nat" where
  "u64_add a b = (a + b) mod 2 ^ 64"

definition u64_sub :: "nat \<Rightarrow> nat \<Rightarrow> nat" where
  "u64_sub a b = (a + (2 ^ 64 - b)) mod 2 ^ 64"

definition sat_add :: "nat \<Rightarrow> nat \<Rightarrow> nat" where
  "sat_add a b = min (a + b) u64_max"

definition sat_mul :: "nat \<Rightarrow> nat \<Rightarrow> nat" where
  "sat_mul a b = min (a * b) u64_max"

definition checked_add :: "nat \<Rightarrow> nat \<Rightarrow> nat option" where
  "checked_add a b = (if a + b \<le> u64_max then Some (a + b) else None)"

lemma u64_max_pos [simp]: "0 < u64_max"
  by (simp add: u64_max_def)

lemma u64_add_exact [simp]: "a + b \<le> u64_max \<Longrightarrow> u64_add a b = a + b"
  by (simp add: u64_add_def u64_max_def)

lemma u64_sub_exact [simp]: "b \<le> a \<Longrightarrow> a \<le> u64_max \<Longrightarrow> u64_sub a b = a - b"
proof -
  assume a: "b \<le> a" "a \<le> u64_max"
  then have "a + (2 ^ 64 - b) = (a - b) + 2 ^ 64"
    by (simp add: u64_max_def)
  with a show ?thesis
    by (simp only: u64_sub_def mod_add_self2) (simp add: u64_max_def)
qed

lemma sat_add_exact [simp]: "a + b \<le> u64_max \<Longrightarrow> sat_add a b = a + b"
  by (simp add: sat_add_def)

lemma sat_add_le [simp]: "sat_add a b \<le> u64_max"
  by (simp add: sat_add_def)

lemma sat_add_le_sum: "sat_add a b \<le> a + b"
  by (simp add: sat_add_def)

lemma sat_add_ge1: "a \<le> u64_max \<Longrightarrow> a \<le> sat_add a b"
  by (simp add: sat_add_def)

lemma sat_add_bound: "sat_add a b \<le> m \<Longrightarrow> m < u64_max \<Longrightarrow> sat_add a b = a + b"
  by (auto simp: sat_add_def min_def split: if_splits)

lemma checked_add_Some [simp]: "checked_add a b = Some c \<longleftrightarrow> c = a + b \<and> a + b \<le> u64_max"
  by (auto simp: checked_add_def)

lemma checked_add_None [simp]: "checked_add a b = None \<longleftrightarrow> u64_max < a + b"
  by (auto simp: checked_add_def)

declare u64_add_def [u64_simps] u64_sub_def [u64_simps] sat_add_def [u64_simps]
  u64_max_def [u64_simps] sat_mul_def [u64_simps]

subsection \<open>Results\<close>

text \<open>The \<open>?\<close> operator of Rust: the first error ends the computation.\<close>

definition res_bind :: "'e + 'a \<Rightarrow> ('a \<Rightarrow> 'e + 'b) \<Rightarrow> 'e + 'b" where
  "res_bind r f = (case r of Inl e \<Rightarrow> Inl e | Inr x \<Rightarrow> f x)"

definition map_err :: "('e \<Rightarrow> 'f) \<Rightarrow> 'e + 'a \<Rightarrow> 'f + 'a" where
  "map_err f r = (case r of Inl e \<Rightarrow> Inl (f e) | Inr x \<Rightarrow> Inr x)"

definition ok_or :: "'e \<Rightarrow> 'a option \<Rightarrow> 'e + 'a" where
  "ok_or e x = (case x of None \<Rightarrow> Inl e | Some y \<Rightarrow> Inr y)"

lemma res_bind_simps [simp]:
  "res_bind (Inl e) f = Inl e" "res_bind (Inr x) f = f x"
  by (simp_all add: res_bind_def)

lemma res_bind_Inr: "res_bind r f = Inr y \<longleftrightarrow> (\<exists>x. r = Inr x \<and> f x = Inr y)"
  by (cases r) auto

lemma res_bind_Inl: "res_bind r f = Inl e \<longleftrightarrow> r = Inl e \<or> (\<exists>x. r = Inr x \<and> f x = Inl e)"
  by (cases r) auto

lemma map_err_simps [simp]:
  "map_err f (Inl e) = Inl (f e)" "map_err f (Inr x) = Inr x"
  by (simp_all add: map_err_def)

lemma map_err_Inr [simp]: "map_err f r = Inr y \<longleftrightarrow> r = Inr y"
  by (cases r) auto

lemma ok_or_simps [simp]: "ok_or e None = Inl e" "ok_or e (Some x) = Inr x"
  by (simp_all add: ok_or_def)

lemma ok_or_Inr [simp]: "ok_or e x = Inr y \<longleftrightarrow> x = Some y"
  by (cases x) auto

subsection \<open>Strings\<close>

definition starts_with :: "string \<Rightarrow> string \<Rightarrow> bool" where
  "starts_with s p = prefix p s"

definition ends_with :: "string \<Rightarrow> string \<Rightarrow> bool" where
  "ends_with s p = suffix p s"

definition strip_prefix :: "string \<Rightarrow> string \<Rightarrow> string option" where
  "strip_prefix s p = (if prefix p s then Some (drop (length p) s) else None)"

fun split_on :: "'a \<Rightarrow> 'a list \<Rightarrow> 'a list list" where
  "split_on c [] = [[]]"
| "split_on c (x # xs) =
     (if x = c then [] # split_on c xs
      else (case split_on c xs of [] \<Rightarrow> [[x]] | y # ys \<Rightarrow> (x # y) # ys))"

fun join_on :: "'a \<Rightarrow> 'a list list \<Rightarrow> 'a list" where
  "join_on c [] = []"
| "join_on c [x] = x"
| "join_on c (x # y # ys) = x @ c # join_on c (y # ys)"

fun split_once :: "char \<Rightarrow> string \<Rightarrow> (string \<times> string) option" where
  "split_once c [] = None"
| "split_once c (x # xs) =
     (if x = c then Some ([], xs)
      else map_option (\<lambda>(a, b). (x # a, b)) (split_once c xs))"

definition ascii_lower :: "char \<Rightarrow> char" where
  "ascii_lower c =
     (if 65 \<le> (of_char c :: nat) \<and> (of_char c :: nat) \<le> 90
      then char_of ((of_char c :: nat) + 32) else c)"

definition to_ascii_lowercase :: "string \<Rightarrow> string" where
  "to_ascii_lowercase = map ascii_lower"

definition eq_ignore_ascii_case :: "string \<Rightarrow> string \<Rightarrow> bool" where
  "eq_ignore_ascii_case a b \<longleftrightarrow> to_ascii_lowercase a = to_ascii_lowercase b"

text \<open>\<open>trim_start_matches\<close> and \<open>trim_end_matches\<close> with a single character.\<close>

definition trim_start_char :: "char \<Rightarrow> string \<Rightarrow> string" where
  "trim_start_char c = dropWhile (\<lambda>x. x = c)"

definition trim_end_char :: "char \<Rightarrow> string \<Rightarrow> string" where
  "trim_end_char c s = rev (dropWhile (\<lambda>x. x = c) (rev s))"

definition trim_char :: "char \<Rightarrow> string \<Rightarrow> string" where
  "trim_char c s = trim_end_char c (trim_start_char c s)"

text \<open>
  \<open>str::trim\<close> removes Unicode white space.  Its code points, as UTF-8 byte sequences.
\<close>

definition ws_seqs :: "string list" where
  "ws_seqs =
     map (\<lambda>n. [char_of n]) ([9, 10, 11, 12, 13, 32] :: nat list)
     @ map (\<lambda>l. map char_of l)
        ([[0xC2, 0x85], [0xC2, 0xA0], [0xE1, 0x9A, 0x80],
          [0xE2, 0x80, 0x80], [0xE2, 0x80, 0x81], [0xE2, 0x80, 0x82], [0xE2, 0x80, 0x83],
          [0xE2, 0x80, 0x84], [0xE2, 0x80, 0x85], [0xE2, 0x80, 0x86], [0xE2, 0x80, 0x87],
          [0xE2, 0x80, 0x88], [0xE2, 0x80, 0x89], [0xE2, 0x80, 0x8A],
          [0xE2, 0x80, 0xA8], [0xE2, 0x80, 0xA9], [0xE2, 0x80, 0xAF],
          [0xE2, 0x81, 0x9F], [0xE3, 0x80, 0x80]] :: nat list list)"

fun strip_first :: "string list \<Rightarrow> string \<Rightarrow> string option" where
  "strip_first [] s = None"
| "strip_first (w # ws) s =
     (if w \<noteq> [] \<and> prefix w s then Some (drop (length w) s) else strip_first ws s)"

lemma strip_first_shorter: "strip_first ws s = Some t \<Longrightarrow> length t < length s"
  by (induction ws) (auto split: if_splits simp: prefix_def)

function trim_seqs :: "string list \<Rightarrow> string \<Rightarrow> string" where
  "trim_seqs ws s = (case strip_first ws s of None \<Rightarrow> s | Some t \<Rightarrow> trim_seqs ws t)"
  by pat_completeness auto
termination
  by (relation "measure (\<lambda>(ws, s). length s)") (auto dest: strip_first_shorter)

declare trim_seqs.simps [simp del]

definition str_trim :: "string \<Rightarrow> string" where
  "str_trim s = rev (trim_seqs (map rev ws_seqs) (rev (trim_seqs ws_seqs s)))"

text \<open>\<open>str::split_whitespace\<close>: the maximal pieces without white space.\<close>

function split_ws_loop :: "string \<Rightarrow> string \<Rightarrow> string list" where
  "split_ws_loop cur [] = (if cur = [] then [] else [cur])"
| "split_ws_loop cur (c # s) =
     (case strip_first ws_seqs (c # s) of
        Some t \<Rightarrow> (if cur = [] then [] else [cur]) @ split_ws_loop [] t
      | None \<Rightarrow> split_ws_loop (cur @ [c]) s)"
  by pat_completeness auto
termination
  by (relation "measure (\<lambda>(cur, s). length s)") (auto dest: strip_first_shorter)

declare split_ws_loop.simps(2) [simp del]

definition split_ws :: "string \<Rightarrow> string list" where
  "split_ws s = split_ws_loop [] s"

subsection \<open>Decimal numbers\<close>

definition digit_char :: "nat \<Rightarrow> char" where
  "digit_char d = char_of (48 + d)"

definition char_digit :: "char \<Rightarrow> nat option" where
  "char_digit c =
     (let n = of_char c :: nat in if 48 \<le> n \<and> n \<le> 57 then Some (n - 48) else None)"

text \<open>\<open>Display\<close> of an unsigned integer.\<close>

fun show_nat :: "nat \<Rightarrow> string" where
  "show_nat n =
     (if n < 10 then [digit_char n] else show_nat (n div 10) @ [digit_char (n mod 10)])"

declare show_nat.simps [simp del]

fun parse_digits :: "nat \<Rightarrow> string \<Rightarrow> nat option" where
  "parse_digits acc [] = Some acc"
| "parse_digits acc (c # cs) =
     (case char_digit c of
        None \<Rightarrow> None
      | Some d \<Rightarrow>
          (if acc * 10 + d \<le> u64_max then parse_digits (acc * 10 + d) cs else None))"

text \<open>\<open>u64::from_str\<close>: one leading \<open>+\<close> is accepted, overflow is an error.\<close>

definition u64_from_str :: "string \<Rightarrow> nat option" where
  "u64_from_str s =
     (case s of
        [] \<Rightarrow> None
      | c # cs \<Rightarrow> if c = CHR ''+'' then (if cs = [] then None else parse_digits 0 cs)
                 else parse_digits 0 s)"

lemma of_char_digit_char: "d < 10 \<Longrightarrow> of_char (digit_char d) = (48 + d :: nat)"
  by (simp add: digit_char_def)

lemma char_digit_digit_char [simp]: "d < 10 \<Longrightarrow> char_digit (digit_char d) = Some d"
  by (simp add: char_digit_def of_char_digit_char)

lemma char_digit_bound: "char_digit c = Some d \<Longrightarrow> d < 10"
  by (auto simp: char_digit_def Let_def split: if_splits)

lemma show_nat_not_Nil [simp]: "show_nat n \<noteq> []"
  by (subst show_nat.simps) simp

lemma show_nat_digits: "c \<in> set (show_nat n) \<Longrightarrow> char_digit c \<noteq> None"
  by (induction n rule: show_nat.induct) (subst (asm) (2) show_nat.simps, auto split: if_splits)

lemma show_nat_no_char: "char_digit c = None \<Longrightarrow> c \<notin> set (show_nat n)"
  using show_nat_digits by blast

lemma parse_digits_append:
  "parse_digits a (xs @ ys) = Option.bind (parse_digits a xs) (\<lambda>b. parse_digits b ys)"
  by (induction a xs rule: parse_digits.induct) (auto split: option.splits)

lemma parse_digits_show_nat: "n \<le> u64_max \<Longrightarrow> parse_digits 0 (show_nat n) = Some n"
proof (induction n rule: show_nat.induct)
  case (1 n)
  show ?case
  proof (cases "n < 10")
    case True
    with 1 show ?thesis by (subst show_nat.simps) simp
  next
    case False
    have "n div 10 \<le> u64_max" using "1.prems" div_le_dividend le_trans by blast
    with False 1 have "parse_digits 0 (show_nat (n div 10)) = Some (n div 10)" by simp
    with False 1 show ?thesis by (subst show_nat.simps) (simp add: parse_digits_append)
  qed
qed

lemma u64_from_str_show_nat [simp]: "n \<le> u64_max \<Longrightarrow> u64_from_str (show_nat n) = Some n"
proof -
  assume n: "n \<le> u64_max"
  obtain c cs where s: "show_nat n = c # cs" by (cases "show_nat n") auto
  have "char_digit CHR ''+'' = None" by (simp add: char_digit_def)
  with show_nat_no_char [of "CHR ''+''" n] s have "c \<noteq> CHR ''+''" by auto
  with s parse_digits_show_nat [OF n] show ?thesis by (simp add: u64_from_str_def)
qed

lemma parse_digits_bound: "parse_digits a s = Some n \<Longrightarrow> a \<le> u64_max \<Longrightarrow> n \<le> u64_max"
  by (induction a s rule: parse_digits.induct) (auto split: option.splits if_splits)

lemma u64_from_str_bound: "u64_from_str s = Some n \<Longrightarrow> n \<le> u64_max"
  by (auto simp: u64_from_str_def simp del: parse_digits.simps dest!: parse_digits_bound
      split: list.splits if_splits)

subsection \<open>Splitting and joining\<close>

lemma split_on_not_Nil [simp]: "split_on c xs \<noteq> []"
  by (induction xs) (auto split: list.splits)

lemma split_on_no_sep: "seg \<in> set (split_on c xs) \<Longrightarrow> c \<notin> set seg"
proof (induction xs arbitrary: seg)
  case (Cons x xs)
  then show ?case
    by (cases "split_on c xs") (auto split: if_splits)
qed simp

lemma split_on_simple [str_simps]: "c \<notin> set xs \<Longrightarrow> split_on c xs = [xs]"
  by (induction xs) auto

lemma split_on_append [str_simps]:
  "c \<notin> set xs \<Longrightarrow> split_on c (xs @ c # ys) = xs # split_on c ys"
  by (induction xs) auto

lemma join_on_Cons: "join_on c (x # xs) = (if xs = [] then x else x @ c # join_on c xs)"
  by (cases xs) auto

lemma join_split [simp]: "join_on c (split_on c xs) = xs"
proof (induction xs)
  case (Cons x xs)
  then show ?case
    by (cases "split_on c xs") (auto simp: join_on_Cons split: if_splits)
qed simp

lemma split_join:
  "segs \<noteq> [] \<Longrightarrow> (\<And>s. s \<in> set segs \<Longrightarrow> c \<notin> set s) \<Longrightarrow> split_on c (join_on c segs) = segs"
  by (induction c segs rule: join_on.induct) (auto simp: split_on_simple split_on_append)

lemma join_on_append:
  "xs \<noteq> [] \<Longrightarrow> ys \<noteq> [] \<Longrightarrow> join_on c (xs @ ys) = join_on c xs @ c # join_on c ys"
  by (induction c xs rule: join_on.induct) (auto simp: join_on_Cons)

lemma split_on_append_sep: "split_on c (xs @ c # ys) = split_on c xs @ split_on c ys"
proof (induction xs)
  case (Cons x xs)
  then show ?case by (cases "split_on c xs") auto
qed simp

lemma split_prefix_iff:
  "prefix (split_on c q) (split_on c p) \<longleftrightarrow> p = q \<or> prefix (q @ [c]) p"
proof
  assume "prefix (split_on c q) (split_on c p)"
  then obtain r where r: "split_on c p = split_on c q @ r" by (auto simp: prefix_def)
  show "p = q \<or> prefix (q @ [c]) p"
  proof (cases "r = []")
    case True
    with r have "join_on c (split_on c p) = join_on c (split_on c q)" by simp
    then show ?thesis by simp
  next
    case False
    have "p = join_on c (split_on c q @ r)" using r join_split [of c p] by simp
    also have "\<dots> = q @ c # join_on c r" using False by (simp add: join_on_append)
    finally show ?thesis by simp
  qed
next
  assume "p = q \<or> prefix (q @ [c]) p"
  then show "prefix (split_on c q) (split_on c p)"
    by (auto simp: prefix_def split_on_append_sep)
qed

lemma boundary_prefix:
  "starts_with p q \<and> length q < length p \<and> p ! length q = c \<longleftrightarrow> prefix (q @ [c]) p"
proof (cases "prefix q p")
  case True
  then obtain t where "p = q @ t" by (auto simp: prefix_def)
  then show ?thesis by (cases t) (auto simp: starts_with_def)
next
  case False
  then have "\<not> prefix (q @ [c]) p" by (blast dest: append_prefixD)
  with False show ?thesis by (simp add: starts_with_def)
qed

lemma split_once_append [str_simps]:
  "c \<notin> set xs \<Longrightarrow> split_once c (xs @ c # ys) = Some (xs, ys)"
  by (induction xs) auto

lemma split_once_None [str_simps]: "split_once c xs = None \<longleftrightarrow> c \<notin> set xs"
  by (induction xs) auto

lemma split_once_Some:
  "split_once c xs = Some (a, b) \<longleftrightarrow> xs = a @ c # b \<and> c \<notin> set a"
proof (induction xs arbitrary: a)
  case (Cons x xs)
  then show ?case by (cases a) auto
qed simp

lemma strip_prefix_Some: "strip_prefix s p = Some t \<longleftrightarrow> s = p @ t"
  by (auto simp: strip_prefix_def prefix_def)

lemma strip_prefix_append [simp]: "strip_prefix (p @ t) p = Some t"
  by (simp add: strip_prefix_Some)

subsection \<open>Trimming\<close>

text \<open>A string whose first and last bytes are visible ASCII is left alone by \<open>str_trim\<close>.\<close>

definition visible :: "char \<Rightarrow> bool" where
  "visible c \<longleftrightarrow> 33 \<le> (of_char c :: nat) \<and> (of_char c :: nat) < 128"

lemma strip_first_None:
  assumes "\<forall>w\<in>set ws. w \<noteq> [] \<and> hd w \<noteq> c"
  shows "strip_first ws (c # s) = None"
  using assms
proof (induction ws)
  case (Cons w ws)
  then have "\<not> prefix w (c # s)" by (cases w) auto
  with Cons show ?case by simp
qed simp

lemma strip_first_empty [simp]: "strip_first ws [] = None"
  by (induction ws) auto

lemma trim_seqs_visible:
  assumes "\<forall>w\<in>set ws. w \<noteq> [] \<and> \<not> visible (hd w)" and "s \<noteq> [] \<Longrightarrow> visible (hd s)"
  shows "trim_seqs ws s = s"
proof (cases s)
  case (Cons c t)
  with assms have "strip_first ws s = None"
    by (auto intro!: strip_first_None)
  then show ?thesis by (subst trim_seqs.simps) simp
qed (subst trim_seqs.simps, simp)

lemma ws_seqs_not_visible:
  "\<forall>w\<in>set ws_seqs. w \<noteq> [] \<and> \<not> visible (hd w)"
  "\<forall>w\<in>set (map rev ws_seqs). w \<noteq> [] \<and> \<not> visible (hd w)"
  by (simp_all add: ws_seqs_def visible_def)

lemma str_trim_visible [str_simps]:
  "(s \<noteq> [] \<Longrightarrow> visible (hd s) \<and> visible (last s)) \<Longrightarrow> str_trim s = s"
proof -
  assume s: "s \<noteq> [] \<Longrightarrow> visible (hd s) \<and> visible (last s)"
  then have a: "trim_seqs ws_seqs s = s"
    by (intro trim_seqs_visible [OF ws_seqs_not_visible(1)]) simp
  from s have "trim_seqs (map rev ws_seqs) (rev s) = rev s"
    by (intro trim_seqs_visible [OF ws_seqs_not_visible(2)]) (simp add: hd_rev)
  with a show ?thesis by (simp add: str_trim_def)
qed

lemma str_trim_Nil [simp]: "str_trim [] = []"
  by (rule str_trim_visible) simp

lemma visible_digit: "char_digit c = Some d \<Longrightarrow> visible c"
  by (auto simp: char_digit_def visible_def Let_def split: if_splits)

lemma visible_show_nat: "c \<in> set (show_nat n) \<Longrightarrow> visible c"
  using show_nat_digits visible_digit by fastforce

lemma str_trim_show_nat [simp]: "str_trim (show_nat n) = show_nat n"
  using visible_show_nat [of _ n] by (intro str_trim_visible) (simp add: hd_in_set last_in_set)

end
