(* ===== verification/Byte_Text.thy ===== *)
theory Byte_Text
  imports Libfw_Prelude
begin

text \<open>
  Bytes and text: the passage between byte slices and strings (\<open>as_bytes\<close>,
  \<open>String::from_utf8_lossy\<close>), little-endian encodings (\<open>u64::to_le_bytes\<close>) and lower-case
  hexadecimal, as the other theories use them.
\<close>

unbundle bit_operations_syntax

lemma unat_byte_lt: "unat (b :: byte) < 256"
  using unsigned_less [of b] by simp

subsection \<open>Strings and bytes\<close>

definition as_bytes :: "string \<Rightarrow> bytes" where
  "as_bytes = map (\<lambda>c. word_of_nat (of_char c))"

definition bytes_to_str :: "bytes \<Rightarrow> string" where
  "bytes_to_str = map (\<lambda>b. char_of (unat b))"

lemma bytes_to_str_as_bytes [simp]: "bytes_to_str (as_bytes s) = s"
proof -
  have "char_of (unat (word_of_nat (of_char c) :: byte)) = c" for c
    by (simp add: unat_of_nat)
  then show ?thesis by (simp add: bytes_to_str_def as_bytes_def comp_def)
qed

subsection \<open>UTF-8\<close>

text \<open>
  One step of a UTF-8 decoder: whether the bytes at the front form a valid sequence, and how many
  bytes are taken.  An invalid sequence takes the longest prefix of a well-formed sequence, as
  \<open>Utf8Chunks\<close> of the standard library does.
\<close>

definition cont_byte :: "byte \<Rightarrow> bool" where
  "cont_byte b \<longleftrightarrow> 0x80 \<le> b \<and> b \<le> 0xBF"

definition second_ok :: "byte \<Rightarrow> byte \<Rightarrow> bool" where
  "second_ok a b \<longleftrightarrow>
     (if a = 0xE0 then 0xA0 \<le> b \<and> b \<le> 0xBF
      else if a = 0xED then 0x80 \<le> b \<and> b \<le> 0x9F
      else if a = 0xF0 then 0x90 \<le> b \<and> b \<le> 0xBF
      else if a = 0xF4 then 0x80 \<le> b \<and> b \<le> 0x8F
      else cont_byte b)"

definition seq_len :: "byte \<Rightarrow> nat" where
  "seq_len a =
     (if a < 0x80 then 1 else if 0xC2 \<le> a \<and> a \<le> 0xDF then 2
      else if 0xE0 \<le> a \<and> a \<le> 0xEF then 3 else if 0xF0 \<le> a \<and> a \<le> 0xF4 then 4 else 0)"

definition utf8_step :: "byte \<Rightarrow> bytes \<Rightarrow> bool \<times> nat" where
  "utf8_step a rest =
     (let n = seq_len a in
      if n \<le> 1 then (n = 1, 1)
      else case rest of
        [] \<Rightarrow> (False, 1)
      | b # rest2 \<Rightarrow>
          if \<not> second_ok a b then (False, 1)
          else if n = 2 then (True, 2)
          else case rest2 of
            [] \<Rightarrow> (False, 2)
          | c # rest3 \<Rightarrow>
              if \<not> cont_byte c then (False, 2)
              else if n = 3 then (True, 3)
              else case rest3 of
                [] \<Rightarrow> (False, 3)
              | d # _ \<Rightarrow> if cont_byte d then (True, 4) else (False, 3))"

lemma utf8_step_len: "1 \<le> snd (utf8_step a rest)"
  by (auto simp: utf8_step_def Let_def split: list.splits)

lemma utf8_step_decreases:
  "(ok, n) = utf8_step a rest \<Longrightarrow> length (drop n (a # rest)) < length (a # rest)"
  using utf8_step_len [of a rest] by (metis diff_less length_drop length_greater_0_conv list.distinct(1)
      less_le_trans snd_conv zero_less_one)

function utf8_lossy :: "bytes \<Rightarrow> bytes" where
  "utf8_lossy [] = []"
| "utf8_lossy (a # rest) =
     (let (ok, n) = utf8_step a rest in
      (if ok then take n (a # rest) else [0xEF, 0xBF, 0xBD]) @ utf8_lossy (drop n (a # rest)))"
  by pat_completeness auto
termination
  by (relation "measure length") (auto dest: utf8_step_decreases)

function utf8_valid :: "bytes \<Rightarrow> bool" where
  "utf8_valid [] = True"
| "utf8_valid (a # rest) =
     (let (ok, n) = utf8_step a rest in ok \<and> utf8_valid (drop n (a # rest)))"
  by pat_completeness auto
termination
  by (relation "measure length") (auto dest: utf8_step_decreases)

declare utf8_lossy.simps(2) [simp del] utf8_valid.simps(2) [simp del]

lemma utf8_lossy_valid: "utf8_valid bs \<Longrightarrow> utf8_lossy bs = bs"
proof (induction bs rule: utf8_valid.induct)
  case (2 a rest)
  obtain ok n where s: "utf8_step a rest = (ok, n)" by force
  with 2 have "ok" "utf8_lossy (drop n (a # rest)) = drop n (a # rest)"
    by (auto simp: utf8_valid.simps)
  with s show ?case by (simp add: utf8_lossy.simps)
qed simp

lemma utf8_valid_ascii: "(\<And>b. b \<in> set bs \<Longrightarrow> b < 0x80) \<Longrightarrow> utf8_valid bs"
  by (induction bs) (auto simp: utf8_valid.simps utf8_step_def seq_len_def)

subsection \<open>Little-endian encodings and hexadecimal\<close>

text \<open>The \<open>k\<close> low bytes of a number, least significant first.\<close>

fun le_bytes :: "nat \<Rightarrow> nat \<Rightarrow> bytes" where
  "le_bytes 0 n = []"
| "le_bytes (Suc k) n = word_of_nat n # le_bytes k (n div 256)"

fun le_value :: "bytes \<Rightarrow> nat" where
  "le_value [] = 0"
| "le_value (b # bs) = unat b + 256 * le_value bs"

lemma length_le_bytes [simp]: "length (le_bytes k n) = k"
  by (induction k arbitrary: n) auto

lemma le_bytes_numeral:
  "le_bytes (numeral k) n = word_of_nat n # le_bytes (pred_numeral k) (n div 256)"
  by (simp only: numeral_eq_Suc [of k] le_bytes.simps)

lemma le_bytes_one: "le_bytes 1 n = [word_of_nat n]"
  by (simp add: One_nat_def)

lemma le_value_le_bytes [simp]: "le_value (le_bytes k n) = n mod 256 ^ k"
proof (induction k arbitrary: n)
  case (Suc k)
  have "n mod 256 ^ Suc k = 256 * (n div 256 mod 256 ^ k) + n mod 256"
    by (simp add: mod_mult2_eq)
  with Suc show ?case by (simp add: unat_of_nat)
qed simp

lemma le_value_bound: "le_value bs < 256 ^ length bs"
proof (induction bs)
  case (Cons b bs)
  have "unat b < 256" by (rule unat_byte_lt)
  with Cons show ?case by simp
qed simp

definition hex_digit :: "nat \<Rightarrow> char" where
  "hex_digit d = (if d < 10 then char_of (48 + d) else char_of (87 + d))"

definition hex :: "bytes \<Rightarrow> string" where
  "hex bs = concat (map (\<lambda>b. [hex_digit (unat b div 16), hex_digit (unat b mod 16)]) bs)"

definition is_hex :: "char \<Rightarrow> bool" where
  "is_hex c \<longleftrightarrow> (let n = of_char c :: nat in 48 \<le> n \<and> n \<le> 57 \<or> 97 \<le> n \<and> n \<le> 102)"

lemma is_hex_digit: "d < 16 \<Longrightarrow> is_hex (hex_digit d)"
  by (auto simp: is_hex_def hex_digit_def Let_def)

lemma is_hex_hex: "c \<in> set (hex bs) \<Longrightarrow> is_hex c"
  using unat_byte_lt by (auto simp: hex_def less_mult_imp_div_less intro!: is_hex_digit)

lemma length_hex [simp]: "length (hex bs) = 2 * length bs"
  by (induction bs) (auto simp: hex_def)

lemma is_hex_visible: "is_hex c \<Longrightarrow> visible c"
  by (auto simp: is_hex_def visible_def Let_def)

end
