(* ===== verification/Compress.thy ===== *)
theory Compress
  imports Byte_Text
begin

text \<open>
  Compression (libfw-core, \<open>compress.rs\<close> and the error types of \<open>error.rs\<close>): the formats and level
  negotiation, the passthrough and zrip compressors, the zstd frame-boundary parser and the
  decompressor that reassembles frames across arbitrary chunk boundaries.  The zrip codec itself is
  a parameter: a record of its encoder operations (with their own state type) and its decoder.
\<close>

subsection \<open>Errors\<close>

datatype io_kind =
    Io_NotFound | Io_AlreadyExists | Io_InvalidInput | Io_InvalidData | Io_UnexpectedEof
  | Io_NotADirectory | Io_IsADirectory | Io_PermissionDenied | Io_Other

datatype io_error = Io_error (io_kind: io_kind) (io_msg: string)

datatype compress_error = InvalidLevel int | Comp_Io io_error | Comp_Zrip string

datatype decompress_error = Truncated io_error | Decomp_Io io_error | Decomp_TooLarge nat

datatype storage_error =
    St_NotFound string
  | St_AlreadyExists string
  | St_TooLarge nat
  | WriteFailed nat io_error
  | Unsupported string
  | St_Other io_error

text \<open>The \<open>Display\<close> texts of the two coder errors.\<close>

fun decompress_error_display :: "decompress_error \<Rightarrow> string" where
  "decompress_error_display (Truncated e) = ''truncated compressed stream: '' @ io_msg e"
| "decompress_error_display (Decomp_Io e) = ''io error while decompressing: '' @ io_msg e"
| "decompress_error_display (Decomp_TooLarge limit) =
     ''frame output exceeds safety limit of '' @ show_nat limit @ '' bytes''"

definition show_int :: "int \<Rightarrow> string" where
  "show_int n = (if n < 0 then CHR ''-'' # show_nat (nat (- n)) else show_nat (nat n))"

fun compress_error_display :: "compress_error \<Rightarrow> string" where
  "compress_error_display (InvalidLevel l) = ''invalid compression level: '' @ show_int l"
| "compress_error_display (Comp_Io e) = ''io error while compressing: '' @ io_msg e"
| "compress_error_display (Comp_Zrip m) = ''zrip compression error: '' @ m"

definition write_failed :: "nat \<Rightarrow> io_error \<Rightarrow> storage_error" where
  "write_failed off source = WriteFailed off source"

subsection \<open>Formats and levels\<close>

datatype compression_format = Fmt_None | Fmt_Zrip

fun format_as_str :: "compression_format \<Rightarrow> string" where
  "format_as_str Fmt_None = ''identity''"
| "format_as_str Fmt_Zrip = ''zrip''"

definition parse_format_header :: "string \<Rightarrow> compression_format option" where
  "parse_format_header s =
     (let t = to_ascii_lowercase (str_trim s) in
      if t = [] \<or> t = ''identity'' \<or> t = ''none'' then Some Fmt_None
      else if t = ''zrip'' \<or> t = ''zstd'' then Some Fmt_Zrip
      else None)"

definition chunk_size :: nat where "chunk_size = 2 * 1024 * 1024"
definition stream_buf_size :: nat where "stream_buf_size = 64 * 1024"
definition max_frame_output :: nat where "max_frame_output = chunk_size"
definition max_pending_frame :: nat where "max_pending_frame = chunk_size + stream_buf_size"
definition max_output_per_call :: nat where "max_output_per_call = sat_mul max_frame_output 8"
definition zrip_default_level :: int where "zrip_default_level = 1"
definition zrip_min_level :: int where "zrip_min_level = -8"
definition zrip_max_level :: int where "zrip_max_level = 4"

definition is_valid_zrip_level :: "int \<Rightarrow> bool" where
  "is_valid_zrip_level level \<longleftrightarrow> zrip_min_level \<le> level \<and> level \<le> zrip_max_level"

definition negotiate_level :: "int option \<Rightarrow> int \<Rightarrow> int \<Rightarrow> int \<Rightarrow> int" where
  "negotiate_level req mn mx dflt =
     (if mx < mn then dflt
      else case req of None \<Rightarrow> dflt | Some l \<Rightarrow> if l < mn then mn else if mx < l then mx else l)"

subsection \<open>The zrip codec as a parameter\<close>

record 'e zrip =
  z_new :: "int \<Rightarrow> compress_error + 'e"
  z_write :: "'e \<Rightarrow> bytes \<Rightarrow> io_error + 'e"
  z_reset :: "'e \<Rightarrow> io_error + bytes \<times> 'e"
  z_finish :: "'e \<Rightarrow> io_error + bytes"
  z_decompress :: "bytes \<Rightarrow> nat \<Rightarrow> string + bytes"

subsection \<open>Compressors\<close>

datatype 'e compressor = Pass_C | Zrip_C (zc_encoder: "'e option") (zc_dirty: bool)

definition zrip_compressor_new :: "'e zrip \<Rightarrow> int \<Rightarrow> compress_error + 'e compressor" where
  "zrip_compressor_new z level = res_bind (z_new z level) (\<lambda>e. Inr (Zrip_C (Some e) False))"

definition compressor_with_level ::
  "'e zrip \<Rightarrow> compression_format \<Rightarrow> int \<Rightarrow> compress_error + 'e compressor" where
  "compressor_with_level z fmt level =
     (case fmt of Fmt_None \<Rightarrow> Inr Pass_C | Fmt_Zrip \<Rightarrow> zrip_compressor_new z level)"

definition compressor_new :: "'e zrip \<Rightarrow> compression_format \<Rightarrow> compress_error + 'e compressor" where
  "compressor_new z fmt = compressor_with_level z fmt zrip_default_level"

definition spent_error :: compress_error where
  "spent_error = Comp_Io (Io_error Io_Other ''compressor already finished'')"

text \<open>The bytes a call appends to \<open>out\<close>, and the compressor after it.\<close>

fun compress :: "'e zrip \<Rightarrow> 'e compressor \<Rightarrow> bytes \<Rightarrow> compress_error + bytes \<times> 'e compressor" where
  "compress z Pass_C input = Inr (input, Pass_C)"
| "compress z (Zrip_C enc dirty) input =
     (if input = [] then Inr ([], Zrip_C enc dirty)
      else res_bind (ok_or spent_error enc) (\<lambda>e.
           res_bind
             (if dirty then map_err Comp_Io (z_reset z e) else Inr ([], e))
             (\<lambda>(finished, e2).
           res_bind (map_err Comp_Io (z_write z e2 input))
             (\<lambda>e3. Inr (finished, Zrip_C (Some e3) True)))))"

fun compress_finish :: "'e zrip \<Rightarrow> 'e compressor \<Rightarrow> compress_error + bytes \<times> 'e compressor" where
  "compress_finish z Pass_C = Inr ([], Pass_C)"
| "compress_finish z (Zrip_C enc dirty) =
     res_bind (ok_or spent_error enc) (\<lambda>e.
     res_bind (map_err Comp_Io (z_finish z e)) (\<lambda>tail. Inr (tail, Zrip_C None False)))"

subsection \<open>Frame boundaries\<close>

datatype frame_boundary = Complete nat "nat option" | Incomplete | Invalid_frame

definition zstd_magic :: nat where "zstd_magic = 0xFD2FB528"
definition skippable_mask :: "32 word" where "skippable_mask = 0xFFFFFFF0"
definition skippable_magic :: nat where "skippable_magic = 0x184D2A50"

definition sub_bytes :: "bytes \<Rightarrow> nat \<Rightarrow> nat \<Rightarrow> bytes" where
  "sub_bytes b off n = take n (drop off b)"

definition skippable_frame_boundary :: "bytes \<Rightarrow> frame_boundary" where
  "skippable_frame_boundary buf =
     (if length buf < 8 then Incomplete
      else let skip = le_value (sub_bytes buf 4 4); tot = sat_add 8 skip in
        if tot \<le> length buf then Complete tot (Some 0) else Incomplete)"

text \<open>The block walk: the end of the last block, or why there is none.\<close>

function walk_blocks :: "bytes \<Rightarrow> nat \<Rightarrow> frame_boundary + nat" where
  "walk_blocks buf off =
     (if length buf < off + 3 then Inl Incomplete
      else let block_header = le_value (sub_bytes buf off 3);
               is_last = block_header mod 2 \<noteq> 0;
               block_type = (block_header div 2) mod 4;
               block_size = block_header div 8;
               off2 = off + (3 + block_size)
        in if block_type = 3 then Inl Invalid_frame
           else if max_pending_frame < off2 then Inl Invalid_frame
           else if is_last then Inr off2
           else walk_blocks buf off2)"
  by pat_completeness auto
termination
  by (relation "measure (\<lambda>(buf, off). length buf - off)") auto

declare walk_blocks.simps [simp del]

text \<open>What the descriptor byte says: checksum flag, header length, content-size field length.\<close>

definition descriptor_fields :: "byte \<Rightarrow> bool \<times> nat \<times> nat" where
  "descriptor_fields descriptor =
     (let single_segment = (descriptor AND 0x20 \<noteq> 0);
          checksum = (descriptor AND 0x04 \<noteq> 0);
          dict_id_flag = descriptor AND 0x03;
          fcs_flag = drop_bit 6 descriptor AND 0x03;
          dict_id_size = (if dict_id_flag = 0 then 0 else if dict_id_flag = 1 then 1
                          else if dict_id_flag = 2 then 2 else 4);
          fcs_size = (if fcs_flag = 0 then (if single_segment then 1 else 0)
                      else if fcs_flag = 1 then 2 else if fcs_flag = 2 then 4 else 8)
      in (checksum, 5 + (if single_segment then 0 else 1) + dict_id_size + fcs_size, fcs_size))"

definition zstd_frame_boundary :: "bytes \<Rightarrow> frame_boundary" where
  "zstd_frame_boundary buf =
     (if length buf < 5 then Incomplete
      else if buf ! 4 AND 0x18 \<noteq> 0 then Invalid_frame
      else let (checksum, hdr_len, fcs_size) = descriptor_fields (buf ! 4) in
        if length buf < hdr_len then Incomplete
        else let content_size =
                   (if 0 < fcs_size then Some (le_value (sub_bytes buf 5 fcs_size)) else None)
          in case walk_blocks buf hdr_len of
               Inl b \<Rightarrow> b
             | Inr off \<Rightarrow>
                 let off2 = (if checksum then off + 4 else off) in
                 if length buf < off2 then Incomplete else Complete off2 content_size)"

definition frame_boundary :: "bytes \<Rightarrow> frame_boundary" where
  "frame_boundary buf =
     (if length buf < 4 then Incomplete
      else let magic = le_value (sub_bytes buf 0 4) in
        if magic = zstd_magic then zstd_frame_boundary buf
        else if (word_of_nat magic AND skippable_mask) = word_of_nat skippable_magic
        then skippable_frame_boundary buf
        else Invalid_frame)"

subsection \<open>Decompressors\<close>

datatype decompressor = Pass_D | Zrip_D (zd_pending: bytes) (zd_finished: bool) (zd_max: nat)

definition zrip_decompressor_with_max_output :: "nat \<Rightarrow> decompressor" where
  "zrip_decompressor_with_max_output mx = Zrip_D [] False mx"

definition decompressor_with_limit :: "compression_format \<Rightarrow> nat \<Rightarrow> decompressor" where
  "decompressor_with_limit fmt mx =
     (case fmt of Fmt_None \<Rightarrow> Pass_D | Fmt_Zrip \<Rightarrow> zrip_decompressor_with_max_output mx)"

definition decompressor_new :: "compression_format \<Rightarrow> decompressor" where
  "decompressor_new fmt = decompressor_with_limit fmt max_output_per_call"

lemma walk_blocks_bounds: "walk_blocks buf off = Inr e \<Longrightarrow> off + 3 \<le> e"
proof (induction buf off rule: walk_blocks.induct)
  case (1 buf off)
  from "1.prems" show ?case
    by (subst (asm) walk_blocks.simps) (auto simp: Let_def split: if_splits dest!: 1(1))
qed

lemma descriptor_fields_bounds:
  "descriptor_fields d = (ch, h, f) \<Longrightarrow> 6 \<le> h \<and> 5 + f \<le> h"
  by (auto simp: descriptor_fields_def Let_def split: if_splits)

lemma walk_blocks_not_complete: "walk_blocks buf off \<noteq> Inl (Complete l c)"
proof (induction buf off rule: walk_blocks.induct)
  case (1 buf off)
  then show ?case by (subst walk_blocks.simps) (simp add: Let_def)
qed

lemma zstd_frame_boundary_Complete:
  "zstd_frame_boundary buf = Complete len cs \<longleftrightarrow>
    5 \<le> length buf \<and> buf ! 4 AND 0x18 = 0 \<and>
    (\<exists>ch h f off. descriptor_fields (buf ! 4) = (ch, h, f) \<and> h \<le> length buf \<and>
       walk_blocks buf h = Inr off \<and> len = (if ch then off + 4 else off) \<and> len \<le> length buf \<and>
       cs = (if 0 < f then Some (le_value (sub_bytes buf 5 f)) else None))"
proof -
  obtain ch h f where d: "descriptor_fields (buf ! 4) = (ch, h, f)" by (metis prod_cases3)
  show ?thesis
    unfolding zstd_frame_boundary_def d Let_def prod.case
    using walk_blocks_not_complete [of buf h len cs]
    by (cases "walk_blocks buf h") auto
qed

lemma zstd_frame_boundary_bounds:
  "zstd_frame_boundary buf = Complete len cs \<Longrightarrow> 8 \<le> len \<and> len \<le> length buf"
  unfolding zstd_frame_boundary_Complete
  using walk_blocks_bounds descriptor_fields_bounds by fastforce

lemma skippable_frame_boundary_bounds:
  "skippable_frame_boundary buf = Complete len cs \<Longrightarrow> 8 \<le> len \<and> len \<le> length buf"
  by (auto simp: skippable_frame_boundary_def sat_add_def u64_max_def Let_def split: if_splits)

lemma frame_boundary_bounds:
  "frame_boundary buf = Complete len cs \<Longrightarrow> 8 \<le> len \<and> len \<le> length buf"
  unfolding frame_boundary_def Let_def
  by (auto split: if_splits dest: zstd_frame_boundary_bounds skippable_frame_boundary_bounds)

lemma sub_bytes_append: "off + n \<le> length b \<Longrightarrow> sub_bytes (b @ c) off n = sub_bytes b off n"
  by (simp add: sub_bytes_def)

lemma sub_bytes_take: "off + n \<le> k \<Longrightarrow> sub_bytes (take k b) off n = sub_bytes b off n"
  by (simp add: sub_bytes_def drop_take min_def)

text \<open>
  What the walk answers depends only on the bytes it has read, so it is stable when more bytes
  arrive and when the bytes after the frame are cut off.
\<close>

lemma walk_blocks_append:
  "walk_blocks buf off = Inr e \<Longrightarrow> walk_blocks (buf @ c) off = Inr e"
  "walk_blocks buf off = Inl Invalid_frame \<Longrightarrow> walk_blocks (buf @ c) off = Inl Invalid_frame"
proof (induction buf off rule: walk_blocks.induct)
  case (1 buf off)
  note ih = 1
  have *: "walk_blocks (buf @ c) off = r"
    if w: "walk_blocks buf off = r" and r: "r \<noteq> Inl Incomplete"
      and rec: "\<And>o2. \<not> length buf < off + 3 \<Longrightarrow> o2 = off + (3 + le_value (sub_bytes buf off 3) div 8) \<Longrightarrow>
        \<not> max_pending_frame < o2 \<Longrightarrow> le_value (sub_bytes buf off 3) mod 2 = 0 \<Longrightarrow>
        (le_value (sub_bytes buf off 3) div 2) mod 4 \<noteq> 3 \<Longrightarrow>
        walk_blocks buf o2 = r \<Longrightarrow> walk_blocks (buf @ c) o2 = r" for r
  proof -
    have l: "\<not> length buf < off + 3" using w r by (subst (asm) walk_blocks.simps) auto
    then have s: "sub_bytes (buf @ c) off 3 = sub_bytes buf off 3" by (intro sub_bytes_append) simp
    from w l rec [OF l refl] show ?thesis
      by (subst walk_blocks.simps, subst (asm) walk_blocks.simps)
        (simp add: s Let_def split: if_splits)
  qed
  {
    case 1
    then show ?case by (rule *) (auto intro!: ih(1) simp: Let_def)
  next
    case 2
    then show ?case by (rule *) (auto intro!: ih(2) simp: Let_def)
  }
qed

lemma walk_blocks_take:
  "walk_blocks buf off = Inr e \<Longrightarrow> e \<le> k \<Longrightarrow> k \<le> length buf \<Longrightarrow> walk_blocks (take k buf) off = Inr e"
proof (induction buf off rule: walk_blocks.induct)
  case (1 buf off)
  let ?o2 = "off + (3 + le_value (sub_bytes buf off 3) div 8)"
  have b: "off + 3 \<le> e" using walk_blocks_bounds "1.prems"(1) by blast
  with "1.prems" have l: "\<not> length buf < off + 3" "\<not> length (take k buf) < off + 3" by auto
  have s: "sub_bytes (take k buf) off 3 = sub_bytes buf off 3"
    using b "1.prems" by (intro sub_bytes_take) simp
  have w: "(if (le_value (sub_bytes buf off 3) div 2) mod 4 = 3 then Inl Invalid_frame
     else if max_pending_frame < ?o2 then Inl Invalid_frame
     else if le_value (sub_bytes buf off 3) mod 2 \<noteq> 0 then Inr ?o2 else walk_blocks buf ?o2) = Inr e"
    using "1.prems"(1) l(1) unfolding walk_blocks.simps [of buf off] Let_def by (simp only: if_False)
  show ?case
  proof (cases "le_value (sub_bytes buf off 3) mod 2 \<noteq> 0")
    case True
    with True w l s show ?thesis by (subst walk_blocks.simps) (auto simp: Let_def split: if_splits)
  next
    case False
    with w have "walk_blocks buf ?o2 = Inr e" "\<not> max_pending_frame < ?o2"
      "(le_value (sub_bytes buf off 3) div 2) mod 4 \<noteq> 3" by (auto split: if_splits)
    then have "walk_blocks (take k buf) ?o2 = Inr e"
      using "1.IH" [OF l(1) refl refl refl refl refl] "1.prems" False by simp
    with w l s False show ?thesis by (subst walk_blocks.simps) (auto simp: Let_def split: if_splits)
  qed
qed

lemma nth_take_append: "i < length b \<Longrightarrow> (b @ c) ! i = b ! i"
  by (simp add: nth_append)

lemma zstd_frame_boundary_append:
  "zstd_frame_boundary buf = Complete len cs \<Longrightarrow> zstd_frame_boundary (buf @ extra) = Complete len cs"
proof -
  assume a: "zstd_frame_boundary buf = Complete len cs"
  then obtain ch h f off where d: "5 \<le> length buf" "buf ! 4 AND 0x18 = 0"
    "descriptor_fields (buf ! 4) = (ch, h, f)" "h \<le> length buf" "walk_blocks buf h = Inr off"
    "len = (if ch then off + 4 else off)" "len \<le> length buf"
    "cs = (if 0 < f then Some (le_value (sub_bytes buf 5 f)) else None)"
    unfolding zstd_frame_boundary_Complete by blast
  have "(buf @ extra) ! 4 = buf ! 4" using d(1) by (simp add: nth_append)
  moreover have "sub_bytes (buf @ extra) 5 f = sub_bytes buf 5 f"
    using d(4) descriptor_fields_bounds [OF d(3)] by (intro sub_bytes_append) simp
  ultimately show ?thesis
    unfolding zstd_frame_boundary_Complete using d walk_blocks_append(1) [OF d(5)] by auto
qed

lemma zstd_frame_boundary_take:
  "zstd_frame_boundary buf = Complete len cs \<Longrightarrow> zstd_frame_boundary (take len buf) = Complete len cs"
proof -
  assume a: "zstd_frame_boundary buf = Complete len cs"
  then obtain ch h f off where d: "5 \<le> length buf" "buf ! 4 AND 0x18 = 0"
    "descriptor_fields (buf ! 4) = (ch, h, f)" "h \<le> length buf" "walk_blocks buf h = Inr off"
    "len = (if ch then off + 4 else off)" "len \<le> length buf"
    "cs = (if 0 < f then Some (le_value (sub_bytes buf 5 f)) else None)"
    unfolding zstd_frame_boundary_Complete by blast
  have b: "h + 3 \<le> off" "8 \<le> len" "5 + f \<le> h"
    using walk_blocks_bounds [OF d(5)] zstd_frame_boundary_bounds [OF a] descriptor_fields_bounds [OF d(3)]
    by auto
  then have "off \<le> len" "h \<le> len" using d(6) by (auto split: if_splits)
  then have "walk_blocks (take len buf) h = Inr off" using d(5,7) by (intro walk_blocks_take)
  moreover have "sub_bytes (take len buf) 5 f = sub_bytes buf 5 f"
    using b \<open>h \<le> len\<close> by (intro sub_bytes_take) simp
  ultimately show ?thesis
    unfolding zstd_frame_boundary_Complete using d b \<open>h \<le> len\<close> by simp
qed

lemma frame_boundary_append:
  "frame_boundary buf = Complete len cs \<Longrightarrow> frame_boundary (buf @ extra) = Complete len cs"
proof -
  assume a: "frame_boundary buf = Complete len cs"
  have l: "8 \<le> length buf" using frame_boundary_bounds [OF a] by simp
  then have s: "sub_bytes (buf @ extra) 0 4 = sub_bytes buf 0 4" "sub_bytes (buf @ extra) 4 4 = sub_bytes buf 4 4"
    by (simp_all add: sub_bytes_append)
  have "skippable_frame_boundary buf = Complete len cs \<Longrightarrow>
      skippable_frame_boundary (buf @ extra) = Complete len cs"
    using l by (auto simp: skippable_frame_boundary_def Let_def s split: if_splits)
  with a l zstd_frame_boundary_append [of buf len cs extra] show ?thesis
    by (auto simp: frame_boundary_def Let_def s split: if_splits)
qed

lemma frame_boundary_take:
  "frame_boundary buf = Complete len cs \<Longrightarrow> frame_boundary (take len buf) = Complete len cs"
proof -
  assume a: "frame_boundary buf = Complete len cs"
  have l: "8 \<le> len" "len \<le> length buf" using frame_boundary_bounds [OF a] by simp_all
  then have s: "sub_bytes (take len buf) 0 4 = sub_bytes buf 0 4"
    "sub_bytes (take len buf) 4 4 = sub_bytes buf 4 4"
    by (simp_all add: sub_bytes_take)
  have "skippable_frame_boundary buf = Complete len cs \<Longrightarrow>
      skippable_frame_boundary (take len buf) = Complete len cs"
    using l by (auto simp: skippable_frame_boundary_def Let_def s split: if_splits)
  with a l zstd_frame_boundary_take [of buf len cs] show ?thesis
    by (auto simp: frame_boundary_def Let_def s split: if_splits)
qed

text \<open>
  The frame-boundary parser never looks past the frame it reports: a complete frame lies within
  the buffer, is at least 8 bytes long, and the answer is the same when the bytes after the frame
  are cut off or when any bytes follow.
\<close>

theorem frame_boundary_stable:
  assumes "frame_boundary buf = Complete len cs"
  shows "8 \<le> len \<and> len \<le> length buf \<and> frame_boundary (take len buf @ extra) = Complete len cs"
  using frame_boundary_bounds [OF assms] frame_boundary_append [OF frame_boundary_take [OF assms]]
  by blast

subsection \<open>Draining frames\<close>

definition invalid_frame_error :: decompress_error where
  "invalid_frame_error = Decomp_Io (Io_error Io_InvalidData ''invalid zstd frame data'')"

text \<open>
  The loop of \<open>drain_frames\<close>: the bytes appended to \<open>out\<close> and the final \<open>consumed\<close> cursor.
\<close>

function drain_loop ::
  "'e zrip \<Rightarrow> nat \<Rightarrow> bytes \<Rightarrow> nat \<Rightarrow> nat \<Rightarrow> bytes \<Rightarrow> decompress_error + bytes \<times> nat" where
  "drain_loop z max_add pending consumed added out =
     (case frame_boundary (drop consumed pending) of
        Complete len content_size \<Rightarrow>
          (if (case content_size of Some cs \<Rightarrow> max_frame_output < cs | None \<Rightarrow> False)
           then Inl (Decomp_TooLarge max_frame_output)
           else case z_decompress z (sub_bytes pending consumed len) max_frame_output of
                  Inl e \<Rightarrow> Inl (Decomp_Io (Io_error Io_InvalidData e))
                | Inr decoded \<Rightarrow>
                    if max_add < sat_add added (length decoded)
                    then Inl (Decomp_TooLarge max_add)
                    else drain_loop z max_add pending (consumed + len)
                           (sat_add added (length decoded)) (out @ decoded))
      | Incomplete \<Rightarrow> Inr (out, consumed)
      | Invalid_frame \<Rightarrow> Inl invalid_frame_error)"
  by pat_completeness auto
termination
  by (relation "measure (\<lambda>(z, max_add, pending, consumed, added, out). length pending - consumed)")
    (auto dest!: frame_boundary_bounds)

declare drain_loop.simps [simp del]

text \<open>\<open>drain_frames\<close>: the bytes appended and the compacted \<open>pending\<close>.\<close>

definition drain_frames :: "'e zrip \<Rightarrow> bytes \<Rightarrow> nat \<Rightarrow> decompress_error + bytes \<times> bytes" where
  "drain_frames z pending max_add =
     res_bind (drain_loop z max_add pending 0 0 [])
       (\<lambda>(out, consumed). Inr (out, if 0 < consumed then drop consumed pending else pending))"

fun decompress :: "'e zrip \<Rightarrow> decompressor \<Rightarrow> bytes \<Rightarrow> decompress_error + bytes \<times> decompressor" where
  "decompress z Pass_D input = Inr (input, Pass_D)"
| "decompress z (Zrip_D pending finished mx) input =
     (if finished then Inl (Decomp_Io (Io_error Io_Other ''decompressor already finished''))
      else let pending2 = (if input \<noteq> [] then pending @ input else pending) in
        res_bind (drain_frames z pending2 mx) (\<lambda>(out, pending3).
          if max_pending_frame < length pending3 then Inl (Decomp_TooLarge max_pending_frame)
          else Inr (out, Zrip_D pending3 finished mx)))"

fun decompress_finish :: "'e zrip \<Rightarrow> decompressor \<Rightarrow> decompress_error + bytes \<times> decompressor" where
  "decompress_finish z Pass_D = Inr ([], Pass_D)"
| "decompress_finish z (Zrip_D pending finished mx) =
     (if finished then Inr ([], Zrip_D pending finished mx)
      else res_bind (drain_frames z pending mx) (\<lambda>(out, pending2).
        if pending2 \<noteq> []
        then Inl (Truncated (Io_error Io_UnexpectedEof
               (show_nat (length pending2) @ '' trailing compressed bytes'')))
        else Inr (out, Zrip_D pending2 True mx)))"

text \<open>A whole stream: its chunks in order, then the end.\<close>

fun feed :: "'e zrip \<Rightarrow> decompressor \<Rightarrow> bytes list \<Rightarrow> decompress_error + bytes \<times> decompressor" where
  "feed z d [] = Inr ([], d)"
| "feed z d (c # cs) =
     res_bind (decompress z d c) (\<lambda>(o1, d1).
     res_bind (feed z d1 cs) (\<lambda>(o2, d2). Inr (o1 @ o2, d2)))"

definition feed_all :: "'e zrip \<Rightarrow> decompressor \<Rightarrow> bytes list \<Rightarrow> decompress_error + bytes" where
  "feed_all z d cs =
     res_bind (feed z d cs) (\<lambda>(o1, d1).
     res_bind (decompress_finish z d1) (\<lambda>(o2, _). Inr (o1 @ o2)))"

fun compress_chunks :: "'e zrip \<Rightarrow> 'e compressor \<Rightarrow> bytes list \<Rightarrow> compress_error + bytes" where
  "compress_chunks z c [] = res_bind (compress_finish z c) (\<lambda>(t, _). Inr t)"
| "compress_chunks z c (x # xs) =
     res_bind (compress z c x) (\<lambda>(o1, c1).
     res_bind (compress_chunks z c1 xs) (\<lambda>o2. Inr (o1 @ o2)))"

subsection \<open>Bounds of a call\<close>

lemma drain_loop_budget:
  "drain_loop z mx p k a out = Inr (out2, k2) \<Longrightarrow> a \<le> mx \<Longrightarrow> mx < u64_max \<Longrightarrow>
   k \<le> length p \<Longrightarrow>
   length out2 \<le> length out + (mx - a) \<and> k \<le> k2 \<and> k2 \<le> length p \<and> prefix out out2 \<and>
   frame_boundary (drop k2 p) = Incomplete"
proof (induction z mx p k a out rule: drain_loop.induct)
  case (1 z mx p k a out)
  show ?case
  proof (cases "frame_boundary (drop k p)")
    case (Complete len cs)
    have b: "len \<le> length p - k" using frame_boundary_bounds [OF Complete] by simp
    obtain dec where d: "\<not> (case cs of Some c \<Rightarrow> max_frame_output < c | None \<Rightarrow> False)"
      "z_decompress z (sub_bytes p k len) max_frame_output = Inr dec"
      "\<not> mx < sat_add a (length dec)"
      "drain_loop z mx p (k + len) (sat_add a (length dec)) (out @ dec) = Inr (out2, k2)"
      using "1.prems"(1) Complete unfolding drain_loop.simps [of z mx p k a out]
      by (auto split: if_splits sum.splits)
    have "sat_add a (length dec) = a + length dec"
      using d(3) "1.prems"(3) by (intro sat_add_bound [of _ _ mx]) auto
    moreover have "k + len \<le> length p" using b "1.prems"(4) frame_boundary_bounds [OF Complete] by simp
    ultimately show ?thesis using "1.IH" [OF Complete d(1,2,3,4)] d(3) "1.prems" b
      by (auto simp: prefix_def)
  next
    case Incomplete
    with "1.prems" show ?thesis unfolding drain_loop.simps [of z mx p k a out] by auto
  next
    case Invalid_frame
    with "1.prems" show ?thesis unfolding drain_loop.simps [of z mx p k a out] by auto
  qed
qed

text \<open>A larger limit gives the same bytes.\<close>

lemma drain_loop_limit:
  "drain_loop z mx p k a out = Inr r \<Longrightarrow> mx \<le> mx2 \<Longrightarrow> drain_loop z mx2 p k a out = Inr r"
proof (induction z mx p k a out rule: drain_loop.induct)
  case (1 z mx p k a out)
  show ?case
  proof (cases "frame_boundary (drop k p)")
    case (Complete len cs)
    obtain dec where d: "\<not> (case cs of Some c \<Rightarrow> max_frame_output < c | None \<Rightarrow> False)"
      "z_decompress z (sub_bytes p k len) max_frame_output = Inr dec"
      "\<not> mx < sat_add a (length dec)"
      "drain_loop z mx p (k + len) (sat_add a (length dec)) (out @ dec) = Inr r"
      using "1.prems"(1) Complete unfolding drain_loop.simps [of z mx p k a out]
      by (auto split: if_splits sum.splits)
    have "drain_loop z mx2 p (k + len) (sat_add a (length dec)) (out @ dec) = Inr r"
      by (rule "1.IH" [OF Complete d "1.prems"(2)])
    then show ?thesis
      unfolding drain_loop.simps [of z mx2 p k a out] using Complete d(1-3) "1.prems"(2) by simp
  qed (use "1.prems" in \<open>simp_all add: drain_loop.simps [of z mx p k a out] drain_loop.simps [of z mx2 p k a out]\<close>)
qed

lemma drain_frames_limit:
  assumes "drain_frames z p mx = Inr r" and "mx \<le> mx2"
  shows "drain_frames z p mx2 = Inr r"
proof -
  obtain q where q: "drain_loop z mx p 0 0 [] = Inr q"
    "(case q of (out, consumed) \<Rightarrow> Inr (out, if 0 < consumed then drop consumed p else p)) = Inr r"
    using assms(1) by (auto simp: drain_frames_def res_bind_Inr)
  then show ?thesis using drain_loop_limit [OF q(1) assms(2)] by (cases q) (simp add: drain_frames_def)
qed

lemma feed_limit:
  "feed z (Zrip_D pd fin mx) cs = Inr (out, d) \<Longrightarrow> mx \<le> mx2 \<Longrightarrow>
    \<exists>p2 f2. d = Zrip_D p2 f2 mx \<and> feed z (Zrip_D pd fin mx2) cs = Inr (out, Zrip_D p2 f2 mx2)"
proof (induction cs arbitrary: pd fin out)
  case (Cons c cs)
  then obtain o1 p1 o2 where c: "\<not> fin" "drain_frames z (if c \<noteq> [] then pd @ c else pd) mx = Inr (o1, p1)"
    "\<not> max_pending_frame < length p1" "feed z (Zrip_D p1 fin mx) cs = Inr (o2, d)" "out = o1 @ o2"
    by (auto simp: res_bind_Inr Let_def split: if_splits)
  with Cons.IH [OF c(4) Cons.prems(2)] drain_frames_limit [OF c(2) Cons.prems(2)] show ?case
    by (auto simp: res_bind_Inr Let_def)
qed simp

lemma feed_all_limit:
  assumes "feed_all z (decompressor_with_limit fmt mx) cs = Inr out" and "mx \<le> mx2"
  shows "feed_all z (decompressor_with_limit fmt mx2) cs = Inr out"
proof (cases fmt)
  case Fmt_Zrip
  obtain o1 d o2 d2 where f: "feed z (Zrip_D [] False mx) cs = Inr (o1, d)" "decompress_finish z d = Inr (o2, d2)" "out = o1 @ o2"
    using assms(1) Fmt_Zrip
    by (auto simp: feed_all_def decompressor_with_limit_def zrip_decompressor_with_max_output_def res_bind_Inr)
  from feed_limit [OF f(1) assms(2)] obtain p2 f2 where
    d: "d = Zrip_D p2 f2 mx" "feed z (Zrip_D [] False mx2) cs = Inr (o1, Zrip_D p2 f2 mx2)" by blast
  have "\<exists>d3. decompress_finish z (Zrip_D p2 f2 mx2) = Inr (o2, d3)"
    using f(2) d(1) drain_frames_limit [OF _ assms(2)] by (auto simp: res_bind_Inr split: if_splits)
  with d(2) f(3) Fmt_Zrip show ?thesis
    by (auto simp: feed_all_def decompressor_with_limit_def zrip_decompressor_with_max_output_def res_bind_Inr)
qed (use assms in \<open>simp add: decompressor_with_limit_def\<close>)

lemma drain_frames_budget:
  assumes "drain_frames z p mx = Inr (out, p2)" and "mx < u64_max"
  shows "length out \<le> mx \<and> suffix p2 p \<and> frame_boundary p2 = Incomplete"
proof -
  from assms(1) obtain k where k: "drain_loop z mx p 0 0 [] = Inr (out, k)" "p2 = drop k p"
    by (auto simp: drain_frames_def res_bind_Inr split: if_splits)
  from drain_loop_budget [OF k(1)] assms(2) k(2) show ?thesis
    by (auto simp: suffix_drop)
qed


subsection \<open>Reassembly\<close>

lemma zstd_frame_boundary_invalid_append:
  assumes "zstd_frame_boundary buf = Invalid_frame"
  shows "zstd_frame_boundary (buf @ extra) = Invalid_frame"
proof -
  obtain ch h f where d: "descriptor_fields (buf ! 4) = (ch, h, f)" by (metis prod_cases3)
  have l: "5 \<le> length buf" using assms by (auto simp: zstd_frame_boundary_def split: if_splits)
  then have n: "(buf @ extra) ! 4 = buf ! 4" by (simp add: nth_append)
  show ?thesis
  proof (cases "buf ! 4 AND 0x18 = 0")
    case True
    then have w: "walk_blocks buf h = Inl Invalid_frame" and h: "h \<le> length buf"
      using assms l d unfolding zstd_frame_boundary_def Let_def
      by (auto split: if_splits sum.splits)
    have "walk_blocks (buf @ extra) h = Inl Invalid_frame" by (rule walk_blocks_append(2) [OF w])
    with True l h d n show ?thesis unfolding zstd_frame_boundary_def Let_def by simp
  next
    case False
    with l n show ?thesis unfolding zstd_frame_boundary_def by simp
  qed
qed

lemma frame_boundary_invalid_append:
  assumes "frame_boundary buf = Invalid_frame"
  shows "frame_boundary (buf @ extra) = Invalid_frame"
proof -
  have l: "4 \<le> length buf" using assms by (auto simp: frame_boundary_def split: if_splits)
  then have s: "sub_bytes (buf @ extra) 0 4 = sub_bytes buf 0 4" by (simp add: sub_bytes_append)
  have "skippable_frame_boundary buf \<noteq> Invalid_frame"
    by (simp add: skippable_frame_boundary_def Let_def)
  with assms l zstd_frame_boundary_invalid_append [of buf extra] show ?thesis
    by (auto simp: frame_boundary_def Let_def s split: if_splits)
qed

text \<open>A frame the decompressor takes whole, and the content it stands for.\<close>

definition good_frame :: "'e zrip \<Rightarrow> bytes \<Rightarrow> bytes \<Rightarrow> bool" where
  "good_frame z f x \<longleftrightarrow>
     (case frame_boundary f of
        Complete l cs \<Rightarrow> l = length f \<and> (case cs of Some c \<Rightarrow> c \<le> max_frame_output | None \<Rightarrow> True)
      | _ \<Rightarrow> False) \<and>
     length f \<le> max_pending_frame \<and> z_decompress z f max_frame_output = Inr x"

lemma good_frame_boundary:
  assumes "good_frame z f x"
  obtains cs where "frame_boundary f = Complete (length f) cs"
    "\<not> (case cs of Some c \<Rightarrow> max_frame_output < c | None \<Rightarrow> False)"
  using assms unfolding good_frame_def
  by (auto split: frame_boundary.splits option.splits)

lemma good_frame_prefix_incomplete:
  assumes "good_frame z f x" and "strict_prefix t f"
  shows "frame_boundary t = Incomplete"
proof -
  obtain u where u: "f = t @ u" "u \<noteq> []" using assms(2) by (auto simp: strict_prefix_def prefix_def)
  obtain cs where c: "frame_boundary f = Complete (length f) cs"
    using good_frame_boundary [OF assms(1)] by metis
  show ?thesis
  proof (cases "frame_boundary t")
    case (Complete l c2)
    with frame_boundary_append [OF Complete, of u] frame_boundary_bounds [OF Complete] c u
    show ?thesis by simp
  next
    case Invalid_frame
    with frame_boundary_invalid_append [OF Invalid_frame, of u] c u show ?thesis by simp
  qed simp
qed

type_synonym frames = "(bytes \<times> bytes) list"

abbreviation frame_bytes :: "frames \<Rightarrow> bytes" where
  "frame_bytes fs \<equiv> concat (map fst fs)"

abbreviation frame_content :: "frames \<Rightarrow> bytes" where
  "frame_content fs \<equiv> concat (map snd fs)"

definition good_frames :: "'e zrip \<Rightarrow> frames \<Rightarrow> bool" where
  "good_frames z fs \<longleftrightarrow> list_all (\<lambda>(f, x). good_frame z f x) fs"

lemma drain_loop_frames:
  assumes "good_frames z fs" and "frame_boundary t = Incomplete"
    and "a + length (frame_content fs) \<le> mx" and "mx < u64_max"
  shows "drain_loop z mx (pre @ frame_bytes fs @ t) (length pre) a out =
    Inr (out @ frame_content fs, length pre + length (frame_bytes fs))"
  using assms(1,3)
proof (induction fs arbitrary: pre a out)
  case Nil
  then show ?case using assms(2) by (subst drain_loop.simps) simp
next
  case (Cons p fs)
  obtain f x where p: "p = (f, x)" by force
  with Cons.prems(1) have g: "good_frame z f x" "good_frames z fs" by (auto simp: good_frames_def)
  from g(1) obtain cs where c: "frame_boundary f = Complete (length f) cs"
    "\<not> (case cs of Some c \<Rightarrow> max_frame_output < c | None \<Rightarrow> False)" by (rule good_frame_boundary)
  from frame_boundary_append [OF c(1)] have b:
    "frame_boundary (drop (length pre) (pre @ frame_bytes (p # fs) @ t)) = Complete (length f) cs"
    by (simp add: p)
  have d: "sub_bytes (pre @ frame_bytes (p # fs) @ t) (length pre) (length f) = f"
    by (simp add: sub_bytes_def p)
  have a: "sat_add a (length x) = a + length x" "\<not> mx < a + length x"
    using Cons.prems(2) assms(4) p by simp_all
  have "drain_loop z mx (pre @ frame_bytes (p # fs) @ t) (length pre) a out =
      drain_loop z mx ((pre @ f) @ frame_bytes fs @ t) (length (pre @ f)) (a + length x) (out @ x)"
    using g(1) c(2) b d a by (subst drain_loop.simps) (simp add: good_frame_def p)
  also have "\<dots> = Inr ((out @ x) @ frame_content fs, length (pre @ f) + length (frame_bytes fs))"
    using Cons.prems(2) p by (intro Cons.IH) (use g in auto)
  finally show ?case by (simp add: p)
qed

text \<open>What a buffer cut anywhere out of a stream of frames holds.\<close>

definition partial_next :: "bytes \<Rightarrow> frames \<Rightarrow> bool" where
  "partial_next t fs \<longleftrightarrow> (case fs of [] \<Rightarrow> t = [] | (f, x) # _ \<Rightarrow> strict_prefix t f)"

lemma split_frames:
  assumes "good_frames z fs" and "p @ r = frame_bytes fs"
  obtains ds rs t where "fs = ds @ rs" "p = frame_bytes ds @ t" "partial_next t rs"
    "t @ r = frame_bytes rs"
proof -
  have "\<exists>ds rs t. fs = ds @ rs \<and> p = frame_bytes ds @ t \<and> partial_next t rs \<and> t @ r = frame_bytes rs"
    using assms
  proof (induction fs arbitrary: p)
    case Nil
    then show ?case by (simp add: partial_next_def)
  next
    case (Cons fx fs)
    obtain f x where fx: "fx = (f, x)" by force
    show ?case
    proof (cases "length f \<le> length p")
      case True
      with Cons.prems fx obtain q where q: "p = f @ q" "q @ r = frame_bytes fs"
        by (auto simp: append_eq_append_conv2)
      from Cons.IH [OF _ q(2)] Cons.prems(1) obtain ds rs t where
        "fs = ds @ rs" "q = frame_bytes ds @ t" "partial_next t rs" "t @ r = frame_bytes rs"
        by (auto simp: good_frames_def)
      then show ?thesis using fx q by (intro exI [of _ "fx # ds"] exI [of _ rs] exI [of _ t]) simp
    next
      case False
      with Cons.prems(2) fx have "strict_prefix p f"
        by (auto simp: append_eq_append_conv2 strict_prefix_def prefix_def)
      then show ?thesis using Cons.prems(2) fx
        by (intro exI [of _ "[]"] exI [of _ "fx # fs"] exI [of _ p]) (simp add: partial_next_def)
    qed
  qed
  then show ?thesis using that by blast
qed

lemma partial_next_incomplete:
  assumes "good_frames z rs" and "partial_next t rs"
  shows "frame_boundary t = Incomplete \<and> length t \<le> max_pending_frame"
proof (cases rs)
  case Nil
  with assms show ?thesis by (simp add: partial_next_def frame_boundary_def)
next
  case (Cons fx fs)
  obtain f x where fx: "fx = (f, x)" by force
  with assms Cons have g: "good_frame z f x" "strict_prefix t f"
    by (auto simp: good_frames_def partial_next_def)
  then have "length t < length f" by (auto dest: prefix_length_less)
  with g show ?thesis using good_frame_prefix_incomplete by (auto simp: good_frame_def)
qed

lemma good_frames_append [simp]:
  "good_frames z (ds @ rs) \<longleftrightarrow> good_frames z ds \<and> good_frames z rs"
  by (simp add: good_frames_def)

text \<open>One call: the frames completed by the input are decoded, the rest is kept.\<close>

lemma decompress_step:
  assumes "good_frames z fs" and "t @ c @ r = frame_bytes fs"
    and "length (frame_content fs) \<le> mx" and "mx < u64_max"
  obtains ds rs u where "fs = ds @ rs" "u @ r = frame_bytes rs" "partial_next u rs"
    "decompress z (Zrip_D t False mx) c = Inr (frame_content ds, Zrip_D u False mx)"
proof -
  have eq: "(t @ c) @ r = frame_bytes fs" using assms(2) by simp
  obtain ds rs u where f: "fs = ds @ rs" "t @ c = frame_bytes ds @ u" "partial_next u rs"
    "u @ r = frame_bytes rs" by (rule split_frames [OF assms(1) eq])
  from f(1) assms(1) have g: "good_frames z ds" "good_frames z rs" by simp_all
  from partial_next_incomplete [OF g(2) f(3)] have u: "frame_boundary u = Incomplete"
    "length u \<le> max_pending_frame" by simp_all
  have "length (frame_content ds) \<le> mx" using f(1) assms(3) by simp
  then have "drain_loop z mx (frame_bytes ds @ u) 0 0 [] =
      Inr (frame_content ds, length (frame_bytes ds))"
    using drain_loop_frames [OF g(1) u(1) _ assms(4), of 0 "[]" "[]"] by simp
  then have "drain_frames z (t @ c) mx = Inr (frame_content ds, u)"
    by (simp add: drain_frames_def f(2))
  moreover have "(if c \<noteq> [] then t @ c else t) = t @ c" by simp
  ultimately have "decompress z (Zrip_D t False mx) c = Inr (frame_content ds, Zrip_D u False mx)"
    using u(2) by (simp only: decompress.simps Let_def) simp
  with f show ?thesis by (intro that)
qed

lemma feed_all_Cons:
  "feed_all z d (c # cs) =
    res_bind (decompress z d c) (\<lambda>(o1, d1). res_bind (feed_all z d1 cs) (\<lambda>o2. Inr (o1 @ o2)))"
proof (cases "decompress z d c")
  case (Inr p)
  obtain o1 d1 where p: "p = (o1, d1)" by force
  show ?thesis
  proof (cases "feed z d1 cs")
    case (Inr q)
    with \<open>decompress z d c = Inr p\<close> p show ?thesis
      by (cases q; cases "decompress_finish z (snd q)") (auto simp: feed_all_def)
  qed (use Inr p in \<open>simp add: feed_all_def\<close>)
qed (simp add: feed_all_def)

lemma feed_frames:
  assumes "good_frames z fs" and "t @ concat cs = frame_bytes fs" and "partial_next t fs"
    and "length (frame_content fs) \<le> mx" and "mx < u64_max"
  shows "feed_all z (Zrip_D t False mx) cs = Inr (frame_content fs)"
  using assms(1-4)
proof (induction cs arbitrary: fs t)
  case Nil
  have "fs = []"
  proof (rule ccontr)
    assume "fs \<noteq> []"
    then obtain f x fs2 where fs: "fs = (f, x) # fs2" by (metis list.exhaust prod.exhaust)
    with Nil have "strict_prefix (f @ frame_bytes fs2) f" by (simp add: partial_next_def)
    then have "length (f @ frame_bytes fs2) < length f" by (rule prefix_length_less)
    then show False by simp
  qed
  moreover from this Nil have "t = []" by (simp add: partial_next_def)
  moreover have "drain_frames z [] mx = Inr ([], [])"
    by (simp add: drain_frames_def drain_loop.simps frame_boundary_def)
  ultimately show ?case by (simp add: feed_all_def)
next
  case (Cons c cs)
  have eq: "t @ c @ concat cs = frame_bytes fs" using Cons.prems(2) by simp
  obtain ds rs u where d: "fs = ds @ rs" "u @ concat cs = frame_bytes rs" "partial_next u rs"
    "decompress z (Zrip_D t False mx) c = Inr (frame_content ds, Zrip_D u False mx)"
    by (rule decompress_step [OF Cons.prems(1) eq Cons.prems(4) assms(5)])
  have "feed_all z (Zrip_D u False mx) cs = Inr (frame_content rs)"
    using Cons.prems d by (intro Cons.IH) simp_all
  with d(4) show ?case using d(1) by (simp add: feed_all_Cons del: decompress.simps)
qed

text \<open>
  The documented behaviour of the encoder and the decoder, for encoder states \<open>e\<close> related to the
  bytes written since the last reset: an operation on a valid state succeeds, \<open>reset\<close> and
  \<open>finish\<close> return a frame that decodes to those bytes (\<open>finish\<close> may return nothing for nothing).
\<close>

definition zrip_ok :: "'e zrip \<Rightarrow> ('e \<Rightarrow> bytes \<Rightarrow> bool) \<Rightarrow> bool" where
  "zrip_ok z R \<longleftrightarrow>
     (\<forall>l. is_valid_zrip_level l \<longrightarrow> (\<exists>e. z_new z l = Inr e \<and> R e [])) \<and>
     (\<forall>e x y. R e x \<longrightarrow> (\<exists>e2. z_write z e y = Inr e2 \<and> R e2 (x @ y))) \<and>
     (\<forall>e x. R e x \<and> length x \<le> chunk_size \<longrightarrow>
        (\<exists>f e2. z_reset z e = Inr (f, e2) \<and> R e2 [] \<and> good_frame z f x)) \<and>
     (\<forall>e x. R e x \<and> length x \<le> chunk_size \<longrightarrow>
        (\<exists>f. z_finish z e = Inr f \<and> (good_frame z f x \<or> x = [] \<and> f = [])))"

lemma compress_chunks_frames:
  assumes "zrip_ok z R" and "R e cur" and "length cur \<le> chunk_size"
    and "\<forall>x\<in>set xs. length x \<le> chunk_size"
  shows "\<exists>fs. compress_chunks z (Zrip_C (Some e) (cur \<noteq> [])) xs = Inr (frame_bytes fs) \<and>
    good_frames z fs \<and> frame_content fs = cur @ concat xs"
  using assms(2-4)
proof (induction xs arbitrary: e cur)
  case Nil
  from assms(1) Nil obtain f where f: "z_finish z e = Inr f" "good_frame z f cur \<or> cur = [] \<and> f = []"
    unfolding zrip_ok_def by blast
  from f(2) show ?case
  proof
    assume "good_frame z f cur"
    with f(1) show ?thesis by (intro exI [of _ "[(f, cur)]"]) (simp add: good_frames_def)
  next
    assume "cur = [] \<and> f = []"
    with f(1) show ?thesis by (intro exI [of _ "[]"]) (simp add: good_frames_def)
  qed
next
  case (Cons x xs)
  show ?case
  proof (cases "x = []")
    case True
    with Cons.IH [OF Cons.prems(1,2)] Cons.prems(3) show ?thesis by auto
  next
    case x: False
    have lx: "length x \<le> chunk_size" "\<forall>x\<in>set xs. length x \<le> chunk_size" using Cons.prems(3) by simp_all
    show ?thesis
    proof (cases "cur = []")
      case True
      from assms(1) Cons.prems(1) obtain e2 where w: "z_write z e x = Inr e2" "R e2 (cur @ x)"
        unfolding zrip_ok_def by blast
      from Cons.IH [of e2 x] w lx True obtain fs where
        "compress_chunks z (Zrip_C (Some e2) (x \<noteq> [])) xs = Inr (frame_bytes fs)"
        "good_frames z fs" "frame_content fs = x @ concat xs" by auto
      with w True x show ?thesis by (intro exI [of _ fs]) simp
    next
      case False
      from assms(1) Cons.prems(1,2) obtain f e1 where r: "z_reset z e = Inr (f, e1)" "R e1 []"
        "good_frame z f cur" unfolding zrip_ok_def by blast
      from assms(1) r(2) obtain e2 where w: "z_write z e1 x = Inr e2" "R e2 ([] @ x)"
        unfolding zrip_ok_def by blast
      from Cons.IH [of e2 x] w lx obtain fs where
        "compress_chunks z (Zrip_C (Some e2) (x \<noteq> [])) xs = Inr (frame_bytes fs)"
        "good_frames z fs" "frame_content fs = x @ concat xs" by auto
      with w r False x show ?thesis
        by (intro exI [of _ "(f, cur) # fs"]) (simp add: good_frames_def)
    qed
  qed
qed

lemma feed_all_pass: "feed_all z Pass_D cs = Inr (concat cs)"
proof -
  have "feed z Pass_D cs = Inr (concat cs, Pass_D)" by (induction cs) auto
  then show ?thesis by (simp add: feed_all_def)
qed

lemma compress_chunks_pass: "compress_chunks z Pass_C xs = Inr (concat xs)"
  by (induction xs) auto

lemma compress_roundtrip:
  assumes "zrip_ok z R" and "is_valid_zrip_level level"
    and "\<forall>x\<in>set xs. length x \<le> chunk_size"
    and "length (concat xs) \<le> mx" and "mx < u64_max"
  shows "\<exists>s. res_bind (compressor_with_level z fmt level) (\<lambda>c. compress_chunks z c xs) = Inr s \<and>
    (\<forall>cs. concat cs = s \<longrightarrow> feed_all z (decompressor_with_limit fmt mx) cs = Inr (concat xs))"
proof (cases fmt)
  case Fmt_None
  then show ?thesis
    by (simp add: compressor_with_level_def decompressor_with_limit_def compress_chunks_pass feed_all_pass)
next
  case Fmt_Zrip
  from assms(1,2) obtain e where e: "z_new z level = Inr e" "R e []" unfolding zrip_ok_def by blast
  obtain fs where fs: "compress_chunks z (Zrip_C (Some e) False) xs = Inr (frame_bytes fs)"
    "good_frames z fs" "frame_content fs = concat xs"
    using compress_chunks_frames [OF assms(1) e(2) _ assms(3)] by auto
  have "partial_next [] fs"
  proof (cases fs)
    case (Cons p ps)
    obtain f x where "p = (f, x)" by force
    with fs(2) Cons have "good_frame z f x" by (simp add: good_frames_def)
    then obtain cs where "frame_boundary f = Complete (length f) cs" using good_frame_boundary by metis
    then have "f \<noteq> []" using frame_boundary_bounds by fastforce
    with Cons \<open>p = (f, x)\<close> show ?thesis by (simp add: partial_next_def strict_prefix_def)
  qed (simp add: partial_next_def)
  then have "feed_all z (Zrip_D [] False mx) cs = Inr (concat xs)" if "concat cs = frame_bytes fs" for cs
    using feed_frames [OF fs(2), of "[]" cs mx] that fs(3) assms(4,5) by simp
  with e fs(1) show ?thesis
    by (simp add: Fmt_Zrip compressor_with_level_def zrip_compressor_new_def
        decompressor_with_limit_def zrip_decompressor_with_max_output_def)
qed


subsection \<open>Zstandard frames\<close>

text \<open>
  The frame layout of RFC 8878 as a reference: blocks of a type (0 raw, 1 RLE, 2 compressed), a size
  field and a payload; an RLE block's payload is one byte whatever its size field says.
\<close>

type_synonym block = "nat \<times> nat \<times> bytes"

definition block_ok :: "block \<Rightarrow> bool" where
  "block_ok b = (case b of (ty, sz, p) \<Rightarrow>
     ty \<le> 2 \<and> sz < 2 ^ 21 \<and> length p = (if ty = 1 then 1 else sz))"

definition no_rle :: "block \<Rightarrow> bool" where
  "no_rle b \<longleftrightarrow> fst b \<noteq> 1"

lemma no_rle_pair [simp]: "no_rle (ty, x) \<longleftrightarrow> ty \<noteq> 1"
  by (simp add: no_rle_def)

lemma block_ok_triple:
  "block_ok (ty, sz, p) \<longleftrightarrow> ty \<le> 2 \<and> sz < 2 ^ 21 \<and> length p = (if ty = 1 then 1 else sz)"
  by (simp add: block_ok_def)

fun enc_blocks :: "block list \<Rightarrow> bytes" where
  "enc_blocks [] = []"
| "enc_blocks ((ty, sz, p) # bs) =
     le_bytes 3 ((if bs = [] then 1 else 0) + 2 * ty + 8 * sz) @ p @ enc_blocks bs"

definition enc_frame :: "byte \<Rightarrow> bytes \<Rightarrow> block list \<Rightarrow> bytes \<Rightarrow> bytes" where
  "enc_frame d header bs chk = le_bytes 4 zstd_magic @ d # header @ enc_blocks bs @ chk"

definition frame_ok :: "byte \<Rightarrow> bytes \<Rightarrow> block list \<Rightarrow> bytes \<Rightarrow> bool" where
  "frame_ok d header bs chk =
     (case descriptor_fields d of (checksum, hdr_len, _) \<Rightarrow>
        d AND 0x18 = 0 \<and> length header + 5 = hdr_len \<and> bs \<noteq> [] \<and> list_all block_ok bs \<and>
        length chk = (if checksum then 4 else 0) \<and>
        length header + 5 + length (enc_blocks bs) \<le> max_pending_frame)"

lemma walk_enc_blocks:
  assumes "bs \<noteq> []" and "list_all block_ok bs" and "list_all no_rle bs"
    and "length pre + length (enc_blocks bs) \<le> max_pending_frame"
  shows "walk_blocks (pre @ enc_blocks bs @ rest) (length pre) =
    Inr (length pre + length (enc_blocks bs))"
  using assms
proof (induction bs arbitrary: pre)
  case (Cons b bs)
  obtain ty sz p where b: "b = (ty, sz, p)" by (metis prod_cases3)
  with Cons.prems have o: "ty = 0 \<or> ty = 2" "sz < 2 ^ 21" "length p = sz"
    by (auto simp: block_ok_def)
  let ?l = "if bs = [] then 1 else 0 :: nat"
  let ?h = "?l + 2 * ty + 8 * sz"
  have "sub_bytes (pre @ enc_blocks (b # bs) @ rest) (length pre) 3 = le_bytes 3 ?h"
    by (simp add: sub_bytes_def b)
  moreover have "?h < 256 ^ 3" using o by auto
  ultimately have h: "le_value (sub_bytes (pre @ enc_blocks (b # bs) @ rest) (length pre) 3) = ?h" by simp
  have m: "?h mod 2 = ?l" "?h div 2 mod 4 = ty" "?h div 8 = sz"
    using o(1) by (cases "bs = []"; simp; presburger)+
  have "\<not> length (pre @ enc_blocks (b # bs) @ rest) < length pre + 3" by (simp add: b)
  moreover have "\<not> max_pending_frame < length pre + (3 + sz)" using Cons.prems(4) o(3) b by simp
  ultimately have step: "walk_blocks (pre @ enc_blocks (b # bs) @ rest) (length pre) =
      (if ?l \<noteq> 0 then Inr (length pre + (3 + sz))
       else walk_blocks (pre @ enc_blocks (b # bs) @ rest) (length pre + (3 + sz)))"
    unfolding walk_blocks.simps [of "pre @ enc_blocks (b # bs) @ rest" "length pre"] Let_def h m
    using o(1) by (simp only: if_False) auto
  show ?case
  proof (cases "bs = []")
    case True
    with step o b show ?thesis by simp
  next
    case False
    let ?pre2 = "pre @ le_bytes 3 ?h @ p"
    have "walk_blocks (?pre2 @ enc_blocks bs @ rest) (length ?pre2) = Inr (length ?pre2 + length (enc_blocks bs))"
      using Cons.prems False o b by (intro Cons.IH) auto
    moreover have "pre @ enc_blocks (b # bs) @ rest = ?pre2 @ enc_blocks bs @ rest" by (simp add: b)
    moreover have "length ?pre2 = length pre + (3 + sz)" using o by simp
    ultimately show ?thesis
      using step False o b by (simp del: enc_blocks.simps add: enc_blocks.simps(2))
  qed
qed simp

lemma drop_exact: "length a = n \<Longrightarrow> drop n (a @ b) = b"
  by simp

lemma enc_frame_boundary:
  assumes "frame_ok d header bs chk" and "list_all no_rle bs"
  shows "frame_boundary (enc_frame d header bs chk @ rest) =
    Complete (length (enc_frame d header bs chk))
      (let f = snd (snd (descriptor_fields d)) in if 0 < f then Some (le_value (take f header)) else None)"
proof -
  obtain ch h f where d: "descriptor_fields d = (ch, h, f)" by (metis prod_cases3)
  let ?pre = "le_bytes 4 zstd_magic @ d # header"
  let ?buf = "enc_frame d header bs chk @ rest"
  have ok: "d AND 0x18 = 0" "length header + 5 = h" "bs \<noteq> []" "list_all block_ok bs"
    "length chk = (if ch then 4 else 0)" "h + length (enc_blocks bs) \<le> max_pending_frame"
    using assms(1) by (auto simp: frame_ok_def d)
  have buf: "?buf = ?pre @ enc_blocks bs @ (chk @ rest)" by (simp add: enc_frame_def)
  have lp: "length ?pre = h" using ok(2) by simp
  have w: "walk_blocks ?buf h = Inr (h + length (enc_blocks bs))"
    unfolding buf using walk_enc_blocks [OF ok(3,4) assms(2), of ?pre "chk @ rest"] ok(6)
    unfolding lp by blast
  have n: "?buf ! 4 = d" by (simp add: enc_frame_def nth_append)
  have "drop 5 ((le_bytes 4 zstd_magic @ [d]) @ header @ enc_blocks bs @ chk @ rest) =
      header @ enc_blocks bs @ chk @ rest" by (rule drop_exact) simp
  then have "drop 5 ?buf = header @ enc_blocks bs @ chk @ rest" by (simp add: enc_frame_def)
  then have s5: "sub_bytes ?buf 5 f = take f header"
    using ok(2) descriptor_fields_bounds [OF d] by (simp add: sub_bytes_def)
  have s0: "le_value (sub_bytes ?buf 0 4) = zstd_magic"
    by (simp add: sub_bytes_def enc_frame_def zstd_magic_def)
  have "zstd_frame_boundary ?buf = Complete (length (enc_frame d header bs chk))
      (if 0 < f then Some (le_value (take f header)) else None)"
    unfolding zstd_frame_boundary_def n d Let_def prod.case w s5 sum.case
    using ok by (auto simp: enc_frame_def)
  moreover have "frame_boundary ?buf = zstd_frame_boundary ?buf"
    unfolding frame_boundary_def Let_def s0 by (simp add: enc_frame_def)
  ultimately show ?thesis using d by simp
qed



text \<open>
  The walk adds the size field of an RLE block to the offset although such a block carries one byte:
  a complete frame with an RLE block is taken for an incomplete one.
\<close>

theorem rle_frame_not_recognised:
  "frame_ok 0x20 [100] [(1, 100, [7])] [] \<and>
   frame_boundary (enc_frame 0x20 [100] [(1, 100, [7])] []) = Incomplete"
proof -
  have e: "enc_frame 0x20 [100] [(1, 100, [7])] [] =
      [0x28, 0xB5, 0x2F, 0xFD, 0x20, 100, 0x23, 0x03, 0, 7]"
    by (simp add: enc_frame_def zstd_magic_def le_bytes_numeral le_bytes_one)
  have f: "descriptor_fields 0x20 = (False, 6, 1)" by (simp add: descriptor_fields_def)
  have "walk_blocks [0x28, 0xB5, 0x2F, 0xFD, 0x20, 100, 0x23, 0x03, 0, 7] 6 = Inr 109"
    by (simp add: walk_blocks.simps sub_bytes_def max_pending_frame_def chunk_size_def
        stream_buf_size_def)
  then have "frame_boundary [0x28, 0xB5, 0x2F, 0xFD, 0x20, 100, 0x23, 0x03, 0, 7] = Incomplete"
    by (simp add: frame_boundary_def zstd_frame_boundary_def f sub_bytes_def zstd_magic_def)
  moreover have "frame_ok 0x20 [100] [(1, 100, [7])] []"
    by (simp add: frame_ok_def f block_ok_def max_pending_frame_def chunk_size_def stream_buf_size_def)
  ultimately show ?thesis by (simp only: e)
qed

text \<open>
  The content size is read right after the descriptor although a frame that is not single-segment
  has its window descriptor there: a frame declaring 8192 bytes of content is refused as too large.
\<close>

theorem window_read_as_content_size:
  assumes "length p = 8192"
  shows "frame_ok 0x80 [0x38, 0, 0x20, 0, 0] [(0, 8192, p)] [] \<and>
    decompress z (Zrip_D [] False mx) (enc_frame 0x80 [0x38, 0, 0x20, 0, 0] [(0, 8192, p)] []) =
      Inl (Decomp_TooLarge max_frame_output)"
proof -
  let ?f = "enc_frame 0x80 [0x38, 0, 0x20, 0, 0] [(0, 8192, p)] []"
  have d: "descriptor_fields 0x80 = (False, 10, 4)" by (simp add: descriptor_fields_def)
  have ok: "frame_ok 0x80 [0x38, 0, 0x20, 0, 0] [(0, 8192, p)] []"
    using assms
    by (simp add: frame_ok_def d block_ok_def max_pending_frame_def chunk_size_def stream_buf_size_def)
  have "frame_boundary (?f @ []) = Complete (length ?f) (Some 2097208)"
    by (subst enc_frame_boundary [OF ok]) (simp_all add: d)
  then have b: "frame_boundary ?f = Complete (length ?f) (Some 2097208)" by simp
  have "?f \<noteq> []" by (simp add: enc_frame_def)
  with b have "decompress z (Zrip_D [] False mx) ?f = Inl (Decomp_TooLarge max_frame_output)"
    by (simp add: drain_frames_def drain_loop.simps max_frame_output_def chunk_size_def)
  with ok show ?thesis by blast
qed

subsection \<open>A concrete codec\<close>

text \<open>
  An encoder that stores: single-segment frames with an 8-byte content size and raw blocks of at
  most 128 KiB, and the decoder of such frames.  It shows that the assumptions on the codec hold
  for a real zstd encoder and serves the witnesses.
\<close>

function raw_blocks :: "bytes \<Rightarrow> block list" where
  "raw_blocks x =
     (if length x \<le> 131072 then [(0, length x, x)]
      else (0, 131072, take 131072 x) # raw_blocks (drop 131072 x))"
  by pat_completeness auto
termination by (relation "measure length") auto

declare raw_blocks.simps [simp del]

definition raw_frame :: "bytes \<Rightarrow> bytes" where
  "raw_frame x = enc_frame 0xE0 (le_bytes 8 (length x)) (raw_blocks x) []"

function raw_unblocks :: "bytes \<Rightarrow> bytes" where
  "raw_unblocks b =
     (if length b < 3 then []
      else let h = le_value (take 3 b) in
        take (h div 8) (drop 3 b) @
        (if h mod 2 = 1 then [] else raw_unblocks (drop (3 + h div 8) b)))"
  by pat_completeness auto
termination by (relation "measure length") auto

declare raw_unblocks.simps [simp del]

definition raw_zrip :: "bytes zrip" where
  "raw_zrip =
     \<lparr> z_new = (\<lambda>l. if is_valid_zrip_level l then Inr [] else Inl (InvalidLevel l)),
       z_write = (\<lambda>e y. Inr (e @ y)),
       z_reset = (\<lambda>e. Inr (raw_frame e, [])),
       z_finish = (\<lambda>e. Inr (raw_frame e)),
       z_decompress = (\<lambda>f limit.
         let x = raw_unblocks (drop 13 f) in
         if limit < length x then Inl ''output limit'' else Inr x) \<rparr>"

lemma raw_blocks_not_Nil [simp]: "raw_blocks x \<noteq> []"
  by (subst raw_blocks.simps) simp

lemma raw_unblocks_blocks: "raw_unblocks (enc_blocks (raw_blocks x)) = x"
proof (induction x rule: raw_blocks.induct)
  case (1 x)
  show ?case
  proof (cases "length x \<le> 131072")
    case True
    have "le_value (le_bytes 3 (Suc (8 * length x))) = Suc (8 * length x)" using True by simp
    moreover have "Suc (8 * length x) div 8 = length x" "Suc (8 * length x) mod 2 = 1" by presburger+
    ultimately have "raw_unblocks (le_bytes 3 (Suc (8 * length x)) @ x) = x"
      by (subst raw_unblocks.simps) (simp add: Let_def)
    then show ?thesis using True by (subst raw_blocks.simps) simp
  next
    case False
    let ?b = "le_bytes 3 1048576 @ take 131072 x @ enc_blocks (raw_blocks (drop 131072 x))"
    have "le_value (le_bytes 3 1048576) = 1048576" by simp
    then have "raw_unblocks ?b = x"
      using False 1 by (subst raw_unblocks.simps) (simp add: Let_def)
    then show ?thesis using False by (subst raw_blocks.simps) simp
  qed
qed

lemma raw_blocks_ok: "list_all block_ok (raw_blocks x) \<and> list_all no_rle (raw_blocks x)"
proof (induction x rule: raw_blocks.induct)
  case (1 x)
  then show ?case by (cases "length x \<le> 131072"; subst (1 2) raw_blocks.simps) (simp_all add: block_ok_triple)
qed

lemma raw_blocks_length:
  "131072 * length (enc_blocks (raw_blocks x)) \<le> 131075 * length x + 3 * 131072"
proof (induction x rule: raw_blocks.induct)
  case (1 x)
  then show ?case by (cases "length x \<le> 131072"; subst raw_blocks.simps) simp_all
qed

lemma raw_frame_good:
  assumes "length x \<le> chunk_size"
  shows "good_frame raw_zrip (raw_frame x) x"
proof -
  have d: "descriptor_fields 0xE0 = (False, 13, 8)" by (simp add: descriptor_fields_def)
  have lx: "length x \<le> 2097152" using assms by (simp add: chunk_size_def)
  then have lb: "length (enc_blocks (raw_blocks x)) \<le> 2097203" using raw_blocks_length [of x] by simp
  then have ok: "frame_ok 0xE0 (le_bytes 8 (length x)) (raw_blocks x) []"
    using raw_blocks_ok [of x]
    by (simp add: frame_ok_def d max_pending_frame_def chunk_size_def stream_buf_size_def)
  have "frame_boundary (raw_frame x @ []) = Complete (length (raw_frame x)) (Some (length x))"
    using lx raw_blocks_ok [of x] unfolding raw_frame_def
    by (subst enc_frame_boundary [OF ok]) (simp_all add: d)
  then have b: "frame_boundary (raw_frame x) = Complete (length (raw_frame x)) (Some (length x))" by simp
  have "drop 13 ((le_bytes 4 zstd_magic @ 0xE0 # le_bytes 8 (length x)) @ enc_blocks (raw_blocks x)) =
      enc_blocks (raw_blocks x)" by (rule drop_exact) simp
  then have "raw_unblocks (drop 13 (raw_frame x)) = x"
    by (simp add: raw_frame_def enc_frame_def raw_unblocks_blocks)
  then have "z_decompress raw_zrip (raw_frame x) max_frame_output = Inr x"
    using assms by (simp add: raw_zrip_def max_frame_output_def)
  moreover have "length (raw_frame x) \<le> max_pending_frame"
    using lb by (simp add: raw_frame_def enc_frame_def max_pending_frame_def chunk_size_def stream_buf_size_def)
  ultimately show ?thesis
    using b assms by (simp add: good_frame_def max_frame_output_def)
qed

lemma raw_zrip_ok: "zrip_ok raw_zrip (=)"
  using raw_frame_good by (auto simp: zrip_ok_def raw_zrip_def)



theorem frame_boundary_stable_witness:
  "frame_boundary (take 11 [0x28, 0xB5, 0x2F, 0xFD, 0x20, 2, 0x11, 0, 0, 1, 2] @ [5]) = Complete 11 (Some 2)"
proof -
  have "frame_boundary (enc_frame 0x20 [2] [(0, 2, [1, 2])] [] @ []) = Complete 11 (Some 2)"
    by (subst enc_frame_boundary)
      (simp_all add: frame_ok_def descriptor_fields_def block_ok_def max_pending_frame_def
        chunk_size_def enc_frame_def)
  moreover have "enc_frame 0x20 [2] [(0, 2, [1, 2])] [] @ [] =
      [0x28, 0xB5, 0x2F, 0xFD, 0x20, 2, 0x11, 0, 0, 1, 2]"
    by (simp add: enc_frame_def zstd_magic_def le_bytes_numeral le_bytes_one)
  ultimately have "frame_boundary [0x28, 0xB5, 0x2F, 0xFD, 0x20, 2, 0x11, 0, 0, 1, 2] = Complete 11 (Some 2)"
    by (simp only:)
  from frame_boundary_stable [OF this, of "[5]"] show ?thesis by blast
qed

end
