(* ===== verification/Http.thy ===== *)
theory Http
  imports Byte_Text
begin

text \<open>
  The part of HTTP the server code touches: a request's header map (axum's \<open>HeaderMap\<close>: lower-case
  names, the first value is the one \<open>get\<close> returns), a body as a sequence of frames that may end in
  an error, and a response as status, headers and body.  JSON bodies are kept as values.
\<close>

datatype json =
    JNull
  | JBool bool
  | JNum int
  | JStr string
  | JArr "json list"
  | JObj "(string \<times> json) list"

type_synonym headers = "(string \<times> bytes) list"

datatype body_event = Chunk bytes | Body_err string

type_synonym body = "body_event list"

datatype resp_body = Empty_body | Text_body string | Json_body json | Stream_body "body_event list"

record response =
  rs_status :: nat
  rs_headers :: "(string \<times> string) list"
  rs_body :: resp_body

text \<open>\<open>HeaderValue::to_str\<close>: visible ASCII and tab only.\<close>

definition header_char_ok :: "byte \<Rightarrow> bool" where
  "header_char_ok b \<longleftrightarrow> 32 \<le> b \<and> b < 127 \<or> b = 9"

definition header_to_str :: "bytes \<Rightarrow> string option" where
  "header_to_str v = (if list_all header_char_ok v then Some (bytes_to_str v) else None)"

definition header_get :: "headers \<Rightarrow> string \<Rightarrow> string option" where
  "header_get hs name = Option.bind (map_of hs name) header_to_str"

text \<open>
  What the client needs of a header value it sets from text: it comes back as it was.
\<close>

definition header_text :: "string \<Rightarrow> bool" where
  "header_text s \<longleftrightarrow> list_all header_char_ok (as_bytes s)"

lemma header_to_str_text [simp]: "header_text s \<Longrightarrow> header_to_str (as_bytes s) = Some s"
  by (simp add: header_text_def header_to_str_def)

definition printable :: "char \<Rightarrow> bool" where
  "printable c \<longleftrightarrow> 32 \<le> (of_char c :: nat) \<and> (of_char c :: nat) < 127"

lemma header_text_printable: "list_all printable s \<Longrightarrow> header_text s"
proof -
  have "header_char_ok (word_of_nat (of_char c))" if "printable c" for c
  proof -
    have "unat (word_of_nat (of_char c) :: byte) = of_char c"
      by (simp add: unat_of_nat)
    with that show ?thesis
      by (simp add: header_char_ok_def printable_def word_le_nat_alt word_less_nat_alt)
  qed
  then show "list_all printable s \<Longrightarrow> header_text s"
    by (simp add: header_text_def as_bytes_def list_all_iff)
qed

lemma printable_show_nat [simp]: "list_all printable (show_nat n)"
proof -
  have "printable c" if "c \<in> set (show_nat n)" for c
    using show_nat_digits [OF that] by (auto simp: char_digit_def printable_def Let_def split: if_splits)
  then show ?thesis by (simp add: list_all_iff)
qed

definition bodies :: "body \<Rightarrow> bytes" where
  "bodies b = concat (map (\<lambda>e. case e of Chunk c \<Rightarrow> c | Body_err _ \<Rightarrow> []) b)"

definition body_ok :: "body \<Rightarrow> bool" where
  "body_ok b \<longleftrightarrow> list_all (\<lambda>e. case e of Chunk _ \<Rightarrow> True | Body_err _ \<Rightarrow> False) b"

lemma bodies_simps [simp]:
  "bodies [] = []" "bodies (Chunk c # b) = c @ bodies b" "bodies (Body_err e # b) = bodies b"
  by (simp_all add: bodies_def)

lemma body_ok_simps [simp]:
  "body_ok []" "body_ok (Chunk c # b) = body_ok b" "\<not> body_ok (Body_err e # b)"
  by (simp_all add: body_ok_def)

end
