(* ===== verification/Capabilities.thy ===== *)
theory Capabilities
  imports Compress Http
begin

text \<open>
  Capability advertisement (libfw-core, \<open>capabilities.rs\<close>) and the protocol handshake constants
  (\<open>constants.rs\<close>).  Signed 64- and 32-bit values are \<open>int\<close>; nothing here does arithmetic on them.
  SHA-256 and the JSON encoding of the advertisement are parameters of \<open>caps_hash\<close>.
\<close>

subsection \<open>Ranges with a default\<close>

record int_range =
  ir_default :: int
  ir_max :: int
  ir_min :: int

text \<open>\<open>Ord::clamp\<close>, which panics on an inverted range; the callers exclude that.\<close>

definition int_clamp :: "int \<Rightarrow> int \<Rightarrow> int \<Rightarrow> int" where
  "int_clamp v mn mx = (if v < mn then mn else if mx < v then mx else v)"

definition int_range_clamp :: "int_range \<Rightarrow> int \<Rightarrow> int" where
  "int_range_clamp r v =
     (if ir_min r \<le> ir_max r then int_clamp v (ir_min r) (ir_max r) else ir_default r)"

definition int_range_contains :: "int_range \<Rightarrow> int \<Rightarrow> bool" where
  "int_range_contains r v \<longleftrightarrow> ir_min r \<le> v \<and> v \<le> ir_max r"

record zrip_levels =
  zl_default :: int
  zl_max :: int
  zl_min :: int

definition zrip_levels_default :: zrip_levels where
  "zrip_levels_default =
     \<lparr> zl_default = zrip_default_level, zl_max = zrip_max_level, zl_min = zrip_min_level \<rparr>"

definition zrip_clamp_level :: "zrip_levels \<Rightarrow> int \<Rightarrow> int" where
  "zrip_clamp_level z level =
     (if zl_min z \<le> zl_max z then int_clamp level (zl_min z) (zl_max z) else zl_default z)"

definition zrip_levels_contains :: "zrip_levels \<Rightarrow> int \<Rightarrow> bool" where
  "zrip_levels_contains z level \<longleftrightarrow> zl_min z \<le> level \<and> level \<le> zl_max z"

record compression_caps =
  cc_formats :: "compression_format list"
  cc_zrip_levels :: zrip_levels

definition compression_caps_default :: compression_caps where
  "compression_caps_default =
     \<lparr> cc_formats = [Fmt_None, Fmt_Zrip], cc_zrip_levels = zrip_levels_default \<rparr>"

definition caps_supports :: "compression_caps \<Rightarrow> compression_format \<Rightarrow> bool" where
  "caps_supports c fmt = List.member (cc_formats c) fmt"

subsection \<open>Limits\<close>

record limits =
  lm_concurrency :: int_range
  lm_upload_window :: int_range
  lm_download_window :: int_range
  lm_chunk_size :: int_range
  lm_max_upload_size :: nat
  lm_max_retries :: nat
  lm_timeout_ms :: nat

definition max_retries_const :: nat where "max_retries_const = 3"
definition default_max_upload_size :: nat where
  "default_max_upload_size = 100 * 1024 * 1024 * 1024"

definition limits_default :: limits where
  "limits_default =
     \<lparr> lm_concurrency = \<lparr> ir_default = 4, ir_max = 4, ir_min = 1 \<rparr>,
       lm_upload_window = \<lparr> ir_default = 8, ir_max = 8, ir_min = 1 \<rparr>,
       lm_download_window = \<lparr> ir_default = 4, ir_max = 4, ir_min = 1 \<rparr>,
       lm_chunk_size = \<lparr> ir_default = 2 * 1024 * 1024, ir_max = 8 * 1024 * 1024, ir_min = 256 * 1024 \<rparr>,
       lm_max_upload_size = 20 * 1024 * 1024 * 1024,
       lm_max_retries = max_retries_const,
       lm_timeout_ms = 60000 \<rparr>"

definition protocol_header_value :: string where
  "protocol_header_value = ''libfw/1''"

definition protocol_compatible :: "string \<Rightarrow> bool" where
  "protocol_compatible value = eq_ignore_ascii_case (str_trim value) protocol_header_value"

record capabilities =
  cap_protocol :: string
  cap_compression :: compression_caps
  cap_limits :: limits

definition capabilities_default :: capabilities where
  "capabilities_default =
     \<lparr> cap_protocol = protocol_header_value, cap_compression = compression_caps_default,
       cap_limits = limits_default \<rparr>"

definition hex_table :: string where
  "hex_table = ''0123456789abcdef''"

definition caps_hex :: "bytes \<Rightarrow> string" where
  "caps_hex bs =
     concat (map (\<lambda>b. [hex_table ! unat (drop_bit 4 b), hex_table ! unat (b AND 0x0F)]) bs)"

definition caps_hash :: "(bytes \<Rightarrow> bytes) \<Rightarrow> (capabilities \<Rightarrow> bytes) \<Rightarrow> capabilities \<Rightarrow> string" where
  "caps_hash sha to_vec c = ''sha256-'' @ caps_hex (sha (to_vec c))"

definition caps_clamp_level :: "capabilities \<Rightarrow> int \<Rightarrow> int" where
  "caps_clamp_level c level = zrip_clamp_level (cc_zrip_levels (cap_compression c)) level"

definition caps_is_valid_level :: "capabilities \<Rightarrow> int \<Rightarrow> bool" where
  "caps_is_valid_level c level = zrip_levels_contains (cc_zrip_levels (cap_compression c)) level"

subsection \<open>Properties\<close>

lemma hex_table_eq: "hex_table = map hex_digit [0..<16]"
  by code_simp

lemma hex_table_nth: "k < 16 \<Longrightarrow> hex_table ! k = hex_digit k"
  by (simp add: hex_table_eq del: upt_rec_numeral)

lemma nibbles:
  "unat (drop_bit 4 (b :: byte)) = unat b div 16" "unat (b AND 0x0F) = unat b mod 16"
proof -
  show "unat (drop_bit 4 b) = unat b div 16"
    using unat_byte_lt [of b]
    by (simp only: unsigned_drop_bit_eq) (simp add: drop_bit_eq_div take_bit_eq_mod)
  have "b AND 0x0F = take_bit 4 b" by (simp add: take_bit_eq_mask mask_eq_exp_minus_1)
  then show "unat (b AND 0x0F) = unat b mod 16"
    by (simp only: unsigned_take_bit_eq) (simp add: take_bit_eq_mod)
qed

lemma caps_hex_eq: "caps_hex bs = hex bs"
  using unat_byte_lt
  by (simp add: caps_hex_def hex_def nibbles(1) [unfolded drop_bit_eq_div] nibbles hex_table_nth less_mult_imp_div_less)

text \<open>
  Negotiating a level never panics and always ends inside the advertised range when the range
  and its default are sane: a level in the range is granted as it is, any other is moved to the nearer
  bound; with an empty range the default is used.  Clamping a request and negotiating it agree.
\<close>

theorem level_negotiation:
  "(mn \<le> mx \<longrightarrow> (\<forall>l. mn \<le> negotiate_level (Some l) mn mx d \<and> negotiate_level (Some l) mn mx d \<le> mx \<and>
      (mn \<le> l \<and> l \<le> mx \<longrightarrow> negotiate_level (Some l) mn mx d = l) \<and>
      negotiate_level (Some l) mn mx d =
        zrip_clamp_level \<lparr> zl_default = d, zl_max = mx, zl_min = mn \<rparr> l)) \<and>
   (mx < mn \<longrightarrow> (\<forall>req. negotiate_level req mn mx d = d)) \<and>
   negotiate_level None mn mx d = d"
  by (auto simp: negotiate_level_def zrip_clamp_level_def int_clamp_def)

theorem level_negotiation_witness:
  "negotiate_level (Some 9) (- 8) 4 1 = 4"
  using level_negotiation [where mn = "- 8" and mx = 4 and d = 1] by (simp add: negotiate_level_def)

end
