(* ===== verification/Float64.thy ===== *)
theory Float64
  imports Libfw_Prelude Complex_Main
begin

text \<open>
  The \<open>f64\<close> arithmetic of the client's tuning engine and progress report (Rust's primitive type,
  IEEE 754 binary64 with rounding to nearest, ties to even).  A finite value is its exact rational;
  every operation computes the exact rational and rounds it.  The two zeros are one value: the code
  divides only by a value it has compared with \<open>> 0.0\<close> and never looks at the sign of a zero, so
  the difference cannot be seen.
\<close>

datatype f64 = FNaN | FInf bool | Fin rat

subsection \<open>Rounding\<close>

fun bit_len :: "nat \<Rightarrow> nat" where
  "bit_len n = (if n = 0 then 0 else Suc (bit_len (n div 2)))"

declare bit_len.simps [simp del]

text \<open>The integer nearest to \<open>n / d\<close>, ties to even (\<open>0 < d\<close>).\<close>

definition rne :: "nat \<Rightarrow> nat \<Rightarrow> nat" where
  "rne n d =
     (let q = n div d; r = n mod d in
      if 2 * r < d \<or> 2 * r = d \<and> even q then q else Suc q)"

definition pow2 :: "int \<Rightarrow> rat" where
  "pow2 e = (if 0 \<le> e then 2 ^ nat e else 1 / 2 ^ nat (- e))"

text \<open>\<open>a / d\<close> in units of \<open>2 ^ e\<close>.\<close>

definition scaled :: "nat \<Rightarrow> nat \<Rightarrow> int \<Rightarrow> nat" where
  "scaled a d e = (if 0 \<le> e then rne a (d * 2 ^ nat e) else rne (a * 2 ^ nat (- e)) d)"

definition unit_exp :: "nat \<Rightarrow> nat \<Rightarrow> int" where
  "unit_exp a d =
     (let e = int (bit_len a) - int (bit_len d) - 53;
          big = (if 0 \<le> e then d * 2 ^ nat e * 2 ^ 53 \<le> a else d * 2 ^ 53 \<le> a * 2 ^ nat (- e))
      in max (- 1074) (if big then e + 1 else e))"

definition f64_of_rat :: "rat \<Rightarrow> f64" where
  "f64_of_rat q =
     (let (n, d) = quotient_of q; a = nat \<bar>n\<bar>; e = unit_exp a (nat d);
          v = rat_of_nat (scaled a (nat d) e) * pow2 e
      in if 2 ^ 1024 \<le> v then FInf (n < 0) else Fin (if n < 0 then - v else v))"

subsection \<open>Operations\<close>

definition f_of_nat :: "nat \<Rightarrow> f64" where
  "f_of_nat n = f64_of_rat (rat_of_nat n)"

fun f_neg_inf :: "f64 \<Rightarrow> bool" where
  "f_neg_inf (FInf s) = s" | "f_neg_inf _ = False"

fun f_add :: "f64 \<Rightarrow> f64 \<Rightarrow> f64" where
  "f_add (Fin a) (Fin b) = f64_of_rat (a + b)"
| "f_add (FInf s) (FInf t) = (if s = t then FInf s else FNaN)"
| "f_add (FInf s) (Fin b) = FInf s"
| "f_add (Fin a) (FInf t) = FInf t"
| "f_add _ _ = FNaN"

fun f_neg :: "f64 \<Rightarrow> f64" where
  "f_neg (Fin a) = Fin (- a)" | "f_neg (FInf s) = FInf (\<not> s)" | "f_neg FNaN = FNaN"

definition f_sub :: "f64 \<Rightarrow> f64 \<Rightarrow> f64" where
  "f_sub a b = f_add a (f_neg b)"

fun f_mul :: "f64 \<Rightarrow> f64 \<Rightarrow> f64" where
  "f_mul (Fin a) (Fin b) = f64_of_rat (a * b)"
| "f_mul (FInf s) (FInf t) = FInf (s \<noteq> t)"
| "f_mul (FInf s) (Fin b) = (if b = 0 then FNaN else FInf (s \<noteq> (b < 0)))"
| "f_mul (Fin a) (FInf t) = (if a = 0 then FNaN else FInf (t \<noteq> (a < 0)))"
| "f_mul _ _ = FNaN"

text \<open>A zero divisor is the positive zero.\<close>

fun f_div :: "f64 \<Rightarrow> f64 \<Rightarrow> f64" where
  "f_div (Fin a) (Fin b) =
     (if b = 0 then (if a = 0 then FNaN else FInf (a < 0)) else f64_of_rat (a / b))"
| "f_div (FInf s) (Fin b) = FInf (s \<noteq> (b < 0))"
| "f_div (Fin a) (FInf t) = Fin 0"
| "f_div _ _ = FNaN"

fun f_less :: "f64 \<Rightarrow> f64 \<Rightarrow> bool" where
  "f_less (Fin a) (Fin b) \<longleftrightarrow> a < b"
| "f_less (FInf s) (FInf t) \<longleftrightarrow> s \<and> \<not> t"
| "f_less (FInf s) (Fin b) \<longleftrightarrow> s"
| "f_less (Fin a) (FInf t) \<longleftrightarrow> \<not> t"
| "f_less _ _ \<longleftrightarrow> False"

definition f_le :: "f64 \<Rightarrow> f64 \<Rightarrow> bool" where
  "f_le a b \<longleftrightarrow> f_less a b \<or> (a = b \<and> a \<noteq> FNaN)"

definition f_is_finite :: "f64 \<Rightarrow> bool" where
  "f_is_finite a \<longleftrightarrow> (case a of Fin _ \<Rightarrow> True | _ \<Rightarrow> False)"

text \<open>\<open>f64::max\<close> and \<open>f64::min\<close> ignore a NaN; \<open>f64::clamp\<close> keeps it.\<close>

definition f_max :: "f64 \<Rightarrow> f64 \<Rightarrow> f64" where
  "f_max a b = (if a = FNaN then b else if b = FNaN then a else if f_less a b then b else a)"

definition f_clamp :: "f64 \<Rightarrow> f64 \<Rightarrow> f64 \<Rightarrow> f64" where
  "f_clamp v lo hi = (if f_less v lo then lo else if f_less hi v then hi else v)"

definition f_floor :: "f64 \<Rightarrow> f64" where
  "f_floor a = (case a of Fin q \<Rightarrow> Fin (of_int \<lfloor>q\<rfloor>) | _ \<Rightarrow> a)"

text \<open>The \<open>as\<close> casts saturate, truncate towards zero, and send NaN to zero.\<close>

definition rat_trunc :: "rat \<Rightarrow> int" where
  "rat_trunc q = (if q < 0 then - \<lfloor>- q\<rfloor> else \<lfloor>q\<rfloor>)"

definition f_cast :: "int \<Rightarrow> int \<Rightarrow> f64 \<Rightarrow> int" where
  "f_cast lo hi a =
     (case a of FNaN \<Rightarrow> 0 | FInf s \<Rightarrow> (if s then lo else hi) | Fin q \<Rightarrow> max lo (min hi (rat_trunc q)))"

definition f_to_u64 :: "f64 \<Rightarrow> nat" where
  "f_to_u64 a = nat (f_cast 0 (int u64_max) a)"

definition f_to_u32 :: "f64 \<Rightarrow> nat" where
  "f_to_u32 a = nat (f_cast 0 (2 ^ 32 - 1) a)"

definition f_to_i32 :: "f64 \<Rightarrow> int" where
  "f_to_i32 a = f_cast (- (2 ^ 31)) (2 ^ 31 - 1) a"

definition f_to_i64 :: "f64 \<Rightarrow> int" where
  "f_to_i64 a = f_cast (- (2 ^ 63)) i64_max a"

text \<open>A decimal literal is the value nearest to it.\<close>

definition f_lit :: "rat \<Rightarrow> f64" where
  "f_lit q = f64_of_rat q"

lemma f_to_u64_le: "f_to_u64 a \<le> u64_max"
  by (cases a) (auto simp: f_to_u64_def f_cast_def)

subsection \<open>Rounding keeps a representable value\<close>

lemma pow2_powi: "pow2 e = 2 powi e"
  by (cases "0 \<le> e") (simp_all add: pow2_def power_int_def power_inverse inverse_eq_divide power_one_over)

lemma pow2_pos [simp]: "0 < pow2 e"
  by (simp add: pow2_def)

lemma pow2_not_zero [simp]: "pow2 e \<noteq> 0"
  using pow2_pos [of e] by linarith

lemma pow2_add: "pow2 (a + b) = pow2 a * pow2 b"
  by (simp only: pow2_powi) (rule power_int_add, simp)

lemma pow2_nat: "0 \<le> e \<Longrightarrow> pow2 e = 2 ^ nat e"
  by (simp add: pow2_def)

lemma pow2_mono: "a \<le> b \<Longrightarrow> pow2 a \<le> pow2 b"
  by (simp add: pow2_powi power_int_increasing)

lemma pow2_less_iff: "pow2 a < pow2 b \<longleftrightarrow> a < b"
proof
  assume "a < b"
  then have "pow2 b = 2 ^ nat (b - a) * pow2 a" using pow2_add [of "b - a" a] by (simp add: pow2_nat)
  moreover have "1 < (2 :: rat) ^ nat (b - a)" using \<open>a < b\<close> by (intro one_less_power) simp_all
  ultimately show "pow2 a < pow2 b" by simp
qed (use pow2_mono [of b a] in linarith)

lemma bit_len_bounds: "0 < n \<Longrightarrow> 2 ^ (bit_len n - 1) \<le> n \<and> n < 2 ^ bit_len n \<and> 0 < bit_len n"
proof (induction n rule: bit_len.induct)
  case (1 n)
  show ?case
  proof (cases "n div 2 = 0")
    case True
    with 1 have "n = 1" by simp
    then show ?thesis by (simp add: bit_len.simps)
  next
    case False
    with 1 have ih: "2 ^ (bit_len (n div 2) - 1) \<le> n div 2" "n div 2 < 2 ^ bit_len (n div 2)"
      "0 < bit_len (n div 2)" by auto
    have b: "bit_len n = Suc (bit_len (n div 2))" using 1 by (subst bit_len.simps) simp
    have "2 ^ bit_len (n div 2) = 2 * (2 :: nat) ^ (bit_len (n div 2) - 1)"
      using ih(3) by (metis Suc_diff_1 power_Suc)
    with ih b show ?thesis by simp linarith
  qed
qed

lemma bit_len_pow2:
  assumes "0 < n"
  shows "pow2 (int (bit_len n) - 1) \<le> rat_of_nat n" and "rat_of_nat n < pow2 (int (bit_len n))"
proof -
  from bit_len_bounds [OF assms] have b: "2 ^ (bit_len n - 1) \<le> n" "n < 2 ^ bit_len n" "0 < bit_len n" by auto
  have "nat (int (bit_len n) - 1) = bit_len n - 1" using b(3) by simp
  with b(3) have "pow2 (int (bit_len n) - 1) = rat_of_nat (2 ^ (bit_len n - 1))" by (simp add: pow2_nat)
  with b(1) show "pow2 (int (bit_len n) - 1) \<le> rat_of_nat n" by (simp only: of_nat_le_iff)
  have "pow2 (int (bit_len n)) = rat_of_nat (2 ^ bit_len n)" by (simp add: pow2_nat)
  with b(2) show "rat_of_nat n < pow2 (int (bit_len n))" by (simp only: of_nat_less_iff)
qed

lemma scale_le:
  assumes "0 < d"
  shows "(if 0 \<le> e then d * 2 ^ nat e * c \<le> a else d * c \<le> a * 2 ^ nat (- e)) \<longleftrightarrow>
    rat_of_nat c * pow2 e \<le> rat_of_nat a / rat_of_nat d"
proof (cases "0 \<le> e")
  case True
  have "rat_of_nat c * pow2 e \<le> rat_of_nat a / rat_of_nat d \<longleftrightarrow>
      rat_of_nat (d * 2 ^ nat e * c) \<le> rat_of_nat a"
    using assms True by (simp add: field_simps pow2_nat)
  with True show ?thesis by (simp only: of_nat_le_iff if_True)
next
  case False
  then have "rat_of_nat c * pow2 e \<le> rat_of_nat a / rat_of_nat d \<longleftrightarrow>
      rat_of_nat (d * c) \<le> rat_of_nat (a * 2 ^ nat (- e))"
    using assms by (simp add: field_simps pow2_def)
  with False show ?thesis by (simp only: of_nat_le_iff if_False)
qed

lemma unit_exp_low:
  assumes "0 < a" and "0 < d"
  shows "unit_exp a d = - 1074 \<or> 2 ^ 52 * pow2 (unit_exp a d) \<le> rat_of_nat a / rat_of_nat d"
proof -
  define e where "e = int (bit_len a) - int (bit_len d) - 53"
  let ?x = "rat_of_nat a / rat_of_nat d"
  have "2 ^ 52 * pow2 e = pow2 (52 + e)" by (simp only: pow2_add) (simp add: pow2_nat)
  also have "\<dots> = pow2 (int (bit_len a) - 1) / pow2 (int (bit_len d))"
    using pow2_add [of "52 + e" "int (bit_len d)"] by (simp add: e_def field_simps)
  also have "\<dots> \<le> ?x"
    using bit_len_pow2 [OF assms(1)] bit_len_pow2 [OF assms(2)] assms
    by (intro frac_le) auto
  finally have low: "2 ^ 52 * pow2 e \<le> ?x" .
  have up: "2 ^ 52 * pow2 (e + 1) \<le> ?x" if "2 ^ 53 * pow2 e \<le> ?x"
    using that by (simp add: pow2_add) (simp add: pow2_nat)
  have "unit_exp a d = max (- 1074) (if 2 ^ 53 * pow2 e \<le> ?x then e + 1 else e)"
    using scale_le [OF assms(2), of e "2 ^ 53" a]
    by (simp only: unit_exp_def Let_def e_def of_nat_power of_nat_numeral)
  with low up show ?thesis by (auto simp: max_def)
qed

lemma rne_exact [simp]: "0 < d \<Longrightarrow> rne (c * d) d = c"
  by (simp add: rne_def)

lemma scaled_exact:
  assumes "0 < d" and "rat_of_nat a / rat_of_nat d = rat_of_nat c * pow2 e"
  shows "scaled a d e = c"
proof (cases "0 \<le> e")
  case True
  have "rat_of_nat a = rat_of_nat (c * (d * 2 ^ nat e))"
    using assms True by (simp add: field_simps pow2_nat)
  then have "a = c * (d * 2 ^ nat e)" by (simp only: of_nat_eq_iff)
  moreover have "0 < d * 2 ^ nat e" using assms(1) by simp
  ultimately show ?thesis using True by (simp only: scaled_def if_True rne_exact)
next
  case False
  then have "rat_of_nat (a * 2 ^ nat (- e)) = rat_of_nat (c * d)"
    using assms by (simp add: field_simps pow2_def)
  then have "a * 2 ^ nat (- e) = c * d" by (simp only: of_nat_eq_iff)
  with False assms(1) show ?thesis by (simp add: scaled_def)
qed

theorem f64_exact:
  assumes q: "q = of_int m * pow2 k" and m: "\<bar>m\<bar> < 2 ^ 53" and k: "- 1074 \<le> k" "k \<le> 970"
  shows "f64_of_rat q = Fin q"
proof (cases "q = 0")
  case True
  have "rne 0 x = 0" if "0 < x" for x using that by (simp add: rne_def)
  then have "scaled 0 (nat 1) e = 0" for e by (simp add: scaled_def)
  with True show ?thesis unfolding f64_of_rat_def by (simp only: rat_zero_code) (simp add: Let_def)
next
  case False
  obtain n d where nd: "quotient_of q = (n, d)" by force
  define a where "a = nat \<bar>n\<bar>"
  define e where "e = unit_exp a (nat d)"
  have d: "0 < nat d" using nd quotient_of_denom_pos by fastforce
  have qq: "q = of_int n / of_int d" using nd by (rule quotient_of_div)
  with False have a: "0 < a" by (auto simp: a_def)
  have x: "rat_of_nat a / rat_of_nat (nat d) = \<bar>q\<bar>" using d by (simp add: qq a_def)
  also have "\<dots> = rat_of_nat (nat \<bar>m\<bar>) * pow2 k" by (simp add: q abs_mult less_imp_le)
  finally have xm: "rat_of_nat a / rat_of_nat (nat d) = rat_of_nat (nat \<bar>m\<bar>) * pow2 k" .
  have mb: "rat_of_nat (nat \<bar>m\<bar>) < 2 ^ 53"
  proof -
    have "nat \<bar>m\<bar> < 2 ^ 53" using m by simp
    then have "rat_of_nat (nat \<bar>m\<bar>) < rat_of_nat (2 ^ 53)" by (simp only: of_nat_less_iff)
    then show ?thesis by simp
  qed
  have "e \<le> k"
  proof (rule ccontr)
    assume "\<not> e \<le> k"
    then have "e \<noteq> - 1074" using k by auto
    with unit_exp_low [OF a d] have "2 ^ 52 * pow2 e \<le> rat_of_nat (nat \<bar>m\<bar>) * pow2 k"
      by (simp add: e_def xm)
    also have "\<dots> < 2 ^ 53 * pow2 k" using mb by simp
    also have "\<dots> = 2 ^ 52 * pow2 (k + 1)" by (simp add: pow2_add) (simp add: pow2_nat)
    finally have "pow2 e < pow2 (k + 1)" by simp
    with \<open>\<not> e \<le> k\<close> show False by (simp add: pow2_less_iff)
  qed
  then have ke: "pow2 k = 2 ^ nat (k - e) * pow2 e"
    using pow2_add [of "k - e" e] by (simp add: pow2_nat)
  have "scaled a (nat d) e = nat \<bar>m\<bar> * 2 ^ nat (k - e)"
    by (rule scaled_exact [OF d]) (simp add: xm ke)
  then have v: "rat_of_nat (scaled a (nat d) e) * pow2 e = \<bar>q\<bar>" using ke xm x by simp
  have "\<bar>q\<bar> = rat_of_nat (nat \<bar>m\<bar>) * pow2 k" using x xm by (simp only:)
  also have "\<dots> < 2 ^ 53 * pow2 k" using mb pow2_pos by (rule mult_strict_right_mono)
  also have "\<dots> = pow2 (53 + k)" by (simp only: pow2_add) (simp add: pow2_nat)
  also have "\<dots> \<le> pow2 1023" using k by (intro pow2_mono) simp
  also have "\<dots> = 2 ^ 1023" by (simp only: pow2_nat) simp
  also have "\<dots> < 2 ^ 1024" by (rule power_strict_increasing) simp_all
  finally have fin: "\<not> 2 ^ 1024 \<le> \<bar>q\<bar>" by (simp only: not_le)
  have sg: "n < 0 \<longleftrightarrow> q < 0" using d by (simp add: qq divide_less_0_iff)
  have "f64_of_rat q = (if 2 ^ 1024 \<le> \<bar>q\<bar> then FInf (n < 0) else Fin (if n < 0 then - \<bar>q\<bar> else \<bar>q\<bar>))"
    using v unfolding f64_of_rat_def nd by (simp only: Let_def case_prod_conv a_def e_def)
  also have "\<dots> = Fin q" unfolding if_not_P [OF fin] using sg by (auto simp: abs_if)
  finally show ?thesis .
qed

lemma f_of_nat_exact: "n < 2 ^ 53 \<Longrightarrow> f_of_nat n = Fin (rat_of_nat n)"
  unfolding f_of_nat_def by (rule f64_exact [of _ "int n" 0]) (simp_all add: pow2_def)

lemma f64_half: "\<bar>m\<bar> < 2 ^ 53 \<Longrightarrow> f64_of_rat (rat_of_int m / 2) = Fin (rat_of_int m / 2)"
  by (rule f64_exact [of _ m "- 1"]) (simp_all add: pow2_def)

lemma f64_of_rat_nonneg: "0 \<le> q \<Longrightarrow> \<not> f_less (f64_of_rat q) (Fin 0)"
proof -
  assume q: "0 \<le> q"
  obtain n d where nd: "quotient_of q = (n, d)" by force
  with q have "0 \<le> n"
    using quotient_of_div [OF nd] quotient_of_denom_pos [OF nd] by (simp add: zero_le_divide_iff)
  then show ?thesis unfolding f64_of_rat_def nd by (simp add: Let_def not_less mult_nonneg_nonneg less_imp_le)
qed

subsection \<open>Rounding a natural number\<close>

lemma rne_near: "0 < d \<Longrightarrow> \<bar>rat_of_nat (rne n d) - rat_of_nat n / rat_of_nat d\<bar> \<le> 1"
proof -
  assume d: "0 < d"
  have f: "\<lfloor>rat_of_nat n / rat_of_nat d\<rfloor> = int (n div d)" by (rule floor_divide_of_nat_eq)
  have "rat_of_nat (n div d) \<le> rat_of_nat n / rat_of_nat d" "rat_of_nat n / rat_of_nat d < rat_of_nat (n div d) + 1"
    using f floor_correct [of "rat_of_nat n / rat_of_nat d"] by simp_all
  moreover have "rne n d = n div d \<or> rne n d = Suc (n div d)" by (simp add: rne_def Let_def)
  ultimately show ?thesis by auto
qed

lemma scaled_near:
  assumes "0 < d"
  shows "\<bar>rat_of_nat (scaled a d e) - rat_of_nat a / rat_of_nat d / pow2 e\<bar> \<le> 1"
proof (cases "0 \<le> e")
  case True
  then show ?thesis using rne_near [of "d * 2 ^ nat e" a] assms by (simp add: scaled_def pow2_nat)
next
  case False
  then show ?thesis using rne_near [of d "a * 2 ^ nat (- e)"] assms by (simp add: scaled_def pow2_def)
qed

text \<open>A positive integer in range stays positive and finite.\<close>

lemma f_of_nat_fin:
  assumes "0 < n" and "n \<le> u64_max"
  shows "\<exists>q. f_of_nat n = Fin q \<and> 0 < q"
proof -
  let ?e = "unit_exp n 1" and ?x = "rat_of_nat n"
  let ?v = "rat_of_nat (scaled n 1 ?e) * pow2 ?e"
  have bl: "bit_len n \<le> 64"
  proof (rule ccontr)
    assume "\<not> bit_len n \<le> 64"
    then have "(2 :: nat) ^ 64 \<le> 2 ^ (bit_len n - 1)" by (intro power_increasing) simp_all
    also have "\<dots> \<le> n" using bit_len_bounds [OF assms(1)] by simp
    finally show False using assms(2) by (simp add: u64_max_def)
  qed
  have b1: "bit_len (Suc 0) = 1" by (subst bit_len.simps) (simp add: bit_len.simps)
  have e12: "?e \<le> 12" "?e \<noteq> - 1074" using bl by (auto simp: unit_exp_def Let_def b1)
  have near: "\<bar>rat_of_nat (scaled n 1 ?e) - ?x / pow2 ?e\<bar> \<le> 1" using scaled_near [of 1 n ?e] by simp
  have "2 ^ 52 * pow2 ?e \<le> ?x" using unit_exp_low [OF assms(1), of 1] e12(2) by simp
  then have "2 ^ 52 \<le> ?x / pow2 ?e" by (simp add: field_simps)
  moreover have "(2 :: rat) \<le> 2 ^ 52" by simp
  ultimately have "2 \<le> ?x / pow2 ?e" by (rule order_trans [rotated])
  with near have pos: "0 < rat_of_nat (scaled n 1 ?e)" by (simp only: abs_le_iff) linarith
  have "rat_of_nat (scaled n 1 ?e) \<le> ?x / pow2 ?e + 1" using near by linarith
  then have "?v \<le> (?x / pow2 ?e + 1) * pow2 ?e" by (intro mult_right_mono) (simp_all add: less_imp_le)
  also have "\<dots> = ?x + pow2 ?e" by (simp add: field_simps)
  also have "\<dots> \<le> rat_of_nat u64_max + pow2 12" using assms(2) e12(1) by (intro add_mono pow2_mono) simp_all
  also have "\<dots> < 2 ^ 1024" by (simp add: u64_max_def pow2_nat)
  finally have "\<not> 2 ^ 1024 \<le> ?v" by (simp only: not_le)
  moreover have "quotient_of ?x = (int n, 1)" by (rule quotient_of_rat_of_nat)
  ultimately have "f_of_nat n = Fin ?v" by (simp add: f_of_nat_def f64_of_rat_def Let_def)
  moreover have "0 < ?v" using pos by simp
  ultimately show ?thesis by blast
qed

lemma f64_of_rat_not_nan: "f64_of_rat q \<noteq> FNaN"
proof -
  obtain n d where nd: "quotient_of q = (n, d)" by force
  show ?thesis unfolding f64_of_rat_def nd Let_def case_prod_conv by (split if_split) blast
qed

end
