(* ===== verification/Tune.thy ===== *)
theory Tune
  imports Capabilities Float64
begin

text \<open>
  The pure part of the client's adaptive tuning (libfw-client, \<open>tune.rs\<close>): the parameter table and
  its clamps, the chunk size derived from the link, the decision of one measurement window, and
  the compression level.  The advertised ranges are untrusted: nothing is assumed of them.
\<close>

subsection \<open>Constants and integer casts\<close>

definition tune_window_ms :: f64 where "tune_window_ms = Fin 1000"
definition gain_threshold :: f64 where "gain_threshold = f_lit (5 / 100)"
definition rtt_inflate_threshold :: f64 where "rtt_inflate_threshold = f_lit (30 / 100)"
definition degrade_factor :: f64 where "degrade_factor = Fin (1 / 2)"
definition rtt_ewma_alpha :: f64 where "rtt_ewma_alpha = Fin (1 / 4)"
definition hard_max_concurrency :: int where "hard_max_concurrency = 64"
definition hard_max_window :: int where "hard_max_window = 64"
definition hard_max_chunk_size :: int where "hard_max_chunk_size = 16 * 1024 * 1024"
definition hard_max_in_flight_bytes :: nat where "hard_max_in_flight_bytes = 256 * 1024 * 1024"
definition hard_max_in_flight_requests :: nat where "hard_max_in_flight_requests = 64"
definition level_sample_size :: nat where "level_sample_size = 64 * 1024"
definition target_chunk_span_ms :: f64 where "target_chunk_span_ms = Fin 100"
definition chunk_align :: nat where "chunk_align = 64 * 1024"

text \<open>\<open>as i64\<close> and \<open>as u64\<close> reinterpret the 64 bits; \<open>i64\<close> products wrap.\<close>

definition i64_wrap :: "int \<Rightarrow> int" where
  "i64_wrap x = (x + 2 ^ 63) mod 2 ^ 64 - 2 ^ 63"

definition as_i64 :: "nat \<Rightarrow> int" where
  "as_i64 n = i64_wrap (int n)"

definition as_u64 :: "int \<Rightarrow> nat" where
  "as_u64 v = nat (v mod 2 ^ 64)"

definition u64_mul :: "nat \<Rightarrow> nat \<Rightarrow> nat" where
  "u64_mul a b = a * b mod 2 ^ 64"

lemma i64_wrap_id: "- (2 ^ 63) \<le> x \<Longrightarrow> x < 2 ^ 63 \<Longrightarrow> i64_wrap x = x"
  by (simp add: i64_wrap_def)

lemma as_u64_id: "0 \<le> v \<Longrightarrow> v < 2 ^ 64 \<Longrightarrow> as_u64 v = nat v"
  by (simp add: as_u64_def)

lemma as_i64_id: "n < 2 ^ 63 \<Longrightarrow> as_i64 n = int n"
  by (simp add: as_i64_def i64_wrap_id)

lemma u64_mul_id: "a * b < 2 ^ 64 \<Longrightarrow> u64_mul a b = a * b"
  by (simp add: u64_mul_def)

subsection \<open>The parameter table\<close>

datatype transfer_kind = Upload_kind | Download_kind

record tune_params =
  pm_concurrency :: nat
  pm_upload_window :: nat
  pm_download_window :: nat
  pm_chunk_size :: nat
  pm_compress_level :: int

definition request_budget :: "nat \<Rightarrow> nat \<Rightarrow> nat" where
  "request_budget concurrency per_file_window =
     min (max (sat_mul (max concurrency 1) (max per_file_window 1)) 1) hard_max_in_flight_requests"

definition params_request_budget :: "tune_params \<Rightarrow> nat" where
  "params_request_budget p =
     request_budget (pm_concurrency p) (max (pm_upload_window p) (pm_download_window p))"

definition floor_of :: "int_range \<Rightarrow> int \<Rightarrow> int" where
  "floor_of r hard_max = int_clamp (ir_min r) 1 (max hard_max 1)"

definition bounded :: "int \<Rightarrow> int_range \<Rightarrow> int \<Rightarrow> int" where
  "bounded v0 r hard_max0 =
     (let hard_max = max hard_max0 1; v = max v0 1 in
      if ir_max r < ir_min r then max (min v hard_max) 1
      else let lo = int_clamp (ir_min r) 1 hard_max; hi = max (min (ir_max r) hard_max) lo in
           int_clamp v lo hi)"

definition from_caps_mins :: "capabilities \<Rightarrow> tune_params" where
  "from_caps_mins caps =
     (let l = cap_limits caps in
      \<lparr> pm_concurrency = as_u64 (floor_of (lm_concurrency l) hard_max_concurrency),
        pm_upload_window = as_u64 (floor_of (lm_upload_window l) hard_max_window),
        pm_download_window = as_u64 (floor_of (lm_download_window l) hard_max_window),
        pm_chunk_size = as_u64 (floor_of (lm_chunk_size l) hard_max_chunk_size),
        pm_compress_level = zl_min (cc_zrip_levels (cap_compression caps)) \<rparr>)"

definition from_config :: "nat \<Rightarrow> nat \<Rightarrow> nat \<Rightarrow> nat \<Rightarrow> int \<Rightarrow> capabilities \<Rightarrow> tune_params" where
  "from_config concurrency upload_window download_window chunk_sz compress_level caps =
     (let l = cap_limits caps in
      \<lparr> pm_concurrency = as_u64 (bounded (as_i64 (max concurrency 1)) (lm_concurrency l) hard_max_concurrency),
        pm_upload_window = as_u64 (bounded (as_i64 (max upload_window 1)) (lm_upload_window l) hard_max_window),
        pm_download_window = as_u64 (bounded (as_i64 (max download_window 1)) (lm_download_window l) hard_max_window),
        pm_chunk_size = as_u64 (bounded (as_i64 (max chunk_sz 1)) (lm_chunk_size l) hard_max_chunk_size),
        pm_compress_level = caps_clamp_level caps compress_level \<rparr>)"

definition clamped_into :: "tune_params \<Rightarrow> capabilities \<Rightarrow> tune_params" where
  "clamped_into p caps =
     (let l = cap_limits caps in
      \<lparr> pm_concurrency = as_u64 (bounded (as_i64 (pm_concurrency p)) (lm_concurrency l) hard_max_concurrency),
        pm_upload_window = as_u64 (bounded (as_i64 (pm_upload_window p)) (lm_upload_window l) hard_max_window),
        pm_download_window = as_u64 (bounded (as_i64 (pm_download_window p)) (lm_download_window l) hard_max_window),
        pm_chunk_size = as_u64 (bounded (as_i64 (pm_chunk_size p)) (lm_chunk_size l) hard_max_chunk_size),
        pm_compress_level = caps_clamp_level caps (pm_compress_level p) \<rparr>)"

definition upload_in_flight :: "tune_params \<Rightarrow> nat" where
  "upload_in_flight p = u64_mul (u64_mul (pm_concurrency p) (pm_upload_window p)) (pm_chunk_size p)"

definition download_in_flight :: "tune_params \<Rightarrow> nat" where
  "download_in_flight p = u64_mul (u64_mul (pm_concurrency p) (pm_download_window p)) (pm_chunk_size p)"

subsection \<open>Measurements\<close>

definition ewma :: "f64 option \<Rightarrow> f64 \<Rightarrow> f64 \<Rightarrow> f64" where
  "ewma prev sample alpha =
     (case prev of None \<Rightarrow> sample
      | Some p \<Rightarrow> f_add (f_mul alpha sample) (f_mul (f_sub (Fin 1) alpha) p))"

definition bdp_bytes :: "f64 \<Rightarrow> f64 \<Rightarrow> nat" where
  "bdp_bytes mbps rtt_ms =
     f_to_u64 (f_max (f_div (f_mul (f_div (f_mul mbps (Fin 1000000)) (Fin 8)) rtt_ms) (Fin 1000)) (Fin 0))"

text \<open>\<open>i64::MAX as f64\<close> is \<open>2 ^ 63\<close>.\<close>

definition chunk_for_link :: "f64 \<Rightarrow> int_range \<Rightarrow> nat \<Rightarrow> nat" where
  "chunk_for_link mbps r budget_max =
     (let floor = as_u64 (max (floor_of r hard_max_chunk_size) 1) in
      if \<not> f_is_finite mbps \<or> f_le mbps (Fin 0) then max (min floor (max budget_max 1)) 1
      else
        let link = f_div (f_mul (f_div (f_mul mbps (Fin 1000000)) (Fin 8)) target_chunk_span_ms) (Fin 1000);
            bytes = f_to_u64 (f_clamp link (Fin 0) (Fin (2 ^ 63)));
            aligned = sat_mul (bytes div chunk_align) chunk_align;
            clamped = as_u64 (bounded (as_i64 (max aligned 1)) r hard_max_chunk_size)
        in min (max clamped 1) (max budget_max 1))"

subsection \<open>The decision of one window\<close>

datatype ramp_dim = Window_dim | Concurrency_dim
datatype ramp_act = Raise | Advance_dim | Settle | Degrade | Hold

record ramp_input =
  ri_mbps :: f64
  ri_prev_mbps :: f64
  ri_rtt_inflation :: f64
  ri_errors :: nat
  ri_degraded :: bool
  ri_ramping :: bool
  ri_low_gain_windows :: nat
  ri_in_flight :: nat
  ri_bdp :: nat
  ri_at_cap :: bool
  ri_last_dim :: bool

text \<open>\<open>u32\<close> counters wrap.\<close>

definition u32_add :: "nat \<Rightarrow> nat \<Rightarrow> nat" where
  "u32_add a b = (a + b) mod 2 ^ 32"

definition ramp_gain :: "ramp_input \<Rightarrow> f64" where
  "ramp_gain i =
     (if ri_degraded i then Fin 0
      else if f_less (Fin 0) (ri_prev_mbps i) then f_sub (f_div (ri_mbps i) (ri_prev_mbps i)) (Fin 1)
      else if ri_ramping i then Fin 1 else Fin 0)"

definition ramp_action :: "ramp_input \<Rightarrow> ramp_act \<times> nat" where
  "ramp_action i =
     (if 0 < ri_errors i then (Degrade, 0)
      else if ri_at_cap i then (if ri_last_dim i then (Settle, 0) else (Advance_dim, 0))
      else if 0 < ri_bdp i \<and> ri_bdp i \<le> ri_in_flight i then (Settle, 0)
      else if f_less rtt_inflate_threshold (ri_rtt_inflation i) then (Settle, 0)
      else if ri_ramping i \<and> f_le gain_threshold (ramp_gain i) then (Raise, 0)
      else
        let low = u32_add (ri_low_gain_windows i) 1 in
        if 2 \<le> low
        then (if ri_degraded i \<or> ri_last_dim i then (Settle, low) else (Advance_dim, 0))
        else (Hold, low))"

definition next_dim :: "ramp_dim \<Rightarrow> ramp_dim" where
  "next_dim d = (case d of Window_dim \<Rightarrow> Concurrency_dim | Concurrency_dim \<Rightarrow> Concurrency_dim)"

subsection \<open>The compression level\<close>

datatype compress_level = Lv_Auto | Lv_Fast | Lv_Balanced | Lv_Max | Lv_Fixed int

definition resolve_level :: "compress_level \<Rightarrow> capabilities \<Rightarrow> int" where
  "resolve_level level caps =
     (let z = cc_zrip_levels (cap_compression caps) in
      case level of
        Lv_Fast \<Rightarrow> zl_min z
      | Lv_Balanced \<Rightarrow> zl_default z
      | Lv_Auto \<Rightarrow> zl_default z
      | Lv_Max \<Rightarrow> zl_max z
      | Lv_Fixed l \<Rightarrow> zrip_clamp_level z l)"

definition level_score :: "f64 \<Rightarrow> nat \<Rightarrow> nat \<times> f64 \<Rightarrow> f64" where
  "level_score bytes_per_ms uncompressed = (\<lambda>(clen, cms).
     f_sub (f_div (f_of_nat (uncompressed - clen)) bytes_per_ms) cms)"

fun best_level :: "f64 \<Rightarrow> nat \<Rightarrow> int \<times> f64 \<Rightarrow> (int \<times> nat \<times> f64) list \<Rightarrow> int \<times> f64" where
  "best_level bpm u best [] = best"
| "best_level bpm u best ((lvl, c) # cs) =
     (let score = level_score bpm u c in
      best_level bpm u (if f_less (snd best) score then (lvl, score) else best) cs)"

definition choose_auto_level :: "(int \<times> nat \<times> f64) list \<Rightarrow> nat \<Rightarrow> f64 \<Rightarrow> int" where
  "choose_auto_level candidates uncompressed mbps =
     (if candidates = [] then 0
      else
        let bytes_per_ms =
              (if f_less (Fin 0) mbps then f_div (f_div (f_mul mbps (Fin 1000000)) (Fin 8)) (Fin 1000)
               else Fin 1250);
            max_saved = Max (set (map (\<lambda>(_, clen, _). uncompressed - clen) candidates))
        in if max_saved = 0 then Min (set (map fst candidates))
           else fst (best_level bytes_per_ms uncompressed (fst (hd candidates), FInf True) candidates))"

definition auto_candidates :: "capabilities \<Rightarrow> int list" where
  "auto_candidates caps =
     (let z = cc_zrip_levels (cap_compression caps) in [zl_min z, zl_default z, zl_max z])"

text \<open>
  \<open>zc\<close> is \<open>zrip::compress\<close> (\<open>None\<close> for its error); \<open>clock i\<close> the \<open>i\<close>-th reading of \<open>now_ms\<close>.
\<close>

definition benchmark_levels ::
  "(bytes \<Rightarrow> int \<Rightarrow> bytes option) \<Rightarrow> (nat \<Rightarrow> f64) \<Rightarrow> bytes \<Rightarrow> int list \<Rightarrow> (int \<times> nat \<times> f64) list" where
  "benchmark_levels zc clock sample levels =
     map2 (\<lambda>i level.
         let out = (case zc sample level of Some o1 \<Rightarrow> o1 | None \<Rightarrow> sample) in
         (level, length out, f_sub (clock (2 * i + 1)) (clock (2 * i))))
       [0..<length levels] levels"

end
