(* ===== verification/Tune_Engine.thy ===== *)
theory Tune_Engine
  imports Tune
begin

text \<open>
  The tuning state machine (libfw-client, \<open>tune.rs\<close>, \<open>TuningEngine\<close>) and its cache of settled
  results.  The JavaScript callback and the snapshot for JavaScript are left out: they read the
  state.  The storage behind \<open>TuneStore\<close>, the JSON codec of a cache entry and the hash of an
  advertisement are parameters, gathered in \<open>tune_env\<close>.
\<close>

subsection \<open>Data\<close>

datatype tune_phase = Uninitialized | Ramping | Settled | Degraded

record tune_stats =
  ts_rtt_ms :: f64
  ts_mbps :: f64

record tune_params_cache =
  tc_concurrency :: nat
  tc_upload_window :: nat
  tc_download_window :: nat
  tc_chunk_size :: nat

record tune_cache =
  tn_v :: nat
  tn_caps_hash :: string
  tn_saved_at_ms :: nat
  tn_params :: tune_params_cache

record 's tune_env =
  env_get :: "'s \<Rightarrow> string \<Rightarrow> string option"
  env_set :: "'s \<Rightarrow> string \<Rightarrow> string \<Rightarrow> 's"
  env_remove :: "'s \<Rightarrow> string \<Rightarrow> 's"
  env_to_json :: "tune_cache \<Rightarrow> string option"
  env_from_json :: "string \<Rightarrow> tune_cache option"
  env_hash :: "capabilities \<Rightarrow> string"

record 's tuning_engine =
  te_enabled :: bool
  te_level_cfg :: compress_level
  te_policy_level :: int
  te_phase :: tune_phase
  te_caps :: "capabilities option"
  te_caps_hash :: string
  te_params :: tune_params
  te_stats :: tune_stats
  te_auto_level :: "int option"
  te_auto_benchmarked :: bool
  te_window_start :: f64
  te_window_base :: nat
  te_window_errors :: nat
  te_windows_closed :: nat
  te_rtt_ewma :: "f64 option"
  te_rtt_baseline :: "f64 option"
  te_prev_mbps :: f64
  te_low_gain :: nat
  te_dim :: ramp_dim
  te_degraded_windows :: nat
  te_settled :: "tune_params option"
  te_settled_caps_hash :: string
  te_settled_direction :: "transfer_kind option"
  te_post_degrade :: bool
  te_direction :: transfer_kind
  te_store :: "'s option"
  te_cache_ttl :: nat
  te_origin :: string

definition default_tune_ttl_ms :: nat where "default_tune_ttl_ms = 60 * 60 * 1000"
definition tune_cache_version :: nat where "tune_cache_version = 1"

definition cache_of :: "tune_params \<Rightarrow> tune_params_cache" where
  "cache_of p =
     \<lparr> tc_concurrency = pm_concurrency p, tc_upload_window = pm_upload_window p,
       tc_download_window = pm_download_window p, tc_chunk_size = pm_chunk_size p \<rparr>"

definition into_params :: "tune_params_cache \<Rightarrow> int \<Rightarrow> tune_params" where
  "into_params c compress_level =
     \<lparr> pm_concurrency = tc_concurrency c, pm_upload_window = tc_upload_window c,
       pm_download_window = tc_download_window c, pm_chunk_size = tc_chunk_size c,
       pm_compress_level = compress_level \<rparr>"

definition tune_key :: "string \<Rightarrow> transfer_kind \<Rightarrow> string" where
  "tune_key origin direction =
     ''libfw.tune.v'' @ show_nat tune_cache_version @ ''.'' @
     (case direction of Upload_kind \<Rightarrow> ''upload'' | Download_kind \<Rightarrow> ''download'') @ ''.'' @ origin"

text \<open>\<open>split_once("://")\<close>.\<close>

fun split_scheme :: "string \<Rightarrow> (string \<times> string) option" where
  "split_scheme [] = None"
| "split_scheme (c # cs) =
     (case strip_prefix (c # cs) ''://'' of
        Some r \<Rightarrow> Some ([], r)
      | None \<Rightarrow> map_option (\<lambda>(a, r). (c # a, r)) (split_scheme cs))"

definition origin_of :: "string \<Rightarrow> string" where
  "origin_of url =
     (case split_scheme url of
        None \<Rightarrow> []
      | Some (scheme, rest) \<Rightarrow>
          if \<not> eq_ignore_ascii_case scheme ''http'' \<and> \<not> eq_ignore_ascii_case scheme ''https'' then []
          else let authority = str_trim (takeWhile (\<lambda>c. c \<notin> set ''/?#'') rest) in
               if authority = [] then []
               else to_ascii_lowercase scheme @ ''://'' @ to_ascii_lowercase authority)"

definition engine_new :: "bool \<Rightarrow> compress_level \<Rightarrow> 's tuning_engine" where
  "engine_new enabled level_cfg =
     \<lparr> te_enabled = enabled, te_level_cfg = level_cfg, te_policy_level = zrip_default_level,
       te_phase = Uninitialized, te_caps = None, te_caps_hash = [],
       te_params = \<lparr> pm_concurrency = 1, pm_upload_window = 1, pm_download_window = 1,
                     pm_chunk_size = 1, pm_compress_level = 0 \<rparr>,
       te_stats = \<lparr> ts_rtt_ms = Fin 0, ts_mbps = Fin 0 \<rparr>,
       te_auto_level = None, te_auto_benchmarked = False,
       te_window_start = Fin 0, te_window_base = 0, te_window_errors = 0, te_windows_closed = 0,
       te_rtt_ewma = None, te_rtt_baseline = None, te_prev_mbps = Fin 0, te_low_gain = 0,
       te_dim = Window_dim, te_degraded_windows = 0,
       te_settled = None, te_settled_caps_hash = [], te_settled_direction = None,
       te_post_degrade = False, te_direction = Download_kind,
       te_store = None, te_cache_ttl = default_tune_ttl_ms, te_origin = [] \<rparr>"

subsection \<open>The cache\<close>

definition set_cache :: "'s \<Rightarrow> nat \<Rightarrow> 's tuning_engine \<Rightarrow> 's tuning_engine" where
  "set_cache store ttl e = e\<lparr> te_store := Some store, te_cache_ttl := ttl \<rparr>"

definition set_origin :: "string \<Rightarrow> 's tuning_engine \<Rightarrow> 's tuning_engine" where
  "set_origin url e = e\<lparr> te_origin := origin_of url \<rparr>"

definition set_direction :: "transfer_kind \<Rightarrow> 's tuning_engine \<Rightarrow> 's tuning_engine" where
  "set_direction k e = e\<lparr> te_direction := k \<rparr>"

definition set_enabled :: "bool \<Rightarrow> 's tuning_engine \<Rightarrow> 's tuning_engine" where
  "set_enabled b e = e\<lparr> te_enabled := b \<rparr>"

definition cache_key :: "'s tuning_engine \<Rightarrow> string option" where
  "cache_key e =
     (if te_store e = None \<or> te_cache_ttl e = 0 \<or> te_origin e = [] then None
      else Some (tune_key (te_origin e) (te_direction e)))"

definition remove_cache_entry :: "'s tune_env \<Rightarrow> 's tuning_engine \<Rightarrow> 's tuning_engine" where
  "remove_cache_entry v e =
     (case (te_store e, cache_key e) of
        (Some st, Some key) \<Rightarrow> e\<lparr> te_store := Some (env_remove v st key) \<rparr>
      | _ \<Rightarrow> e)"

definition load_cached_settle ::
  "'s tune_env \<Rightarrow> f64 \<Rightarrow> capabilities \<Rightarrow> 's tuning_engine \<Rightarrow> tune_params option \<times> 's tuning_engine" where
  "load_cached_settle v now caps e =
     (case (cache_key e, te_store e) of
        (Some key, Some st) \<Rightarrow>
          (case env_get v st key of
             None \<Rightarrow> (None, e)
           | Some raw \<Rightarrow>
               (case env_from_json v raw of
                  None \<Rightarrow> (None, e\<lparr> te_store := Some (env_remove v st key) \<rparr>)
                | Some entry \<Rightarrow>
                    let aged = f_sub now (f_of_nat (tn_saved_at_ms entry));
                        fresh = f_le (Fin 0) aged \<and> f_le aged (f_of_nat (te_cache_ttl e)) in
                    if tn_v entry \<noteq> tune_cache_version \<or> tn_caps_hash entry \<noteq> env_hash v caps \<or> \<not> fresh
                    then (None, e\<lparr> te_store := Some (env_remove v st key) \<rparr>)
                    else (Some (into_params (tn_params entry) (te_policy_level e)), e)))
      | _ \<Rightarrow> (None, e))"

definition save_cached_settle :: "'s tune_env \<Rightarrow> f64 \<Rightarrow> 's tuning_engine \<Rightarrow> 's tuning_engine" where
  "save_cached_settle v now e =
     (case (cache_key e, te_store e) of
        (Some key, Some st) \<Rightarrow>
          (let entry = \<lparr> tn_v = tune_cache_version, tn_caps_hash = te_caps_hash e,
                 tn_saved_at_ms = (if f_less (Fin 0) now then f_to_u64 now else 0),
                 tn_params = cache_of (te_params e) \<rparr> in
           case env_to_json v entry of
             Some json \<Rightarrow> e\<lparr> te_store := Some (env_set v st key json) \<rparr>
           | None \<Rightarrow> e)
      | _ \<Rightarrow> e)"

subsection \<open>The dimensions\<close>

definition te_in_flight :: "'s tuning_engine \<Rightarrow> nat" where
  "te_in_flight e =
     (case te_direction e of
        Upload_kind \<Rightarrow> upload_in_flight (te_params e)
      | Download_kind \<Rightarrow> download_in_flight (te_params e))"

text \<open>The field of the parameter table the ramp moves.\<close>

definition get_dim :: "ramp_dim \<Rightarrow> transfer_kind \<Rightarrow> tune_params \<Rightarrow> nat" where
  "get_dim d k p =
     (case d of
        Window_dim \<Rightarrow> (case k of Upload_kind \<Rightarrow> pm_upload_window p | Download_kind \<Rightarrow> pm_download_window p)
      | Concurrency_dim \<Rightarrow> pm_concurrency p)"

definition put_dim :: "ramp_dim \<Rightarrow> transfer_kind \<Rightarrow> nat \<Rightarrow> tune_params \<Rightarrow> tune_params" where
  "put_dim d k n p =
     (case d of
        Window_dim \<Rightarrow> (case k of Upload_kind \<Rightarrow> p\<lparr> pm_upload_window := n \<rparr>
                               | Download_kind \<Rightarrow> p\<lparr> pm_download_window := n \<rparr>)
      | Concurrency_dim \<Rightarrow> p\<lparr> pm_concurrency := n \<rparr>)"

definition dim_value :: "'s tuning_engine \<Rightarrow> int" where
  "dim_value e = as_i64 (get_dim (te_dim e) (te_direction e) (te_params e))"

definition dim_max :: "capabilities \<Rightarrow> 's tuning_engine \<Rightarrow> int" where
  "dim_max caps e =
     (let l = cap_limits caps;
          advertised = (case te_dim e of
              Window_dim \<Rightarrow> (case te_direction e of
                  Upload_kind \<Rightarrow> ir_max (lm_upload_window l) | Download_kind \<Rightarrow> ir_max (lm_download_window l))
            | Concurrency_dim \<Rightarrow> ir_max (lm_concurrency l));
          hard = (case te_dim e of Window_dim \<Rightarrow> hard_max_window | Concurrency_dim \<Rightarrow> hard_max_concurrency)
      in max (min advertised hard) 1)"

definition max_chunk_for_budget :: "tune_params \<Rightarrow> nat" where
  "max_chunk_for_budget p =
     (let widest = max (max (pm_upload_window p) (pm_download_window p)) 1;
          divisor = u64_mul (max (pm_concurrency p) 1) widest
      in max (hard_max_in_flight_bytes div divisor) 1)"

definition enforce_budget :: "tune_params \<Rightarrow> tune_params" where
  "enforce_budget p = p\<lparr> pm_chunk_size := min (max (pm_chunk_size p) 1) (max_chunk_for_budget p) \<rparr>"

definition retune_chunk_size :: "f64 \<Rightarrow> capabilities \<Rightarrow> tune_params \<Rightarrow> tune_params" where
  "retune_chunk_size mbps caps p =
     (let target = chunk_for_link mbps (lm_chunk_size (cap_limits caps)) (max_chunk_for_budget p);
          current = max (pm_chunk_size p) 1;
          grow = sat_mul current 3 div 2;
          shrink = max (current div 2) 1
      in if grow < target \<or> target < shrink then enforce_budget (p\<lparr> pm_chunk_size := target \<rparr>) else p)"

definition dim_at_cap :: "capabilities \<Rightarrow> 's tuning_engine \<Rightarrow> bool" where
  "dim_at_cap caps e \<longleftrightarrow> dim_max caps e \<le> dim_value e"

definition raise_step :: "int \<Rightarrow> int \<Rightarrow> int" where
  "raise_step mx v =
     (if v \<le> 0 then 1 else if i64_wrap (v * 2) \<le> mx then i64_wrap (v * 2) else min (i64_wrap (v + 1)) mx)"

definition raise_dim :: "capabilities \<Rightarrow> 's tuning_engine \<Rightarrow> 's tuning_engine" where
  "raise_dim caps e =
     e\<lparr> te_params := put_dim (te_dim e) (te_direction e)
          (as_u64 (max (raise_step (dim_max caps e) (dim_value e)) 1)) (te_params e) \<rparr>"

text \<open>\<open>v as f64\<close> of an \<open>i64\<close>, times one half, floored, at least one, back to an \<open>i64\<close>.\<close>

definition halve_step :: "int \<Rightarrow> int" where
  "halve_step v =
     f_to_i64 (f_max (f_floor (f_mul (f64_of_rat (of_int v)) degrade_factor)) (Fin 1))"

definition halve_dim :: "'s tuning_engine \<Rightarrow> 's tuning_engine" where
  "halve_dim e =
     e\<lparr> te_params := put_dim (te_dim e) (te_direction e) (as_u64 (halve_step (dim_value e))) (te_params e) \<rparr>"

definition rtt_inflation :: "'s tuning_engine \<Rightarrow> f64" where
  "rtt_inflation e =
     (case (te_rtt_ewma e, te_rtt_baseline e) of
        (Some cur, Some base) \<Rightarrow>
          if f_less (Fin 0) base then f_max (f_sub (f_div cur base) (Fin 1)) (Fin 0) else Fin 0
      | _ \<Rightarrow> Fin 0)"

subsection \<open>A transfer\<close>

text \<open>The reset of the measurement state at the start of a transfer.\<close>

definition begin_reset :: "'s tune_env \<Rightarrow> capabilities \<Rightarrow> f64 \<Rightarrow> int \<Rightarrow> 's tuning_engine \<Rightarrow> 's tuning_engine" where
  "begin_reset v caps now policy_level e =
     e\<lparr> te_caps := Some caps, te_caps_hash := env_hash v caps, te_windows_closed := 0,
        te_window_errors := 0, te_window_base := 0, te_window_start := now,
        te_auto_benchmarked := False, te_auto_level := None, te_post_degrade := False,
        te_prev_mbps := Fin 0, te_low_gain := 0, te_rtt_ewma := None, te_rtt_baseline := None,
        te_degraded_windows := 0, te_policy_level := policy_level \<rparr>"

definition set_params :: "tune_params \<Rightarrow> 's tuning_engine \<Rightarrow> 's tuning_engine" where
  "set_params p e = e\<lparr> te_params := p \<rparr>"

definition reusable_settle ::
  "'s tune_env \<Rightarrow> f64 \<Rightarrow> capabilities \<Rightarrow> 's tuning_engine \<Rightarrow> tune_params option \<times> 's tuning_engine" where
  "reusable_settle v now caps e =
     (if te_settled e \<noteq> None \<and> te_settled_caps_hash e = te_caps_hash e \<and>
         te_settled_direction e = Some (te_direction e)
      then (te_settled e, e) else load_cached_settle v now caps e)"

definition begin_transfer ::
  "'s tune_env \<Rightarrow> capabilities \<Rightarrow> f64 \<Rightarrow> tune_params \<Rightarrow> 's tuning_engine \<Rightarrow> tune_params \<times> 's tuning_engine" where
  "begin_transfer v caps now static_params e0 =
     (let policy_level = pm_compress_level static_params;
          e = begin_reset v caps now policy_level e0 in
      if \<not> te_enabled e
      then let e2 = set_params (enforce_budget (clamped_into static_params caps)) (e\<lparr> te_phase := Uninitialized \<rparr>)
           in (te_params e2, e2)
      else
        (case reusable_settle v now caps e of
           (Some settled, e1) \<Rightarrow>
             (let e2 = set_params (enforce_budget ((clamped_into settled caps)\<lparr> pm_compress_level := policy_level \<rparr>))
                         (e1\<lparr> te_phase := Settled, te_dim := Window_dim \<rparr>)
              in (te_params e2, e2))
         | (None, e1) \<Rightarrow>
             (let e2 = set_params (enforce_budget ((from_caps_mins caps)\<lparr> pm_compress_level := policy_level \<rparr>))
                         (e1\<lparr> te_stats := \<lparr> ts_rtt_ms = Fin 0, ts_mbps = Fin 0 \<rparr>, te_phase := Ramping,
                              te_dim := Window_dim \<rparr>)
              in (te_params e2, e2))))"

record tune_event =
  ev_phase :: tune_phase
  ev_params :: tune_params
  ev_stats :: tune_stats

text \<open>The samples of a call of \<open>tick\<close>.\<close>

definition note_error :: "bool \<Rightarrow> 's tuning_engine \<Rightarrow> 's tuning_engine" where
  "note_error err e = (if err then e\<lparr> te_window_errors := u32_add (te_window_errors e) 1 \<rparr> else e)"

definition note_rtt :: "f64 option \<Rightarrow> 's tuning_engine \<Rightarrow> 's tuning_engine" where
  "note_rtt rtt e =
     (case rtt of
        Some r \<Rightarrow>
          if f_less (Fin 0) r
          then let new = ewma (te_rtt_ewma e) r rtt_ewma_alpha in
               e\<lparr> te_rtt_baseline := (if te_enabled e \<and> te_rtt_baseline e = None then Some new
                                     else te_rtt_baseline e),
                  te_rtt_ewma := Some new \<rparr>
          else e
      | None \<Rightarrow> e)"

definition window_mbps :: "f64 \<Rightarrow> nat \<Rightarrow> 's tuning_engine \<Rightarrow> f64" where
  "window_mbps elapsed done_bytes e =
     (let bytes = done_bytes - te_window_base e in
      if f_less (Fin 0) elapsed
      then f_div (f_mul (f_mul (f_div (f_of_nat bytes) elapsed) (Fin 1000)) (Fin 8)) (Fin 1000000)
      else Fin 0)"

definition note_stats :: "f64 \<Rightarrow> 's tuning_engine \<Rightarrow> 's tuning_engine" where
  "note_stats mbps e =
     e\<lparr> te_stats := \<lparr> ts_rtt_ms = (case te_rtt_ewma e of Some r \<Rightarrow> r | None \<Rightarrow> ts_rtt_ms (te_stats e)),
                      ts_mbps = mbps \<rparr> \<rparr>"

definition window_input :: "f64 \<Rightarrow> capabilities \<Rightarrow> 's tuning_engine \<Rightarrow> ramp_input" where
  "window_input mbps caps e =
     (let ramping = (te_phase e = Ramping) in
      \<lparr> ri_mbps = mbps, ri_prev_mbps = te_prev_mbps e,
        ri_rtt_inflation = (if ramping then rtt_inflation e else Fin 0),
        ri_errors = te_window_errors e, ri_degraded = (te_phase e = Degraded), ri_ramping = ramping,
        ri_low_gain_windows = te_low_gain e, ri_in_flight = te_in_flight e,
        ri_bdp = (if ramping \<and> te_dim e = Concurrency_dim
                  then bdp_bytes mbps (case te_rtt_ewma e of Some r \<Rightarrow> r | None \<Rightarrow> ts_rtt_ms (te_stats e))
                  else 0),
        ri_at_cap = dim_at_cap caps e, ri_last_dim = (te_dim e = Concurrency_dim) \<rparr>)"

definition apply_action :: "'s tune_env \<Rightarrow> f64 \<Rightarrow> capabilities \<Rightarrow> ramp_act \<Rightarrow> 's tuning_engine \<Rightarrow> 's tuning_engine" where
  "apply_action v now caps act e =
     (case act of
        Raise \<Rightarrow>
          (let e1 = raise_dim caps e; e2 = set_params (enforce_budget (te_params e1)) e1 in
           if te_phase e2 = Degraded then e2\<lparr> te_phase := Ramping \<rparr> else e2)
      | Advance_dim \<Rightarrow> e\<lparr> te_dim := next_dim (te_dim e) \<rparr>
      | Settle \<Rightarrow>
          (let e1 = e\<lparr> te_phase := Settled, te_low_gain := 0 \<rparr> in
           if te_post_degrade e1 then e1
           else save_cached_settle v now
                  (e1\<lparr> te_settled := Some (te_params e1), te_settled_caps_hash := te_caps_hash e1,
                       te_settled_direction := Some (te_direction e1) \<rparr>))
      | Degrade \<Rightarrow> (halve_dim e)\<lparr> te_phase := Degraded, te_degraded_windows := 0, te_low_gain := 0 \<rparr>
      | Hold \<Rightarrow>
          (if te_phase e = Degraded
           then let n = u32_add (te_degraded_windows e) 1; e1 = e\<lparr> te_degraded_windows := n \<rparr> in
                if 2 \<le> n then e1\<lparr> te_phase := Settled, te_post_degrade := True \<rparr> else e1
           else e))"

definition close_window :: "'s tune_env \<Rightarrow> f64 \<Rightarrow> nat \<Rightarrow> f64 \<Rightarrow> capabilities \<Rightarrow> 's tuning_engine \<Rightarrow> 's tuning_engine" where
  "close_window v now done_bytes mbps caps e0 =
     (let e1 = note_stats mbps e0;
          e2 = set_params (retune_chunk_size mbps caps (te_params e1)) e1;
          (act, low) = ramp_action (window_input mbps caps e2);
          e3 = e2\<lparr> te_low_gain := low, te_windows_closed := u32_add (te_windows_closed e2) 1,
                   te_prev_mbps := mbps \<rparr>;
          e4 = apply_action v now caps act e3
      in e4\<lparr> te_window_start := now, te_window_base := done_bytes, te_window_errors := 0 \<rparr>)"

definition tick ::
  "'s tune_env \<Rightarrow> f64 \<Rightarrow> nat \<Rightarrow> f64 option \<Rightarrow> bool \<Rightarrow> 's tuning_engine \<Rightarrow> tune_event option \<times> 's tuning_engine" where
  "tick v now done_bytes rtt err e0 =
     (let e = note_rtt rtt (note_error err e0);
          elapsed = f_sub now (te_window_start e) in
      if f_less elapsed tune_window_ms \<or> \<not> te_enabled e then (None, e)
      else case te_caps e of
             None \<Rightarrow> (None, e)
           | Some caps \<Rightarrow>
               (let e2 = close_window v now done_bytes (window_mbps elapsed done_bytes e) caps e in
                (Some \<lparr> ev_phase = te_phase e2, ev_params = te_params e2, ev_stats = te_stats e2 \<rparr>, e2)))"

definition transfer_end :: "'s tune_env \<Rightarrow> bool \<Rightarrow> 's tuning_engine \<Rightarrow> 's tuning_engine" where
  "transfer_end v ok e =
     (if \<not> te_enabled e \<or> ok then e
      else (remove_cache_entry v
              (e\<lparr> te_settled := None, te_settled_caps_hash := [], te_settled_direction := None \<rparr>))
           \<lparr> te_phase := Ramping \<rparr>)"

definition upload_compress_level ::
  "(bytes \<Rightarrow> int \<Rightarrow> bytes option) \<Rightarrow> (nat \<Rightarrow> f64) \<Rightarrow> capabilities \<Rightarrow> bytes option \<Rightarrow> f64 \<Rightarrow>
   's tuning_engine \<Rightarrow> int \<times> 's tuning_engine" where
  "upload_compress_level zc clock caps sample mbps e =
     (case te_level_cfg e of
        Lv_Auto \<Rightarrow>
          (let dflt = zl_default (cc_zrip_levels (cap_compression caps));
               e1 = (if te_auto_benchmarked e then e
                     else e\<lparr> te_auto_benchmarked := True, te_auto_level := Some
                       (case sample of
                          Some s \<Rightarrow>
                            if s = [] then dflt
                            else let s = take level_sample_size s in
                                 choose_auto_level (benchmark_levels zc clock s (auto_candidates caps))
                                   (length s) (f_max mbps (Fin 1))
                        | None \<Rightarrow> dflt) \<rparr>)
           in ((case te_auto_level e1 of Some l \<Rightarrow> l | None \<Rightarrow> dflt), e1))
      | other \<Rightarrow> (resolve_level other caps, e))"

end
