(* ===== verification/Ranges.thy ===== *)
theory Ranges
  imports Libfw_Prelude
begin

text \<open>
  Byte ranges: \<open>RangeSpec\<close> of libfw-core (\<open>range.rs\<close>) and the HTTP range and ETag helpers of
  libfw-server (\<open>http.rs\<close>).  A range is half open, \<open>[r_start, r_end)\<close>; the header text uses the
  inclusive end, so the conversions in both directions and their overflow guards are the subject of
  the lemmas.
\<close>

subsection \<open>RangeSpec\<close>

record range_spec =
  r_start :: nat
  r_end :: nat

definition range_new :: "nat \<Rightarrow> nat \<Rightarrow> range_spec" where
  "range_new start len = \<lparr> r_start = start, r_end = sat_add start len \<rparr>"

definition range_full :: "nat \<Rightarrow> range_spec" where
  "range_full len = \<lparr> r_start = 0, r_end = len \<rparr>"

definition range_len :: "range_spec \<Rightarrow> nat" where
  "range_len r = r_end r - r_start r"

definition range_is_empty :: "range_spec \<Rightarrow> bool" where
  "range_is_empty r \<longleftrightarrow> range_len r = 0"

definition range_clamp :: "range_spec \<Rightarrow> nat \<Rightarrow> range_spec option" where
  "range_clamp r file_size =
     (if file_size \<le> r_start r then None
      else Some \<lparr> r_start = r_start r, r_end = min (r_end r) file_size \<rparr>)"

text \<open>The offsets a range stands for.\<close>

definition range_set :: "range_spec \<Rightarrow> nat set" where
  "range_set r = {r_start r..<r_end r}"

lemma range_clamp_Some:
  "range_clamp r n = Some q \<longleftrightarrow>
     r_start r < n \<and> q = \<lparr> r_start = r_start r, r_end = min (r_end r) n \<rparr>"
  by (auto simp: range_clamp_def)

lemma range_clamp_set: "range_clamp r n = Some q \<Longrightarrow> range_set q = range_set r \<inter> {..<n}"
  by (auto simp: range_clamp_Some range_set_def)

lemma range_clamp_None_set: "range_clamp r n = None \<Longrightarrow> range_set r \<inter> {..<n} = {}"
  by (auto simp: range_clamp_def range_set_def split: if_splits)

lemma range_len_card: "range_len r = card (range_set r)"
  by (simp add: range_len_def range_set_def)

subsection \<open>The Range header\<close>

datatype range_parse_error = Malformed

datatype parsed_range = PBytes range_spec | PSuffix nat

definition parse_u64 :: "string \<Rightarrow> range_parse_error + nat" where
  "parse_u64 s = (if s = [] then Inl Malformed else ok_or Malformed (u64_from_str s))"

definition parse_range_header :: "string \<Rightarrow> range_parse_error + parsed_range option" where
  "parse_range_header hdr =
     (let header = str_trim hdr in
      if header = [] then Inr None
      else case split_once CHR ''='' header of
        None \<Rightarrow> Inr None
      | Some (unit_s, spec0) \<Rightarrow>
          if \<not> eq_ignore_ascii_case (str_trim unit_s) ''bytes'' then Inr None
          else let spec = str_trim spec0 in
            if CHR '','' \<in> set spec then Inr None
            else case strip_prefix spec ''-'' of
              Some suf \<Rightarrow> res_bind (parse_u64 suf) (\<lambda>n. Inr (Some (PSuffix n)))
            | None \<Rightarrow>
                (case split_once CHR ''-'' spec of
                   Some (start_s, end_s) \<Rightarrow>
                     res_bind (parse_u64 start_s) (\<lambda>start.
                     res_bind
                       (if end_s = [] then Inr u64_max
                        else res_bind (parse_u64 end_s) (\<lambda>e. ok_or Malformed (checked_add e 1)))
                       (\<lambda>e. if e \<le> start then Inl Malformed
                            else Inr (Some (PBytes \<lparr> r_start = start, r_end = e \<rparr>))))
                 | None \<Rightarrow> Inl Malformed))"

subsection \<open>Content-Range values\<close>

text \<open>\<open>spec.end - 1\<close> is the wrapping subtraction: it underflows on an empty range at 0.\<close>

definition content_range_value :: "range_spec \<Rightarrow> nat \<Rightarrow> string" where
  "content_range_value r tot =
     ''bytes '' @ show_nat (r_start r) @ ''-'' @ show_nat (u64_sub (r_end r) 1) @ ''/'' @ show_nat tot"

definition content_range_none_value :: "nat \<Rightarrow> string" where
  "content_range_none_value tot = ''bytes */'' @ show_nat tot"

subsection \<open>Conditional headers\<close>

text \<open>\<open>strip_prefix("W/").unwrap_or(..)\<close>.\<close>

definition weak_core :: "string \<Rightarrow> string" where
  "weak_core t = (case strip_prefix t ''W/'' of Some u \<Rightarrow> u | None \<Rightarrow> t)"

definition etag_matches_if_none_match :: "string \<Rightarrow> string \<Rightarrow> bool" where
  "etag_matches_if_none_match if_none_match etag =
     (let strong_etag = weak_core etag in
      list_ex (\<lambda>tag0. let tag = weak_core (str_trim tag0) in tag = ''*'' \<or> tag = strong_etag)
        (split_on CHR '','' if_none_match))"

definition if_range_matches :: "string \<Rightarrow> string \<Rightarrow> bool" where
  "if_range_matches if_range etag =
     (case strip_prefix (str_trim if_range) [CHR 0x22] of
        Some tag \<Rightarrow> trim_end_char CHR 0x22 tag = trim_char CHR 0x22 etag
      | None \<Rightarrow> False)"

subsection \<open>Properties\<close>

lemma parse_u64_show_nat [simp]: "n \<le> u64_max \<Longrightarrow> parse_u64 (show_nat n) = Inr n"
  by (simp add: parse_u64_def)

lemma parse_u64_bound: "parse_u64 s = Inr n \<Longrightarrow> n \<le> u64_max"
  by (auto simp: parse_u64_def intro: u64_from_str_bound split: if_splits)

lemma show_nat_chars:
  "CHR ''-'' \<notin> set (show_nat n)" "CHR '','' \<notin> set (show_nat n)"
  "CHR ''='' \<notin> set (show_nat n)" "CHR ''/'' \<notin> set (show_nat n)"
  by (rule show_nat_no_char, simp add: char_digit_def)+

lemma strip_prefix_show_nat: "strip_prefix (show_nat n @ t) ''-'' = None"
  using show_nat_chars(1) [of n] show_nat_not_Nil [of n]
  by (cases "show_nat n") (auto simp: strip_prefix_def)

text \<open>The shape of every single-range header: the unit, then the specification.\<close>

lemma parse_range_header_bytes:
  assumes "spec \<noteq> []" "visible (hd spec)" "visible (last spec)" "CHR '','' \<notin> set spec"
  shows "parse_range_header (''bytes='' @ spec) =
    (case strip_prefix spec ''-'' of
       Some suf \<Rightarrow> res_bind (parse_u64 suf) (\<lambda>n. Inr (Some (PSuffix n)))
     | None \<Rightarrow>
         (case split_once CHR ''-'' spec of
            Some (start_s, end_s) \<Rightarrow>
              res_bind (parse_u64 start_s) (\<lambda>start.
              res_bind
                (if end_s = [] then Inr u64_max
                 else res_bind (parse_u64 end_s) (\<lambda>e. ok_or Malformed (checked_add e 1)))
                (\<lambda>e. if e \<le> start then Inl Malformed
                     else Inr (Some (PBytes \<lparr> r_start = start, r_end = e \<rparr>))))
          | None \<Rightarrow> Inl Malformed))"
proof -
  have b: "visible CHR ''b''" "visible CHR ''s''" by (simp_all add: visible_def)
  have t: "str_trim (''bytes='' @ spec) = ''bytes='' @ spec" "str_trim ''bytes'' = ''bytes''"
    "str_trim spec = spec"
    using assms b by (auto intro!: str_trim_visible)
  have "split_once CHR ''='' (''bytes='' @ spec) = Some (''bytes'', spec)"
    by simp
  with t assms show ?thesis
    unfolding parse_range_header_def by (simp add: eq_ignore_ascii_case_def)
qed

lemma parse_range_closed:
  assumes "s < e" and "e \<le> u64_max"
  shows "parse_range_header (''bytes='' @ show_nat s @ ''-'' @ show_nat (e - 1)) =
    Inr (Some (PBytes \<lparr> r_start = s, r_end = e \<rparr>))"
proof -
  let ?sp = "show_nat s @ ''-'' @ show_nat (e - 1)"
  have "visible (hd ?sp)" "visible (last ?sp)"
    using visible_show_nat [of "hd (show_nat s)" s] visible_show_nat [of "last (show_nat (e - 1))" "e - 1"]
    by simp_all
  moreover have "CHR '','' \<notin> set ?sp" by (simp add: show_nat_chars)
  moreover have "split_once CHR ''-'' ?sp = Some (show_nat s, show_nat (e - 1))"
    by (simp add: split_once_append show_nat_chars)
  ultimately show ?thesis
    using assms strip_prefix_show_nat [of s "''-'' @ show_nat (e - 1)"]
    by (subst parse_range_header_bytes) (auto simp: checked_add_def)
qed

lemma parse_range_open:
  assumes "s < u64_max"
  shows "parse_range_header (''bytes='' @ show_nat s @ ''-'') =
    Inr (Some (PBytes \<lparr> r_start = s, r_end = u64_max \<rparr>))"
proof -
  let ?sp = "show_nat s @ ''-''"
  have "visible (hd ?sp)" "visible (last ?sp)"
    using visible_show_nat [of "hd (show_nat s)" s] by (simp_all add: visible_def)
  moreover have "CHR '','' \<notin> set ?sp" by (simp add: show_nat_chars)
  moreover have "split_once CHR ''-'' ?sp = Some (show_nat s, [])"
    by (simp add: split_once_append show_nat_chars)
  ultimately show ?thesis
    using assms strip_prefix_show_nat [of s "''-''"]
    by (subst parse_range_header_bytes) auto
qed

lemma parse_range_suffix:
  assumes "n \<le> u64_max"
  shows "parse_range_header (''bytes=-'' @ show_nat n) = Inr (Some (PSuffix n))"
proof -
  let ?sp = "''-'' @ show_nat n"
  have "visible (hd ?sp)" "visible (last ?sp)"
    using visible_show_nat [of "last (show_nat n)" n] by (simp_all add: visible_def)
  moreover have "CHR '','' \<notin> set ?sp" by (simp add: show_nat_chars)
  moreover have "strip_prefix ?sp ''-'' = Some (show_nat n)" by (rule strip_prefix_append)
  ultimately have "parse_range_header (''bytes='' @ ?sp) = Inr (Some (PSuffix n))"
    using assms by (subst parse_range_header_bytes) auto
  then show ?thesis by simp
qed

text \<open>
  The range headers a client can build are parsed by the server to what was meant: the closed
  range \<open>bytes=s-(e-1)\<close> to exactly \<open>[s, e)\<close>, the open range \<open>bytes=s-\<close> to everything from \<open>s\<close>,
  and \<open>bytes=-n\<close> to the last \<open>n\<close> bytes, for all 64-bit values, the largest included.
\<close>

theorem parse_range_header_forms:
  assumes "s < e" and "e \<le> u64_max"
  shows "parse_range_header (''bytes='' @ show_nat s @ ''-'' @ show_nat (e - 1)) =
      Inr (Some (PBytes \<lparr> r_start = s, r_end = e \<rparr>)) \<and>
    parse_range_header (''bytes='' @ show_nat s @ ''-'') =
      Inr (Some (PBytes \<lparr> r_start = s, r_end = u64_max \<rparr>)) \<and>
    parse_range_header (''bytes=-'' @ show_nat e) = Inr (Some (PSuffix e))"
  using parse_range_closed [OF assms] parse_range_open [of s] parse_range_suffix [of e] assms
  by (simp only: less_le_trans)

theorem parse_range_header_forms_witness:
  "parse_range_header (''bytes='' @ show_nat 10 @ ''-'' @ show_nat (20 - 1)) =
    Inr (Some (PBytes \<lparr> r_start = 10, r_end = 20 \<rparr>))"
proof -
  have "(10 :: nat) < 20" "20 \<le> u64_max" by (simp_all add: u64_max_def)
  from parse_range_header_forms [OF this] show ?thesis by blast
qed

text \<open>What a parsed range satisfies, on every branch of the parser.\<close>

lemma parse_range_header_PBytes:
  assumes "parse_range_header h = Inr (Some (PBytes r))"
  shows "r_start r < r_end r \<and> r_end r \<le> u64_max"
proof -
  have inner: "r_start r < r_end r \<and> r_end r \<le> u64_max"
    if "res_bind (parse_u64 a) (\<lambda>start.
          res_bind (if b = [] then Inr u64_max
                    else res_bind (parse_u64 b) (\<lambda>e. ok_or Malformed (checked_add e 1)))
            (\<lambda>e. if e \<le> start then Inl Malformed
                 else Inr (Some (PBytes \<lparr> r_start = start, r_end = e \<rparr>)))) = Inr (Some (PBytes r))"
    for a b
    using that by (auto simp: res_bind_Inr split: if_splits)
  show ?thesis
    using assms unfolding parse_range_header_def Let_def
    by (auto split: if_splits option.splits prod.splits dest: inner simp: res_bind_Inr)
qed

lemma parse_range_header_PSuffix_bound:
  assumes "parse_range_header h = Inr (Some (PSuffix n))"
  shows "n \<le> u64_max"
  using assms unfolding parse_range_header_def Let_def
  by (auto split: if_splits option.splits prod.splits simp: res_bind_Inr dest: parse_u64_bound)

text \<open>
  C34: whatever text a \<open>Range\<close> header holds, a range the server accepts is non-empty, and when it
  is clamped to the size of the file it is either rejected (no byte of it exists, a 416) or the
  result is the non-empty set of its offsets that lie in the file; the \<open>Content-Range\<close> value is
  then written with the exact inclusive end, the subtraction never wrapping.
\<close>

theorem accepted_range_clamped:
  assumes "parse_range_header h = Inr (Some (PBytes r))"
  shows "(case range_clamp r n of
            None \<Rightarrow> range_set r \<inter> {..<n} = {}
          | Some q \<Rightarrow> range_set q = range_set r \<inter> {..<n} \<and> \<not> range_is_empty q \<and> r_end q \<le> n \<and>
              content_range_value q n =
                ''bytes '' @ show_nat (r_start q) @ ''-'' @ show_nat (r_end q - 1) @ ''/'' @ show_nat n)"
proof (cases "range_clamp r n")
  case None
  then show ?thesis using range_clamp_None_set by simp
next
  case (Some q)
  have r: "r_start r < r_end r" "r_end r \<le> u64_max"
    using parse_range_header_PBytes [OF assms] by auto
  with Some have "1 \<le> r_end q" "r_end q \<le> u64_max" "r_start q < r_end q" "r_end q \<le> n"
    by (auto simp: range_clamp_Some min_def split: if_splits)
  with Some show ?thesis
    by (simp add: range_clamp_set content_range_value_def range_is_empty_def range_len_def)
qed

theorem accepted_range_clamped_witness:
  "range_set \<lparr> r_start = 10, r_end = 15 \<rparr> = {10..<20} \<inter> {..<15}"
proof -
  have "parse_range_header (''bytes='' @ show_nat 10 @ ''-'' @ show_nat (20 - 1)) =
      Inr (Some (PBytes \<lparr> r_start = 10, r_end = 20 \<rparr>))"
    by (rule parse_range_closed) (simp_all add: u64_max_def)
  from accepted_range_clamped [OF this, of 15] show ?thesis
    by (simp add: range_clamp_def range_set_def)
qed

text \<open>A tag as it occurs in a list: visible bytes only and no comma.\<close>

definition plain_tag :: "string \<Rightarrow> bool" where
  "plain_tag t \<longleftrightarrow> t \<noteq> [] \<and> (\<forall>c\<in>set t. visible c) \<and> CHR '','' \<notin> set t"

lemma str_trim_plain_tag:
  assumes "plain_tag t"
  shows "str_trim t = t"
proof (rule str_trim_visible)
  assume "t \<noteq> []"
  then have "hd t \<in> set t" "last t \<in> set t" by auto
  with assms show "visible (hd t) \<and> visible (last t)" by (simp add: plain_tag_def)
qed

text \<open>
  \<open>If-None-Match\<close> is decided by weak comparison: a comma-separated list of plain tags
  matches (the answer is 304) exactly when one of them is \<open>*\<close> or equals the current ETag up to
  a \<open>W/\<close> prefix on either side.
\<close>

theorem etag_matches_list:
  assumes "ts \<noteq> []" and "list_all plain_tag ts"
  shows "etag_matches_if_none_match (join_on CHR '','' ts) etag \<longleftrightarrow>
    (\<exists>t\<in>set ts. weak_core t = ''*'' \<or> weak_core t = weak_core etag)"
proof -
  have "split_on CHR '','' (join_on CHR '','' ts) = ts"
    using assms by (intro split_join) (auto simp: list_all_iff plain_tag_def)
  then show ?thesis
    using assms
    by (auto simp: etag_matches_if_none_match_def Let_def list_ex_iff list_all_iff
        str_trim_plain_tag)
qed

theorem etag_matches_list_witness:
  "etag_matches_if_none_match (join_on CHR '','' [''x'', ''W/y'']) ''y''"
  using etag_matches_list [of "[''x'', ''W/y'']" "''y''"]
  by (simp add: plain_tag_def visible_def weak_core_def strip_prefix_def)

end
