(* ===== verification/Metadata.thy ===== *)
theory Metadata
  imports Ranges Byte_Text
begin

text \<open>
  Transfer metadata (libfw-core, \<open>metadata.rs\<close>): file metadata and its ETag, chunk plans, base64,
  and the metadata header.  SHA-256 (\<open>sha\<close>) and serde_json (\<open>ser\<close>, \<open>de\<close>) are parameters.
\<close>

subsection \<open>File metadata\<close>

record file_meta =
  fm_path :: string
  fm_size :: nat
  fm_mtime :: nat
  fm_etag :: string

definition etag_from_size_mtime :: "(bytes \<Rightarrow> bytes) \<Rightarrow> nat \<Rightarrow> nat \<Rightarrow> string" where
  "etag_from_size_mtime sha sz mtime =
     (let digest = sha (le_bytes 8 sz @ le_bytes 8 mtime)
      in [CHR 0x22] @ hex (take 8 digest) @ [CHR 0x22])"

definition file_meta_new :: "(bytes \<Rightarrow> bytes) \<Rightarrow> string \<Rightarrow> nat \<Rightarrow> nat \<Rightarrow> file_meta" where
  "file_meta_new sha path sz mtime =
     \<lparr> fm_path = path, fm_size = sz, fm_mtime = mtime,
       fm_etag = etag_from_size_mtime sha sz mtime \<rparr>"

text \<open>An entry of a listing (\<open>storage.rs\<close> of the core), as both sides see it.\<close>

record dir_entry =
  de_path :: string
  de_is_dir :: bool
  de_size :: nat
  de_mtime :: nat

subsection \<open>Chunks and plans\<close>

record chunk_range =
  c_start :: nat
  c_end :: nat

definition chunk_range_len :: "chunk_range \<Rightarrow> nat" where
  "chunk_range_len c = c_end c - c_start c"

definition chunk_range_is_empty :: "chunk_range \<Rightarrow> bool" where
  "chunk_range_is_empty c \<longleftrightarrow> chunk_range_len c = 0"

record chunk_meta =
  ck_index :: nat
  ck_offset :: nat
  ck_size :: nat

record transfer_plan =
  tp_file :: file_meta
  tp_chunk_size :: nat
  tp_chunks :: "chunk_meta list"

text \<open>The \<open>while offset < file.size\<close> loop; \<open>chunks.len() as u32\<close> truncates.\<close>

function plan_loop :: "nat \<Rightarrow> nat \<Rightarrow> nat \<Rightarrow> chunk_meta list \<Rightarrow> chunk_meta list" where
  "plan_loop cs sz offset chunks =
     (if offset < sz \<and> 0 < cs then
        let len = min cs (sz - offset) in
        plan_loop cs sz (offset + len)
          (chunks @ [\<lparr> ck_index = length chunks mod 2 ^ 32, ck_offset = offset, ck_size = len \<rparr>])
      else chunks)"
  by pat_completeness auto
termination
  by (relation "measure (\<lambda>(cs, sz, offset, chunks). sz - offset)") auto

declare plan_loop.simps [simp del]

text \<open>\<open>None\<close> is the panic of \<open>assert!(chunk_size > 0)\<close>.\<close>

definition with_chunk_size :: "file_meta \<Rightarrow> nat \<Rightarrow> transfer_plan option" where
  "with_chunk_size file chunk_size =
     (if chunk_size = 0 then None
      else let chunks0 = plan_loop chunk_size (fm_size file) 0 [];
               chunks = (if fm_size file = 0
                         then chunks0 @ [\<lparr> ck_index = 0, ck_offset = 0, ck_size = 0 \<rparr>]
                         else chunks0)
           in Some \<lparr> tp_file = file, tp_chunk_size = chunk_size, tp_chunks = chunks \<rparr>)"

definition chunk_size_const :: nat where
  "chunk_size_const = 2 * 1024 * 1024"

definition transfer_plan_new :: "file_meta \<Rightarrow> transfer_plan option" where
  "transfer_plan_new file = with_chunk_size file chunk_size_const"

definition total_bytes :: "transfer_plan \<Rightarrow> nat" where
  "total_bytes p = foldl u64_add 0 (map ck_size (tp_chunks p))"

subsection \<open>Base64\<close>

definition b64_alphabet :: string where
  "b64_alphabet = ''ABCDEFGHIJKLMNOPQRSTUVWXYZabcdefghijklmnopqrstuvwxyz0123456789+/''"

definition b64_group :: "bytes \<Rightarrow> string" where
  "b64_group chunk =
     (let b0 = ucast (chunk ! 0) :: 32 word;
          b1 = (if 1 < length chunk then ucast (chunk ! 1) else 0);
          b2 = (if 2 < length chunk then ucast (chunk ! 2) else 0);
          n = push_bit 16 b0 OR push_bit 8 b1 OR b2
      in [b64_alphabet ! unat (drop_bit 18 n AND 63),
          b64_alphabet ! unat (drop_bit 12 n AND 63),
          (if 1 < length chunk then b64_alphabet ! unat (drop_bit 6 n AND 63) else CHR ''=''),
          (if 2 < length chunk then b64_alphabet ! unat (n AND 63) else CHR ''='')])"

fun base64_encode :: "bytes \<Rightarrow> string" where
  "base64_encode [] = []"
| "base64_encode (a # rest) = b64_group (take 3 (a # rest)) @ base64_encode (drop 2 rest)"

datatype b64_error = Invalid_b64_character char

definition b64_val :: "char \<Rightarrow> 32 word option" where
  "b64_val c =
     (let n = of_char c :: nat in
      if 65 \<le> n \<and> n \<le> 90 then Some (word_of_nat (n - 65))
      else if 97 \<le> n \<and> n \<le> 122 then Some (word_of_nat (n - 97 + 26))
      else if 48 \<le> n \<and> n \<le> 57 then Some (word_of_nat (n - 48 + 52))
      else if c = CHR ''+'' then Some 62
      else if c = CHR ''/'' then Some 63
      else None)"

text \<open>The 32-bit buffer loses its high bits as \<open>buf << 6\<close> does.\<close>

function b64_loop :: "32 word \<Rightarrow> nat \<Rightarrow> bytes \<Rightarrow> string \<Rightarrow> b64_error + bytes" where
  "b64_loop buf bits out [] = Inr out"
| "b64_loop buf bits out (c # cs) =
     (if c = CHR ''='' then b64_loop buf bits out cs
      else case strip_first ws_seqs (c # cs) of
        Some rest \<Rightarrow> b64_loop buf bits out rest
      | None \<Rightarrow>
          (case b64_val c of
             None \<Rightarrow> Inl (Invalid_b64_character c)
           | Some v \<Rightarrow>
               let buf2 = push_bit 6 buf OR v; bits2 = bits + 6 in
               if 8 \<le> bits2
               then b64_loop buf2 (bits2 - 8) (out @ [ucast (drop_bit (bits2 - 8) buf2)]) cs
               else b64_loop buf2 bits2 out cs))"
  by pat_completeness auto
termination
  by (relation "measure (\<lambda>(buf, bits, out, s). length s)")
     (auto dest: strip_first_shorter)

declare b64_loop.simps(2) [simp del]

definition base64_decode :: "string \<Rightarrow> b64_error + bytes" where
  "base64_decode input = b64_loop 0 0 [] input"

subsection \<open>The metadata header\<close>

datatype 'je meta_error = Meta_io b64_error | Meta_json 'je

definition encode_file_meta_header :: "(file_meta \<Rightarrow> string) \<Rightarrow> file_meta \<Rightarrow> string" where
  "encode_file_meta_header ser meta = base64_encode (as_bytes (ser meta))"

definition decode_file_meta_header ::
  "(string \<Rightarrow> 'je + file_meta) \<Rightarrow> string \<Rightarrow> 'je meta_error + file_meta" where
  "decode_file_meta_header de header =
     res_bind (map_err Meta_io (base64_decode header))
       (\<lambda>raw. map_err Meta_json (de (bytes_to_str (utf8_lossy raw))))"

subsection \<open>Base64 round trip\<close>

definition b64_ok :: "nat \<Rightarrow> char \<Rightarrow> bool" where
  "b64_ok k c \<longleftrightarrow> b64_val c = Some (word_of_nat k) \<and> c \<noteq> CHR ''='' \<and> visible c"

lemma b64_alphabet_list: "list_all2 b64_ok [0..<64] b64_alphabet"
  by (simp add: b64_alphabet_def upt_conv_Cons b64_ok_def b64_val_def visible_def)

lemma b64_alphabet_ok: "k < 64 \<Longrightarrow> b64_ok k (b64_alphabet ! k)"
  using list_all2_nthD [OF b64_alphabet_list, of k] by simp

lemma b64_step:
  assumes "v < 64" and "c = b64_alphabet ! unat v"
  shows "b64_loop buf bits out (c # cs) =
    (let buf2 = push_bit 6 buf OR v; bits2 = bits + 6 in
     if 8 \<le> bits2
     then b64_loop buf2 (bits2 - 8) (out @ [ucast (drop_bit (bits2 - 8) buf2)]) cs
     else b64_loop buf2 bits2 out cs)"
proof -
  have "unat v < 64" using assms(1) by (simp add: word_less_nat_alt)
  with b64_alphabet_ok [of "unat v"] assms(2) have c: "b64_val c = Some v" "c \<noteq> CHR ''=''" "visible c"
    by (auto simp: b64_ok_def)
  then have "strip_first ws_seqs (c # cs) = None"
    using ws_seqs_not_visible(1) by (intro strip_first_None) auto
  with c show ?thesis by (simp add: b64_loop.simps)
qed

text \<open>The bits of a group: sextets out, octets back.\<close>

lemma sextet_lt: "(x :: 32 word) AND 63 < 64"
proof -
  have "x AND 63 \<le> 63" by (rule word_and_le1)
  then show ?thesis by (rule le_less_trans) simp
qed

lemma Suc_diff_2: "2 \<le> n \<Longrightarrow> Suc (Suc (n - 2)) = n"
  by simp

lemma octet_bits:
  fixes a b c :: byte and buf :: "32 word"
  defines "n \<equiv> push_bit 16 (ucast a) OR push_bit 8 (ucast b) OR ucast c :: 32 word"
  defines "v0 \<equiv> drop_bit 18 n AND 63" and "v1 \<equiv> drop_bit 12 n AND 63"
    and "v2 \<equiv> drop_bit 6 n AND 63" and "v3 \<equiv> n AND 63"
  shows "ucast (drop_bit 4 (push_bit 6 (push_bit 6 buf OR v0) OR v1)) = a"
    and "ucast (drop_bit 2 (push_bit 6 (push_bit 6 (push_bit 6 buf OR v0) OR v1) OR v2)) = b"
    and "ucast (push_bit 6 (push_bit 6 (push_bit 6 (push_bit 6 buf OR v0) OR v1) OR v2) OR v3) = c"
proof -
  have m: "(63 :: 32 word) = mask 6" by (simp add: mask_eq_exp_minus_1)
  show "ucast (drop_bit 4 (push_bit 6 (push_bit 6 buf OR v0) OR v1)) = a"
    unfolding v0_def v1_def n_def m
    by (rule bit_word_eqI) (auto simp: bit_simps Suc_diff_2 dest: bit_imp_le_length)
  show "ucast (drop_bit 2 (push_bit 6 (push_bit 6 (push_bit 6 buf OR v0) OR v1) OR v2)) = b"
    unfolding v0_def v1_def v2_def n_def m
    by (rule bit_word_eqI) (auto simp: bit_simps Suc_diff_2 dest: bit_imp_le_length)
  show "ucast (push_bit 6 (push_bit 6 (push_bit 6 (push_bit 6 buf OR v0) OR v1) OR v2) OR v3) = c"
    unfolding v0_def v1_def v2_def v3_def n_def m
    by (rule bit_word_eqI) (auto simp: bit_simps Suc_diff_2 dest: bit_imp_le_length)
qed

lemma b64_loop_pad: "b64_loop buf bits out (CHR ''='' # cs) = b64_loop buf bits out cs"
  by (simp add: b64_loop.simps)

lemma b64_two:
  assumes "v0 < 64" "v1 < 64"
  shows "b64_loop buf 0 out (b64_alphabet ! unat v0 # b64_alphabet ! unat v1 # cs) =
    b64_loop (push_bit 6 (push_bit 6 buf OR v0) OR v1) 4
      (out @ [ucast (drop_bit 4 (push_bit 6 (push_bit 6 buf OR v0) OR v1))]) cs"
  by (simp add: b64_step [OF assms(1) refl] b64_step [OF assms(2) refl] Let_def)

lemma b64_third:
  assumes "v < 64"
  shows "b64_loop buf 4 out (b64_alphabet ! unat v # cs) =
    b64_loop (push_bit 6 buf OR v) 2 (out @ [ucast (drop_bit 2 (push_bit 6 buf OR v))]) cs"
  by (simp add: b64_step [OF assms refl] Let_def)

lemma b64_fourth:
  assumes "v < 64"
  shows "b64_loop buf 2 out (b64_alphabet ! unat v # cs) =
    b64_loop (push_bit 6 buf OR v) 0 (out @ [ucast (push_bit 6 buf OR v)]) cs"
  by (simp add: b64_step [OF assms refl] Let_def)

lemmas b64_sextets = b64_two [OF sextet_lt sextet_lt] b64_third [OF sextet_lt]
  b64_fourth [OF sextet_lt] b64_loop_pad

lemma group_cases:
  "b64_group [a, b, c] = (let n = (push_bit 16 (ucast a) :: 32 word) OR push_bit 8 (ucast b) OR ucast c in
     [b64_alphabet ! unat (drop_bit 18 n AND 63), b64_alphabet ! unat (drop_bit 12 n AND 63),
      b64_alphabet ! unat (drop_bit 6 n AND 63), b64_alphabet ! unat (n AND 63)])"
  "b64_group [a, b] = (let n = (push_bit 16 (ucast a) :: 32 word) OR push_bit 8 (ucast b) OR ucast (0 :: byte) in
     [b64_alphabet ! unat (drop_bit 18 n AND 63), b64_alphabet ! unat (drop_bit 12 n AND 63),
      b64_alphabet ! unat (drop_bit 6 n AND 63), CHR ''=''])"
  "b64_group [a] =
    (let n = (push_bit 16 (ucast a) :: 32 word) OR push_bit 8 (ucast (0 :: byte)) OR ucast (0 :: byte) in
     [b64_alphabet ! unat (drop_bit 18 n AND 63), b64_alphabet ! unat (drop_bit 12 n AND 63),
      CHR ''='', CHR ''=''])"
  by (simp_all add: b64_group_def Let_def)

lemma b64_loop_group3:
  "\<exists>buf'. b64_loop buf 0 out (b64_group [a, b, c] @ cs) = b64_loop buf' 0 (out @ [a, b, c]) cs"
  unfolding group_cases Let_def append_Cons append_Nil b64_sextets octet_bits append_assoc
  by blast

lemma b64_loop_group2: "b64_loop buf 0 out (b64_group [a, b]) = Inr (out @ [a, b])"
  unfolding group_cases Let_def append_Cons append_Nil b64_sextets octet_bits append_assoc
    b64_loop.simps(1) ..

lemma b64_loop_group1: "b64_loop buf 0 out (b64_group [a]) = Inr (out @ [a])"
  unfolding group_cases Let_def b64_sextets octet_bits b64_loop.simps(1) ..

lemma b64_loop_encode: "b64_loop buf 0 out (base64_encode bs) = Inr (out @ bs)"
proof (induction bs arbitrary: buf out rule: base64_encode.induct)
  case (2 a rest)
  show ?case
  proof (cases rest)
    case Nil
    then show ?thesis by (simp add: b64_loop_group1)
  next
    case (Cons b rest2)
    show ?thesis
    proof (cases rest2)
      case Nil
      with Cons show ?thesis by (simp add: b64_loop_group2)
    next
      case (Cons c cs)
      from b64_loop_group3 obtain buf' where
        "b64_loop buf 0 out (b64_group [a, b, c] @ base64_encode cs) =
         b64_loop buf' 0 (out @ [a, b, c]) (base64_encode cs)" by blast
      with 2 Cons \<open>rest = b # rest2\<close> show ?thesis by simp
    qed
  qed
qed simp

text \<open>
  Base64 decoding inverts base64 encoding on every byte string.
\<close>

theorem base64_roundtrip: "base64_decode (base64_encode bs) = Inr bs"
  by (simp add: base64_decode_def b64_loop_encode)

text \<open>
  C35: the metadata header carries a \<open>FileMeta\<close> through base64 and UTF-8 unchanged, whatever
  bytes its path holds, provided serde_json reads back what it wrote and writes a valid \<open>str\<close>.
\<close>

theorem file_meta_header_roundtrip:
  assumes "de (ser m) = Inr m" and "utf8_valid (as_bytes (ser m))"
  shows "decode_file_meta_header de (encode_file_meta_header ser m) = Inr m"
  using assms
  by (simp add: decode_file_meta_header_def encode_file_meta_header_def base64_decode_def
      b64_loop_encode utf8_lossy_valid)

text \<open>A concrete serialisation for the witness: the path alone, read back with a fixed size.\<close>

theorem file_meta_header_roundtrip_witness:
  "decode_file_meta_header
     (\<lambda>s. Inr \<lparr> fm_path = s, fm_size = 3, fm_mtime = 4, fm_etag = [] \<rparr> :: unit + file_meta)
     (encode_file_meta_header fm_path \<lparr> fm_path = ''a/b'', fm_size = 3, fm_mtime = 4, fm_etag = [] \<rparr>) =
   Inr \<lparr> fm_path = ''a/b'', fm_size = 3, fm_mtime = 4, fm_etag = [] \<rparr>"
  by (rule file_meta_header_roundtrip)
    (auto intro!: utf8_valid_ascii simp: as_bytes_def)

subsection \<open>Plans\<close>

text \<open>The chunk layout of a plan in closed form.\<close>

definition plan_count :: "nat \<Rightarrow> nat \<Rightarrow> nat" where
  "plan_count cs sz = (sz + cs - 1) div cs"

definition plan_chunk :: "nat \<Rightarrow> nat \<Rightarrow> nat \<Rightarrow> chunk_meta" where
  "plan_chunk cs sz i =
     \<lparr> ck_index = i mod 2 ^ 32, ck_offset = i * cs, ck_size = min cs (sz - i * cs) \<rparr>"

lemma plan_count_step: "0 < cs \<Longrightarrow> k * cs < sz \<Longrightarrow> k < plan_count cs sz"
proof -
  assume a: "0 < cs" "k * cs < sz"
  then have "Suc k * cs \<le> sz + cs - 1" by simp
  then have "Suc k \<le> (sz + cs - 1) div cs"
    using a(1) by (simp add: less_eq_div_iff_mult_less_eq)
  then show ?thesis by (simp add: plan_count_def)
qed

lemma plan_count_end: "0 < cs \<Longrightarrow> sz \<le> k * cs \<Longrightarrow> plan_count cs sz \<le> k"
proof -
  assume a: "0 < cs" "sz \<le> k * cs"
  then have "sz + cs - 1 < Suc k * cs" by simp
  then have "(sz + cs - 1) div cs < Suc k" using a(1) by (simp add: less_mult_imp_div_less)
  then show ?thesis by (simp add: plan_count_def)
qed

lemma plan_count_offset: "0 < cs \<Longrightarrow> k < plan_count cs sz \<Longrightarrow> k * cs < sz"
  using plan_count_end [of cs sz k] by (meson linorder_not_less)

lemma plan_loop_closed:
  assumes "0 < cs" and "k \<le> plan_count cs sz"
  shows "plan_loop cs sz (min sz (k * cs)) (map (plan_chunk cs sz) [0..<k]) =
    map (plan_chunk cs sz) [0..<plan_count cs sz]"
  using assms
proof (induction "plan_count cs sz - k" arbitrary: k)
  case 0
  then have k: "k = plan_count cs sz" by simp
  then have "sz \<le> k * cs" using plan_count_step [OF assms(1), of k sz] by (meson le_less_linear less_irrefl)
  then show ?case using k by (simp add: plan_loop.simps)
next
  case (Suc m)
  then have lt: "k < plan_count cs sz" by simp
  then have off: "k * cs < sz" by (rule plan_count_offset [OF assms(1)])
  have nxt: "k * cs + min cs (sz - k * cs) = min sz (Suc k * cs)" using off by auto
  have "plan_loop cs sz (min sz (k * cs)) (map (plan_chunk cs sz) [0..<k]) =
    plan_loop cs sz (k * cs + min cs (sz - k * cs)) (map (plan_chunk cs sz) [0..<Suc k])"
    using off assms(1) by (subst plan_loop.simps) (simp add: Let_def plan_chunk_def)
  also have "\<dots> = map (plan_chunk cs sz) [0..<plan_count cs sz]"
    unfolding nxt using Suc lt by (intro Suc.hyps) auto
  finally show ?case .
qed

lemma sum_plan_sizes:
  "0 < cs \<Longrightarrow> k \<le> plan_count cs sz \<Longrightarrow>
    sum_list (map (ck_size \<circ> plan_chunk cs sz) [0..<k]) = min sz (k * cs)"
proof (induction k)
  case (Suc k)
  then have "k * cs < sz" by (intro plan_count_offset) auto
  with Suc show ?case by (auto simp: plan_chunk_def)
qed simp

lemma foldl_u64_add_exact:
  "a + sum_list xs \<le> u64_max \<Longrightarrow> foldl u64_add a xs = a + sum_list xs"
proof (induction xs arbitrary: a)
  case (Cons x xs)
  then have "foldl u64_add (a + x) xs = a + x + sum_list xs" by (intro Cons.IH) simp
  with Cons.prems show ?case by simp
qed simp

text \<open>
  C7: for every positive chunk size the plan of a non-empty file is the \<open>ceil(size / chunk_size)\<close>
  consecutive chunks, chunk \<open>i\<close> starting at \<open>i * chunk_size\<close> and only the last one short, numbered
  modulo \<open>2^32\<close>; an empty file has one empty chunk; the chunks add up to the file, without overflow
  for any 64-bit size; a zero chunk size panics instead of looping.
\<close>

theorem with_chunk_size_layout:
  "with_chunk_size f cs =
    (if cs = 0 then None
     else Some \<lparr> tp_file = f, tp_chunk_size = cs, tp_chunks =
       (if fm_size f = 0 then [\<lparr> ck_index = 0, ck_offset = 0, ck_size = 0 \<rparr>]
        else map (\<lambda>i. \<lparr> ck_index = i mod 2 ^ 32, ck_offset = i * cs,
                          ck_size = min cs (fm_size f - i * cs) \<rparr>)
              [0..<(fm_size f + cs - 1) div cs]) \<rparr>)"
proof (cases "cs = 0")
  case False
  have "plan_loop cs (fm_size f) 0 [] = map (plan_chunk cs (fm_size f)) [0..<plan_count cs (fm_size f)]"
    using plan_loop_closed [of cs 0 "fm_size f"] False by simp
  moreover have "plan_chunk cs (fm_size f) = (\<lambda>i. \<lparr> ck_index = i mod 2 ^ 32, ck_offset = i * cs,
                          ck_size = min cs (fm_size f - i * cs) \<rparr>)"
    by (simp add: plan_chunk_def fun_eq_iff)
  ultimately show ?thesis
    using False by (simp add: with_chunk_size_def Let_def plan_count_def)
qed (simp add: with_chunk_size_def)

text \<open>
  The bytes a plan covers are exactly those of its file, for every 64-bit file size.
\<close>

theorem total_bytes_plan:
  assumes "with_chunk_size f cs = Some p" and "fm_size f \<le> u64_max"
  shows "total_bytes p = fm_size f"
proof -
  from assms(1) have cs: "0 < cs" by (auto simp: with_chunk_size_def split: if_splits)
  have l: "plan_loop cs (fm_size f) 0 [] = map (plan_chunk cs (fm_size f)) [0..<plan_count cs (fm_size f)]"
    using plan_loop_closed [of cs 0 "fm_size f"] cs by simp
  have "fm_size f \<le> plan_count cs (fm_size f) * cs"
    using plan_count_step [OF cs, of "plan_count cs (fm_size f)"] by (meson le_less_linear less_irrefl)
  then have "sum_list (map (ck_size \<circ> plan_chunk cs (fm_size f)) [0..<plan_count cs (fm_size f)]) = fm_size f"
    using sum_plan_sizes [OF cs order_refl] by simp
  moreover have "p = \<lparr> tp_file = f, tp_chunk_size = cs,
      tp_chunks = plan_loop cs (fm_size f) 0 [] @
        (if fm_size f = 0 then [\<lparr> ck_index = 0, ck_offset = 0, ck_size = 0 \<rparr>] else []) \<rparr>"
    using assms(1) cs by (auto simp: with_chunk_size_def Let_def)
  ultimately have "sum_list (map ck_size (tp_chunks p)) = fm_size f"
    by (simp add: l)
  with assms(2) show ?thesis
    by (simp add: total_bytes_def foldl_u64_add_exact)
qed

theorem total_bytes_plan_witness:
  "total_bytes (the (with_chunk_size \<lparr> fm_path = [], fm_size = 5, fm_mtime = 0, fm_etag = [] \<rparr> 2)) = 5"
  using total_bytes_plan [of "\<lparr> fm_path = [], fm_size = 5, fm_mtime = 0, fm_etag = [] \<rparr>" 2]
  by (simp add: with_chunk_size_def u64_max_def)

subsection \<open>ETags\<close>

lemma etag_shape:
  "\<exists>h. etag_from_size_mtime sha sz mtime = [CHR 0x22] @ h @ [CHR 0x22] \<and> (\<forall>c\<in>set h. is_hex c)"
  unfolding etag_from_size_mtime_def Let_def using is_hex_hex by blast

lemma is_hex_neq: "is_hex c \<Longrightarrow> c \<noteq> CHR 0x22 \<and> c \<noteq> CHR '',''"
  by (auto simp: is_hex_def)

lemma etag_plain: "plain_tag (etag_from_size_mtime sha sz mtime)"
  using etag_shape [of sha sz mtime] is_hex_visible is_hex_neq
  by (fastforce simp: plain_tag_def visible_def)

lemma dropWhile_all_neq: "(\<And>c. c \<in> set h \<Longrightarrow> c \<noteq> q) \<Longrightarrow> dropWhile (\<lambda>x. x = q) h = h"
  by (cases h) auto

lemma trim_quotes:
  assumes "\<And>c. c \<in> set h \<Longrightarrow> c \<noteq> q"
  shows "trim_end_char q (h @ [q]) = h" and "trim_char q (q # h @ [q]) = h"
  using assms dropWhile_all_neq [of h q] dropWhile_all_neq [of "rev h" q]
  by (cases h; simp add: trim_char_def trim_end_char_def trim_start_char_def)+

text \<open>
  The ETag of a file version, whatever SHA-256 returns, is a plain quoted tag; sent back by
  a client it matches itself both in \<open>If-None-Match\<close> (304) and in \<open>If-Range\<close> (the range is
  honoured), and its weak form matches only the former.
\<close>

theorem etag_self_match:
  fixes sha sz mtime
  defines "e \<equiv> etag_from_size_mtime sha sz mtime"
  shows "etag_matches_if_none_match e e \<and> if_range_matches e e \<and>
    etag_matches_if_none_match (''W/'' @ e) e \<and> \<not> if_range_matches (''W/'' @ e) e"
proof -
  obtain h where h: "e = [CHR 0x22] @ h @ [CHR 0x22]" "\<forall>c\<in>set h. is_hex c"
    using etag_shape [of sha sz mtime] e_def by blast
  have p: "plain_tag e" unfolding e_def by (rule etag_plain)
  then have pw: "plain_tag (''W/'' @ e)" by (simp add: plain_tag_def visible_def)
  have "CHR '','' \<notin> set e" "CHR '','' \<notin> set (''W/'' @ e)"
    using p pw unfolding plain_tag_def by blast+
  note s = this [THEN split_on_simple]
  have w: "weak_core (''W/'' @ e) = e" "weak_core e = e"
    using h by (auto simp: weak_core_def strip_prefix_def)
  have q: "\<And>c. c \<in> set h \<Longrightarrow> c \<noteq> CHR 0x22" using h(2) is_hex_neq by blast
  have i: "strip_prefix e [CHR 0x22] = Some (h @ [CHR 0x22])"
    "strip_prefix (''W/'' @ e) [CHR 0x22] = None"
    using h(1) by (auto simp: strip_prefix_def)
  have "if_range_matches e e"
    using h(1) i trim_quotes [OF q] str_trim_plain_tag [OF p] by (simp add: if_range_matches_def)
  moreover have "\<not> if_range_matches (''W/'' @ e) e"
    using i str_trim_plain_tag [OF pw] unfolding if_range_matches_def by simp
  moreover have "etag_matches_if_none_match e e" "etag_matches_if_none_match (''W/'' @ e) e"
    unfolding etag_matches_if_none_match_def s
    using str_trim_plain_tag [OF p] str_trim_plain_tag [OF pw] w by (auto simp: list_ex_iff)
  ultimately show ?thesis by blast
qed

end
