(* ===== verification/Client_State.thy ===== *)
theory Client_State
  imports Float64
begin

text \<open>
  The client's task control (libfw-client, \<open>state.rs\<close>): the life cycle of a transfer with its pause and
  cancel flags, the progress counters, and the asynchronous semaphore that bounds the requests in
  flight; with the client's error type (\<open>error.rs\<close>).  A clone shares every cell, so one record stands for all handles; the code is single
  threaded, and a future runs only when it is polled.
\<close>

subsection \<open>Errors\<close>

text \<open>The client's error type (\<open>error.rs\<close>).\<close>

datatype libfw_error =
    Err_Http nat string
  | Err_Network string
  | Err_Decompress string
  | Err_Compress string
  | Err_Protocol string
  | Err_Js string
  | Err_Cancelled
  | Err_Storage string

fun libfw_error_display :: "libfw_error \<Rightarrow> string" where
  "libfw_error_display (Err_Http status url) = ''http '' @ show_nat status @ '' for `'' @ url @ ''`''"
| "libfw_error_display (Err_Network m) = ''network error: '' @ m"
| "libfw_error_display (Err_Decompress m) = ''decompression error: '' @ m"
| "libfw_error_display (Err_Compress m) = ''compression error: '' @ m"
| "libfw_error_display (Err_Protocol m) = ''protocol error: '' @ m"
| "libfw_error_display (Err_Js m) = ''js error: '' @ m"
| "libfw_error_display Err_Cancelled = ''transfer cancelled''"
| "libfw_error_display (Err_Storage m) = ''storage error: '' @ m"

subsection \<open>The semaphore\<close>

text \<open>A waker is named by its task.\<close>

record semaphore =
  sm_max :: nat
  sm_available :: nat
  sm_waiters :: "nat list"

definition semaphore_new :: "nat \<Rightarrow> semaphore" where
  "semaphore_new mx = (let m = max mx 1 in \<lparr> sm_max = m, sm_available = m, sm_waiters = [] \<rparr>)"

definition semaphore_reset :: "semaphore \<Rightarrow> semaphore" where
  "semaphore_reset s = s\<lparr> sm_available := sm_max s, sm_waiters := [] \<rparr>"

text \<open>The wakers that are called, and the new state.\<close>

definition semaphore_set_max :: "nat \<Rightarrow> semaphore \<Rightarrow> nat list \<times> semaphore" where
  "semaphore_set_max mx s =
     (let m = max mx 1; old = sm_max s; avail = sm_available s in
      (sm_waiters s,
       \<lparr> sm_max = m, sm_available = (if old < m then min (avail + (m - old)) m else min avail m),
         sm_waiters = [] \<rparr>))"

definition try_acquire :: "semaphore \<Rightarrow> bool \<times> semaphore" where
  "try_acquire s =
     (if 0 < sm_available s then (True, s\<lparr> sm_available := sm_available s - 1 \<rparr>) else (False, s))"

definition sem_release :: "semaphore \<Rightarrow> nat list \<times> semaphore" where
  "sem_release s =
     (sm_waiters s, s\<lparr> sm_available := min (sm_available s + 1) (sm_max s), sm_waiters := [] \<rparr>)"

definition acquire_poll :: "nat \<Rightarrow> semaphore \<Rightarrow> bool \<times> semaphore" where
  "acquire_poll task s =
     (case try_acquire s of
        (True, s2) \<Rightarrow> (True, s2)
      | (False, s2) \<Rightarrow> (False, s2\<lparr> sm_waiters := sm_waiters s2 @ [task] \<rparr>))"

subsection \<open>Task control\<close>

datatype task_state = St_Idle | St_Downloading | St_Uploading | St_Paused | St_Completed | St_Failed

definition task_state_name :: "task_state \<Rightarrow> string" where
  "task_state_name s =
     (case s of St_Idle \<Rightarrow> ''idle'' | St_Downloading \<Rightarrow> ''downloading'' | St_Uploading \<Rightarrow> ''uploading''
      | St_Paused \<Rightarrow> ''paused'' | St_Completed \<Rightarrow> ''completed'' | St_Failed \<Rightarrow> ''failed'')"

record task_control =
  tk_state :: task_state
  tk_active :: task_state
  tk_cancelled :: bool
  tk_done :: nat
  tk_total :: nat
  tk_reported :: nat
  tk_semaphore :: semaphore

definition control_new :: "nat \<Rightarrow> task_control" where
  "control_new max_parallel =
     \<lparr> tk_state = St_Idle, tk_active = St_Idle, tk_cancelled = False, tk_done = 0, tk_total = 0,
       tk_reported = 0, tk_semaphore = semaphore_new max_parallel \<rparr>"

definition control_reset :: "task_control \<Rightarrow> task_control" where
  "control_reset c = c\<lparr> tk_state := St_Idle, tk_active := St_Idle, tk_cancelled := False, tk_done := 0,
     tk_total := 0, tk_reported := 0, tk_semaphore := semaphore_reset (tk_semaphore c) \<rparr>"

definition set_max_parallel :: "nat \<Rightarrow> task_control \<Rightarrow> nat list \<times> task_control" where
  "set_max_parallel max_parallel c =
     (let (woken, s) = semaphore_set_max max_parallel (tk_semaphore c) in (woken, c\<lparr> tk_semaphore := s \<rparr>))"

definition control_begin :: "task_state \<Rightarrow> task_control \<Rightarrow> task_control" where
  "control_begin s c = c\<lparr> tk_active := s, tk_state := s \<rparr>"

definition control_complete :: "task_control \<Rightarrow> task_control" where
  "control_complete c = c\<lparr> tk_state := St_Completed \<rparr>"

definition control_fail :: "task_control \<Rightarrow> task_control" where
  "control_fail c = c\<lparr> tk_state := St_Failed \<rparr>"

definition control_pause :: "task_control \<Rightarrow> task_control" where
  "control_pause c =
     (if tk_state c = St_Downloading \<or> tk_state c = St_Uploading
      then c\<lparr> tk_active := tk_state c, tk_state := St_Paused \<rparr> else c)"

definition control_resume :: "task_control \<Rightarrow> task_control" where
  "control_resume c = (if tk_state c = St_Paused then c\<lparr> tk_state := tk_active c \<rparr> else c)"

definition control_cancel :: "task_control \<Rightarrow> task_control" where
  "control_cancel c =
     (let c1 = c\<lparr> tk_cancelled := True \<rparr> in
      if tk_state c1 = St_Completed \<or> tk_state c1 = St_Failed then c1 else c1\<lparr> tk_state := St_Failed \<rparr>)"

definition control_check :: "task_control \<Rightarrow> libfw_error + unit" where
  "control_check c = (if tk_cancelled c then Inl Err_Cancelled else Inr ())"

text \<open>One turn of the loop of \<open>wait_ready\<close>: \<open>None\<close> yields to the event loop and looks again.\<close>

definition wait_ready_turn :: "task_control \<Rightarrow> (libfw_error + unit) option" where
  "wait_ready_turn c =
     (case control_check c of
        Inl e \<Rightarrow> Some (Inl e)
      | Inr _ \<Rightarrow> if tk_state c \<noteq> St_Paused then Some (Inr ()) else None)"

text \<open>The loop over the states the event loop leaves behind at each yield.\<close>

fun wait_ready :: "task_control list \<Rightarrow> (libfw_error + unit) option" where
  "wait_ready [] = None"
| "wait_ready (c # cs) = (case wait_ready_turn c of None \<Rightarrow> wait_ready cs | r \<Rightarrow> r)"

definition add_progress :: "nat \<Rightarrow> task_control \<Rightarrow> task_control" where
  "add_progress n c = c\<lparr> tk_done := sat_add (tk_done c) n \<rparr>"

definition subtract_progress :: "nat \<Rightarrow> task_control \<Rightarrow> task_control" where
  "subtract_progress n c = c\<lparr> tk_done := tk_done c - n \<rparr>"

definition set_total :: "nat \<Rightarrow> task_control \<Rightarrow> task_control" where
  "set_total n c = c\<lparr> tk_total := n \<rparr>"

definition progress :: "task_control \<Rightarrow> f64" where
  "progress c =
     (if tk_total c = 0 then Fin 0
      else f_clamp (f_div (f_of_nat (tk_done c)) (f_of_nat (tk_total c))) (Fin 0) (Fin 1))"

text \<open>The \<open>on_progress\<close> event, if one is sent.\<close>

definition report_progress_if :: "task_control \<Rightarrow> (nat \<times> nat) option \<times> task_control" where
  "report_progress_if c =
     (if tk_total c = 0
      then (if tk_done c \<noteq> tk_reported c
            then (Some (tk_done c, 0), c\<lparr> tk_reported := tk_done c \<rparr>) else (None, c))
      else let reported = min (tk_done c) (tk_total c); last = min (tk_reported c) (tk_total c) in
           if reported \<noteq> last then (Some (reported, tk_total c), c\<lparr> tk_reported := reported \<rparr>) else (None, c))"

subsection \<open>Tasks that share a semaphore\<close>

text \<open>
  The tasks that hold a permit, that wait for one, and of the latter those whose waker was called
  (the executor polls them again).
\<close>

record pool =
  pl_sem :: semaphore
  pl_held :: "nat list"
  pl_pending :: "nat set"
  pl_woken :: "nat set"

definition pool_new :: "nat \<Rightarrow> pool" where
  "pool_new mx = \<lparr> pl_sem = semaphore_new mx, pl_held = [], pl_pending = {}, pl_woken = {} \<rparr>"

definition pool_poll :: "nat \<Rightarrow> pool \<Rightarrow> pool" where
  "pool_poll t p =
     (case acquire_poll t (pl_sem p) of
        (True, s) \<Rightarrow> p\<lparr> pl_sem := s, pl_held := t # pl_held p, pl_pending := pl_pending p - {t},
                         pl_woken := pl_woken p - {t} \<rparr>
      | (False, s) \<Rightarrow> p\<lparr> pl_sem := s, pl_pending := insert t (pl_pending p), pl_woken := pl_woken p - {t} \<rparr>)"

definition pool_drop :: "nat \<Rightarrow> pool \<Rightarrow> pool" where
  "pool_drop t p =
     (let (woken, s) = sem_release (pl_sem p) in
      p\<lparr> pl_sem := s, pl_held := remove1 t (pl_held p), pl_woken := pl_woken p \<union> set woken \<rparr>)"

definition pool_resize :: "nat \<Rightarrow> pool \<Rightarrow> pool" where
  "pool_resize n p =
     (let (woken, s) = semaphore_set_max n (pl_sem p) in
      p\<lparr> pl_sem := s, pl_woken := pl_woken p \<union> set woken \<rparr>)"

text \<open>\<open>shrinks\<close>: whether a resize may make the pool smaller.\<close>

inductive pool_step :: "bool \<Rightarrow> pool \<Rightarrow> pool \<Rightarrow> bool" for shrinks where
  Poll: "t \<notin> set (pl_held p) \<Longrightarrow> pool_step shrinks p (pool_poll t p)"
| Drop: "t \<in> set (pl_held p) \<Longrightarrow> pool_step shrinks p (pool_drop t p)"
| Resize: "shrinks \<or> sm_max (pl_sem p) \<le> max n 1 \<Longrightarrow> pool_step shrinks p (pool_resize n p)"

inductive_cases pool_stepE: "pool_step shrinks p p2"

inductive pool_reach :: "bool \<Rightarrow> pool \<Rightarrow> bool" for shrinks where
  Pool_new: "pool_reach shrinks (pool_new mx)"
| Pool_step: "pool_reach shrinks p \<Longrightarrow> pool_step shrinks p p2 \<Longrightarrow> pool_reach shrinks p2"

subsection \<open>What the semaphore guarantees\<close>

lemmas pool_ops = pool_poll_def pool_drop_def pool_resize_def acquire_poll_def try_acquire_def
  sem_release_def semaphore_set_max_def Let_def

text \<open>Permits are never lost, and a task that waits is queued or will be polled.\<close>

definition pool_ok :: "pool \<Rightarrow> bool" where
  "pool_ok p \<longleftrightarrow> (let s = pl_sem p in
     1 \<le> sm_max s \<and> sm_available s \<le> sm_max s \<and> sm_max s \<le> sm_available s + length (pl_held p) \<and>
     (0 < sm_available s \<longrightarrow> sm_waiters s = []) \<and>
     pl_pending p \<subseteq> pl_woken p \<union> set (sm_waiters s))"

lemma pool_step_ok: "pool_step sh p p2 \<Longrightarrow> pool_ok p \<Longrightarrow> pool_ok p2"
  by (erule pool_stepE)
    (auto simp: pool_ok_def pool_ops length_remove1 min_def max_def split: if_splits)

lemma pool_reach_ok: "pool_reach sh p \<Longrightarrow> pool_ok p"
proof (induction rule: pool_reach.induct)
  case (Pool_new mx)
  show ?case by (simp add: pool_new_def semaphore_new_def pool_ok_def Let_def)
qed (rule pool_step_ok)

definition pool_exact :: "pool \<Rightarrow> bool" where
  "pool_exact p \<longleftrightarrow> sm_available (pl_sem p) + length (pl_held p) = sm_max (pl_sem p)"

lemma pool_step_exact: "pool_step False p p2 \<Longrightarrow> pool_exact p \<Longrightarrow> pool_exact p2"
  by (erule pool_stepE)
    (auto simp: pool_exact_def pool_ops length_remove1 min_def max_def split: if_splits dest: length_pos_if_in_set)

lemma pool_reach_exact: "pool_reach False p \<Longrightarrow> pool_exact p"
proof (induction rule: pool_reach.induct)
  case (Pool_new mx)
  show ?case by (simp add: pool_new_def semaphore_new_def pool_exact_def Let_def)
qed (rule pool_step_exact)

text \<open>
  C28: as long as the pool only grows, the requests in flight and the free permits add up to the
  pool's size, so no more than \<open>max\<close> requests are ever in flight, however acquisitions, cancelled
  waiters and drops interleave.
\<close>

theorem semaphore_bounds_in_flight:
  assumes "pool_reach False p"
  shows "sm_available (pl_sem p) + length (pl_held p) = sm_max (pl_sem p) \<and>
    length (pl_held p) \<le> sm_max (pl_sem p)"
  using pool_reach_exact [OF assms] by (simp add: pool_exact_def)

text \<open>
  C29: no wake-up is lost, also when the pool is resized in both directions: a task that waits
  without being scheduled is in the queue of a pool without free permits some of which are held, and
  the next drop schedules every waiting task and leaves a permit for the first one polled.
\<close>

theorem semaphore_no_lost_wakeup:
  assumes "pool_reach shrinks p" and "t \<in> pl_pending p"
  shows "(t \<in> pl_woken p \<or>
      t \<in> set (sm_waiters (pl_sem p)) \<and> sm_available (pl_sem p) = 0 \<and> pl_held p \<noteq> []) \<and>
    t \<in> pl_woken (pool_drop h p) \<and> fst (acquire_poll t (pl_sem (pool_drop h p)))"
proof -
  have ok: "pool_ok p" using assms(1) by (rule pool_reach_ok)
  then have "t \<in> pl_woken p \<or> t \<in> set (sm_waiters (pl_sem p))" using assms(2) by (auto simp: pool_ok_def Let_def)
  with ok show ?thesis
    by (auto simp: pool_ok_def pool_drop_def sem_release_def acquire_poll_def try_acquire_def Let_def)
qed

text \<open>
  A pool that shrinks while permits are out over-commits: a released permit of the old size is
  handed out again, so more than \<open>max\<close> requests stay in flight.
\<close>

theorem shrunk_pool_overcommits:
  "\<exists>p. pool_reach True p \<and> sm_max (pl_sem p) < length (pl_held p) \<and> 0 \<notin> set (pl_held p)"
proof -
  let ?p = "pool_poll 2 (pool_drop 0 (pool_resize 1 (pool_poll 1 (pool_poll 0 (pool_new 2)))))"
  have "pool_reach True ?p"
    by (intro Pool_step [OF _ Poll] Pool_step [OF _ Drop] Pool_step [OF _ Resize] Pool_new)
      (simp_all add: pool_ops pool_new_def semaphore_new_def)
  moreover have "sm_max (pl_sem ?p) < length (pl_held ?p) \<and> 0 \<notin> set (pl_held ?p)"
    by (simp add: pool_ops pool_new_def semaphore_new_def)
  ultimately show ?thesis by blast
qed

subsection \<open>What the controls guarantee\<close>

datatype user_op = Op_pause | Op_resume | Op_cancel

fun user_apply :: "user_op \<Rightarrow> task_control \<Rightarrow> task_control" where
  "user_apply Op_pause c = control_pause c"
| "user_apply Op_resume c = control_resume c"
| "user_apply Op_cancel c = control_cancel c"

definition user_run :: "user_op list \<Rightarrow> task_control \<Rightarrow> task_control" where
  "user_run ops c = fold user_apply ops c"

lemmas control_ops = control_pause_def control_resume_def control_cancel_def control_check_def
  control_begin_def control_reset_def Let_def

lemma user_run_state:
  assumes "s = St_Downloading \<or> s = St_Uploading"
  shows "tk_state (user_run ops (control_begin s (control_reset c))) =
      (if Op_cancel \<in> set ops then St_Failed
       else if ops \<noteq> [] \<and> last ops = Op_pause then St_Paused else s) \<and>
    tk_cancelled (user_run ops (control_begin s (control_reset c))) = (Op_cancel \<in> set ops) \<and>
    (Op_cancel \<notin> set ops \<longrightarrow> tk_active (user_run ops (control_begin s (control_reset c))) = s)"
proof (induction ops rule: rev_induct)
  case Nil
  show ?case by (simp add: user_run_def control_ops)
next
  case (snoc op ops)
  with assms show ?case
    by (cases op) (auto simp: user_run_def control_ops split: if_splits)
qed

text \<open>
  C30: the user's controls drive a running transfer as documented: after any sequence of pause, resume
  and cancel, a cancelled transfer is failed and its loops stop with the cancellation; otherwise it
  is paused exactly when the last control was a pause, its loops wait, and resuming returns to the
  direction it was started in.
\<close>

theorem controls_drive_transfer:
  assumes "s = St_Downloading \<or> s = St_Uploading" and "c = user_run ops (control_begin s (control_reset c0))"
  shows "tk_state c = (if Op_cancel \<in> set ops then St_Failed
      else if ops \<noteq> [] \<and> last ops = Op_pause then St_Paused else s) \<and>
    wait_ready_turn c = (if Op_cancel \<in> set ops then Some (Inl Err_Cancelled)
      else if ops \<noteq> [] \<and> last ops = Op_pause then None else Some (Inr ())) \<and>
    (Op_cancel \<notin> set ops \<longrightarrow> tk_state (control_resume c) = s)"
  using user_run_state [OF assms(1), of ops c0] assms
  by (auto simp: wait_ready_turn_def control_check_def control_resume_def)

definition report_ok :: "task_control \<Rightarrow> bool" where
  "report_ok c \<longleftrightarrow> (case report_progress_if c of (ev, c2) \<Rightarrow>
     fst (report_progress_if c2) = None \<and>
     (case ev of Some (n, tot) \<Rightarrow> tot = 0 \<or> n \<le> tot | None \<Rightarrow> True))"

lemma report_ok: "report_ok c"
proof (cases "tk_total c = 0")
  case True
  then show ?thesis by (simp add: report_ok_def report_progress_if_def)
next
  case False
  then show ?thesis by (cases c) (simp add: report_ok_def report_progress_if_def Let_def)
qed

text \<open>
  The progress is a number between 0 and 1, whatever was counted; a report never exceeds the
  total it names, and a second report without new bytes sends nothing.
\<close>

theorem progress_in_unit_interval:
  assumes "tk_done c \<le> u64_max" and "tk_total c \<le> u64_max"
  shows "\<exists>q. progress c = Fin q \<and> 0 \<le> q \<and> q \<le> 1 \<and>
    (case report_progress_if c of (ev, c2) \<Rightarrow>
       fst (report_progress_if c2) = None \<and>
       (case ev of Some (n, tot) \<Rightarrow> tot = 0 \<or> n \<le> tot | None \<Rightarrow> True))"
proof -
  have "\<exists>q. progress c = Fin q \<and> 0 \<le> q \<and> q \<le> 1"
  proof (cases "tk_total c = 0")
    case False
    then obtain t where t: "f_of_nat (tk_total c) = Fin t" "0 < t" using f_of_nat_fin assms(2) by blast
    obtain d where d: "f_of_nat (tk_done c) = Fin d" "0 \<le> d"
      using f_of_nat_fin [of "tk_done c"] f_of_nat_exact [of 0] assms(1) by (cases "tk_done c = 0") force+
    have p: "progress c = f_clamp (f64_of_rat (d / t)) (Fin 0) (Fin 1)"
      unfolding progress_def t(1) d(1) using False t(2) by simp
    have n: "\<not> f_less (f64_of_rat (d / t)) (Fin 0)" using t d by (intro f64_of_rat_nonneg) simp
    show ?thesis
    proof (cases "f64_of_rat (d / t)")
      case FNaN
      then show ?thesis using f64_of_rat_not_nan by blast
    qed (use p n in \<open>auto simp: f_clamp_def\<close>)
  qed (simp add: progress_def)
  then show ?thesis using report_ok [of c] unfolding report_ok_def by simp
qed

subsection \<open>Witnesses\<close>

theorem semaphore_bounds_in_flight_witness:
  "length (pl_held (pool_poll 1 (pool_poll 0 (pool_new 1)))) = 1 \<and>
   length (pl_held (pool_poll 1 (pool_poll 0 (pool_new 1)))) \<le> sm_max (pl_sem (pool_poll 1 (pool_poll 0 (pool_new 1))))"
proof -
  have "pool_reach False (pool_poll 1 (pool_poll 0 (pool_new 1)))"
    by (intro Pool_step [OF _ Poll] Pool_new) (simp_all add: pool_ops pool_new_def semaphore_new_def)
  with semaphore_bounds_in_flight [OF this] show ?thesis by (simp add: pool_ops pool_new_def semaphore_new_def)
qed

theorem semaphore_no_lost_wakeup_witness:
  "1 \<in> pl_woken (pool_drop 0 (pool_poll 1 (pool_poll 0 (pool_new 1))))"
proof -
  have "pool_reach False (pool_poll 1 (pool_poll 0 (pool_new 1)))"
    by (intro Pool_step [OF _ Poll] Pool_new) (simp_all add: pool_ops pool_new_def semaphore_new_def)
  moreover have "1 \<in> pl_pending (pool_poll 1 (pool_poll 0 (pool_new 1)))"
    by (simp add: pool_ops pool_new_def semaphore_new_def)
  ultimately show ?thesis using semaphore_no_lost_wakeup by blast
qed

theorem controls_drive_transfer_witness:
  "tk_state (user_run [Op_pause, Op_resume, Op_pause] (control_begin St_Uploading (control_reset (control_new 4)))) = St_Paused"
  using controls_drive_transfer [OF disjI2 refl, of St_Uploading "[Op_pause, Op_resume, Op_pause]" "control_new 4"] by simp

theorem progress_in_unit_interval_witness:
  "\<exists>q. progress ((control_new 4)\<lparr> tk_done := 7, tk_total := 5 \<rparr>) = Fin q \<and> 0 \<le> q \<and> q \<le> 1"
  using progress_in_unit_interval [of "(control_new 4)\<lparr> tk_done := 7, tk_total := 5 \<rparr>"]
  by (auto simp: u64_max_def)

end
