(* ===== verification/Client_Plan.thy ===== *)
theory Client_Plan
  imports Tune Metadata Client_State
begin

text \<open>
  The client's configuration, its file entries and its request helpers (libfw-client, \<open>config.rs\<close>,
  \<open>plan.rs\<close>, \<open>http.rs\<close>, and \<open>safe_u64\<close> of \<open>js.rs\<close>).  A JavaScript value is a datatype with the kinds the
  parsers tell apart; \<open>Reflect::get\<close> of a missing property is \<open>undefined\<close>, and on a value that is not
  an object it is an error.  In the browser \<open>usize\<close> has 32 bits.
\<close>

subsection \<open>JavaScript values\<close>

datatype js_value =
    JS_undefined
  | JS_null
  | JS_bool bool
  | JS_num f64
  | JS_str string
  | JS_obj "(string \<times> js_value) list"

fun js_is_object :: "js_value \<Rightarrow> bool" where
  "js_is_object (JS_obj _) = True"
| "js_is_object _ = False"

fun js_get :: "js_value \<Rightarrow> string \<Rightarrow> js_value option" where
  "js_get (JS_obj fs) key = Some (case map_of fs key of Some v \<Rightarrow> v | None \<Rightarrow> JS_undefined)"
| "js_get _ key = None"

fun js_as_f64 :: "js_value \<Rightarrow> f64 option" where
  "js_as_f64 (JS_num x) = Some x"
| "js_as_f64 _ = None"

fun js_as_bool :: "js_value \<Rightarrow> bool option" where
  "js_as_bool (JS_bool b) = Some b"
| "js_as_bool _ = None"

fun js_as_string :: "js_value \<Rightarrow> string option" where
  "js_as_string (JS_str s) = Some s"
| "js_as_string _ = None"

subsection \<open>Configuration\<close>

definition default_concurrency :: nat where "default_concurrency = 4"
definition default_upload_window :: nat where "default_upload_window = 8"
definition default_download_window :: nat where "default_download_window = 4"
definition default_base_retry_ms :: nat where "default_base_retry_ms = 500"
definition default_max_retry_ms :: nat where "default_max_retry_ms = 30000"
definition default_timeout_ms :: nat where "default_timeout_ms = 60000"

record client_config =
  cg_concurrency :: nat
  cg_upload_window :: nat
  cg_download_window :: nat
  cg_compress :: bool
  cg_chunk_size :: nat
  cg_max_retries :: nat
  cg_base_retry_ms :: nat
  cg_max_retry_ms :: nat
  cg_timeout_ms :: nat
  cg_auto_tune :: bool
  cg_tune_ttl_ms :: nat
  cg_compress_level :: compress_level

definition client_config_default :: client_config where
  "client_config_default =
     \<lparr> cg_concurrency = default_concurrency, cg_upload_window = default_upload_window,
       cg_download_window = default_download_window, cg_compress = True, cg_chunk_size = chunk_size_const,
       cg_max_retries = max_retries_const, cg_base_retry_ms = default_base_retry_ms,
       cg_max_retry_ms = default_max_retry_ms, cg_timeout_ms = default_timeout_ms,
       cg_auto_tune = False, cg_tune_ttl_ms = 60 * 60 * 1000, cg_compress_level = Lv_Balanced \<rparr>"

definition config_request_budget :: "client_config \<Rightarrow> nat" where
  "config_request_budget c =
     request_budget (cg_concurrency c) (max (cg_upload_window c) (cg_download_window c))"

definition opt_num :: "js_value \<Rightarrow> string \<Rightarrow> f64 option" where
  "opt_num obj key = Option.bind (js_get obj key) js_as_f64"

definition opt_u64 :: "js_value \<Rightarrow> string \<Rightarrow> nat option" where
  "opt_u64 obj key = map_option f_to_u64 (opt_num obj key)"

definition opt_usize :: "js_value \<Rightarrow> string \<Rightarrow> nat option" where
  "opt_usize obj key = map_option f_to_u32 (opt_num obj key)"

definition opt_u32 :: "js_value \<Rightarrow> string \<Rightarrow> nat option" where
  "opt_u32 obj key = map_option f_to_u32 (opt_num obj key)"

definition opt_bool :: "js_value \<Rightarrow> string \<Rightarrow> bool option" where
  "opt_bool obj key = Option.bind (js_get obj key) js_as_bool"

definition level_of_name :: "string \<Rightarrow> compress_level" where
  "level_of_name s =
     (let l = to_ascii_lowercase s in
      if l = ''auto'' then Lv_Auto else if l = ''fast'' then Lv_Fast
      else if l = ''balanced'' then Lv_Balanced else if l = ''max'' then Lv_Max else Lv_Auto)"

definition opt_compress_level :: "js_value \<Rightarrow> compress_level option" where
  "opt_compress_level obj =
     Option.bind (js_get obj ''compressLevel'') (\<lambda>v.
       case js_as_string v of
         Some s \<Rightarrow> Some (level_of_name s)
       | None \<Rightarrow> map_option (\<lambda>f. Lv_Fixed (f_to_i32 f)) (js_as_f64 v))"

text \<open>\<open>if let Some(v) = \<dots> { \<dots> }\<close>, and the variant that ignores a zero.\<close>

definition with_opt :: "'a option \<Rightarrow> ('a \<Rightarrow> 'c \<Rightarrow> 'c) \<Rightarrow> 'c \<Rightarrow> 'c" where
  "with_opt x f c = (case x of Some v \<Rightarrow> f v c | None \<Rightarrow> c)"

definition with_pos :: "nat option \<Rightarrow> (nat \<Rightarrow> 'c \<Rightarrow> 'c) \<Rightarrow> 'c \<Rightarrow> 'c" where
  "with_pos x f c = (case x of Some v \<Rightarrow> if 0 < v then f v c else c | None \<Rightarrow> c)"

definition config_from_js :: "js_value \<Rightarrow> client_config" where
  "config_from_js opts =
     (if \<not> js_is_object opts then client_config_default
      else
        let c0 = client_config_default;
            c1 = (case opt_compress_level opts of
                Some level \<Rightarrow> c0\<lparr> cg_compress_level := level \<rparr>
              | None \<Rightarrow> (case opt_bool opts ''compress'' of
                  Some b \<Rightarrow> let c = c0\<lparr> cg_compress := b \<rparr> in
                            if b then c\<lparr> cg_compress_level := Lv_Balanced \<rparr> else c
                | None \<Rightarrow> c0));
            c2 = with_pos (opt_usize opts ''concurrency'') (\<lambda>v c. c\<lparr> cg_concurrency := v \<rparr>) c1;
            c3 = with_pos (opt_usize opts ''uploadWindow'') (\<lambda>v c. c\<lparr> cg_upload_window := v \<rparr>) c2;
            c4 = with_pos (opt_usize opts ''downloadWindow'') (\<lambda>v c. c\<lparr> cg_download_window := v \<rparr>) c3;
            c5 = with_opt (opt_bool opts ''compress'') (\<lambda>v c. c\<lparr> cg_compress := v \<rparr>) c4;
            c6 = with_pos (opt_u64 opts ''chunkSize'') (\<lambda>v c. c\<lparr> cg_chunk_size := v \<rparr>) c5;
            c7 = with_opt (opt_u32 opts ''maxRetries'') (\<lambda>v c. c\<lparr> cg_max_retries := v \<rparr>) c6;
            c8 = with_opt (opt_u32 opts ''baseRetryDelayMs'') (\<lambda>v c. c\<lparr> cg_base_retry_ms := v \<rparr>) c7;
            c9 = with_opt (opt_u32 opts ''maxRetryDelayMs'') (\<lambda>v c. c\<lparr> cg_max_retry_ms := v \<rparr>) c8;
            c10 = with_opt (opt_u32 opts ''timeoutMs'') (\<lambda>v c. c\<lparr> cg_timeout_ms := v \<rparr>) c9;
            c11 = with_opt (opt_bool opts ''autoTune'') (\<lambda>v c. c\<lparr> cg_auto_tune := v \<rparr>) c10
        in with_opt (opt_u64 opts ''tuneTtlMs'') (\<lambda>v c. c\<lparr> cg_tune_ttl_ms := v \<rparr>) c11)"

text \<open>\<open>(base as u64) << shift\<close> of a 32-bit base by at most 31 stays in 64 bits.\<close>

definition backoff_ms :: "nat \<Rightarrow> nat \<Rightarrow> nat \<Rightarrow> nat" where
  "backoff_ms attempt base mx =
     (if attempt = 0 then min base mx
      else let shift = min attempt 31; doubled = (base * 2 ^ shift) mod 2 ^ 64
           in min doubled mx mod 2 ^ 32)"

definition config_backoff_ms :: "client_config \<Rightarrow> nat \<Rightarrow> nat" where
  "config_backoff_ms c attempt = backoff_ms attempt (cg_base_retry_ms c) (cg_max_retry_ms c)"

subsection \<open>File entries\<close>

definition max_safe_integer :: f64 where "max_safe_integer = Fin 9007199254740991"

text \<open>The rendering of the offending number in the message is left out.\<close>

definition safe_u64 :: "js_value \<Rightarrow> string \<Rightarrow> libfw_error + nat" where
  "safe_u64 v field =
     (case js_as_f64 v of
        None \<Rightarrow> Inr 0
      | Some n \<Rightarrow>
          if \<not> f_is_finite n \<or> f_less n (Fin 0) \<or> f_less max_safe_integer n
          then Inl (Err_Protocol (''`'' @ field @ ''` is not an exact integer in the JS number range''))
          else Inr (f_to_u64 n))"

record file_entry =
  fe_path :: string
  fe_size :: nat
  fe_mtime :: nat

definition to_meta :: "(bytes \<Rightarrow> bytes) \<Rightarrow> file_entry \<Rightarrow> file_meta" where
  "to_meta sha f =
     \<lparr> fm_path = fe_path f, fm_size = fe_size f, fm_mtime = fe_mtime f,
       fm_etag = etag_from_size_mtime sha (fe_size f) (fe_mtime f) \<rparr>"

definition entry_plan :: "(bytes \<Rightarrow> bytes) \<Rightarrow> file_entry \<Rightarrow> nat \<Rightarrow> transfer_plan option" where
  "entry_plan sha f chunk_sz = with_chunk_size (to_meta sha f) chunk_sz"

definition js_field :: "js_value \<Rightarrow> string \<Rightarrow> js_value" where
  "js_field item key = (case js_get item key of Some v \<Rightarrow> v | None \<Rightarrow> JS_undefined)"

definition parse_file_entry :: "js_value \<Rightarrow> libfw_error + file_entry" where
  "parse_file_entry item =
     res_bind (ok_or (Err_Js ''missing `path`'') (js_get item ''path'')) (\<lambda>p.
     res_bind (ok_or (Err_Js ''`path` must be a string'') (js_as_string p)) (\<lambda>path.
     res_bind (safe_u64 (js_field item ''size'') ''size'') (\<lambda>sz.
     res_bind (safe_u64 (js_field item ''mtime'') ''mtime'') (\<lambda>mtime.
     Inr \<lparr> fe_path = path, fe_size = sz, fe_mtime = mtime \<rparr>))))"

fun parse_file_entries :: "js_value list \<Rightarrow> libfw_error + file_entry list" where
  "parse_file_entries [] = Inr []"
| "parse_file_entries (item # items) =
     res_bind (parse_file_entry item) (\<lambda>e. res_bind (parse_file_entries items) (\<lambda>es. Inr (e # es)))"

definition entries_total :: "file_entry list \<Rightarrow> nat" where
  "entries_total fs = foldl u64_add 0 (map fe_size fs)"

text \<open>
  The loop of \<open>chunk_bounds\<close>: with a zero chunk size, or when the end wraps around, it may run forever;
  \<open>None\<close> is not returning.
\<close>

partial_function (option) bounds_loop :: "nat \<Rightarrow> nat \<Rightarrow> nat \<Rightarrow> (nat \<times> nat) list \<Rightarrow> (nat \<times> nat) list option" where
  "bounds_loop sz chunk_sz offset acc =
     (if offset < sz
      then let e = min (u64_add offset chunk_sz) sz in bounds_loop sz chunk_sz e (acc @ [(offset, e)])
      else Some acc)"

definition chunk_bounds :: "file_entry \<Rightarrow> nat \<Rightarrow> nat \<Rightarrow> (nat \<times> nat) list option" where
  "chunk_bounds f chunk_sz from_off = bounds_loop (fe_size f) chunk_sz (min from_off (fe_size f)) []"

subsection \<open>Requests\<close>

text \<open>\<open>encode_uri_component\<close> is JavaScript's.  The header pairs in the order they are set.\<close>

definition auth_headers :: "string \<Rightarrow> bool \<Rightarrow> int option \<Rightarrow> (string \<times> string) list" where
  "auth_headers token accept_zrip level =
     [(''authorization'', ''Bearer '' @ token), (''x-libfw-protocol'', protocol_header_value)] @
     (if accept_zrip
      then (''accept-encoding'', ''zrip'') #
           (case level of Some l \<Rightarrow> [(''x-libfw-compress-level'',
              (if l < 0 then ''-'' @ show_nat (nat (- l)) else show_nat (nat l)))] | None \<Rightarrow> [])
      else [])"

definition join_slash :: "string list \<Rightarrow> string" where
  "join_slash segs = (case segs of [] \<Rightarrow> [] | s # ss \<Rightarrow> s @ concat (map (\<lambda>t. ''/'' @ t) ss))"

definition encode_path :: "(string \<Rightarrow> string) \<Rightarrow> string \<Rightarrow> string" where
  "encode_path encode_uri_component path = join_slash (map encode_uri_component (split_on CHR ''/'' path))"

definition file_url :: "(string \<Rightarrow> string) \<Rightarrow> string \<Rightarrow> string \<Rightarrow> string" where
  "file_url enc base_url path = trim_end_char CHR ''/'' base_url @ ''/file/'' @ encode_path enc path"

definition dir_url :: "(string \<Rightarrow> string) \<Rightarrow> string \<Rightarrow> string \<Rightarrow> string" where
  "dir_url enc base_url path =
     (let base = trim_end_char CHR ''/'' base_url in
      if path = [] then base @ ''/dir'' else base @ ''/dir/'' @ encode_path enc path)"

subsection \<open>What the configuration guarantees\<close>

lemma f_to_u32_le: "f_to_u32 a < 2 ^ 32"
  by (cases a) (auto simp: f_to_u32_def f_cast_def)

lemma opt_u32_less: "opt_u32 o1 k = Some v \<Longrightarrow> v < 2 ^ 32" "opt_usize o1 k = Some v \<Longrightarrow> v < 2 ^ 32"
  using f_to_u32_le by (auto simp: opt_u32_def opt_usize_def)

lemma opt_u64_le: "opt_u64 o1 k = Some v \<Longrightarrow> v \<le> u64_max"
  using f_to_u64_le by (auto simp: opt_u64_def)

definition config_ok :: "client_config \<Rightarrow> bool" where
  "config_ok c \<longleftrightarrow>
     cg_concurrency c \<in> {1..<2 ^ 32} \<and> cg_upload_window c \<in> {1..<2 ^ 32} \<and>
     cg_download_window c \<in> {1..<2 ^ 32} \<and> cg_chunk_size c \<in> {1..u64_max} \<and>
     cg_max_retries c < 2 ^ 32 \<and> cg_base_retry_ms c < 2 ^ 32 \<and> cg_max_retry_ms c < 2 ^ 32 \<and>
     cg_timeout_ms c < 2 ^ 32 \<and> cg_tune_ttl_ms c \<le> u64_max"

lemma setters_ok:
  "config_ok c \<Longrightarrow> config_ok (with_pos (opt_usize opts key) (\<lambda>v c. c\<lparr> cg_concurrency := v \<rparr>) c)"
  "config_ok c \<Longrightarrow> config_ok (with_pos (opt_usize opts key) (\<lambda>v c. c\<lparr> cg_upload_window := v \<rparr>) c)"
  "config_ok c \<Longrightarrow> config_ok (with_pos (opt_usize opts key) (\<lambda>v c. c\<lparr> cg_download_window := v \<rparr>) c)"
  "config_ok c \<Longrightarrow> config_ok (with_pos (opt_u64 opts key) (\<lambda>v c. c\<lparr> cg_chunk_size := v \<rparr>) c)"
  "config_ok c \<Longrightarrow> config_ok (with_opt (opt_u32 opts key) (\<lambda>v c. c\<lparr> cg_max_retries := v \<rparr>) c)"
  "config_ok c \<Longrightarrow> config_ok (with_opt (opt_u32 opts key) (\<lambda>v c. c\<lparr> cg_base_retry_ms := v \<rparr>) c)"
  "config_ok c \<Longrightarrow> config_ok (with_opt (opt_u32 opts key) (\<lambda>v c. c\<lparr> cg_max_retry_ms := v \<rparr>) c)"
  "config_ok c \<Longrightarrow> config_ok (with_opt (opt_u32 opts key) (\<lambda>v c. c\<lparr> cg_timeout_ms := v \<rparr>) c)"
  "config_ok c \<Longrightarrow> config_ok (with_opt (opt_u64 opts key) (\<lambda>v c. c\<lparr> cg_tune_ttl_ms := v \<rparr>) c)"
  "config_ok c \<Longrightarrow> config_ok (with_opt y (\<lambda>v c. c\<lparr> cg_compress := v \<rparr>) c)"
  "config_ok c \<Longrightarrow> config_ok (with_opt z (\<lambda>v c. c\<lparr> cg_auto_tune := v \<rparr>) c)"
  by (auto simp: config_ok_def with_pos_def with_opt_def dest: opt_u32_less opt_u64_le split: option.split)

lemma setters_compress:
  "cg_compress (with_pos x0 (\<lambda>v c. c\<lparr> cg_concurrency := v \<rparr>) c) = cg_compress c"
  "cg_compress (with_pos x1 (\<lambda>v c. c\<lparr> cg_upload_window := v \<rparr>) c) = cg_compress c"
  "cg_compress (with_pos x2 (\<lambda>v c. c\<lparr> cg_download_window := v \<rparr>) c) = cg_compress c"
  "cg_compress (with_pos x3 (\<lambda>v c. c\<lparr> cg_chunk_size := v \<rparr>) c) = cg_compress c"
  "cg_compress (with_opt x4 (\<lambda>v c. c\<lparr> cg_max_retries := v \<rparr>) c) = cg_compress c"
  "cg_compress (with_opt x5 (\<lambda>v c. c\<lparr> cg_base_retry_ms := v \<rparr>) c) = cg_compress c"
  "cg_compress (with_opt x6 (\<lambda>v c. c\<lparr> cg_max_retry_ms := v \<rparr>) c) = cg_compress c"
  "cg_compress (with_opt x7 (\<lambda>v c. c\<lparr> cg_timeout_ms := v \<rparr>) c) = cg_compress c"
  "cg_compress (with_opt x8 (\<lambda>v c. c\<lparr> cg_tune_ttl_ms := v \<rparr>) c) = cg_compress c"
  "cg_compress (with_opt x10 (\<lambda>v c. c\<lparr> cg_auto_tune := v \<rparr>) c) = cg_compress c"
  by (simp_all add: with_pos_def with_opt_def split: option.split)

lemma default_config_ok: "config_ok client_config_default"
  by (simp add: config_ok_def client_config_default_def default_concurrency_def default_upload_window_def
      default_download_window_def chunk_size_const_def max_retries_const_def default_base_retry_ms_def
      default_max_retry_ms_def default_timeout_ms_def u64_max_def)

lemma config_ok_frame [simp]:
  "config_ok (c\<lparr> cg_compress_level := l \<rparr>) = config_ok c" "config_ok (c\<lparr> cg_compress := b \<rparr>) = config_ok c"
  by (simp_all add: config_ok_def)

lemma config_from_js_ok: "config_ok (config_from_js opts)"
  by (simp add: config_from_js_def Let_def setters_ok default_config_ok split: option.split)

text \<open>
  C38: whatever JavaScript value is given as options, the configuration is usable: concurrency and
  windows are at least 1 and fit 32 bits, the chunk size is at least 1 and fits 64 bits, the retry
  and timeout values fit 32 bits, and the request budget is between 1 and 64; an explicit boolean
  \<open>compress\<close> is honoured.
\<close>

theorem parsed_config_usable:
  "cg_concurrency (config_from_js opts) \<in> {1..<2 ^ 32} \<and> cg_upload_window (config_from_js opts) \<in> {1..<2 ^ 32} \<and>
   cg_download_window (config_from_js opts) \<in> {1..<2 ^ 32} \<and> cg_chunk_size (config_from_js opts) \<in> {1..u64_max} \<and>
   cg_base_retry_ms (config_from_js opts) < 2 ^ 32 \<and> cg_max_retry_ms (config_from_js opts) < 2 ^ 32 \<and>
   cg_timeout_ms (config_from_js opts) < 2 ^ 32 \<and>
   config_request_budget (config_from_js opts) \<in> {1..64} \<and>
   cg_compress (config_from_js opts) =
     (case opt_bool opts ''compress'' of Some b \<Rightarrow> b | None \<Rightarrow> True)"
proof -
  have b: "config_request_budget c \<in> {1..64}" for c
    by (auto simp: config_request_budget_def request_budget_def hard_max_in_flight_requests_def)
  have f: "cg_compress (c\<lparr> cg_compress_level := l \<rparr>) = cg_compress c" for c l by simp
  have "cg_compress (config_from_js opts) = (case opt_bool opts ''compress'' of Some b \<Rightarrow> b | None \<Rightarrow> True)"
  proof (cases "js_is_object opts")
    case True
    then show ?thesis
      by (simp add: config_from_js_def Let_def setters_compress)
        (simp add: with_opt_def setters_compress client_config_default_def split: option.split)
  next
    case False
    then have "js_get opts k = None" for k by (cases opts) simp_all
    with False show ?thesis by (simp add: config_from_js_def client_config_default_def opt_bool_def)
  qed
  with b config_from_js_ok [of opts] show ?thesis by (simp add: config_ok_def)
qed

text \<open>
  The delay before a retry is exactly the base doubled per attempt (at most 31 times) and cut
  at the ceiling, without wrap-around for any 32-bit configuration, so it never shrinks from one
  attempt to the next.
\<close>

theorem backoff_exact:
  assumes "base < 2 ^ 32" and "mx < 2 ^ 32"
  shows "backoff_ms attempt base mx = min mx (base * 2 ^ min attempt 31) \<and>
    backoff_ms attempt base mx \<le> backoff_ms (Suc attempt) base mx"
proof -
  have e: "backoff_ms a base mx = min mx (base * 2 ^ min a 31)" for a
  proof -
    have "base * 2 ^ min a 31 \<le> 2 ^ 32 * 2 ^ 31"
      using assms(1) by (intro mult_le_mono power_increasing) simp_all
    then have "base * 2 ^ min a 31 mod 2 ^ 64 = base * 2 ^ min a 31" by simp
    with assms(2) show ?thesis by (auto simp: backoff_ms_def Let_def min_def)
  qed
  have "base * 2 ^ min attempt 31 \<le> base * 2 ^ min (Suc attempt) 31"
    by (intro mult_le_mono power_increasing) simp_all
  with e show ?thesis by (simp add: min_le_iff_disj)
qed

subsection \<open>What the chunk bounds are\<close>

lemma bounds_loop_append:
  assumes c: "0 < c" and s: "sz + c \<le> u64_max" and k: "k \<le> plan_count c sz"
  shows "bounds_loop sz c (min (k * c) sz) acc =
    Some (acc @ map (\<lambda>i. (i * c, min (i * c + c) sz)) [k..<plan_count c sz])"
  using k
proof (induction "plan_count c sz - k" arbitrary: k acc)
  case 0
  then have "\<not> k < plan_count c sz" by simp
  then have "sz \<le> k * c" using plan_count_step [OF c, of k sz] by linarith
  with 0 show ?case by (simp add: bounds_loop.simps)
next
  case (Suc n)
  then have k: "k < plan_count c sz" by simp
  with plan_count_offset [OF c] have l: "k * c < sz" by blast
  then have e: "min (u64_add (k * c) c) sz = min (Suc k * c) sz" using s by (simp add: add.commute)
  have "bounds_loop sz c (min (k * c) sz) acc =
      bounds_loop sz c (min (Suc k * c) sz) (acc @ [(k * c, min (Suc k * c) sz)])"
    using l e by (subst bounds_loop.simps) (simp add: min_def Let_def)
  also have "\<dots> = Some ((acc @ [(k * c, min (Suc k * c) sz)]) @
      map (\<lambda>i. (i * c, min (i * c + c) sz)) [Suc k..<plan_count c sz])"
    by (rule Suc.hyps(1)) (use Suc.hyps(2) k in auto)
  finally show ?case using k by (simp add: upt_conv_Cons add.commute)
qed

text \<open>
  The bounds a client slices a file into from a resume offset at a chunk boundary are the rest
  of the transfer plan of that file, chunk by chunk, so a resumed transfer and its plan agree.
\<close>

theorem chunk_bounds_resume_plan:
  assumes "entry_plan sha f c = Some plan" and "0 < fe_size f" and "fe_size f + c \<le> u64_max"
    and "k \<le> length (tp_chunks plan)"
  shows "chunk_bounds f c (k * c) =
    Some (drop k (map (\<lambda>ck. (ck_offset ck, ck_offset ck + ck_size ck)) (tp_chunks plan)))"
proof -
  let ?n = "plan_count c (fe_size f)"
  have c: "0 < c" using assms(1) by (auto simp: entry_plan_def with_chunk_size_def split: if_splits)
  have p: "tp_chunks plan = map (plan_chunk c (fe_size f)) [0..<?n]"
    using assms(1,2) c plan_loop_closed [of c 0 "fe_size f"]
    by (auto simp: entry_plan_def with_chunk_size_def to_meta_def Let_def)
  have k: "k \<le> ?n" using assms(4) p by simp
  have "chunk_bounds f c (k * c) = Some (map (\<lambda>i. (i * c, min (i * c + c) (fe_size f))) [k..<?n])"
    using bounds_loop_append [OF c assms(3) k, of "[]"] by (simp add: chunk_bounds_def)
  moreover have eq: "(i * c, min (i * c + c) (fe_size f)) =
      (ck_offset (plan_chunk c (fe_size f) i), ck_offset (plan_chunk c (fe_size f) i) + ck_size (plan_chunk c (fe_size f) i))"
    if "i \<in> set [k..<?n]" for i
    using that plan_count_offset [OF c, of i "fe_size f"] by (auto simp: plan_chunk_def min_def)
  have "map (\<lambda>i. (i * c, min (i * c + c) (fe_size f))) [k..<?n] =
      map (\<lambda>i. (ck_offset (plan_chunk c (fe_size f) i), ck_offset (plan_chunk c (fe_size f) i) +
        ck_size (plan_chunk c (fe_size f) i))) [k..<?n]" by (rule map_cong [OF refl]) (rule eq)
  ultimately show ?thesis by (simp add: p drop_map o_def)
qed

text \<open>A zero chunk size never returns; the configuration and the tuning exclude it.\<close>

lemma bounds_loop_zero:
  "bounds_loop sz cs o1 acc = Some r \<Longrightarrow> cs = 0 \<longrightarrow> sz \<le> u64_max \<longrightarrow> sz \<le> o1"
proof (rule bounds_loop.raw_induct [where P = "\<lambda>sz cs o1 acc r. cs = 0 \<longrightarrow> sz \<le> u64_max \<longrightarrow> sz \<le> o1"])
  fix f sz cs o1 acc r
  assume ih: "\<And>sz cs o1 acc r. f sz cs o1 acc = Some r \<Longrightarrow> cs = 0 \<longrightarrow> sz \<le> u64_max \<longrightarrow> sz \<le> o1"
    and eq: "(if o1 < sz then let e = min (u64_add o1 cs) sz in f sz cs e (acc @ [(o1, e)]) else Some acc) = Some r"
  show "cs = 0 \<longrightarrow> sz \<le> u64_max \<longrightarrow> sz \<le> o1"
  proof (intro impI)
    assume a: "cs = 0" "sz \<le> u64_max"
    show "sz \<le> o1"
    proof (rule ccontr)
      assume "\<not> sz \<le> o1"
      with a eq have "f sz 0 o1 (acc @ [(o1, o1)]) = Some r" by (simp add: Let_def)
      from ih [OF this] a \<open>\<not> sz \<le> o1\<close> show False by simp
    qed
  qed
qed

lemma chunk_bounds_zero: "from_off < fe_size f \<Longrightarrow> fe_size f \<le> u64_max \<Longrightarrow> chunk_bounds f 0 from_off = None"
  using bounds_loop_zero [of "fe_size f" 0 "min from_off (fe_size f)" "[]"]
  by (cases "chunk_bounds f 0 from_off") (auto simp: chunk_bounds_def)

text \<open>
  A size below \<open>2 ^ 53\<close> survives the trip through a JavaScript number exactly.
\<close>

theorem js_number_roundtrip:
  assumes "n < 2 ^ 53"
  shows "safe_u64 (JS_num (f_of_nat n)) field = Inr n"
proof -
  have "rat_of_nat n \<le> rat_of_nat 9007199254740991" using assms by (simp only: of_nat_le_iff) simp
  moreover have "n \<le> u64_max" using assms by (simp add: u64_max_def)
  ultimately show ?thesis
    using f_of_nat_exact [OF assms]
    by (simp add: safe_u64_def f_is_finite_def max_safe_integer_def f_to_u64_def f_cast_def rat_trunc_def)
qed

text \<open>A fractional number is cut off, although it is not an integer.\<close>

lemma safe_u64_fraction: "safe_u64 (JS_num (Fin (3 / 2))) field = Inr 1"
  by (simp add: floor_divide_of_int_eq [of 3 2, simplified] safe_u64_def f_is_finite_def max_safe_integer_def f_to_u64_def f_cast_def rat_trunc_def u64_max_def)

subsection \<open>Witnesses\<close>

theorem backoff_exact_witness: "backoff_ms 6 500 30000 = 30000 \<and> backoff_ms 3 500 30000 = 4000"
  using backoff_exact [of 500 30000 6] backoff_exact [of 500 30000 3] by simp

definition demo_entry_file :: file_entry where
  "demo_entry_file = \<lparr> fe_path = ''a.bin'', fe_size = 10, fe_mtime = 1 \<rparr>"

theorem chunk_bounds_resume_plan_witness:
  "chunk_bounds demo_entry_file 4 (1 * 4) = Some [(4, 8), (8, 10)]"
proof -
  have l: "plan_loop 4 10 0 [] = [\<lparr> ck_index = 0, ck_offset = 0, ck_size = 4 \<rparr>, \<lparr> ck_index = 1, ck_offset = 4, ck_size = 4 \<rparr>,
      \<lparr> ck_index = 2, ck_offset = 8, ck_size = 2 \<rparr>]"
    by (simp add: plan_loop.simps)
  then obtain plan where p: "entry_plan (\<lambda>b. b) demo_entry_file 4 = Some plan" "tp_chunks plan = plan_loop 4 10 0 []"
    by (auto simp: entry_plan_def with_chunk_size_def to_meta_def demo_entry_file_def Let_def)
  show ?thesis
    using chunk_bounds_resume_plan [OF p(1), of 1] p(2) l by (simp add: demo_entry_file_def u64_max_def)
qed

theorem js_number_roundtrip_witness: "safe_u64 (JS_num (f_of_nat 12)) ''size'' = Inr 12"
  by (rule js_number_roundtrip) simp

end
