(* ===== verification/Client_Monad.thy ===== *)
theory Client_Monad
  imports Tune_Engine Client_Plan Compress
begin

text \<open>
  The setting the client's schedulers run in (libfw-client, \<open>upload.rs\<close> and \<open>download.rs\<close>): the shared
  task control, the tuning engine, and a world behind an interface.  The world is the browser, the
  network, the server and the user; what the code asks of it is gathered in \<open>client_env\<close>.

  A run of an asynchronous function ends with a result or an error, or it never resumes: \<open>None\<close>.  The
  tasks of \<open>buffer_unordered\<close> run one after the other in the order in which they complete, which the
  world chooses; a task's own steps are not interleaved with those of another.
\<close>

subsection \<open>The world\<close>

record http_request =
  rq_method :: string
  rq_url :: string
  rq_headers :: "(string \<times> string) list"
  rq_body :: bytes

record http_reply =
  rp_status :: nat
  rp_headers :: "(string \<times> string) list"
  rp_body :: "bytes list"

text \<open>The calls of the JavaScript callbacks object that return nothing.\<close>

datatype callback =
    Call_progress nat nat
  | Call_file_start string nat
  | Call_file_completed string
  | Call_write_chunk string nat bytes
  | Call_save_state string string "(string \<times> js_value) list"
  | Call_log string

text \<open>
  \<open>ce_fetch\<close> sends a request and reads the whole body (its chunks, and the error that ended it, if
  any); \<open>ce_xhr\<close> posts with upload progress: the values of \<open>loaded\<close> reported before it settles.
  \<open>ce_bench\<close> and \<open>ce_bench_clock\<close> are the trial compression of a level and the clock it is timed with;
  \<open>ce_controls\<close> is what the user does until a waiting loop looks again, turn by turn;
  \<open>ce_order n\<close> the order in which \<open>n\<close> concurrent tasks complete.
\<close>

record ('e, 's, 'w) client_env =
  ce_tune :: "'s tune_env"
  ce_zrip :: "'e zrip"
  ce_sha :: "bytes \<Rightarrow> bytes"
  ce_encode_uri :: "string \<Rightarrow> string"
  ce_meta_json :: "file_meta \<Rightarrow> string"
  ce_ranges_json :: "bytes \<Rightarrow> string + (nat \<times> nat) list"
  ce_dir_json :: "bytes \<Rightarrow> string + dir_entry list"
  ce_now :: "'w \<Rightarrow> f64"
  ce_controls :: "'w \<Rightarrow> user_op list list \<times> 'w"
  ce_fetch :: "http_request \<Rightarrow> nat \<Rightarrow> 'w \<Rightarrow> (libfw_error + http_reply \<times> libfw_error option) \<times> 'w"
  ce_xhr :: "http_request \<Rightarrow> nat \<Rightarrow> 'w \<Rightarrow> nat list \<times> (libfw_error + nat) \<times> 'w"
  ce_call :: "callback \<Rightarrow> 'w \<Rightarrow> (libfw_error + unit) \<times> 'w"
  ce_file_list :: "'w \<Rightarrow> (libfw_error + js_value list) \<times> 'w"
  ce_read_file :: "string \<Rightarrow> nat \<Rightarrow> nat \<Rightarrow> 'w \<Rightarrow> (libfw_error + bytes) \<times> 'w"
  ce_load_state :: "string \<Rightarrow> string \<Rightarrow> 'w \<Rightarrow> (libfw_error + js_value option) \<times> 'w"
  ce_bench :: "bytes \<Rightarrow> int \<Rightarrow> bytes option"
  ce_bench_clock :: "'w \<Rightarrow> nat \<Rightarrow> f64"
  ce_sleep :: "nat \<Rightarrow> 'w \<Rightarrow> 'w"
  ce_order :: "nat \<Rightarrow> 'w \<Rightarrow> nat list \<times> 'w"

subsection \<open>Runs\<close>

record ('s, 'w) client =
  cl_control :: task_control
  cl_tune :: "'s tuning_engine"
  cl_world :: 'w

type_synonym ('s, 'w, 'a) cm = "('s, 'w) client \<Rightarrow> (libfw_error + 'a) option \<times> ('s, 'w) client"

definition cm_ret :: "'a \<Rightarrow> ('s, 'w, 'a) cm" where
  "cm_ret x s = (Some (Inr x), s)"

definition cm_fail :: "libfw_error \<Rightarrow> ('s, 'w, 'a) cm" where
  "cm_fail e s = (Some (Inl e), s)"

definition cm_bind :: "('s, 'w, 'a) cm \<Rightarrow> ('a \<Rightarrow> ('s, 'w, 'b) cm) \<Rightarrow> ('s, 'w, 'b) cm" where
  "cm_bind m f s =
     (case m s of
        (None, s2) \<Rightarrow> (None, s2)
      | (Some (Inl e), s2) \<Rightarrow> (Some (Inl e), s2)
      | (Some (Inr x), s2) \<Rightarrow> f x s2)"

text \<open>The result as a value, for the code that looks at it.\<close>

definition cm_attempt :: "('s, 'w, 'a) cm \<Rightarrow> ('s, 'w, libfw_error + 'a) cm" where
  "cm_attempt m s =
     (case m s of (None, s2) \<Rightarrow> (None, s2) | (Some r, s2) \<Rightarrow> (Some (Inr r), s2))"

definition cm_lift :: "libfw_error + 'a \<Rightarrow> ('s, 'w, 'a) cm" where
  "cm_lift r s = (Some r, s)"

definition cm_get :: "(('s, 'w) client \<Rightarrow> 'a) \<Rightarrow> ('s, 'w, 'a) cm" where
  "cm_get f s = (Some (Inr (f s)), s)"

definition cm_world :: "('w \<Rightarrow> (libfw_error + 'a) \<times> 'w) \<Rightarrow> ('s, 'w, 'a) cm" where
  "cm_world f s = (let (r, w) = f (cl_world s) in (Some r, s\<lparr> cl_world := w \<rparr>))"

definition cm_control :: "(task_control \<Rightarrow> task_control) \<Rightarrow> ('s, 'w, unit) cm" where
  "cm_control f s = (Some (Inr ()), s\<lparr> cl_control := f (cl_control s) \<rparr>)"

definition cm_when :: "bool \<Rightarrow> ('s, 'w, unit) cm \<Rightarrow> ('s, 'w, unit) cm" where
  "cm_when b m = (if b then m else cm_ret ())"

text \<open>A value computed by a loop that may not end.\<close>

definition cm_loop :: "'a option \<Rightarrow> ('s, 'w, 'a) cm" where
  "cm_loop r s = (map_option Inr r, s)"

text \<open>The first element at which \<open>f\<close> fails ends the loop.\<close>

fun cm_for :: "'a list \<Rightarrow> ('a \<Rightarrow> ('s, 'w, unit) cm) \<Rightarrow> ('s, 'w, unit) cm" where
  "cm_for [] f = cm_ret ()"
| "cm_for (x # xs) f = cm_bind (f x) (\<lambda>_. cm_for xs f)"

text \<open>All tasks run; their results in the order of completion.\<close>

fun cm_tasks :: "'a list \<Rightarrow> ('a \<Rightarrow> ('s, 'w, 'b) cm) \<Rightarrow> ('s, 'w, (libfw_error + 'b) list) cm" where
  "cm_tasks [] f = cm_ret []"
| "cm_tasks (x # xs) f =
     cm_bind (cm_attempt (f x)) (\<lambda>r. cm_bind (cm_tasks xs f) (\<lambda>rs. cm_ret (r # rs)))"

definition arrange :: "nat list \<Rightarrow> 'a list \<Rightarrow> 'a list" where
  "arrange perm xs = (if sort perm = [0..<length xs] then map ((!) xs) perm else xs)"

definition cm_unordered ::
  "('e, 's, 'w) client_env \<Rightarrow> 'a list \<Rightarrow> ('a \<Rightarrow> ('s, 'w, 'b) cm) \<Rightarrow> ('s, 'w, (libfw_error + 'b) list) cm" where
  "cm_unordered env xs f =
     cm_bind (cm_world (\<lambda>w. let (perm, w2) = ce_order env (length xs) w in (Inr perm, w2)))
       (\<lambda>perm. cm_tasks (arrange perm xs) f)"

text \<open>
  A loop whose body says how to go on (\<open>Inl\<close>) or what to return (\<open>Inr\<close>); one that runs for ever
  never resumes its caller.
\<close>

partial_function (option) cm_iter ::
  "('a \<Rightarrow> ('s, 'w, 'a + 'b) cm) \<Rightarrow> 'a \<Rightarrow> ('s, 'w) client \<Rightarrow> ((libfw_error + 'b) \<times> ('s, 'w) client) option" where
  "cm_iter body x s =
     (case body x s of
        (None, s2) \<Rightarrow> None
      | (Some (Inl e), s2) \<Rightarrow> Some (Inl e, s2)
      | (Some (Inr (Inl x2)), s2) \<Rightarrow> cm_iter body x2 s2
      | (Some (Inr (Inr y)), s2) \<Rightarrow> Some (Inr y, s2))"

definition cm_while :: "('a \<Rightarrow> ('s, 'w, 'a + 'b) cm) \<Rightarrow> 'a \<Rightarrow> ('s, 'w, 'b) cm" where
  "cm_while body x s = (case cm_iter body x s of None \<Rightarrow> (None, s) | Some (r, s2) \<Rightarrow> (Some r, s2))"

subsection \<open>Steps shared by both directions\<close>

text \<open>
  \<open>wait_ready\<close>: before each look at the control the user's operations of that turn have happened; if
  nobody ever resumes a paused transfer, the loop never ends.
\<close>

fun wait_loop :: "user_op list list \<Rightarrow> task_control \<Rightarrow> (libfw_error + unit) option \<times> task_control" where
  "wait_loop [] c = (None, c)"
| "wait_loop (ops # turns) c =
     (case wait_ready_turn (user_run ops c) of
        Some r \<Rightarrow> (Some r, user_run ops c)
      | None \<Rightarrow> wait_loop turns (user_run ops c))"

definition cm_wait_ready :: "('e, 's, 'w) client_env \<Rightarrow> ('s, 'w, unit) cm" where
  "cm_wait_ready env s =
     (let (turns, w) = ce_controls env (cl_world s); (r, c) = wait_loop turns (cl_control s) in
      (r, s\<lparr> cl_control := c, cl_world := w \<rparr>))"

definition cm_check :: "('s, 'w, unit) cm" where
  "cm_check s = (Some (control_check (cl_control s)), s)"

definition cm_ready :: "('e, 's, 'w) client_env \<Rightarrow> ('s, 'w, unit) cm" where
  "cm_ready env = cm_bind (cm_wait_ready env) (\<lambda>_. cm_check)"

definition cm_call :: "('e, 's, 'w) client_env \<Rightarrow> callback \<Rightarrow> ('s, 'w, unit) cm" where
  "cm_call env c = cm_world (ce_call env c)"

text \<open>A call whose error is ignored.\<close>

definition cm_call_ignored :: "('e, 's, 'w) client_env \<Rightarrow> callback \<Rightarrow> ('s, 'w, unit) cm" where
  "cm_call_ignored env c = cm_world (\<lambda>w. (Inr (), snd (ce_call env c w)))"

definition cm_sleep :: "('e, 's, 'w) client_env \<Rightarrow> nat \<Rightarrow> ('s, 'w, unit) cm" where
  "cm_sleep env ms = cm_world (\<lambda>w. (Inr (), if ms = 0 then w else ce_sleep env ms w))"

text \<open>\<open>report_progress_if\<close> with the callback it may call.\<close>

definition cm_report :: "('e, 's, 'w) client_env \<Rightarrow> ('s, 'w, unit) cm" where
  "cm_report env s =
     (case report_progress_if (cl_control s) of
        (Some (n, tot), c) \<Rightarrow> cm_call env (Call_progress n tot) (s\<lparr> cl_control := c \<rparr>)
      | (None, c) \<Rightarrow> cm_ret () (s\<lparr> cl_control := c \<rparr>))"

text \<open>
  \<open>tune_tick\<close>: one sample for the engine; an event resizes the permit pool.  The guard \<open>enabled()\<close> of
  its callers is part of it.
\<close>

definition cm_tick :: "('e, 's, 'w) client_env \<Rightarrow> f64 option \<Rightarrow> bool \<Rightarrow> ('s, 'w, unit) cm" where
  "cm_tick env rtt err s =
     (if \<not> te_enabled (cl_tune s) then (Some (Inr ()), s)
      else
        let (event, e) = tick (ce_tune env) (ce_now env (cl_world s)) (tk_done (cl_control s)) rtt err (cl_tune s);
            c = (case event of
                   Some ev \<Rightarrow> snd (set_max_parallel (params_request_budget (ev_params ev)) (cl_control s))
                 | None \<Rightarrow> cl_control s)
        in (Some (Inr ()), s\<lparr> cl_tune := e, cl_control := c \<rparr>))"

end
