(* ===== verification/Client_Upload.thy ===== *)
theory Client_Upload
  imports Client_Monad
begin

text \<open>
  The client's upload scheduler (libfw-client, \<open>upload.rs\<close>): the blocks of a file are posted with their
  offset into a session of the server, a probe says which ranges are there already, and a commit
  ends the session; every request is retried.
\<close>

subsection \<open>Ranges\<close>

definition cut_range :: "nat \<Rightarrow> nat \<Rightarrow> nat \<times> nat \<Rightarrow> (nat \<times> nat) list" where
  "cut_range rs re m =
     (case m of (ms, me) \<Rightarrow>
        if re \<le> ms \<or> me \<le> rs then [(ms, me)]
        else (if ms < rs then [(ms, rs)] else []) @ (if re < me then [(re, me)] else []))"

fun missing_loop :: "nat \<Rightarrow> nat \<Rightarrow> (nat \<times> nat) list \<Rightarrow> (nat \<times> nat) list \<Rightarrow> (nat \<times> nat) list" where
  "missing_loop start fin missing [] = missing"
| "missing_loop start fin missing ((rs0, re0) # received) =
     (let rs = max rs0 start; re = max (min re0 fin) rs in
      if re \<le> rs then missing_loop start fin missing received
      else missing_loop start fin (concat (map (cut_range rs re) missing)) received)"

definition missing_ranges :: "nat \<Rightarrow> nat \<Rightarrow> (nat \<times> nat) list \<Rightarrow> (nat \<times> nat) list" where
  "missing_ranges start fin received = missing_loop start fin [(start, fin)] received"

definition aligned_missing :: "file_entry \<Rightarrow> nat \<Rightarrow> (nat \<times> nat) list \<Rightarrow> (nat \<times> nat) list option" where
  "aligned_missing f chunk_sz received =
     map_option (\<lambda>bounds. concat (map (\<lambda>(s, e). missing_ranges s e received) bounds)) (chunk_bounds f chunk_sz 0)"

text \<open>The merge over the ranges sorted by their start: the current span and the bytes before it.\<close>

fun covered_loop :: "nat \<Rightarrow> (nat \<times> nat) option \<Rightarrow> (nat \<times> nat) list \<Rightarrow> nat" where
  "covered_loop acc cur [] = (case cur of Some (cs, ce) \<Rightarrow> sat_add acc (ce - cs) | None \<Rightarrow> acc)"
| "covered_loop acc None ((s, e) # rs) = covered_loop acc (Some (s, e)) rs"
| "covered_loop acc (Some (cs, ce)) ((s, e) # rs) =
     (if s \<le> ce then covered_loop acc (Some (cs, max ce e)) rs
      else covered_loop (sat_add acc (ce - cs)) (Some (s, e)) rs)"

definition probe_covered :: "(nat \<times> nat) list \<Rightarrow> nat" where
  "probe_covered received =
     covered_loop 0 None
       (sort_key fst (filter (\<lambda>(s, e). s < e) (map (\<lambda>(s, e). (min s e, max s e)) received)))"

subsection \<open>Requests\<close>

text \<open>What stays the same in all requests of a file.\<close>

record upload_job =
  uj_base_url :: string
  uj_token :: string
  uj_file :: file_entry
  uj_config :: client_config
  uj_compress :: bool
  uj_level :: int

definition session_id_for :: "(bytes \<Rightarrow> bytes) \<Rightarrow> file_entry \<Rightarrow> string" where
  "session_id_for sha f = trim_char CHR 0x22 (fm_etag (to_meta sha f))"

definition post_headers ::
  "('e, 's, 'w) client_env \<Rightarrow> upload_job \<Rightarrow> nat \<Rightarrow> bytes \<Rightarrow> bool \<Rightarrow> bool \<Rightarrow> string \<Rightarrow> (string \<times> string) list" where
  "post_headers env j offset body compressed final_chunk session =
     [(''Authorization'', ''Bearer '' @ uj_token j), (''x-libfw-protocol'', protocol_header_value),
      (''x-libfw-offset'', show_nat offset),
      (''x-libfw-file-meta'', encode_file_meta_header (ce_meta_json env) (to_meta (ce_sha env) (uj_file j)))] @
     (if session \<noteq> [] then [(''x-libfw-session'', session)] else []) @
     (if compressed \<and> body \<noteq> [] then [(''x-libfw-compress'', ''zrip'')] else []) @
     (if final_chunk then [(''x-libfw-final'', ''1'')] else [])"

definition post_request ::
  "('e, 's, 'w) client_env \<Rightarrow> upload_job \<Rightarrow> nat \<Rightarrow> bytes \<Rightarrow> bool \<Rightarrow> bool \<Rightarrow> string \<Rightarrow> http_request" where
  "post_request env j offset body compressed final_chunk session =
     \<lparr> rq_method = ''POST'', rq_url = file_url (ce_encode_uri env) (uj_base_url j) (fe_path (uj_file j)),
       rq_headers = post_headers env j offset body compressed final_chunk session, rq_body = body \<rparr>"

text \<open>The progress handler: only bytes beyond those already counted for this block count.\<close>

definition cm_report_ignored :: "('e, 's, 'w) client_env \<Rightarrow> ('s, 'w, unit) cm" where
  "cm_report_ignored env = cm_bind (cm_attempt (cm_report env)) (\<lambda>_. cm_ret ())"

fun wire_ticks :: "('e, 's, 'w) client_env \<Rightarrow> nat list \<Rightarrow> nat \<Rightarrow> ('s, 'w, nat) cm" where
  "wire_ticks env [] last_loaded = cm_ret last_loaded"
| "wire_ticks env (loaded # ticks) last_loaded =
     (if last_loaded < loaded
      then cm_bind (cm_control (add_progress (loaded - last_loaded))) (\<lambda>_.
           cm_bind (cm_report_ignored env) (\<lambda>_. wire_ticks env ticks loaded))
      else wire_ticks env ticks last_loaded)"

text \<open>
  \<open>wired\<close> says whether a progress handler is set; the result is the bytes counted so far and the
  outcome of the request.  The permit is held during the request only.
\<close>

definition post_chunk ::
  "('e, 's, 'w) client_env \<Rightarrow> upload_job \<Rightarrow> nat \<Rightarrow> bytes \<Rightarrow> bool \<Rightarrow> bool \<Rightarrow> string \<Rightarrow> bool \<Rightarrow> nat \<Rightarrow>
   ('s, 'w, nat \<times> (libfw_error + unit)) cm" where
  "post_chunk env j offset body compressed final_chunk session wired last_loaded =
     (let req = post_request env j offset body compressed final_chunk session in
      cm_bind (cm_world (\<lambda>w. let (ticks, r, w2) = ce_xhr env req (cg_timeout_ms (uj_config j)) w in
                 (Inr (ticks, r), w2)))
        (\<lambda>(ticks, r).
           cm_bind (if wired then wire_ticks env ticks last_loaded else cm_ret last_loaded) (\<lambda>last2.
           cm_ret (last2,
             case r of
               Inl e \<Rightarrow> Inl e
             | Inr status \<Rightarrow> if status = 201 then Inr () else Inl (Err_Http status (rq_url req))))))"

definition probe_request :: "('e, 's, 'w) client_env \<Rightarrow> upload_job \<Rightarrow> string \<Rightarrow> http_request" where
  "probe_request env j session =
     \<lparr> rq_method = ''POST'', rq_url = file_url (ce_encode_uri env) (uj_base_url j) (fe_path (uj_file j)),
       rq_headers = auth_headers (uj_token j) False None @
         [(''x-libfw-offset'', ''0''),
          (''x-libfw-file-meta'', encode_file_meta_header (ce_meta_json env) (to_meta (ce_sha env) (uj_file j))),
          (''x-libfw-session'', session), (''x-libfw-session-status'', ''1'')],
       rq_body = [] \<rparr>"

definition probe_session :: "('e, 's, 'w) client_env \<Rightarrow> upload_job \<Rightarrow> string \<Rightarrow> ('s, 'w, (nat \<times> nat) list) cm" where
  "probe_session env j session =
     (let req = probe_request env j session in
      cm_bind (cm_world (ce_fetch env req (cg_timeout_ms (uj_config j)))) (\<lambda>(reply, broken).
      if rp_status reply \<noteq> 200 \<and> rp_status reply \<noteq> 201
      then cm_fail (Err_Http (rp_status reply) (rq_url req))
      else case broken of
        Some e \<Rightarrow> cm_fail e
      | None \<Rightarrow>
          (case ce_ranges_json env (concat (rp_body reply)) of
             Inl m \<Rightarrow> cm_fail (Err_Protocol (''bad session-status JSON: '' @ m))
           | Inr rs \<Rightarrow> cm_ret (map (\<lambda>(s, e). (s, max e s)) rs))))"

subsection \<open>A block\<close>

function split_chunks :: "nat \<Rightarrow> 'a list \<Rightarrow> 'a list list" where
  "split_chunks n xs = (if xs = [] \<or> n = 0 then [] else take n xs # split_chunks n (drop n xs))"
  by pat_completeness auto
termination
  by (relation "measure (\<lambda>(n, xs). length xs)") auto

declare split_chunks.simps [simp del]

definition chunk_payload :: "'e zrip \<Rightarrow> bool \<Rightarrow> int \<Rightarrow> bytes \<Rightarrow> libfw_error + bytes" where
  "chunk_payload z compressed level raw =
     (if compressed
      then map_err (\<lambda>e. Err_Compress (compress_error_display e))
             (res_bind (compressor_with_level z Fmt_Zrip level) (\<lambda>c.
                compress_chunks z c (split_chunks stream_buf_size raw)))
      else Inr raw)"

definition retry_message :: "string \<Rightarrow> file_entry \<Rightarrow> nat \<Rightarrow> string" where
  "retry_message what f attempts =
     ''retrying '' @ what @ '' of '' @ fe_path f @ '' (attempt '' @ show_nat attempts @ '')''"

text \<open>The retry loop; the result is the bytes the wire has counted.\<close>

function send_chunk ::
  "('e, 's, 'w) client_env \<Rightarrow> upload_job \<Rightarrow> string \<Rightarrow> nat \<Rightarrow> bytes \<Rightarrow> nat \<Rightarrow> nat \<Rightarrow> ('s, 'w, nat) cm" where
  "send_chunk env j session start payload attempts last_loaded =
     cm_bind (cm_ready env) (\<lambda>_.
     cm_bind (post_chunk env j start payload (uj_compress j) False session True last_loaded) (\<lambda>(last2, r).
     case r of
       Inr _ \<Rightarrow> cm_ret last2
     | Inl e \<Rightarrow>
         if cg_max_retries (uj_config j) \<le> attempts then cm_fail e
         else cm_bind (cm_call_ignored env (Call_log (retry_message ''chunk'' (uj_file j) (attempts + 1)))) (\<lambda>_.
              cm_bind (cm_sleep env (config_backoff_ms (uj_config j) (attempts + 1))) (\<lambda>_.
              send_chunk env j session start payload (attempts + 1) last2))))"
  by pat_completeness auto
termination
  by (relation "measure (\<lambda>(env, j, session, start, payload, attempts, l). cg_max_retries (uj_config j) - attempts)") auto

declare send_chunk.simps [simp del]

definition upload_one_chunk ::
  "('e, 's, 'w) client_env \<Rightarrow> upload_job \<Rightarrow> string \<Rightarrow> nat \<Rightarrow> nat \<Rightarrow> ('s, 'w, nat) cm" where
  "upload_one_chunk env j session start fin =
     cm_bind (cm_ready env) (\<lambda>_.
     let len = fin - start in
     cm_bind (cm_world (ce_read_file env (fe_path (uj_file j)) start len)) (\<lambda>raw.
     if length raw \<noteq> len
     then cm_fail (Err_Storage (''read '' @ show_nat (length raw) @ '' of '' @ show_nat len @ '' bytes for '' @
            fe_path (uj_file j)))
     else cm_bind (cm_lift (chunk_payload (ce_zrip env) (uj_compress j) (uj_level j) raw)) (\<lambda>payload.
     cm_bind (send_chunk env j session start payload 0 0) (\<lambda>last_loaded.
     let counted = min last_loaded len in
     cm_bind (cm_when (counted < len) (cm_control (add_progress (len - counted)))) (\<lambda>_.
     cm_bind (cm_report env) (\<lambda>_.
     cm_bind (cm_tick env None False) (\<lambda>_. cm_ret len)))))))"

function commit_upload ::
  "('e, 's, 'w) client_env \<Rightarrow> upload_job \<Rightarrow> string \<Rightarrow> nat \<Rightarrow> ('s, 'w, unit) cm" where
  "commit_upload env j session attempts =
     cm_bind (cm_ready env) (\<lambda>_.
     cm_bind (post_chunk env j (fe_size (uj_file j)) [] False True session False 0) (\<lambda>(_, r).
     case r of
       Inr _ \<Rightarrow> cm_ret ()
     | Inl e \<Rightarrow>
         if cg_max_retries (uj_config j) \<le> attempts then cm_fail e
         else cm_bind (cm_call_ignored env (Call_log (retry_message ''commit'' (uj_file j) (attempts + 1)))) (\<lambda>_.
              cm_bind (cm_sleep env (config_backoff_ms (uj_config j) (attempts + 1))) (\<lambda>_.
              commit_upload env j session (attempts + 1)))))"
  by pat_completeness auto
termination
  by (relation "measure (\<lambda>(env, j, session, attempts). cg_max_retries (uj_config j) - attempts)") auto

declare commit_upload.simps [simp del]

subsection \<open>A file\<close>

text \<open>
  The missing blocks, batch by batch, with the window read anew for each: how many failed, and the
  first error seen.
\<close>

fun first_of_errors :: "libfw_error option \<Rightarrow> (libfw_error + 'a) list \<Rightarrow> libfw_error option" where
  "first_of_errors fst_err [] = fst_err"
| "first_of_errors fst_err (Inr _ # rs) = first_of_errors fst_err rs"
| "first_of_errors fst_err (Inl e # rs) =
     first_of_errors (case fst_err of None \<Rightarrow> Some e | Some _ \<Rightarrow> fst_err) rs"

definition count_errors :: "(libfw_error + 'a) list \<Rightarrow> nat" where
  "count_errors rs = length (filter (\<lambda>r. case r of Inl _ \<Rightarrow> True | Inr _ \<Rightarrow> False) rs)"

function send_queue ::
  "('e, 's, 'w) client_env \<Rightarrow> upload_job \<Rightarrow> string \<Rightarrow> (nat \<times> nat) list \<Rightarrow> nat \<Rightarrow> libfw_error option \<Rightarrow>
   ('s, 'w, nat \<times> libfw_error option) cm" where
  "send_queue env j session queue errors fst_err =
     (if queue = [] then cm_ret (errors, fst_err)
      else cm_bind (cm_get (\<lambda>s. max (pm_upload_window (te_params (cl_tune s))) 1)) (\<lambda>window.
           cm_bind (cm_unordered env (take (max window 1) queue)
                      (\<lambda>(s, e). upload_one_chunk env j session s e)) (\<lambda>rs.
           send_queue env j session (drop (max window 1) queue) (u32_add errors (count_errors rs))
             (first_of_errors fst_err rs))))"
  by pat_completeness auto
termination
  by (relation "measure (\<lambda>(env, j, session, queue, errors, fst_err). length queue)") auto

declare send_queue.simps [simp del]

definition verify_message :: "file_entry \<Rightarrow> string" where
  "verify_message f = ''commit failed for '' @ fe_path f @ ''; re-verifying server state''"

definition insert_error :: "libfw_error option \<Rightarrow> libfw_error \<Rightarrow> libfw_error option" where
  "insert_error fst_err e = (case fst_err of None \<Rightarrow> Some e | Some _ \<Rightarrow> fst_err)"

definition not_converged :: "file_entry \<Rightarrow> nat \<Rightarrow> libfw_error option \<Rightarrow> libfw_error" where
  "not_converged f rounds fst_err =
     (case fst_err of
        Some e \<Rightarrow> e
      | None \<Rightarrow> Err_Protocol (''upload of '' @ fe_path f @ '' did not converge after '' @ show_nat rounds @ '' rounds''))"

text \<open>
  The rounds of \<open>upload_session_resumable\<close>; \<open>received\<close> is the result of the last probe, which round 0
  takes over from the start.
\<close>

function upload_rounds ::
  "('e, 's, 'w) client_env \<Rightarrow> upload_job \<Rightarrow> string \<Rightarrow> nat \<Rightarrow> (nat \<times> nat) list \<Rightarrow> nat \<Rightarrow> libfw_error option \<Rightarrow>
   ('s, 'w, nat) cm" where
  "upload_rounds env j session covered received0 rounds fst_err =
     cm_bind (cm_ready env) (\<lambda>_.
     cm_bind (cm_get (\<lambda>s. max (pm_chunk_size (te_params (cl_tune s))) 1)) (\<lambda>chunk_sz.
     cm_bind (if 0 < rounds then probe_session env j session else cm_ret received0) (\<lambda>received.
     cm_bind (cm_loop (aligned_missing (uj_file j) chunk_sz received)) (\<lambda>missing.
     if missing = []
     then cm_bind (cm_attempt (commit_upload env j session 0)) (\<lambda>r.
       case r of
         Inr _ \<Rightarrow> cm_bind (cm_tick env None False) (\<lambda>_. cm_ret (fe_size (uj_file j) - covered))
       | Inl e \<Rightarrow>
           if cg_max_retries (uj_config j) \<le> rounds then cm_fail e
           else cm_bind (cm_call_ignored env (Call_log (verify_message (uj_file j)))) (\<lambda>_.
                upload_rounds env j session covered received (rounds + 1) (insert_error fst_err e)))
     else cm_bind (send_queue env j session missing 0 fst_err) (\<lambda>(errors, fst_err2).
       cm_bind (cm_attempt (commit_upload env j session 0)) (\<lambda>r.
       case r of
         Inr _ \<Rightarrow> cm_bind (cm_tick env None (0 < errors)) (\<lambda>_. cm_ret (fe_size (uj_file j) - covered))
       | Inl e \<Rightarrow>
           if cg_max_retries (uj_config j) < rounds + 1
           then cm_bind (probe_session env j session) (\<lambda>received2.
                cm_bind (cm_loop (aligned_missing (uj_file j) chunk_sz received2)) (\<lambda>missing2.
                if missing2 = []
                then cm_bind (commit_upload env j session 0) (\<lambda>_. cm_ret (fe_size (uj_file j) - covered))
                else cm_fail (not_converged (uj_file j) (rounds + 1) fst_err2)))
           else cm_bind (cm_call_ignored env (Call_log (verify_message (uj_file j)))) (\<lambda>_.
                cm_bind (cm_tick env None (0 < errors)) (\<lambda>_.
                upload_rounds env j session covered received (rounds + 1) (insert_error fst_err2 e)))))))))"
  by pat_completeness auto
termination
  by (relation "measure (\<lambda>(env, j, session, covered, received, rounds, fst_err).
      cg_max_retries (uj_config j) - rounds)") auto

declare upload_rounds.simps [simp del]

definition state_json :: "nat \<Rightarrow> string \<Rightarrow> nat \<Rightarrow> (string \<times> js_value) list" where
  "state_json offset etag sz =
     [(''offset'', JS_num (f_of_nat offset)), (''etag'', JS_str etag), (''size'', JS_num (f_of_nat sz))]"

definition upload_session_resumable :: "('e, 's, 'w) client_env \<Rightarrow> upload_job \<Rightarrow> ('s, 'w, nat) cm" where
  "upload_session_resumable env j =
     (let f = uj_file j; session = session_id_for (ce_sha env) f in
      cm_bind (probe_session env j session) (\<lambda>received.
      let covered = min (probe_covered received) (fe_size f) in
      cm_bind (cm_when (0 < covered) (cm_bind (cm_control (add_progress covered)) (\<lambda>_. cm_report env))) (\<lambda>_.
      cm_bind (cm_when (fe_size f \<le> covered)
                 (cm_call_ignored env (Call_log (''upload '' @ fe_path f @ '' already fully present'')))) (\<lambda>_.
      cm_bind (upload_rounds env j session covered received 0 None) (\<lambda>uploaded.
      cm_bind (cm_call env (Call_save_state ''upload'' (fe_path f)
                 (state_json (fe_size f) (fm_etag (to_meta (ce_sha env) f)) (fe_size f)))) (\<lambda>_.
      cm_ret uploaded))))))"

definition upload_file :: "('e, 's, 'w) client_env \<Rightarrow> upload_job \<Rightarrow> ('s, 'w, nat) cm" where
  "upload_file env j =
     cm_bind (cm_call env (Call_file_start (fe_path (uj_file j)) (fe_size (uj_file j)))) (\<lambda>_.
     cm_bind (upload_session_resumable env j) (\<lambda>uploaded.
     cm_bind (cm_call env (Call_file_completed (fe_path (uj_file j)))) (\<lambda>_. cm_ret uploaded)))"

subsection \<open>All files\<close>

text \<open>The sample for the choice of a level: the head of the first file, if tuning is on.\<close>

definition level_sample :: "('e, 's, 'w) client_env \<Rightarrow> file_entry list \<Rightarrow> ('s, 'w, bytes option) cm" where
  "level_sample env files =
     (case files of
        [] \<Rightarrow> cm_ret None
      | f # _ \<Rightarrow>
          if 0 < fe_size f
          then cm_bind (cm_attempt (cm_world (ce_read_file env (fe_path f) 0 (min (fe_size f) level_sample_size))))
                 (\<lambda>r. cm_ret (case r of Inl _ \<Rightarrow> None | Inr b \<Rightarrow> if b = [] then None else Some b))
          else cm_ret None)"

definition upload_level ::
  "('e, 's, 'w) client_env \<Rightarrow> client_config \<Rightarrow> file_entry list \<Rightarrow> ('s, 'w, bool \<times> int) cm" where
  "upload_level env config files =
     cm_bind (cm_get (\<lambda>s. case te_caps (cl_tune s) of Some c \<Rightarrow> c | None \<Rightarrow> capabilities_default)) (\<lambda>caps.
     if \<not> cg_compress config then cm_ret (False, zl_default (cc_zrip_levels (cap_compression caps)))
     else cm_bind (cm_get (\<lambda>s. te_enabled (cl_tune s))) (\<lambda>enabled.
          cm_bind (if enabled then level_sample env files else cm_ret None) (\<lambda>sample.
          (\<lambda>s. let (level, e) = upload_compress_level (ce_bench env) (ce_bench_clock env (cl_world s)) caps sample
                    (ts_mbps (te_stats (cl_tune s))) (cl_tune s)
                in (Some (Inr (True, level)), s\<lparr> cl_tune := e \<rparr>)))))"

definition report_overall :: "('e, 's, 'w) client_env \<Rightarrow> ('s, 'w, unit) cm" where
  "report_overall env s =
     (let tot = tk_total (cl_control s); n = tk_done (cl_control s) in
      cm_call env (Call_progress (if tot = 0 then n else min n tot) tot) s)"

fun upload_files :: "('e, 's, 'w) client_env \<Rightarrow> upload_job list \<Rightarrow> nat \<Rightarrow> ('s, 'w, nat) cm" where
  "upload_files env [] n = cm_ret n"
| "upload_files env (j # js) n =
     cm_bind (cm_attempt (upload_file env j)) (\<lambda>r.
     case r of
       Inl e \<Rightarrow> cm_bind (cm_tick env None True) (\<lambda>_. cm_fail e)
     | Inr b \<Rightarrow> cm_bind (report_overall env) (\<lambda>_. upload_files env js (sat_add n b)))"

definition client_upload ::
  "('e, 's, 'w) client_env \<Rightarrow> string \<Rightarrow> string \<Rightarrow> client_config \<Rightarrow> ('s, 'w, nat) cm" where
  "client_upload env base_url token config =
     cm_bind (cm_world (ce_file_list env)) (\<lambda>listed.
     cm_bind (cm_lift (parse_file_entries listed)) (\<lambda>files.
     let tot = entries_total files in
     cm_bind (cm_control (set_total tot)) (\<lambda>_.
     cm_bind (cm_call env (Call_progress 0 tot)) (\<lambda>_.
     cm_bind (upload_level env config files) (\<lambda>(compressed, level).
     let jobs = map (\<lambda>f. \<lparr> uj_base_url = base_url, uj_token = token, uj_file = f, uj_config = config,
                          uj_compress = compressed, uj_level = level \<rparr>) files in
     cm_bind (cm_world (\<lambda>w. let (perm, w2) = ce_order env (length jobs) w in (Inr perm, w2))) (\<lambda>perm.
     upload_files env (arrange perm jobs) 0))))))"

end
