(* ===== verification/Client_Ranges.thy ===== *)
theory Client_Ranges
  imports Client_Upload
begin

text \<open>
  What the range arithmetic of the upload scheduler computes: after a probe exactly the missing bytes
  are sent, none twice, and the bytes already there are counted exactly.
\<close>

subsection \<open>Ordered lists of spans\<close>

definition spans_set :: "(nat \<times> nat) list \<Rightarrow> nat set" where
  "spans_set ms = (\<Union>m\<in>set ms. {fst m..<snd m})"

definition spans_ordered :: "(nat \<times> nat) list \<Rightarrow> bool" where
  "spans_ordered ms \<longleftrightarrow> (\<forall>m\<in>set ms. fst m < snd m) \<and> sorted_wrt (\<lambda>m k. snd m \<le> fst k) ms"

lemma spans_set_simps [simp]:
  "spans_set [] = {}" "spans_set (m # ms) = {fst m..<snd m} \<union> spans_set ms"
  "spans_set (ms @ ks) = spans_set ms \<union> spans_set ks"
  "spans_set (concat mss) = (\<Union>ms\<in>set mss. spans_set ms)"
  by (auto simp: spans_set_def)

lemma spans_ordered_simps [simp]:
  "spans_ordered []"
  "spans_ordered (m # ms) \<longleftrightarrow> fst m < snd m \<and> (\<forall>k\<in>set ms. snd m \<le> fst k) \<and> spans_ordered ms"
  "spans_ordered (ms @ ks) \<longleftrightarrow>
     spans_ordered ms \<and> spans_ordered ks \<and> (\<forall>m\<in>set ms. \<forall>k\<in>set ks. snd m \<le> fst k)"
  by (auto simp: spans_ordered_def sorted_wrt_append)

lemma finite_spans_set [simp]: "finite (spans_set ms)"
  by (simp add: spans_set_def)

lemma spans_ordered_card:
  "spans_ordered ms \<Longrightarrow> sum_list (map (\<lambda>m. snd m - fst m) ms) = card (spans_set ms)"
proof (induction ms)
  case (Cons m ms)
  have "{fst m..<snd m} \<inter> spans_set ms = {}"
    using Cons.prems by (force simp: spans_set_def)
  with Cons show ?case by (simp add: card_Un_disjoint)
qed simp

text \<open>Each span refined within its bounds: order and disjointness stay.\<close>

lemma spans_ordered_refine:
  assumes "spans_ordered ms"
    and "\<And>m. m \<in> set ms \<Longrightarrow> spans_ordered (f m) \<and> (\<forall>k\<in>set (f m). fst m \<le> fst k \<and> snd k \<le> snd m)"
  shows "spans_ordered (concat (map f ms))"
  using assms
proof (induction ms)
  case (Cons m ms)
  have "snd a \<le> fst b" if a: "a \<in> set (f m)" and b: "b \<in> set (concat (map f ms))" for a b
  proof -
    from b obtain k where k: "k \<in> set ms" "b \<in> set (f k)" by auto
    have "snd a \<le> snd m" using Cons.prems(2) [of m] a by simp
    also have "\<dots> \<le> fst k" using Cons.prems(1) k(1) by simp
    also have "\<dots> \<le> fst b" using Cons.prems(2) [of k] k by simp
    finally show ?thesis .
  qed
  moreover have "spans_ordered (concat (map f ms))" using Cons by simp
  ultimately show ?case using Cons.prems(2) [of m] by simp
qed simp

lemma spans_orderedD: "spans_ordered ms \<Longrightarrow> m \<in> set ms \<Longrightarrow> fst m < snd m"
  by (simp add: spans_ordered_def)

subsection \<open>Missing ranges\<close>

lemma cut_range_spans:
  assumes "rs < re" and "fst m < snd m"
  shows "spans_set (cut_range rs re m) = {fst m..<snd m} - {rs..<re}"
    "spans_ordered (cut_range rs re m)" "\<forall>k\<in>set (cut_range rs re m). fst m \<le> fst k \<and> snd k \<le> snd m"
  using assms by (auto simp: cut_range_def split: prod.splits if_splits)

lemma missing_loop_spans:
  assumes "spans_ordered ms" and "\<forall>m\<in>set ms. st \<le> fst m \<and> snd m \<le> fin"
  shows "spans_set (missing_loop st fin ms received) = spans_set ms - spans_set received \<and>
    spans_ordered (missing_loop st fin ms received) \<and>
    (\<forall>m\<in>set (missing_loop st fin ms received). st \<le> fst m \<and> snd m \<le> fin)"
  using assms
proof (induction received arbitrary: ms)
  case (Cons r received)
  obtain a b where r: "r = (a, b)" by force
  let ?rs = "max a st" and ?re = "max (min b fin) (max a st)"
  have in_bounds: "spans_set ms \<subseteq> {st..<fin}" using Cons.prems(2) by (force simp: spans_set_def)
  show ?case
  proof (cases "?re \<le> ?rs")
    case True
    then have "{a..<b} \<inter> {st..<fin} = {}" by auto
    with in_bounds have "spans_set ms - {a..<b} = spans_set ms" by blast
    moreover have "missing_loop st fin ms (r # received) = missing_loop st fin ms received"
      using True by (simp add: r Let_def)
    ultimately show ?thesis using Cons.IH [OF Cons.prems] by (auto simp: r)
  next
    case False
    let ?ms = "concat (map (cut_range ?rs ?re) ms)"
    have c: "spans_set (cut_range ?rs ?re m) = {fst m..<snd m} - {?rs..<?re} \<and> spans_ordered (cut_range ?rs ?re m) \<and>
        (\<forall>k\<in>set (cut_range ?rs ?re m). fst m \<le> fst k \<and> snd k \<le> snd m)" if "m \<in> set ms" for m
      using cut_range_spans [OF _ spans_orderedD [OF Cons.prems(1) that], of ?rs ?re] False
      by (meson not_le)
    have o: "spans_ordered ?ms" by (rule spans_ordered_refine [OF Cons.prems(1)]) (use c in blast)
    have l: "\<forall>k\<in>set ?ms. st \<le> fst k \<and> snd k \<le> fin" using c Cons.prems(2) by fastforce
    have "spans_set ?ms = spans_set ms - {?rs..<?re}" using c by (auto simp: spans_set_def)
    also have "\<dots> = spans_set ms - {a..<b}" using in_bounds False by auto
    finally have "spans_set ?ms = spans_set ms - {a..<b}" .
    moreover have "missing_loop st fin ms (r # received) = missing_loop st fin ?ms received"
      using False by (simp add: r Let_def)
    ultimately show ?thesis using Cons.IH [OF o l] by (auto simp: r)
  qed
qed simp

lemma missing_ranges_spans:
  assumes "st < fin"
  shows "spans_set (missing_ranges st fin received) = {st..<fin} - spans_set received"
    "spans_ordered (missing_ranges st fin received)"
    "\<forall>m\<in>set (missing_ranges st fin received). st \<le> fst m \<and> snd m \<le> fin"
  using missing_loop_spans [of "[(st, fin)]" st fin received] assms
  by (simp_all add: missing_ranges_def)

lemma chunk_bounds_closed:
  assumes "0 < c" and "fe_size f + c \<le> u64_max"
  shows "chunk_bounds f c 0 = Some (map (\<lambda>i. (i * c, min (i * c + c) (fe_size f))) [0..<plan_count c (fe_size f)])"
  using bounds_loop_append [OF assms, of 0 "[]"] by (simp add: chunk_bounds_def)

lemma chunk_spans:
  assumes "0 < c" and "sz + c \<le> u64_max"
  defines "bs \<equiv> map (\<lambda>i. (i * c, min (i * c + c) sz)) [0..<plan_count c sz]"
  shows "spans_ordered bs" "spans_set bs = {..<sz}"
proof -
  have i: "i * c < sz \<longleftrightarrow> i < plan_count c sz" for i
    using plan_count_offset [OF assms(1), of i sz] plan_count_step [OF assms(1), of i sz] by linarith
  have "i * c + c \<le> k * c" if "i < k" for i k
  proof -
    have "i * c + c = Suc i * c" by simp
    also have "\<dots> \<le> k * c" using that by (intro mult_le_mono1) simp
    finally show ?thesis .
  qed
  then have "sorted_wrt (\<lambda>a b. min (a * c + c) sz \<le> b * c) [0..<plan_count c sz]"
    by (intro sorted_wrt_mono_rel [OF _ sorted_wrt_upt]) (simp add: min.coboundedI1)
  then show "spans_ordered bs"
    using assms(1) i by (auto simp: spans_ordered_def bs_def sorted_wrt_map)
  have "k \<in> spans_set bs" if "k < sz" for k
  proof -
    have "k div c * c \<le> k" "k < k div c * c + c"
      using assms(1) dividend_less_div_times [of c k] by (simp_all add: add.commute)
    moreover have "k div c * c < sz" using \<open>k div c * c \<le> k\<close> that by (rule le_less_trans)
    then have "k div c < plan_count c sz" by (simp only: i)
    ultimately show ?thesis using that by (auto simp: spans_set_def bs_def intro!: bexI [of _ "k div c"])
  qed
  then show "spans_set bs = {..<sz}" by (auto simp: spans_set_def bs_def)
qed

lemma aligned_missing_spans:
  assumes "0 < c" and "fe_size f + c \<le> u64_max"
  shows "\<exists>ms. aligned_missing f c received = Some ms \<and> spans_ordered ms \<and>
    spans_set ms = {..<fe_size f} - spans_set received \<and>
    (\<forall>m\<in>set ms. \<exists>i. i * c \<le> fst m \<and> snd m \<le> min (i * c + c) (fe_size f))"
proof -
  let ?bs = "map (\<lambda>i. (i * c, min (i * c + c) (fe_size f))) [0..<plan_count c (fe_size f)]"
  let ?g = "\<lambda>m. missing_ranges (fst m) (snd m) received"
  note bs = chunk_spans [OF assms]
  have g: "spans_set (?g m) = {fst m..<snd m} - spans_set received \<and> spans_ordered (?g m) \<and>
      (\<forall>k\<in>set (?g m). fst m \<le> fst k \<and> snd k \<le> snd m)" if "m \<in> set ?bs" for m
    using missing_ranges_spans [OF spans_orderedD [OF bs(1) that], of received] by blast
  have a: "aligned_missing f c received = Some (concat (map ?g ?bs))"
    unfolding aligned_missing_def chunk_bounds_closed [OF assms] by (simp add: comp_def)
  have "spans_ordered (concat (map ?g ?bs))"
    by (rule spans_ordered_refine [OF bs(1)]) (use g in blast)
  moreover have "spans_set (concat (map ?g ?bs)) = (\<Union>m\<in>set ?bs. {fst m..<snd m} - spans_set received)"
    using g by (simp only: spans_set_simps set_map image_image) (intro SUP_cong refl, blast)
  then have "spans_set (concat (map ?g ?bs)) = {..<fe_size f} - spans_set received"
    using bs(2) by (auto simp: spans_set_def)
  moreover have "\<exists>i. i * c \<le> fst k \<and> snd k \<le> min (i * c + c) (fe_size f)"
    if "k \<in> set (concat (map ?g ?bs))" for k
  proof -
    from that obtain m where m: "m \<in> set ?bs" "k \<in> set (?g m)"
      unfolding set_concat set_map [of ?g] by blast
    then obtain i where "m = (i * c, min (i * c + c) (fe_size f))" by auto
    with g [OF m(1)] m(2) show ?thesis by auto
  qed
  ultimately show ?thesis using a by blast
qed

text \<open>
  C39: after a probe exactly the missing bytes are sent.  For a positive chunk size the scheduler's list
  of blocks covers every byte of the file that no received range covers, and no other; no byte is in
  two blocks; no block is empty or crosses a chunk boundary.
\<close>

theorem aligned_missing_exact:
  assumes "0 < c" and "fe_size f + c \<le> u64_max"
  shows "\<exists>ms. aligned_missing f c received = Some ms \<and>
    spans_set ms = {..<fe_size f} - spans_set received \<and>
    sum_list (map (\<lambda>m. snd m - fst m) ms) = card ({..<fe_size f} - spans_set received) \<and>
    (\<forall>m\<in>set ms. fst m < snd m \<and> (\<exists>i. i * c \<le> fst m \<and> snd m \<le> i * c + c))"
proof -
  obtain ms where ms: "aligned_missing f c received = Some ms" "spans_ordered ms"
    "spans_set ms = {..<fe_size f} - spans_set received"
    "\<forall>m\<in>set ms. \<exists>i. i * c \<le> fst m \<and> snd m \<le> min (i * c + c) (fe_size f)"
    using aligned_missing_spans [OF assms] by blast
  have "\<forall>m\<in>set ms. fst m < snd m \<and> (\<exists>i. i * c \<le> fst m \<and> snd m \<le> i * c + c)"
    using ms(2,4) by (fastforce simp: spans_ordered_def)
  then show ?thesis
    unfolding ms(3) [symmetric] using ms(1) spans_ordered_card [OF ms(2)] by blast
qed

subsection \<open>Covered bytes\<close>

lemma covered_loop_card:
  assumes "sorted (map fst rs)" and "\<forall>r\<in>set rs. fst r < snd r \<and> snd r \<le> m"
    and "case cur of None \<Rightarrow> True
         | Some (cs, ce) \<Rightarrow> cs < ce \<and> ce \<le> m \<and> (\<forall>r\<in>set rs. cs \<le> fst r)"
    and "finite A" "card A = acc" "A \<subseteq> {..<m}" "m \<le> u64_max"
    and "case cur of None \<Rightarrow> \<forall>r\<in>set rs. A \<inter> {fst r..} = {} | Some (cs, ce) \<Rightarrow> A \<inter> {cs..} = {}"
  shows "covered_loop acc cur rs =
    card (A \<union> (case cur of None \<Rightarrow> {} | Some (cs, ce) \<Rightarrow> {cs..<ce}) \<union> spans_set rs)"
  using assms
proof (induction acc cur rs arbitrary: A rule: covered_loop.induct)
  case (1 acc cur)
  show ?case
  proof (cases cur)
    case (Some c)
    obtain cs ce where c: "c = (cs, ce)" by force
    with 1 Some have d: "A \<inter> {cs..<ce} = {}" "cs < ce" "ce \<le> m" by auto
    have "card (A \<union> {cs..<ce}) = acc + (ce - cs)" using 1 d by (simp add: card_Un_disjoint)
    moreover have "card (A \<union> {cs..<ce}) \<le> card {..<m}" using 1 d by (intro card_mono) auto
    ultimately show ?thesis using 1(7) Some c by (simp add: sat_add_def)
  qed (use 1 in simp)
next
  case (2 acc s e rs)
  have "covered_loop acc (Some (s, e)) rs = card (A \<union> (case Some (s, e) of None \<Rightarrow> {} | Some (cs, ce) \<Rightarrow> {cs..<ce}) \<union> spans_set rs)"
    by (rule "2.IH") (use "2.prems" in auto)
  then show ?case by (simp add: Un_assoc)
next
  case (3 acc cs ce s e rs)
  show ?case
  proof (cases "s \<le> ce")
    case True
    then have "covered_loop acc (Some (cs, max ce e)) rs =
        card (A \<union> (case Some (cs, max ce e) of None \<Rightarrow> {} | Some (cs, ce) \<Rightarrow> {cs..<ce}) \<union> spans_set rs)"
      by (intro "3.IH"(1)) (use "3.prems" in auto)
    moreover have "{cs..<max ce e} = {cs..<ce} \<union> {s..<e}" using True "3.prems" by auto
    ultimately show ?thesis using True by (simp add: Un_assoc)
  next
    case False
    have d: "A \<inter> {cs..<ce} = {}" using "3.prems" by auto
    have cd: "card (A \<union> {cs..<ce}) = acc + (ce - cs)" using "3.prems" d by (simp add: card_Un_disjoint)
    moreover have "card (A \<union> {cs..<ce}) \<le> card {..<m}" using "3.prems" by (intro card_mono) auto
    ultimately have "sat_add acc (ce - cs) = card (A \<union> {cs..<ce})" using "3.prems"(7) by (simp add: sat_add_def)
    moreover have "covered_loop (sat_add acc (ce - cs)) (Some (s, e)) rs =
        card ((A \<union> {cs..<ce}) \<union> (case Some (s, e) of None \<Rightarrow> {} | Some (cs, ce) \<Rightarrow> {cs..<ce}) \<union> spans_set rs)"
      by (intro "3.IH"(2)) (use "3.prems" False calculation in auto)
    ultimately show ?thesis using False by (simp add: Un_assoc)
  qed
qed

lemma probe_covered_card:
  assumes "\<forall>r\<in>set received. max (fst r) (snd r) \<le> u64_max"
  shows "probe_covered received = card (spans_set (map (\<lambda>(s, e). (min s e, max s e)) received))"
proof -
  let ?f = "filter (\<lambda>(s, e). s < e) (map (\<lambda>(s, e). (min s e, max s e)) received)"
  let ?rs = "sort_key fst ?f"
  have "covered_loop 0 None ?rs = card ({} \<union> (case None of None \<Rightarrow> {} | Some (cs, ce) \<Rightarrow> {cs..<ce}) \<union> spans_set ?rs)"
    by (rule covered_loop_card [where m = u64_max]) (use assms in \<open>auto split: prod.splits\<close>)
  moreover have "spans_set ?rs = spans_set (map (\<lambda>(s, e). (min s e, max s e)) received)"
    by (auto simp: spans_set_def)
  ultimately show ?thesis by (simp add: probe_covered_def)
qed

text \<open>
  C40: the progress a resumed upload starts from is exact: the bytes counted are the number of distinct
  offsets in the received ranges, however they overlap, are ordered or are inverted.
\<close>

theorem probe_covered_exact:
  assumes "\<forall>r\<in>set received. max (fst r) (snd r) \<le> u64_max"
  shows "probe_covered received = card (spans_set (map (\<lambda>(s, e). (min s e, max s e)) received))"
  by (rule probe_covered_card [OF assms])

subsection \<open>Witnesses\<close>

theorem aligned_missing_exact_witness:
  "\<exists>ms. aligned_missing \<lparr> fe_path = ''f'', fe_size = 20, fe_mtime = 1 \<rparr> 4 [(0, 4), (8, 12)] = Some ms \<and>
    spans_set ms = {..<20} - ({0..<4} \<union> {8..<12})"
  using aligned_missing_exact [of 4 "\<lparr> fe_path = ''f'', fe_size = 20, fe_mtime = 1 \<rparr>" "[(0, 4), (8, 12)]"]
  by (auto simp: u64_max_def)

theorem probe_covered_exact_witness:
  "probe_covered [(0, 10), (15, 5)] = card {0..<15 :: nat}"
proof -
  have "spans_set (map (\<lambda>(s, e). (min s e, max s e)) [(0, 10), (15, 5)]) = {0..<15}"
    by (auto simp: min_def max_def)
  then show ?thesis using probe_covered_exact [of "[(0, 10), (15, 5)]"] by (simp add: u64_max_def)
qed

end
