(* ===== verification/Tune_Props.thy ===== *)
theory Tune_Props
  imports Tune_Engine
begin

text \<open>
  What the tuning engine keeps, whatever the server advertises and whatever is measured: bounded
  parameters in every reachable state, a ramp that ends, and what a settled result is reused for.
\<close>

named_theorems tune_dims \<open>the fields of the parameter table a ramp dimension stands for\<close>

subsection \<open>The clamps\<close>

lemma int_clamp_bounds: "mn \<le> mx \<Longrightarrow> mn \<le> int_clamp v mn mx \<and> int_clamp v mn mx \<le> mx"
  by (auto simp: int_clamp_def)

lemma bounded_bounds: "1 \<le> hard \<Longrightarrow> 1 \<le> bounded v r hard \<and> bounded v r hard \<le> hard"
  using int_clamp_bounds [of 1 hard "ir_min r"] by (auto simp: bounded_def Let_def int_clamp_def)

lemma floor_of_bounds: "1 \<le> hard \<Longrightarrow> 1 \<le> floor_of r hard \<and> floor_of r hard \<le> hard"
  using int_clamp_bounds [of 1 hard "ir_min r"] by (simp add: floor_of_def)

lemmas hard_defs = hard_max_concurrency_def hard_max_window_def hard_max_chunk_size_def

lemma as_u64_bounded:
  "1 \<le> as_u64 (bounded v r hard_max_concurrency) \<and> as_u64 (bounded v r hard_max_concurrency) \<le> 64"
  "1 \<le> as_u64 (bounded v r hard_max_window) \<and> as_u64 (bounded v r hard_max_window) \<le> 64"
  "1 \<le> as_u64 (bounded v r hard_max_chunk_size) \<and> as_u64 (bounded v r hard_max_chunk_size) \<le> 16777216"
  using bounded_bounds [of 64 v r] bounded_bounds [of 16777216 v r]
  by (auto simp: hard_defs as_u64_id)

lemma as_u64_floor_of:
  "1 \<le> as_u64 (floor_of r hard_max_concurrency) \<and> as_u64 (floor_of r hard_max_concurrency) \<le> 64"
  "1 \<le> as_u64 (floor_of r hard_max_window) \<and> as_u64 (floor_of r hard_max_window) \<le> 64"
  "1 \<le> as_u64 (floor_of r hard_max_chunk_size) \<and> as_u64 (floor_of r hard_max_chunk_size) \<le> 16777216"
  using floor_of_bounds [of 64 r] floor_of_bounds [of 16777216 r]
  by (auto simp: hard_defs as_u64_id)

subsection \<open>Well-formed parameter tables\<close>

definition dims_ok :: "tune_params \<Rightarrow> bool" where
  "dims_ok p \<longleftrightarrow>
     1 \<le> pm_concurrency p \<and> pm_concurrency p \<le> 64 \<and>
     1 \<le> pm_upload_window p \<and> pm_upload_window p \<le> 64 \<and>
     1 \<le> pm_download_window p \<and> pm_download_window p \<le> 64"

definition widest :: "tune_params \<Rightarrow> nat" where
  "widest p = pm_concurrency p * max (pm_upload_window p) (pm_download_window p)"

definition params_ok :: "tune_params \<Rightarrow> bool" where
  "params_ok p \<longleftrightarrow> dims_ok p \<and> 1 \<le> pm_chunk_size p \<and> pm_chunk_size p \<le> 16777216 \<and>
     widest p * pm_chunk_size p \<le> hard_max_in_flight_bytes"

lemma dims_ok_update [simp]:
  "dims_ok (p\<lparr> pm_chunk_size := c \<rparr>) = dims_ok p"
  "dims_ok (p\<lparr> pm_compress_level := l \<rparr>) = dims_ok p"
  "widest (p\<lparr> pm_chunk_size := c \<rparr>) = widest p"
  "widest (p\<lparr> pm_compress_level := l \<rparr>) = widest p"
  by (simp_all add: dims_ok_def widest_def)

lemma widest_bounds: "dims_ok p \<Longrightarrow> 1 \<le> widest p \<and> widest p \<le> 4096"
proof -
  assume p: "dims_ok p"
  have "widest p \<le> 64 * 64" unfolding widest_def using p by (intro mult_le_mono) (auto simp: dims_ok_def)
  moreover have "1 * 1 \<le> widest p" unfolding widest_def using p by (intro mult_le_mono) (auto simp: dims_ok_def)
  ultimately show ?thesis by simp
qed

lemma max_chunk_for_budget_ok:
  assumes "dims_ok p"
  shows "max_chunk_for_budget p = hard_max_in_flight_bytes div widest p"
    and "1 \<le> max_chunk_for_budget p" and "widest p * max_chunk_for_budget p \<le> hard_max_in_flight_bytes"
proof -
  note w = widest_bounds [OF assms]
  have "max (pm_concurrency p) 1 = pm_concurrency p"
    "max (max (pm_upload_window p) (pm_download_window p)) 1 = max (pm_upload_window p) (pm_download_window p)"
    using assms by (auto simp: dims_ok_def)
  then have d: "u64_mul (max (pm_concurrency p) 1) (max (max (pm_upload_window p) (pm_download_window p)) 1)
      = widest p" using w by (simp only: widest_def) (simp add: u64_mul_id widest_def)
  have "hard_max_in_flight_bytes div 4096 \<le> hard_max_in_flight_bytes div widest p"
    using w by (intro div_le_mono2) auto
  then have "1 \<le> hard_max_in_flight_bytes div widest p" by (simp add: hard_max_in_flight_bytes_def)
  with d show "max_chunk_for_budget p = hard_max_in_flight_bytes div widest p"
    "1 \<le> max_chunk_for_budget p" by (simp_all add: max_chunk_for_budget_def)
  then show "widest p * max_chunk_for_budget p \<le> hard_max_in_flight_bytes" by simp
qed

lemma enforce_budget_ok:
  assumes "dims_ok p" and "pm_chunk_size p \<le> 16777216"
  shows "params_ok (enforce_budget p)"
proof -
  let ?c = "min (max (pm_chunk_size p) 1) (max_chunk_for_budget p)"
  have "widest p * ?c \<le> widest p * max_chunk_for_budget p" by (intro mult_le_mono2) simp
  then have "widest p * ?c \<le> hard_max_in_flight_bytes"
    using max_chunk_for_budget_ok(3) [OF assms(1)] by (rule le_trans)
  moreover have "1 \<le> ?c" "?c \<le> 16777216" using max_chunk_for_budget_ok(2) [OF assms(1)] assms(2) by auto
  ultimately show ?thesis using assms(1) by (simp add: params_ok_def enforce_budget_def)
qed

lemma clamped_into_ok: "dims_ok (clamped_into p caps) \<and> pm_chunk_size (clamped_into p caps) \<le> 16777216"
  by (simp add: clamped_into_def dims_ok_def Let_def as_u64_bounded [simplified])

lemma from_caps_mins_ok: "dims_ok (from_caps_mins caps) \<and> pm_chunk_size (from_caps_mins caps) \<le> 16777216"
  by (simp add: from_caps_mins_def dims_ok_def Let_def as_u64_floor_of [simplified])

lemma chunk_for_link_le: "1 \<le> chunk_for_link m r b \<and> chunk_for_link m r b \<le> 16777216"
proof -
  let ?f = "as_u64 (max (floor_of r hard_max_chunk_size) 1)"
  have lim: "1 \<le> min (max x 1) (max b 1) \<and> min (max x 1) (max b 1) \<le> 16777216"
    if "x \<le> 16777216" for x :: nat using that by auto
  have "?f \<le> 16777216"
    using as_u64_floor_of(3) [of r] floor_of_bounds [of hard_max_chunk_size r]
    by (simp add: max_def hard_max_chunk_size_def as_u64_id)
  then have "1 \<le> max (min ?f (max b 1)) 1 \<and> max (min ?f (max b 1)) 1 \<le> 16777216" by simp
  with lim as_u64_bounded(3) show ?thesis
    unfolding chunk_for_link_def Let_def by (simp add: min_le_iff_disj split: if_split)
qed

lemma retune_chunk_size_ok: "params_ok p \<Longrightarrow> params_ok (retune_chunk_size m caps p)"
  using chunk_for_link_le [of m "lm_chunk_size (cap_limits caps)" "max_chunk_for_budget p"]
  by (auto simp: retune_chunk_size_def Let_def params_ok_def [of p] intro!: enforce_budget_ok)

lemma retune_chunk_size_dims:
  "get_dim d k (retune_chunk_size m caps p) = get_dim d k p"
  by (simp add: retune_chunk_size_def Let_def enforce_budget_def get_dim_def split: ramp_dim.splits transfer_kind.splits)

subsection \<open>Raising and halving\<close>

lemma get_dim_bounds: "dims_ok p \<Longrightarrow> 1 \<le> get_dim d k p \<and> get_dim d k p \<le> 64"
  by (simp add: dims_ok_def get_dim_def split: ramp_dim.splits transfer_kind.splits)

lemma get_put_dim [simp]: "get_dim d k (put_dim d k n p) = n"
  by (simp add: get_dim_def put_dim_def split: ramp_dim.splits transfer_kind.splits)

lemma put_dim_ok: "dims_ok p \<Longrightarrow> 1 \<le> n \<Longrightarrow> n \<le> 64 \<Longrightarrow> dims_ok (put_dim d k n p)"
  by (simp add: dims_ok_def put_dim_def split: ramp_dim.splits transfer_kind.splits)

lemma put_dim_chunk [simp]: "pm_chunk_size (put_dim d k n p) = pm_chunk_size p"
  by (simp add: put_dim_def split: ramp_dim.splits transfer_kind.splits)

lemma dim_value_id: "dims_ok (te_params e) \<Longrightarrow>
    dim_value e = int (get_dim (te_dim e) (te_direction e) (te_params e))"
  using get_dim_bounds [of "te_params e" "te_dim e" "te_direction e"] by (simp add: dim_value_def as_i64_id)

lemma dim_max_bounds: "1 \<le> dim_max caps e \<and> dim_max caps e \<le> 64"
  by (auto simp: dim_max_def Let_def hard_defs split: ramp_dim.splits)

lemma raise_step_up:
  assumes "1 \<le> v" and "v < mx" and "mx \<le> 64"
  shows "v < raise_step mx v \<and> raise_step mx v \<le> mx"
  using assms by (simp add: raise_step_def i64_wrap_id)

lemma halve_step_half: "1 \<le> v \<Longrightarrow> v \<le> 64 \<Longrightarrow> halve_step v = max 1 (v div 2)"
proof -
  assume v: "1 \<le> v" "v \<le> 64"
  then have b: "\<bar>v\<bar> < 2 ^ 53" by simp
  have x: "f64_of_rat (rat_of_int v) = Fin (rat_of_int v)"
    by (rule f64_exact [of _ v 0, OF _ b]) (simp_all add: pow2_def)
  have h: "f_mul (Fin (rat_of_int v)) degrade_factor = Fin (rat_of_int v / 2)"
    using f64_half [OF b] by (simp add: degrade_factor_def)
  have "\<lfloor>rat_of_int v / 2\<rfloor> = v div 2" using floor_divide_of_int_eq [of v 2] by simp
  then have "f_floor (Fin (rat_of_int v / 2)) = Fin (rat_of_int (v div 2))" by (simp add: f_floor_def)
  then have "halve_step v = f_to_i64 (f_max (Fin (rat_of_int (v div 2))) (Fin 1))"
    by (simp add: halve_step_def x h)
  moreover have "f_max (Fin (rat_of_int (v div 2))) (Fin 1) = Fin (rat_of_int (max 1 (v div 2)))"
    by (auto simp: f_max_def)
  moreover have "0 \<le> max 1 (v div 2)" "max 1 (v div 2) \<le> 64" using v by auto
  ultimately show ?thesis
    by (simp add: f_to_i64_def f_cast_def rat_trunc_def i64_max_def)
qed

subsection \<open>The engine's steps\<close>

text \<open>
  What a client does with its engine: configure it, start a transfer (the direction and the origin
  are set right before), feed samples, choose an upload's level, end the transfer.
\<close>

definition client_begin ::
  "'s tune_env \<Rightarrow> transfer_kind \<Rightarrow> string \<Rightarrow> capabilities \<Rightarrow> f64 \<Rightarrow> tune_params \<Rightarrow> 's tuning_engine \<Rightarrow>
   tune_params \<times> 's tuning_engine" where
  "client_begin v k url caps now sp e = begin_transfer v caps now sp (set_origin url (set_direction k e))"

inductive tune_step :: "'s tune_env \<Rightarrow> 's tuning_engine \<Rightarrow> 's tuning_engine \<Rightarrow> bool" for v where
  Step_cache: "tune_step v e (set_cache st ttl e)"
| Step_enabled: "tune_step v e (set_enabled b e)"
| Step_begin: "tune_step v e (snd (client_begin v k url caps now sp e))"
| Step_tick: "tune_step v e (snd (tick v now done_bytes rtt err e))"
| Step_level: "tune_step v e (snd (upload_compress_level zc clock caps sample mbps e))"
| Step_end: "tune_step v e (transfer_end v ok e)"

inductive_cases tune_stepE: "tune_step v e e2"

inductive tune_reach :: "'s tune_env \<Rightarrow> 's tuning_engine \<Rightarrow> bool" for v where
  Reach_new: "tune_reach v (engine_new enabled lvl)"
| Reach_step: "tune_reach v e \<Longrightarrow> tune_step v e e2 \<Longrightarrow> tune_reach v e2"

text \<open>What the bookkeeping of the store, the samples and the level leaves alone.\<close>

lemma save_cached_settle_fields [simp]:
  "te_params (save_cached_settle v now e) = te_params e" "te_phase (save_cached_settle v now e) = te_phase e"
  "te_dim (save_cached_settle v now e) = te_dim e" "te_low_gain (save_cached_settle v now e) = te_low_gain e"
  "te_direction (save_cached_settle v now e) = te_direction e" "te_caps (save_cached_settle v now e) = te_caps e"
  "te_degraded_windows (save_cached_settle v now e) = te_degraded_windows e"
  "te_post_degrade (save_cached_settle v now e) = te_post_degrade e"
  "te_enabled (save_cached_settle v now e) = te_enabled e"
  "te_settled (save_cached_settle v now e) = te_settled e"
  by (simp_all add: save_cached_settle_def Let_def split: option.splits)

lemma remove_cache_entry_fields [simp]:
  "te_params (remove_cache_entry v e) = te_params e" "te_phase (remove_cache_entry v e) = te_phase e"
  "te_dim (remove_cache_entry v e) = te_dim e" "te_low_gain (remove_cache_entry v e) = te_low_gain e"
  "te_direction (remove_cache_entry v e) = te_direction e" "te_caps (remove_cache_entry v e) = te_caps e"
  "te_degraded_windows (remove_cache_entry v e) = te_degraded_windows e"
  "te_post_degrade (remove_cache_entry v e) = te_post_degrade e"
  by (simp_all add: remove_cache_entry_def split: option.splits)

lemma note_fields [simp]:
  "te_params (note_rtt rtt e) = te_params e" "te_params (note_error er e) = te_params e"
  "te_phase (note_rtt rtt e) = te_phase e" "te_phase (note_error er e) = te_phase e"
  "te_dim (note_rtt rtt e) = te_dim e" "te_dim (note_error er e) = te_dim e"
  "te_low_gain (note_rtt rtt e) = te_low_gain e" "te_low_gain (note_error er e) = te_low_gain e"
  "te_direction (note_rtt rtt e) = te_direction e" "te_direction (note_error er e) = te_direction e"
  "te_caps (note_rtt rtt e) = te_caps e" "te_caps (note_error er e) = te_caps e"
  "te_degraded_windows (note_rtt rtt e) = te_degraded_windows e"
  "te_degraded_windows (note_error er e) = te_degraded_windows e"
  "te_post_degrade (note_rtt rtt e) = te_post_degrade e" "te_post_degrade (note_error er e) = te_post_degrade e"
  "te_enabled (note_rtt rtt e) = te_enabled e" "te_enabled (note_error er e) = te_enabled e"
  "te_window_start (note_rtt rtt e) = te_window_start e" "te_window_start (note_error er e) = te_window_start e"
  "te_window_errors (note_rtt rtt e) = te_window_errors e" "te_window_errors (note_error False e) = te_window_errors e"
  by (simp_all add: note_rtt_def note_error_def Let_def split: option.splits)

lemma note_stats_fields [simp]:
  "te_params (note_stats m e) = te_params e" "te_phase (note_stats m e) = te_phase e"
  "te_dim (note_stats m e) = te_dim e" "te_low_gain (note_stats m e) = te_low_gain e"
  "te_direction (note_stats m e) = te_direction e" "te_caps (note_stats m e) = te_caps e"
  "te_degraded_windows (note_stats m e) = te_degraded_windows e"
  "te_post_degrade (note_stats m e) = te_post_degrade e" "te_enabled (note_stats m e) = te_enabled e"
  "te_window_errors (note_stats m e) = te_window_errors e"
  by (simp_all add: note_stats_def)

lemma set_params_fields [simp]:
  "te_params (set_params p e) = p" "te_phase (set_params p e) = te_phase e"
  "te_dim (set_params p e) = te_dim e" "te_low_gain (set_params p e) = te_low_gain e"
  "te_direction (set_params p e) = te_direction e" "te_caps (set_params p e) = te_caps e"
  "te_degraded_windows (set_params p e) = te_degraded_windows e"
  "te_post_degrade (set_params p e) = te_post_degrade e" "te_enabled (set_params p e) = te_enabled e"
  "te_window_errors (set_params p e) = te_window_errors e"
  by (simp_all add: set_params_def)

lemma level_fields [simp]:
  "te_params (snd (upload_compress_level zc clock caps sample m e)) = te_params e"
  "te_phase (snd (upload_compress_level zc clock caps sample m e)) = te_phase e"
  "te_dim (snd (upload_compress_level zc clock caps sample m e)) = te_dim e"
  "te_low_gain (snd (upload_compress_level zc clock caps sample m e)) = te_low_gain e"
  "te_direction (snd (upload_compress_level zc clock caps sample m e)) = te_direction e"
  "te_caps (snd (upload_compress_level zc clock caps sample m e)) = te_caps e"
  "te_degraded_windows (snd (upload_compress_level zc clock caps sample m e)) = te_degraded_windows e"
  "te_post_degrade (snd (upload_compress_level zc clock caps sample m e)) = te_post_degrade e"
  by (simp_all add: upload_compress_level_def Let_def split: compress_level.splits)

lemma reusable_settle_fields:
  assumes "reusable_settle v now caps e = (r, e1)"
  shows "te_low_gain e1 = te_low_gain e" and "te_degraded_windows e1 = te_degraded_windows e"
    and "te_post_degrade e1 = te_post_degrade e" and "te_caps e1 = te_caps e"
    and "te_enabled e1 = te_enabled e"
  using assms
  by (auto simp: reusable_settle_def load_cached_settle_def Let_def split: if_splits option.splits)

subsection \<open>One window\<close>

lemma ramp_action_cases:
  assumes "ramp_action i = (act, low)" and "ri_low_gain_windows i \<le> 1"
  obtains (Degrade) "act = Degrade" "low = 0" "0 < ri_errors i"
  | (Settle) "act = Settle" "low \<le> 2" "ri_errors i = 0"
  | (Advance) "act = Advance_dim" "low = 0" "\<not> ri_last_dim i" "ri_errors i = 0"
      "ri_at_cap i \<or> \<not> ri_degraded i"
  | (Raise) "act = Raise" "low = 0" "\<not> ri_at_cap i" "ri_ramping i" "ri_errors i = 0"
  | (Hold) "act = Hold" "low = 1" "ri_low_gain_windows i = 0" "\<not> ri_at_cap i" "ri_errors i = 0"
proof -
  have "u32_add (ri_low_gain_windows i) 1 = Suc (ri_low_gain_windows i)" using assms(2) by (simp add: u32_add_def)
  then show ?thesis
    using assms that by (auto simp: ramp_action_def Let_def split: if_splits)
qed

lemma window_input_fields [simp]:
  "ri_low_gain_windows (window_input m caps e) = te_low_gain e"
  "ri_errors (window_input m caps e) = te_window_errors e"
  "ri_last_dim (window_input m caps e) = (te_dim e = Concurrency_dim)"
  "ri_at_cap (window_input m caps e) = dim_at_cap caps e"
  "ri_degraded (window_input m caps e) = (te_phase e = Degraded)"
  "ri_ramping (window_input m caps e) = (te_phase e = Ramping)"
  by (simp_all add: window_input_def Let_def)

lemma dim_at_cap_cong:
  assumes "te_dim e = te_dim f" and "te_direction e = te_direction f"
    and "get_dim (te_dim f) (te_direction f) (te_params e) = get_dim (te_dim f) (te_direction f) (te_params f)"
  shows "dim_at_cap caps e = dim_at_cap caps f"
  using assms by (simp add: dim_at_cap_def dim_value_def dim_max_def Let_def cong: ramp_dim.case_cong)

lemma raise_dim_up:
  assumes "dims_ok (te_params e)" and "\<not> dim_at_cap caps e"
  shows "\<exists>n. raise_dim caps e = e\<lparr> te_params := put_dim (te_dim e) (te_direction e) n (te_params e) \<rparr> \<and>
    get_dim (te_dim e) (te_direction e) (te_params e) < n \<and> n \<le> 64"
proof -
  let ?v = "get_dim (te_dim e) (te_direction e) (te_params e)"
  have v: "dim_value e = int ?v" by (rule dim_value_id [OF assms(1)])
  have b: "1 \<le> int ?v" "int ?v < dim_max caps e" "dim_max caps e \<le> 64"
    using get_dim_bounds [OF assms(1)] assms(2) dim_max_bounds [of caps e] v by (auto simp: dim_at_cap_def)
  from raise_step_up [OF this] b have r: "int ?v < raise_step (dim_max caps e) (int ?v)"
    "raise_step (dim_max caps e) (int ?v) \<le> 64" by auto
  then have "as_u64 (max (raise_step (dim_max caps e) (int ?v)) 1) = nat (raise_step (dim_max caps e) (int ?v))"
    using b by (simp add: as_u64_id max_def)
  with v r show ?thesis by (auto simp: raise_dim_def)
qed

lemma halve_dim_down:
  assumes "dims_ok (te_params e)"
  shows "halve_dim e = e\<lparr> te_params := put_dim (te_dim e) (te_direction e)
      (max 1 (get_dim (te_dim e) (te_direction e) (te_params e) div 2)) (te_params e) \<rparr>"
proof -
  let ?v = "get_dim (te_dim e) (te_direction e) (te_params e)"
  have "halve_step (dim_value e) = max 1 (int ?v div 2)"
    using get_dim_bounds [OF assms] dim_value_id [OF assms] by (simp add: halve_step_half)
  also have "\<dots> = int (max 1 (?v div 2))" by (simp add: zdiv_int)
  finally have "halve_step (dim_value e) = int (max 1 (?v div 2))" .
  moreover have "max 1 (?v div 2) \<le> 64" using get_dim_bounds [OF assms, of "te_dim e" "te_direction e"] by linarith
  then have "as_u64 (int (max 1 (?v div 2))) = max 1 (?v div 2)" by (subst as_u64_id) auto
  ultimately show ?thesis by (simp add: halve_dim_def)
qed

lemma put_smaller_ok:
  assumes p: "params_ok p" and n: "1 \<le> n" "n \<le> get_dim d k p"
  shows "params_ok (put_dim d k n p)"
proof -
  have d: "dims_ok (put_dim d k n p)"
    using p n get_dim_bounds [of p d k] by (intro put_dim_ok) (auto simp: params_ok_def)
  have "widest (put_dim d k n p) \<le> widest p"
    using n by (auto simp: widest_def put_dim_def get_dim_def intro!: mult_le_mono
        split: ramp_dim.splits transfer_kind.splits)
  then have "widest (put_dim d k n p) * pm_chunk_size p \<le> widest p * pm_chunk_size p" by (rule mult_le_mono1)
  moreover have "widest p * pm_chunk_size p \<le> hard_max_in_flight_bytes" using p by (simp add: params_ok_def)
  ultimately have "widest (put_dim d k n p) * pm_chunk_size p \<le> hard_max_in_flight_bytes" by (rule le_trans)
  with p d show ?thesis by (simp add: params_ok_def)
qed

definition engine_ok :: "'s tuning_engine \<Rightarrow> bool" where
  "engine_ok e \<longleftrightarrow> params_ok (te_params e) \<and> te_low_gain e \<le> 1 \<and> \<not> te_post_degrade e \<and>
     (te_phase e = Degraded \<longrightarrow> te_degraded_windows e = te_low_gain e \<and>
        (te_low_gain e = 1 \<longrightarrow> (\<exists>caps. te_caps e = Some caps \<and> \<not> dim_at_cap caps e)))"

lemma close_window_act:
  fixes e :: "'s tuning_engine"
  obtains e3 act low where
    "close_window v now d m caps e =
       (apply_action v now caps act e3)\<lparr> te_window_start := now, te_window_base := d, te_window_errors := 0 \<rparr>"
    "ramp_action (window_input m caps (set_params (retune_chunk_size m caps (te_params e)) (note_stats m e))) = (act, low)"
    "te_params e3 = retune_chunk_size m caps (te_params e)" "te_phase e3 = te_phase e" "te_dim e3 = te_dim e"
    "te_low_gain e3 = low" "te_direction e3 = te_direction e" "te_caps e3 = te_caps e"
    "te_degraded_windows e3 = te_degraded_windows e" "te_post_degrade e3 = te_post_degrade e"
    "te_enabled e3 = te_enabled e" "dim_at_cap caps e3 = dim_at_cap caps e"
proof -
  let ?e2 = "set_params (retune_chunk_size m caps (te_params e)) (note_stats m e)"
  obtain act low where a: "ramp_action (window_input m caps ?e2) = (act, low)" by force
  let ?e3 = "?e2\<lparr> te_low_gain := low, te_windows_closed := u32_add (te_windows_closed ?e2) 1,
                   te_prev_mbps := m \<rparr>"
  show ?thesis
    by (rule that [of act ?e3 low])
      (simp_all add: close_window_def Let_def a, rule dim_at_cap_cong, simp_all add: retune_chunk_size_dims)
qed

subsection \<open>The invariant of the engine\<close>

lemma apply_action_ok:
  assumes e: "params_ok (te_params e)" "\<not> te_post_degrade e" and c: "te_caps e = Some caps"
    and deg: "te_phase e = Degraded \<Longrightarrow> te_degraded_windows e = lgain \<and> (lgain = 1 \<longrightarrow> \<not> dim_at_cap caps e)"
    and act: "act = Degrade \<and> te_low_gain e = 0 \<or> act = Settle \<or>
      act = Advance_dim \<and> te_low_gain e = 0 \<and> (dim_at_cap caps e \<or> te_phase e \<noteq> Degraded) \<or>
      act = Raise \<and> te_low_gain e = 0 \<and> \<not> dim_at_cap caps e \<and> te_phase e = Ramping \<or>
      act = Hold \<and> te_low_gain e = 1 \<and> lgain = 0 \<and> \<not> dim_at_cap caps e"
    and lgain: "lgain \<le> 1"
  shows "engine_ok (apply_action v now caps act e)"
proof (cases act)
  case Raise
  with act have a: "te_low_gain e = 0" "\<not> dim_at_cap caps e" "te_phase e = Ramping" by auto
  from e have d: "dims_ok (te_params e)" "pm_chunk_size (te_params e) \<le> 16777216" by (auto simp: params_ok_def)
  from raise_dim_up [OF d(1) a(2)] get_dim_bounds [OF d(1)] d(1) obtain n where
    "raise_dim caps e = e\<lparr> te_params := put_dim (te_dim e) (te_direction e) n (te_params e) \<rparr>"
    "dims_ok (put_dim (te_dim e) (te_direction e) n (te_params e))"
    by (metis less_imp_le_nat le_trans put_dim_ok)
  with a d(2) e(2) Raise show ?thesis
    by (simp add: apply_action_def Let_def engine_ok_def enforce_budget_ok set_params_def)
next
  case Degrade
  have d: "dims_ok (te_params e)" using e by (simp add: params_ok_def)
  have "params_ok (put_dim (te_dim e) (te_direction e)
      (max 1 (get_dim (te_dim e) (te_direction e) (te_params e) div 2)) (te_params e))"
    using get_dim_bounds [OF d, of "te_dim e" "te_direction e"] e(1) by (intro put_smaller_ok) auto
  with Degrade e(2) show ?thesis by (simp add: apply_action_def halve_dim_down [OF d] engine_ok_def)
next
  case Advance_dim
  with act e deg lgain show ?thesis by (auto simp: apply_action_def engine_ok_def)
next
  case Settle
  with e show ?thesis by (auto simp: apply_action_def Let_def engine_ok_def)
next
  case Hold
  with act have h: "te_low_gain e = 1" "lgain = 0" "\<not> dim_at_cap caps e" by auto
  have "dim_at_cap caps (e\<lparr> te_degraded_windows := k \<rparr>) = dim_at_cap caps e" for k
    by (rule dim_at_cap_cong) simp_all
  with Hold h e c deg show ?thesis by (auto simp: apply_action_def Let_def engine_ok_def u32_add_def)
qed

lemma engine_ok_frame [simp]:
  "engine_ok (e\<lparr> te_window_start := a, te_window_base := b, te_window_errors := c \<rparr>) = engine_ok e"
  by (simp add: engine_ok_def dim_at_cap_def dim_value_def dim_max_def cong: ramp_dim.case_cong)

lemma close_window_ok:
  assumes e: "engine_ok e" and c: "te_caps e = Some caps"
  shows "engine_ok (close_window v now d m caps e)"
proof -
  obtain e3 act low where w: "close_window v now d m caps e =
      (apply_action v now caps act e3)\<lparr> te_window_start := now, te_window_base := d, te_window_errors := 0 \<rparr>"
    "ramp_action (window_input m caps (set_params (retune_chunk_size m caps (te_params e)) (note_stats m e))) = (act, low)"
    "te_params e3 = retune_chunk_size m caps (te_params e)" "te_phase e3 = te_phase e" "te_dim e3 = te_dim e"
    "te_low_gain e3 = low" "te_direction e3 = te_direction e" "te_caps e3 = te_caps e"
    "te_degraded_windows e3 = te_degraded_windows e" "te_post_degrade e3 = te_post_degrade e"
    "te_enabled e3 = te_enabled e" "dim_at_cap caps e3 = dim_at_cap caps e" by (rule close_window_act)
  let ?e2 = "set_params (retune_chunk_size m caps (te_params e)) (note_stats m e)"
  have cap: "dim_at_cap caps ?e2 = dim_at_cap caps e"
    by (rule dim_at_cap_cong) (simp_all add: retune_chunk_size_dims)
  have low: "ri_low_gain_windows (window_input m caps ?e2) \<le> 1" using e by (simp add: engine_ok_def)
  have "engine_ok (apply_action v now caps act e3)"
  proof (rule apply_action_ok [where lgain = "te_low_gain e"])
    show "params_ok (te_params e3)" using e w(3) by (simp add: engine_ok_def retune_chunk_size_ok)
    show "\<not> te_post_degrade e3" "te_caps e3 = Some caps" "te_low_gain e \<le> 1" using e w c by (simp_all add: engine_ok_def)
    show "te_degraded_windows e3 = te_low_gain e \<and> (te_low_gain e = 1 \<longrightarrow> \<not> dim_at_cap caps e3)"
      if "te_phase e3 = Degraded" using that e w c by (auto simp: engine_ok_def)
    show "act = Degrade \<and> te_low_gain e3 = 0 \<or> act = Settle \<or>
      act = Advance_dim \<and> te_low_gain e3 = 0 \<and> (dim_at_cap caps e3 \<or> te_phase e3 \<noteq> Degraded) \<or>
      act = Raise \<and> te_low_gain e3 = 0 \<and> \<not> dim_at_cap caps e3 \<and> te_phase e3 = Ramping \<or>
      act = Hold \<and> te_low_gain e3 = 1 \<and> te_low_gain e = 0 \<and> \<not> dim_at_cap caps e3"
      by (cases rule: ramp_action_cases [OF w(2) low]) (use w(4,6,12) cap in auto)
  qed
  then show ?thesis by (simp add: w(1))
qed

lemma engine_ok_cong:
  assumes "te_params f = te_params e" and "te_low_gain f = te_low_gain e" and "te_phase f = te_phase e"
    and "te_post_degrade f = te_post_degrade e" and "te_degraded_windows f = te_degraded_windows e"
    and "te_dim f = te_dim e" and "te_direction f = te_direction e" and "te_caps f = te_caps e"
  shows "engine_ok f = engine_ok e"
  using assms by (simp add: engine_ok_def dim_at_cap_def dim_value_def dim_max_def cong: ramp_dim.case_cong)

lemma tick_ok: "engine_ok e \<Longrightarrow> engine_ok (snd (tick v now d rtt err e))"
proof -
  assume e: "engine_ok e"
  let ?e1 = "note_rtt rtt (note_error err e)"
  have e1: "engine_ok ?e1" using e by (subst engine_ok_cong [of _ e]) simp_all
  then show ?thesis
    using close_window_ok [OF e1] by (auto simp: tick_def Let_def split: option.splits)
qed

lemma begin_transfer_ok: "engine_ok (snd (begin_transfer v caps now sp e))"
proof -
  let ?e = "begin_reset v caps now (pm_compress_level sp) e"
  have r: "te_low_gain ?e = 0" "\<not> te_post_degrade ?e" by (simp_all add: begin_reset_def)
  obtain o1 e1 where u: "reusable_settle v now caps ?e = (o1, e1)" by force
  from reusable_settle_fields [OF u] r have "te_low_gain e1 = 0" "\<not> te_post_degrade e1" by simp_all
  with u r show ?thesis
    using clamped_into_ok from_caps_mins_ok
    by (auto simp: begin_transfer_def Let_def engine_ok_def enforce_budget_ok split: option.splits)
qed

lemma tune_step_ok: "tune_step v e e2 \<Longrightarrow> engine_ok e \<Longrightarrow> engine_ok e2"
proof (induction rule: tune_step.induct)
  case (Step_end e ok)
  then show ?case by (auto simp: transfer_end_def engine_ok_def)
next
  case (Step_level e zc clock caps sample mbps)
  then show ?case by (subst engine_ok_cong [of _ e]) simp_all
next
  case (Step_begin e k url caps now sp)
  show ?case unfolding client_begin_def by (rule begin_transfer_ok)
next
  case (Step_tick e now d rtt err)
  then show ?case by (rule tick_ok)
qed (subst engine_ok_cong, simp_all add: set_cache_def set_enabled_def)+

lemma tune_reach_ok: "tune_reach v e \<Longrightarrow> engine_ok e"
proof (induction rule: tune_reach.induct)
  case (Reach_new enabled lvl)
  show ?case
    by (simp add: engine_new_def engine_ok_def params_ok_def dims_ok_def widest_def hard_max_in_flight_bytes_def)
qed (rule tune_step_ok)

text \<open>
  C17: whatever a server advertises (inverted or absurd ranges included), whatever a cache entry
  holds and whatever is measured, the live parameters of the engine stay inside the client's own
  ceilings: at least 1 and at most 64 files, windows and concurrent requests, chunks of at most
  16 MiB, and at most 256 MiB in flight in either direction, computed without wrap-around.
\<close>

theorem tuned_parameters_bounded:
  assumes "tune_reach v e"
  shows "let p = te_params e in
    pm_concurrency p \<in> {1..64} \<and> pm_upload_window p \<in> {1..64} \<and> pm_download_window p \<in> {1..64} \<and>
    pm_chunk_size p \<in> {1..16 * 1024 * 1024} \<and> params_request_budget p \<in> {1..64} \<and>
    upload_in_flight p = pm_concurrency p * pm_upload_window p * pm_chunk_size p \<and>
    download_in_flight p = pm_concurrency p * pm_download_window p * pm_chunk_size p \<and>
    upload_in_flight p \<le> 256 * 1024 * 1024 \<and> download_in_flight p \<le> 256 * 1024 * 1024"
proof -
  let ?p = "te_params e" and ?m = "hard_max_in_flight_bytes"
  have p: "params_ok ?p" using tune_reach_ok [OF assms] by (simp add: engine_ok_def)
  then have d: "dims_ok ?p" and c: "1 \<le> pm_chunk_size ?p" "pm_chunk_size ?p \<le> 16777216"
    and w: "widest ?p * pm_chunk_size ?p \<le> ?m" by (auto simp: params_ok_def)
  have m: "?m = 268435456" by (simp add: hard_max_in_flight_bytes_def)
  have flight: "u64_mul (u64_mul (pm_concurrency ?p) n) (pm_chunk_size ?p) = pm_concurrency ?p * n * pm_chunk_size ?p \<and>
      pm_concurrency ?p * n * pm_chunk_size ?p \<le> ?m"
    if n: "n \<le> max (pm_upload_window ?p) (pm_download_window ?p)" for n
  proof -
    have "pm_concurrency ?p * n \<le> widest ?p" unfolding widest_def using n by (rule mult_le_mono2)
    then have a: "pm_concurrency ?p * n * pm_chunk_size ?p \<le> widest ?p * pm_chunk_size ?p"
      by (rule mult_le_mono1)
    have b: "pm_concurrency ?p * n \<le> 4096"
      using \<open>pm_concurrency ?p * n \<le> widest ?p\<close> widest_bounds [OF d] by linarith
    from a w have "pm_concurrency ?p * n * pm_chunk_size ?p \<le> ?m" by (rule le_trans)
    with b m show ?thesis by (simp add: u64_mul_id)
  qed
  have "params_request_budget ?p \<in> {1..64}"
    by (auto simp: params_request_budget_def request_budget_def hard_max_in_flight_requests_def)
  with flight [of "pm_upload_window ?p"] flight [of "pm_download_window ?p"] d c m show ?thesis
    by (simp add: Let_def dims_ok_def upload_in_flight_def download_in_flight_def)
qed

text \<open>
  A ramp that was degraded by errors and then settles is remembered like any other: the halved
  parameters become the client's settled result and are offered to the next transfer.  The flag that
  is meant to exclude them (\<open>post_degrade_settle\<close>) is never set in a reachable state, because the
  second quiet window of the hold is already a settle.
\<close>

theorem degraded_settle_is_remembered:
  assumes "tune_reach v e" and "te_phase e = Degraded" and "tick v now d rtt err e = (ev, e2)"
    and "te_phase e2 = Settled"
  shows "te_settled e2 = Some (te_params e2) \<and> \<not> te_post_degrade e2"
proof -
  let ?e1 = "note_rtt rtt (note_error err e)"
  have ok: "engine_ok ?e1" using tune_reach_ok [OF assms(1)] by (subst engine_ok_cong [of _ e]) simp_all
  obtain caps where c: "te_caps e = Some caps"
    and t: "e2 = close_window v now d (window_mbps (f_sub now (te_window_start e)) d ?e1) caps ?e1"
    using assms(2-4) by (auto simp: tick_def Let_def split: if_splits option.splits)
  let ?m = "window_mbps (f_sub now (te_window_start e)) d ?e1"
  obtain e3 act low where w: "e2 =
      (apply_action v now caps act e3)\<lparr> te_window_start := now, te_window_base := d, te_window_errors := 0 \<rparr>"
    "ramp_action (window_input ?m caps (set_params (retune_chunk_size ?m caps (te_params ?e1)) (note_stats ?m ?e1))) = (act, low)"
    "te_phase e3 = Degraded" "te_degraded_windows e3 = te_degraded_windows ?e1" "te_post_degrade e3 = te_post_degrade ?e1"
    using close_window_act [of v now d ?m caps ?e1] t assms(2) by (metis note_fields(3,4))
  have pd: "\<not> te_post_degrade e3" and dw: "te_degraded_windows e3 = te_low_gain ?e1" "te_low_gain ?e1 \<le> 1"
    using ok w(4,5) assms(2) by (simp_all add: engine_ok_def)
  have low: "ri_low_gain_windows (window_input ?m caps (set_params (retune_chunk_size ?m caps (te_params ?e1))
      (note_stats ?m ?e1))) \<le> 1" using dw(2) by simp
  have "act = Settle"
  proof (cases rule: ramp_action_cases [OF w(2) low, case_names Degrade Settle Advance Raise Hold])
    case Hold
    with w(1,3) dw assms(4) show ?thesis by (simp add: apply_action_def Let_def u32_add_def)
  next
    case Raise
    with w(3) assms(2) show ?thesis by simp
  next
    case Advance
    with w(1,3) assms(4) show ?thesis by (simp add: apply_action_def)
  next
    case Degrade
    with w(1) assms(4) show ?thesis by (simp add: apply_action_def)
  qed simp
  with w(1,3) pd show ?thesis by (simp add: apply_action_def Let_def)
qed

subsection \<open>A ramp ends\<close>

text \<open>What is left of a ramp: the room of its dimension, twice, and the window it may hold.\<close>

definition ramp_room :: "'s tuning_engine \<Rightarrow> nat" where
  "ramp_room e = 2 * (64 - get_dim (te_dim e) (te_direction e) (te_params e)) + (1 - te_low_gain e) +
     (if te_dim e = Window_dim then 130 else 0)"

lemma ramp_room_bound: "ramp_room e \<le> 259"
proof -
  have "64 - get_dim (te_dim e) (te_direction e) (te_params e) \<le> 64" "1 - te_low_gain e \<le> 1" by simp_all
  then show ?thesis unfolding ramp_room_def by (cases "te_dim e = Window_dim") simp_all
qed

lemma close_window_progress:
  assumes e: "engine_ok e" and c: "te_caps e = Some caps" and err: "te_window_errors e = 0"
    and ph: "te_phase e = Ramping \<or> te_phase e = Settled"
  shows "te_phase (close_window v now d m caps e) = Settled \<or>
    te_phase e = Ramping \<and> te_phase (close_window v now d m caps e) = Ramping \<and>
    ramp_room (close_window v now d m caps e) < ramp_room e"
proof -
  obtain e3 act low where w: "close_window v now d m caps e =
      (apply_action v now caps act e3)\<lparr> te_window_start := now, te_window_base := d, te_window_errors := 0 \<rparr>"
    "ramp_action (window_input m caps (set_params (retune_chunk_size m caps (te_params e)) (note_stats m e))) = (act, low)"
    "te_params e3 = retune_chunk_size m caps (te_params e)" "te_phase e3 = te_phase e" "te_dim e3 = te_dim e"
    "te_low_gain e3 = low" "te_direction e3 = te_direction e" "te_caps e3 = te_caps e"
    "te_degraded_windows e3 = te_degraded_windows e" "te_post_degrade e3 = te_post_degrade e"
    "te_enabled e3 = te_enabled e" "dim_at_cap caps e3 = dim_at_cap caps e" by (rule close_window_act)
  let ?e2 = "set_params (retune_chunk_size m caps (te_params e)) (note_stats m e)"
  have cap: "dim_at_cap caps ?e2 = dim_at_cap caps e"
    by (rule dim_at_cap_cong) (simp_all add: retune_chunk_size_dims)
  have low: "ri_low_gain_windows (window_input m caps ?e2) \<le> 1" using e by (simp add: engine_ok_def)
  have d: "dims_ok (te_params e3)"
    using e w(3) retune_chunk_size_ok [of "te_params e" m caps] by (simp add: engine_ok_def params_ok_def)
  have dim: "get_dim k r (te_params e3) = get_dim k r (te_params e)" for k r
    by (simp add: w(3) retune_chunk_size_dims)
  have room: "ramp_room ((x :: 's tuning_engine)\<lparr> te_window_start := now, te_window_base := d2, te_window_errors := 0 \<rparr>)
      = ramp_room x" for x d2 by (simp add: ramp_room_def)
  show ?thesis
  proof (cases rule: ramp_action_cases [OF w(2) low, case_names Degrade Settle Advance Raise Hold])
    case Degrade
    with err show ?thesis by simp
  next
    case Settle
    then show ?thesis by (simp add: w(1) apply_action_def Let_def)
  next
    case Advance
    then have dm: "te_dim e = Window_dim" "te_dim e3 = Window_dim" using w(5) by (cases "te_dim e"; simp)+
    have "2 * (64 - get_dim Concurrency_dim (te_direction e3) (te_params e3)) + (1 - te_low_gain e3) < 130"
      using get_dim_bounds [OF d, of Concurrency_dim "te_direction e3"] Advance(2) w(6) by simp
    then have "ramp_room (apply_action v now caps act e3) < ramp_room e"
      using Advance dm by (simp add: apply_action_def ramp_room_def next_dim_def)
    with Advance w(4) ph show ?thesis by (auto simp: w(1) room apply_action_def)
  next
    case Hold
    with w(4-7) ph dim show ?thesis by (auto simp: w(1) apply_action_def ramp_room_def)
  next
    case Raise
    then have up: "\<not> dim_at_cap caps e3" using cap w(12) by simp
    from raise_dim_up [OF d this] obtain n where n:
      "raise_dim caps e3 = e3\<lparr> te_params := put_dim (te_dim e3) (te_direction e3) n (te_params e3) \<rparr>"
      "get_dim (te_dim e3) (te_direction e3) (te_params e3) < n" "n \<le> 64" by blast
    have "get_dim k r (enforce_budget q) = get_dim k r q" for k r q
      by (simp add: enforce_budget_def get_dim_def split: ramp_dim.splits transfer_kind.splits)
    then have "ramp_room (apply_action v now caps act e3) =
        2 * (64 - n) + (1 - low) + (if te_dim e3 = Window_dim then 130 else 0)"
      using Raise w(4,6) by (simp add: apply_action_def Let_def n(1) ramp_room_def set_params_def)
    moreover have "te_phase (apply_action v now caps act e3) = Ramping"
      using Raise w(4) by (simp add: apply_action_def Let_def n(1) set_params_def)
    ultimately show ?thesis
      using Raise w(4-7) n(2,3) dim by (simp add: w(1) room ramp_room_def)
  qed
qed

text \<open>Calls of \<open>tick\<close> without an error, each of which closes a window.\<close>

type_synonym sample = "f64 \<times> nat \<times> f64 option"

fun quiet_ticks :: "'s tune_env \<Rightarrow> sample list \<Rightarrow> 's tuning_engine \<Rightarrow> 's tuning_engine" where
  "quiet_ticks v [] e = e"
| "quiet_ticks v ((now, d, rtt) # ts) e = quiet_ticks v ts (snd (tick v now d rtt False e))"

fun windows_close :: "f64 \<Rightarrow> sample list \<Rightarrow> bool" where
  "windows_close start [] = True"
| "windows_close start ((now, _) # ts) \<longleftrightarrow>
     \<not> f_less (f_sub now start) tune_window_ms \<and> windows_close now ts"

definition ramp_live :: "'s tuning_engine \<Rightarrow> bool" where
  "ramp_live e \<longleftrightarrow> engine_ok e \<and> te_enabled e \<and> te_caps e \<noteq> None \<and> te_window_errors e = 0 \<and>
     (te_phase e = Ramping \<or> te_phase e = Settled)"

lemma close_window_frame [simp]:
  "te_enabled (close_window v now d m caps e) = te_enabled e"
  "te_caps (close_window v now d m caps e) = te_caps e"
  "te_window_start (close_window v now d m caps e) = now"
  "te_window_errors (close_window v now d m caps e) = 0"
  by (rule close_window_act [of v now d m caps e];
      simp add: apply_action_def raise_dim_def halve_dim_def set_params_def Let_def split: ramp_act.split)+

lemma tick_live:
  assumes e: "ramp_live e" and cl: "\<not> f_less (f_sub now (te_window_start e)) tune_window_ms"
  shows "let e2 = snd (tick v now d rtt False e) in ramp_live e2 \<and> te_window_start e2 = now \<and>
    (te_phase e2 = Settled \<or> te_phase e = Ramping \<and> ramp_room e2 < ramp_room e)"
proof -
  let ?e1 = "note_rtt rtt (note_error False e)"
  have o1: "engine_ok ?e1" using e by (subst engine_ok_cong [of _ e]) (simp_all add: ramp_live_def)
  obtain caps where c: "te_caps ?e1 = Some caps" using e by (auto simp: ramp_live_def)
  let ?e2 = "close_window v now d (window_mbps (f_sub now (te_window_start e)) d ?e1) caps ?e1"
  have t: "snd (tick v now d rtt False e) = ?e2"
    using cl c e by (simp add: tick_def Let_def ramp_live_def)
  have "ramp_room ?e1 = ramp_room e" by (simp add: ramp_room_def)
  with close_window_progress [OF o1 c, of v now d] close_window_ok [OF o1 c, of v now d] e c show ?thesis
    unfolding t by (auto simp: Let_def ramp_live_def)
qed

lemma quiet_ticks_settle:
  assumes "ramp_live e" and "windows_close (te_window_start e) ts"
    and "te_phase e = Settled \<or> ramp_room e < length ts"
  shows "te_phase (quiet_ticks v ts e) = Settled"
  using assms
proof (induction ts arbitrary: e)
  case (Cons t ts)
  obtain now d rtt where t: "t = (now, d, rtt)" by (metis prod_cases3)
  have "let e2 = snd (tick v now d rtt False e) in ramp_live e2 \<and> te_window_start e2 = now \<and>
      (te_phase e2 = Settled \<or> te_phase e = Ramping \<and> ramp_room e2 < ramp_room e)"
    using Cons.prems t by (intro tick_live) simp_all
  with Cons.prems t show ?case by (auto simp: Let_def intro!: Cons.IH)
qed simp

lemma begin_live:
  assumes "te_enabled e"
  shows "ramp_live (snd (client_begin v k url caps now sp e)) \<and>
    te_window_start (snd (client_begin v k url caps now sp e)) = now"
proof -
  let ?e = "begin_reset v caps now (pm_compress_level sp) (set_origin url (set_direction k e))"
  have en: "te_enabled ?e" using assms by (simp add: begin_reset_def set_origin_def set_direction_def)
  obtain o1 e1 where u: "reusable_settle v now caps ?e = (o1, e1)" by force
  then have "te_window_start e1 = te_window_start ?e \<and> te_window_errors e1 = te_window_errors ?e"
    by (auto simp: reusable_settle_def load_cached_settle_def Let_def split: if_splits option.splits)
  moreover have "te_window_start ?e = now \<and> te_window_errors ?e = 0 \<and> te_caps ?e = Some caps"
    by (simp add: begin_reset_def)
  ultimately have f: "te_window_start e1 = now" "te_window_errors e1 = 0" "te_caps e1 = Some caps" "te_enabled e1"
    using reusable_settle_fields [OF u] en by auto
  with u en begin_transfer_ok [of v caps now sp "set_origin url (set_direction k e)"] show ?thesis
    by (auto simp: client_begin_def begin_transfer_def Let_def ramp_live_def set_params_def split: option.splits)
qed

text \<open>
  C18: a ramp ends.  After a transfer starts with tuning on, 260 windows without an error settle the
  engine, whatever throughput and latency they measure, and it stays settled.
\<close>

theorem ramp_settles:
  assumes "te_enabled e" and "windows_close now ts" and "260 \<le> length ts"
  shows "te_phase (quiet_ticks v ts (snd (client_begin v k url caps now sp e))) = Settled"
  using begin_live [OF assms(1), of v k url caps now sp] assms(2,3)
    ramp_room_bound [of "snd (client_begin v k url caps now sp e)"]
  by (intro quiet_ticks_settle) auto

subsection \<open>The cache\<close>

text \<open>
  C37: a settled result that was saved is found again by an engine for the same origin and direction
  exactly while it is fresh: the advertisement hashes to the value it was measured against and its
  age is between zero and the lifetime.  Then the saved parameters come back with the engine's own
  compression level; otherwise nothing is reused.
\<close>

theorem cached_settle_reused:
  assumes "\<forall>s k x. env_get v (env_set v s k x) k = Some x"
    and "\<forall>c. \<exists>j. env_to_json v c = Some j \<and> env_from_json v j = Some c"
    and "cache_key e1 \<noteq> None" and "te_cache_ttl e2 \<noteq> 0"
    and "te_store e2 = te_store (save_cached_settle v now0 e1)"
    and "te_origin e2 = te_origin e1" and "te_direction e2 = te_direction e1"
  shows "fst (load_cached_settle v now1 caps e2) =
    (let saved = (if f_less (Fin 0) now0 then f_to_u64 now0 else 0); aged = f_sub now1 (f_of_nat saved) in
     if te_caps_hash e1 = env_hash v caps \<and> f_le (Fin 0) aged \<and> f_le aged (f_of_nat (te_cache_ttl e2))
     then Some ((te_params e1)\<lparr> pm_compress_level := te_policy_level e2 \<rparr>) else None)"
proof -
  let ?entry = "\<lparr> tn_v = tune_cache_version, tn_caps_hash = te_caps_hash e1,
    tn_saved_at_ms = (if f_less (Fin 0) now0 then f_to_u64 now0 else 0), tn_params = cache_of (te_params e1) \<rparr>"
  obtain j where j: "env_to_json v ?entry = Some j" "env_from_json v j = Some ?entry" using assms(2) by blast
  obtain st where st: "te_store e1 = Some st" using assms(3) by (auto simp: cache_key_def split: if_splits)
  let ?k = "tune_key (te_origin e1) (te_direction e1)"
  have k: "cache_key e1 = Some ?k" using assms(3) by (simp add: cache_key_def split: if_splits)
  then have "te_store e2 = Some (env_set v st ?k j)" using assms(5) st j(1) by (simp add: save_cached_settle_def)
  moreover from this k assms(4,6,7) have "cache_key e2 = Some ?k" by (simp add: cache_key_def split: if_splits)
  moreover have "into_params (cache_of (te_params e1)) l = (te_params e1)\<lparr> pm_compress_level := l \<rparr>" for l
    by (simp add: into_params_def cache_of_def)
  ultimately show ?thesis using assms(1) j(2) by (simp add: load_cached_settle_def Let_def)
qed

subsection \<open>The compression level\<close>

lemma best_level_mem: "fst (best_level b u best cs) \<in> insert (fst best) (fst ` set cs)"
  by (induction b u best cs rule: best_level.induct) (auto simp: Let_def split: if_splits)

lemma choose_auto_level_mem:
  assumes "cs \<noteq> []"
  shows "choose_auto_level cs u m \<in> fst ` set cs"
proof -
  have "Min (set (map fst cs)) \<in> set (map fst cs)" using assms by (intro Min_in) auto
  moreover have "fst (best_level b u (fst (hd cs), x) cs) \<in> fst ` set cs" for b x
    using best_level_mem [of b u "(fst (hd cs), x)" cs] assms by auto
  ultimately show ?thesis using assms by (simp add: choose_auto_level_def Let_def)
qed

text \<open>
  The level an upload compresses with is one the server advertises: for an advertisement whose
  default lies in its range, whatever the policy (a fixed level outside the range included), the
  sample, the timings of the benchmark and the link speed.
\<close>

theorem upload_level_advertised:
  assumes "zl_min (cc_zrip_levels (cap_compression caps)) \<le> zl_default (cc_zrip_levels (cap_compression caps))"
    and "zl_default (cc_zrip_levels (cap_compression caps)) \<le> zl_max (cc_zrip_levels (cap_compression caps))"
    and "\<not> te_auto_benchmarked e"
  shows "zrip_levels_contains (cc_zrip_levels (cap_compression caps))
    (fst (upload_compress_level zc clock caps sample mbps e))"
proof -
  let ?z = "cc_zrip_levels (cap_compression caps)"
  have b: "choose_auto_level (benchmark_levels zc clock s (auto_candidates caps)) n m \<in>
      {zl_min ?z, zl_default ?z, zl_max ?z}" for s n m
  proof -
    have "map fst (benchmark_levels zc clock s (auto_candidates caps)) = auto_candidates caps"
      by (simp add: benchmark_levels_def Let_def auto_candidates_def numeral_3_eq_3 upt_rec)
    moreover from this have "benchmark_levels zc clock s (auto_candidates caps) \<noteq> []"
      by (auto simp: auto_candidates_def Let_def)
    ultimately show ?thesis
      using choose_auto_level_mem [of "benchmark_levels zc clock s (auto_candidates caps)" n m]
      by (metis auto_candidates_def empty_set list.set(2) set_map)
  qed
  have c: "zrip_levels_contains ?z l" if "l \<in> {zl_min ?z, zl_default ?z, zl_max ?z}" for l
    using that assms(1,2) by (auto simp: zrip_levels_contains_def)
  show ?thesis
  proof (cases "te_level_cfg e")
    case Lv_Auto
    with b assms(3) c show ?thesis
      by (auto simp: upload_compress_level_def Let_def split: option.splits)
  next
    case (Lv_Fixed l)
    with assms(1,2) show ?thesis
      by (auto simp: upload_compress_level_def resolve_level_def Let_def zrip_clamp_level_def int_clamp_def
          zrip_levels_contains_def)
  qed (use c in \<open>simp_all add: upload_compress_level_def resolve_level_def Let_def\<close>)
qed

subsection \<open>Witnesses\<close>

text \<open>An environment with an association list as the store and one cache entry in its codec.\<close>

definition demo_entry :: tune_cache where
  "demo_entry = \<lparr> tn_v = 1, tn_caps_hash = ''h'', tn_saved_at_ms = 0,
     tn_params = \<lparr> tc_concurrency = 2, tc_upload_window = 3, tc_download_window = 4, tc_chunk_size = 5 \<rparr> \<rparr>"

definition demo_env :: "(string \<rightharpoonup> string) tune_env" where
  "demo_env =
     \<lparr> env_get = (\<lambda>s k. s k), env_set = (\<lambda>s k x. s(k \<mapsto> x)), env_remove = (\<lambda>s k. s(k := None)),
       env_to_json = (\<lambda>_. Some ''{}''), env_from_json = (\<lambda>_. Some demo_entry), env_hash = (\<lambda>_. ''h'') \<rparr>"

text \<open>A server that advertises an absurd concurrency and an inverted chunk range.\<close>

definition hostile_caps :: capabilities where
  "hostile_caps = capabilities_default\<lparr> cap_limits := limits_default
     \<lparr> lm_concurrency := \<lparr> ir_default = 5, ir_max = 2000000, ir_min = 1000000 \<rparr>,
       lm_chunk_size := \<lparr> ir_default = 5, ir_max = 1, ir_min = 2 ^ 40 \<rparr> \<rparr> \<rparr>"

definition demo_params :: tune_params where
  "demo_params = \<lparr> pm_concurrency = 4, pm_upload_window = 8, pm_download_window = 4,
     pm_chunk_size = 2 ^ 21, pm_compress_level = 1 \<rparr>"

definition demo_started :: "(string \<rightharpoonup> string) tuning_engine" where
  "demo_started = snd (client_begin demo_env Upload_kind ''http://h'' hostile_caps (Fin 0) demo_params
     (engine_new True Lv_Balanced))"

lemma demo_reach: "tune_reach demo_env demo_started"
  unfolding demo_started_def by (rule Reach_step [OF Reach_new Step_begin])

theorem tuned_parameters_bounded_witness:
  "te_phase demo_started = Ramping \<and> pm_concurrency (te_params demo_started) = 64 \<and>
   upload_in_flight (te_params demo_started) \<le> 256 * 1024 * 1024"
proof -
  have "te_phase demo_started = Ramping" "pm_concurrency (te_params demo_started) = 64"
    by (simp_all add: demo_started_def client_begin_def begin_transfer_def reusable_settle_def begin_reset_def
        load_cached_settle_def cache_key_def set_origin_def set_direction_def engine_new_def Let_def
        set_params_def enforce_budget_def from_caps_mins_def floor_of_def hostile_caps_def hard_defs
        int_clamp_def as_u64_def)
  moreover have "upload_in_flight (te_params demo_started) \<le> 256 * 1024 * 1024"
    using tuned_parameters_bounded [OF demo_reach] unfolding Let_def by (elim conjE)
  ultimately show ?thesis by simp
qed

fun second_ticks :: "nat \<Rightarrow> nat \<Rightarrow> sample list" where
  "second_ticks n 0 = []"
| "second_ticks n (Suc k) = (Fin (of_nat (1000 * Suc n)), n, None) # second_ticks (Suc n) k"

lemma second_ticks_close: "windows_close (Fin (of_nat (1000 * n))) (second_ticks n k)"
proof (induction k arbitrary: n)
  case (Suc k)
  have "f64_of_rat 1000 = Fin 1000" by (rule f64_exact [of _ 1000 0]) (simp_all add: pow2_def)
  then have "f_sub (Fin (of_nat (1000 * Suc n))) (Fin (of_nat (1000 * n))) = Fin 1000"
    by (simp add: f_sub_def algebra_simps)
  with Suc [of "Suc n"] show ?case
    by (simp only: second_ticks.simps windows_close.simps tune_window_ms_def f_less.simps) simp
qed simp

lemma length_second_ticks [simp]: "length (second_ticks n k) = k"
  by (induction k arbitrary: n) simp_all

theorem ramp_settles_witness:
  "te_phase (quiet_ticks demo_env (second_ticks 0 260)
     (snd (client_begin demo_env Upload_kind ''http://h'' hostile_caps (Fin (of_nat (1000 * 0))) demo_params
       (engine_new True Lv_Balanced)))) = Settled"
  by (rule ramp_settles [OF _ second_ticks_close]) (simp_all add: engine_new_def)

theorem upload_level_advertised_witness:
  "zrip_levels_contains (cc_zrip_levels (cap_compression hostile_caps))
     (fst (upload_compress_level (\<lambda>_ _. None) (\<lambda>_. Fin 0) hostile_caps (Some [1]) FNaN
       (engine_new True (Lv_Fixed 1000))))"
  by (rule upload_level_advertised)
    (simp_all add: hostile_caps_def capabilities_default_def compression_caps_default_def
      zrip_levels_default_def zrip_default_level_def zrip_min_level_def zrip_max_level_def engine_new_def)

lemma f64_small: "f64_of_rat 0 = Fin 0" "f64_of_rat 1000 = Fin 1000" 
  using f64_exact [of 0 0 0] f64_exact [of 1000 1000 0] by (simp_all add: pow2_def)

definition demo_ramping :: "(string \<rightharpoonup> string) tuning_engine" where
  "demo_ramping = snd (client_begin demo_env Upload_kind [] capabilities_default (Fin 0) demo_params
     (engine_new True Lv_Balanced))"

definition demo_table :: tune_params where
  "demo_table = \<lparr> pm_concurrency = 1, pm_upload_window = 1, pm_download_window = 1,
     pm_chunk_size = 262144, pm_compress_level = 1 \<rparr>"

lemma demo_mins: "enforce_budget ((from_caps_mins capabilities_default)\<lparr> pm_compress_level := 1 \<rparr>) = demo_table"
  by (simp add: enforce_budget_def max_chunk_for_budget_def u64_mul_def from_caps_mins_def floor_of_def
      capabilities_default_def limits_default_def int_clamp_def as_u64_def hard_defs
      hard_max_in_flight_bytes_def Let_def demo_table_def)

lemma demo_retune: "retune_chunk_size (Fin 0) capabilities_default demo_table = demo_table"
  by (simp add: retune_chunk_size_def demo_table_def capabilities_default_def limits_default_def
      chunk_for_link_def floor_of_def int_clamp_def hard_defs as_u64_def f_is_finite_def f_le_def
      max_chunk_for_budget_def hard_max_in_flight_bytes_def u64_mul_def sat_mul_def u64_max_def Let_def)

lemma demo_rt: "f_less rtt_inflate_threshold (Fin 0) = False"
  using f64_of_rat_nonneg [of "30 / 100"] by (simp add: rtt_inflate_threshold_def f_lit_def)

lemma demo_engine:
  "demo_ramping = (engine_new True Lv_Balanced)\<lparr> te_direction := Upload_kind, te_caps := Some capabilities_default,
     te_caps_hash := ''h'', te_params := demo_table, te_phase := Ramping, te_policy_level := 1 \<rparr>"
  by (simp add: demo_ramping_def client_begin_def begin_transfer_def reusable_settle_def begin_reset_def
      load_cached_settle_def cache_key_def set_origin_def set_direction_def engine_new_def Let_def
      set_params_def demo_mins demo_params_def demo_env_def origin_of_def split_scheme.simps)

lemmas demo_tick = tick_def close_window_def note_rtt_def note_error_def note_stats_def set_params_def
  apply_action_def halve_dim_def get_dim_def put_dim_def dim_value_def as_i64_def i64_wrap_id halve_step_half
  as_u64_id window_input_def Let_def window_mbps_def u32_add_def ramp_action_def tune_window_ms_def f_sub_def
  demo_retune f_of_nat_def f64_small

lemma demo_halve: "as_u64 (halve_step (i64_wrap 1)) = 1"
  by (simp add: i64_wrap_id halve_step_half as_u64_id)

definition demo_degraded :: "(string \<rightharpoonup> string) tuning_engine" where
  "demo_degraded = snd (tick demo_env (Fin 1000) 0 None True demo_ramping)"

lemma demo_degraded_eq:
  "demo_degraded = demo_ramping\<lparr> te_phase := Degraded, te_window_start := Fin 1000, te_windows_closed := 1 \<rparr>"
  by (simp add: demo_degraded_def demo_engine engine_new_def demo_tick demo_table_def [symmetric])
    (simp add: demo_table_def demo_halve)

lemma demo_width: "pm_upload_window demo_table = 1" "i64_wrap 1 = 1"
  "ir_max (lm_upload_window (cap_limits capabilities_default)) = 8"
  by (simp_all add: demo_table_def i64_wrap_id capabilities_default_def limits_default_def)

definition demo_held :: "(string \<rightharpoonup> string) tuning_engine" where
  "demo_held = snd (tick demo_env (Fin 2000) 0 None False demo_degraded)"

lemma demo_held_eq:
  "demo_held = demo_ramping\<lparr> te_phase := Degraded, te_window_start := Fin 2000, te_windows_closed := 2,
     te_low_gain := 1, te_degraded_windows := 1 \<rparr>"
  by (simp add: demo_held_def demo_degraded_eq demo_engine engine_new_def demo_tick demo_rt dim_at_cap_def
      dim_max_def demo_width hard_max_window_def)

lemma demo_held_settles: "te_phase (snd (tick demo_env (Fin 3000) 0 None False demo_held)) = Settled"
  by (simp add: demo_held_eq demo_engine engine_new_def demo_tick demo_rt dim_at_cap_def
      dim_max_def demo_width hard_max_window_def)

theorem degraded_settle_is_remembered_witness:
  "te_phase demo_held = Degraded \<and>
   te_settled (snd (tick demo_env (Fin 3000) 0 None False demo_held)) =
     Some (te_params (snd (tick demo_env (Fin 3000) 0 None False demo_held)))"
proof -
  have r0: "tune_reach demo_env demo_ramping"
    unfolding demo_ramping_def by (rule Reach_step [OF Reach_new Step_begin])
  have r: "tune_reach demo_env demo_held"
    unfolding demo_held_def demo_degraded_def by (rule Reach_step [OF Reach_step [OF r0 Step_tick] Step_tick])
  have p: "te_phase demo_held = Degraded" by (simp add: demo_held_eq)
  obtain ev e2 where t: "tick demo_env (Fin 3000) 0 None False demo_held = (ev, e2)" by force
  with degraded_settle_is_remembered [OF r p t] demo_held_settles p show ?thesis by simp
qed

text \<open>A codec of cache entries: the numbers in unary, then the hash.\<close>

definition unary :: "nat list \<Rightarrow> string" where
  "unary ns = concat (map (\<lambda>n. replicate n CHR ''1'' @ '','') ns)"

fun unary_split :: "nat \<Rightarrow> string \<Rightarrow> nat list \<times> string" where
  "unary_split 0 s = ([], s)"
| "unary_split (Suc k) s =
     (let n = length (takeWhile (\<lambda>c. c = CHR ''1'') s); (ns, r) = unary_split k (drop (Suc n) s) in (n # ns, r))"

lemma unary_split_unary: "unary_split (length ns) (unary ns @ r) = (ns, r)"
proof (induction ns)
  case (Cons n ns)
  have "takeWhile (\<lambda>c. c = CHR ''1'') (replicate n CHR ''1'' @ CHR '','' # t) = replicate n CHR ''1''" for t
    by (induction n) simp_all
  with Cons show ?case by (simp add: unary_def)
qed (simp add: unary_def)

definition unary_env :: "(string \<rightharpoonup> string) tune_env" where
  "unary_env = demo_env\<lparr>
     env_to_json := (\<lambda>c. let p = tn_params c in Some (unary [tn_v c, tn_saved_at_ms c, tc_concurrency p,
       tc_upload_window p, tc_download_window p, tc_chunk_size p] @ tn_caps_hash c)),
     env_from_json := (\<lambda>s. case unary_split 6 s of
         ([v, t, a, b, c, d], h) \<Rightarrow> Some \<lparr> tn_v = v, tn_caps_hash = h, tn_saved_at_ms = t,
           tn_params = \<lparr> tc_concurrency = a, tc_upload_window = b, tc_download_window = c, tc_chunk_size = d \<rparr> \<rparr>
       | _ \<Rightarrow> None) \<rparr>"

lemma unary_env_json: "\<forall>c. \<exists>j. env_to_json unary_env c = Some j \<and> env_from_json unary_env j = Some c"
proof (rule allI)
  fix c :: tune_cache
  let ?p = "tn_params c"
  let ?ns = "[tn_v c, tn_saved_at_ms c, tc_concurrency ?p, tc_upload_window ?p, tc_download_window ?p, tc_chunk_size ?p]"
  have l: "length ?ns = 6" by simp
  have "unary_split 6 (unary ?ns @ tn_caps_hash c) = (?ns, tn_caps_hash c)"
    using unary_split_unary [of ?ns "tn_caps_hash c"] unfolding l .
  then show "\<exists>j. env_to_json unary_env c = Some j \<and> env_from_json unary_env j = Some c"
    by (simp add: unary_env_def Let_def del: unary_split.simps)
qed

text \<open>An engine that saves its parameters, and a new one that looks for them half a second later.\<close>

definition demo_saver :: "(string \<rightharpoonup> string) tuning_engine" where
  "demo_saver = (set_cache Map.empty 1000 (engine_new True Lv_Balanced))
     \<lparr> te_origin := ''http://h'', te_caps_hash := ''h'', te_params := demo_table \<rparr>"

definition demo_seeker :: "(string \<rightharpoonup> string) tuning_engine" where
  "demo_seeker = (set_cache (the (te_store (save_cached_settle unary_env (Fin 0) demo_saver)))
     1000 (engine_new True Lv_Max))\<lparr> te_origin := ''http://h'' \<rparr>"

theorem cached_settle_reused_witness:
  "fst (load_cached_settle unary_env (Fin 1000) hostile_caps demo_seeker) =
    Some (demo_table\<lparr> pm_compress_level := te_policy_level demo_seeker \<rparr>)"
proof -
  have k: "cache_key demo_saver \<noteq> None" by (simp add: demo_saver_def cache_key_def set_cache_def)
  have "te_store (save_cached_settle unary_env (Fin 0) demo_saver) \<noteq> None"
    using k by (auto simp: save_cached_settle_def unary_env_def Let_def split: option.splits) (simp_all add: demo_saver_def set_cache_def)
  then have st: "te_store demo_seeker = te_store (save_cached_settle unary_env (Fin 0) demo_saver)"
    by (auto simp: demo_seeker_def set_cache_def)
  have f: "f_of_nat 0 = Fin 0" "f_of_nat 1000 = Fin 1000" by (simp_all add: f_of_nat_exact)
  have g: "\<forall>s k x. env_get unary_env (env_set unary_env s k x) k = Some x" by (simp add: unary_env_def demo_env_def)
  have "te_cache_ttl demo_seeker = 1000" "te_params demo_saver = demo_table" "te_caps_hash demo_saver = ''h''"
    "env_hash unary_env hostile_caps = ''h''" "te_origin demo_seeker = te_origin demo_saver"
    "te_direction demo_seeker = te_direction demo_saver"
    by (simp_all add: demo_seeker_def demo_saver_def set_cache_def engine_new_def unary_env_def demo_env_def)
  with cached_settle_reused [OF g unary_env_json k _ st, of "Fin 1000" hostile_caps] f show ?thesis
    by (simp add: Let_def f_sub_def f_le_def f64_small)
qed

end
