(* ===== verification/Client_Triples.thy ===== *)
theory Client_Triples
  imports Client_Ranges Tune_Props
begin

text \<open>
  Triples for the client's runs: from a state with \<open>P\<close>, a value comes with \<open>Q\<close>, an error with \<open>E\<close>,
  and a run that never resumes is in \<open>N\<close>; and what a run keeps of its world, whatever becomes of it.
\<close>

subsection \<open>Triples\<close>

fun cm_post ::
  "('a \<Rightarrow> 'c \<Rightarrow> bool) \<Rightarrow> (libfw_error \<Rightarrow> 'c \<Rightarrow> bool) \<Rightarrow> ('c \<Rightarrow> bool) \<Rightarrow> (libfw_error + 'a) option \<times> 'c \<Rightarrow> bool" where
  "cm_post Q E N (None, s) = N s"
| "cm_post Q E N (Some (Inl e), s) = E e s"
| "cm_post Q E N (Some (Inr x), s) = Q x s"

definition cm_sat ::
  "(('s, 'w) client \<Rightarrow> bool) \<Rightarrow> ('s, 'w, 'a) cm \<Rightarrow> ('a \<Rightarrow> ('s, 'w) client \<Rightarrow> bool) \<Rightarrow>
   (libfw_error \<Rightarrow> ('s, 'w) client \<Rightarrow> bool) \<Rightarrow> (('s, 'w) client \<Rightarrow> bool) \<Rightarrow> bool" where
  "cm_sat P m Q E N \<longleftrightarrow> (\<forall>s. P s \<longrightarrow> cm_post Q E N (m s))"

lemma cm_post_mono:
  assumes "cm_post Q E N r" and "\<And>x s. Q x s \<Longrightarrow> Q2 x s" and "\<And>e s. E e s \<Longrightarrow> E2 e s" and "\<And>s. N s \<Longrightarrow> N2 s"
  shows "cm_post Q2 E2 N2 r"
proof (cases r)
  case (Pair o1 s)
  show ?thesis
  proof (cases o1)
    case None
    then have "N2 s" using assms(1) Pair by (intro assms(4)) simp
    with Pair None show ?thesis by simp
  next
    case (Some v)
    show ?thesis
    proof (cases v)
      case (Inl e)
      then have "E2 e s" using assms(1) Pair Some by (intro assms(3)) simp
      with Pair Some Inl show ?thesis by simp
    next
      case (Inr x)
      then have "Q2 x s" using assms(1) Pair Some by (intro assms(2)) simp
      with Pair Some Inr show ?thesis by simp
    qed
  qed
qed

lemma sat_conseq:
  assumes "cm_sat P m Q E N" and "\<And>s. P2 s \<Longrightarrow> P s" and "\<And>x s. Q x s \<Longrightarrow> Q2 x s"
    and "\<And>e s. E e s \<Longrightarrow> E2 e s" and "\<And>s. N s \<Longrightarrow> N2 s"
  shows "cm_sat P2 m Q2 E2 N2"
  unfolding cm_sat_def
proof (intro allI impI)
  fix s assume "P2 s"
  then have "P s" by (rule assms(2))
  with assms(1) have "cm_post Q E N (m s)" by (simp add: cm_sat_def)
  then show "cm_post Q2 E2 N2 (m s)" by (rule cm_post_mono) (fact assms(3-5))+
qed

text \<open>Two triples for one run.\<close>

lemma sat_conj:
  assumes "cm_sat P m Q E N" and "cm_sat P2 m Q2 E2 N2"
  shows "cm_sat (\<lambda>s. P s \<and> P2 s) m (\<lambda>x s. Q x s \<and> Q2 x s) (\<lambda>e s. E e s \<and> E2 e s) (\<lambda>s. N s \<and> N2 s)"
  unfolding cm_sat_def
proof (intro allI impI)
  fix s assume "P s \<and> P2 s"
  then have "cm_post Q E N (m s)" "cm_post Q2 E2 N2 (m s)" using assms by (simp_all add: cm_sat_def)
  then show "cm_post (\<lambda>x s. Q x s \<and> Q2 x s) (\<lambda>e s. E e s \<and> E2 e s) (\<lambda>s. N s \<and> N2 s) (m s)"
    by (cases "m s"; cases "fst (m s)"; cases "the (fst (m s))") simp_all
qed

lemma sat_pre: "cm_sat P m Q E N \<Longrightarrow> (\<And>s. P2 s \<Longrightarrow> P s) \<Longrightarrow> cm_sat P2 m Q E N"
  by (auto simp: cm_sat_def)

lemma sat_ret: "(\<And>s. P s \<Longrightarrow> Q x s) \<Longrightarrow> cm_sat P (cm_ret x) Q E N"
  by (simp add: cm_sat_def cm_ret_def)

lemma sat_fail: "(\<And>s. P s \<Longrightarrow> E e s) \<Longrightarrow> cm_sat P (cm_fail e) Q E N"
  by (simp add: cm_sat_def cm_fail_def)

lemma sat_bind:
  assumes "cm_sat P m Q1 E N" and "\<And>x. cm_sat (Q1 x) (f x) Q2 E N"
  shows "cm_sat P (cm_bind m f) Q2 E N"
  unfolding cm_sat_def
proof (intro allI impI)
  fix s assume "P s"
  with assms(1) have "cm_post Q1 E N (m s)" by (simp add: cm_sat_def)
  with assms(2) show "cm_post Q2 E N (cm_bind m f s)"
    by (cases "m s"; cases "fst (m s)"; cases "the (fst (m s))") (simp_all add: cm_bind_def cm_sat_def)
qed

lemma sat_attempt:
  assumes "cm_sat P m Q E N"
  shows "cm_sat P (cm_attempt m) (\<lambda>r s. case r of Inl e \<Rightarrow> E e s | Inr x \<Rightarrow> Q x s) E2 N"
  unfolding cm_sat_def
proof (intro allI impI)
  fix s assume "P s"
  with assms have "cm_post Q E N (m s)" by (simp add: cm_sat_def)
  then show "cm_post (\<lambda>r s. case r of Inl e \<Rightarrow> E e s | Inr x \<Rightarrow> Q x s) E2 N (cm_attempt m s)"
    by (cases "m s"; cases "fst (m s)"; cases "the (fst (m s))") (simp_all add: cm_attempt_def)
qed

lemma sat_get: "(\<And>s. P s \<Longrightarrow> Q (f s) s) \<Longrightarrow> cm_sat P (cm_get f) Q E N"
  by (simp add: cm_sat_def cm_get_def)

lemma sat_control:
  "(\<And>s. P s \<Longrightarrow> Q () (s\<lparr> cl_control := f (cl_control s) \<rparr>)) \<Longrightarrow> cm_sat P (cm_control f) Q E N"
  by (simp add: cm_sat_def cm_control_def)

lemma sat_when:
  "(b \<Longrightarrow> cm_sat P m Q E N) \<Longrightarrow> (\<And>s. \<not> b \<Longrightarrow> P s \<Longrightarrow> Q () s) \<Longrightarrow> cm_sat P (cm_when b m) Q E N"
  by (cases b) (simp_all add: cm_when_def sat_ret)

lemma sat_if: "(b \<Longrightarrow> cm_sat P m Q E N) \<Longrightarrow> (\<not> b \<Longrightarrow> cm_sat P k Q E N) \<Longrightarrow> cm_sat P (if b then m else k) Q E N"
  by simp

lemma sat_world:
  assumes "\<And>s r w. P s \<Longrightarrow> f (cl_world s) = (r, w) \<Longrightarrow>
    case r of Inl e \<Rightarrow> E e (s\<lparr> cl_world := w \<rparr>) | Inr x \<Rightarrow> Q x (s\<lparr> cl_world := w \<rparr>)"
  shows "cm_sat P (cm_world f) Q E N"
  unfolding cm_sat_def
proof (intro allI impI)
  fix s assume "P s"
  with assms show "cm_post Q E N (cm_world f s)"
    by (cases "f (cl_world s)"; cases "fst (f (cl_world s))") (force simp: cm_world_def)+
qed

lemma sat_loop: "(\<And>s x. P s \<Longrightarrow> r = Some x \<Longrightarrow> Q x s) \<Longrightarrow> (\<And>s. P s \<Longrightarrow> r = None \<Longrightarrow> N s) \<Longrightarrow>
    cm_sat P (cm_loop r) Q E N"
  by (cases r) (simp_all add: cm_sat_def cm_loop_def)

lemma sat_sum:
  assumes "\<And>e. r = Inl e \<Longrightarrow> cm_sat P (f e) Q E N" and "\<And>x. r = Inr x \<Longrightarrow> cm_sat P (g x) Q E N"
  shows "cm_sat P (case r of Inl e \<Rightarrow> f e | Inr x \<Rightarrow> g x) Q E N"
  using assms by (cases r) simp_all

lemma bind_lift [simp]: "cm_bind (cm_lift (Inr x)) f = f x" "cm_bind (cm_lift (Inl e)) f = cm_fail e"
  by (simp_all add: fun_eq_iff cm_bind_def cm_lift_def cm_fail_def)

lemma bind_ret [simp]: "cm_bind (cm_ret x) f = f x"
  by (simp add: fun_eq_iff cm_bind_def cm_ret_def)

lemma sat_lift:
  "(\<And>s e. P s \<Longrightarrow> r = Inl e \<Longrightarrow> E e s) \<Longrightarrow> (\<And>s x. P s \<Longrightarrow> r = Inr x \<Longrightarrow> Q x s) \<Longrightarrow> cm_sat P (cm_lift r) Q E N"
  by (cases r) (simp_all add: cm_sat_def cm_lift_def)

text \<open>A precondition that does not depend on the state.\<close>

lemma sat_fact: "(A \<Longrightarrow> cm_sat P m Q E N) \<Longrightarrow> cm_sat (\<lambda>s. A \<and> P s) m Q E N"
  by (auto simp: cm_sat_def)

lemma sat_ex: "(\<And>y. cm_sat (P y) m Q E N) \<Longrightarrow> cm_sat (\<lambda>s. \<exists>y. P y s) m Q E N"
  by (auto simp: cm_sat_def)

lemma satD: "cm_sat P m Q E N \<Longrightarrow> P s \<Longrightarrow> cm_post Q E N (m s)"
  by (simp add: cm_sat_def)

subsection \<open>What every run keeps\<close>

text \<open>
  \<open>cm_keeps p m\<close>: the run of \<open>m\<close> leaves a world with \<open>p\<close> in \<open>p\<close>, and the tuning engine in order, whether
  it returns, fails or is never resumed.  The rules follow the program text, so that a scheduler is
  covered by one application.
\<close>

definition in_order :: "('w \<Rightarrow> bool) \<Rightarrow> ('s, 'w) client \<Rightarrow> bool" where
  "in_order p s \<longleftrightarrow> p (cl_world s) \<and> engine_ok (cl_tune s)"

lemma in_order_simps [simp]:
  "in_order p (s\<lparr> cl_control := c \<rparr>) = in_order p s"
  "in_order p (s\<lparr> cl_world := w \<rparr>) \<longleftrightarrow> p w \<and> engine_ok (cl_tune s)"
  "in_order p (s\<lparr> cl_control := c, cl_world := w \<rparr>) \<longleftrightarrow> p w \<and> engine_ok (cl_tune s)"
  "in_order p (s\<lparr> cl_tune := e \<rparr>) \<longleftrightarrow> p (cl_world s) \<and> engine_ok e"
  "in_order p (s\<lparr> cl_tune := e, cl_control := c \<rparr>) \<longleftrightarrow> p (cl_world s) \<and> engine_ok e"
  by (simp_all add: in_order_def)

lemma in_orderD: "in_order p s \<Longrightarrow> p (cl_world s)" "in_order p s \<Longrightarrow> engine_ok (cl_tune s)"
  by (simp_all add: in_order_def)

definition cm_keeps :: "('w \<Rightarrow> bool) \<Rightarrow> ('s, 'w, 'a) cm \<Rightarrow> bool" where
  "cm_keeps p m \<longleftrightarrow> (\<forall>s. in_order p s \<longrightarrow> in_order p (snd (m s)))"

named_theorems keeps_rules \<open>rules that follow the text of a run\<close>

lemma keeps_ret [keeps_rules]: "cm_keeps p (cm_ret x)"
  by (simp add: cm_keeps_def cm_ret_def)

lemma keeps_fail [keeps_rules]: "cm_keeps p (cm_fail e)"
  by (simp add: cm_keeps_def cm_fail_def)

lemma keeps_bind [keeps_rules]: "cm_keeps p m \<Longrightarrow> (\<And>x. cm_keeps p (f x)) \<Longrightarrow> cm_keeps p (cm_bind m f)"
  by (fastforce simp: cm_keeps_def cm_bind_def split: prod.splits option.splits sum.splits)

lemma keeps_attempt [keeps_rules]: "cm_keeps p m \<Longrightarrow> cm_keeps p (cm_attempt m)"
  by (fastforce simp: cm_keeps_def cm_attempt_def split: prod.splits option.splits)

lemma keeps_silent [keeps_rules]:
  "cm_keeps p (cm_lift r)" "cm_keeps p (cm_get f)" "cm_keeps p (cm_control g)" "cm_keeps p (cm_loop o1)"
  "cm_keeps p cm_check"
  by (simp_all add: cm_keeps_def cm_lift_def cm_get_def cm_control_def cm_loop_def cm_check_def)

lemma keeps_world: "(\<And>w. p w \<Longrightarrow> p (snd (f w))) \<Longrightarrow> cm_keeps p (cm_world f)"
  by (simp add: cm_keeps_def cm_world_def case_prod_beta in_orderD)

lemma keeps_when [keeps_rules]: "(b \<Longrightarrow> cm_keeps p m) \<Longrightarrow> cm_keeps p (cm_when b m)"
  by (cases b) (simp_all add: cm_when_def keeps_ret)

lemma keeps_if [keeps_rules]:
  "(b \<Longrightarrow> cm_keeps p m) \<Longrightarrow> (\<not> b \<Longrightarrow> cm_keeps p k) \<Longrightarrow> cm_keeps p (if b then m else k)"
  by simp

lemma keeps_sum [keeps_rules]:
  "(\<And>e. r = Inl e \<Longrightarrow> cm_keeps p (f e)) \<Longrightarrow> (\<And>x. r = Inr x \<Longrightarrow> cm_keeps p (g x)) \<Longrightarrow>
    cm_keeps p (case r of Inl e \<Rightarrow> f e | Inr x \<Rightarrow> g x)"
  by (cases r) simp_all

lemma keeps_option [keeps_rules]:
  "(o1 = None \<Longrightarrow> cm_keeps p m) \<Longrightarrow> (\<And>x. o1 = Some x \<Longrightarrow> cm_keeps p (f x)) \<Longrightarrow>
    cm_keeps p (case o1 of None \<Rightarrow> m | Some x \<Rightarrow> f x)"
  by (cases o1) simp_all

lemma keeps_prod [keeps_rules]: "(\<And>x y. r = (x, y) \<Longrightarrow> cm_keeps p (f x y)) \<Longrightarrow> cm_keeps p (case r of (x, y) \<Rightarrow> f x y)"
  by (cases r) simp

lemma keeps_for [keeps_rules]: "(\<And>x. cm_keeps p (f x)) \<Longrightarrow> cm_keeps p (cm_for xs f)"
  by (induction xs) (auto intro!: keeps_rules)

lemma keeps_tasks [keeps_rules]: "(\<And>x. x \<in> set xs \<Longrightarrow> cm_keeps p (f x)) \<Longrightarrow> cm_keeps p (cm_tasks xs f)"
  by (induction xs) (auto intro!: keeps_rules)

lemma set_arrange [simp]: "set (arrange perm xs) = set xs"
proof (cases "sort perm = [0..<length xs]")
  case True
  then have "set perm = {0..<length xs}" by (metis set_sort set_upt)
  then have "set (map ((!) xs) perm) = set xs" by (auto simp: in_set_conv_nth)
  with True show ?thesis by (simp add: arrange_def)
qed (simp add: arrange_def)

lemma keeps_tick [keeps_rules]: "cm_keeps p (cm_tick env rtt err)"
  unfolding cm_keeps_def cm_tick_def Let_def by (auto simp: case_prod_beta in_orderD tick_ok)

text \<open>The parts of the world only the browser and the user touch.\<close>

definition quiet_world :: "('e, 's, 'w) client_env \<Rightarrow> ('w \<Rightarrow> bool) \<Rightarrow> bool" where
  "quiet_world env p \<longleftrightarrow> (\<forall>w. p w \<longrightarrow>
     p (snd (ce_controls env w)) \<and> (\<forall>c. p (snd (ce_call env c w))) \<and> (\<forall>ms. p (ce_sleep env ms w)) \<and>
     (\<forall>n. p (snd (ce_order env n w))) \<and> (\<forall>f k n. p (snd (ce_read_file env f k n w))))"

text \<open>The same for a client whose calls in \<open>C\<close> are without effect on \<open>p\<close>.\<close>

definition quiet_for :: "('e, 's, 'w) client_env \<Rightarrow> (callback \<Rightarrow> bool) \<Rightarrow> ('w \<Rightarrow> bool) \<Rightarrow> bool" where
  "quiet_for env C p \<longleftrightarrow> (\<forall>w. p w \<longrightarrow>
     p (snd (ce_controls env w)) \<and> (\<forall>c. C c \<longrightarrow> p (snd (ce_call env c w))) \<and> (\<forall>ms. p (ce_sleep env ms w)) \<and>
     (\<forall>n. p (snd (ce_order env n w))))"

lemma quiet_forD: "quiet_world env p \<Longrightarrow> quiet_for env C p"
  by (simp add: quiet_world_def quiet_for_def)

lemma quiet_for_keeps:
  assumes "quiet_for env C p"
  shows "cm_keeps p (cm_ready env)" "C c \<Longrightarrow> cm_keeps p (cm_call env c)" "C c \<Longrightarrow> cm_keeps p (cm_call_ignored env c)"
    "cm_keeps p (cm_sleep env ms)"
    "(\<And>n t. C (Call_progress n t)) \<Longrightarrow> cm_keeps p (cm_report env)"
    "(\<And>n t. C (Call_progress n t)) \<Longrightarrow> cm_keeps p (cm_report_ignored env)"
    "(\<And>x. x \<in> set xs \<Longrightarrow> cm_keeps p (task x)) \<Longrightarrow> cm_keeps p (cm_unordered env xs task)"
proof -
  have w: "cm_keeps p (cm_wait_ready env)"
    using assms by (simp add: cm_keeps_def cm_wait_ready_def quiet_for_def Let_def case_prod_beta in_orderD)
  then show "cm_keeps p (cm_ready env)" unfolding cm_ready_def by (intro keeps_rules)
  show c: "cm_keeps p (cm_call env q)" if "C q" for q
    unfolding cm_call_def by (rule keeps_world) (use assms that in \<open>simp add: quiet_for_def\<close>)
  show "cm_keeps p (cm_call_ignored env c)" if "C c"
    unfolding cm_call_ignored_def by (rule keeps_world) (use assms that in \<open>simp add: quiet_for_def\<close>)
  show "cm_keeps p (cm_sleep env ms)"
    unfolding cm_sleep_def by (rule keeps_world) (use assms in \<open>simp add: quiet_for_def\<close>)
  show r: "cm_keeps p (cm_report env)" if "\<And>n t. C (Call_progress n t)"
    using c [OF that] by (fastforce simp: cm_keeps_def cm_report_def cm_ret_def split: prod.splits option.splits)
  show "cm_keeps p (cm_report_ignored env)" if "\<And>n t. C (Call_progress n t)"
    unfolding cm_report_ignored_def by (intro keeps_rules r that)
  show "cm_keeps p (cm_unordered env xs task)" if "\<And>x. x \<in> set xs \<Longrightarrow> cm_keeps p (task x)"
    unfolding cm_unordered_def
    by (intro keeps_rules keeps_world that) (use assms in \<open>auto simp: quiet_for_def case_prod_beta\<close>)
qed

lemma quiet_keeps [keeps_rules]:
  assumes "quiet_world env p"
  shows "cm_keeps p (cm_ready env)" "cm_keeps p (cm_call env c)" "cm_keeps p (cm_call_ignored env c)"
    "cm_keeps p (cm_sleep env ms)" "cm_keeps p (cm_report env)" "cm_keeps p (cm_report_ignored env)"
    "cm_keeps p (cm_world (ce_read_file env f k n))"
    "(\<And>x. x \<in> set xs \<Longrightarrow> cm_keeps p (task x)) \<Longrightarrow> cm_keeps p (cm_unordered env xs task)"
  using quiet_for_keeps [OF quiet_forD [OF assms, of "\<lambda>_. True"]]
  by (simp_all add: keeps_world assms [unfolded quiet_world_def]) blast

lemma keeps_sat:
  fixes m :: "('s, 'w, 'a) cm"
  assumes "cm_keeps p m"
  shows "cm_sat (in_order p) m (\<lambda>_. in_order p) (\<lambda>_. in_order p) (in_order p)"
  unfolding cm_sat_def
proof (intro allI impI)
  fix s :: "('s, 'w) client"
  assume "in_order p s"
  with assms have "in_order p (snd (m s))" unfolding cm_keeps_def by blast
  then show "cm_post (\<lambda>_. in_order p) (\<lambda>_. in_order p) (in_order p) (m s)"
    by (cases "m s"; cases "fst (m s)"; cases "the (fst (m s))") simp_all
qed

lemma keepsI:
  assumes "cm_sat (in_order p) m (\<lambda>_. in_order p) (\<lambda>_. in_order p) (in_order p)"
  shows "cm_keeps p m"
  unfolding cm_keeps_def
proof (intro allI impI)
  fix s :: "('a, 'b) client"
  assume "in_order p s"
  with assms have "cm_post (\<lambda>_. in_order p) (\<lambda>_. in_order p) (in_order p) (m s)" by (rule satD)
  then show "in_order p (snd (m s))"
    by (cases "m s"; cases "fst (m s)"; cases "the (fst (m s))") simp_all
qed

lemma sat_keeps_bind:
  assumes "cm_keeps p m" and "\<And>x. cm_sat (in_order p) (f x) Q (\<lambda>_. in_order p) (in_order p)"
  shows "cm_sat (in_order p) (cm_bind m f) Q (\<lambda>_. in_order p) (in_order p)"
  using keeps_sat [OF assms(1)] assms(2) by (rule sat_bind)

subsection \<open>Loops\<close>

lemma while_unfold:
  "cm_while body x s =
    (case body x s of
       (None, s2) \<Rightarrow> (None, s)
     | (Some (Inl e), s2) \<Rightarrow> (Some (Inl e), s2)
     | (Some (Inr (Inl x2)), s2) \<Rightarrow> (case cm_while body x2 s2 of (None, _) \<Rightarrow> (None, s) | (Some r, s3) \<Rightarrow> (Some r, s3))
     | (Some (Inr (Inr y)), s2) \<Rightarrow> (Some (Inr y), s2))"
  by (subst cm_while_def, subst cm_iter.simps)
    (auto simp: cm_while_def split: prod.splits option.splits sum.splits)

text \<open>Partial correctness: \<open>I\<close> holds whenever the body starts.\<close>

lemma sat_while:
  assumes "\<And>x. cm_sat (I x) (body x) (\<lambda>r s. case r of Inl x2 \<Rightarrow> I x2 s | Inr y \<Rightarrow> Q y s) E (\<lambda>_. True)"
    and "\<And>s. I x s \<Longrightarrow> N s"
  shows "cm_sat (I x) (cm_while body x) Q E N"
proof -
  have "body = body \<longrightarrow> I x s \<longrightarrow> cm_post Q E (\<lambda>_. True) (Some (fst r), snd r)" if "cm_iter body x s = Some r" for s r
  proof (rule cm_iter.raw_induct [where ?xa = "((body, x), s)" and P = "\<lambda>b x s r. b = body \<longrightarrow> I x s \<longrightarrow>
      cm_post Q E (\<lambda>_. True) (Some (fst r), snd r)", unfolded prod.case, OF _ that])
    fix f b x s r
    assume a: "\<And>b x s r. f b x s = Some r \<Longrightarrow> b = body \<longrightarrow> I x s \<longrightarrow> cm_post Q E (\<lambda>_. True) (Some (fst r), snd r)"
      "(case b x s of (None, s2) \<Rightarrow> None
        | (Some (Inl e), s2) \<Rightarrow> Some (Inl e, s2)
        | (Some (Inr (Inl x2)), s2) \<Rightarrow> f b x2 s2
        | (Some (Inr (Inr y)), s2) \<Rightarrow> Some (Inr y, s2)) = Some r"
    show "b = body \<longrightarrow> I x s \<longrightarrow> cm_post Q E (\<lambda>_. True) (Some (fst r), snd r)"
    proof (intro impI)
      assume "b = body" "I x s"
      moreover from satD [OF assms(1) this(2)]
      have "cm_post (\<lambda>r s. case r of Inl x2 \<Rightarrow> I x2 s | Inr y \<Rightarrow> Q y s) E (\<lambda>_. True) (body x s)" .
      ultimately show "cm_post Q E (\<lambda>_. True) (Some (fst r), snd r)"
        using a by (auto split: prod.splits option.splits sum.splits)
    qed
  qed
  then have fin: "I x s \<Longrightarrow> cm_post Q E (\<lambda>_. True) (Some (fst r), snd r)" if "cm_iter body x s = Some r" for s r
    using that by blast
  show ?thesis
    unfolding cm_sat_def
  proof (intro allI impI)
    fix s assume i: "I x s"
    show "cm_post Q E N (cm_while body x s)"
    proof (cases "cm_iter body x s")
      case None
      with assms(2) [OF i] show ?thesis by (simp add: cm_while_def)
    next
      case (Some r)
      with fin [OF Some i] show ?thesis
        by (cases r; cases "fst r") (simp_all add: cm_while_def)
    qed
  qed
qed

lemma keeps_while [keeps_rules]:
  assumes "\<And>x. cm_keeps p (body x)"
  shows "cm_keeps p (cm_while body x)"
  by (rule keepsI, rule sat_while, rule sat_conseq [OF keeps_sat [OF assms]]) (auto split: sum.splits)

text \<open>Total correctness: \<open>k\<close> bounds the rounds that are left.\<close>

lemma sat_while_total:
  assumes "\<And>k x. cm_sat (I k x) (body x) (\<lambda>r s. case r of Inl x2 \<Rightarrow> \<exists>k2<(k :: nat). I k2 x2 s | Inr y \<Rightarrow> Q y s) E N"
    and "\<And>s. N s \<Longrightarrow> False"
  shows "cm_sat (I k x) (cm_while body x) Q E N"
proof (induction k arbitrary: x rule: less_induct)
  case (less k)
  show ?case
    unfolding cm_sat_def
  proof (intro allI impI)
    fix s assume "I k x s"
    then have p: "cm_post (\<lambda>r s. case r of Inl x2 \<Rightarrow> \<exists>k2<k. I k2 x2 s | Inr y \<Rightarrow> Q y s) E N (body x s)"
      by (rule satD [OF assms(1)])
    obtain o1 s2 where b: "body x s = (o1, s2)" by force
    show "cm_post Q E N (cm_while body x s)"
    proof (cases o1)
      case None
      with p b assms(2) show ?thesis by auto
    next
      case (Some r)
      show ?thesis
      proof (cases "\<exists>x2. r = Inr (Inl x2)")
        case True
        then obtain x2 k2 where r: "r = Inr (Inl x2)" "k2 < k" "I k2 x2 s2" using p b Some by auto
        have "cm_post Q E N (cm_while body x2 s2)" by (rule satD [OF less [OF r(2)] r(3)])
        then show ?thesis
          unfolding while_unfold [of body x s]
          using b Some r(1) by (cases "cm_while body x2 s2") (auto split: option.splits dest: assms(2))
      next
        case False
        with p b Some show ?thesis
          unfolding while_unfold [of body x s] by (auto split: sum.splits)
      qed
    qed
  qed
qed

end
