(* ===== verification/Client_Steady.thy ===== *)
theory Client_Steady
  imports Client_Triples
begin

text \<open>
  Liveness of the steps both schedulers share: in a world whose user is patient and whose callbacks
  succeed, a running client stays running, and what the world shows stays as it is.
\<close>

text \<open>A block of a file.\<close>

definition block_of :: "bytes \<Rightarrow> nat \<Rightarrow> nat \<Rightarrow> bytes" where
  "block_of D start e = take (e - start) (drop start D)"

text \<open>The chunk sizes of the tuning engine.\<close>

definition chunk_fine :: "nat \<Rightarrow> bool" where
  "chunk_fine c \<longleftrightarrow> 0 < c \<and> c \<le> 16777216"

lemma chunk_fine_tuned: "engine_ok e \<Longrightarrow> chunk_fine (max (pm_chunk_size (te_params e)) 1)"
  by (auto simp: engine_ok_def params_ok_def chunk_fine_def)

text \<open>A transfer nobody has cancelled.\<close>

definition running :: "task_control \<Rightarrow> bool" where
  "running c \<longleftrightarrow> \<not> tk_cancelled c \<and> tk_active c \<noteq> St_Paused"

lemma running_simps [simp]:
  "running (c\<lparr> tk_done := n \<rparr>) = running c" "running (c\<lparr> tk_total := n \<rparr>) = running c"
  "running (c\<lparr> tk_reported := n \<rparr>) = running c" "running (c\<lparr> tk_semaphore := sem \<rparr>) = running c"
  by (simp_all add: running_def)

lemma running_progress [simp]:
  "running (add_progress n c) = running c" "running (snd (report_progress_if c)) = running c"
  "running (snd (set_max_parallel n c)) = running c"
  by (simp_all add: add_progress_def report_progress_if_def set_max_parallel_def Let_def split: prod.splits)

definition live :: "('w \<Rightarrow> bool) \<Rightarrow> ('w \<Rightarrow> 'v) \<Rightarrow> ('v \<Rightarrow> bool) \<Rightarrow> ('s, 'w) client \<Rightarrow> bool" where
  "live ok view V s \<longleftrightarrow> in_order (\<lambda>w. ok w \<and> V (view w)) s \<and> running (cl_control s)"

lemma live_simps [simp]:
  "live ok view V (s\<lparr> cl_control := c \<rparr>) \<longleftrightarrow> in_order (\<lambda>w. ok w \<and> V (view w)) s \<and> running c"
  "live ok view V (s\<lparr> cl_world := w \<rparr>) \<longleftrightarrow> ok w \<and> V (view w) \<and> engine_ok (cl_tune s) \<and> running (cl_control s)"
  by (simp_all add: live_def)

text \<open>A step of the world that cannot fail.\<close>

lemma live_world:
  fixes f :: "'w \<Rightarrow> (libfw_error + 'a) \<times> 'w" and E :: "libfw_error \<Rightarrow> ('t, 'w) client \<Rightarrow> bool"
  assumes "\<And>w. ok w \<Longrightarrow> V (view w) \<Longrightarrow> \<exists>x. fst (f w) = Inr x \<and> A x \<and> ok (snd (f w)) \<and> W x (view (snd (f w)))"
  shows "cm_sat (live ok view V) (cm_world f) (\<lambda>x s. A x \<and> live ok view (W x) s) E N"
proof (rule sat_world)
  fix s :: "('t, 'w) client" and r w
  assume a: "live ok view V s" "f (cl_world s) = (r, w)"
  then have "ok (cl_world s)" "V (view (cl_world s))" by (simp_all add: live_def in_order_def)
  from assms [OF this] a show "case r of Inl e \<Rightarrow> E e (s\<lparr> cl_world := w \<rparr>)
      | Inr x \<Rightarrow> A x \<and> live ok view (W x) (s\<lparr> cl_world := w \<rparr>)"
    by (auto simp: live_def in_order_def)
qed

lemma live_control:
  "(\<And>c. running c \<Longrightarrow> running (f c)) \<Longrightarrow> cm_sat (live ok view V) (cm_control f) (\<lambda>_. live ok view V) E N"
  by (rule sat_control) (simp add: live_def)

lemma live_tick: "cm_sat (live ok view V) (cm_tick env rtt err) (\<lambda>_. live ok view V) E N"
  by (auto simp: cm_sat_def cm_tick_def live_def in_order_def Let_def case_prod_beta tick_ok split: option.splits)

lemma live_mono: "live ok view V s \<Longrightarrow> (\<And>y. V y \<Longrightarrow> W y) \<Longrightarrow> live ok view W s"
  by (simp add: live_def in_order_def)

lemma live_cases:
  "(\<And>y. V y \<Longrightarrow> cm_sat (live ok view (\<lambda>x. x = y)) m Q E N) \<Longrightarrow> cm_sat (live ok view V) m Q E N"
  by (fastforce simp: cm_sat_def live_def in_order_def)

text \<open>What a step needs: a user who lets the transfer go on, and the calls in \<open>C\<close> without error or effect.\<close>

locale steady_client =
  fixes env :: "('e, 's, 'w) client_env" and ok :: "'w \<Rightarrow> bool" and view :: "'w \<Rightarrow> 'v" and C :: "callback \<Rightarrow> bool"
  assumes steady_quiet: "quiet_for env C (\<lambda>w. ok w \<and> view w = v)"
    and steady_progress: "C (Call_progress n m)"
    and steady_user: "ok w \<Longrightarrow> running c \<Longrightarrow>
      \<exists>c2. wait_loop (fst (ce_controls env w)) c = (Some (Inr ()), c2) \<and> running c2"
    and steady_calls: "ok w \<Longrightarrow> C q \<Longrightarrow> fst (ce_call env q w) = Inr ()"
begin

lemma steady_view: "quiet_for env C (\<lambda>w. ok w \<and> V (view w))"
  using steady_quiet by (fastforce simp: quiet_for_def)

lemma live_ready: "cm_sat (live ok view V) (cm_ready env) (\<lambda>_. live ok view V) E N"
  unfolding cm_sat_def
proof (intro allI impI)
  fix s :: "('s, 'w) client" assume a: "live ok view V s"
  then have o: "ok (cl_world s)" "running (cl_control s)" by (simp_all add: live_def in_order_def)
  obtain c2 where c2: "wait_loop (fst (ce_controls env (cl_world s))) (cl_control s) = (Some (Inr ()), c2)" "running c2"
    using steady_user [OF o] by blast
  have "ok (snd (ce_controls env (cl_world s))) \<and> V (view (snd (ce_controls env (cl_world s))))"
    using steady_view [of V] a by (auto simp: quiet_for_def live_def in_order_def)
  with a c2 show "cm_post (\<lambda>_. live ok view V) E N (cm_ready env s)"
    by (simp add: cm_ready_def cm_bind_def cm_wait_ready_def cm_check_def control_check_def running_def
        live_def in_order_def Let_def case_prod_beta)
qed

lemma live_call:
  assumes "C q"
  shows "cm_sat (live ok view V) (cm_call env q) (\<lambda>_. live ok view V) E N"
  unfolding cm_call_def
proof (rule sat_world)
  fix s :: "('s, 'w) client" and r w
  assume a: "live ok view V s" "ce_call env q (cl_world s) = (r, w)"
  then have "ok (cl_world s)" "r = Inr ()" using steady_calls [of "cl_world s" q] assms by (simp_all add: live_def in_order_def)
  moreover have "ok w \<and> V (view w)"
    using steady_view [of V] a assms unfolding quiet_for_def live_def in_order_def by (metis snd_conv)
  ultimately show "case r of Inl e \<Rightarrow> E e (s\<lparr> cl_world := w \<rparr>) | Inr x \<Rightarrow> live ok view V (s\<lparr> cl_world := w \<rparr>)"
    using a(1) by (simp add: live_def in_order_def)
qed

lemma live_call_ignored: "C q \<Longrightarrow> cm_sat (live ok view V) (cm_call_ignored env q) (\<lambda>_. live ok view V) E N"
  and live_sleep: "cm_sat (live ok view V) (cm_sleep env ms) (\<lambda>_. live ok view V) E N"
  and live_order: "cm_sat (live ok view V) (cm_world (\<lambda>w. let (perm, w2) = ce_order env n w in (Inr perm, w2)))
     (\<lambda>_. live ok view V) E N"
  unfolding cm_call_ignored_def cm_sleep_def
  using steady_view [of V]
  by (auto intro!: sat_world simp: quiet_for_def live_def in_order_def case_prod_beta split: sum.splits if_splits)

lemma live_report: "cm_sat (live ok view V) (cm_report env) (\<lambda>_. live ok view V) E N"
  unfolding cm_sat_def
proof (intro allI impI)
  fix s :: "('s, 'w) client" assume a: "live ok view V s"
  obtain ev c where r: "report_progress_if (cl_control s) = (ev, c)" by force
  then have "running c" using a running_progress(2) [of "cl_control s"] by (simp add: live_def)
  with a have l: "live ok view V (s\<lparr> cl_control := c \<rparr>)" by (simp add: live_def)
  show "cm_post (\<lambda>_. live ok view V) E N (cm_report env s)"
  proof (cases ev)
    case None
    with r l show ?thesis by (simp add: cm_report_def cm_ret_def)
  next
    case (Some q)
    with satD [OF live_call [OF steady_progress] l] r show ?thesis by (cases q) (simp add: cm_report_def)
  qed
qed

lemma live_report_ignored: "cm_sat (live ok view V) (cm_report_ignored env) (\<lambda>_. live ok view V) E N"
  unfolding cm_report_ignored_def
  by (rule sat_bind [OF sat_attempt [OF live_report [where E = "\<lambda>_ _. False"]]], rule sat_ret)
    (rename_tac x s, case_tac x, simp_all)

end

end
