(* ===== verification/Client_Service.thy ===== *)
theory Client_Service
  imports Client_Steady
begin

text \<open>
  The upload scheduler against any server that keeps sessions.  The contract (\<open>session_service\<close>) says
  what a request may do to the session and to the stored file; whatever fails on the way, a reported
  success then means the file is stored.  With a server that answers its probes, a user who does not
  cancel, and no more failed requests than retries (\<open>reliable_service\<close>), the upload succeeds.
\<close>

subsection \<open>The contract\<close>

text \<open>
  What a world says of one upload: the offsets its session holds, the stored file, and how many
  requests may still fail.
\<close>

record service_view =
  vw_got :: "nat set"
  vw_stored :: "bytes option"
  vw_budget :: nat

text \<open>A post of the block \<open>A\<close>: acknowledged, the session holds it; not, the failure is counted.\<close>

definition post_step :: "nat set \<Rightarrow> (libfw_error + nat) \<Rightarrow> service_view \<Rightarrow> service_view \<Rightarrow> bool" where
  "post_step A r v v2 \<longleftrightarrow> vw_stored v2 = vw_stored v \<and> vw_got v2 \<subseteq> vw_got v \<union> A \<and> vw_budget v2 \<le> vw_budget v \<and>
     (if r = Inr 201 then vw_got v2 = vw_got v \<union> A else vw_budget v2 < vw_budget v)"

text \<open>A commit: only a complete session is stored, and refusing one is a failure.\<close>

definition commit_step :: "bytes \<Rightarrow> (libfw_error + nat) \<Rightarrow> service_view \<Rightarrow> service_view \<Rightarrow> bool" where
  "commit_step D r v v2 \<longleftrightarrow> vw_got v2 \<subseteq> vw_got v \<and> vw_budget v2 \<le> vw_budget v \<and>
     (vw_stored v2 = vw_stored v \<or> vw_stored v2 = Some D) \<and>
     (if r = Inr 201 then vw_stored v2 = Some D
      else vw_got v = {..<length D} \<longrightarrow> vw_budget v2 < vw_budget v)"

definition job_session :: "('e, 's, 'w) client_env \<Rightarrow> upload_job \<Rightarrow> string" where
  "job_session env j = session_id_for (ce_sha env) (uj_file j)"

text \<open>The two kinds of posts of an upload, and the status probe.\<close>

definition block_request :: "('e, 's, 'w) client_env \<Rightarrow> upload_job \<Rightarrow> nat \<Rightarrow> bytes \<Rightarrow> http_request" where
  "block_request env j start p = post_request env j start p (uj_compress j) False (job_session env j)"

definition commit_request :: "('e, 's, 'w) client_env \<Rightarrow> upload_job \<Rightarrow> http_request" where
  "commit_request env j = post_request env j (fe_size (uj_file j)) [] False True (job_session env j)"

text \<open>Blocks the tuning engine's chunk sizes allow, inside the file.\<close>

definition blocks_fine :: "bytes \<Rightarrow> (nat \<times> nat) list \<Rightarrow> bool" where
  "blocks_fine D ms \<longleftrightarrow> (\<forall>m\<in>set ms. fst m < snd m \<and> snd m \<le> length D \<and> snd m - fst m \<le> 16777216)"

locale session_service =
  fixes env :: "('e, 's, 'w) client_env" and j :: upload_job and D :: bytes
    and ok :: "'w \<Rightarrow> bool" and view :: "'w \<Rightarrow> service_view"
  assumes file_size: "fe_size (uj_file j) = length D"
    and small: "length D + 16777216 \<le> u64_max"
    and quiet: "quiet_world env (\<lambda>w. ok w \<and> view w = v)"
    and read_data: "ok w \<Longrightarrow> fst (ce_read_file env (fe_path (uj_file j)) start len w) = Inr raw \<Longrightarrow>
      length raw = len \<Longrightarrow> raw = take len (drop start D)"
    and post: "ok w \<Longrightarrow> start < e \<Longrightarrow> e \<le> length D \<Longrightarrow> e - start \<le> 16777216 \<Longrightarrow>
      chunk_payload (ce_zrip env) (uj_compress j) (uj_level j) (block_of D start e) = Inr p \<Longrightarrow>
      ce_xhr env (block_request env j start p) (cg_timeout_ms (uj_config j)) w = (ticks, r, w2) \<Longrightarrow>
      ok w2 \<and> post_step {start..<e} r (view w) (view w2)"
    and commit: "ok w \<Longrightarrow> ce_xhr env (commit_request env j) (cg_timeout_ms (uj_config j)) w = (ticks, r, w2) \<Longrightarrow>
      ok w2 \<and> commit_step D r (view w) (view w2)"
    and probe: "ok w \<Longrightarrow> ce_fetch env (probe_request env j (job_session env j)) (cg_timeout_ms (uj_config j)) w = (reply, w2) \<Longrightarrow>
      ok w2 \<and> view w2 = view w"
begin

subsection \<open>Safety\<close>

lemma quiet_view: "quiet_world env (\<lambda>w. ok w \<and> V (view w))"
  using quiet by (fastforce simp: quiet_world_def)

lemma quiet_ok: "quiet_world env ok"
  using quiet_view [of "\<lambda>_. True"] by simp

lemmas ok_rules = keeps_rules quiet_keeps [OF quiet_ok]

lemma wire_keeps: "quiet_world env p \<Longrightarrow> cm_keeps p (wire_ticks env ticks l)"
  by (induction ticks arbitrary: l) (auto intro!: keeps_rules)

lemma post_keeps:
  assumes "quiet_world env p"
    and "\<And>w ticks r w2. p w \<Longrightarrow> ce_xhr env (post_request env j off b cmp fin session)
      (cg_timeout_ms (uj_config j)) w = (ticks, r, w2) \<Longrightarrow> p w2"
  shows "cm_keeps p (post_chunk env j off b cmp fin session wired l)"
  unfolding post_chunk_def Let_def
  by (intro keeps_rules keeps_world wire_keeps [OF assms(1)])
    (use assms(2) in \<open>fastforce split: prod.splits\<close>)

lemma send_chunk_keeps:
  assumes "start < e" and "e \<le> length D" and "e - start \<le> 16777216"
    and "chunk_payload (ce_zrip env) (uj_compress j) (uj_level j) (block_of D start e) = Inr p"
  shows "cm_keeps ok (send_chunk env j (job_session env j) start p attempts l)"
proof (induction "cg_max_retries (uj_config j) - attempts" arbitrary: attempts l rule: less_induct)
  case less
  have "cm_keeps ok (post_chunk env j start p (uj_compress j) False (job_session env j) True l)" for l
    by (rule post_keeps [OF quiet_ok]) (use post [OF _ assms] in \<open>auto simp: block_request_def\<close>)
  then show ?case
    by (subst send_chunk.simps) (auto intro!: ok_rules less)
qed

text \<open>A block is sent as it was read: if the read is complete, these are the bytes of the file.\<close>

lemma one_chunk_keeps:
  assumes "start < e" and "e \<le> length D" and "e - start \<le> 16777216"
  shows "cm_keeps ok (upload_one_chunk env j (job_session env j) start e)"
  unfolding upload_one_chunk_def Let_def
proof (rule keeps_bind [OF quiet_keeps(1) [OF quiet_ok]], rule keepsI, rule sat_bind)
  show "cm_sat (in_order ok) (cm_world (ce_read_file env (fe_path (uj_file j)) start (e - start)) :: ('s, 'w, bytes) cm)
      (\<lambda>raw s. (length raw = e - start \<longrightarrow> raw = block_of D start e) \<and> in_order ok s) (\<lambda>_. in_order ok) (in_order ok)"
  proof (rule sat_world)
    fix s :: "('s, 'w) client" and r w
    assume a: "in_order ok s" "ce_read_file env (fe_path (uj_file j)) start (e - start) (cl_world s) = (r, w)"
    then have "ok w" using quiet_ok unfolding quiet_world_def by (metis in_orderD(1) snd_conv)
    moreover have "raw = block_of D start e" if "r = Inr raw" "length raw = e - start" for raw
      using read_data [of "cl_world s" start "e - start" raw] a that by (simp add: in_orderD block_of_def)
    ultimately show "case r of Inl e \<Rightarrow> in_order ok (s\<lparr> cl_world := w \<rparr>)
        | Inr raw \<Rightarrow> (length raw = e - start \<longrightarrow> raw = block_of D start e) \<and> in_order ok (s\<lparr> cl_world := w \<rparr>)"
      using a(1) by (auto simp: in_orderD split: sum.splits)
  qed
  fix raw :: bytes
  have k: "cm_keeps ok (cm_bind (cm_lift (chunk_payload (ce_zrip env) (uj_compress j) (uj_level j) raw)) f)"
    if "\<And>payload. chunk_payload (ce_zrip env) (uj_compress j) (uj_level j) raw = Inr payload \<Longrightarrow> cm_keeps ok (f payload)"
    for f :: "bytes \<Rightarrow> ('s, 'w, nat) cm"
    by (cases "chunk_payload (ce_zrip env) (uj_compress j) (uj_level j) raw") (simp_all add: that keeps_fail)
  show "cm_sat (\<lambda>s. (length raw = e - start \<longrightarrow> raw = block_of D start e) \<and> in_order ok s)
      (if length raw \<noteq> e - start
       then cm_fail (Err_Storage (''read '' @ show_nat (length raw) @ '' of '' @ show_nat (e - start) @ '' bytes for '' @
            fe_path (uj_file j)))
       else cm_bind (cm_lift (chunk_payload (ce_zrip env) (uj_compress j) (uj_level j) raw)) (\<lambda>payload.
         cm_bind (send_chunk env j (job_session env j) start payload 0 0) (\<lambda>last_loaded.
         cm_bind (cm_when (min last_loaded (e - start) < e - start)
           (cm_control (add_progress (e - start - min last_loaded (e - start))))) (\<lambda>_.
         cm_bind (cm_report env) (\<lambda>_. cm_bind (cm_tick env None False) (\<lambda>_. cm_ret (e - start)))))))
      (\<lambda>_. in_order ok) (\<lambda>_. in_order ok) (in_order ok)"
    by (rule sat_fact, rule keeps_sat, rule keeps_if, rule keeps_fail, rule k)
      (auto intro!: ok_rules send_chunk_keeps [OF assms])
qed

lemma queue_keeps:
  "blocks_fine D queue \<Longrightarrow>
    cm_keeps ok (send_queue env j (job_session env j) queue errors fst_err)"
proof (induction "length queue" arbitrary: queue errors fst_err rule: less_induct)
  case less
  have "cm_keeps ok (send_queue env j (job_session env j) (drop (max n 1) queue) errors fst_err)"
    if "queue \<noteq> []" for n errors fst_err
    using less.prems that by (intro less.hyps) (auto simp: blocks_fine_def dest: in_set_dropD)
  with less.prems show ?case
    by (subst send_queue.simps) (auto simp: blocks_fine_def intro!: ok_rules one_chunk_keeps dest!: in_set_takeD)
qed

text \<open>The world in which the file is stored.\<close>

abbreviation stored :: "'w \<Rightarrow> bool" where
  "stored w \<equiv> ok w \<and> vw_stored (view w) = Some D"

lemma quiet_stored: "quiet_world env stored"
  using quiet_view [of "\<lambda>v. vw_stored v = Some D"] .

lemma stored_ok: "in_order stored s \<Longrightarrow> in_order ok s"
  by (simp add: in_order_def)

lemma probe_keeps: "cm_keeps ok (probe_session env j (job_session env j))"
  unfolding probe_session_def Let_def
  by (intro keeps_rules keeps_world) (metis probe prod.collapse)

lemma commit_post:
  "cm_sat (in_order ok) (post_chunk env j (fe_size (uj_file j)) [] False True (job_session env j) False 0)
    (\<lambda>(_, q) s. in_order ok s \<and> (q = Inr () \<longrightarrow> in_order stored s)) E N"
  unfolding post_chunk_def Let_def commit_request_def [symmetric]
proof (rule sat_bind)
  show "cm_sat (in_order ok) (cm_world (\<lambda>w.
      case ce_xhr env (commit_request env j) (cg_timeout_ms (uj_config j)) w of (ticks, r, w2) \<Rightarrow> (Inr (ticks, r), w2)) :: ('s, 'w, nat list \<times> (libfw_error + nat)) cm)
      (\<lambda>x s. in_order ok s \<and> (snd x = Inr 201 \<longrightarrow> in_order stored s)) E N"
    by (rule sat_world) (use commit in \<open>fastforce simp: in_order_def commit_step_def split: prod.splits\<close>)
qed (auto intro!: sat_ret simp: cm_sat_def cm_bind_def cm_ret_def split: sum.splits prod.splits)

lemma commit_stores:
  "cm_sat (in_order ok) (commit_upload env j (job_session env j) attempts)
    (\<lambda>_. in_order stored) (\<lambda>_. in_order ok) (in_order ok)"
proof (induction "cg_max_retries (uj_config j) - attempts" arbitrary: attempts rule: less_induct)
  case less
  have f: "cm_sat (in_order ok)
      (if cg_max_retries (uj_config j) \<le> attempts then cm_fail e
       else cm_bind (cm_call_ignored env (Call_log (retry_message ''commit'' (uj_file j) (attempts + 1)))) (\<lambda>_.
            cm_bind (cm_sleep env (config_backoff_ms (uj_config j) (attempts + 1))) (\<lambda>_.
            commit_upload env j (job_session env j) (attempts + 1))))
      (\<lambda>_. in_order stored) (\<lambda>_. in_order ok) (in_order ok)" for e
    by (intro sat_if sat_fail sat_keeps_bind quiet_keeps [OF quiet_ok] less) auto
  have "cm_sat ((\<lambda>(_, q) s. in_order ok s \<and> (q = Inr () \<longrightarrow> in_order stored s)) x)
      (case x of (_, r) \<Rightarrow> case r of Inl e \<Rightarrow>
         if cg_max_retries (uj_config j) \<le> attempts then cm_fail e
         else cm_bind (cm_call_ignored env (Call_log (retry_message ''commit'' (uj_file j) (attempts + 1)))) (\<lambda>_.
              cm_bind (cm_sleep env (config_backoff_ms (uj_config j) (attempts + 1))) (\<lambda>_.
              commit_upload env j (job_session env j) (attempts + 1)))
         | Inr _ \<Rightarrow> cm_ret ())
      (\<lambda>_. in_order stored) (\<lambda>_. in_order ok) (in_order ok)" for x :: "nat \<times> (libfw_error + unit)"
  proof (cases "snd x")
    case (Inl e)
    then show ?thesis using sat_pre [OF f [of e]] by (simp add: case_prod_beta)
  next
    case (Inr u)
    then show ?thesis by (auto intro!: sat_ret simp: case_prod_beta)
  qed
  from sat_bind [OF commit_post this] show ?case
    by (subst commit_upload.simps) (rule sat_keeps_bind [OF quiet_keeps(1) [OF quiet_ok]])
qed

text \<open>The list of missing blocks is always found, and its blocks are fine.\<close>

lemma missing_fine:
  assumes "chunk_fine c"
  shows "cm_sat P (cm_loop (aligned_missing (uj_file j) c received))
    (\<lambda>ms s. (blocks_fine D ms \<and> spans_set ms = {..<length D} - spans_set received) \<and> P s) E N"
proof -
  obtain ms where ms: "aligned_missing (uj_file j) c received = Some ms" "spans_ordered ms"
    "spans_set ms = {..<fe_size (uj_file j)} - spans_set received"
    "\<forall>m\<in>set ms. \<exists>i. i * c \<le> fst m \<and> snd m \<le> min (i * c + c) (fe_size (uj_file j))"
    using aligned_missing_spans [of c "uj_file j" received] assms small file_size
    by (auto simp: chunk_fine_def)
  have "fst m < snd m \<and> snd m \<le> length D \<and> snd m - fst m \<le> 16777216" if m: "m \<in> set ms" for m
  proof -
    from ms(4) m obtain i where "i * c \<le> fst m" "snd m \<le> min (i * c + c) (fe_size (uj_file j))" by blast
    moreover have "fst m < snd m" using ms(2) m by (rule spans_orderedD)
    moreover have "c \<le> 16777216" using assms by (simp add: chunk_fine_def)
    ultimately show ?thesis unfolding file_size min.bounded_iff by linarith
  qed
  then have "blocks_fine D ms" by (simp add: blocks_fine_def)
  then show ?thesis unfolding ms(1) using ms(3) by (intro sat_loop) (simp_all add: file_size)
qed

lemma sat_stored_bind:
  assumes "cm_keeps stored m" and "\<And>x. cm_sat (in_order stored) (f x) Q (\<lambda>_. in_order ok) (in_order ok)"
  shows "cm_sat (in_order stored) (cm_bind m f) Q (\<lambda>_. in_order ok) (in_order ok)"
  by (rule sat_bind [OF sat_conseq [OF keeps_sat [OF assms(1)]] assms(2)]) (auto simp: in_order_def)

lemmas stored_rules = keeps_rules quiet_keeps [OF quiet_stored]

text \<open>How a round ends once its commit is answered.\<close>

lemma after_commit:
  assumes "\<And>e. cm_sat (in_order ok) (f e) (\<lambda>_. in_order stored) (\<lambda>_. in_order ok) (in_order ok)"
  shows "cm_sat (in_order ok) (cm_bind (cm_attempt (commit_upload env j (job_session env j) 0)) (\<lambda>r.
      case r of Inl e \<Rightarrow> f e | Inr _ \<Rightarrow> cm_bind (cm_tick env None err) (\<lambda>_. cm_ret n)))
    (\<lambda>_. in_order stored) (\<lambda>_. in_order ok) (in_order ok)"
proof (rule sat_bind [OF sat_attempt [OF commit_stores]])
  fix r :: "libfw_error + unit"
  show "cm_sat (\<lambda>s. case r of Inl e \<Rightarrow> in_order ok s | Inr x \<Rightarrow> in_order stored s)
      (case r of Inl e \<Rightarrow> f e | Inr _ \<Rightarrow> cm_bind (cm_tick env None err) (\<lambda>_. cm_ret n))
      (\<lambda>_. in_order stored) (\<lambda>_. in_order ok) (in_order ok)"
    using assms by (cases r) (auto intro!: sat_stored_bind stored_rules sat_ret)
qed

lemma rounds_store:
  "cm_sat (in_order ok) (upload_rounds env j (job_session env j) covered received rounds fst_err)
    (\<lambda>_. in_order stored) (\<lambda>_. in_order ok) (in_order ok)"
proof (induction "cg_max_retries (uj_config j) - rounds" arbitrary: received rounds fst_err rule: less_induct)
  case less
  let ?S = "job_session env j" and ?sat = "\<lambda>m. cm_sat (in_order ok) m (\<lambda>_. in_order stored) (\<lambda>_. in_order ok) (in_order ok)"
  have g: "cm_sat (in_order ok) (cm_get (\<lambda>s. max (pm_chunk_size (te_params (cl_tune s))) 1) :: ('s, 'w, nat) cm)
      (\<lambda>c s. chunk_fine c \<and> in_order ok s) (\<lambda>_. in_order ok) (in_order ok)"
    by (rule sat_get) (metis chunk_fine_tuned in_orderD(2))
  have last_try: "?sat (cm_bind (probe_session env j ?S) (\<lambda>received2.
      cm_bind (cm_loop (aligned_missing (uj_file j) c received2)) (\<lambda>missing2.
        if missing2 = []
        then cm_bind (commit_upload env j ?S 0) (\<lambda>_. cm_ret n)
        else cm_fail (not_converged (uj_file j) (rounds + 1) e))))"
    if "chunk_fine c" for c n e
    using that
    by (intro sat_keeps_bind probe_keeps sat_bind [OF missing_fine] sat_fact sat_if sat_fail
        sat_bind [OF commit_stores] sat_ret) auto
  have again: "?sat (cm_bind (cm_call_ignored env (Call_log m)) (\<lambda>_.
      upload_rounds env j ?S covered rec2 (rounds + 1) e))"
    "?sat (cm_bind (cm_call_ignored env (Call_log m)) (\<lambda>_. cm_bind (cm_tick env None err) (\<lambda>_.
      upload_rounds env j ?S covered rec2 (rounds + 1) e)))"
    if "rounds < cg_max_retries (uj_config j)" for m rec2 e err
    using that by (intro sat_keeps_bind ok_rules less; simp)+
  show ?case
    apply (subst upload_rounds.simps)
    apply (rule sat_keeps_bind [OF quiet_keeps(1) [OF quiet_ok]])
    apply (rule sat_bind [OF g], rule sat_fact)
    apply (rule sat_keeps_bind)
    subgoal by (intro keeps_if probe_keeps keeps_ret)
    apply (rule sat_bind [OF missing_fine], assumption, rule sat_fact)
    apply (rule sat_if)
    subgoal by (rule after_commit) (intro sat_if sat_fail again(1); simp)
    subgoal for c received2 missing
      apply (rule sat_keeps_bind)
      subgoal by (rule queue_keeps) blast
      subgoal for x
        by (cases x, simp only: prod.case, rule after_commit, rule sat_if, rule last_try, assumption,
          rule again(2), simp)
      done
    done
qed

lemma resumable_stores:
  "cm_sat (in_order ok) (upload_session_resumable env j)
    (\<lambda>_. in_order stored) (\<lambda>_. in_order ok) (in_order ok)"
  unfolding upload_session_resumable_def Let_def job_session_def [symmetric]
  by (intro sat_keeps_bind ok_rules probe_keeps sat_bind [OF rounds_store] sat_stored_bind stored_rules sat_ret)

text \<open>A reported success means the file is stored.\<close>

theorem upload_stores:
  "cm_sat (in_order ok) (upload_file env j) (\<lambda>_. in_order stored) (\<lambda>_. in_order ok) (in_order ok)"
  unfolding upload_file_def
  by (intro sat_keeps_bind ok_rules sat_bind [OF resumable_stores] sat_stored_bind stored_rules sat_ret)

end

subsection \<open>Liveness\<close>

text \<open>What a retried block has done: no failure was counted, or it may have left less than the block.\<close>

definition block_adv :: "nat set \<Rightarrow> service_view \<Rightarrow> service_view \<Rightarrow> bool" where
  "block_adv A v x \<longleftrightarrow> vw_stored x = vw_stored v \<and> vw_got x \<subseteq> vw_got v \<union> A \<and> vw_budget x \<le> vw_budget v \<and>
     (vw_budget x = vw_budget v \<longrightarrow> vw_got x = vw_got v \<union> A)"

lemma block_adv_refl: "block_adv {} v v"
  by (simp add: block_adv_def)

lemma block_adv_trans: "block_adv A v x \<Longrightarrow> block_adv B x y \<Longrightarrow> block_adv (A \<union> B) v y"
  by (auto simp: block_adv_def)

lemma post_step_adv:
  "post_step A (Inr 201) v x \<Longrightarrow> block_adv A v x"
  "post_step A r v x \<Longrightarrow> r \<noteq> Inr 201 \<Longrightarrow> block_adv A x y \<Longrightarrow> block_adv A v y"
  by (auto simp: block_adv_def post_step_def)

locale reliable_service = session_service env j D ok view
  for env :: "('e, 's, 'w) client_env" and j :: upload_job and D :: bytes
    and ok :: "'w \<Rightarrow> bool" and view :: "'w \<Rightarrow> service_view" +
  assumes got_bound: "ok w \<Longrightarrow> vw_got (view w) \<subseteq> {..<length D}"
    and patient: "ok w \<Longrightarrow> running c \<Longrightarrow>
      \<exists>c2. wait_loop (fst (ce_controls env w)) c = (Some (Inr ()), c2) \<and> running c2"
    and calls: "ok w \<Longrightarrow> fst (ce_call env q w) = Inr ()"
    and reads: "ok w \<Longrightarrow> start + len \<le> length D \<Longrightarrow>
      fst (ce_read_file env (fe_path (uj_file j)) start len w) = Inr (take len (drop start D))"
    and payloads: "start < e \<Longrightarrow> e \<le> length D \<Longrightarrow> e - start \<le> 16777216 \<Longrightarrow>
      \<exists>p. chunk_payload (ce_zrip env) (uj_compress j) (uj_level j) (block_of D start e) = Inr p"
    and answers: "ok w \<Longrightarrow> \<exists>reply rs.
      fst (ce_fetch env (probe_request env j (job_session env j)) (cg_timeout_ms (uj_config j)) w) = Inr (reply, None) \<and>
      rp_status reply = 200 \<and> ce_ranges_json env (concat (rp_body reply)) = Inr rs \<and>
      (\<forall>r\<in>set rs. fst r \<le> snd r \<and> snd r \<le> u64_max) \<and> spans_set rs = vw_got (view w)"
begin

lemma quiet_all: "quiet_for env (\<lambda>_. True) (\<lambda>w. ok w \<and> view w = v)"
  by (rule quiet_forD [OF quiet])

end

sublocale reliable_service \<subseteq> steady_client env ok view "\<lambda>_. True"
  by unfold_locales (use quiet_all patient calls in auto)

context reliable_service
begin

lemma live_wire: "cm_sat (live ok view V) (wire_ticks env ticks l) (\<lambda>_. live ok view V) E N"
proof (induction ticks arbitrary: l)
  case (Cons t ticks)
  then show ?case
    unfolding wire_ticks.simps
    by (intro sat_if sat_bind [OF live_control] sat_bind [OF live_report_ignored]) simp_all
qed (simp add: sat_ret)

text \<open>One post: \<open>R\<close> is what the request does to the view.\<close>

lemma live_post:
  assumes "\<And>w ticks r w2. ok w \<Longrightarrow> ce_xhr env (post_request env j off b cmp fin session)
      (cg_timeout_ms (uj_config j)) w = (ticks, r, w2) \<Longrightarrow> ok w2 \<and> R r (view w) (view w2)"
  shows "cm_sat (live ok view (\<lambda>x. x = v)) (post_chunk env j off b cmp fin session wired l)
    (\<lambda>x. live ok view (\<lambda>y. \<exists>r. (snd x = Inr () \<longleftrightarrow> r = Inr 201) \<and> R r v y)) E N"
  unfolding post_chunk_def Let_def
proof (rule sat_bind)
  let ?req = "post_request env j off b cmp fin session"
  let ?f = "\<lambda>w. case ce_xhr env ?req (cg_timeout_ms (uj_config j)) w of (ticks, r, w2) \<Rightarrow> (Inr (ticks, r), w2)"
  show "cm_sat (live ok view (\<lambda>x. x = v)) (cm_world ?f) (\<lambda>x s. True \<and> live ok view (R (snd x) v) s) E N"
    by (rule live_world) (use assms in \<open>auto split: prod.splits\<close>)
  fix x :: "nat list \<times> (libfw_error + nat)"
  obtain ticks r where x: "x = (ticks, r)" by force
  let ?q = "case r of Inl e \<Rightarrow> Inl e | Inr status \<Rightarrow> if status = 201 then Inr () else Inl (Err_Http status (rq_url ?req))"
  have "?q = Inr () \<longleftrightarrow> r = Inr 201" by (cases r) simp_all
  then have "cm_sat (live ok view (R r v)) (cm_ret (last2, ?q))
      (\<lambda>x. live ok view (\<lambda>y. \<exists>r. (snd x = Inr () \<longleftrightarrow> r = Inr 201) \<and> R r v y)) E N" for last2
    by (intro sat_ret) (auto simp: live_def in_order_def)
  then show "cm_sat (\<lambda>s. True \<and> live ok view (R (snd x) v) s)
      (case x of (ticks, r) \<Rightarrow> cm_bind (if wired then wire_ticks env ticks l else cm_ret l) (\<lambda>last2. cm_ret (last2,
         case r of Inl e \<Rightarrow> Inl e | Inr status \<Rightarrow> if status = 201 then Inr () else Inl (Err_Http status (rq_url ?req)))))
      (\<lambda>x. live ok view (\<lambda>y. \<exists>r. (snd x = Inr () \<longleftrightarrow> r = Inr 201) \<and> R r v y)) E N"
    unfolding x prod.case by (intro sat_bind [where ?Q1.0 = "\<lambda>_. live ok view (R r v)"] sat_if) (simp_all add: live_wire sat_ret)
qed

text \<open>A block gets through as long as there are more retries than failures to come.\<close>

lemma live_send:
  assumes "start < e" and "e \<le> length D" and "e - start \<le> 16777216"
    and p: "chunk_payload (ce_zrip env) (uj_compress j) (uj_level j) (block_of D start e) = Inr p"
    and "attempts + vw_budget v \<le> cg_max_retries (uj_config j)"
  shows "cm_sat (live ok view (\<lambda>x. x = v)) (send_chunk env j (job_session env j) start p attempts l)
    (\<lambda>_. live ok view (block_adv {start..<e} v)) E N"
  using assms(5)
proof (induction "cg_max_retries (uj_config j) - attempts" arbitrary: attempts l v rule: less_induct)
  case less
  let ?next = "\<lambda>(last2, r). case r of Inr _ \<Rightarrow> cm_ret last2 | Inl err \<Rightarrow>
      if cg_max_retries (uj_config j) \<le> attempts then cm_fail err
      else cm_bind (cm_call_ignored env (Call_log (retry_message ''chunk'' (uj_file j) (attempts + 1)))) (\<lambda>_.
           cm_bind (cm_sleep env (config_backoff_ms (uj_config j) (attempts + 1))) (\<lambda>_.
           send_chunk env j (job_session env j) start p (attempts + 1) last2))"
  have "cm_sat (live ok view (\<lambda>x. x = v)) (post_chunk env j start p (uj_compress j) False (job_session env j) True l)
      (\<lambda>x. live ok view (\<lambda>y. \<exists>r. (snd x = Inr () \<longleftrightarrow> r = Inr 201) \<and> post_step {start..<e} r v y)) E N"
    by (rule live_post) (rule post [OF _ assms(1-3) p, unfolded block_request_def])
  moreover have "cm_sat (live ok view (\<lambda>y. \<exists>r. (snd x = Inr () \<longleftrightarrow> r = Inr 201) \<and> post_step {start..<e} r v y))
      (?next x) (\<lambda>_. live ok view (block_adv {start..<e} v)) E N" for x
  proof (rule live_cases)
    fix y assume "\<exists>r. (snd x = Inr () \<longleftrightarrow> r = Inr 201) \<and> post_step {start..<e} r v y"
    then obtain r where r: "snd x = Inr () \<longleftrightarrow> r = Inr 201" "post_step {start..<e} r v y" by blast
    show "cm_sat (live ok view (\<lambda>x. x = y)) (?next x) (\<lambda>_. live ok view (block_adv {start..<e} v)) E N"
    proof (cases "snd x")
      case (Inr u)
      with r have "block_adv {start..<e} v y" by (simp add: post_step_adv(1))
      with Inr show ?thesis by (auto simp: case_prod_beta intro!: sat_ret elim: live_mono)
    next
      case (Inl err)
      with r have n: "r \<noteq> Inr 201" by auto
      with r have b: "vw_budget y < vw_budget v" by (simp add: post_step_def)
      have "cm_sat (live ok view (\<lambda>x. x = y)) (send_chunk env j (job_session env j) start p (attempts + 1) l2)
          (\<lambda>_. live ok view (block_adv {start..<e} y)) E N" for l2
        by (rule less.hyps) (use b less.prems in auto)
      then have "cm_sat (live ok view (\<lambda>x. x = y)) (send_chunk env j (job_session env j) start p (attempts + 1) l2)
          (\<lambda>_. live ok view (block_adv {start..<e} v)) E N" for l2
        by (rule sat_conseq) (auto elim!: live_mono intro: post_step_adv(2) [OF r(2) n])
      moreover have "\<not> cg_max_retries (uj_config j) \<le> attempts" using b less.prems by simp
      ultimately show ?thesis
        using Inl by (auto simp: case_prod_beta intro!: sat_bind [OF live_call_ignored [OF TrueI]] sat_bind [OF live_sleep])
    qed
  qed
  ultimately show ?case
    by (subst send_chunk.simps) (rule sat_bind [OF live_ready sat_bind])
qed

lemma live_read:
  assumes "start < e" and "e \<le> length D"
  shows "cm_sat (live ok view V) (cm_world (ce_read_file env (fe_path (uj_file j)) start (e - start)))
    (\<lambda>raw s. raw = block_of D start e \<and> live ok view V s) E N"
proof (rule live_world)
  fix w assume w: "ok w" "V (view w)"
  then have "ok (snd (ce_read_file env (fe_path (uj_file j)) start (e - start) w)) \<and>
      V (view (snd (ce_read_file env (fe_path (uj_file j)) start (e - start) w)))"
    using quiet_view [of V] by (simp add: quiet_world_def)
  with reads [OF w(1), of start "e - start"] assms
  show "\<exists>x. fst (ce_read_file env (fe_path (uj_file j)) start (e - start) w) = Inr x \<and> x = block_of D start e \<and>
      ok (snd (ce_read_file env (fe_path (uj_file j)) start (e - start) w)) \<and>
      V (view (snd (ce_read_file env (fe_path (uj_file j)) start (e - start) w)))"
    by (simp add: block_of_def)
qed

lemma length_block_of: "start < e \<Longrightarrow> e \<le> length D \<Longrightarrow> length (block_of D start e) = e - start"
  by (simp add: block_of_def)

lemma live_chunk:
  assumes "start < e" and "e \<le> length D" and "e - start \<le> 16777216"
    and "vw_budget v \<le> cg_max_retries (uj_config j)"
  shows "cm_sat (live ok view (\<lambda>x. x = v)) (upload_one_chunk env j (job_session env j) start e)
    (\<lambda>_. live ok view (block_adv {start..<e} v)) E N"
proof -
  obtain p where p: "chunk_payload (ce_zrip env) (uj_compress j) (uj_level j) (block_of D start e) = Inr p"
    using payloads [OF assms(1-3)] by blast
  have "0 + vw_budget v \<le> cg_max_retries (uj_config j)" using assms(4) by simp
  note send = live_send [OF assms(1-3) p this]
  show ?thesis
    unfolding upload_one_chunk_def Let_def
    apply (rule sat_bind [OF live_ready])
    apply (rule sat_bind [OF live_read [OF assms(1,2)]])
    apply (rule sat_fact)
    subgoal for _ raw
      using length_block_of [OF assms(1,2)]
      by (auto simp: p intro!: sat_bind [OF send] sat_bind [OF sat_when [OF live_control]] sat_bind [OF live_report]
          sat_bind [OF live_tick] sat_ret)
    done
qed

lemma live_tasks:
  assumes "\<forall>m\<in>set ms. fst m < snd m \<and> snd m \<le> length D \<and> snd m - fst m \<le> 16777216"
    and "vw_budget v \<le> cg_max_retries (uj_config j)"
  shows "cm_sat (live ok view (\<lambda>x. x = v)) (cm_tasks ms (\<lambda>(s, e). upload_one_chunk env j (job_session env j) s e))
    (\<lambda>_. live ok view (block_adv (spans_set ms) v)) E N"
  using assms
proof (induction ms arbitrary: v)
  case Nil
  then show ?case by (auto intro!: sat_ret simp: block_adv_refl elim: live_mono)
next
  case (Cons m ms)
  let ?f = "\<lambda>(s, e). upload_one_chunk env j (job_session env j) s e"
  have c: "cm_sat (live ok view (\<lambda>x. x = v)) (?f m) (\<lambda>_. live ok view (block_adv {fst m..<snd m} v)) (\<lambda>_ _. False) N"
    using live_chunk [of "fst m" "snd m" v] Cons.prems by (simp add: case_prod_beta)
  have t: "cm_sat (live ok view (block_adv {fst m..<snd m} v)) (cm_tasks ms ?f)
      (\<lambda>_. live ok view (block_adv (spans_set (m # ms)) v)) E N"
  proof (rule live_cases)
    fix y assume y: "block_adv {fst m..<snd m} v y"
    then have "vw_budget y \<le> cg_max_retries (uj_config j)" using Cons.prems(2) by (simp add: block_adv_def)
    with Cons.IH [of y] Cons.prems(1)
    have "cm_sat (live ok view (\<lambda>x. x = y)) (cm_tasks ms ?f) (\<lambda>_. live ok view (block_adv (spans_set ms) y)) E N" by simp
    then show "cm_sat (live ok view (\<lambda>x. x = y)) (cm_tasks ms ?f)
        (\<lambda>_. live ok view (block_adv (spans_set (m # ms)) v)) E N"
      by (rule sat_conseq) (auto elim!: live_mono dest: block_adv_trans [OF y])
  qed
  show ?case
    unfolding cm_tasks.simps
    by (rule sat_bind [OF sat_attempt [OF c]], rule sat_pre [OF sat_bind [OF t sat_ret]])
      (auto split: sum.splits)
qed

lemma live_unordered:
  assumes "blocks_fine D ms" and "vw_budget v \<le> cg_max_retries (uj_config j)"
  shows "cm_sat (live ok view (\<lambda>x. x = v))
    (cm_unordered env ms (\<lambda>(s, e). upload_one_chunk env j (job_session env j) s e))
    (\<lambda>_. live ok view (block_adv (spans_set ms) v)) E N"
proof -
  have "spans_set (arrange perm ms) = spans_set ms" for perm by (simp add: spans_set_def)
  then have "cm_sat (live ok view (\<lambda>x. x = v))
      (cm_tasks (arrange perm ms) (\<lambda>(s, e). upload_one_chunk env j (job_session env j) s e))
      (\<lambda>_. live ok view (block_adv (spans_set ms) v)) E N" for perm
    using live_tasks [of "arrange perm ms" v] assms by (simp add: blocks_fine_def)
  then show ?thesis unfolding cm_unordered_def by (intro sat_bind [OF live_order])
qed

lemma live_queue:
  assumes "blocks_fine D queue" and "vw_budget v \<le> cg_max_retries (uj_config j)"
  shows "cm_sat (live ok view (\<lambda>x. x = v)) (send_queue env j (job_session env j) queue errors fst_err)
    (\<lambda>_. live ok view (block_adv (spans_set queue) v)) E N"
  using assms
proof (induction "length queue" arbitrary: queue errors fst_err v rule: less_induct)
  case less
  let ?f = "\<lambda>(s, e). upload_one_chunk env j (job_session env j) s e" and ?t = "\<lambda>n. take (max n 1) queue"
    and ?d = "\<lambda>n. drop (max n 1) queue"
  show ?case
  proof (cases "queue = []")
    case True
    then show ?thesis
      by (subst send_queue.simps) (auto intro!: sat_ret elim: live_mono simp: block_adv_refl)
  next
    case False
    have fine: "blocks_fine D (?t n)" "blocks_fine D (?d n)" for n
      using less.prems(1) by (auto simp: blocks_fine_def dest: in_set_takeD in_set_dropD)
    have un: "spans_set (?t n) \<union> spans_set (?d n) = spans_set queue" for n
      by (metis append_take_drop_id spans_set_simps(3))
    have rest: "cm_sat (live ok view (block_adv (spans_set (?t n)) v))
        (send_queue env j (job_session env j) (?d n) errs fe) (\<lambda>_. live ok view (block_adv (spans_set queue) v)) E N"
      for n errs fe
    proof (rule live_cases)
      fix y assume y: "block_adv (spans_set (?t n)) v y"
      have "cm_sat (live ok view (\<lambda>x. x = y)) (send_queue env j (job_session env j) (?d n) errs fe)
          (\<lambda>_. live ok view (block_adv (spans_set (?d n)) y)) E N"
        by (rule less.hyps) (use False fine less.prems(2) y in \<open>auto simp: block_adv_def\<close>)
      then show "cm_sat (live ok view (\<lambda>x. x = y)) (send_queue env j (job_session env j) (?d n) errs fe)
          (\<lambda>_. live ok view (block_adv (spans_set queue) v)) E N"
      proof (rule sat_conseq)
        fix s :: "('s, 'w) client" assume "live ok view (block_adv (spans_set (?d n)) y) s"
        then show "live ok view (block_adv (spans_set queue) v) s"
          by (rule live_mono) (rule block_adv_trans [OF y, of "spans_set (?d n)", unfolded un])
      qed
    qed
    have g: "cm_sat (live ok view (\<lambda>x. x = v)) (cm_get g) (\<lambda>_. live ok view (\<lambda>x. x = v)) E N"
      for g :: "('s, 'w) client \<Rightarrow> nat" by (rule sat_get)
    show ?thesis
      by (subst send_queue.simps, simp only: False if_False, rule sat_bind [OF g],
        rule sat_bind [OF live_unordered [OF fine(1) less.prems(2)]], rule rest)
  qed
qed

text \<open>A commit of a complete session is refused only at the price of a failure.\<close>

definition refused :: "service_view \<Rightarrow> service_view \<Rightarrow> bool" where
  "refused v y \<longleftrightarrow> vw_budget y \<le> vw_budget v \<and> (vw_got v = {..<length D} \<longrightarrow> vw_budget y < vw_budget v)"

definition in_place :: "service_view \<Rightarrow> bool" where
  "in_place y \<longleftrightarrow> vw_stored y = Some D"

lemma live_commit:
  "cm_sat (live ok view (\<lambda>x. x = v)) (commit_upload env j (job_session env j) attempts)
    (\<lambda>_. live ok view in_place) (\<lambda>_. live ok view (refused v)) N"
proof (induction "cg_max_retries (uj_config j) - attempts" arbitrary: attempts v rule: less_induct)
  case less
  let ?next = "\<lambda>(_, r). case r of Inr _ \<Rightarrow> cm_ret () | Inl err \<Rightarrow>
      if cg_max_retries (uj_config j) \<le> attempts then cm_fail err
      else cm_bind (cm_call_ignored env (Call_log (retry_message ''commit'' (uj_file j) (attempts + 1)))) (\<lambda>_.
           cm_bind (cm_sleep env (config_backoff_ms (uj_config j) (attempts + 1))) (\<lambda>_.
           commit_upload env j (job_session env j) (attempts + 1)))"
  have "cm_sat (live ok view (\<lambda>x. x = v)) (post_chunk env j (fe_size (uj_file j)) [] False True (job_session env j) False 0)
      (\<lambda>x. live ok view (\<lambda>y. \<exists>r. (snd x = Inr () \<longleftrightarrow> r = Inr 201) \<and> commit_step D r v y))
      (\<lambda>_. live ok view (refused v)) N"
    by (rule live_post) (rule commit [unfolded commit_request_def])
  moreover have "cm_sat (live ok view (\<lambda>y. \<exists>r. (snd x = Inr () \<longleftrightarrow> r = Inr 201) \<and> commit_step D r v y))
      (?next x) (\<lambda>_. live ok view in_place) (\<lambda>_. live ok view (refused v)) N" for x
  proof (rule live_cases)
    fix y assume "\<exists>r. (snd x = Inr () \<longleftrightarrow> r = Inr 201) \<and> commit_step D r v y"
    then obtain r where r: "snd x = Inr () \<longleftrightarrow> r = Inr 201" "commit_step D r v y" by blast
    show "cm_sat (live ok view (\<lambda>x. x = y)) (?next x) (\<lambda>_. live ok view in_place) (\<lambda>_. live ok view (refused v)) N"
    proof (cases "snd x")
      case (Inr u)
      with r have p: "in_place y" by (simp add: commit_step_def in_place_def)
      have "live ok view in_place s" if "live ok view (\<lambda>x. x = y) s" for s :: "('s, 'w) client"
        using that by (rule live_mono) (simp add: p)
      then show ?thesis unfolding case_prod_beta Inr sum.case by (rule sat_ret)
    next
      case (Inl err)
      with r(1) have "r \<noteq> Inr 201" by auto
      then have b: "refused v y" using r(2) by (simp only: commit_step_def refused_def if_False simp_thms) blast
      have t: "refused v z" if "refused y z" for z
        using b that le_less_trans le_trans unfolding refused_def by blast
      have n: "cm_sat (live ok view (\<lambda>x. x = y)) (commit_upload env j (job_session env j) (attempts + 1))
          (\<lambda>_. live ok view in_place) (\<lambda>_. live ok view (refused v)) N"
        if "\<not> cg_max_retries (uj_config j) \<le> attempts"
      proof (rule sat_conseq [OF less.hyps])
        show "cg_max_retries (uj_config j) - (attempts + 1) < cg_max_retries (uj_config j) - attempts" using that by simp
        show "live ok view (refused v) s" if "live ok view (refused y) s" for s :: "('s, 'w) client"
          using that by (rule live_mono) (rule t)
      qed
      have "live ok view (refused v) s" if "live ok view (\<lambda>x. x = y) s" for s :: "('s, 'w) client"
        using that by (rule live_mono) (simp add: b)
      with n show ?thesis
        unfolding case_prod_beta Inl sum.case
        by (intro sat_if sat_fail sat_bind [OF live_call_ignored [OF TrueI]] sat_bind [OF live_sleep])
    qed
  qed
  ultimately show ?case
    by (subst commit_upload.simps) (rule sat_bind [OF live_ready sat_bind])
qed

text \<open>A probe tells what the session holds.\<close>

lemma live_probe:
  "cm_sat (live ok view (\<lambda>x. x = v)) (probe_session env j (job_session env j))
    (\<lambda>rs s. (spans_set rs = vw_got v \<and> (\<forall>r\<in>set rs. fst r \<le> snd r \<and> snd r \<le> u64_max)) \<and> live ok view (\<lambda>x. x = v) s) E N"
proof -
  let ?A = "\<lambda>x. \<exists>reply rs. x = (reply, None) \<and> rp_status reply = 200 \<and>
      ce_ranges_json env (concat (rp_body reply)) = Inr rs \<and> (\<forall>r\<in>set rs. fst r \<le> snd r \<and> snd r \<le> u64_max) \<and> spans_set rs = vw_got v"
  let ?f = "ce_fetch env (probe_request env j (job_session env j)) (cg_timeout_ms (uj_config j))"
  have f: "cm_sat (live ok view (\<lambda>x. x = v)) (cm_world ?f) (\<lambda>x s. ?A x \<and> live ok view (\<lambda>x. x = v) s) E N"
  proof (rule live_world)
    fix w assume w: "ok w" "view w = v"
    have k: "ok (snd (?f w)) \<and> view (snd (?f w)) = v"
      using probe [OF w(1) prod.collapse [symmetric]] w(2) by simp
    obtain reply rs where "fst (?f w) = Inr (reply, None)" "rp_status reply = 200"
      "ce_ranges_json env (concat (rp_body reply)) = Inr rs" "\<forall>r\<in>set rs. fst r \<le> snd r \<and> snd r \<le> u64_max" "spans_set rs = vw_got v"
      using answers [OF w(1)] w(2) by blast
    with k show "\<exists>x. fst (?f w) = Inr x \<and> ?A x \<and> ok (snd (?f w)) \<and> view (snd (?f w)) = v"
      by (intro exI [of _ "(reply, None)"]) simp
  qed
  have m: "map (\<lambda>(s, e). (s, max e s)) rs = rs" if "\<forall>r\<in>set rs. fst r \<le> snd r \<and> snd r \<le> u64_max" for rs :: "(nat \<times> nat) list"
    using that by (intro map_idI) (auto simp: max_def)
  show ?thesis
    unfolding probe_session_def Let_def
    by (rule sat_bind [OF f], rule sat_fact) (auto simp: m intro!: sat_ret)
qed

lemma live_bound:
  assumes "vw_got v \<subseteq> {..<length D} \<Longrightarrow> cm_sat (live ok view (\<lambda>x. x = v)) m Q E N"
  shows "cm_sat (live ok view (\<lambda>x. x = v)) m Q E N"
  using assms got_bound by (auto simp: cm_sat_def live_def in_order_def)

lemma live_after_commit:
  assumes "\<And>e y. refused v y \<Longrightarrow> cm_sat (live ok view (\<lambda>x. x = y)) (f e) (\<lambda>x s. x = n \<and> live ok view in_place s) E N"
  shows "cm_sat (live ok view (\<lambda>x. x = v)) (cm_bind (cm_attempt (commit_upload env j (job_session env j) 0)) (\<lambda>r.
      case r of Inl e \<Rightarrow> f e | Inr _ \<Rightarrow> cm_bind (cm_tick env None err) (\<lambda>_. cm_ret n)))
    (\<lambda>x s. x = n \<and> live ok view in_place s) E N"
proof (rule sat_bind [OF sat_attempt [OF live_commit]])
  fix r :: "libfw_error + unit"
  show "cm_sat (\<lambda>s. case r of Inl e \<Rightarrow> live ok view (refused v) s | Inr x \<Rightarrow> live ok view in_place s)
      (case r of Inl e \<Rightarrow> f e | Inr _ \<Rightarrow> cm_bind (cm_tick env None err) (\<lambda>_. cm_ret n))
      (\<lambda>x s. x = n \<and> live ok view in_place s) E N"
  proof (cases r)
    case (Inl e)
    show ?thesis unfolding Inl sum.case by (rule live_cases) (rule assms)
  next
    case (Inr u)
    show ?thesis unfolding Inr sum.case by (rule sat_bind [OF live_tick]) (rule sat_ret, simp)
  qed
qed

lemma live_rounds:
  assumes "rounds + vw_budget v \<le> cg_max_retries (uj_config j)"
    and "rounds = 0 \<Longrightarrow> spans_set received0 = vw_got v"
  shows "cm_sat (live ok view (\<lambda>x. x = v))
    (upload_rounds env j (job_session env j) covered received0 rounds fst_err)
    (\<lambda>n s. n = length D - covered \<and> live ok view in_place s) E N"
  using assms
proof (induction "cg_max_retries (uj_config j) - rounds" arbitrary: v received0 rounds fst_err rule: less_induct)
  case less
  let ?S = "job_session env j" and ?Q = "\<lambda>n s. n = length D - covered \<and> live ok view in_place s"
  let ?max = "cg_max_retries (uj_config j)"
  have again: "cm_sat (live ok view (\<lambda>x. x = y)) (upload_rounds env j ?S covered rec2 (rounds + 1) e2) ?Q E N"
    if "vw_budget y < vw_budget v" for y rec2 e2
    by (rule less.hyps) (use that less.prems(1) in auto)
  have out: "vw_budget y < vw_budget v \<Longrightarrow> \<not> ?max \<le> rounds" for y using less.prems(1) by simp
  have g: "cm_sat (live ok view (\<lambda>x. x = v)) (cm_get (\<lambda>s. max (pm_chunk_size (te_params (cl_tune s))) 1) :: ('s, 'w, nat) cm)
      (\<lambda>c s. chunk_fine c \<and> live ok view (\<lambda>x. x = v) s) E N"
    by (rule sat_get) (metis chunk_fine_tuned in_orderD(2) live_def)
  have r: "cm_sat (live ok view (\<lambda>x. x = v)) (if 0 < rounds then probe_session env j ?S else cm_ret received0)
      (\<lambda>rs s. spans_set rs = vw_got v \<and> live ok view (\<lambda>x. x = v) s) E N"
    using less.prems(2) by (intro sat_if sat_conseq [OF live_probe] sat_ret) auto
  show ?case
    apply (rule live_bound)
    apply (subst upload_rounds.simps)
    apply (rule sat_bind [OF live_ready])
    apply (rule sat_bind [OF g], rule sat_fact)
    apply (rule sat_bind [OF r], rule sat_fact)
    apply (rule sat_bind [OF missing_fine], assumption, rule sat_fact)
    apply (rule sat_if)
    subgoal premises p for _ c rs ms
    proof -
      have full: "vw_got v = {..<length D}" using p by auto
      show ?thesis
        unfolding file_size
      proof (rule live_after_commit)
        fix e y assume "refused v y"
        with full have b: "vw_budget y < vw_budget v" by (simp add: refused_def)
        show "cm_sat (live ok view (\<lambda>x. x = y)) (if ?max \<le> rounds then cm_fail e
            else cm_bind (cm_call_ignored env (Call_log (verify_message (uj_file j)))) (\<lambda>_.
              upload_rounds env j ?S covered rs (rounds + 1) (insert_error fst_err e))) ?Q E N"
          unfolding if_not_P [OF out [OF b]] by (rule sat_bind [OF live_call_ignored [OF TrueI]]) (rule again [OF b])
      qed
    qed
    subgoal premises p for _ c rs ms
    proof -
      have "vw_budget v \<le> ?max" using less.prems(1) by simp
      with p have q: "cm_sat (live ok view (\<lambda>x. x = v)) (send_queue env j ?S ms 0 fst_err)
          (\<lambda>_. live ok view (block_adv (spans_set ms) v)) E N" by (intro live_queue) auto
      have lower: "vw_budget z < vw_budget v" if y: "block_adv (spans_set ms) v y" and z: "refused y z" for y z
      proof (cases "vw_budget y = vw_budget v")
        case True
        with y p have "vw_got y = {..<length D}" by (auto simp: block_adv_def)
        with z True show ?thesis by (simp add: refused_def)
      next
        case False
        with y z show ?thesis by (simp add: block_adv_def refused_def)
      qed
      show ?thesis
        apply (rule sat_bind [OF q])
        subgoal for x
          apply (cases x, simp only: prod.case file_size)
          apply (rule live_cases, rule live_after_commit)
          apply (rule sat_if)
          subgoal premises w
            using out [OF lower [OF w(2,3)]] w(4) by simp
          apply (rule sat_bind [OF live_call_ignored [OF TrueI]], rule sat_bind [OF live_tick], rule again)
          apply (rule lower, assumption+)
          done
        done
    qed
    done
qed

lemma covered_exact:
  assumes "\<forall>r\<in>set rs. fst r \<le> snd r \<and> snd r \<le> u64_max"
  shows "probe_covered rs = card (spans_set rs)"
proof -
  have "map (\<lambda>(s, e). (min s e, max s e)) rs = rs" using assms by (intro map_idI) (auto simp: min_def max_def)
  moreover have "\<forall>r\<in>set rs. max (fst r) (snd r) \<le> u64_max" using assms by (auto simp: max_def)
  ultimately show ?thesis using probe_covered_card by metis
qed

lemma live_resumable:
  assumes "vw_budget v \<le> cg_max_retries (uj_config j)"
  shows "cm_sat (live ok view (\<lambda>x. x = v)) (upload_session_resumable env j)
    (\<lambda>n s. n = length D - card (vw_got v) \<and> live ok view in_place s) E N"
  unfolding upload_session_resumable_def Let_def job_session_def [symmetric]
proof (rule live_bound, rule sat_bind [OF live_probe], rule sat_fact)
  fix rs assume got: "vw_got v \<subseteq> {..<length D}"
    and rs: "spans_set rs = vw_got v \<and> (\<forall>r\<in>set rs. fst r \<le> snd r \<and> snd r \<le> u64_max)"
  have "card (vw_got v) \<le> length D" using card_mono [OF _ got] by simp
  then have c: "min (probe_covered rs) (fe_size (uj_file j)) = card (vw_got v)"
    using covered_exact [of rs] rs by (simp add: file_size)
  have "0 + vw_budget v \<le> cg_max_retries (uj_config j)" using assms by simp
  then have r: "cm_sat (live ok view (\<lambda>x. x = v)) (upload_rounds env j (job_session env j) (card (vw_got v)) rs 0 None)
      (\<lambda>n s. n = length D - card (vw_got v) \<and> live ok view in_place s) E N"
    by (rule live_rounds) (use rs in simp)
  show "cm_sat (live ok view (\<lambda>x. x = v))
      (cm_bind (cm_when (0 < min (probe_covered rs) (fe_size (uj_file j)))
          (cm_bind (cm_control (add_progress (min (probe_covered rs) (fe_size (uj_file j))))) (\<lambda>_. cm_report env))) (\<lambda>_.
       cm_bind (cm_when (fe_size (uj_file j) \<le> min (probe_covered rs) (fe_size (uj_file j)))
          (cm_call_ignored env (Call_log (''upload '' @ fe_path (uj_file j) @ '' already fully present'')))) (\<lambda>_.
       cm_bind (upload_rounds env j (job_session env j) (min (probe_covered rs) (fe_size (uj_file j))) rs 0 None) (\<lambda>uploaded.
       cm_bind (cm_call env (Call_save_state ''upload'' (fe_path (uj_file j))
          (state_json (fe_size (uj_file j)) (fm_etag (to_meta (ce_sha env) (uj_file j))) (fe_size (uj_file j))))) (\<lambda>_.
       cm_ret uploaded)))))
      (\<lambda>n s. n = length D - card (vw_got v) \<and> live ok view in_place s) E N"
    unfolding c
    apply (rule sat_bind [OF sat_when], rule sat_bind [OF live_control], simp, rule live_report, assumption)
    apply (rule sat_bind [OF sat_when], rule live_call_ignored [OF TrueI], assumption)
    apply (rule sat_bind [OF r], rule sat_fact, rule sat_bind [OF live_call [OF TrueI]], rule sat_ret, simp)
    done
qed

text \<open>
  With no more failures than retries, the upload succeeds, counts the bytes it has sent, and the file
  is stored.
\<close>

theorem upload_succeeds:
  assumes "vw_budget v \<le> cg_max_retries (uj_config j)"
  shows "cm_sat (live ok view (\<lambda>x. x = v)) (upload_file env j)
    (\<lambda>n s. n = length D - card (vw_got v) \<and> live ok view in_place s) E N"
  unfolding upload_file_def
  by (rule sat_bind [OF live_call [OF TrueI]], rule sat_bind [OF live_resumable [OF assms]], rule sat_fact,
    rule sat_bind [OF live_call [OF TrueI]], rule sat_ret, simp)

end

end
