(* ===== verification/Claims_Auth.thy ===== *)
theory Claims_Auth
  imports Http
begin

text \<open>
  Authorization: the token claims (libfw-core, \<open>claims.rs\<close>), the action and error types and the
  default path validator (\<open>auth.rs\<close>), and the bearer-token extractor of the server
  (libfw-server, \<open>auth.rs\<close>).  The token verifier is the application's and a parameter, as is the
  clock.
\<close>

subsection \<open>Claims\<close>

datatype permission = Perm_Read | Perm_Write

fun permission_display :: "permission \<Rightarrow> string" where
  "permission_display Perm_Read = ''read''"
| "permission_display Perm_Write = ''write''"

record token_claims =
  tc_sub :: string
  tc_exp :: "int option"
  tc_permissions :: "permission list"
  tc_allowed_paths :: "string list"

definition is_expired :: "token_claims \<Rightarrow> int \<Rightarrow> bool" where
  "is_expired c now = (case tc_exp c of None \<Rightarrow> False | Some e \<Rightarrow> e \<le> now)"

definition has_permission :: "token_claims \<Rightarrow> permission \<Rightarrow> bool" where
  "has_permission c p = List.member (tc_permissions c) p"

subsection \<open>Actions and errors\<close>

datatype action = Act_Read | Act_Write

fun required_permission :: "action \<Rightarrow> permission" where
  "required_permission Act_Read = Perm_Read"
| "required_permission Act_Write = Perm_Write"

fun action_display :: "action \<Rightarrow> string" where
  "action_display Act_Read = ''read''"
| "action_display Act_Write = ''write''"

datatype auth_error =
    MissingToken
  | Invalid string
  | Expired
  | Forbidden string action

type_synonym validator = "token_claims \<Rightarrow> string \<Rightarrow> action \<Rightarrow> auth_error + unit"

subsection \<open>The path validator\<close>

definition path_matches_any :: "string \<Rightarrow> string list \<Rightarrow> bool" where
  "path_matches_any path pres =
     (let p = trim_start_char CHR ''/'' path in
      list_ex
        (\<lambda>pre. let q = trim_char CHR ''/'' pre in
           if q = [] then True
           else if p = q then True
           else starts_with p q \<and> length q < length p \<and> p ! length q = CHR ''/'')
        pres)"

text \<open>\<open>now\<close> is the value \<open>now_epoch_seconds()\<close> reads from the clock.\<close>

definition path_validate :: "bool \<Rightarrow> int \<Rightarrow> validator" where
  "path_validate raw_prefix_match now claims path action =
     (if is_expired claims now then Inl Expired
      else if \<not> has_permission claims (required_permission action) then Inl (Forbidden path action)
      else let allowed =
             (if raw_prefix_match
              then list_ex (\<lambda>pre. starts_with path pre) (tc_allowed_paths claims)
              else path_matches_any path (tc_allowed_paths claims))
           in if \<not> allowed then Inl (Forbidden path action) else Inr ())"

subsection \<open>Bearer tokens\<close>

datatype auth_rejection = Unauthorized string | Rej_Forbidden string string

fun auth_rejection_of :: "auth_error \<Rightarrow> auth_rejection" where
  "auth_rejection_of MissingToken = Unauthorized ''missing bearer token''"
| "auth_rejection_of (Invalid msg) = Unauthorized (''invalid token: '' @ msg)"
| "auth_rejection_of Expired = Unauthorized ''token expired''"
| "auth_rejection_of (Forbidden path action) = Rej_Forbidden path (action_display action)"

definition error_json :: "string \<Rightarrow> json" where
  "error_json msg = JObj [(''error'', JStr msg)]"

fun auth_rejection_response :: "auth_rejection \<Rightarrow> response" where
  "auth_rejection_response (Unauthorized msg) =
     \<lparr> rs_status = 401, rs_headers = [], rs_body = Json_body (error_json msg) \<rparr>"
| "auth_rejection_response (Rej_Forbidden path action) =
     \<lparr> rs_status = 403, rs_headers = [],
       rs_body = Json_body (error_json (''permission denied: '' @ action @ '' on `'' @ path @ ''`'')) \<rparr>"

definition bearer_claims ::
  "(string \<Rightarrow> auth_error + token_claims) \<Rightarrow> headers \<Rightarrow> auth_rejection + token_claims" where
  "bearer_claims verify hs =
     res_bind (ok_or (Unauthorized ''missing bearer token'') (header_get hs ''authorization''))
       (\<lambda>value.
     res_bind (ok_or (Unauthorized ''malformed authorization header'')
               (map_option str_trim (strip_prefix value ''Bearer '')))
       (\<lambda>token. map_err auth_rejection_of (verify token)))"

subsection \<open>Properties\<close>

lemma path_matches_any_segments:
  "path_matches_any path pres \<longleftrightarrow>
    (\<exists>pre\<in>set pres. trim_char CHR ''/'' pre = [] \<or>
       prefix (split_on CHR ''/'' (trim_char CHR ''/'' pre))
              (split_on CHR ''/'' (trim_start_char CHR ''/'' path)))"
  unfolding path_matches_any_def Let_def list_ex_iff split_prefix_iff boundary_prefix by auto

text \<open>
  C21: the default validator accepts a request exactly when the token has not expired, carries the
  permission of the action, and one of its allowed paths (slashes trimmed) is empty or a prefix of
  the requested path as a list of segments: \<open>docs\<close> covers \<open>docs/a\<close> and never \<open>docshop/a\<close>.
\<close>

theorem path_validate_accepts_iff:
  "path_validate False now claims path act = Inr () \<longleftrightarrow>
    (\<forall>e. tc_exp claims = Some e \<longrightarrow> now < e) \<and>
    required_permission act \<in> set (tc_permissions claims) \<and>
    (\<exists>pre\<in>set (tc_allowed_paths claims). trim_char CHR ''/'' pre = [] \<or>
       prefix (split_on CHR ''/'' (trim_char CHR ''/'' pre))
              (split_on CHR ''/'' (trim_start_char CHR ''/'' path)))"
  unfolding path_validate_def Let_def
  by (auto simp: path_matches_any_segments is_expired_def has_permission_def
      split: option.splits)

theorem path_validate_accepts_iff_witness:
  "path_validate False 5
     \<lparr> tc_sub = ''u'', tc_exp = Some 6, tc_permissions = [Perm_Read], tc_allowed_paths = [''/docs''] \<rparr>
     ''docs/a'' Act_Read = Inr ()"
  unfolding path_validate_accepts_iff
  by (simp add: trim_char_def trim_start_char_def trim_end_char_def)


subsection \<open>Validators as an interface\<close>

text \<open>
  What the server's callers rely on: a validator that says yes has looked at the expiry and at the
  permission.
\<close>

locale request_validator =
  fixes validate :: "int \<Rightarrow> validator"
  assumes accepts_unexpired: "validate now c p a = Inr () \<Longrightarrow> \<not> is_expired c now"
    and accepts_permitted: "validate now c p a = Inr () \<Longrightarrow> has_permission c (required_permission a)"
begin

lemma no_permissions_denied: "tc_permissions c = [] \<Longrightarrow> validate now c p a \<noteq> Inr ()"
  by (auto simp: has_permission_def dest!: accepts_permitted)

lemma expired_denied: "tc_exp c = Some e \<Longrightarrow> e \<le> now \<Longrightarrow> validate now c p a \<noteq> Inr ()"
  by (auto simp: is_expired_def dest!: accepts_unexpired)

end

interpretation path_validator: request_validator "path_validate raw" for raw
  by unfold_locales (auto simp: path_validate_def Let_def split: if_splits)

end
