(* ===== verification/Path_Codec.thy ===== *)
theory Path_Codec
  imports Byte_Text
begin

text \<open>
  Path codecs (libfw-core, \<open>pathmap.rs\<close>): the \<open>PathCodec\<close> trait as a record of two functions,
  the identity, mount and encrypted codecs, and \<open>validate_rel_path\<close> of libfw-server
  (\<open>lib.rs\<close>), the canonical form every virtual path is brought to.  The \<open>encode\<close> of a codec
  takes the random bytes drawn for the call, which only the encrypted codec uses.  AES-GCM and the
  base64 crate are parameters.
\<close>

subsection \<open>The trait\<close>

datatype path_codec_error =
    UnknownVersion string
  | InvalidShadow string
  | Unmapped string
  | RngUnavailable string

record codec =
  pc_encode :: "bytes \<Rightarrow> string \<Rightarrow> string"
  pc_decode :: "string \<Rightarrow> path_codec_error + string"

definition identity_codec :: codec where
  "identity_codec = \<lparr> pc_encode = (\<lambda>_ real. real), pc_decode = (\<lambda>shadow. Inr shadow) \<rparr>"

subsection \<open>Mounts\<close>

type_synonym mounts = "(string \<times> string) list"

fun normalize_loop :: "string \<Rightarrow> string list \<Rightarrow> string" where
  "normalize_loop out [] = out"
| "normalize_loop out (seg # segs) =
     (if seg = [] \<or> seg = ''.'' then normalize_loop out segs
      else if seg = ''..'' then normalize_loop out segs
      else normalize_loop ((if out \<noteq> [] then out @ ''/'' else out) @ seg) segs)"

definition normalize_prefix :: "string \<Rightarrow> string" where
  "normalize_prefix p = normalize_loop [] (split_on CHR ''/'' p)"

definition segment_prefix :: "string \<Rightarrow> string \<Rightarrow> bool" where
  "segment_prefix path pre \<longleftrightarrow>
     (if pre = [] then True
      else if path = pre then True
      else starts_with path pre \<and> length pre < length path \<and> path ! length pre = CHR ''/'')"

definition join_prefix :: "string \<Rightarrow> string \<Rightarrow> string" where
  "join_prefix root rest =
     (if root = [] then rest else if rest = [] then root else root @ ''/'' @ rest)"

definition mount_new :: "(string \<times> string) list \<Rightarrow> mounts" where
  "mount_new entries =
     List.map_filter
       (\<lambda>(shadow, real).
          let s = normalize_prefix shadow; r = normalize_prefix real in
          if s = [] \<and> r = [] then None else Some (s, r)) entries"

text \<open>\<open>Iterator::max_by_key\<close>: the last of the elements with the greatest key.\<close>

definition max_by_key :: "('a \<Rightarrow> nat) \<Rightarrow> 'a list \<Rightarrow> 'a option" where
  "max_by_key f xs =
     foldl (\<lambda>acc x. case acc of None \<Rightarrow> Some x | Some y \<Rightarrow> if f y \<le> f x then Some x else Some y)
       None xs"

definition encode_match :: "mounts \<Rightarrow> string \<Rightarrow> (string \<times> string) option" where
  "encode_match es real =
     map_option (\<lambda>(s, r). (s, trim_start_char CHR ''/'' (drop (length r) real)))
       (max_by_key (\<lambda>(_, r). length r) (filter (\<lambda>(_, r). segment_prefix real r) es))"

definition decode_match :: "mounts \<Rightarrow> string \<Rightarrow> (string \<times> string) option" where
  "decode_match es shadow =
     map_option (\<lambda>(s, r). (r, trim_start_char CHR ''/'' (drop (length s) shadow)))
       (max_by_key (\<lambda>(s, _). length s) (filter (\<lambda>(s, _). segment_prefix shadow s) es))"

definition mount_encode :: "mounts \<Rightarrow> string \<Rightarrow> string" where
  "mount_encode es real =
     (case encode_match es real of
        Some (shadow_root, rest) \<Rightarrow> join_prefix shadow_root rest
      | None \<Rightarrow> real)"

definition mount_decode :: "mounts \<Rightarrow> string \<Rightarrow> path_codec_error + string" where
  "mount_decode es shadow =
     (case decode_match es shadow of
        Some (real_root, rest) \<Rightarrow> Inr (join_prefix real_root rest)
      | None \<Rightarrow> Inl (Unmapped shadow))"

definition mount_codec :: "mounts \<Rightarrow> codec" where
  "mount_codec es = \<lparr> pc_encode = (\<lambda>_. mount_encode es), pc_decode = mount_decode es \<rparr>"

subsection \<open>The encrypted codec\<close>

text \<open>
  The crates it calls: the cipher (encrypt and decrypt with key, nonce, associated data) and
  base64url without padding.
\<close>

record crypto =
  cr_encrypt :: "bytes \<Rightarrow> bytes \<Rightarrow> bytes \<Rightarrow> bytes \<Rightarrow> bytes"
  cr_decrypt :: "bytes \<Rightarrow> bytes \<Rightarrow> bytes \<Rightarrow> bytes \<Rightarrow> bytes option"
  cr_b64_encode :: "bytes \<Rightarrow> string"
  cr_b64_decode :: "string \<Rightarrow> bytes option"

definition nonce_len :: nat where
  "nonce_len = 12"

definition shadow_version :: string where
  "shadow_version = ''v1''"

definition path_aad :: bytes where
  "path_aad = as_bytes ''libfw-path-v1''"

definition encrypted_encode :: "crypto \<Rightarrow> bytes \<Rightarrow> bytes \<Rightarrow> string \<Rightarrow> string" where
  "encrypted_encode cr key nonce real =
     (let ct = cr_encrypt cr key nonce path_aad (as_bytes real);
          blob = nonce @ ct
      in shadow_version @ ''.'' @ cr_b64_encode cr blob)"

definition encrypted_decode :: "crypto \<Rightarrow> bytes \<Rightarrow> string \<Rightarrow> path_codec_error + string" where
  "encrypted_decode cr key shadow =
     res_bind (ok_or (InvalidShadow ''missing version prefix'') (split_once CHR ''.'' shadow))
       (\<lambda>(version, payload).
     if version \<noteq> shadow_version then Inl (UnknownVersion version)
     else res_bind (ok_or (InvalidShadow ''bad base64'') (cr_b64_decode cr payload))
       (\<lambda>blob.
     if length blob < nonce_len + 16 then Inl (InvalidShadow ''too short'')
     else res_bind
         (ok_or (InvalidShadow ''authentication failed (tampered?)'')
           (cr_decrypt cr key (take nonce_len blob) path_aad (drop nonce_len blob)))
       (\<lambda>plain.
     if utf8_valid plain then Inr (bytes_to_str plain)
     else Inl (InvalidShadow ''not valid UTF-8''))))"

definition encrypted_codec :: "crypto \<Rightarrow> bytes \<Rightarrow> codec" where
  "encrypted_codec cr key =
     \<lparr> pc_encode = encrypted_encode cr key, pc_decode = encrypted_decode cr key \<rparr>"

text \<open>
  \<open>decode_hex\<close>.  The slice \<open>hex[i * 2..i * 2 + 2]\<close> of a \<open>str\<close> panics when an end is not a
  character boundary, hence the extra outcome; \<open>u8::from_str_radix\<close> accepts a leading plus sign.
\<close>

datatype 'a outcome = Returned 'a | Panicked

definition hex_value :: "char \<Rightarrow> nat option" where
  "hex_value c =
     (let n = of_char c :: nat in
      if 48 \<le> n \<and> n \<le> 57 then Some (n - 48)
      else if 97 \<le> n \<and> n \<le> 102 then Some (n - 87)
      else if 65 \<le> n \<and> n \<le> 70 then Some (n - 55)
      else None)"

definition u8_from_hex :: "char \<Rightarrow> char \<Rightarrow> byte option" where
  "u8_from_hex a b =
     (if a = CHR ''+'' then map_option word_of_nat (hex_value b)
      else Option.bind (hex_value a) (\<lambda>h. map_option (\<lambda>l. word_of_nat (16 * h + l)) (hex_value b)))"

definition is_char_boundary :: "string \<Rightarrow> nat \<Rightarrow> bool" where
  "is_char_boundary s i \<longleftrightarrow>
     i = 0 \<or> i = length s \<or> (i < length s \<and> \<not> cont_byte (word_of_nat (of_char (s ! i))))"

fun decode_hex_loop :: "string \<Rightarrow> nat list \<Rightarrow> bytes \<Rightarrow> bytes option outcome" where
  "decode_hex_loop h [] out = Returned (Some out)"
| "decode_hex_loop h (i # is) out =
     (if \<not> is_char_boundary h (i * 2) \<or> \<not> is_char_boundary h (i * 2 + 2) then Panicked
      else case u8_from_hex (h ! (i * 2)) (h ! (i * 2 + 1)) of
        None \<Rightarrow> Returned None
      | Some b \<Rightarrow> decode_hex_loop h is (out @ [b]))"

definition decode_hex :: "string \<Rightarrow> bytes option outcome" where
  "decode_hex s =
     (let h = str_trim s in
      if length h \<noteq> 64 then Returned None else decode_hex_loop h [0..<32] [])"

text \<open>\<open>rng_ok\<close> is whether \<open>getrandom\<close> succeeds.  The codec is represented by its key.\<close>

definition encrypted_from_hex :: "bool \<Rightarrow> string \<Rightarrow> (path_codec_error + bytes) outcome" where
  "encrypted_from_hex rng_ok s =
     (case decode_hex s of
        Panicked \<Rightarrow> Panicked
      | Returned None \<Rightarrow>
          Returned (Inl (InvalidShadow ''LIBFW_PATH_KEY must be 64 hex chars (32 bytes)''))
      | Returned (Some key) \<Rightarrow>
          if \<not> rng_ok
          then Returned (Inl (RngUnavailable
            ''OS CSPRNG unavailable; refusing to enable AES-GCM path encryption''))
          else Returned (Inr key))"

subsection \<open>Virtual paths\<close>

fun rel_loop :: "string \<Rightarrow> string list \<Rightarrow> string + string" where
  "rel_loop out [] = Inr out"
| "rel_loop out (seg # segs) =
     (if seg = [] \<or> seg = ''.'' then rel_loop out segs
      else if seg = ''..'' then Inl ''path escapes the mount root''
      else rel_loop ((if out \<noteq> [] then out @ ''/'' else out) @ seg) segs)"

definition validate_rel_path :: "string \<Rightarrow> string + string" where
  "validate_rel_path path =
     (if CHR 0x00 \<in> set path then Inl ''path contains NUL byte''
      else if starts_with path ''/'' then Inl ''path must be relative''
      else rel_loop [] (split_on CHR ''/'' path))"

text \<open>The normal form: no empty, dot or dot-dot segment, and no NUL byte.\<close>

definition plain_seg :: "string \<Rightarrow> bool" where
  "plain_seg s \<longleftrightarrow> s \<noteq> [] \<and> s \<noteq> ''.'' \<and> s \<noteq> ''..'' \<and> CHR 0x00 \<notin> set s \<and> CHR ''/'' \<notin> set s"

definition segments :: "string \<Rightarrow> string list" where
  "segments p = (if p = [] then [] else split_on CHR ''/'' p)"

definition canonical :: "string \<Rightarrow> bool" where
  "canonical p \<longleftrightarrow> list_all plain_seg (segments p)"

subsection \<open>Canonical paths\<close>

definition seg_kept :: "string \<Rightarrow> bool" where
  "seg_kept seg \<longleftrightarrow> seg \<noteq> [] \<and> seg \<noteq> ''.''"

lemma rel_loop_closed:
  "rel_loop (join_on CHR ''/'' done_segs) segs =
     (if ''..'' \<in> set (filter seg_kept segs) then Inl ''path escapes the mount root''
      else Inr (join_on CHR ''/'' (done_segs @ filter seg_kept segs)))"
  if "\<forall>s\<in>set done_segs. s \<noteq> []"
  using that
proof (induction segs arbitrary: done_segs)
  case (Cons seg segs)
  show ?case
  proof (cases "seg_kept seg \<and> seg \<noteq> ''..''")
    case True
    have j: "join_on CHR ''/'' done_segs = [] \<longleftrightarrow> done_segs = []"
      using Cons.prems by (cases done_segs) (auto simp: join_on_Cons)
    then have "(if join_on CHR ''/'' done_segs \<noteq> [] then join_on CHR ''/'' done_segs @ ''/''
        else join_on CHR ''/'' done_segs) @ seg = join_on CHR ''/'' (done_segs @ [seg])"
      by (cases "done_segs = []") (auto simp: join_on_append)
    with True Cons.IH [of "done_segs @ [seg]"] Cons.prems show ?thesis
      using True by (simp add: seg_kept_def [of seg])
  next
    case False
    with Cons show ?thesis by (auto simp: seg_kept_def [of seg] seg_kept_def [of "''..''"])
  qed
qed simp

lemma rel_loop_split:
  "rel_loop [] segs =
     (if ''..'' \<in> set (filter seg_kept segs) then Inl ''path escapes the mount root''
      else Inr (join_on CHR ''/'' (filter seg_kept segs)))"
  using rel_loop_closed [of "[]" segs] by simp

lemma segments_join:
  assumes "list_all plain_seg segs"
  shows "segments (join_on CHR ''/'' segs) = segs"
proof (cases segs)
  case (Cons a as)
  with assms have "join_on CHR ''/'' segs \<noteq> []" by (auto simp: join_on_Cons plain_seg_def)
  moreover have "split_on CHR ''/'' (join_on CHR ''/'' segs) = segs"
    using assms Cons by (intro split_join) (auto simp: list_all_iff plain_seg_def)
  ultimately show ?thesis by (simp add: segments_def)
qed (simp add: segments_def)

lemma join_segments [simp]: "join_on CHR ''/'' (segments p) = p"
  by (simp add: segments_def)

lemma segments_Nil [simp]: "segments [] = []"
  by (simp add: segments_def)

lemma canonical_join: "list_all plain_seg segs \<Longrightarrow> canonical (join_on CHR ''/'' segs)"
  by (simp add: canonical_def segments_join)

lemma set_join_on: "seg \<in> set segs \<Longrightarrow> set seg \<subseteq> set (join_on c segs)"
  by (induction c segs rule: join_on.induct) auto

lemma set_split_on: "seg \<in> set (split_on c xs) \<Longrightarrow> set seg \<subseteq> set xs"
  using set_join_on [of seg "split_on c xs" c] by simp

lemma validate_rel_path_cases:
  "validate_rel_path p =
    (if CHR 0x00 \<in> set p then Inl ''path contains NUL byte''
     else if starts_with p ''/'' then Inl ''path must be relative''
     else if ''..'' \<in> set (split_on CHR ''/'' p) then Inl ''path escapes the mount root''
     else Inr (join_on CHR ''/'' (filter seg_kept (split_on CHR ''/'' p))))"
  by (simp add: validate_rel_path_def rel_loop_split seg_kept_def)

lemma validate_rel_path_canonical:
  assumes "validate_rel_path p = Inr q"
  shows "canonical q"
proof -
  from assms have "CHR 0x00 \<notin> set p" "''..'' \<notin> set (split_on CHR ''/'' p)"
    and q: "q = join_on CHR ''/'' (filter seg_kept (split_on CHR ''/'' p))"
    by (auto simp: validate_rel_path_cases split: if_splits)
  then have "list_all plain_seg (filter seg_kept (split_on CHR ''/'' p))"
    using set_split_on [of _ "CHR ''/''" p] split_on_no_sep [of _ "CHR ''/''" p]
    by (fastforce simp: list_all_iff plain_seg_def seg_kept_def)
  then show ?thesis unfolding q by (rule canonical_join)
qed

lemma canonical_split:
  "canonical p \<Longrightarrow> p \<noteq> [] \<Longrightarrow> list_all plain_seg (split_on CHR ''/'' p)"
  by (simp add: canonical_def segments_def)

lemma canonical_no_nul: "canonical p \<Longrightarrow> CHR 0x00 \<notin> set p"
proof -
  assume c: "canonical p"
  have "set (join_on k xs) \<subseteq> insert k (\<Union>x\<in>set xs. set x)" for k :: char and xs
    by (induction k xs rule: join_on.induct) auto
  from this [of "CHR ''/''" "segments p"] c show ?thesis
    by (auto simp: canonical_def list_all_iff plain_seg_def)
qed

lemma canonical_no_lead: "canonical p \<Longrightarrow> \<not> starts_with p ''/''"
proof
  assume c: "canonical p" and "starts_with p ''/''"
  then obtain t where p: "p = CHR ''/'' # t" by (auto simp: starts_with_def prefix_def)
  with c have "plain_seg []" by (auto simp: canonical_def segments_def)
  then show False by (simp add: plain_seg_def)
qed

lemma validate_rel_path_id: "canonical p \<Longrightarrow> validate_rel_path p = Inr p"
proof (cases "p = []")
  case False
  assume c: "canonical p"
  with False have l: "list_all plain_seg (split_on CHR ''/'' p)" by (rule canonical_split [rotated])
  then have "filter seg_kept (split_on CHR ''/'' p) = split_on CHR ''/'' p"
    by (intro filter_True) (auto simp: list_all_iff plain_seg_def seg_kept_def)
  with l c show ?thesis
    by (auto simp: validate_rel_path_cases list_all_iff plain_seg_def canonical_no_lead
        canonical_no_nul)
qed (simp add: validate_rel_path_def starts_with_def)

text \<open>
  \<open>validate_rel_path\<close> accepts exactly the paths with no NUL byte, no leading slash and no
  \<open>..\<close> segment; what it returns is canonical (no empty, dot or dot-dot segment), keeps the other
  segments in order, and is a fixed point, so a canonical path is left as it is.
\<close>

theorem validate_rel_path_spec:
  "case validate_rel_path p of
     Inl _ \<Rightarrow> CHR 0x00 \<in> set p \<or> prefix ''/'' p \<or> ''..'' \<in> set (split_on CHR ''/'' p)
   | Inr q \<Rightarrow> CHR 0x00 \<notin> set p \<and> \<not> prefix ''/'' p \<and> ''..'' \<notin> set (split_on CHR ''/'' p) \<and>
       canonical q \<and> validate_rel_path q = Inr q \<and>
       segments q = filter (\<lambda>s. s \<noteq> [] \<and> s \<noteq> ''.'') (split_on CHR ''/'' p)"
proof (cases "validate_rel_path p")
  case (Inl e)
  then show ?thesis by (auto simp: validate_rel_path_cases starts_with_def split: if_splits)
next
  case (Inr q)
  then have c: "canonical q" by (rule validate_rel_path_canonical)
  have q: "q = join_on CHR ''/'' (filter seg_kept (split_on CHR ''/'' p))"
    and n: "CHR 0x00 \<notin> set p" "\<not> prefix ''/'' p" "''..'' \<notin> set (split_on CHR ''/'' p)"
    using Inr by (auto simp: validate_rel_path_cases starts_with_def split: if_splits)
  have "list_all plain_seg (filter seg_kept (split_on CHR ''/'' p))"
    using n set_split_on [of _ "CHR ''/''" p] split_on_no_sep [of _ "CHR ''/''" p]
    by (fastforce simp: list_all_iff plain_seg_def seg_kept_def)
  then have "segments q = filter seg_kept (split_on CHR ''/'' p)"
    unfolding q by (rule segments_join)
  with Inr c n show ?thesis by (simp add: validate_rel_path_id seg_kept_def [abs_def])
qed

subsection \<open>Codecs as an interface\<close>

text \<open>
  What the server relies on.  \<open>dom\<close> is the set of real paths a codec serves and \<open>rnd_ok\<close> what it
  needs of the random bytes: a path is recovered from its shadow, and the shadow survives the shape
  validation of inbound paths.
\<close>

locale path_codec =
  fixes enc :: "bytes \<Rightarrow> string \<Rightarrow> string"
    and dec :: "string \<Rightarrow> path_codec_error + string"
    and rnd_ok :: "bytes \<Rightarrow> bool"
    and dom :: "string \<Rightarrow> bool"
  assumes round_trip: "rnd_ok n \<Longrightarrow> dom p \<Longrightarrow> dec (enc n p) = Inr p"
    and shadow_canonical: "rnd_ok n \<Longrightarrow> dom p \<Longrightarrow> canonical (enc n p)"
    and shadow_nonempty: "rnd_ok n \<Longrightarrow> dom p \<Longrightarrow> enc n p \<noteq> []"
    and dom_canonical: "dom p \<Longrightarrow> canonical p"
begin

lemma shadow_valid: "rnd_ok n \<Longrightarrow> dom p \<Longrightarrow> validate_rel_path (enc n p) = Inr (enc n p)"
  by (simp add: shadow_canonical validate_rel_path_id)

lemma enc_inj:
  "rnd_ok n \<Longrightarrow> rnd_ok k \<Longrightarrow> dom p \<Longrightarrow> dom q \<Longrightarrow> enc n p = enc k q \<Longrightarrow> p = q"
  by (metis round_trip sum.inject(2))

end

definition identity_dom :: "string \<Rightarrow> bool" where
  "identity_dom p \<longleftrightarrow> canonical p \<and> p \<noteq> []"

interpretation identity_pc: path_codec "\<lambda>_ p. p" Inr "\<lambda>_. True" identity_dom
  by unfold_locales (auto simp: identity_dom_def)

subsection \<open>Mount tables\<close>

lemma max_by_key_aux:
  fixes xs :: "'a list" and f :: "'a \<Rightarrow> nat"
  defines "g \<equiv> \<lambda>acc x. case acc of None \<Rightarrow> Some x | Some y \<Rightarrow> if f y \<le> f x then Some x else Some y"
  shows "(case foldl g a xs of None \<Rightarrow> a = None \<and> xs = []
     | Some m \<Rightarrow> (a = Some m \<or> m \<in> set xs) \<and> (\<forall>y. a = Some y \<or> y \<in> set xs \<longrightarrow> f y \<le> f m))"
proof (induction xs arbitrary: a)
  case (Cons x xs)
  have "\<exists>z. g a x = Some z \<and> (z = x \<or> a = Some z) \<and> f x \<le> f z \<and> (\<forall>y. a = Some y \<longrightarrow> f y \<le> f z)"
    by (cases a) (auto simp: g_def)
  then obtain z where z: "g a x = Some z" "z = x \<or> a = Some z" "f x \<le> f z"
    "\<And>y. a = Some y \<Longrightarrow> f y \<le> f z" by blast
  from Cons [of "g a x"] z show ?case
    by (auto split: option.splits dest: order_trans)
qed (simp split: option.splits)

lemma max_by_key_Some:
  "max_by_key f xs = Some m \<Longrightarrow> m \<in> set xs \<and> (\<forall>y\<in>set xs. f y \<le> f m)"
  using max_by_key_aux [where f = f and a = None and xs = xs] by (auto simp: max_by_key_def)

lemma max_by_key_None: "max_by_key f xs = None \<longleftrightarrow> xs = []"
  using max_by_key_aux [where f = f and a = None and xs = xs] by (auto simp: max_by_key_def split: option.splits)

lemma segment_prefix_segments:
  "segment_prefix p r \<longleftrightarrow> prefix (segments r) (segments p)"
proof -
  have "split_on CHR ''/'' r \<noteq> []" by simp
  then show ?thesis
    unfolding segment_prefix_def segments_def boundary_prefix
    using split_prefix_iff [of "CHR ''/''" r p]
    by (cases "p = []"; cases "r = []") auto
qed

lemma join_prefix_segments:
  "join_prefix root rest = join_on CHR ''/'' (segments root @ segments rest)"
  by (auto simp: join_prefix_def segments_def join_on_append)

lemma no_lead_trim: "\<not> starts_with s [c] \<Longrightarrow> trim_start_char c s = s"
  by (cases s) (auto simp: trim_start_char_def starts_with_def)

lemma trim_rest:
  assumes "canonical p" and "segments p = segments r @ t"
  shows "trim_start_char CHR ''/'' (drop (length r) p) = join_on CHR ''/'' t"
proof -
  have t: "list_all plain_seg t" using assms by (simp add: canonical_def)
  then have nl: "trim_start_char CHR ''/'' (join_on CHR ''/'' t) = join_on CHR ''/'' t"
    by (intro no_lead_trim canonical_no_lead canonical_join)
  have p: "p = join_on CHR ''/'' (segments r @ t)" using assms(2) join_segments [of p] by simp
  show ?thesis
  proof (cases "r = [] \<or> t = []")
    case True
    then show ?thesis using p nl by (auto simp: trim_start_char_def)
  next
    case False
    then have "segments r \<noteq> []" by (simp add: segments_def)
    with False have "p = r @ CHR ''/'' # join_on CHR ''/'' t"
      using p by (simp add: join_on_append)
    with nl show ?thesis by (simp add: trim_start_char_def)
  qed
qed

definition mounts_wf :: "mounts \<Rightarrow> bool" where
  "mounts_wf es \<longleftrightarrow> list_all (\<lambda>(s, r). canonical s \<and> canonical r) es \<and>
     list_all (\<lambda>e. list_all (\<lambda>e'. segment_prefix (fst e') (fst e) \<longrightarrow> e = e') es) es"

definition mount_dom :: "mounts \<Rightarrow> string \<Rightarrow> bool" where
  "mount_dom es p \<longleftrightarrow> mounts_wf es \<and> canonical p \<and> mount_encode es p \<noteq> [] \<and>
     list_ex (\<lambda>(s, r). segment_prefix p r) es"

text \<open>The entry and the remainder the encoder picks.\<close>

lemma mount_encode_entry:
  assumes "canonical p" and "list_ex (\<lambda>(s, r). segment_prefix p r) es"
  obtains s r t where "(s, r) \<in> set es" "segments p = segments r @ t"
    "mount_encode es p = join_on CHR ''/'' (segments s @ segments (join_on CHR ''/'' t))"
proof -
  have "filter (\<lambda>(_, r). segment_prefix p r) es \<noteq> []"
    using assms(2) by (auto simp: list_ex_iff filter_empty_conv)
  then obtain s r where m: "max_by_key (\<lambda>(_, r). length r) (filter (\<lambda>(_, r). segment_prefix p r) es) = Some (s, r)"
    using max_by_key_None [of "\<lambda>(_, r). length r"] by (metis not_None_eq surj_pair)
  then have "(s, r) \<in> set es" "segment_prefix p r" using max_by_key_Some [OF m] by auto
  moreover from this obtain t where t: "segments p = segments r @ t"
    by (auto simp: segment_prefix_segments prefix_def)
  moreover have "mount_encode es p = join_on CHR ''/'' (segments s @ segments (join_on CHR ''/'' t))"
    using m trim_rest [OF assms(1) t]
    by (simp add: mount_encode_def encode_match_def join_prefix_segments)
  ultimately show ?thesis using that by blast
qed

lemma mount_round_trip:
  assumes "mount_dom es p"
  shows "mount_decode es (mount_encode es p) = Inr p \<and> canonical (mount_encode es p)"
proof -
  have wf: "mounts_wf es" and c: "canonical p" and ex: "list_ex (\<lambda>(s, r). segment_prefix p r) es"
    using assms by (auto simp: mount_dom_def)
  obtain s r t where e: "(s, r) \<in> set es" and p: "segments p = segments r @ t"
    and q: "mount_encode es p = join_on CHR ''/'' (segments s @ segments (join_on CHR ''/'' t))"
    by (rule mount_encode_entry [OF c ex])
  have pl: "list_all plain_seg t" "list_all plain_seg (segments s)"
    using c p wf e by (auto simp: canonical_def mounts_wf_def list_all_iff)
  then have q2: "mount_encode es p = join_on CHR ''/'' (segments s @ t)"
    using q by (simp add: segments_join)
  have cq: "canonical (mount_encode es p)"
    unfolding q2 using pl by (intro canonical_join) simp
  have sq: "segments (mount_encode es p) = segments s @ t"
    unfolding q2 using pl by (intro segments_join) simp
  from wf have free: "\<forall>e\<in>set es. \<forall>e'\<in>set es. segment_prefix (fst e') (fst e) \<longrightarrow> e = e'"
    unfolding mounts_wf_def list_all_iff by (rule conjunct2)
  have only: "x = (s, r)" if "x \<in> set es" "segment_prefix (mount_encode es p) (fst x)" for x
  proof -
    from that(2) sq have "prefix (segments (fst x)) (segments s @ t)"
      by (simp add: segment_prefix_segments)
    then have "prefix (segments (fst x)) (segments s) \<or> prefix (segments s) (segments (fst x))"
      using prefix_same_cases prefixI by blast
    then show ?thesis
    proof
      assume "prefix (segments (fst x)) (segments s)"
      with free [rule_format, OF that(1) e] show ?thesis by (simp add: segment_prefix_segments)
    next
      assume "prefix (segments s) (segments (fst x))"
      with free [rule_format, OF e that(1)] show ?thesis by (simp add: segment_prefix_segments)
    qed
  qed
  have "(s, r) \<in> set (filter (\<lambda>(s, _). segment_prefix (mount_encode es p) s) es)"
    using e sq by (simp add: segment_prefix_segments)
  then obtain m where m: "max_by_key (\<lambda>(s, _). length s)
      (filter (\<lambda>(s, _). segment_prefix (mount_encode es p) s) es) = Some m"
    using max_by_key_None [of "\<lambda>(s, _). length s"] by (metis not_None_eq empty_iff list.set(1))
  then have "m = (s, r)" using only max_by_key_Some [OF m] by fastforce
  with m have "mount_decode es (mount_encode es p) =
      Inr (join_prefix r (trim_start_char CHR ''/'' (drop (length s) (mount_encode es p))))"
    by (simp add: mount_decode_def decode_match_def)
  also have "\<dots> = Inr p"
    using trim_rest [OF cq sq] pl p join_segments [of p]
    by (simp add: join_prefix_segments segments_join)
  finally show ?thesis using cq by simp
qed

interpretation mount_pc: path_codec "\<lambda>_. mount_encode es" "mount_decode es" "\<lambda>_. True" "mount_dom es"
  for es
  by unfold_locales (simp_all add: mount_round_trip, simp_all add: mount_dom_def)

text \<open>
  C33: with a mount table whose prefixes are canonical and whose shadow prefixes are not nested
  in one another, every canonical real path under a mounted subtree is listed under a canonical
  shadow that decodes back to exactly that path, whatever the overlap of the real prefixes.
\<close>

theorem mount_codec_roundtrip:
  assumes "mounts_wf es" and "canonical p" and "\<exists>(s, r)\<in>set es. segment_prefix p r"
    and "mount_encode es p \<noteq> []"
  shows "mount_decode es (mount_encode es p) = Inr p \<and> canonical (mount_encode es p)"
  using assms by (intro mount_round_trip) (auto simp: mount_dom_def list_ex_iff)

theorem mount_codec_roundtrip_witness:
  "mount_decode [(''t'', ''a''), (''u'', ''a/b'')]
     (mount_encode [(''t'', ''a''), (''u'', ''a/b'')] ''a/b/c'') = Inr ''a/b/c''"
  by (rule conjunct1, rule mount_codec_roundtrip)
    (auto simp: mounts_wf_def canonical_def segments_def plain_seg_def segment_prefix_def
      starts_with_def mount_encode_def encode_match_def max_by_key_def join_prefix_def)

text \<open>
  Nested mounts break the round trip: with \<open>t\<close> on \<open>top\<close> and \<open>t/sub\<close> on \<open>top/deep\<close>, the
  file \<open>top/sub/x\<close> is listed as \<open>t/sub/x\<close>, and that shadow decodes to the different
  file \<open>top/deep/x\<close>: the listed file cannot be reached.
\<close>

theorem nested_mounts_mismatch:
  "mount_encode (mount_new [(''t'', ''top''), (''t/sub'', ''top/deep'')]) ''top/sub/x'' = ''t/sub/x'' \<and>
   mount_decode (mount_new [(''t'', ''top''), (''t/sub'', ''top/deep'')]) ''t/sub/x'' = Inr ''top/deep/x''"
  by (simp add: mount_new_def normalize_prefix_def map_filter_simps mount_encode_def mount_decode_def
      encode_match_def decode_match_def segment_prefix_def starts_with_def max_by_key_def
      join_prefix_def trim_start_char_def)

subsection \<open>Encrypted paths\<close>

text \<open>
  The documented behaviour of the crates: decryption inverts encryption and the tag adds 16 bytes;
  base64url decoding inverts encoding, whose alphabet has no slash, dot or NUL.
\<close>

definition url_char :: "char \<Rightarrow> bool" where
  "url_char c \<longleftrightarrow> c \<noteq> CHR ''/'' \<and> c \<noteq> CHR ''.'' \<and> c \<noteq> CHR 0x00"

definition crypto_ok :: "crypto \<Rightarrow> bytes \<Rightarrow> bool" where
  "crypto_ok cr key \<longleftrightarrow>
     (\<forall>n m. length n = nonce_len \<longrightarrow>
        cr_decrypt cr key n path_aad (cr_encrypt cr key n path_aad m) = Some m \<and>
        length (cr_encrypt cr key n path_aad m) = length m + 16) \<and>
     (\<forall>b. cr_b64_decode cr (cr_b64_encode cr b) = Some b \<and> list_all url_char (cr_b64_encode cr b))"

definition encrypted_dom :: "crypto \<Rightarrow> bytes \<Rightarrow> string \<Rightarrow> bool" where
  "encrypted_dom cr key p \<longleftrightarrow> crypto_ok cr key \<and> canonical p \<and> utf8_valid (as_bytes p)"

lemma encrypted_round_trip:
  assumes "crypto_ok cr key" and "length n = nonce_len" and "utf8_valid (as_bytes p)"
  shows "encrypted_decode cr key (encrypted_encode cr key n p) = Inr p"
proof -
  have "split_once CHR ''.'' (shadow_version @ ''.'' @ t) = Some (shadow_version, t)" for t
    by (simp add: shadow_version_def)
  with assms show ?thesis
    by (simp add: encrypted_decode_def encrypted_encode_def Let_def crypto_ok_def)
qed

lemma encrypted_shadow_canonical:
  assumes "crypto_ok cr key"
  shows "canonical (encrypted_encode cr key n p)"
proof -
  let ?t = "cr_b64_encode cr (n @ cr_encrypt cr key n path_aad (as_bytes p))"
  have "list_all url_char ?t" using assms by (simp add: crypto_ok_def)
  then have "plain_seg (''v1.'' @ ?t)"
    by (auto simp: plain_seg_def list_all_iff url_char_def)
  then have "canonical (join_on CHR ''/'' [''v1.'' @ ?t])"
    by (intro canonical_join) simp
  then show ?thesis by (simp add: encrypted_encode_def shadow_version_def Let_def)
qed

interpretation encrypted_pc: path_codec "encrypted_encode cr key" "encrypted_decode cr key"
  "\<lambda>n. length n = nonce_len" "encrypted_dom cr key" for cr key
  by unfold_locales (auto simp: encrypted_dom_def encrypted_round_trip encrypted_shadow_canonical,
      simp add: encrypted_encode_def shadow_version_def Let_def)

text \<open>
  C32: an encrypted shadow decodes to the path it was made from, two shadows of the same path made
  with any nonces decode alike, and different paths never share a shadow.
\<close>

theorem encrypted_codec_roundtrip:
  assumes "crypto_ok cr key" and "length n = nonce_len" and "length k = nonce_len"
    and "canonical p" "utf8_valid (as_bytes p)" and "canonical q" "utf8_valid (as_bytes q)"
  shows "encrypted_decode cr key (encrypted_encode cr key n p) = Inr p \<and>
    (encrypted_encode cr key n p = encrypted_encode cr key k q \<longrightarrow> p = q)"
  using assms encrypted_pc.round_trip encrypted_pc.enc_inj encrypted_dom_def by blast

text \<open>A transparent cipher with a constant tag, and base 16 for base 64.\<close>

fun unhex :: "string \<Rightarrow> bytes option" where
  "unhex [] = Some []"
| "unhex [c] = None"
| "unhex (a # b # r) =
     Option.bind (hex_value a) (\<lambda>h. Option.bind (hex_value b) (\<lambda>l.
       map_option ((#) (word_of_nat (16 * h + l))) (unhex r)))"

definition demo_crypto :: crypto where
  "demo_crypto =
     \<lparr> cr_encrypt = (\<lambda>_ _ _ m. m @ replicate 16 0),
       cr_decrypt = (\<lambda>_ _ _ c. Some (take (length c - 16) c)),
       cr_b64_encode = hex, cr_b64_decode = unhex \<rparr>"

lemma hex_value_digit: "d < 16 \<Longrightarrow> hex_value (hex_digit d) = Some d"
  by (auto simp: hex_value_def hex_digit_def Let_def)

lemma unhex_hex: "unhex (hex bs) = Some bs"
proof (induction bs)
  case (Cons b bs)
  have "unat b < 256" by (rule unat_byte_lt)
  then have "hex_value (hex_digit (unat b div 16)) = Some (unat b div 16)"
    "hex_value (hex_digit (unat b mod 16)) = Some (unat b mod 16)"
    by (simp_all add: hex_value_digit less_mult_imp_div_less)
  moreover have "word_of_nat (16 * (unat b div 16) + unat b mod 16) = b"
    by (simp only: mult_div_mod_eq of_nat_unat ucast_id)
  then have "16 * word_of_nat (unat b div 16) + word_of_nat (unat b mod 16) = b"
    by (simp only: of_nat_add of_nat_mult of_nat_numeral)
  ultimately show ?case using Cons by (simp add: hex_def)
qed (simp add: hex_def)

lemma demo_crypto_ok: "crypto_ok demo_crypto key"
  using is_hex_hex by (fastforce simp: crypto_ok_def demo_crypto_def unhex_hex list_all_iff
      url_char_def is_hex_def)

theorem encrypted_codec_roundtrip_witness:
  "encrypted_decode demo_crypto [] (encrypted_encode demo_crypto [] (replicate 12 7) ''docs/a'') = Inr ''docs/a''"
  by (rule conjunct1, rule encrypted_codec_roundtrip [where k = "replicate 12 7" and q = "''docs/a''"])
    (auto simp: demo_crypto_ok nonce_len_def canonical_def segments_def plain_seg_def as_bytes_def
      intro!: utf8_valid_ascii)

subsection \<open>Hexadecimal keys\<close>

lemma nth_hex:
  "i < length bs \<Longrightarrow> hex bs ! (2 * i) = hex_digit (unat (bs ! i) div 16) \<and>
     hex bs ! (2 * i + 1) = hex_digit (unat (bs ! i) mod 16)"
proof (induction bs arbitrary: i)
  case (Cons b bs)
  then show ?case by (cases i) (simp_all add: hex_def)
qed simp

lemma ascii_boundary:
  assumes "i \<le> length s" and "\<forall>c\<in>set s. (of_char c :: nat) < 128"
  shows "is_char_boundary s i"
proof (cases "i < length s")
  case True
  then have "(of_char (s ! i) :: nat) < 128" using assms(2) by simp
  then have "\<not> cont_byte (word_of_nat (of_char (s ! i)))"
    by (simp add: cont_byte_def word_le_nat_alt unat_of_nat)
  with True show ?thesis by (simp add: is_char_boundary_def)
qed (use assms(1) in \<open>simp add: is_char_boundary_def\<close>)

lemma is_hex_ascii: "is_hex c \<Longrightarrow> (of_char c :: nat) < 128"
  by (auto simp: is_hex_def Let_def)

lemma u8_from_hex_digits:
  "u8_from_hex (hex_digit (unat b div 16)) (hex_digit (unat b mod 16)) = Some b"
proof -
  have "unat b < 256" by (rule unat_byte_lt)
  then have h: "hex_value (hex_digit (unat b div 16)) = Some (unat b div 16)"
    "hex_value (hex_digit (unat b mod 16)) = Some (unat b mod 16)"
    by (simp_all add: hex_value_digit less_mult_imp_div_less)
  have "hex_value CHR ''+'' = None" by (simp add: hex_value_def)
  with h(1) have "hex_digit (unat b div 16) \<noteq> CHR ''+''" by auto
  with h show ?thesis
    by (simp only: u8_from_hex_def if_False Option.bind.bind_lunit option.map mult_div_mod_eq
        of_nat_unat ucast_id)
qed

lemma decode_hex_loop_hex:
  "k \<le> length bs \<Longrightarrow>
    decode_hex_loop (hex bs) [k..<length bs] (take k bs) = Returned (Some bs)"
proof (induction "length bs - k" arbitrary: k)
  case (Suc n)
  then have k: "k < length bs" by simp
  have b: "is_char_boundary (hex bs) (k * 2)" "is_char_boundary (hex bs) (k * 2 + 2)"
    using k is_hex_hex is_hex_ascii by (auto intro!: ascii_boundary)
  have "u8_from_hex (hex bs ! (k * 2)) (hex bs ! (k * 2 + 1)) = Some (bs ! k)"
    using nth_hex [OF k] u8_from_hex_digits by (simp add: mult.commute)
  with k b Suc.hyps(1) [of "Suc k"] Suc.hyps(2) show ?case
    by (simp add: upt_conv_Cons take_Suc_conv_app_nth)
qed simp

text \<open>
  Every 32-byte key, written in hexadecimal, is read back by \<open>decode_hex\<close>; and on a 64-byte
  text of ASCII characters \<open>from_hex\<close> never panics.
\<close>

theorem decode_hex_complete:
  "(length key = 32 \<longrightarrow> decode_hex (hex key) = Returned (Some key)) \<and>
   (list_all (\<lambda>c. visible c) s \<longrightarrow> encrypted_from_hex ok s \<noteq> Panicked)"
proof (intro conjI impI)
  assume l: "length key = 32"
  have "hex key \<noteq> [] \<Longrightarrow> visible (hd (hex key)) \<and> visible (last (hex key))"
    using is_hex_hex is_hex_visible hd_in_set last_in_set by blast
  then have "str_trim (hex key) = hex key" by (rule str_trim_visible)
  with l decode_hex_loop_hex [of 0 key] show "decode_hex (hex key) = Returned (Some key)"
    by (simp add: decode_hex_def)
next
  assume v: "list_all visible s"
  have "s \<noteq> [] \<Longrightarrow> visible (hd s) \<and> visible (last s)"
    using v by (simp add: list_all_iff)
  then have t: "str_trim s = s" by (rule str_trim_visible)
  have "decode_hex_loop s is out \<noteq> Panicked"
    if "length s = 64" "\<forall>i\<in>set is. i < 32" for "is" out
    using that
  proof (induction "is" arbitrary: out)
    case (Cons i "is")
    then have "is_char_boundary s (i * 2)" "is_char_boundary s (i * 2 + 2)"
      using v by (auto intro!: ascii_boundary simp: list_all_iff visible_def)
    with Cons show ?case by (auto split: option.splits)
  qed simp
  then have "decode_hex s \<noteq> Panicked" by (simp add: decode_hex_def t)
  then show "encrypted_from_hex ok s \<noteq> Panicked"
    by (auto simp: encrypted_from_hex_def split: outcome.splits option.splits)
qed

theorem decode_hex_complete_witness:
  "decode_hex (hex (replicate 32 0xAB)) = Returned (Some (replicate 32 0xAB))"
  using decode_hex_complete [of "replicate 32 0xAB" "''x''" True] by simp

text \<open>
  On a key text with a two-byte character at an odd offset the slice panics instead of returning the
  error that \<open>from_hex\<close> documents; and a plus sign is taken for a digit.
\<close>

theorem from_hex_panics:
  "encrypted_from_hex True (''a'' @ [CHR 0xC3, CHR 0xA9] @ replicate 61 CHR ''a'') = Panicked"
proof -
  let ?s = "''a'' @ [CHR 0xC3, CHR 0xA9] @ replicate 61 CHR ''a''"
  have t: "str_trim ?s = ?s"
    by (rule str_trim_visible) (simp add: visible_def)
  have b: "\<not> is_char_boundary ?s 2"
    by (simp add: is_char_boundary_def cont_byte_def nth_append)
  have u: "[0..<32] = 0 # [1..<32]" by (simp add: upt_conv_Cons)
  have "decode_hex_loop ?s [0..<32] [] = Panicked"
    unfolding u using b by (simp add: numeral_2_eq_2)
  then have "decode_hex ?s = Panicked" unfolding decode_hex_def Let_def t by simp
  then show ?thesis unfolding encrypted_from_hex_def by simp
qed

theorem from_hex_accepts_plus: "u8_from_hex CHR ''+'' CHR ''f'' = Some 15"
  by (simp add: u8_from_hex_def hex_value_def)

end
