(* ===== verification/Fs_Model.thy ===== *)
theory Fs_Model
  imports Compress "HOL-Library.AList"
begin

text \<open>
  The file system the storage backend calls through \<open>tokio::fs\<close> and \<open>std::fs\<close>: a tree of names over
  inodes.  Open files are inode numbers, so a handle keeps working after its name was renamed or
  removed.  Path resolution follows symbolic links (at most 40, as Linux does); the operations
  return the errors of the corresponding system calls.  Directories keep the modification time of
  their creation; hard links, permissions and I/O faults are not represented.
\<close>

type_synonym path = "string list"

datatype node = NFile nat | NDir nat | NSymlink path

record fsys =
  fs_entries :: "(path \<times> node) list"
  fs_data :: "nat \<Rightarrow> bytes"
  fs_mtime :: "nat \<Rightarrow> nat"
  fs_next :: nat
  fs_now :: nat

subsection \<open>Errors\<close>

definition enoent :: io_error where
  "enoent = Io_error Io_NotFound ''No such file or directory (os error 2)''"
definition eexist :: io_error where
  "eexist = Io_error Io_AlreadyExists ''File exists (os error 17)''"
definition enotdir :: io_error where
  "enotdir = Io_error Io_NotADirectory ''Not a directory (os error 20)''"
definition eisdir :: io_error where
  "eisdir = Io_error Io_IsADirectory ''Is a directory (os error 21)''"
definition eloop :: io_error where
  "eloop = Io_error Io_Other ''Too many levels of symbolic links (os error 40)''"

lemmas errno_defs = enoent_def eexist_def enotdir_def eisdir_def eloop_def

subsection \<open>Names\<close>

definition fs_node :: "fsys \<Rightarrow> path \<Rightarrow> node option" where
  "fs_node fs p = (if p = [] then Some (NDir 0) else map_of (fs_entries fs) p)"

definition set_node :: "fsys \<Rightarrow> path \<Rightarrow> node \<Rightarrow> fsys" where
  "set_node fs p nd = fs\<lparr> fs_entries := AList.update p nd (fs_entries fs) \<rparr>"

definition del_node :: "fsys \<Rightarrow> path \<Rightarrow> fsys" where
  "del_node fs p = fs\<lparr> fs_entries := AList.delete p (fs_entries fs) \<rparr>"

definition max_links :: nat where "max_links = 40"

function fs_walk_from :: "fsys \<Rightarrow> bool \<Rightarrow> nat \<Rightarrow> path \<Rightarrow> path \<Rightarrow> io_error + path" where
  "fs_walk_from fs follow n cur [] = Inr cur"
| "fs_walk_from fs follow n cur (s # ss) =
     (case fs_node fs (cur @ [s]) of
        None \<Rightarrow> if ss = [] then Inr (cur @ [s]) else Inl enoent
      | Some (NDir _) \<Rightarrow> fs_walk_from fs follow n (cur @ [s]) ss
      | Some (NFile _) \<Rightarrow> if ss = [] then Inr (cur @ [s]) else Inl enotdir
      | Some (NSymlink t) \<Rightarrow>
          if ss = [] \<and> \<not> follow then Inr (cur @ [s])
          else (case n of 0 \<Rightarrow> Inl eloop | Suc m \<Rightarrow> fs_walk_from fs follow m [] (t @ ss)))"
  by pat_completeness auto
termination by (relation "measures [\<lambda>(fs, f, n, c, ss). n, \<lambda>(fs, f, n, c, ss). length ss]") auto

definition fs_walk :: "fsys \<Rightarrow> bool \<Rightarrow> path \<Rightarrow> io_error + path" where
  "fs_walk fs follow p = fs_walk_from fs follow max_links [] p"

definition fs_stat :: "fsys \<Rightarrow> bool \<Rightarrow> path \<Rightarrow> io_error + node" where
  "fs_stat fs follow p = res_bind (fs_walk fs follow p) (\<lambda>q. ok_or enoent (fs_node fs q))"

definition fs_try_exists :: "fsys \<Rightarrow> path \<Rightarrow> io_error + bool" where
  "fs_try_exists fs p =
     (case fs_stat fs True p of
        Inr _ \<Rightarrow> Inr True
      | Inl e \<Rightarrow> if io_kind e = Io_NotFound then Inr False else Inl e)"

subsection \<open>Files\<close>

definition new_file :: "fsys \<Rightarrow> path \<Rightarrow> nat \<times> fsys" where
  "new_file fs q =
     (let i = fs_next fs in
      (i, (set_node fs q (NFile i))
        \<lparr> fs_data := (fs_data fs)(i := []), fs_mtime := (fs_mtime fs)(i := fs_now fs),
          fs_next := i + 1 \<rparr>))"

definition fs_create :: "fsys \<Rightarrow> path \<Rightarrow> io_error + nat \<times> fsys" where
  "fs_create fs p =
     res_bind (fs_walk fs True p) (\<lambda>q.
       case fs_node fs q of
         None \<Rightarrow> Inr (new_file fs q)
       | Some (NFile i) \<Rightarrow>
           Inr (i, fs\<lparr> fs_data := (fs_data fs)(i := []), fs_mtime := (fs_mtime fs)(i := fs_now fs) \<rparr>)
       | Some (NDir _) \<Rightarrow> Inl eisdir
       | Some (NSymlink _) \<Rightarrow> Inl eloop)"

definition fs_create_new :: "fsys \<Rightarrow> path \<Rightarrow> io_error + nat \<times> fsys" where
  "fs_create_new fs p =
     res_bind (fs_walk fs False p) (\<lambda>q.
       case fs_node fs q of None \<Rightarrow> Inr (new_file fs q) | Some _ \<Rightarrow> Inl eexist)"

definition fs_open :: "fsys \<Rightarrow> path \<Rightarrow> io_error + nat" where
  "fs_open fs p =
     res_bind (fs_stat fs True p) (\<lambda>nd.
       case nd of NFile i \<Rightarrow> Inr i | NDir _ \<Rightarrow> Inl eisdir | NSymlink _ \<Rightarrow> Inl eloop)"

text \<open>A write at an offset: a gap before it reads as zeros; writing nothing changes nothing.\<close>

definition write_bytes :: "bytes \<Rightarrow> nat \<Rightarrow> bytes \<Rightarrow> bytes" where
  "write_bytes d off buf =
     (if buf = [] then d
      else take off (d @ replicate (off - length d) 0) @ buf @ drop (off + length buf) d)"

definition fs_write :: "fsys \<Rightarrow> nat \<Rightarrow> nat \<Rightarrow> bytes \<Rightarrow> fsys" where
  "fs_write fs i off buf =
     (if buf = [] then fs
      else fs\<lparr> fs_data := (fs_data fs)(i := write_bytes (fs_data fs i) off buf),
              fs_mtime := (fs_mtime fs)(i := fs_now fs) \<rparr>)"

definition fs_len :: "fsys \<Rightarrow> nat \<Rightarrow> nat" where
  "fs_len fs i = length (fs_data fs i)"

definition fs_remove_file :: "fsys \<Rightarrow> path \<Rightarrow> io_error + fsys" where
  "fs_remove_file fs p =
     res_bind (fs_walk fs False p) (\<lambda>q.
       case fs_node fs q of
         None \<Rightarrow> Inl enoent
       | Some (NDir _) \<Rightarrow> Inl eisdir
       | Some _ \<Rightarrow> Inr (del_node fs q))"

definition fs_rename :: "fsys \<Rightarrow> path \<Rightarrow> path \<Rightarrow> io_error + fsys" where
  "fs_rename fs a b =
     res_bind (fs_walk fs False a) (\<lambda>qa.
     res_bind (fs_walk fs False b) (\<lambda>qb.
       case fs_node fs qa of
         None \<Rightarrow> Inl enoent
       | Some (NDir _) \<Rightarrow> Inl eisdir
       | Some nd \<Rightarrow>
           (case fs_node fs qb of
              Some (NDir _) \<Rightarrow> Inl eisdir
            | _ \<Rightarrow> if qa = qb then Inr fs else Inr (set_node (del_node fs qa) qb nd))))"

subsection \<open>Directories\<close>

text \<open>Created level by level, so an error leaves the levels above it.\<close>

fun fs_mkdirs :: "fsys \<Rightarrow> path \<Rightarrow> path \<Rightarrow> (io_error + unit) \<times> fsys" where
  "fs_mkdirs fs cur [] = (Inr (), fs)"
| "fs_mkdirs fs cur (s # ss) =
     (case fs_stat fs True (cur @ [s]) of
        Inr (NDir _) \<Rightarrow> fs_mkdirs fs (cur @ [s]) ss
      | Inr _ \<Rightarrow> (Inl (if ss = [] then eexist else enotdir), fs)
      | Inl e \<Rightarrow>
          if io_kind e \<noteq> Io_NotFound then (Inl e, fs)
          else case fs_walk fs False (cur @ [s]) of
                 Inl e2 \<Rightarrow> (Inl e2, fs)
               | Inr q \<Rightarrow>
                   (case fs_node fs q of
                      Some _ \<Rightarrow> (Inl eexist, fs)
                    | None \<Rightarrow> fs_mkdirs (set_node fs q (NDir (fs_now fs))) (cur @ [s]) ss))"

definition fs_create_dir_all :: "fsys \<Rightarrow> path \<Rightarrow> (io_error + unit) \<times> fsys" where
  "fs_create_dir_all fs p = fs_mkdirs fs [] p"

definition fs_read_dir :: "fsys \<Rightarrow> path \<Rightarrow> io_error + (string \<times> node) list" where
  "fs_read_dir fs p =
     res_bind (fs_walk fs True p) (\<lambda>q.
       case fs_node fs q of
         None \<Rightarrow> Inl enoent
       | Some (NDir _) \<Rightarrow>
           Inr (map (\<lambda>(k, nd). (last k, nd))
             (filter (\<lambda>(k, nd). k \<noteq> [] \<and> butlast k = q) (fs_entries fs)))
       | Some _ \<Rightarrow> Inl enotdir)"

definition fs_remove_dir_all :: "fsys \<Rightarrow> path \<Rightarrow> io_error + fsys" where
  "fs_remove_dir_all fs p =
     res_bind (fs_walk fs False p) (\<lambda>q.
       case fs_node fs q of
         Some (NDir _) \<Rightarrow> Inr (fs\<lparr> fs_entries := filter (\<lambda>(k, nd). \<not> prefix q k) (fs_entries fs) \<rparr>)
       | Some _ \<Rightarrow> Inl enotdir
       | None \<Rightarrow> Inl enoent)"

subsection \<open>Reading the state after an operation\<close>

lemma fs_node_Nil [simp]: "fs_node fs [] = Some (NDir 0)"
  by (simp add: fs_node_def)

lemma fs_node_set: "fs_node (set_node fs q nd) p = (if p = [] then Some (NDir 0) else if p = q then Some nd else fs_node fs p)"
  by (simp add: fs_node_def set_node_def update_conv)

lemma fs_node_del: "fs_node (del_node fs q) p = (if p \<noteq> [] \<and> p = q then None else fs_node fs p)"
  by (simp add: fs_node_def del_node_def delete_conv)

lemma set_node_fields [simp]:
  "fs_data (set_node fs q nd) = fs_data fs" "fs_mtime (set_node fs q nd) = fs_mtime fs"
  "fs_next (set_node fs q nd) = fs_next fs" "fs_now (set_node fs q nd) = fs_now fs"
  by (simp_all add: set_node_def)

lemma del_node_fields [simp]:
  "fs_data (del_node fs q) = fs_data fs" "fs_mtime (del_node fs q) = fs_mtime fs"
  "fs_next (del_node fs q) = fs_next fs" "fs_now (del_node fs q) = fs_now fs"
  by (simp_all add: del_node_def)

lemma fs_node_data_upd [simp]:
  "fs_node (fs\<lparr> fs_data := d \<rparr>) = fs_node fs" "fs_node (fs\<lparr> fs_mtime := m \<rparr>) = fs_node fs"
  "fs_node (fs\<lparr> fs_next := n \<rparr>) = fs_node fs"
  by (simp_all add: fs_node_def fun_eq_iff)

text \<open>
  A plain path: no prefix is a symbolic link and every proper prefix is a directory.  Resolution
  leaves it as it is.
\<close>

definition is_dir :: "fsys \<Rightarrow> path \<Rightarrow> bool" where
  "is_dir fs p = (case fs_node fs p of Some (NDir _) \<Rightarrow> True | _ \<Rightarrow> False)"

definition is_link :: "fsys \<Rightarrow> path \<Rightarrow> bool" where
  "is_link fs p = (case fs_node fs p of Some (NSymlink _) \<Rightarrow> True | _ \<Rightarrow> False)"

definition plain_path :: "fsys \<Rightarrow> path \<Rightarrow> bool" where
  "plain_path fs p \<longleftrightarrow> (\<forall>q. strict_prefix q p \<longrightarrow> is_dir fs q) \<and> \<not> is_link fs p"

lemma is_dir_Nil [simp]: "is_dir fs []"
  by (simp add: is_dir_def)

lemma fs_walk_from_plain:
  assumes "\<forall>q. prefix cur q \<and> strict_prefix q (cur @ ss) \<longrightarrow> is_dir fs q" and "\<not> is_link fs (cur @ ss)"
  shows "fs_walk_from fs follow n cur ss = Inr (cur @ ss)"
  using assms
proof (induction ss arbitrary: cur)
  case (Cons s ss)
  show ?case
  proof (cases "ss = []")
    case True
    with Cons.prems(2) show ?thesis by (auto simp: is_link_def split: option.splits node.splits)
  next
    case False
    then have "strict_prefix (cur @ [s]) (cur @ s # ss)" by (simp add: strict_prefix_def)
    with Cons.prems(1) have "is_dir fs (cur @ [s])" by (auto simp: prefix_def)
    then obtain m where d: "fs_node fs (cur @ [s]) = Some (NDir m)"
      by (auto simp: is_dir_def split: option.splits node.splits)
    have "fs_walk_from fs follow n (cur @ [s]) ss = Inr ((cur @ [s]) @ ss)"
      using Cons.prems by (intro Cons.IH) (auto simp: prefix_def)
    with d show ?thesis by simp
  qed
qed simp

lemma fs_walk_plain: "plain_path fs p \<Longrightarrow> fs_walk fs follow p = Inr p"
  using fs_walk_from_plain [of "[]" p fs follow max_links] by (simp add: fs_walk_def plain_path_def)

lemma fs_stat_plain: "plain_path fs p \<Longrightarrow> fs_stat fs follow p = ok_or enoent (fs_node fs p)"
  by (simp add: fs_stat_def fs_walk_plain)

lemma fs_try_exists_plain: "plain_path fs p \<Longrightarrow> fs_try_exists fs p = Inr (fs_node fs p \<noteq> None)"
  by (cases "fs_node fs p") (simp_all add: fs_try_exists_def fs_stat_plain enoent_def)

text \<open>What \<open>plain_path\<close> depends on.\<close>

lemma plain_path_cong:
  assumes "plain_path fs p"
    and "\<And>q. strict_prefix q p \<Longrightarrow> is_dir fs q \<Longrightarrow> is_dir fs2 q" and "\<not> is_link fs2 p"
  shows "plain_path fs2 p"
  using assms by (simp add: plain_path_def)

lemma plain_path_butlast: "plain_path fs p \<Longrightarrow> plain_path fs (butlast p)"
proof (cases "p = []")
  case False
  assume p: "plain_path fs p"
  from False have s: "strict_prefix (butlast p) p"
    by (metis append_butlast_last_id strict_prefixI' append_Nil2 not_Cons_self2)
  with p have "is_dir fs (butlast p)" by (simp add: plain_path_def)
  then have "\<not> is_link fs (butlast p)" by (auto simp: is_dir_def is_link_def split: option.splits node.splits)
  with p s show ?thesis by (auto simp: plain_path_def dest: prefix_order.less_trans)
qed simp

lemma plain_path_sibling:
  "plain_path fs p \<Longrightarrow> p \<noteq> [] \<Longrightarrow> \<not> is_link fs (butlast p @ [x]) \<Longrightarrow> plain_path fs (butlast p @ [x])"
proof -
  assume p: "plain_path fs p" "p \<noteq> []" and l: "\<not> is_link fs (butlast p @ [x])"
  have "is_dir fs q" if "strict_prefix q (butlast p @ [x])" for q
  proof -
    from that have "prefix q (butlast p)" by (auto simp: strict_prefix_def)
    moreover have "strict_prefix (butlast p) p"
      using p(2) by (metis append_butlast_last_id strict_prefixI' append_Nil2 not_Cons_self2)
    ultimately have "strict_prefix q p" by (rule prefix_order.le_less_trans)
    with p(1) show ?thesis by (simp add: plain_path_def)
  qed
  with l show ?thesis by (simp add: plain_path_def)
qed

end
