(* ===== verification/Storage.thy ===== *)
theory Storage
  imports Fs_Model Metadata "HOL-Library.List_Lexorder"
begin

text \<open>
  The file-system storage backend (libfw-server, \<open>storage.rs\<close>, with the types of libfw-core's
  \<open>storage.rs\<close>): path resolution and symlink checks, metadata, reading, the plain and the session
  upload sinks, the received-range bookkeeping, listing, removal and the sweep of stale sessions.
  An operation takes the world (the file system and the temp-name counter) and returns its result
  with the world after it.  The per-target locks are not represented: operations run one after the
  other, in any order.
\<close>

subsection \<open>The world and its operations\<close>

record world =
  w_fs :: fsys
  w_tmp_counter :: nat

type_synonym 'a stm = "world \<Rightarrow> (storage_error + 'a) \<times> world"

definition sm_ret :: "'a \<Rightarrow> 'a stm" where
  "sm_ret x = (\<lambda>w. (Inr x, w))"

definition sm_err :: "storage_error \<Rightarrow> 'a stm" where
  "sm_err e = (\<lambda>w. (Inl e, w))"

definition sm_bind :: "'a stm \<Rightarrow> ('a \<Rightarrow> 'b stm) \<Rightarrow> 'b stm" where
  "sm_bind m f = (\<lambda>w. case m w of (Inl e, w2) \<Rightarrow> (Inl e, w2) | (Inr x, w2) \<Rightarrow> f x w2)"

definition sm_lift :: "storage_error + 'a \<Rightarrow> 'a stm" where
  "sm_lift r = (\<lambda>w. (r, w))"

text \<open>A query of the file system, and a step of it; an I/O error becomes \<open>StorageError::Other\<close>.\<close>

definition fs_query :: "(fsys \<Rightarrow> io_error + 'a) \<Rightarrow> 'a stm" where
  "fs_query q = (\<lambda>w. (map_err St_Other (q (w_fs w)), w))"

definition fs_step :: "(fsys \<Rightarrow> io_error + 'a \<times> fsys) \<Rightarrow> 'a stm" where
  "fs_step f = (\<lambda>w. case f (w_fs w) of
     Inl e \<Rightarrow> (Inl (St_Other e), w) | Inr (x, fs) \<Rightarrow> (Inr x, w\<lparr> w_fs := fs \<rparr>))"

text \<open>A step whose error is ignored (\<open>let _ = ...\<close>).\<close>

definition fs_attempt :: "(fsys \<Rightarrow> io_error + fsys) \<Rightarrow> unit stm" where
  "fs_attempt f = (\<lambda>w. case f (w_fs w) of
     Inl e \<Rightarrow> (Inr (), w) | Inr fs \<Rightarrow> (Inr (), w\<lparr> w_fs := fs \<rparr>))"

definition fs_run :: "(fsys \<Rightarrow> (io_error + unit) \<times> fsys) \<Rightarrow> unit stm" where
  "fs_run f = (\<lambda>w. case f (w_fs w) of (r, fs) \<Rightarrow> (map_err St_Other r, w\<lparr> w_fs := fs \<rparr>))"

named_theorems sm_simps \<open>unfolding of the storage monad\<close>

declare sm_ret_def [sm_simps] sm_err_def [sm_simps] sm_bind_def [sm_simps] sm_lift_def [sm_simps]
  fs_query_def [sm_simps] fs_step_def [sm_simps] fs_attempt_def [sm_simps] fs_run_def [sm_simps]

subsection \<open>Paths\<close>

datatype write_mode = WM_Create | WM_Overwrite | WM_Resume nat

datatype component = C_CurDir | C_ParentDir | C_Normal string

text \<open>\<open>Path::components\<close> of a relative path: a dot counts only in front.\<close>

definition path_components :: "string \<Rightarrow> component list" where
  "path_components p =
     (let segs = split_on CHR ''/'' p in
      (if hd segs = ''.'' then [C_CurDir] else []) @
      map (\<lambda>s. if s = ''..'' then C_ParentDir else C_Normal s)
        (filter (\<lambda>s. s \<noteq> [] \<and> s \<noteq> ''.'') segs))"

record fs_storage =
  st_root :: path

fun resolve_loop :: "path \<Rightarrow> component list \<Rightarrow> storage_error + path" where
  "resolve_loop joined [] = Inr joined"
| "resolve_loop joined (C_Normal seg # cs) = resolve_loop (joined @ [seg]) cs"
| "resolve_loop joined (C_CurDir # cs) = resolve_loop joined cs"
| "resolve_loop joined (C_ParentDir # cs) =
     Inl (Unsupported (''path must not contain '' @ [CHR 0x27] @ ''..'' @ [CHR 0x27] @ '' or special components''))"

definition resolve :: "fs_storage \<Rightarrow> string \<Rightarrow> storage_error + path" where
  "resolve st p =
     (if starts_with p ''/'' then Inl (Unsupported ''absolute paths are not allowed'')
      else resolve_loop (st_root st) (path_components p))"

fun check_symlinks_loop :: "fsys \<Rightarrow> path \<Rightarrow> path \<Rightarrow> storage_error + unit" where
  "check_symlinks_loop fs probe [] = Inr ()"
| "check_symlinks_loop fs probe (c # cs) =
     (case fs_stat fs False (probe @ [c]) of
        Inr (NSymlink _) \<Rightarrow> Inl (Unsupported ''path must not traverse a symlink'')
      | Inr _ \<Rightarrow> check_symlinks_loop fs (probe @ [c]) cs
      | Inl e \<Rightarrow> if io_kind e = Io_NotFound then check_symlinks_loop fs (probe @ [c]) cs
                 else Inl (St_Other e))"

definition check_symlinks :: "fs_storage \<Rightarrow> path \<Rightarrow> unit stm" where
  "check_symlinks st full = (\<lambda>w.
     ((if prefix (st_root st) full
       then check_symlinks_loop (w_fs w) (st_root st) (drop (length (st_root st)) full)
       else Inr ()), w))"

definition open_path :: "fs_storage \<Rightarrow> string \<Rightarrow> path stm" where
  "open_path st p =
     sm_bind (sm_lift (resolve st p)) (\<lambda>full.
     sm_bind (check_symlinks st full) (\<lambda>_. sm_ret full))"

subsection \<open>Metadata and reading\<close>

text \<open>SHA-256 and the serialisations of serde_json, as the server uses them.\<close>

record externals =
  x_sha :: "bytes \<Rightarrow> bytes"
  x_ser_ranges :: "chunk_range list \<Rightarrow> string"
  x_de_ranges :: "string \<Rightarrow> string + chunk_range list"
  x_de_meta :: "string \<Rightarrow> string + file_meta"

text \<open>Length and modification time (nanoseconds) of \<open>std::fs::Metadata\<close>.\<close>

definition meta_len :: "fsys \<Rightarrow> node \<Rightarrow> nat" where
  "meta_len fs nd = (case nd of NFile i \<Rightarrow> fs_len fs i | NDir _ \<Rightarrow> 4096
     | NSymlink t \<Rightarrow> length (join_on CHR ''/'' t))"

definition meta_mtime :: "fsys \<Rightarrow> node \<Rightarrow> nat" where
  "meta_mtime fs nd = (case nd of NFile i \<Rightarrow> fs_mtime fs i | NDir m \<Rightarrow> m | NSymlink _ \<Rightarrow> 0)"

definition file_meta_at :: "externals \<Rightarrow> string \<Rightarrow> fsys \<Rightarrow> node \<Rightarrow> file_meta" where
  "file_meta_at x rel fs nd =
     (let mtime = meta_mtime fs nd div 10 ^ 9 in
      \<lparr> fm_path = rel, fm_size = meta_len fs nd, fm_mtime = mtime,
        fm_etag = etag_from_size_mtime (x_sha x) (meta_len fs nd) mtime \<rparr>)"

definition st_file_meta :: "externals \<Rightarrow> fs_storage \<Rightarrow> string \<Rightarrow> file_meta option stm" where
  "st_file_meta x st p =
     sm_bind (open_path st p) (\<lambda>full. \<lambda>w.
       (case fs_stat (w_fs w) True full of
          Inl e \<Rightarrow> if io_kind e = Io_NotFound then (Inr None, w) else (Inl (St_Other e), w)
        | Inr (NDir _) \<Rightarrow> (Inl (Unsupported ''path is a directory''), w)
        | Inr nd \<Rightarrow> (Inr (Some (file_meta_at x p (w_fs w) nd)), w)))"

text \<open>An open file positioned at the start of the range and limited to its length.\<close>

record reader =
  rd_ino :: nat
  rd_pos :: nat
  rd_limit :: nat

definition read_stream :: "fs_storage \<Rightarrow> string \<Rightarrow> range_spec \<Rightarrow> reader stm" where
  "read_stream st p rng =
     sm_bind (open_path st p) (\<lambda>full.
     sm_bind (fs_query (\<lambda>fs. fs_open fs full)) (\<lambda>i.
     sm_ret \<lparr> rd_ino = i, rd_pos = (if 0 < r_start rng then r_start rng else 0),
              rd_limit = range_len rng \<rparr>))"

text \<open>What reading it to the end yields.\<close>

definition reader_bytes :: "fsys \<Rightarrow> reader \<Rightarrow> bytes" where
  "reader_bytes fs r = take (rd_limit r) (drop (rd_pos r) (fs_data fs (rd_ino r)))"

subsection \<open>Sinks\<close>

record fs_sink =
  sk_ino :: nat
  sk_append :: bool
  sk_pos :: nat
  sk_tmp :: "path option"
  sk_target :: path
  sk_rel :: string
  sk_mode :: write_mode
  sk_written :: nat
  sk_blocks :: "path option"
  sk_ranges :: "chunk_range list"

definition file_name :: "path \<Rightarrow> string option" where
  "file_name p = (if p = [] then None else Some (last p))"

definition with_file_name :: "path \<Rightarrow> string \<Rightarrow> path" where
  "with_file_name p name = butlast p @ [name]"

definition name_or_upload :: "path \<Rightarrow> string" where
  "name_or_upload p = (case file_name p of None \<Rightarrow> ''upload'' | Some n \<Rightarrow> n)"

definition temp_path_for :: "path \<Rightarrow> path stm" where
  "temp_path_for target = (\<lambda>w.
     (Inr (with_file_name target
        (''.libfw-tmp-'' @ name_or_upload target @ ''-'' @ show_nat (fs_now (w_fs w)) @ ''-'' @
         show_nat (w_tmp_counter w))),
      w\<lparr> w_tmp_counter := u64_add (w_tmp_counter w) 1 \<rparr>))"

definition blocks_path_for :: "path \<Rightarrow> path" where
  "blocks_path_for tmp = with_file_name tmp (last tmp @ ''.blocks'')"

definition make_parent :: "path \<Rightarrow> unit stm" where
  "make_parent full =
     (if full = [] then sm_ret () else fs_run (\<lambda>fs. fs_create_dir_all fs (butlast full)))"

definition write_stream :: "fs_storage \<Rightarrow> string \<Rightarrow> write_mode \<Rightarrow> fs_sink stm" where
  "write_stream st p mode =
     sm_bind (open_path st p) (\<lambda>full.
     sm_bind (make_parent full) (\<lambda>_.
     case mode of
       WM_Resume off \<Rightarrow>
         sm_bind (fs_query (\<lambda>fs. fs_open fs full)) (\<lambda>i. \<lambda>w.
           let current = fs_len (w_fs w) i in
           if current \<noteq> off
           then (Inl (write_failed off (Io_error Io_Other
                  (''existing file is '' @ show_nat current @ '' bytes, expected '' @ show_nat off))), w)
           else (Inr \<lparr> sk_ino = i, sk_append = True, sk_pos = 0, sk_tmp = None, sk_target = full,
                       sk_rel = p, sk_mode = mode, sk_written = off, sk_blocks = None,
                       sk_ranges = [] \<rparr>, w))
     | _ \<Rightarrow>
         sm_bind (if mode = WM_Create then fs_query (\<lambda>fs. fs_try_exists fs full) else sm_ret False)
           (\<lambda>exists.
         if exists then sm_err (St_AlreadyExists p)
         else
         sm_bind (temp_path_for full) (\<lambda>tmp.
         sm_bind (fs_step (\<lambda>fs. fs_create fs tmp)) (\<lambda>i.
         sm_ret \<lparr> sk_ino = i, sk_append = False, sk_pos = 0, sk_tmp = Some tmp, sk_target = full,
                  sk_rel = p, sk_mode = mode, sk_written = 0, sk_blocks = None,
                  sk_ranges = [] \<rparr>)))))"

subsection \<open>Received ranges\<close>

definition sort_ranges :: "chunk_range list \<Rightarrow> chunk_range list" where
  "sort_ranges = sort_key c_start"

fun merge_sorted :: "chunk_range list \<Rightarrow> chunk_range list \<Rightarrow> chunk_range list" where
  "merge_sorted merged [] = merged"
| "merge_sorted merged (r # rs) =
     (if merged \<noteq> [] \<and> c_start r \<le> c_end (last merged)
      then merge_sorted
             (if c_end (last merged) < c_end r
              then butlast merged @ [(last merged)\<lparr> c_end := c_end r \<rparr>] else merged) rs
      else merge_sorted (merged @ [r]) rs)"

definition merge_range :: "chunk_range list \<Rightarrow> chunk_range \<Rightarrow> chunk_range list" where
  "merge_range ranges new =
     (if chunk_range_is_empty new then ranges
      else merge_sorted [] (sort_ranges (ranges @ [new])))"

definition read_ranges :: "externals \<Rightarrow> path \<Rightarrow> chunk_range list stm" where
  "read_ranges x blocks = (\<lambda>w.
     (case fs_open (w_fs w) blocks of
        Inl e \<Rightarrow> if io_kind e = Io_NotFound then Inr [] else Inl (St_Other e)
      | Inr i \<Rightarrow>
          if \<not> utf8_valid (fs_data (w_fs w) i)
          then Inl (St_Other (Io_error Io_InvalidData ''stream did not contain valid UTF-8''))
          else (case x_de_ranges x (bytes_to_str (fs_data (w_fs w) i)) of
                  Inl e \<Rightarrow> Inl (St_Other (Io_error Io_Other (''corrupt session state: '' @ e)))
                | Inr rs \<Rightarrow> Inr rs), w))"

text \<open>\<open>tokio::fs::write\<close>: create or truncate, then write everything.\<close>

definition fs_write_file :: "fsys \<Rightarrow> path \<Rightarrow> bytes \<Rightarrow> io_error + unit \<times> fsys" where
  "fs_write_file fs p content =
     res_bind (fs_create fs p) (\<lambda>(i, fs2). Inr ((), fs_write fs2 i 0 content))"

definition persist_ranges :: "externals \<Rightarrow> path \<Rightarrow> chunk_range list \<Rightarrow> unit stm" where
  "persist_ranges x blocks ranges =
     (let tmp = with_file_name blocks (last blocks @ ''.tmp'') in
      sm_bind (fs_step (\<lambda>fs. fs_write_file fs tmp (as_bytes (x_ser_ranges x ranges)))) (\<lambda>_.
      fs_step (\<lambda>fs. res_bind (fs_rename fs tmp blocks) (\<lambda>fs2. Inr ((), fs2)))))"

definition remove_blocks_sidecar :: "path option \<Rightarrow> unit stm" where
  "remove_blocks_sidecar blocks =
     (case blocks of None \<Rightarrow> sm_ret () | Some b \<Rightarrow> fs_attempt (\<lambda>fs. fs_remove_file fs b))"

subsection \<open>Session sinks\<close>

definition is_ascii_alphanumeric :: "char \<Rightarrow> bool" where
  "is_ascii_alphanumeric c \<longleftrightarrow> (let n = of_char c :: nat in
     48 \<le> n \<and> n \<le> 57 \<or> 65 \<le> n \<and> n \<le> 90 \<or> 97 \<le> n \<and> n \<le> 122)"

text \<open>
  \<open>s.chars().map(..)\<close>: one replacement character per code point, that is per byte that is not a
  UTF-8 continuation byte.
\<close>

definition sanitize :: "string \<Rightarrow> string" where
  "sanitize s =
     List.map_filter
       (\<lambda>c. if is_ascii_alphanumeric c \<or> c = CHR ''-'' \<or> c = CHR ''_'' then Some c
            else if cont_byte (word_of_nat (of_char c)) then None
            else Some CHR ''_'') s"

text \<open>The first \<open>n\<close> code points.\<close>

fun take_chars :: "nat \<Rightarrow> string \<Rightarrow> string" where
  "take_chars n [] = []"
| "take_chars n (c # cs) =
     (if cont_byte (word_of_nat (of_char c)) then c # take_chars n cs
      else if n = 0 then [] else c # take_chars (n - 1) cs)"

definition session_tmp :: "path \<Rightarrow> string \<Rightarrow> string \<Rightarrow> path" where
  "session_tmp full session owner =
     with_file_name full
       (''.libfw-sess-'' @ sanitize (take_chars 16 owner) @ ''-'' @ sanitize session @ ''-'' @
        name_or_upload full)"

definition write_stream_session ::
  "externals \<Rightarrow> fs_storage \<Rightarrow> string \<Rightarrow> string \<Rightarrow> string \<Rightarrow> write_mode \<Rightarrow> fs_sink stm" where
  "write_stream_session x st p session owner mode =
     sm_bind (open_path st p) (\<lambda>full.
     sm_bind (make_parent full) (\<lambda>_.
     let tmp = session_tmp full session owner; blocks_path = blocks_path_for tmp in
     sm_bind (fs_query (\<lambda>fs. fs_try_exists fs tmp)) (\<lambda>exists.
     sm_bind
       (if exists then fs_query (\<lambda>fs. fs_open fs tmp)
        else case mode of
          WM_Resume _ \<Rightarrow> sm_err (Unsupported
            ''session upload does not support contiguous resume; use the block probe'')
        | _ \<Rightarrow>
            sm_bind (if mode = WM_Create then fs_query (\<lambda>fs. fs_try_exists fs full) else sm_ret False)
              (\<lambda>target_exists.
            if target_exists then sm_err (St_AlreadyExists p)
            else fs_step (\<lambda>fs. fs_create_new fs tmp)))
       (\<lambda>i.
     sm_bind (if \<not> exists then fs_attempt (\<lambda>fs. fs_remove_file fs blocks_path) else sm_ret ()) (\<lambda>_.
     sm_bind (if exists then read_ranges x blocks_path else sm_ret []) (\<lambda>ranges.
     sm_ret \<lparr> sk_ino = i, sk_append = False, sk_pos = 0, sk_tmp = Some tmp, sk_target = full,
              sk_rel = p, sk_mode = mode, sk_written = 0, sk_blocks = Some blocks_path,
              sk_ranges = ranges \<rparr>))))))"

subsection \<open>Sink operations\<close>

definition sink_write :: "fs_sink \<Rightarrow> bytes \<Rightarrow> fs_sink stm" where
  "sink_write sk buf = (\<lambda>w.
     let pos = (if sk_append sk then fs_len (w_fs w) (sk_ino sk) else sk_pos sk) in
     (Inr (sk\<lparr> sk_pos := pos + length buf, sk_written := u64_add (sk_written sk) (length buf) \<rparr>),
      w\<lparr> w_fs := fs_write (w_fs w) (sk_ino sk) pos buf \<rparr>))"

definition sink_write_at :: "externals \<Rightarrow> fs_sink \<Rightarrow> nat \<Rightarrow> bytes \<Rightarrow> fs_sink stm" where
  "sink_write_at x sk off buf =
     sm_bind (\<lambda>w.
       let pos = (if sk_append sk then fs_len (w_fs w) (sk_ino sk) else off) in
       (Inr (sk\<lparr> sk_pos := pos + length buf,
                sk_written := max (sk_written sk) (sat_add off (length buf)) \<rparr>),
        w\<lparr> w_fs := fs_write (w_fs w) (sk_ino sk) pos buf \<rparr>))
     (\<lambda>sk2.
       case sk_blocks sk2 of
         None \<Rightarrow> sm_ret sk2
       | Some blocks \<Rightarrow>
           sm_bind (read_ranges x blocks) (\<lambda>current0.
           let current = merge_range current0
                 \<lparr> c_start = off, c_end = sat_add off (length buf) \<rparr> in
           sm_bind (persist_ranges x blocks current) (\<lambda>_.
           sm_ret (sk2\<lparr> sk_ranges := current \<rparr>))))"

definition sink_received_ranges :: "fs_sink \<Rightarrow> chunk_range list stm" where
  "sink_received_ranges sk = sm_ret (sk_ranges sk)"

definition sink_len :: "fs_sink \<Rightarrow> nat stm" where
  "sink_len sk = (\<lambda>w. (Inr (fs_len (w_fs w) (sk_ino sk)), w))"

definition sink_commit :: "externals \<Rightarrow> fs_sink \<Rightarrow> file_meta stm" where
  "sink_commit x sk =
     sm_bind (remove_blocks_sidecar (sk_blocks sk)) (\<lambda>_.
     sm_bind
       (case sk_tmp sk of
          None \<Rightarrow> sm_ret ()
        | Some tmp \<Rightarrow>
            sm_bind
              (if sk_mode sk = WM_Create then fs_query (\<lambda>fs. fs_try_exists fs (sk_target sk))
               else sm_ret False)
              (\<lambda>exists.
            if exists
            then sm_bind (fs_attempt (\<lambda>fs. fs_remove_file fs tmp))
                   (\<lambda>_. sm_err (St_AlreadyExists (sk_rel sk)))
            else fs_step (\<lambda>fs. res_bind (fs_rename fs tmp (sk_target sk)) (\<lambda>fs2. Inr ((), fs2)))))
       (\<lambda>_.
     sm_bind (fs_query (\<lambda>fs. fs_stat fs True (sk_target sk))) (\<lambda>nd. \<lambda>w.
       (Inr (file_meta_at x (sk_rel sk) (w_fs w) nd), w))))"

definition sink_abort :: "fs_sink \<Rightarrow> unit stm" where
  "sink_abort sk =
     sm_bind (case sk_tmp sk of None \<Rightarrow> sm_ret ()
              | Some tmp \<Rightarrow> fs_attempt (\<lambda>fs. fs_remove_file fs tmp)) (\<lambda>_.
     remove_blocks_sidecar (sk_blocks sk))"

subsection \<open>Directories and removal\<close>

definition node_is_dir :: "node \<Rightarrow> bool" where
  "node_is_dir nd = (case nd of NDir _ \<Rightarrow> True | _ \<Rightarrow> False)"

definition dir_entry_of :: "fsys \<Rightarrow> string \<Rightarrow> string \<times> node \<Rightarrow> dir_entry" where
  "dir_entry_of fs p = (\<lambda>(name, nd).
     \<lparr> de_path = (if p = [] then name else p @ ''/'' @ name),
       de_is_dir = node_is_dir nd,
       de_size = (if node_is_dir nd then 0 else meta_len fs nd),
       de_mtime = meta_mtime fs nd div 10 ^ 9 \<rparr>)"

definition st_list_dir :: "fs_storage \<Rightarrow> string \<Rightarrow> dir_entry list stm" where
  "st_list_dir st p =
     sm_bind (if p = [] then sm_ret (st_root st) else sm_lift (resolve st p)) (\<lambda>full.
     sm_bind (check_symlinks st full) (\<lambda>_. \<lambda>w.
       (case fs_read_dir (w_fs w) full of
          Inl e \<Rightarrow> Inl (if io_kind e = Io_NotFound then St_NotFound p else St_Other e)
        | Inr es \<Rightarrow> Inr (sort_key de_path (map (dir_entry_of (w_fs w) p) es)), w)))"

definition st_mkdir_all :: "fs_storage \<Rightarrow> string \<Rightarrow> unit stm" where
  "st_mkdir_all st p =
     sm_bind (open_path st p) (\<lambda>full. fs_run (\<lambda>fs. fs_create_dir_all fs full))"

definition st_remove :: "fs_storage \<Rightarrow> string \<Rightarrow> unit stm" where
  "st_remove st p =
     sm_bind (open_path st p) (\<lambda>full.
     sm_bind (fs_query (\<lambda>fs. fs_stat fs False full)) (\<lambda>nd.
       case nd of
         NSymlink _ \<Rightarrow> sm_err (Unsupported ''refusing to remove through a symlink'')
       | NDir _ \<Rightarrow> fs_step (\<lambda>fs. res_bind (fs_remove_dir_all fs full) (\<lambda>fs2. Inr ((), fs2)))
       | NFile _ \<Rightarrow> fs_step (\<lambda>fs. res_bind (fs_remove_file fs full) (\<lambda>fs2. Inr ((), fs2)))))"

subsection \<open>The sweep of stale sessions\<close>

text \<open>
  The entries of one directory: subdirectories are pushed on the stack, stale session files and
  their sidecars are removed and counted.
\<close>

fun sweep_entries ::
  "nat \<Rightarrow> path \<Rightarrow> (string \<times> node) list \<Rightarrow> fsys \<Rightarrow> path list \<Rightarrow> nat \<Rightarrow> fsys \<times> path list \<times> nat" where
  "sweep_entries deadline dir [] fs stack removed = (fs, stack, removed)"
| "sweep_entries deadline dir ((name, nd) # es) fs stack removed =
     (case nd of
        NSymlink _ \<Rightarrow> sweep_entries deadline dir es fs stack removed
      | NDir _ \<Rightarrow> sweep_entries deadline dir es fs (stack @ [dir @ [name]]) removed
      | NFile _ \<Rightarrow>
          if \<not> starts_with name ''.libfw-sess-''
          then sweep_entries deadline dir es fs stack removed
          else let modified = (case fs_stat fs False (dir @ [name]) of
                                 Inl _ \<Rightarrow> 0 | Inr nd2 \<Rightarrow> meta_mtime fs nd2) in
            if modified < deadline
            then let is_sidecar = ends_with name ''.blocks'';
                     fs2 = (case fs_remove_file fs (dir @ [name @ ''.blocks'']) of
                              Inl _ \<Rightarrow> fs | Inr f \<Rightarrow> f) in
              (case fs_remove_file fs2 (dir @ [name]) of
                 Inl _ \<Rightarrow> sweep_entries deadline dir es fs2 stack removed
               | Inr fs3 \<Rightarrow> sweep_entries deadline dir es fs3 stack
                              (if is_sidecar then removed else removed + 1))
            else sweep_entries deadline dir es fs stack removed)"

text \<open>The walk, with a bound on the number of directories visited.\<close>

fun sweep_loop :: "nat \<Rightarrow> nat \<Rightarrow> fsys \<Rightarrow> path list \<Rightarrow> nat \<Rightarrow> (fsys \<times> nat) option" where
  "sweep_loop fuel deadline fs [] removed = Some (fs, removed)"
| "sweep_loop 0 deadline fs (d # ds) removed = None"
| "sweep_loop (Suc fuel) deadline fs (d # ds) removed =
     (let dir = last (d # ds); stack = butlast (d # ds) in
      case fs_read_dir fs dir of
        Inl _ \<Rightarrow> sweep_loop fuel deadline fs stack removed
      | Inr es \<Rightarrow>
          (case sweep_entries deadline dir es fs stack removed of
             (fs2, stack2, removed2) \<Rightarrow> sweep_loop fuel deadline fs2 stack2 removed2))"

definition cleanup_stale_sessions :: "nat \<Rightarrow> fs_storage \<Rightarrow> nat \<Rightarrow> world \<Rightarrow> (nat \<times> world) option" where
  "cleanup_stale_sessions fuel st max_age w =
     map_option (\<lambda>(fs, n). (n, w\<lparr> w_fs := fs \<rparr>))
       (sweep_loop fuel (fs_now (w_fs w) - max_age) (w_fs w) [st_root st] 0)"

end
