(* ===== verification/Server_State.thy ===== *)
theory Server_State
  imports Claims_Auth Path_Codec Capabilities Storage
begin

text \<open>
  The server's configuration and the parts of libfw-server's \<open>lib.rs\<close> every handler goes through:
  \<open>ServerState\<close> and its builder, the resolution of client paths, the capability advertisement and
  the protocol handshake.  The storage backend is \<open>FsStorage\<close>; the token verifier, the request
  validator and the path codec are the application's functions.  Time is an argument.
\<close>

subsection \<open>State and builder\<close>

datatype path_resolve_error =
    PR_Invalid string
  | PR_Codec path_codec_error
  | PR_Auth auth_error

record server_state =
  sv_storage :: fs_storage
  sv_verifier :: "string \<Rightarrow> auth_error + token_claims"
  sv_validator :: "int \<Rightarrow> validator"
  sv_path_codec :: codec
  sv_compression :: compression_format
  sv_max_upload_size :: nat
  sv_limits :: "limits option"
  sv_zrip_levels :: "zrip_levels option"
  sv_cleanup_interval :: nat
  sv_session_ttl :: nat

definition authorize ::
  "server_state \<Rightarrow> int \<Rightarrow> token_claims \<Rightarrow> string \<Rightarrow> action \<Rightarrow> auth_error + unit" where
  "authorize sv now claims path action = sv_validator sv now claims path action"

record server_state_builder =
  sb_storage :: "fs_storage option"
  sb_verifier :: "(string \<Rightarrow> auth_error + token_claims) option"
  sb_validator :: "(int \<Rightarrow> validator) option"
  sb_path_codec :: "codec option"
  sb_compression :: compression_format
  sb_max_upload_size :: nat
  sb_limits :: "limits option"
  sb_zrip_levels :: "zrip_levels option"
  sb_cleanup_interval :: nat
  sb_session_ttl :: nat

definition default_session_ttl :: nat where
  "default_session_ttl = 24 * 3600 * 10 ^ 9"

definition builder_default :: server_state_builder where
  "builder_default =
     \<lparr> sb_storage = None, sb_verifier = None, sb_validator = None, sb_path_codec = None,
       sb_compression = Fmt_Zrip, sb_max_upload_size = default_max_upload_size,
       sb_limits = None, sb_zrip_levels = None,
       sb_cleanup_interval = 3600 * 10 ^ 9, sb_session_ttl = default_session_ttl \<rparr>"

text \<open>One setter per field; durations are nanoseconds.\<close>

definition builder_storage :: "fs_storage \<Rightarrow> server_state_builder \<Rightarrow> server_state_builder" where
  "builder_storage st b = b\<lparr> sb_storage := Some st \<rparr>"

definition builder_verifier ::
  "(string \<Rightarrow> auth_error + token_claims) \<Rightarrow> server_state_builder \<Rightarrow> server_state_builder" where
  "builder_verifier v b = b\<lparr> sb_verifier := Some v \<rparr>"

definition builder_validator :: "(int \<Rightarrow> validator) \<Rightarrow> server_state_builder \<Rightarrow> server_state_builder" where
  "builder_validator v b = b\<lparr> sb_validator := Some v \<rparr>"

definition builder_path_codec :: "codec \<Rightarrow> server_state_builder \<Rightarrow> server_state_builder" where
  "builder_path_codec c b = b\<lparr> sb_path_codec := Some c \<rparr>"

definition builder_compression :: "compression_format \<Rightarrow> server_state_builder \<Rightarrow> server_state_builder" where
  "builder_compression fmt b = b\<lparr> sb_compression := fmt \<rparr>"

definition builder_max_upload_size :: "nat \<Rightarrow> server_state_builder \<Rightarrow> server_state_builder" where
  "builder_max_upload_size n b = b\<lparr> sb_max_upload_size := n \<rparr>"

definition builder_limits :: "limits \<Rightarrow> server_state_builder \<Rightarrow> server_state_builder" where
  "builder_limits l b = b\<lparr> sb_limits := Some l \<rparr>"

definition builder_zrip_levels :: "zrip_levels \<Rightarrow> server_state_builder \<Rightarrow> server_state_builder" where
  "builder_zrip_levels l b = b\<lparr> sb_zrip_levels := Some l \<rparr>"

definition builder_cleanup_interval :: "nat \<Rightarrow> server_state_builder \<Rightarrow> server_state_builder" where
  "builder_cleanup_interval n b = b\<lparr> sb_cleanup_interval := n \<rparr>"

definition builder_session_ttl :: "nat \<Rightarrow> server_state_builder \<Rightarrow> server_state_builder" where
  "builder_session_ttl n b = b\<lparr> sb_session_ttl := n \<rparr>"

text \<open>\<open>build\<close> panics when a required field is missing.\<close>

definition builder_build :: "server_state_builder \<Rightarrow> server_state outcome" where
  "builder_build b =
     (case (sb_storage b, sb_verifier b, sb_validator b) of
        (Some st, Some ve, Some va) \<Rightarrow> Returned
          \<lparr> sv_storage = st, sv_verifier = ve, sv_validator = va,
            sv_path_codec = (case sb_path_codec b of None \<Rightarrow> identity_codec | Some c \<Rightarrow> c),
            sv_compression = sb_compression b, sv_max_upload_size = sb_max_upload_size b,
            sv_limits = sb_limits b, sv_zrip_levels = sb_zrip_levels b,
            sv_cleanup_interval = sb_cleanup_interval b, sv_session_ttl = sb_session_ttl b \<rparr>
      | _ \<Rightarrow> Panicked)"

subsection \<open>Client paths\<close>

text \<open>\<open>str::rfind\<close> of a character.\<close>

definition rfind_char :: "char \<Rightarrow> string \<Rightarrow> nat option" where
  "rfind_char c s =
     (let k = length (takeWhile (\<lambda>x. x \<noteq> c) (rev s)) in
      if k < length s then Some (length s - Suc k) else None)"

lemma rfind_char_less: "rfind_char c s = Some k \<Longrightarrow> k < length s"
  by (auto simp: rfind_char_def Let_def split: if_splits)

lemma rfind_char_None: "rfind_char c s = None \<longleftrightarrow> c \<notin> set s"
proof -
  have "length (takeWhile (\<lambda>x. x \<noteq> c) (rev s)) < length s \<longleftrightarrow> c \<in> set s"
    using takeWhile_eq_all_conv [of "\<lambda>x. x \<noteq> c" "rev s"] length_takeWhile_le [of "\<lambda>x. x \<noteq> c" "rev s"]
    by (metis length_rev less_le nth_equalityI set_rev takeWhile_nth)
  then show ?thesis by (simp add: rfind_char_def Let_def)
qed

lemma rfind_char_Some:
  assumes "rfind_char c s = Some k"
  shows "k < length s" "s ! k = c" "k < j \<Longrightarrow> j < length s \<Longrightarrow> s ! j \<noteq> c"
proof -
  let ?t = "takeWhile (\<lambda>x. x \<noteq> c) (rev s)"
  have k: "k = length s - Suc (length ?t)" "length ?t < length s"
    using assms by (auto simp: rfind_char_def Let_def split: if_splits)
  then show "k < length s" by simp
  have "\<not> rev s ! length ?t \<noteq> c" using k(2) by (intro nth_length_takeWhile) simp
  with k show "s ! k = c" by (simp add: rev_nth)
  show "s ! j \<noteq> c" if "k < j" "j < length s"
  proof -
    have l: "length s - Suc j < length ?t" using that k by simp
    then have "?t ! (length s - Suc j) \<in> set ?t" by (rule nth_mem)
    then have "?t ! (length s - Suc j) \<noteq> c" by (blast dest: set_takeWhileD)
    moreover have "?t ! (length s - Suc j) = rev s ! (length s - Suc j)" using l by (rule takeWhile_nth)
    ultimately show ?thesis using that by (simp add: rev_nth)
  qed
qed

text \<open>The loop of \<open>decode_compound\<close>, from a given \<open>end\<close>.\<close>

function compound_loop :: "codec \<Rightarrow> string \<Rightarrow> nat \<Rightarrow> string option" where
  "compound_loop pc shadow end_pos =
     (case rfind_char CHR ''/'' (take end_pos shadow) of
        None \<Rightarrow> None
      | Some slash \<Rightarrow>
          (case pc_decode pc (take slash shadow) of
             Inr real \<Rightarrow>
               (let rest = drop (slash + 1) shadow in
                Some (if real = [] then rest else real @ ''/'' @ rest))
           | Inl _ \<Rightarrow> compound_loop pc shadow slash))"
  by pat_completeness auto
termination
  by (relation "measure (\<lambda>(pc, shadow, end_pos). end_pos)") (auto dest!: rfind_char_less)

declare compound_loop.simps [simp del]

definition decode_compound :: "codec \<Rightarrow> string \<Rightarrow> string option" where
  "decode_compound pc shadow = compound_loop pc shadow (length shadow)"

definition resolve_client_path ::
  "server_state \<Rightarrow> int \<Rightarrow> token_claims \<Rightarrow> string \<Rightarrow> action \<Rightarrow> path_resolve_error + string" where
  "resolve_client_path sv now claims shadow0 action =
     res_bind (map_err PR_Invalid (validate_rel_path shadow0)) (\<lambda>shadow.
     res_bind
       (if shadow = [] then Inr shadow
        else case pc_decode (sv_path_codec sv) shadow of
          Inr real \<Rightarrow> Inr real
        | Inl err \<Rightarrow>
            (case decode_compound (sv_path_codec sv) shadow of
               Some real \<Rightarrow> Inr real
             | None \<Rightarrow> Inl (PR_Codec err)))
       (\<lambda>real0.
     res_bind (map_err PR_Invalid (validate_rel_path real0)) (\<lambda>real.
     res_bind (map_err PR_Auth (authorize sv now claims real action)) (\<lambda>_. Inr real))))"

text \<open>\<open>rnd\<close> is what the codec draws from the random generator for this call.\<close>

definition expose_path :: "server_state \<Rightarrow> bytes \<Rightarrow> string \<Rightarrow> string" where
  "expose_path sv rnd real = pc_encode (sv_path_codec sv) rnd real"

subsection \<open>Capabilities and handshake\<close>

definition server_capabilities :: "server_state \<Rightarrow> capabilities" where
  "server_capabilities sv =
     (let caps = capabilities_default;
          caps = (case sv_limits sv of None \<Rightarrow> caps | Some l \<Rightarrow> caps\<lparr> cap_limits := l \<rparr>);
          caps = caps\<lparr> cap_limits := (cap_limits caps)
                   \<lparr> lm_max_upload_size :=
                       min (lm_max_upload_size (cap_limits caps)) (sv_max_upload_size sv) \<rparr> \<rparr>;
          caps = (case sv_zrip_levels sv of None \<Rightarrow> caps
                  | Some ls \<Rightarrow> caps\<lparr> cap_compression := (cap_compression caps)
                                              \<lparr> cc_zrip_levels := ls \<rparr> \<rparr>)
      in caps\<lparr> cap_compression := (cap_compression caps)
           \<lparr> cc_formats := (case sv_compression sv of
                              Fmt_Zrip \<Rightarrow> [Fmt_None, Fmt_Zrip] | Fmt_None \<Rightarrow> [Fmt_None]) \<rparr> \<rparr>)"

definition upgrade_required :: "string \<Rightarrow> response" where
  "upgrade_required value =
     \<lparr> rs_status = 426, rs_headers = [],
       rs_body = Text_body (''unsupported protocol `'' @ value @ ''`; expected `'' @
                            protocol_header_value @ ''`'') \<rparr>"

text \<open>The middleware: \<open>next\<close> is the rest of the stack.\<close>

definition validate_protocol ::
  "headers \<Rightarrow> (world \<Rightarrow> response outcome \<times> world) \<Rightarrow> world \<Rightarrow> response outcome \<times> world" where
  "validate_protocol hs next_handler w =
     (case header_get hs ''x-libfw-protocol'' of
        Some value \<Rightarrow> if \<not> protocol_compatible value then (Returned (upgrade_required value), w)
                      else next_handler w
      | None \<Rightarrow> next_handler w)"

text \<open>
  The stale-session cleaner: one sweep per tick of the interval, at the times the clock then shows;
  a zero interval disables it.
\<close>

fun cleanup_ticks :: "nat \<Rightarrow> server_state \<Rightarrow> nat list \<Rightarrow> world \<Rightarrow> world option" where
  "cleanup_ticks fuel sv [] w = Some w"
| "cleanup_ticks fuel sv (t # ts) w =
     Option.bind
       (cleanup_stale_sessions fuel (sv_storage sv) (sv_session_ttl sv)
          (w\<lparr> w_fs := (w_fs w)\<lparr> fs_now := t \<rparr> \<rparr>))
       (\<lambda>(n, w2). cleanup_ticks fuel sv ts w2)"

definition spawn_stale_session_cleanup ::
  "nat \<Rightarrow> server_state \<Rightarrow> nat list \<Rightarrow> world \<Rightarrow> world option" where
  "spawn_stale_session_cleanup fuel sv ts w =
     (if sv_cleanup_interval sv = 0 then Some w else cleanup_ticks fuel sv ts w)"

subsection \<open>Compound shadows\<close>

text \<open>Position \<open>k\<close> of a shadow splits it into a decodable prefix and the rest.\<close>

definition splits_at :: "codec \<Rightarrow> string \<Rightarrow> nat \<Rightarrow> string \<Rightarrow> bool" where
  "splits_at pc s k r \<longleftrightarrow> s ! k = CHR ''/'' \<and>
     (\<exists>real. pc_decode pc (take k s) = Inr real \<and>
        r = (if real = [] then drop (Suc k) s else real @ ''/'' @ drop (Suc k) s))"

definition no_split :: "codec \<Rightarrow> string \<Rightarrow> nat \<Rightarrow> bool" where
  "no_split pc s k \<longleftrightarrow> s ! k = CHR ''/'' \<longrightarrow> isl (pc_decode pc (take k s))"

lemma splits_at_not: "splits_at pc s k r \<Longrightarrow> \<not> no_split pc s k"
  by (auto simp: splits_at_def no_split_def)

lemma compound_loop_Some:
  "n \<le> length s \<Longrightarrow> compound_loop pc s n = Some r \<longleftrightarrow>
    (\<exists>k<n. splits_at pc s k r \<and> (\<forall>j<n. k < j \<longrightarrow> no_split pc s j))"
proof (induction pc s n rule: compound_loop.induct)
  case (1 pc s n)
  show ?case
  proof (cases "rfind_char CHR ''/'' (take n s)")
    case None
    then have "\<forall>k<n. s ! k \<noteq> CHR ''/''"
      using "1.prems" by (fastforce simp: rfind_char_None in_set_conv_nth)
    with None show ?thesis by (subst compound_loop.simps) (auto simp: splits_at_def)
  next
    case (Some l)
    note r = rfind_char_Some [OF Some]
    then have l: "l < n" "s ! l = CHR ''/''" "\<And>j. l < j \<Longrightarrow> j < n \<Longrightarrow> s ! j \<noteq> CHR ''/''"
      using "1.prems" by auto
    then have above: "no_split pc s j" if "l < j" "j < n" for j using that by (simp add: no_split_def)
    show ?thesis
    proof (cases "pc_decode pc (take l s)")
      case (Inl e)
      then have nl: "no_split pc s l" by (simp add: no_split_def)
      have "compound_loop pc s n = compound_loop pc s l"
        using Some Inl by (subst compound_loop.simps) simp
      moreover have "compound_loop pc s l = Some r \<longleftrightarrow>
          (\<exists>k<l. splits_at pc s k r \<and> (\<forall>j<l. k < j \<longrightarrow> no_split pc s j))"
        using "1.IH" [OF Some Inl] "1.prems" l(1) by simp
      moreover have "(\<exists>k<n. splits_at pc s k r \<and> (\<forall>j<n. k < j \<longrightarrow> no_split pc s j)) \<longleftrightarrow>
          (\<exists>k<l. splits_at pc s k r \<and> (\<forall>j<l. k < j \<longrightarrow> no_split pc s j))"
        using nl above l(1) splits_at_not
        by (metis (no_types, lifting) less_trans linorder_neqE_nat)
      ultimately show ?thesis by simp
    next
      case (Inr real)
      then have nl: "\<not> no_split pc s l" using l by (simp add: no_split_def)
      have "compound_loop pc s n = Some r \<longleftrightarrow> splits_at pc s l r"
        using Some Inr l by (subst compound_loop.simps) (auto simp: splits_at_def)
      also have "\<dots> \<longleftrightarrow> (\<exists>k<n. splits_at pc s k r \<and> (\<forall>j<n. k < j \<longrightarrow> no_split pc s j))"
        using nl above l(1) splits_at_not
        by (metis (no_types, lifting) linorder_neqE_nat)
      finally show ?thesis .
    qed
  qed
qed

lemma split_position:
  "k < length s \<Longrightarrow> s ! k = CHR ''/'' \<Longrightarrow> s = take k s @ ''/'' @ drop (Suc k) s"
  by (metis append_Cons append_Nil id_take_nth_drop)

subsection \<open>Properties\<close>

lemma resolve_client_path_canonical:
  "resolve_client_path sv now c shadow act = Inr p \<Longrightarrow> canonical p"
  unfolding resolve_client_path_def res_bind_Inr map_err_Inr
  by (auto dest: validate_rel_path_canonical)

lemma resolve_client_path_authorized:
  "resolve_client_path sv now c shadow act = Inr p \<Longrightarrow> sv_validator sv now c p act = Inr ()"
  unfolding resolve_client_path_def res_bind_Inr map_err_Inr by (auto simp: authorize_def)

lemma decode_compound_iff:
  "(decode_compound pc s = Some r \<longleftrightarrow>
     (\<exists>pre real rest. s = pre @ ''/'' @ rest \<and> pc_decode pc pre = Inr real \<and>
        r = (if real = [] then rest else real @ ''/'' @ rest) \<and>
        (\<forall>pre2 rest2. s = pre2 @ ''/'' @ rest2 \<and> length pre < length pre2 \<longrightarrow>
           isl (pc_decode pc pre2))))"
proof -
  have c: "decode_compound pc s = Some r \<longleftrightarrow>
      (\<exists>k<length s. splits_at pc s k r \<and> (\<forall>j<length s. k < j \<longrightarrow> no_split pc s j))"
    unfolding decode_compound_def by (rule compound_loop_Some) simp
  show ?thesis unfolding c
  proof (intro iffI; elim exE conjE)
    fix k
    assume k: "k < length s" "splits_at pc s k r" and n: "\<forall>j<length s. k < j \<longrightarrow> no_split pc s j"
    then obtain real where real: "s ! k = CHR ''/''" "pc_decode pc (take k s) = Inr real"
      "r = (if real = [] then drop (Suc k) s else real @ ''/'' @ drop (Suc k) s)"
      by (auto simp: splits_at_def)
    have "isl (pc_decode pc pre2)" if "s = pre2 @ ''/'' @ rest2" "length (take k s) < length pre2" for pre2 rest2
      using spec [OF n, of "length pre2"] that k(1) by (simp add: no_split_def)
    with real split_position [OF k(1) real(1)]
    show "\<exists>pre real rest. s = pre @ ''/'' @ rest \<and> pc_decode pc pre = Inr real \<and>
        r = (if real = [] then rest else real @ ''/'' @ rest) \<and>
        (\<forall>pre2 rest2. s = pre2 @ ''/'' @ rest2 \<and> length pre < length pre2 \<longrightarrow> isl (pc_decode pc pre2))"
      by blast
  next
    fix pre real rest
    assume s: "s = pre @ ''/'' @ rest" "pc_decode pc pre = Inr real"
      "r = (if real = [] then rest else real @ ''/'' @ rest)"
      and n: "\<forall>pre2 rest2. s = pre2 @ ''/'' @ rest2 \<and> length pre < length pre2 \<longrightarrow> isl (pc_decode pc pre2)"
    have "splits_at pc s (length pre) r" using s by (simp add: splits_at_def)
    moreover have "no_split pc s j" if j: "j < length s" "length pre < j" for j
    proof (cases "s ! j = CHR ''/''")
      case True
      have "length pre < length (take j s)" using j by simp
      with split_position [OF j(1) True] n have "isl (pc_decode pc (take j s))" by blast
      then show ?thesis by (simp add: no_split_def)
    qed (simp add: no_split_def)
    moreover have "length pre < length s" using s(1) by simp
    ultimately show "\<exists>k<length s. splits_at pc s k r \<and> (\<forall>j<length s. k < j \<longrightarrow> no_split pc s j)" by blast
  qed
qed

text \<open>
  \<open>decode_compound\<close> decodes the longest proper segment prefix the codec accepts and appends the
  remaining segments literally; it answers nothing exactly when no proper segment prefix decodes.
\<close>

theorem decode_compound_longest:
  "(decode_compound pc s = Some r \<longleftrightarrow>
     (\<exists>pre real rest. s = pre @ ''/'' @ rest \<and> pc_decode pc pre = Inr real \<and>
        r = (if real = [] then rest else real @ ''/'' @ rest) \<and>
        (\<forall>pre2 rest2. s = pre2 @ ''/'' @ rest2 \<and> length pre < length pre2 \<longrightarrow>
           isl (pc_decode pc pre2))))"
  by (rule decode_compound_iff)

definition one_shadow_codec :: codec where
  "one_shadow_codec =
     identity_codec\<lparr> pc_decode := \<lambda>s. if s = ''v'' then Inr ''a'' else Inl (Unmapped s) \<rparr>"

theorem decode_compound_longest_witness:
  "decode_compound one_shadow_codec ''v/b/c'' = Some ''a/b/c''"
  unfolding decode_compound_longest
  by (rule exI [of _ "''v''"], rule exI [of _ "''a''"], rule exI [of _ "''b/c''"])
    (auto simp: one_shadow_codec_def)

text \<open>
  C11: a client path that is resolved was authorized: the real path handed to the storage is
  canonical, the validator accepted exactly that path for the action at this time, and it comes
  from the shape-checked shadow by the codec (the whole string, or its longest decodable prefix when
  the whole does not decode); only the root maps to itself.  Every other request is refused.
\<close>

theorem resolve_client_path_sound:
  "resolve_client_path sv now c shadow0 act = Inr p \<longleftrightarrow>
    (\<exists>shadow real. validate_rel_path shadow0 = Inr shadow \<and>
       (if shadow = [] then real = []
        else pc_decode (sv_path_codec sv) shadow = Inr real \<or>
             isl (pc_decode (sv_path_codec sv) shadow) \<and>
             decode_compound (sv_path_codec sv) shadow = Some real) \<and>
       validate_rel_path real = Inr p \<and> sv_validator sv now c p act = Inr ()) \<and> canonical p"
proof -
  have "canonical p" if "validate_rel_path real = Inr p" for real
    using that by (rule validate_rel_path_canonical)
  moreover have "(if shadow = [] then Inr shadow
        else case pc_decode pc shadow of Inr real \<Rightarrow> Inr real
        | Inl err \<Rightarrow> (case decode_compound pc shadow of
               Some real \<Rightarrow> Inr real | None \<Rightarrow> Inl (PR_Codec err))) = Inr real \<longleftrightarrow>
      (if shadow = [] then real = []
        else pc_decode pc shadow = Inr real \<or>
             isl (pc_decode pc shadow) \<and> decode_compound pc shadow = Some real)" for pc shadow real
    by (auto split: sum.split option.split)
  ultimately show ?thesis
    unfolding resolve_client_path_def res_bind_Inr map_err_Inr authorize_def by auto
qed

context path_codec
begin

lemma resolve_shadow:
  assumes "pc_decode (sv_path_codec sv) = dec" and "rnd_ok n" and "dom p"
    and "sv_validator sv now c p act = Inr ()"
  shows "resolve_client_path sv now c (enc n p) act = Inr p"
  using assms round_trip [OF assms(2,3)] dom_canonical [OF assms(3)]
  by (simp add: resolve_client_path_def shadow_valid shadow_nonempty validate_rel_path_id authorize_def)

end

text \<open>
  C20: what the server exposes it accepts: for each of the three codecs, the shadow sent to a client
  for a real path in the codec's domain resolves to that real path, provided the validator lets
  the token at it.
\<close>

theorem exposed_path_resolves:
  assumes "sv_path_codec sv = identity_codec \<and> canonical p \<and> p \<noteq> [] \<or>
     sv_path_codec sv = mount_codec es \<and> mount_dom es p \<or>
     sv_path_codec sv = encrypted_codec cr key \<and> encrypted_dom cr key p \<and> length rnd = nonce_len"
    and "sv_validator sv now c p act = Inr ()"
  shows "resolve_client_path sv now c (expose_path sv rnd p) act = Inr p"
  using assms(1)
proof (elim disjE conjE)
  assume "sv_path_codec sv = identity_codec" "canonical p" "p \<noteq> []"
  then show ?thesis
    using identity_pc.resolve_shadow [where sv = sv, OF _ _ _ assms(2)]
    by (simp add: expose_path_def identity_codec_def identity_dom_def)
next
  assume "sv_path_codec sv = mount_codec es" "mount_dom es p"
  then show ?thesis
    using mount_pc.resolve_shadow [where sv = sv and es = es, OF _ _ _ assms(2)]
    by (simp add: expose_path_def mount_codec_def)
next
  assume "sv_path_codec sv = encrypted_codec cr key" "encrypted_dom cr key p" "length rnd = nonce_len"
  then show ?thesis
    using encrypted_pc.resolve_shadow [where sv = sv and cr = cr and key = key and n = rnd, OF _ _ _ assms(2)]
    by (simp add: expose_path_def encrypted_codec_def)
qed

text \<open>A configuration for the witnesses.\<close>

definition demo_state :: "codec \<Rightarrow> server_state" where
  "demo_state pc =
     \<lparr> sv_storage = \<lparr> st_root = [''srv''] \<rparr>,
       sv_verifier = (\<lambda>token. Inr \<lparr> tc_sub = token, tc_exp = None,
                        tc_permissions = [Perm_Read, Perm_Write], tc_allowed_paths = [''/''] \<rparr>),
       sv_validator = path_validate False, sv_path_codec = pc, sv_compression = Fmt_Zrip,
       sv_max_upload_size = 1000, sv_limits = None, sv_zrip_levels = None,
       sv_cleanup_interval = 0, sv_session_ttl = 100 \<rparr>"

definition demo_claims :: token_claims where
  "demo_claims = \<lparr> tc_sub = ''u'', tc_exp = None, tc_permissions = [Perm_Read, Perm_Write],
     tc_allowed_paths = [''/''] \<rparr>"

lemma demo_accepts: "sv_validator (demo_state pc) now demo_claims p act = Inr ()"
  by (cases act) (simp_all add: demo_state_def demo_claims_def path_validate_def is_expired_def
      has_permission_def path_matches_any_def trim_char_def trim_start_char_def trim_end_char_def)

theorem exposed_path_resolves_witness:
  "resolve_client_path (demo_state (encrypted_codec demo_crypto [1])) 5 demo_claims
     (expose_path (demo_state (encrypted_codec demo_crypto [1])) (replicate 12 7) ''a/b'') Act_Read =
   Inr ''a/b''"
proof (rule exposed_path_resolves [OF _ demo_accepts])
  have "canonical ''a/b''" by (simp add: canonical_def segments_def plain_seg_def)
  moreover have "utf8_valid (as_bytes ''a/b'')" by (auto simp: as_bytes_def intro!: utf8_valid_ascii)
  ultimately show "sv_path_codec (demo_state (encrypted_codec demo_crypto [1])) = identity_codec \<and>
      canonical ''a/b'' \<and> ''a/b'' \<noteq> [] \<or>
     sv_path_codec (demo_state (encrypted_codec demo_crypto [1])) = mount_codec [] \<and> mount_dom [] ''a/b'' \<or>
     sv_path_codec (demo_state (encrypted_codec demo_crypto [1])) = encrypted_codec demo_crypto [1] \<and>
     encrypted_dom demo_crypto [1] ''a/b'' \<and> length (replicate 12 (7 :: byte)) = nonce_len"
    by (simp add: demo_state_def encrypted_dom_def demo_crypto_ok nonce_len_def)
qed

lemma encrypted_slash_rejected:
  assumes "\<forall>t. CHR ''/'' \<in> set t \<longrightarrow> cr_b64_decode cr t = None"
  shows "isl (encrypted_decode cr key (encrypted_encode cr key n p @ ''/'' @ t))"
proof -
  let ?b = "cr_b64_encode cr (n @ cr_encrypt cr key n path_aad (as_bytes p))"
  have "encrypted_encode cr key n p @ ''/'' @ t = ''v1'' @ CHR ''.'' # (?b @ ''/'' @ t)"
    by (simp add: encrypted_encode_def shadow_version_def Let_def)
  then have "split_once CHR ''.'' (encrypted_encode cr key n p @ ''/'' @ t) =
      Some (''v1'', ?b @ ''/'' @ t)" by (simp only:) (rule split_once_append, simp)
  moreover have "cr_b64_decode cr (?b @ ''/'' @ t) = None" using assms by auto
  ultimately show ?thesis by (simp add: encrypted_decode_def shadow_version_def)
qed

lemma canonical_join_prefix:
  "canonical p \<Longrightarrow> canonical q \<Longrightarrow> canonical (join_prefix p q)"
  by (metis canonical_def canonical_join join_prefix_segments list_all_append)

lemma canonical_slash:
  assumes "canonical p" and "canonical q" and "q \<noteq> []" and "p \<noteq> []"
  shows "canonical (p @ ''/'' @ q)"
  using canonical_join_prefix [OF assms(1,2)] assms(3,4) by (simp add: join_prefix_def)

text \<open>
  The shadow of a directory covers its subtree: with the encrypted codec, a canonical path of
  literal segments appended to the shadow of a directory resolves to that path below the directory,
  so no shadow has to be made for it; the validator decides on the combined real path.
\<close>

theorem directory_shadow_covers_subtree:
  assumes "sv_path_codec sv = encrypted_codec cr key" and "encrypted_dom cr key p"
    and "length rnd = nonce_len" and "\<forall>t. CHR ''/'' \<in> set t \<longrightarrow> cr_b64_decode cr t = None"
    and "canonical child" and "child \<noteq> []"
    and "sv_validator sv now c (join_prefix p child) act = Inr ()"
  shows "resolve_client_path sv now c (expose_path sv rnd p @ ''/'' @ child) act =
    Inr (join_prefix p child)"
proof -
  let ?e = "encrypted_encode cr key rnd p" and ?pc = "encrypted_codec cr key"
  have e: "canonical ?e" "?e \<noteq> []" "encrypted_decode cr key ?e = Inr p" "canonical p"
    using encrypted_pc.shadow_canonical encrypted_pc.shadow_nonempty encrypted_pc.round_trip
      encrypted_pc.dom_canonical assms(2,3) by blast+
  have noslash: "CHR ''/'' \<notin> set ?e"
    using assms(2) by (auto simp: encrypted_dom_def crypto_ok_def encrypted_encode_def shadow_version_def
        Let_def list_all_iff url_char_def)
  have "decode_compound ?pc (?e @ ''/'' @ child) = Some (join_prefix p child)"
    unfolding decode_compound_iff
  proof (intro exI conjI allI impI; (elim conjE)?)
    show "?e @ ''/'' @ child = ?e @ ''/'' @ child" by (rule refl)
    show "pc_decode ?pc ?e = Inr p" using e(3) by (simp add: encrypted_codec_def)
    show "join_prefix p child = (if p = [] then child else p @ ''/'' @ child)"
      using assms(6) by (simp add: join_prefix_def)
    fix pre2 rest2
    assume s: "?e @ ''/'' @ child = pre2 @ ''/'' @ rest2" and l: "length ?e < length pre2"
    from s l have "prefix ?e pre2" by (metis less_imp_le_nat prefixI prefix_length_prefix)
    then obtain u where u: "pre2 = ?e @ u" by (auto simp: prefix_def)
    with s have "''/'' @ child = u @ ''/'' @ rest2" by simp
    with l u have "\<exists>v. u = ''/'' @ v" by (cases u) auto
    with u encrypted_slash_rejected [OF assms(4)] show "isl (pc_decode ?pc pre2)"
      by (auto simp: encrypted_codec_def)
  qed
  moreover have "isl (pc_decode ?pc (?e @ ''/'' @ child))"
    using encrypted_slash_rejected [OF assms(4)] by (simp add: encrypted_codec_def)
  moreover have "validate_rel_path (?e @ ''/'' @ child) = Inr (?e @ ''/'' @ child)"
    using canonical_slash [OF e(1) assms(5,6) e(2)] by (rule validate_rel_path_id)
  moreover have "validate_rel_path (join_prefix p child) = Inr (join_prefix p child)"
    using canonical_join_prefix [OF e(4) assms(5)] by (rule validate_rel_path_id)
  ultimately show ?thesis
    using assms(1,7)
    by (cases "pc_decode ?pc (?e @ ''/'' @ child)")
      (auto simp: resolve_client_path_def expose_path_def encrypted_codec_def authorize_def)
qed

lemma unhex_slash: "CHR ''/'' \<in> set t \<Longrightarrow> unhex t = None"
proof (induction t rule: unhex.induct)
  case (3 a b r)
  have "hex_value CHR ''/'' = None" by (simp add: hex_value_def)
  with 3 show ?case by (cases "hex_value a"; cases "hex_value b") auto
qed simp_all

lemma demo_b64 [simp]: "cr_b64_decode demo_crypto = unhex"
  by (simp add: demo_crypto_def)

theorem directory_shadow_covers_subtree_witness:
  "resolve_client_path (demo_state (encrypted_codec demo_crypto [1])) 5 demo_claims
     (expose_path (demo_state (encrypted_codec demo_crypto [1])) (replicate 12 7) ''a'' @ ''/'' @ ''b/c'')
     Act_Write = Inr (join_prefix ''a'' ''b/c'')"
  by (rule directory_shadow_covers_subtree [OF _ _ _ _ _ _ demo_accepts, where cr = demo_crypto and key = "[1]"])
    (auto simp: demo_state_def encrypted_dom_def demo_crypto_ok nonce_len_def canonical_def segments_def
      plain_seg_def as_bytes_def unhex_slash intro!: utf8_valid_ascii)

end
