(* ===== verification/Session_Store.thy ===== *)
theory Session_Store
  imports Storage
begin

text \<open>
  The bookkeeping of a session upload (\<open>merge_range\<close> of libfw-server's \<open>storage.rs\<close> and positional
  writes), and the contract it gives: a session is a partial map from offsets to received bytes.
  The contract is the locale \<open>session_store\<close>; the pair of temp-file content and range list, with the
  code's operations, is its interpretation.
\<close>

subsection \<open>Range lists\<close>

definition ranges_set :: "chunk_range list \<Rightarrow> nat set" where
  "ranges_set rs = (\<Union>r\<in>set rs. {c_start r..<c_end r})"

fun ranges_wf :: "chunk_range list \<Rightarrow> bool" where
  "ranges_wf [] = True"
| "ranges_wf [r] = (c_start r < c_end r)"
| "ranges_wf (r # s # rs) = (c_start r < c_end r \<and> c_end r < c_start s \<and> ranges_wf (s # rs))"

definition covered_bytes :: "chunk_range list \<Rightarrow> nat" where
  "covered_bytes rs = sum_list (map chunk_range_len rs)"

lemma ranges_set_simps [simp]:
  "ranges_set [] = {}" "ranges_set (r # rs) = {c_start r..<c_end r} \<union> ranges_set rs"
  "ranges_set (xs @ ys) = ranges_set xs \<union> ranges_set ys"
  by (auto simp: ranges_set_def)

lemma ranges_wf_append:
  "ranges_wf (xs @ [r]) \<longleftrightarrow> ranges_wf xs \<and> c_start r < c_end r \<and>
     (xs \<noteq> [] \<longrightarrow> c_end (last xs) < c_start r)"
  by (induction xs rule: ranges_wf.induct) auto

lemma ranges_wf_Cons:
  "ranges_wf (r # rs) \<longleftrightarrow> c_start r < c_end r \<and> ranges_wf rs \<and> (\<forall>i\<in>ranges_set rs. c_end r < i)"
proof (induction rs arbitrary: r)
  case (Cons s rs)
  show ?case
  proof
    assume w: "ranges_wf (r # s # rs)"
    then have "\<forall>i\<in>ranges_set rs. c_end s < i" using Cons.IH [of s] by simp
    with w show "c_start r < c_end r \<and> ranges_wf (s # rs) \<and> (\<forall>i\<in>ranges_set (s # rs). c_end r < i)"
      using Cons.IH [of s] by force
  next
    assume w: "c_start r < c_end r \<and> ranges_wf (s # rs) \<and> (\<forall>i\<in>ranges_set (s # rs). c_end r < i)"
    then have "c_start s < c_end s" using Cons.IH [of s] by simp
    with w show "ranges_wf (r # s # rs)" by auto
  qed
qed simp

lemma finite_ranges_set [simp]: "finite (ranges_set rs)"
  by (simp add: ranges_set_def)

lemma covered_bytes_card: "ranges_wf rs \<Longrightarrow> covered_bytes rs = card (ranges_set rs)"
proof (induction rs)
  case (Cons r rs)
  then have "ranges_wf rs" "\<forall>i\<in>ranges_set rs. c_end r < i" by (auto simp: ranges_wf_Cons)
  then have "card ({c_start r..<c_end r} \<union> ranges_set rs) = (c_end r - c_start r) + card (ranges_set rs)"
    by (subst card_Un_disjoint) auto
  with Cons \<open>ranges_wf rs\<close> show ?case by (simp add: covered_bytes_def chunk_range_len_def)
qed (simp add: covered_bytes_def)

lemma merge_sorted_spec:
  assumes "ranges_wf m" and "sorted (map c_start rs)" and "\<forall>r\<in>set rs. c_start r < c_end r"
    and "m \<noteq> [] \<Longrightarrow> \<forall>r\<in>set rs. c_start (last m) \<le> c_start r"
  shows "ranges_wf (merge_sorted m rs) \<and> ranges_set (merge_sorted m rs) = ranges_set m \<union> ranges_set rs"
  using assms
proof (induction m rs rule: merge_sorted.induct)
  case (2 m r rs)
  show ?case
  proof (cases "m \<noteq> [] \<and> c_start r \<le> c_end (last m)")
    case True
    obtain k l where m: "m = k @ [l]" using True by (metis rev_exhaust)
    let ?m2 = "if c_end (last m) < c_end r then butlast m @ [(last m)\<lparr> c_end := c_end r \<rparr>] else m"
    have l: "c_start l \<le> c_start r" "c_start l < c_end l" "c_start r < c_end r"
      using "2.prems" m by (auto simp: ranges_wf_append)
    have w: "ranges_wf ?m2" using "2.prems"(1) m l by (auto simp: ranges_wf_append)
    have s: "ranges_set ?m2 = ranges_set m \<union> {c_start r..<c_end r}"
      using m l True by auto
    have "ranges_wf (merge_sorted ?m2 rs) \<and> ranges_set (merge_sorted ?m2 rs) = ranges_set ?m2 \<union> ranges_set rs"
      using "2.prems" l m by (intro "2.IH"(1) [OF True w]) auto
    with True s show ?thesis by (auto simp del: merge_sorted.simps simp: merge_sorted.simps(2))
  next
    case False
    have w: "ranges_wf (m @ [r])" using "2.prems" False by (auto simp: ranges_wf_append)
    have "ranges_wf (merge_sorted (m @ [r]) rs) \<and>
        ranges_set (merge_sorted (m @ [r]) rs) = ranges_set (m @ [r]) \<union> ranges_set rs"
      using "2.prems" by (intro "2.IH"(2) [OF False w]) auto
    with False show ?thesis by (auto simp del: merge_sorted.simps simp: merge_sorted.simps(2))
  qed
qed simp

lemma ranges_wf_nonempty: "ranges_wf rs \<Longrightarrow> r \<in> set rs \<Longrightarrow> c_start r < c_end r"
  by (induction rs) (auto simp: ranges_wf_Cons)

lemma merge_range_set:
  assumes "ranges_wf rs"
  shows "ranges_wf (merge_range rs new) \<and>
    ranges_set (merge_range rs new) = ranges_set rs \<union> {c_start new..<c_end new}"
proof (cases "chunk_range_is_empty new")
  case True
  with assms show ?thesis by (auto simp: merge_range_def chunk_range_is_empty_def chunk_range_len_def)
next
  case False
  let ?s = "sort_ranges (rs @ [new])"
  have "set ?s = set (rs @ [new])" "sorted (map c_start ?s)" by (simp_all add: sort_ranges_def)
  moreover from this have "\<forall>r\<in>set ?s. c_start r < c_end r"
    using False ranges_wf_nonempty [OF assms]
    by (auto simp: chunk_range_is_empty_def chunk_range_len_def)
  moreover from calculation have "ranges_set ?s = ranges_set rs \<union> {c_start new..<c_end new}"
    by (auto simp: ranges_set_def)
  ultimately show ?thesis
    using False merge_sorted_spec [of "[]" ?s] by (simp add: merge_range_def)
qed

text \<open>
  C24: merging a range into the list of received ranges keeps the list sorted, disjoint and
  coalesced (no empty and no adjacent ranges), adds exactly the offsets of the new range, and the
  number of covered bytes is the number of distinct offsets received.
\<close>

theorem merge_range_correct:
  assumes "ranges_wf rs"
  shows "ranges_wf (merge_range rs new) \<and>
    ranges_set (merge_range rs new) = ranges_set rs \<union> {c_start new..<c_end new} \<and>
    covered_bytes (merge_range rs new) = card (ranges_set rs \<union> {c_start new..<c_end new})"
  using merge_range_set [OF assms, of new] covered_bytes_card [of "merge_range rs new"] by simp

theorem merge_range_correct_witness:
  "ranges_set (merge_range [\<lparr> c_start = 0, c_end = 3 \<rparr>, \<lparr> c_start = 6, c_end = 9 \<rparr>] \<lparr> c_start = 2, c_end = 6 \<rparr>) = {0..<9}"
proof -
  have "ranges_wf [\<lparr> c_start = 0, c_end = 3 \<rparr>, \<lparr> c_start = 6, c_end = 9 \<rparr>]" by simp
  from merge_range_correct [OF this, of "\<lparr> c_start = 2, c_end = 6 \<rparr>"]
  have "ranges_set (merge_range [\<lparr> c_start = 0, c_end = 3 \<rparr>, \<lparr> c_start = 6, c_end = 9 \<rparr>]
      \<lparr> c_start = 2, c_end = 6 \<rparr>) = {0..<3} \<union> {6..<9} \<union> {2..<6}" by simp
  also have "\<dots> = {0..<9}"
    by (simp only: set_eq_iff Un_iff atLeastLessThan_iff empty_iff) presburger
  finally show ?thesis .
qed

subsection \<open>The contract of a session\<close>

locale session_store =
  fixes abs :: "'s \<Rightarrow> nat \<Rightarrow> byte option"
    and put :: "'s \<Rightarrow> nat \<Rightarrow> bytes \<Rightarrow> 's"
    and ranges :: "'s \<Rightarrow> chunk_range list"
    and len :: "'s \<Rightarrow> nat"
    and inv :: "'s \<Rightarrow> bool"
    and start :: 's
  assumes inv_start: "inv start"
    and abs_start: "abs start = (\<lambda>_. None)"
    and inv_put: "inv s \<Longrightarrow> off + length b \<le> u64_max \<Longrightarrow> inv (put s off b)"
    and abs_put: "inv s \<Longrightarrow> off + length b \<le> u64_max \<Longrightarrow>
      abs (put s off b) = (\<lambda>i. if off \<le> i \<and> i < off + length b then Some (b ! (i - off)) else abs s i)"
    and ranges_ok: "inv s \<Longrightarrow> ranges_wf (ranges s) \<and> ranges_set (ranges s) = dom (abs s)"
    and len_ok: "inv s \<Longrightarrow> dom (abs s) \<subseteq> {..<len s} \<and> (0 < len s \<longrightarrow> len s - 1 \<in> dom (abs s))"
begin

text \<open>The two checks of a commit are enough: every byte has been received.\<close>

lemma commit_complete:
  assumes "inv s" and "len s = n" and "ranges s \<noteq> [] \<Longrightarrow> covered_bytes (ranges s) = n"
  shows "dom (abs s) = {..<n}"
proof (cases "ranges s = []")
  case True
  with ranges_ok [OF assms(1)] len_ok [OF assms(1)] assms(2) show ?thesis by auto
next
  case False
  have "card (dom (abs s)) = n"
    using assms(3) [OF False] ranges_ok [OF assms(1)] covered_bytes_card by metis
  with len_ok [OF assms(1)] assms(2) show ?thesis
    by (intro card_subset_eq) auto
qed

lemma two_puts:
  assumes "inv s" and "off + length (a @ b) \<le> u64_max"
  shows "abs (put (put s off a) (off + length a) b) = abs (put s off (a @ b))"
  using assms inv_put [of s off a] abs_put [of s off a] abs_put [of s off "a @ b"]
    abs_put [of "put s off a" "off + length a" b]
  by (auto simp: fun_eq_iff nth_append)

text \<open>Pieces of one file may arrive in any order and more than once.\<close>

lemma fold_pieces:
  assumes "inv s" and "length d \<le> u64_max"
    and "\<forall>(off, b)\<in>set ps. off + length b \<le> length d \<and> b = take (length b) (drop off d)"
    and "\<forall>i v. abs s i = Some v \<longrightarrow> i < length d \<and> v = d ! i"
  shows "inv (fold (\<lambda>(off, b) s. put s off b) ps s) \<and>
    (\<forall>i. abs (fold (\<lambda>(off, b) s. put s off b) ps s) i =
       (if i \<in> dom (abs s) \<or> (\<exists>(off, b)\<in>set ps. off \<le> i \<and> i < off + length b)
        then Some (d ! i) else None))"
  using assms(1,3,4)
proof (induction ps arbitrary: s)
  case Nil
  then show ?case by (auto simp: dom_def split: option.split)
next
  case (Cons p ps)
  obtain off b where p: "p = (off, b)" by force
  have b: "off + length b \<le> length d" "b = take (length b) (drop off d)" using Cons.prems(2) p by auto
  then have u: "off + length b \<le> u64_max" using assms(2) by simp
  have nth: "b ! (i - off) = d ! i" if "off \<le> i" "i < off + length b" for i
  proof -
    have "b ! (i - off) = take (length b) (drop off d) ! (i - off)" using b(2) by simp
    then show ?thesis using that b(1) by simp
  qed
  have a: "abs (put s off b) = (\<lambda>i. if off \<le> i \<and> i < off + length b then Some (d ! i) else abs s i)"
    using abs_put [OF Cons.prems(1) u] nth by (auto simp: fun_eq_iff)
  have "\<forall>i v. abs (put s off b) i = Some v \<longrightarrow> i < length d \<and> v = d ! i"
    using Cons.prems(3) b(1) by (auto simp: a)
  with Cons.IH [OF inv_put [OF Cons.prems(1) u]] Cons.prems(2)
  have ih: "inv (fold (\<lambda>(off, b) s. put s off b) ps (put s off b))"
    "\<And>i. abs (fold (\<lambda>(off, b) s. put s off b) ps (put s off b)) i =
       (if i \<in> dom (abs (put s off b)) \<or> (\<exists>(off, b)\<in>set ps. off \<le> i \<and> i < off + length b)
        then Some (d ! i) else None)" by auto
  then show ?case by (auto simp: p a dom_def)
qed

end

subsection \<open>The code's session\<close>

type_synonym session = "bytes \<times> chunk_range list"

definition sess_put :: "session \<Rightarrow> nat \<Rightarrow> bytes \<Rightarrow> session" where
  "sess_put s off b =
     (write_bytes (fst s) off b,
      merge_range (snd s) \<lparr> c_start = off, c_end = sat_add off (length b) \<rparr>)"

definition sess_abs :: "session \<Rightarrow> nat \<Rightarrow> byte option" where
  "sess_abs s i = (if i \<in> ranges_set (snd s) then Some (fst s ! i) else None)"

definition sess_inv :: "session \<Rightarrow> bool" where
  "sess_inv s \<longleftrightarrow> ranges_wf (snd s) \<and> ranges_set (snd s) \<subseteq> {..<length (fst s)} \<and>
     (0 < length (fst s) \<longrightarrow> length (fst s) - 1 \<in> ranges_set (snd s))"

lemma length_write_bytes:
  "length (write_bytes d off b) = (if b = [] then length d else max (length d) (off + length b))"
  by (auto simp: write_bytes_def)

lemma nth_write_bytes:
  assumes "b \<noteq> []" and "i < max (length d) (off + length b)"
  shows "write_bytes d off b ! i =
    (if i < off then (if i < length d then d ! i else 0)
     else if i < off + length b then b ! (i - off) else d ! i)"
proof -
  have "min (length d) off + (off - length d) = off" by simp
  with assms show ?thesis by (auto simp: write_bytes_def nth_append)
qed

lemma sess_put_inv:
  assumes "sess_inv s" and "off + length b \<le> u64_max"
  shows "sess_inv (sess_put s off b)"
proof (cases "b = []")
  case True
  with assms show ?thesis
    by (simp add: sess_inv_def sess_put_def merge_range_def chunk_range_is_empty_def
        chunk_range_len_def length_write_bytes)
next
  case False
  then have lb: "0 < length b" by simp
  let ?m = "merge_range (snd s) \<lparr> c_start = off, c_end = off + length b \<rparr>"
  have m: "ranges_wf ?m" "ranges_set ?m = ranges_set (snd s) \<union> {off..<off + length b}"
    using merge_range_set [of "snd s" "\<lparr> c_start = off, c_end = off + length b \<rparr>"] assms(1)
    by (simp_all add: sess_inv_def)
  have "max (length (fst s)) (off + length b) - 1 \<in> ranges_set ?m"
  proof (cases "length (fst s) \<le> off + length b")
    case True
    have "off + length b - 1 \<in> {off..<off + length b}" using lb by (cases "length b") simp_all
    with True show ?thesis unfolding m(2) by (simp only: max_absorb2 UnI2)
  next
    case False
    then have "length (fst s) - 1 \<in> ranges_set (snd s)"
      using assms(1) by (cases "fst s") (auto simp: sess_inv_def)
    with False show ?thesis unfolding m(2) by (simp add: max_def)
  qed
  moreover have "ranges_set ?m \<subseteq> {..<max (length (fst s)) (off + length b)}"
    using assms(1) unfolding m(2) sess_inv_def by auto
  ultimately show ?thesis
    using m(1) False assms(2) by (simp add: sess_inv_def sess_put_def length_write_bytes)
qed

lemma sess_put_abs:
  assumes "sess_inv s" and "off + length b \<le> u64_max"
  shows "sess_abs (sess_put s off b) =
    (\<lambda>i. if off \<le> i \<and> i < off + length b then Some (b ! (i - off)) else sess_abs s i)"
proof (cases "b = []")
  case True
  with assms show ?thesis
    by (auto simp: sess_abs_def sess_put_def merge_range_def chunk_range_is_empty_def
        chunk_range_len_def write_bytes_def fun_eq_iff)
next
  case False
  have m: "ranges_set (merge_range (snd s) \<lparr> c_start = off, c_end = off + length b \<rparr>) =
      ranges_set (snd s) \<union> {off..<off + length b}"
    using merge_range_set [of "snd s" "\<lparr> c_start = off, c_end = off + length b \<rparr>"] assms(1)
    by (simp add: sess_inv_def)
  have "sess_abs (sess_put s off b) i =
      (if off \<le> i \<and> i < off + length b then Some (b ! (i - off)) else sess_abs s i)" for i
  proof -
    have r: "i < length (fst s)" if "i \<in> ranges_set (snd s)" using that assms(1) by (auto simp: sess_inv_def)
    show ?thesis
      using assms(2) r nth_write_bytes [OF False, of i "fst s" off]
      by (auto simp: sess_abs_def sess_put_def m)
  qed
  then show ?thesis by (simp add: fun_eq_iff)
qed

interpretation sess: session_store sess_abs sess_put snd "\<lambda>s. length (fst s)" sess_inv "([], [])"
proof unfold_locales
  show "sess_inv ([], [])" by (simp add: sess_inv_def)
  show "sess_abs ([], []) = (\<lambda>_. None)" by (simp add: sess_abs_def fun_eq_iff)
next
  fix s assume i: "sess_inv s"
  then have d: "dom (sess_abs s) = ranges_set (snd s)" by (auto simp: sess_abs_def split: if_splits)
  show "ranges_wf (snd s) \<and> ranges_set (snd s) = dom (sess_abs s)"
    using i by (simp add: d sess_inv_def)
  show "dom (sess_abs s) \<subseteq> {..<length (fst s)} \<and>
      (0 < length (fst s) \<longrightarrow> length (fst s) - 1 \<in> dom (sess_abs s))"
    using i by (simp add: d sess_inv_def)
qed (fact sess_put_inv sess_put_abs)+



end
