(* ===== verification/Storage_Props.thy ===== *)
theory Storage_Props
  imports Session_Store Path_Codec
begin

text \<open>
  What the storage operations do to the tree of names and the inodes: confinement of paths under
  the root, and, for a target whose directory exists, the effect of creating, writing, committing
  and aborting an upload, plain or by session.
\<close>

subsection \<open>Confinement\<close>

lemma resolve_loop_closed:
  "resolve_loop j cs =
    (if C_ParentDir \<in> set cs
     then Inl (Unsupported (''path must not contain '' @ [CHR 0x27] @ ''..'' @ [CHR 0x27] @ '' or special components''))
     else Inr (j @ List.map_filter (\<lambda>c. case c of C_Normal s \<Rightarrow> Some s | _ \<Rightarrow> None) cs))"
proof (induction cs arbitrary: j)
  case (Cons c cs)
  then show ?case by (cases c) (simp_all add: map_filter_simps)
qed (simp add: map_filter_simps)

lemma map_filter_components:
  "''..'' \<notin> set ss \<Longrightarrow>
   List.map_filter (\<lambda>c. case c of C_Normal s \<Rightarrow> Some s | _ \<Rightarrow> None)
     (map (\<lambda>s. if s = ''..'' then C_ParentDir else C_Normal s) ss) = ss"
  by (induction ss) (auto simp: map_filter_simps)

lemma map_filter_CurDir [simp]:
  "List.map_filter (\<lambda>c. case c of C_Normal s \<Rightarrow> Some s | _ \<Rightarrow> None) (C_CurDir # cs) =
   List.map_filter (\<lambda>c. case c of C_Normal s \<Rightarrow> Some s | _ \<Rightarrow> None) cs"
  by (simp add: map_filter_simps)

lemma resolve_cases:
  "resolve st p =
    (if starts_with p ''/'' then Inl (Unsupported ''absolute paths are not allowed'')
     else if ''..'' \<in> set (split_on CHR ''/'' p)
     then Inl (Unsupported (''path must not contain '' @ [CHR 0x27] @ ''..'' @ [CHR 0x27] @ '' or special components''))
     else Inr (st_root st @ filter (\<lambda>s. s \<noteq> [] \<and> s \<noteq> ''.'') (split_on CHR ''/'' p)))"
proof -
  let ?ss = "filter (\<lambda>s. s \<noteq> [] \<and> s \<noteq> ''.'') (split_on CHR ''/'' p)"
  have par: "C_ParentDir \<in> set (path_components p) \<longleftrightarrow> ''..'' \<in> set (split_on CHR ''/'' p)"
    by (auto simp: path_components_def Let_def)
  have "''..'' \<notin> set (split_on CHR ''/'' p) \<Longrightarrow>
      List.map_filter (\<lambda>c. case c of C_Normal s \<Rightarrow> Some s | _ \<Rightarrow> None) (path_components p) = ?ss"
    using map_filter_components [of ?ss] by (auto simp: path_components_def Let_def)
  with par show ?thesis by (simp add: resolve_def resolve_loop_closed)
qed

lemma resolve_canonical:
  assumes "canonical p"
  shows "resolve st p = Inr (st_root st @ segments p)"
proof (cases "p = []")
  case False
  with assms have l: "list_all plain_seg (split_on CHR ''/'' p)" by (intro canonical_split)
  then have "filter (\<lambda>s. s \<noteq> [] \<and> s \<noteq> ''.'') (split_on CHR ''/'' p) = split_on CHR ''/'' p"
    by (intro filter_True) (auto simp: list_all_iff plain_seg_def)
  with l False canonical_no_lead [OF assms] show ?thesis
    by (auto simp: resolve_cases list_all_iff plain_seg_def segments_def)
qed (simp add: resolve_cases starts_with_def)

text \<open>
  C12: a virtual path is resolved to the root followed by its segments, empty and dot segments
  dropped; an absolute path and a path with a \<open>..\<close> segment are refused, so a resolved path never
  leaves the root, and a canonical path keeps its segments.
\<close>

theorem resolve_confined:
  "(case resolve st p of
      Inl _ \<Rightarrow> prefix ''/'' p \<or> ''..'' \<in> set (split_on CHR ''/'' p)
    | Inr full \<Rightarrow> \<not> prefix ''/'' p \<and> ''..'' \<notin> set (split_on CHR ''/'' p) \<and>
        full = st_root st @ filter (\<lambda>s. s \<noteq> [] \<and> s \<noteq> ''.'') (split_on CHR ''/'' p)) \<and>
   (canonical p \<longrightarrow> resolve st p = Inr (st_root st @ segments p))"
  using resolve_canonical [of p st] by (simp add: resolve_cases starts_with_def)

theorem resolve_confined_witness:
  "resolve \<lparr> st_root = [''srv'', ''data''] \<rparr> ''a/b'' = Inr [''srv'', ''data'', ''a'', ''b'']"
  using resolve_confined [where st = "\<lparr> st_root = [''srv'', ''data''] \<rparr>" and p = "''a/b''"]
  by (simp add: canonical_def segments_def plain_seg_def)

subsection \<open>One directory\<close>

definition dir_ok :: "fsys \<Rightarrow> path \<Rightarrow> bool" where
  "dir_ok fs d \<longleftrightarrow> (\<forall>q. prefix q d \<longrightarrow> is_dir fs q)"

lemma dir_ok_is_dir: "dir_ok fs d \<Longrightarrow> is_dir fs d"
  by (simp add: dir_ok_def)

lemma walk_in_dir:
  assumes "dir_ok fs d"
  shows "fs_walk fs False (d @ [x]) = Inr (d @ [x])"
    and "\<not> is_link fs (d @ [x]) \<Longrightarrow> fs_walk fs True (d @ [x]) = Inr (d @ [x])"
proof -
  have w: "fs_walk_from fs follow n cur ss = fs_walk_from fs follow n (cur @ take k ss) (drop k ss)"
    if "\<forall>q. prefix q (cur @ take k ss) \<longrightarrow> is_dir fs q" "k \<le> length ss" for follow n cur ss k
    using that
  proof (induction k arbitrary: cur ss)
    case (Suc k)
    then obtain s r where ss: "ss = s # r" by (cases ss) auto
    with Suc.prems(1) have "is_dir fs (cur @ [s])" by auto
    then obtain m where "fs_node fs (cur @ [s]) = Some (NDir m)"
      by (auto simp: is_dir_def split: option.splits node.splits)
    then have "fs_walk_from fs follow n cur ss = fs_walk_from fs follow n (cur @ [s]) r"
      using ss by simp
    also have "\<dots> = fs_walk_from fs follow n ((cur @ [s]) @ take k r) (drop k r)"
      using Suc.prems ss by (intro Suc.IH) auto
    finally show ?case using ss by simp
  qed simp
  have "fs_walk fs follow (d @ [x]) = fs_walk_from fs follow max_links d [x]" for follow
    using w [of "[]" "length d" "d @ [x]" follow max_links] assms by (simp add: fs_walk_def dir_ok_def)
  then show "fs_walk fs False (d @ [x]) = Inr (d @ [x])"
    and "\<not> is_link fs (d @ [x]) \<Longrightarrow> fs_walk fs True (d @ [x]) = Inr (d @ [x])"
    by (auto simp: is_link_def split: option.splits node.splits)
qed

lemma dir_ok_cong:
  "dir_ok fs d \<Longrightarrow> (\<And>q. prefix q d \<Longrightarrow> fs_node fs2 q = fs_node fs q) \<Longrightarrow> dir_ok fs2 d"
  by (simp add: dir_ok_def is_dir_def)

lemma prefix_neq_snoc: "prefix q d \<Longrightarrow> q \<noteq> d @ [x]"
  by (auto dest: prefix_length_le)

lemma dir_ok_eq:
  "(\<And>q. prefix q d \<Longrightarrow> fs_node fs2 q = fs_node fs q) \<Longrightarrow> dir_ok fs2 d \<longleftrightarrow> dir_ok fs d"
  by (auto simp: dir_ok_def is_dir_def)

lemma dir_ok_set [simp]: "dir_ok (set_node fs (d @ [x]) nd) d \<longleftrightarrow> dir_ok fs d"
  by (rule dir_ok_eq) (simp add: fs_node_set prefix_neq_snoc)

lemma dir_ok_del [simp]: "dir_ok (del_node fs (d @ [x])) d \<longleftrightarrow> dir_ok fs d"
  by (rule dir_ok_eq) (simp add: fs_node_del prefix_neq_snoc)

lemma dir_ok_upd [simp]:
  "dir_ok (fs\<lparr> fs_data := a \<rparr>) d \<longleftrightarrow> dir_ok fs d" "dir_ok (fs\<lparr> fs_mtime := m \<rparr>) d \<longleftrightarrow> dir_ok fs d"
  "dir_ok (fs\<lparr> fs_next := n \<rparr>) d \<longleftrightarrow> dir_ok fs d"
  by (simp_all add: dir_ok_def is_dir_def)

text \<open>Inode bookkeeping: names have distinct, allocated inodes.\<close>

definition fs_wf :: "fsys \<Rightarrow> bool" where
  "fs_wf fs \<longleftrightarrow> (\<forall>p i. fs_node fs p = Some (NFile i) \<longrightarrow> i < fs_next fs) \<and>
     (\<forall>p q i. fs_node fs p = Some (NFile i) \<and> fs_node fs q = Some (NFile i) \<longrightarrow> p = q)"

lemma fs_wf_upd [simp]:
  "fs_wf (fs\<lparr> fs_data := a \<rparr>) \<longleftrightarrow> fs_wf fs" "fs_wf (fs\<lparr> fs_mtime := m \<rparr>) \<longleftrightarrow> fs_wf fs"
  by (simp_all add: fs_wf_def)

lemma fs_write_node [simp]: "fs_node (fs_write fs i off b) = fs_node fs"
  by (simp add: fs_write_def)

lemma fs_write_data:
  "fs_data (fs_write fs i off b) = (fs_data fs)(i := write_bytes (fs_data fs i) off b)"
  by (simp add: fs_write_def write_bytes_def)

lemma fs_write_fields [simp]:
  "fs_next (fs_write fs i off b) = fs_next fs" "fs_now (fs_write fs i off b) = fs_now fs"
  by (simp_all add: fs_write_def)

lemma fs_wf_write [simp]: "fs_wf (fs_write fs i off b) \<longleftrightarrow> fs_wf fs"
  by (simp add: fs_wf_def)

lemma dir_ok_write [simp]: "dir_ok (fs_write fs i off b) d \<longleftrightarrow> dir_ok fs d"
  by (simp add: dir_ok_def is_dir_def)

lemma fs_wf_del: "fs_wf fs \<Longrightarrow> fs_wf (del_node fs p)"
  unfolding fs_wf_def fs_node_del del_node_fields by (auto split: if_splits)

lemma fs_wf_move:
  assumes "fs_wf fs" and "fs_node fs a = Some (NFile i)" and "a \<noteq> []"
  shows "fs_wf (set_node (del_node fs a) b (NFile i))"
  using assms unfolding fs_wf_def fs_node_set fs_node_del set_node_fields del_node_fields
  by (auto split: if_splits)

lemma new_file_node:
  "q \<noteq> [] \<Longrightarrow> fs_node (snd (new_file fs q)) p = (if p = q then Some (NFile (fs_next fs)) else fs_node fs p)"
  by (simp add: new_file_def Let_def fs_node_set)

lemma new_file_fields [simp]:
  "fst (new_file fs q) = fs_next fs" "fs_data (snd (new_file fs q)) = (fs_data fs)(fs_next fs := [])"
  "fs_next (snd (new_file fs q)) = fs_next fs + 1" "fs_now (snd (new_file fs q)) = fs_now fs"
  by (simp_all add: new_file_def Let_def)

lemma fs_wf_new_file:
  assumes "fs_wf fs" and "q \<noteq> []"
  shows "fs_wf (snd (new_file fs q))"
proof -
  have lt: "\<And>p i. fs_node fs p = Some (NFile i) \<Longrightarrow> i < fs_next fs"
    and inj: "\<And>p r i. fs_node fs p = Some (NFile i) \<Longrightarrow> fs_node fs r = Some (NFile i) \<Longrightarrow> p = r"
    using assms(1) by (auto simp: fs_wf_def)
  show ?thesis
    unfolding fs_wf_def new_file_node [OF assms(2)] new_file_fields
    using lt inj less_irrefl by (auto split: if_splits intro: less_SucI)
qed

lemma dir_ok_new_file: "dir_ok fs d \<Longrightarrow> dir_ok (snd (new_file fs (d @ [x]))) d"
  by (rule dir_ok_cong) (simp_all add: new_file_node prefix_neq_snoc)

text \<open>The operations on a name of the directory.\<close>

lemma node_not_link: "fs_node fs p = Some (NFile i) \<Longrightarrow> \<not> is_link fs p" "fs_node fs p = None \<Longrightarrow> \<not> is_link fs p"
  by (simp_all add: is_link_def)

lemma in_dir_ops:
  assumes d: "dir_ok fs d"
  shows open_file: "fs_node fs (d @ [x]) = Some (NFile i) \<Longrightarrow> fs_open fs (d @ [x]) = Inr i"
    and open_none: "fs_node fs (d @ [x]) = None \<Longrightarrow> fs_open fs (d @ [x]) = Inl enoent"
    and exists_in_dir: "\<not> is_link fs (d @ [x]) \<Longrightarrow>
      fs_try_exists fs (d @ [x]) = Inr (fs_node fs (d @ [x]) \<noteq> None)"
    and create_none: "fs_node fs (d @ [x]) = None \<Longrightarrow> fs_create fs (d @ [x]) = Inr (new_file fs (d @ [x]))"
    and create_file: "fs_node fs (d @ [x]) = Some (NFile i) \<Longrightarrow> fs_create fs (d @ [x]) =
      Inr (i, fs\<lparr> fs_data := (fs_data fs)(i := []), fs_mtime := (fs_mtime fs)(i := fs_now fs) \<rparr>)"
    and create_new_none: "fs_node fs (d @ [x]) = None \<Longrightarrow>
      fs_create_new fs (d @ [x]) = Inr (new_file fs (d @ [x]))"
    and remove_file: "fs_node fs (d @ [x]) = Some (NFile i) \<Longrightarrow>
      fs_remove_file fs (d @ [x]) = Inr (del_node fs (d @ [x]))"
    and remove_none: "fs_node fs (d @ [x]) = None \<Longrightarrow> fs_remove_file fs (d @ [x]) = Inl enoent"
    and rename_file: "fs_node fs (d @ [x]) = Some (NFile i) \<Longrightarrow> x \<noteq> y \<Longrightarrow> \<not> is_dir fs (d @ [y]) \<Longrightarrow>
      fs_rename fs (d @ [x]) (d @ [y]) = Inr (set_node (del_node fs (d @ [x])) (d @ [y]) (NFile i))"
proof -
  note w = walk_in_dir [OF d]
  show "fs_node fs (d @ [x]) = Some (NFile i) \<Longrightarrow> fs_open fs (d @ [x]) = Inr i"
    by (simp add: fs_open_def fs_stat_def w node_not_link)
  show "fs_node fs (d @ [x]) = None \<Longrightarrow> fs_open fs (d @ [x]) = Inl enoent"
    by (simp add: fs_open_def fs_stat_def w node_not_link)
  show "\<not> is_link fs (d @ [x]) \<Longrightarrow> fs_try_exists fs (d @ [x]) = Inr (fs_node fs (d @ [x]) \<noteq> None)"
    by (cases "fs_node fs (d @ [x])") (simp_all add: fs_try_exists_def fs_stat_def w enoent_def)
  show "fs_node fs (d @ [x]) = None \<Longrightarrow> fs_create fs (d @ [x]) = Inr (new_file fs (d @ [x]))"
    by (simp add: fs_create_def w node_not_link)
  show "fs_node fs (d @ [x]) = Some (NFile i) \<Longrightarrow> fs_create fs (d @ [x]) =
      Inr (i, fs\<lparr> fs_data := (fs_data fs)(i := []), fs_mtime := (fs_mtime fs)(i := fs_now fs) \<rparr>)"
    by (simp add: fs_create_def w node_not_link)
  show "fs_node fs (d @ [x]) = None \<Longrightarrow> fs_create_new fs (d @ [x]) = Inr (new_file fs (d @ [x]))"
    by (simp add: fs_create_new_def w)
  show "fs_node fs (d @ [x]) = Some (NFile i) \<Longrightarrow> fs_remove_file fs (d @ [x]) = Inr (del_node fs (d @ [x]))"
    by (simp add: fs_remove_file_def w)
  show "fs_node fs (d @ [x]) = None \<Longrightarrow> fs_remove_file fs (d @ [x]) = Inl enoent"
    by (simp add: fs_remove_file_def w)
  show "fs_node fs (d @ [x]) = Some (NFile i) \<Longrightarrow> x \<noteq> y \<Longrightarrow> \<not> is_dir fs (d @ [y]) \<Longrightarrow>
      fs_rename fs (d @ [x]) (d @ [y]) = Inr (set_node (del_node fs (d @ [x])) (d @ [y]) (NFile i))"
    by (auto simp: fs_rename_def w is_dir_def split: option.splits node.splits)
qed

subsection \<open>A session on disk\<close>

text \<open>What serde_json promises for the range list.\<close>

definition ext_ok :: "externals \<Rightarrow> bool" where
  "ext_ok x \<longleftrightarrow> (\<forall>rs. x_de_ranges x (x_ser_ranges x rs) = Inr rs \<and> utf8_valid (as_bytes (x_ser_ranges x rs)))"

definition sidecar_at :: "externals \<Rightarrow> fsys \<Rightarrow> path \<Rightarrow> chunk_range list \<Rightarrow> bool" where
  "sidecar_at x fs b rs \<longleftrightarrow>
     fs_node fs b = None \<and> rs = [] \<or>
     (\<exists>j. fs_node fs b = Some (NFile j) \<and> fs_data fs j = as_bytes (x_ser_ranges x rs))"

definition blocks_name :: "string \<Rightarrow> string" where
  "blocks_name n = n @ ''.blocks''"

definition blocks_tmp_name :: "string \<Rightarrow> string" where
  "blocks_tmp_name n = n @ ''.blocks.tmp''"

definition free_name :: "fsys \<Rightarrow> path \<Rightarrow> bool" where
  "free_name fs p \<longleftrightarrow> fs_node fs p = None \<or> (\<exists>i. fs_node fs p = Some (NFile i))"

text \<open>
  The temp of session name \<open>n\<close> in directory \<open>d\<close> is inode \<open>i\<close>, and its content and sidecar hold
  the session \<open>s\<close>.
\<close>

definition session_at :: "externals \<Rightarrow> fsys \<Rightarrow> path \<Rightarrow> string \<Rightarrow> nat \<Rightarrow> session \<Rightarrow> bool" where
  "session_at x fs d n i s \<longleftrightarrow>
     dir_ok fs d \<and> fs_wf fs \<and> fs_node fs (d @ [n]) = Some (NFile i) \<and> fs_data fs i = fst s \<and>
     sidecar_at x fs (d @ [blocks_name n]) (snd s) \<and> free_name fs (d @ [blocks_tmp_name n])"

text \<open>Everything outside a set of names is as it was.\<close>

definition same_outside :: "fsys \<Rightarrow> fsys \<Rightarrow> path set \<Rightarrow> bool" where
  "same_outside fs fs2 N \<longleftrightarrow>
     (\<forall>p. p \<notin> N \<longrightarrow> fs_node fs2 p = fs_node fs p) \<and>
     (\<forall>p k. p \<notin> N \<and> fs_node fs p = Some (NFile k) \<longrightarrow> fs_data fs2 k = fs_data fs k) \<and>
     fs_now fs2 = fs_now fs"

lemma same_outside_refl [simp]: "same_outside fs fs N"
  by (simp add: same_outside_def)

lemma same_outside_trans:
  "same_outside a b N \<Longrightarrow> same_outside b c M \<Longrightarrow> same_outside a c (N \<union> M)"
  unfolding same_outside_def by auto

lemma same_outside_mono: "same_outside a b N \<Longrightarrow> N \<subseteq> M \<Longrightarrow> same_outside a b M"
  unfolding same_outside_def by blast

lemma blocks_names [simp]:
  "blocks_name n \<noteq> n" "blocks_tmp_name n \<noteq> n" "blocks_tmp_name n \<noteq> blocks_name n"
  "n \<noteq> blocks_name n" "n \<noteq> blocks_tmp_name n" "blocks_name n \<noteq> blocks_tmp_name n"
  by (simp_all add: blocks_name_def blocks_tmp_name_def)

lemma with_file_name_snoc [simp]: "with_file_name (d @ [n]) m = d @ [m]"
  by (simp add: with_file_name_def)

lemma blocks_path_for_snoc [simp]: "blocks_path_for (d @ [n]) = d @ [blocks_name n]"
  by (simp add: blocks_path_for_def blocks_name_def)

lemma read_ranges_at:
  assumes "ext_ok x" and "dir_ok (w_fs w) d" and "sidecar_at x (w_fs w) (d @ [b]) rs"
  shows "read_ranges x (d @ [b]) w = (Inr rs, w)"
  using assms(3) unfolding sidecar_at_def
proof (elim disjE conjE exE)
  assume "fs_node (w_fs w) (d @ [b]) = None" "rs = []"
  with assms(2) show ?thesis by (simp add: read_ranges_def open_none enoent_def)
next
  fix j assume "fs_node (w_fs w) (d @ [b]) = Some (NFile j)"
    "fs_data (w_fs w) j = as_bytes (x_ser_ranges x rs)"
  with assms(1,2) show ?thesis by (simp add: read_ranges_def open_file ext_ok_def)
qed

text \<open>A whole-file write of a free name.\<close>

lemma write_file_in_dir:
  assumes d: "dir_ok fs d" and wf: "fs_wf fs" and fr: "free_name fs (d @ [m])"
  shows "\<exists>j fs2. fs_write_file fs (d @ [m]) c = Inr ((), fs2) \<and> fs_wf fs2 \<and> dir_ok fs2 d \<and>
    fs_node fs2 (d @ [m]) = Some (NFile j) \<and> fs_data fs2 j = c \<and> same_outside fs fs2 {d @ [m]}"
  using fr unfolding free_name_def
proof (elim disjE exE)
  assume n: "fs_node fs (d @ [m]) = None"
  let ?fs1 = "snd (new_file fs (d @ [m]))"
  let ?fs2 = "fs_write ?fs1 (fs_next fs) 0 c"
  have "fs_write_file fs (d @ [m]) c = Inr ((), ?fs2)"
    using create_none [OF d n] by (simp add: fs_write_file_def split_beta)
  moreover have "fs_wf ?fs2" using wf by (simp add: fs_wf_new_file)
  moreover have "dir_ok ?fs2 d" using d by (simp add: dir_ok_new_file)
  moreover have "fs_node ?fs2 (d @ [m]) = Some (NFile (fs_next fs))" by (simp add: new_file_node)
  moreover have "fs_data ?fs2 (fs_next fs) = c" by (simp add: fs_write_data write_bytes_def)
  moreover have "same_outside fs ?fs2 {d @ [m]}"
    using wf by (auto simp: same_outside_def new_file_node fs_write_data fs_wf_def)
  ultimately show ?thesis by blast
next
  fix i assume n: "fs_node fs (d @ [m]) = Some (NFile i)"
  let ?fs1 = "fs\<lparr> fs_data := (fs_data fs)(i := []), fs_mtime := (fs_mtime fs)(i := fs_now fs) \<rparr>"
  let ?fs2 = "fs_write ?fs1 i 0 c"
  have "fs_write_file fs (d @ [m]) c = Inr ((), ?fs2)"
    using create_file [OF d n] by (simp add: fs_write_file_def)
  moreover have "fs_wf ?fs2" "dir_ok ?fs2 d" using wf d by simp_all
  moreover have "fs_node ?fs2 (d @ [m]) = Some (NFile i)" using n by simp
  moreover have "fs_data ?fs2 i = c" by (simp add: fs_write_data write_bytes_def)
  moreover have "same_outside fs ?fs2 {d @ [m]}"
    using wf n by (auto simp: same_outside_def fs_write_data fs_wf_def)
  ultimately show ?thesis by blast
qed

lemma sidecar_free: "sidecar_at x fs b rs \<Longrightarrow> free_name fs b"
  by (auto simp: sidecar_at_def free_name_def)

lemma free_not_dir: "free_name fs p \<Longrightarrow> \<not> is_dir fs p \<and> \<not> is_link fs p"
  by (auto simp: free_name_def is_dir_def is_link_def)

lemma same_outside_node: "same_outside fs fs2 N \<Longrightarrow> p \<notin> N \<Longrightarrow> fs_node fs2 p = fs_node fs p"
  by (simp add: same_outside_def)

lemma same_outside_data:
  "same_outside fs fs2 N \<Longrightarrow> p \<notin> N \<Longrightarrow> fs_node fs p = Some (NFile k) \<Longrightarrow> fs_data fs2 k = fs_data fs k"
  unfolding same_outside_def by blast

lemma persist_at:
  assumes d: "dir_ok (w_fs w) d" and wf: "fs_wf (w_fs w)"
    and fb: "free_name (w_fs w) (d @ [blocks_name n])" and ft: "free_name (w_fs w) (d @ [blocks_tmp_name n])"
  shows "\<exists>fs2. persist_ranges x (d @ [blocks_name n]) rs w = (Inr (), w\<lparr> w_fs := fs2 \<rparr>) \<and>
    fs_wf fs2 \<and> dir_ok fs2 d \<and> sidecar_at x fs2 (d @ [blocks_name n]) rs \<and>
    free_name fs2 (d @ [blocks_tmp_name n]) \<and>
    same_outside (w_fs w) fs2 {d @ [blocks_name n], d @ [blocks_tmp_name n]}"
proof -
  let ?c = "as_bytes (x_ser_ranges x rs)" and ?b = "d @ [blocks_name n]" and ?t = "d @ [blocks_tmp_name n]"
  obtain j fs1 where f: "fs_write_file (w_fs w) ?t ?c = Inr ((), fs1)" "fs_wf fs1" "dir_ok fs1 d"
    "fs_node fs1 ?t = Some (NFile j)" "fs_data fs1 j = ?c" "same_outside (w_fs w) fs1 {?t}"
    using write_file_in_dir [OF d wf ft] by blast
  have "fs_node fs1 ?b = fs_node (w_fs w) ?b" using f(6) by (rule same_outside_node) simp
  then have nb: "\<not> is_dir fs1 ?b" using free_not_dir [OF fb] by (simp add: is_dir_def)
  let ?fs2 = "set_node (del_node fs1 ?t) ?b (NFile j)"
  have r: "fs_rename fs1 ?t ?b = Inr ?fs2" by (rule rename_file [OF f(3,4) _ nb]) simp
  have tn: "with_file_name ?b (last ?b @ ''.tmp'') = ?t"
    by (simp add: blocks_name_def blocks_tmp_name_def)
  have "persist_ranges x ?b rs w = (Inr (), w\<lparr> w_fs := ?fs2 \<rparr>)"
    unfolding persist_ranges_def Let_def tn using f(1) r by (simp add: sm_simps)
  moreover have "fs_wf ?fs2" using f(2,4) by (rule fs_wf_move) simp
  moreover have "dir_ok ?fs2 d" using f(3) by simp
  moreover have "sidecar_at x ?fs2 ?b rs" using f(5) by (simp add: sidecar_at_def fs_node_set)
  moreover have "free_name ?fs2 ?t" by (simp add: free_name_def fs_node_set fs_node_del)
  moreover have "same_outside (w_fs w) ?fs2 {?b, ?t}"
    using f(6) unfolding same_outside_def
    by (auto simp: fs_node_set fs_node_del)
  ultimately show ?thesis by blast
qed

definition session_names :: "path \<Rightarrow> string \<Rightarrow> path set" where
  "session_names d n = {d @ [n], d @ [blocks_name n], d @ [blocks_tmp_name n]}"

definition session_sink :: "path \<Rightarrow> string \<Rightarrow> nat \<Rightarrow> fs_sink \<Rightarrow> bool" where
  "session_sink d n i sk \<longleftrightarrow> sk_ino sk = i \<and> \<not> sk_append sk \<and> sk_tmp sk = Some (d @ [n]) \<and>
     sk_blocks sk = Some (d @ [blocks_name n])"

lemma write_at_refines:
  assumes x: "ext_ok x" and s: "session_at x (w_fs w) d n i s" and k: "session_sink d n i sk"
  shows "\<exists>sk2 fs2. sink_write_at x sk off buf w = (Inr sk2, w\<lparr> w_fs := fs2 \<rparr>) \<and>
    session_at x fs2 d n i (sess_put s off buf) \<and> session_sink d n i sk2 \<and>
    sk_ranges sk2 = snd (sess_put s off buf) \<and> sk_target sk2 = sk_target sk \<and>
    sk_rel sk2 = sk_rel sk \<and> sk_mode sk2 = sk_mode sk \<and>
    same_outside (w_fs w) fs2 (session_names d n)"
proof -
  let ?b = "d @ [blocks_name n]" and ?t = "d @ [blocks_tmp_name n]"
  let ?fs1 = "fs_write (w_fs w) i off buf" and ?w1 = "w\<lparr> w_fs := fs_write (w_fs w) i off buf \<rparr>"
  let ?rs = "snd (sess_put s off buf)"
  have d: "dir_ok (w_fs w) d" "fs_wf (w_fs w)" "fs_node (w_fs w) (d @ [n]) = Some (NFile i)"
    "fs_data (w_fs w) i = fst s" "sidecar_at x (w_fs w) ?b (snd s)" "free_name (w_fs w) ?t"
    using s by (auto simp: session_at_def)
  have inj: "\<And>p. fs_node (w_fs w) p = Some (NFile i) \<Longrightarrow> p = d @ [n]" using d(2,3) by (auto simp: fs_wf_def)
  have side1: "sidecar_at x ?fs1 ?b (snd s)"
    using d(5) inj [of ?b] by (auto simp: sidecar_at_def fs_write_data)
  have free1: "free_name ?fs1 ?b" "free_name ?fs1 ?t"
    using sidecar_free [OF d(5)] d(6) by (simp_all add: free_name_def)
  have rr: "read_ranges x ?b ?w1 = (Inr (snd s), ?w1)"
    using d(1) side1 by (intro read_ranges_at [OF x]) simp_all
  obtain fs2 where p: "persist_ranges x ?b ?rs ?w1 = (Inr (), ?w1\<lparr> w_fs := fs2 \<rparr>)" "fs_wf fs2"
    "dir_ok fs2 d" "sidecar_at x fs2 ?b ?rs" "free_name fs2 ?t" "same_outside ?fs1 fs2 {?b, ?t}"
    using persist_at [of ?w1 d n x ?rs] d(1,2) free1 by auto
  have s01: "same_outside (w_fs w) ?fs1 {d @ [n]}"
    using inj by (auto simp: same_outside_def fs_write_data)
  have n2: "fs_node fs2 (d @ [n]) = Some (NFile i)"
    using same_outside_node [OF p(6), of "d @ [n]"] d(3) by simp
  have "fs_data fs2 i = fs_data ?fs1 i"
    using same_outside_data [OF p(6), of "d @ [n]" i] d(3) by simp
  then have d2: "fs_data fs2 i = fst (sess_put s off buf)"
    using d(4) by (simp add: fs_write_data sess_put_def)
  have "sink_write_at x sk off buf w =
      (Inr (sk\<lparr> sk_pos := off + length buf, sk_written := max (sk_written sk) (sat_add off (length buf)),
               sk_ranges := ?rs \<rparr>), w\<lparr> w_fs := fs2 \<rparr>)"
    using k rr p(1) by (simp add: sink_write_at_def sm_simps session_sink_def sess_put_def Let_def)
  moreover have "session_at x fs2 d n i (sess_put s off buf)"
    using p(2-5) n2 d2 by (simp add: session_at_def)
  moreover have "same_outside (w_fs w) fs2 (session_names d n)"
    using same_outside_trans [OF s01 p(6)] by (simp add: session_names_def insert_commute)
  ultimately show ?thesis using k by (auto simp: session_sink_def)
qed

subsection \<open>Opening a target\<close>

lemma stat_in_dir:
  assumes "dir_ok fs d"
  shows "fs_stat fs False (d @ [x]) = ok_or enoent (fs_node fs (d @ [x]))"
    and "\<not> is_link fs (d @ [x]) \<Longrightarrow> fs_stat fs True (d @ [x]) = ok_or enoent (fs_node fs (d @ [x]))"
  by (simp_all add: fs_stat_def walk_in_dir [OF assms])

lemma dir_ok_prefix: "dir_ok fs d \<Longrightarrow> prefix q d \<Longrightarrow> dir_ok fs q"
  by (auto simp: dir_ok_def dest: prefix_order.trans)

lemma is_dir_not_link: "is_dir fs p \<Longrightarrow> \<not> is_link fs p"
  by (auto simp: is_dir_def is_link_def split: option.splits node.splits)

lemma check_loop_ok:
  assumes "dir_ok fs d" and "\<not> is_link fs (d @ [t])" and "probe @ cs = d @ [t]"
  shows "check_symlinks_loop fs probe cs = Inr ()"
  using assms(3)
proof (induction cs arbitrary: probe)
  case (Cons c cs)
  have pd: "prefix probe d" using Cons.prems by (cases cs rule: rev_cases) (auto simp: prefix_def)
  then have st: "fs_stat fs False (probe @ [c]) = ok_or enoent (fs_node fs (probe @ [c]))"
    using stat_in_dir(1) [OF dir_ok_prefix [OF assms(1)]] by blast
  have "prefix (probe @ [c]) (d @ [t])" using Cons.prems by (metis append.assoc append_Cons append_Nil prefixI)
  then have "prefix (probe @ [c]) d \<or> probe @ [c] = d @ [t]" by auto
  then have "\<not> is_link fs (probe @ [c])"
    using assms(1,2) is_dir_not_link by (auto simp: dir_ok_def)
  moreover have "check_symlinks_loop fs (probe @ [c]) cs = Inr ()" using Cons.prems by (intro Cons.IH) simp
  ultimately show ?case
    by (auto simp: st is_link_def enoent_def split: option.splits node.splits)
qed simp

lemma mkdirs_ok:
  assumes "dir_ok fs d" and "cur @ ss = d"
  shows "fs_mkdirs fs cur ss = (Inr (), fs)"
  using assms(2)
proof (induction ss arbitrary: cur)
  case (Cons s ss)
  then have pc: "prefix (cur @ [s]) d" by auto
  then have id: "is_dir fs (cur @ [s])" using assms(1) by (simp add: dir_ok_def)
  have "prefix cur d" using Cons.prems by auto
  then have st: "fs_stat fs True (cur @ [s]) = ok_or enoent (fs_node fs (cur @ [s]))"
    using stat_in_dir(2) [OF dir_ok_prefix [OF assms(1)]] is_dir_not_link [OF id] by blast
  moreover have "fs_mkdirs fs (cur @ [s]) ss = (Inr (), fs)" using Cons.prems by (intro Cons.IH) simp
  ultimately show ?case using id by (auto simp: is_dir_def split: option.splits node.splits)
qed simp

text \<open>
  A target the backend resolves to the name \<open>t\<close> of an existing directory \<open>d\<close> reached without
  symbolic links.
\<close>

definition target_at :: "fs_storage \<Rightarrow> fsys \<Rightarrow> string \<Rightarrow> path \<Rightarrow> string \<Rightarrow> bool" where
  "target_at st fs p d t \<longleftrightarrow>
     resolve st p = Inr (d @ [t]) \<and> dir_ok fs d \<and> fs_wf fs \<and> free_name fs (d @ [t])"

lemma open_path_at:
  assumes "target_at st (w_fs w) p d t"
  shows "open_path st p w = (Inr (d @ [t]), w)" and "make_parent (d @ [t]) w = (Inr (), w)"
proof -
  have r: "resolve st p = Inr (d @ [t])" "dir_ok (w_fs w) d" "\<not> is_link (w_fs w) (d @ [t])"
    using assms free_not_dir by (auto simp: target_at_def)
  then show "make_parent (d @ [t]) w = (Inr (), w)"
    using mkdirs_ok [of "w_fs w" d "[]" d] by (simp add: make_parent_def sm_simps fs_create_dir_all_def)
  have "\<exists>ss. st_root st @ ss = d @ [t]"
    using r(1) unfolding resolve_cases by (auto split: if_splits)
  then have "prefix (st_root st) (d @ [t])" by (metis prefixI)
  then have "check_symlinks_loop (w_fs w) (st_root st) (drop (length (st_root st)) (d @ [t])) = Inr ()"
  proof (intro check_loop_ok [OF r(2,3)])
    obtain zs where "d @ [t] = st_root st @ zs" using \<open>prefix (st_root st) (d @ [t])\<close> by (auto simp: prefix_def)
    then show "st_root st @ drop (length (st_root st)) (d @ [t]) = d @ [t]"
      by (metis append_eq_conv_conj)
  qed
  then show "open_path st p w = (Inr (d @ [t]), w)"
    using r by (simp add: open_path_def sm_simps check_symlinks_def)
qed

definition sess_name :: "string \<Rightarrow> string \<Rightarrow> string \<Rightarrow> string" where
  "sess_name t session owner =
     ''.libfw-sess-'' @ sanitize (take_chars 16 owner) @ ''-'' @ sanitize session @ ''-'' @ t"

lemma session_tmp_snoc [simp]: "session_tmp (d @ [t]) session owner = d @ [sess_name t session owner]"
  by (simp add: session_tmp_def sess_name_def name_or_upload_def file_name_def)

lemma sess_name_longer: "length t < length (sess_name t session owner)"
  by (simp add: sess_name_def)

lemma target_not_session_name: "d @ [t] \<notin> session_names d (sess_name t session owner)"
  using sess_name_longer [of t session owner]
  by (auto simp: session_names_def blocks_name_def blocks_tmp_name_def
      dest!: arg_cong [where f = length])

lemma open_session_existing:
  assumes x: "ext_ok x" and t: "target_at st (w_fs w) p d t"
    and s: "session_at x (w_fs w) d (sess_name t session owner) i s"
  shows "\<exists>sk. write_stream_session x st p session owner mode w = (Inr sk, w) \<and>
    session_sink d (sess_name t session owner) i sk \<and> sk_ranges sk = snd s \<and>
    sk_target sk = d @ [t] \<and> sk_rel sk = p \<and> sk_mode sk = mode"
proof -
  let ?n = "sess_name t session owner"
  have d: "dir_ok (w_fs w) d" "fs_node (w_fs w) (d @ [?n]) = Some (NFile i)"
    "sidecar_at x (w_fs w) (d @ [blocks_name ?n]) (snd s)"
    using s by (auto simp: session_at_def)
  have e: "fs_try_exists (w_fs w) (d @ [?n]) = Inr True"
    using exists_in_dir [OF d(1)] d(2) by (simp add: is_link_def)
  have o: "fs_open (w_fs w) (d @ [?n]) = Inr i" by (rule open_file [OF d(1,2)])
  have r: "read_ranges x (d @ [blocks_name ?n]) w = (Inr (snd s), w)"
    by (rule read_ranges_at [OF x d(1,3)])
  show ?thesis
    by (simp add: write_stream_session_def Let_def sm_bind_def open_path_at [OF t] fs_query_def e o r
        sm_ret_def session_sink_def)
qed

lemma open_session_fresh:
  assumes t: "target_at st (w_fs w) p d t"
    and m: "mode = WM_Overwrite \<or> mode = WM_Create \<and> fs_node (w_fs w) (d @ [t]) = None"
    and n: "fs_node (w_fs w) (d @ [sess_name t session owner]) = None"
    and fb: "free_name (w_fs w) (d @ [blocks_name (sess_name t session owner)])"
    and ft: "free_name (w_fs w) (d @ [blocks_tmp_name (sess_name t session owner)])"
  shows "\<exists>sk fs2. write_stream_session x st p session owner mode w = (Inr sk, w\<lparr> w_fs := fs2 \<rparr>) \<and>
    session_at x fs2 d (sess_name t session owner) (sk_ino sk) ([], []) \<and>
    session_sink d (sess_name t session owner) (sk_ino sk) sk \<and> sk_ranges sk = [] \<and>
    sk_target sk = d @ [t] \<and> sk_rel sk = p \<and> sk_mode sk = mode \<and>
    same_outside (w_fs w) fs2 (session_names d (sess_name t session owner))"
proof -
  let ?n = "sess_name t session owner"
  let ?b = "d @ [blocks_name ?n]" and ?fs = "w_fs w"
  let ?fs1 = "snd (new_file ?fs (d @ [?n]))"
  have d: "dir_ok ?fs d" "fs_wf ?fs" using t by (auto simp: target_at_def)
  have e: "fs_try_exists ?fs (d @ [?n]) = Inr False"
    using exists_in_dir [OF d(1)] n by (simp add: is_link_def)
  have et: "mode = WM_Create \<Longrightarrow> fs_try_exists ?fs (d @ [t]) = Inr False"
    using exists_in_dir [OF d(1), of t] m t free_not_dir by (auto simp: target_at_def)
  have c: "fs_create_new ?fs (d @ [?n]) = Inr (fs_next ?fs, ?fs1)"
    using create_new_none [OF d(1) n] by (metis new_file_fields(1) prod.collapse)
  have d1: "dir_ok ?fs1 d" "fs_wf ?fs1" using d by (simp_all add: dir_ok_new_file fs_wf_new_file)
  let ?fs2 = "if fs_node ?fs ?b = None then ?fs1 else del_node ?fs1 ?b"
  have nb: "fs_node ?fs1 ?b = fs_node ?fs ?b" by (simp add: new_file_node)
  have rem: "fs_attempt (\<lambda>fs. fs_remove_file fs ?b) (w\<lparr> w_fs := ?fs1 \<rparr>) = (Inr (), w\<lparr> w_fs := ?fs2 \<rparr>)"
  proof (cases "fs_node ?fs ?b")
    case None
    with nb remove_none [OF d1(1), of "blocks_name ?n"] show ?thesis by (simp add: sm_simps)
  next
    case (Some nd)
    with fb obtain k where "fs_node ?fs1 ?b = Some (NFile k)" using nb by (auto simp: free_name_def)
    with remove_file [OF d1(1)] Some show ?thesis by (simp add: sm_simps)
  qed
  let ?sk = "\<lparr> sk_ino = fs_next ?fs, sk_append = False, sk_pos = 0, sk_tmp = Some (d @ [?n]),
      sk_target = d @ [t], sk_rel = p, sk_mode = mode, sk_written = 0, sk_blocks = Some ?b,
      sk_ranges = [] \<rparr>"
  have "write_stream_session x st p session owner mode w = (Inr ?sk, w\<lparr> w_fs := ?fs2 \<rparr>)"
    using m e et c rem
    by (auto simp: write_stream_session_def Let_def sm_bind_def open_path_at [OF t] fs_query_def
        sm_ret_def fs_step_def split: write_mode.splits)
  moreover have "session_at x ?fs2 d ?n (fs_next ?fs) ([], [])"
  proof -
    have "fs_wf ?fs2" "dir_ok ?fs2 d" using d1 by (simp_all add: fs_wf_del)
    moreover have "fs_node ?fs2 (d @ [?n]) = Some (NFile (fs_next ?fs))"
      by (simp add: fs_node_del new_file_node)
    moreover have "fs_data ?fs2 (fs_next ?fs) = []" by simp
    moreover have "fs_node ?fs2 ?b = None" by (simp add: fs_node_del nb)
    moreover have "free_name ?fs2 (d @ [blocks_tmp_name ?n])"
      using ft by (auto simp: free_name_def fs_node_del new_file_node)
    ultimately show ?thesis by (simp add: session_at_def sidecar_at_def)
  qed
  moreover have "same_outside ?fs ?fs2 (session_names d ?n)"
    using d(2) by (auto simp: same_outside_def session_names_def new_file_node fs_node_del fs_wf_def)
  ultimately show ?thesis by (intro exI [of _ ?sk] exI [of _ ?fs2]) (simp add: session_sink_def)
qed

subsection \<open>Commit and abort\<close>

lemma remove_free:
  assumes "dir_ok (w_fs w) d" and "free_name (w_fs w) (d @ [b])"
  shows "\<exists>fs2. fs_attempt (\<lambda>fs. fs_remove_file fs (d @ [b])) w = (Inr (), w\<lparr> w_fs := fs2 \<rparr>) \<and>
    (\<forall>p. fs_node fs2 p = (if p = d @ [b] then None else fs_node (w_fs w) p)) \<and>
    fs_data fs2 = fs_data (w_fs w) \<and> fs_mtime fs2 = fs_mtime (w_fs w) \<and>
    fs_next fs2 = fs_next (w_fs w) \<and> fs_now fs2 = fs_now (w_fs w)"
proof (cases "fs_node (w_fs w) (d @ [b])")
  case None
  with remove_none [OF assms(1)] show ?thesis by (intro exI [of _ "w_fs w"]) (auto simp: sm_simps)
next
  case (Some nd)
  with assms(2) obtain k where "fs_node (w_fs w) (d @ [b]) = Some (NFile k)" by (auto simp: free_name_def)
  with remove_file [OF assms(1)] show ?thesis
    by (intro exI [of _ "del_node (w_fs w) (d @ [b])"]) (auto simp: sm_simps fs_node_del)
qed

lemma commit_session:
  assumes s: "session_at x (w_fs w) d n i s" and k: "session_sink d n i sk"
    and tg: "sk_target sk = d @ [t]" "free_name (w_fs w) (d @ [t])" "d @ [t] \<notin> session_names d n"
    and m: "sk_mode sk = WM_Create \<Longrightarrow> fs_node (w_fs w) (d @ [t]) = None"
  shows "\<exists>meta fs2. sink_commit x sk w = (Inr meta, w\<lparr> w_fs := fs2 \<rparr>) \<and>
    fs_node fs2 (d @ [t]) = Some (NFile i) \<and> fs_data fs2 i = fst s \<and>
    fm_path meta = sk_rel sk \<and> fm_size meta = length (fst s) \<and>
    fs_node fs2 (d @ [n]) = None \<and> fs_node fs2 (d @ [blocks_name n]) = None \<and>
    same_outside (w_fs w) fs2 (insert (d @ [t]) (session_names d n)) \<and>
    fs_wf fs2 \<and> dir_ok fs2 d \<and> fs_node fs2 (d @ [blocks_tmp_name n]) = fs_node (w_fs w) (d @ [blocks_tmp_name n])"
proof -
  let ?b = "d @ [blocks_name n]" and ?fs = "w_fs w"
  have d: "dir_ok ?fs d" "fs_wf ?fs" "fs_node ?fs (d @ [n]) = Some (NFile i)" "fs_data ?fs i = fst s"
    "free_name ?fs ?b"
    using s sidecar_free by (auto simp: session_at_def)
  obtain fs1 where r: "fs_attempt (\<lambda>fs. fs_remove_file fs ?b) w = (Inr (), w\<lparr> w_fs := fs1 \<rparr>)"
    "\<And>p. fs_node fs1 p = (if p = ?b then None else fs_node ?fs p)" "fs_data fs1 = fs_data ?fs"
    "fs_mtime fs1 = fs_mtime ?fs" "fs_now fs1 = fs_now ?fs" "fs_next fs1 = fs_next ?fs"
    using remove_free [OF d(1,5)] by auto
  have ne: "t \<noteq> n" "t \<noteq> blocks_name n" "t \<noteq> blocks_tmp_name n" using tg(3) by (auto simp: session_names_def)
  have d1: "dir_ok fs1 d" using d(1) by (rule dir_ok_cong) (simp add: r(2) prefix_neq_snoc)
  have n1: "fs_node fs1 (d @ [n]) = Some (NFile i)" using d(3) by (simp add: r(2))
  have t1: "fs_node fs1 (d @ [t]) = fs_node ?fs (d @ [t])" using ne by (simp add: r(2))
  then have ft: "\<not> is_dir fs1 (d @ [t])" "\<not> is_link fs1 (d @ [t])"
    using free_not_dir [OF tg(2)] by (simp_all add: is_dir_def is_link_def)
  let ?fs2 = "set_node (del_node fs1 (d @ [n])) (d @ [t]) (NFile i)"
  have rn: "fs_rename fs1 (d @ [n]) (d @ [t]) = Inr ?fs2"
    using n1 ne(1) ft(1) by (intro rename_file [OF d1]) auto
  have ex: "sk_mode sk = WM_Create \<Longrightarrow> fs_try_exists fs1 (d @ [t]) = Inr False"
    using exists_in_dir [OF d1 ft(2)] m t1 by simp
  have "dir_ok ?fs2 d" using d1 by simp
  then have st: "fs_stat ?fs2 True (d @ [t]) = Inr (NFile i)"
    by (subst stat_in_dir(2)) (simp_all add: fs_node_set is_link_def)
  have "sink_commit x sk w = (Inr (file_meta_at x (sk_rel sk) ?fs2 (NFile i)), w\<lparr> w_fs := ?fs2 \<rparr>)"
    using k tg(1) r(1) rn ex st
    by (auto simp: sink_commit_def session_sink_def remove_blocks_sidecar_def sm_bind_def sm_ret_def
        fs_query_def fs_step_def)
  moreover have "same_outside ?fs ?fs2 (insert (d @ [t]) (session_names d n))"
    using r(3,5) by (auto simp: same_outside_def session_names_def fs_node_set fs_node_del r(2))
  moreover have "fs_node ?fs2 (d @ [n]) = None" "fs_node ?fs2 ?b = None"
    using ne by (auto simp: fs_node_set fs_node_del r(2))
  moreover have "fs_node ?fs2 (d @ [t]) = Some (NFile i)" by (simp add: fs_node_set)
  moreover have "fs_data ?fs2 i = fst s" using d(4) r(3) by simp
  moreover have "fs_wf ?fs2"
    using d(2,3) by (auto simp: fs_wf_def fs_node_set fs_node_del r(2,6) split: if_splits)
  moreover have "fs_node ?fs2 (d @ [blocks_tmp_name n]) = fs_node ?fs (d @ [blocks_tmp_name n])"
    using ne by (auto simp: fs_node_set fs_node_del r(2))
  ultimately show ?thesis
    using \<open>dir_ok ?fs2 d\<close> by (intro exI conjI) (assumption | simp add: file_meta_at_def Let_def meta_len_def fs_len_def)+
qed

lemma abort_session:
  assumes s: "session_at x (w_fs w) d n i s" and k: "session_sink d n i sk"
  shows "\<exists>fs2. sink_abort sk w = (Inr (), w\<lparr> w_fs := fs2 \<rparr>) \<and> fs_wf fs2 \<and> dir_ok fs2 d \<and>
    fs_node fs2 (d @ [n]) = None \<and> fs_node fs2 (d @ [blocks_name n]) = None \<and>
    same_outside (w_fs w) fs2 (session_names d n) \<and>
    fs_node fs2 (d @ [blocks_tmp_name n]) = fs_node (w_fs w) (d @ [blocks_tmp_name n])"
proof -
  let ?b = "d @ [blocks_name n]" and ?fs = "w_fs w"
  have d: "dir_ok ?fs d" "fs_wf ?fs" "fs_node ?fs (d @ [n]) = Some (NFile i)" "free_name ?fs ?b"
    using s sidecar_free by (auto simp: session_at_def)
  have fn: "free_name ?fs (d @ [n])" using d(3) by (simp add: free_name_def)
  obtain fs1 where r1: "fs_attempt (\<lambda>fs. fs_remove_file fs (d @ [n])) w = (Inr (), w\<lparr> w_fs := fs1 \<rparr>)"
    "\<And>p. fs_node fs1 p = (if p = d @ [n] then None else fs_node ?fs p)" "fs_data fs1 = fs_data ?fs"
    "fs_next fs1 = fs_next ?fs" "fs_now fs1 = fs_now ?fs"
    using remove_free [OF d(1) fn] by auto
  have d1: "dir_ok (w_fs (w\<lparr> w_fs := fs1 \<rparr>)) d"
    using dir_ok_cong [OF d(1), of fs1] by (simp add: r1(2) prefix_neq_snoc)
  have f1: "free_name (w_fs (w\<lparr> w_fs := fs1 \<rparr>)) ?b"
    using d(4) by (simp add: free_name_def r1(2))
  obtain fs2 where r2: "fs_attempt (\<lambda>fs. fs_remove_file fs ?b) (w\<lparr> w_fs := fs1 \<rparr>) = (Inr (), w\<lparr> w_fs := fs2 \<rparr>)"
    "\<And>p. fs_node fs2 p = (if p = ?b then None else fs_node fs1 p)" "fs_data fs2 = fs_data fs1"
    "fs_next fs2 = fs_next fs1" "fs_now fs2 = fs_now fs1"
    using remove_free [OF d1 f1] by auto
  have "sink_abort sk w = (Inr (), w\<lparr> w_fs := fs2 \<rparr>)"
    using k r1(1) r2(1) by (simp add: sink_abort_def session_sink_def remove_blocks_sidecar_def sm_bind_def)
  moreover have "dir_ok fs2 d" using d(1) by (rule dir_ok_cong) (simp add: r1(2) r2(2) prefix_neq_snoc)
  moreover have "fs_wf fs2"
    using d(2) unfolding fs_wf_def r2(2,4) r1(2,4) by (auto split: if_splits)
  moreover have "same_outside ?fs fs2 (session_names d n)"
    by (auto simp: same_outside_def session_names_def r1 r2)
  ultimately show ?thesis by (intro exI [of _ fs2]) (simp add: r1(2) r2(2))
qed

end
