(* ===== verification/Api.thy ===== *)
theory Api
  imports Server_State Storage_Props
begin

text \<open>
  The error type of the handlers and its conversion to responses (libfw-server, \<open>handlers.rs\<close>), with
  the messages of the error types it wraps, and the handler monad: a handler reads and changes the
  world and ends with a result or an \<open>ApiError\<close>.
\<close>

subsection \<open>Errors\<close>

datatype api_error =
    Bad_Request string
  | Not_Found string
  | Conflict_Error string
  | Payload_Too_Large nat
  | Range_Malformed
  | Range_Unsatisfiable nat
  | Not_Modified
  | Api_Auth auth_rejection
  | Api_Storage storage_error
  | Api_Io io_error

definition quote_char :: char where "quote_char = CHR 0x60"

text \<open>The \<open>Display\<close> texts, from the \<open>#[error(..)]\<close> attributes.\<close>

fun path_codec_error_display :: "path_codec_error \<Rightarrow> string" where
  "path_codec_error_display (UnknownVersion v) =
     ''unknown shadow path version '' @ [quote_char] @ v @ [quote_char]"
| "path_codec_error_display (InvalidShadow m) = ''invalid shadow path: '' @ m"
| "path_codec_error_display (Unmapped s) =
     ''shadow path does not match any configured mapping: '' @ [quote_char] @ s @ [quote_char]"
| "path_codec_error_display (RngUnavailable m) = ''path encryption unavailable: '' @ m"

fun auth_error_display :: "auth_error \<Rightarrow> string" where
  "auth_error_display MissingToken = ''missing or malformed bearer token''"
| "auth_error_display (Invalid m) = ''invalid token: '' @ m"
| "auth_error_display Expired = ''token expired''"
| "auth_error_display (Forbidden p a) =
     ''permission denied: '' @ action_display a @ '' on '' @ [quote_char] @ p @ [quote_char]"

fun storage_error_display :: "storage_error \<Rightarrow> string" where
  "storage_error_display (St_NotFound p) = ''path not found: '' @ p"
| "storage_error_display (St_AlreadyExists p) = ''path already exists: '' @ p"
| "storage_error_display (St_TooLarge n) = ''file too large: '' @ show_nat n"
| "storage_error_display (WriteFailed off e) =
     ''write failed at offset '' @ show_nat off @ '': '' @ io_msg e"
| "storage_error_display (Unsupported m) = ''operation not supported: '' @ m"
| "storage_error_display (St_Other e) = ''storage error: '' @ io_msg e"

text \<open>
  The text of a metadata error.  A header read with \<open>to_str\<close> has ASCII characters only, and the
  \<open>Debug\<close> form of one is the quoted character with the quote and the backslash escaped.
\<close>

definition char_debug :: "char \<Rightarrow> string" where
  "char_debug c =
     [CHR 0x27] @ (if c = CHR 0x27 \<or> c = CHR 0x5C then [CHR 0x5C, c] else [c]) @ [CHR 0x27]"

fun meta_error_display :: "string meta_error \<Rightarrow> string" where
  "meta_error_display (Meta_json m) = m"
| "meta_error_display (Meta_io (Invalid_b64_character c)) = ''invalid base64 character: '' @ char_debug c"

definition text_response :: "nat \<Rightarrow> string \<Rightarrow> response" where
  "text_response status msg = \<lparr> rs_status = status, rs_headers = [], rs_body = Text_body msg \<rparr>"

definition json_response :: "nat \<Rightarrow> json \<Rightarrow> response" where
  "json_response status j = \<lparr> rs_status = status, rs_headers = [], rs_body = Json_body j \<rparr>"

fun api_error_response :: "api_error \<Rightarrow> response" where
  "api_error_response (Api_Auth rej) = auth_rejection_response rej"
| "api_error_response (Range_Unsatisfiable tot) =
     \<lparr> rs_status = 416, rs_headers = [(''content-range'', content_range_none_value tot)],
       rs_body = Empty_body \<rparr>"
| "api_error_response Not_Modified = \<lparr> rs_status = 304, rs_headers = [], rs_body = Empty_body \<rparr>"
| "api_error_response (Api_Storage (St_NotFound p)) = text_response 404 p"
| "api_error_response (Api_Storage (St_AlreadyExists p)) = text_response 409 p"
| "api_error_response (Api_Storage (St_TooLarge n)) = text_response 413 ''upload exceeds configured limit''"
| "api_error_response (Api_Storage (WriteFailed off e)) =
     text_response 412 ''resume offset mismatch; reset client state''"
| "api_error_response (Api_Storage (Unsupported msg)) = text_response 400 msg"
| "api_error_response (Bad_Request msg) = text_response 400 msg"
| "api_error_response (Not_Found msg) = text_response 404 msg"
| "api_error_response (Conflict_Error msg) = text_response 409 msg"
| "api_error_response (Payload_Too_Large limit) =
     text_response 413 (''upload exceeds limit of '' @ show_nat limit @ '' bytes'')"
| "api_error_response Range_Malformed = text_response 400 ''malformed range header''"
| "api_error_response (Api_Storage (St_Other e)) =
     text_response 500 (storage_error_display (St_Other e))"
| "api_error_response (Api_Io e) = text_response 500 (io_msg e)"

fun authorize_request_error :: "auth_error \<Rightarrow> api_error" where
  "authorize_request_error (Forbidden p a) = Api_Auth (Rej_Forbidden p (action_display a))"
| "authorize_request_error e = Api_Auth (Unauthorized (auth_error_display e))"

fun resolve_error :: "path_resolve_error \<Rightarrow> api_error" where
  "resolve_error (PR_Invalid msg) = Bad_Request msg"
| "resolve_error (PR_Codec e) = Bad_Request (path_codec_error_display e)"
| "resolve_error (PR_Auth auth) = authorize_request_error auth"

subsection \<open>Handlers\<close>

type_synonym 'a api = "world \<Rightarrow> (api_error + 'a) \<times> world"

definition am_ret :: "'a \<Rightarrow> 'a api" where
  "am_ret x = (\<lambda>w. (Inr x, w))"

definition am_bind :: "'a api \<Rightarrow> ('a \<Rightarrow> 'b api) \<Rightarrow> 'b api" where
  "am_bind m f = (\<lambda>w. case m w of (Inl e, w2) \<Rightarrow> (Inl e, w2) | (Inr x, w2) \<Rightarrow> f x w2)"

definition am_lift :: "api_error + 'a \<Rightarrow> 'a api" where
  "am_lift r = (\<lambda>w. (r, w))"

text \<open>A storage operation; its error becomes \<open>ApiError::Storage\<close>.\<close>

definition am_st :: "'a stm \<Rightarrow> 'a api" where
  "am_st m = (\<lambda>w. case m w of (r, w2) \<Rightarrow> (map_err Api_Storage r, w2))"

named_theorems am_simps \<open>unfolding of the handler monad\<close>

declare am_ret_def [am_simps] am_bind_def [am_simps] am_lift_def [am_simps] am_st_def [am_simps]

lemma am_bind_Inr:
  "am_bind m f w = (Inr y, w3) \<longleftrightarrow> (\<exists>x w2. m w = (Inr x, w2) \<and> f x w2 = (Inr y, w3))"
  by (auto simp: am_bind_def split: prod.splits sum.splits)

lemma am_lift_Inr: "am_lift r w = (Inr x, w2) \<longleftrightarrow> r = Inr x \<and> w2 = w"
  by (auto simp: am_lift_def)

lemma am_ret_Inr: "am_ret x w = (Inr y, w2) \<longleftrightarrow> y = x \<and> w2 = w"
  by (auto simp: am_ret_def)

lemma am_st_Inr: "am_st m w = (Inr x, w2) \<longleftrightarrow> m w = (Inr x, w2)"
  by (auto simp: am_st_def split: prod.splits)

lemmas am_elims = am_bind_Inr am_lift_Inr am_ret_Inr am_st_Inr

text \<open>The JSON of the payload types.\<close>

definition file_meta_json :: "file_meta \<Rightarrow> json" where
  "file_meta_json m =
     JObj [(''path'', JStr (fm_path m)), (''size'', JNum (int (fm_size m))),
           (''mtime'', JNum (int (fm_mtime m))), (''etag'', JStr (fm_etag m))]"

definition dir_entry_json :: "dir_entry \<Rightarrow> json" where
  "dir_entry_json e =
     JObj [(''path'', JStr (de_path e)), (''is_dir'', JBool (de_is_dir e)),
           (''size'', JNum (int (de_size e))), (''mtime'', JNum (int (de_mtime e)))]"

text \<open>The response of a handler's result.\<close>

definition into_response :: "api_error + response \<Rightarrow> response" where
  "into_response r = (case r of Inl e \<Rightarrow> api_error_response e | Inr resp \<Rightarrow> resp)"

end
