(* ===== verification/Upload.thy ===== *)
theory Upload
  imports Api
begin

text \<open>
  Uploads and listings (libfw-server, \<open>handlers.rs\<close>): the bounded batch writers, the loop that feeds
  the body through the decompressor into a sink, the session protocol, the plain protocol, and the
  directory listing.  A request body is the list of its frames; it ends in an error frame when the
  client disconnects.
\<close>

subsection \<open>Batches\<close>

text \<open>The local state of an upload: the sink, the decompressor, the bytes counted, the disconnect flag.\<close>

record upload_state =
  us_sink :: fs_sink
  us_decomp :: decompressor
  us_done :: nat
  us_gone :: bool

type_synonym writer = "bytes \<Rightarrow> upload_state \<Rightarrow> world \<Rightarrow> (api_error + unit) \<times> upload_state \<times> world"

definition over_declared :: api_error where
  "over_declared = Bad_Request ''uploaded bytes exceed the declared file size''"

definition write_batch :: "server_state \<Rightarrow> nat \<Rightarrow> nat \<Rightarrow> writer" where
  "write_batch sv resume_offset meta_size data us w =
     (let us = us\<lparr> us_done := sat_add (us_done us) (length data) \<rparr>;
          tot = sat_add resume_offset (us_done us) in
      if sv_max_upload_size sv < tot then (Inl (Payload_Too_Large (sv_max_upload_size sv)), us, w)
      else if meta_size < tot then (Inl over_declared, us, w)
      else case sink_write (us_sink us) data w of
             (Inl e, w2) \<Rightarrow> (Inl (Api_Storage e), us, w2)
           | (Inr sk, w2) \<Rightarrow> (Inr (), us\<lparr> us_sink := sk \<rparr>, w2))"

definition write_at_batch :: "externals \<Rightarrow> server_state \<Rightarrow> nat \<Rightarrow> nat \<Rightarrow> writer" where
  "write_at_batch x sv base_offset meta_size data us w =
     (let absolute = sat_add base_offset (us_done us); end_pos = sat_add absolute (length data) in
      if sv_max_upload_size sv < end_pos then (Inl (Payload_Too_Large (sv_max_upload_size sv)), us, w)
      else if meta_size < end_pos then (Inl over_declared, us, w)
      else case sink_write_at x (us_sink us) absolute data w of
             (Inl e, w2) \<Rightarrow> (Inl (Api_Storage e), us, w2)
           | (Inr sk, w2) \<Rightarrow>
               (Inr (), us\<lparr> us_sink := sk, us_done := sat_add (us_done us) (length data) \<rparr>, w2))"

text \<open>The receiving loop of both protocols, with its final flush.\<close>

fun recv_loop ::
  "'e zrip \<Rightarrow> writer \<Rightarrow> body \<Rightarrow> upload_state \<Rightarrow> world \<Rightarrow> (api_error + unit) \<times> upload_state \<times> world" where
  "recv_loop z wr [] us w =
     (case decompress_finish z (us_decomp us) of
        Inl e \<Rightarrow> (Inl (Bad_Request (''compressed stream truncated: '' @ decompress_error_display e)), us, w)
      | Inr (out, d) \<Rightarrow>
          if out = [] then (Inr (), us\<lparr> us_decomp := d \<rparr>, w)
          else wr out (us\<lparr> us_decomp := d \<rparr>) w)"
| "recv_loop z wr (Body_err e # evs) us w =
     (Inl (Api_Io (Io_error Io_Other e)), us\<lparr> us_gone := True \<rparr>, w)"
| "recv_loop z wr (Chunk c # evs) us w =
     (case decompress z (us_decomp us) c of
        Inl e \<Rightarrow> (Inl (Bad_Request (''compressed stream invalid: '' @ decompress_error_display e)), us, w)
      | Inr (data, d) \<Rightarrow>
          if data = [] then recv_loop z wr evs (us\<lparr> us_decomp := d \<rparr>) w
          else case wr data (us\<lparr> us_decomp := d \<rparr>) w of
                 (Inl e, us2, w2) \<Rightarrow> (Inl e, us2, w2)
               | (Inr _, us2, w2) \<Rightarrow> recv_loop z wr evs us2 w2)"

definition upload_start :: "fs_sink \<Rightarrow> compression_format \<Rightarrow> upload_state" where
  "upload_start sk format =
     \<lparr> us_sink = sk, us_decomp = decompressor_with_limit format max_output_per_call,
       us_done = 0, us_gone = False \<rparr>"

definition owner_tag :: "externals \<Rightarrow> string \<Rightarrow> string" where
  "owner_tag x sub =
     concat (map (\<lambda>b. [hex_table ! unat (drop_bit 4 b), hex_table ! unat (b AND 0x0F)])
       (take 8 (x_sha x (as_bytes sub))))"

subsection \<open>Headers\<close>

definition header_flag :: "headers \<Rightarrow> string \<Rightarrow> bool" where
  "header_flag hs name =
     (case header_get hs name of
        None \<Rightarrow> False
      | Some v \<Rightarrow> str_trim v = ''1'' \<or> eq_ignore_ascii_case (str_trim v) ''true'')"

definition status_probe :: "headers \<Rightarrow> bool" where
  "status_probe hs =
     (case header_get hs ''x-libfw-session-status'' of
        None \<Rightarrow> False
      | Some v0 \<Rightarrow> let v = str_trim v0 in
          v = ''1'' \<or> eq_ignore_ascii_case v ''true'' \<or> eq_ignore_ascii_case v ''probe'')"

definition bad_offset :: api_error where
  "bad_offset = Bad_Request (''invalid '' @ [quote_char] @ ''x-libfw-offset'' @ [quote_char])"

definition offset_header :: "headers \<Rightarrow> string option" where
  "offset_header hs = header_get hs ''x-libfw-offset''"

definition upload_ok :: "file_meta \<Rightarrow> response" where
  "upload_ok m = json_response 201 (JObj [(''file'', file_meta_json m)])"

definition session_status :: "chunk_range list \<Rightarrow> response" where
  "session_status rs =
     json_response 200 (JObj [(''ranges'',
       JArr (map (\<lambda>r. JArr [JNum (int (c_start r)), JNum (int (c_end r))]) rs))])"

subsection \<open>The session protocol\<close>

definition session_base :: "headers \<Rightarrow> api_error + nat" where
  "session_base hs =
     (case offset_header hs of
        None \<Rightarrow> Inr 0
      | Some off \<Rightarrow> ok_or bad_offset (u64_from_str (str_trim off)))"

text \<open>Dropping the sink in an abort ignores its error.\<close>

definition abort_with :: "fs_sink \<Rightarrow> api_error \<Rightarrow> 'a api" where
  "abort_with sk e = (\<lambda>w. (Inl e, snd (sink_abort sk w)))"

definition session_commit ::
  "externals \<Rightarrow> server_state \<Rightarrow> bytes \<Rightarrow> file_meta \<Rightarrow> fs_sink \<Rightarrow> response api" where
  "session_commit x sv rnd meta sk =
     am_bind (am_st (sink_len sk)) (\<lambda>len.
     if len \<noteq> fm_size meta
     then abort_with sk (Bad_Request (''commit yields '' @ show_nat len @
            '' bytes but the declared file size is '' @ show_nat (fm_size meta)))
     else am_bind (am_st (sink_received_ranges sk)) (\<lambda>received.
     let covered = sum_list (map (\<lambda>r. c_end r - c_start r) received) in
     if received \<noteq> [] \<and> covered \<noteq> fm_size meta
     then abort_with sk (Bad_Request (''commit covers '' @ show_nat covered @
            '' bytes but the declared file size is '' @ show_nat (fm_size meta) @
            ''; some blocks are missing''))
     else am_bind (am_st (sink_commit x sk)) (\<lambda>committed.
       am_ret (upload_ok (committed\<lparr> fm_path := expose_path sv rnd (fm_path committed) \<rparr>)))))"

definition upload_session ::
  "'e zrip \<Rightarrow> externals \<Rightarrow> server_state \<Rightarrow> bytes \<Rightarrow> string \<Rightarrow> string \<Rightarrow> token_claims \<Rightarrow> file_meta \<Rightarrow>
   compression_format \<Rightarrow> bool \<Rightarrow> headers \<Rightarrow> body \<Rightarrow> response api" where
  "upload_session z x sv rnd path session claims meta format final_chunk hs body =
     am_bind (am_lift (session_base hs)) (\<lambda>base_offset.
     let create_mode = (if offset_header hs = None then WM_Create else WM_Overwrite);
         owner = owner_tag x (tc_sub claims) in
     am_bind (am_st (write_stream_session x (sv_storage sv) path session owner create_mode)) (\<lambda>sink.
     if status_probe hs
     then am_bind (am_st (sink_received_ranges sink)) (\<lambda>ranges. am_ret (session_status ranges))
     else (\<lambda>w.
       case recv_loop z (write_at_batch x sv base_offset (fm_size meta)) body (upload_start sink format) w of
         (Inl e, us, w2) \<Rightarrow>
           if us_gone us then (Inl e, w2) else abort_with (us_sink us) e w2
       | (Inr _, us, w2) \<Rightarrow>
           if final_chunk then session_commit x sv rnd meta (us_sink us) w2
           else (Inr (upload_ok meta), w2))))"

subsection \<open>The plain protocol\<close>

definition plain_mode :: "headers \<Rightarrow> api_error + write_mode" where
  "plain_mode hs =
     (case offset_header hs of
        None \<Rightarrow> Inr WM_Create
      | Some off \<Rightarrow>
          (case u64_from_str (str_trim off) of
             Some 0 \<Rightarrow> Inr WM_Overwrite
           | Some n \<Rightarrow> Inr (WM_Resume n)
           | None \<Rightarrow> Inl bad_offset))"

definition resume_offset_of :: "write_mode \<Rightarrow> nat" where
  "resume_offset_of mode = (case mode of WM_Resume off \<Rightarrow> off | _ \<Rightarrow> 0)"

definition upload_plain ::
  "'e zrip \<Rightarrow> externals \<Rightarrow> server_state \<Rightarrow> bytes \<Rightarrow> string \<Rightarrow> file_meta \<Rightarrow> compression_format \<Rightarrow> bool \<Rightarrow>
   headers \<Rightarrow> body \<Rightarrow> response api" where
  "upload_plain z x sv rnd path meta format final_chunk hs body =
     am_bind (am_lift (plain_mode hs)) (\<lambda>mode.
     let resume_offset = resume_offset_of mode in
     am_bind (am_st (write_stream (sv_storage sv) path mode)) (\<lambda>sink. \<lambda>w.
       case recv_loop z (write_batch sv resume_offset (fm_size meta)) body (upload_start sink format) w of
         (Inl e, us, w2) \<Rightarrow> abort_with (us_sink us) e w2
       | (Inr _, us, w2) \<Rightarrow>
           (let final_size = sat_add resume_offset (us_done us) in
            if final_chunk \<and> final_size \<noteq> fm_size meta
            then abort_with (us_sink us) (Bad_Request (''final chunk yields '' @ show_nat final_size @
                   '' bytes but the declared file size is '' @ show_nat (fm_size meta))) w2
            else am_bind (am_st (sink_commit x (us_sink us))) (\<lambda>committed.
              am_ret (upload_ok (committed\<lparr> fm_path := expose_path sv rnd (fm_path committed) \<rparr>))) w2)))"

subsection \<open>The handlers\<close>

definition upload_meta :: "externals \<Rightarrow> headers \<Rightarrow> api_error + file_meta" where
  "upload_meta x hs =
     res_bind (ok_or (Bad_Request (''missing '' @ [quote_char] @ ''x-libfw-file-meta'' @ [quote_char] @ '' header''))
        (header_get hs ''x-libfw-file-meta'')) (\<lambda>h.
     map_err (\<lambda>e. Bad_Request (''invalid file meta: '' @ meta_error_display e))
       (decode_file_meta_header (x_de_meta x) h))"

definition upload_format :: "headers \<Rightarrow> compression_format" where
  "upload_format hs =
     (case Option.bind (header_get hs ''x-libfw-compress'') parse_format_header of
        None \<Rightarrow> Fmt_None | Some f \<Rightarrow> f)"

definition session_header :: "headers \<Rightarrow> string option" where
  "session_header hs =
     (case header_get hs ''x-libfw-session'' of
        None \<Rightarrow> None
      | Some v \<Rightarrow> if str_trim v = [] then None else Some (str_trim v))"

definition upload ::
  "'e zrip \<Rightarrow> externals \<Rightarrow> bytes \<Rightarrow> server_state \<Rightarrow> int \<Rightarrow> string \<Rightarrow> token_claims \<Rightarrow> headers \<Rightarrow> body \<Rightarrow>
   response api" where
  "upload z x rnd sv now path0 claims hs body =
     am_bind (am_lift (map_err resolve_error (resolve_client_path sv now claims path0 Act_Write))) (\<lambda>path.
     am_bind (am_lift (upload_meta x hs)) (\<lambda>meta.
     if sv_max_upload_size sv < fm_size meta
     then am_lift (Inl (Payload_Too_Large (sv_max_upload_size sv)))
     else let format = upload_format hs; final_chunk = header_flag hs ''x-libfw-final'' in
       (case session_header hs of
          Some session \<Rightarrow>
            upload_session z x sv rnd path session claims meta format final_chunk hs body
        | None \<Rightarrow> upload_plain z x sv rnd path meta format final_chunk hs body)))"

text \<open>\<open>rnds i\<close> is the random material of the \<open>i\<close>-th exposed entry.\<close>

definition list_dir_impl ::
  "(nat \<Rightarrow> bytes) \<Rightarrow> server_state \<Rightarrow> int \<Rightarrow> token_claims \<Rightarrow> string \<Rightarrow> response api" where
  "list_dir_impl rnds sv now claims path0 =
     am_bind (am_lift (map_err resolve_error (resolve_client_path sv now claims path0 Act_Read))) (\<lambda>path.
     am_bind (am_st (st_list_dir (sv_storage sv) path)) (\<lambda>entries.
     am_ret (json_response 200 (JArr (map2
       (\<lambda>i e. dir_entry_json (e\<lparr> de_path := expose_path sv (rnds i) (de_path e) \<rparr>))
       [0..<length entries] entries)))))"

definition list_dir ::
  "(nat \<Rightarrow> bytes) \<Rightarrow> server_state \<Rightarrow> int \<Rightarrow> string \<Rightarrow> token_claims \<Rightarrow> response api" where
  "list_dir rnds sv now path claims = list_dir_impl rnds sv now claims path"

definition list_dir_root :: "(nat \<Rightarrow> bytes) \<Rightarrow> server_state \<Rightarrow> int \<Rightarrow> token_claims \<Rightarrow> response api" where
  "list_dir_root rnds sv now claims = list_dir_impl rnds sv now claims []"

end
