(* ===== verification/Download.thy ===== *)
theory Download
  imports Api
begin

text \<open>
  Downloads (libfw-server, \<open>handlers.rs\<close>): negotiation of format and level, the download plan, the
  body stream and the GET and HEAD handlers.  The server-side stream runs to its end in the model:
  a body is the list of its frames.  How many bytes each read of the file returns is a parameter.
\<close>

subsection \<open>Numbers in headers\<close>

text \<open>\<open>i32::from_str\<close>.\<close>

fun digits_value :: "nat \<Rightarrow> string \<Rightarrow> nat option" where
  "digits_value acc [] = Some acc"
| "digits_value acc (c # cs) =
     (case char_digit c of None \<Rightarrow> None | Some d \<Rightarrow> digits_value (acc * 10 + d) cs)"

definition i32_from_str :: "string \<Rightarrow> int option" where
  "i32_from_str s =
     (let (neg, ds) = (case s of [] \<Rightarrow> (False, [])
                       | c # cs \<Rightarrow> if c = CHR ''-'' then (True, cs)
                                  else if c = CHR ''+'' then (False, cs) else (False, s)) in
      if ds = [] then None
      else Option.bind (digits_value 0 ds) (\<lambda>n.
        let v = (if neg then - int n else int n) in
        if - (2 ^ 31) \<le> v \<and> v < 2 ^ 31 then Some v else None))"

text \<open>
  \<open>f64::from_str\<close> as far as the comparison with zero needs it: the sign, and a decimal
  mantissa and exponent, or one of the named values.
\<close>

datatype f64_value = F_NaN | F_Inf bool | F_Dec bool nat int

definition is_digit :: "char \<Rightarrow> bool" where
  "is_digit c \<longleftrightarrow> char_digit c \<noteq> None"

definition f64_exponent :: "string \<Rightarrow> int option" where
  "f64_exponent s =
     (case s of [] \<Rightarrow> Some 0
      | c # cs \<Rightarrow>
          if c \<noteq> CHR ''e'' \<and> c \<noteq> CHR ''E'' then None
          else let (neg, ds) = (case cs of [] \<Rightarrow> (False, [])
                                | d # r \<Rightarrow> if d = CHR ''-'' then (True, r)
                                          else if d = CHR ''+'' then (False, r) else (False, cs))
            in if ds = [] then None
               else map_option (\<lambda>n. if neg then - int n else int n) (digits_value 0 ds))"

definition f64_unsigned :: "bool \<Rightarrow> string \<Rightarrow> f64_value option" where
  "f64_unsigned neg s =
     (let ip = takeWhile is_digit s; r1 = dropWhile is_digit s;
          (fp, r2) = (case r1 of c # r \<Rightarrow> if c = CHR ''.'' then (takeWhile is_digit r, dropWhile is_digit r)
                                       else ([], r1) | [] \<Rightarrow> ([], []))
      in if ip = [] \<and> fp = [] then None
         else Option.bind (digits_value 0 (ip @ fp)) (\<lambda>m.
              map_option (\<lambda>e. F_Dec neg m (e - int (length fp))) (f64_exponent r2)))"

definition f64_from_str :: "string \<Rightarrow> f64_value option" where
  "f64_from_str s =
     (let (neg, r) = (case s of [] \<Rightarrow> (False, [])
                      | c # cs \<Rightarrow> if c = CHR ''-'' then (True, cs)
                                 else if c = CHR ''+'' then (False, cs) else (False, s));
          l = to_ascii_lowercase r
      in if l = ''nan'' then Some F_NaN
         else if l = ''inf'' \<or> l = ''infinity'' then Some (F_Inf neg)
         else f64_unsigned neg r)"

text \<open>\<open>q <= 0.0\<close>: a positive value is rounded to zero when it is at most half the least subnormal.\<close>

fun f64_not_positive :: "f64_value \<Rightarrow> bool" where
  "f64_not_positive F_NaN = False"
| "f64_not_positive (F_Inf neg) = neg"
| "f64_not_positive (F_Dec neg m e) \<longleftrightarrow>
     neg \<or> m = 0 \<or> (e < 0 \<and> m * 2 ^ 1075 \<le> 10 ^ nat (- e))"

subsection \<open>Negotiation\<close>

text \<open>One element of Accept-Encoding: names zrip and has no zero quality.\<close>

definition refuses :: "string \<Rightarrow> bool" where
  "refuses param =
     (let p = str_trim param in
      2 < length p \<and> eq_ignore_ascii_case (take 2 p) ''q='' \<and>
      (case f64_from_str (str_trim (drop 2 p)) of None \<Rightarrow> False | Some q \<Rightarrow> f64_not_positive q))"

definition accepts_zrip :: "string \<Rightarrow> bool" where
  "accepts_zrip e =
     (case split_on CHR '';'' (str_trim e) of
        [] \<Rightarrow> False
      | name # params \<Rightarrow>
          eq_ignore_ascii_case (str_trim name) ''zrip'' \<and> \<not> list_ex refuses params)"

definition negotiate_download_format :: "server_state \<Rightarrow> headers \<Rightarrow> compression_format" where
  "negotiate_download_format sv hs =
     (let wants_zrip =
            (case header_get hs ''accept-encoding'' of
               None \<Rightarrow> False
             | Some v \<Rightarrow> list_ex accepts_zrip (split_on CHR '','' v))
      in if wants_zrip \<and> sv_compression sv = Fmt_Zrip then Fmt_Zrip else Fmt_None)"

definition negotiate_download_level ::
  "server_state \<Rightarrow> compression_format \<Rightarrow> headers \<Rightarrow> int \<times> bool" where
  "negotiate_download_level sv fmt hs =
     (case sv_zrip_levels sv of
        None \<Rightarrow> (zrip_default_level, False)
      | Some levels \<Rightarrow>
          if fmt \<noteq> Fmt_Zrip then (zrip_default_level, False)
          else let requested = Option.bind (header_get hs ''x-libfw-compress-level'')
                                 (\<lambda>v. i32_from_str (str_trim v)) in
            (negotiate_level requested (zl_min levels) (zl_max levels) (zl_default levels), True))"

subsection \<open>The plan\<close>

record download_plan =
  dp_status :: nat
  dp_headers :: "(string \<times> string) list"
  dp_format :: compression_format
  dp_level :: int
  dp_reader :: "reader option"

definition select_spec :: "parsed_range option \<Rightarrow> nat \<Rightarrow> api_error + range_spec" where
  "select_spec wanted len =
     (case wanted of
        Some (PBytes r) \<Rightarrow> ok_or (Range_Unsatisfiable len) (range_clamp r len)
      | Some (PSuffix n) \<Rightarrow>
          if n = 0 \<or> len = 0 then Inl (Range_Unsatisfiable len)
          else Inr \<lparr> r_start = len - n, r_end = len \<rparr>
      | None \<Rightarrow> Inr (range_full len))"

definition plan_headers ::
  "file_meta \<Rightarrow> compression_format \<Rightarrow> int \<Rightarrow> bool \<Rightarrow> bool \<Rightarrow> range_spec \<Rightarrow> (string \<times> string) list" where
  "plan_headers meta format level echo_level is_partial spec =
     [(''accept-ranges'', ''bytes''), (''content-type'', ''application/octet-stream''),
      (''etag'', fm_etag meta), (''x-libfw-compress'', format_as_str format)]
     @ (if echo_level then [(''x-libfw-compress-level'', show_int level)] else [])
     @ (if is_partial then [(''content-range'', content_range_value spec (fm_size meta))] else [])
     @ (if format = Fmt_None then [(''content-length'', show_nat (range_len spec))] else [])"

text \<open>The \<open>Range\<close> header, and what is left of it after \<open>If-Range\<close>.\<close>

definition request_range :: "headers \<Rightarrow> api_error + parsed_range option" where
  "request_range hs =
     (case header_get hs ''range'' of
        Some raw \<Rightarrow> map_err (\<lambda>_. Range_Malformed) (parse_range_header raw)
      | None \<Rightarrow> Inr None)"

definition wanted_range :: "headers \<Rightarrow> string \<Rightarrow> parsed_range option \<Rightarrow> parsed_range option" where
  "wanted_range hs etag r0 =
     (case header_get hs ''if-range'' of
        Some v \<Rightarrow> if \<not> if_range_matches v etag then None else r0
      | None \<Rightarrow> r0)"

definition check_if_none_match :: "headers \<Rightarrow> string \<Rightarrow> api_error + unit" where
  "check_if_none_match hs etag =
     (case header_get hs ''if-none-match'' of
        Some v \<Rightarrow> if etag_matches_if_none_match v etag then Inl Not_Modified else Inr ()
      | None \<Rightarrow> Inr ())"

definition plan_download ::
  "externals \<Rightarrow> server_state \<Rightarrow> string \<Rightarrow> headers \<Rightarrow> bool \<Rightarrow> download_plan api" where
  "plan_download x sv path0 hs with_reader =
     am_bind (am_lift (map_err Bad_Request (validate_rel_path path0))) (\<lambda>path.
     am_bind (am_st (st_file_meta x (sv_storage sv) path)) (\<lambda>found.
     am_bind (am_lift (ok_or (Not_Found path) found)) (\<lambda>meta.
     am_bind (am_lift (check_if_none_match hs (fm_etag meta))) (\<lambda>_.
     am_bind (am_lift (request_range hs)) (\<lambda>range0.
     let wanted = wanted_range hs (fm_etag meta) range0; is_partial = (wanted \<noteq> None) in
     am_bind (am_lift (select_spec wanted (fm_size meta))) (\<lambda>spec.
     let format = negotiate_download_format sv hs;
         level = fst (negotiate_download_level sv format hs);
         echo_level = snd (negotiate_download_level sv format hs) in
     am_bind
       (if with_reader
        then am_bind (am_st (read_stream (sv_storage sv) path spec)) (\<lambda>r. am_ret (Some r))
        else am_ret None) (\<lambda>reader.
     am_ret \<lparr> dp_status = (if is_partial then 206 else 200),
              dp_headers = plan_headers meta format level echo_level is_partial spec,
              dp_format = format, dp_level = level, dp_reader = reader \<rparr>)))))))"

subsection \<open>Body streams\<close>

text \<open>
  \<open>reader_stream\<close>: reads of at most \<open>STREAM_BUF_SIZE\<close> bytes until the end; the list gives what
  each read returns at most, a full buffer when it is exhausted.
\<close>

function reader_stream :: "nat list \<Rightarrow> bytes \<Rightarrow> body" where
  "reader_stream sizes data =
     (if data = [] then []
      else let n = max 1 (min stream_buf_size (case sizes of [] \<Rightarrow> stream_buf_size | k # _ \<Rightarrow> k)) in
        Chunk (take n data) # reader_stream (tl sizes) (drop n data))"
  by pat_completeness auto
termination by (relation "measure (\<lambda>(s, d). length d)") (auto simp: Let_def)

declare reader_stream.simps [simp del]

text \<open>\<open>CompressedStream::poll_next\<close> until the end of the stream or its first error.\<close>

definition stream_error :: "compress_error \<Rightarrow> body" where
  "stream_error e = [Body_err (compress_error_display e)]"

definition out_chunk :: "bytes \<Rightarrow> body" where
  "out_chunk out = (if out = [] then [] else [Chunk out])"

fun compressed_stream :: "'e zrip \<Rightarrow> 'e compressor \<Rightarrow> body \<Rightarrow> body" where
  "compressed_stream z c [] =
     (case compress_finish z c of Inl e \<Rightarrow> stream_error e | Inr (tail, _) \<Rightarrow> out_chunk tail)"
| "compressed_stream z c (Body_err e # evs) = [Body_err e]"
| "compressed_stream z c (Chunk chunk # evs) =
     (if chunk = [] then compressed_stream z c evs
      else case compress z c chunk of
             Inl e \<Rightarrow> stream_error e
           | Inr (out, c2) \<Rightarrow> out_chunk out @ compressed_stream z c2 evs)"

text \<open>The \<open>expect\<close> panics when the codec refuses the level.\<close>

definition body_stream ::
  "'e zrip \<Rightarrow> nat list \<Rightarrow> bytes \<Rightarrow> compression_format \<Rightarrow> int \<Rightarrow> body outcome" where
  "body_stream z sizes data fmt level =
     (let raw = reader_stream sizes data in
      case fmt of
        Fmt_None \<Rightarrow> Returned raw
      | Fmt_Zrip \<Rightarrow>
          (case compressor_with_level z Fmt_Zrip level of
             Inl _ \<Rightarrow> Panicked
           | Inr c \<Rightarrow> Returned (compressed_stream z c raw)))"

subsection \<open>Handlers\<close>

definition download ::
  "'e zrip \<Rightarrow> externals \<Rightarrow> nat list \<Rightarrow> server_state \<Rightarrow> int \<Rightarrow> string \<Rightarrow> token_claims \<Rightarrow> headers \<Rightarrow>
   world \<Rightarrow> (api_error + response) outcome \<times> world" where
  "download z x sizes sv now path claims hs w =
     (case am_bind (am_lift (map_err resolve_error (resolve_client_path sv now claims path Act_Read)))
             (\<lambda>p. plan_download x sv p hs True) w of
        (Inl e, w2) \<Rightarrow> (Returned (Inl e), w2)
      | (Inr plan, w2) \<Rightarrow>
          (case dp_reader plan of
             None \<Rightarrow> (Panicked, w2)
           | Some rd \<Rightarrow>
               (case body_stream z sizes (reader_bytes (w_fs w2) rd) (dp_format plan) (dp_level plan) of
                  Panicked \<Rightarrow> (Panicked, w2)
                | Returned b \<Rightarrow>
                    (Returned (Inr \<lparr> rs_status = dp_status plan, rs_headers = dp_headers plan,
                                     rs_body = Stream_body b \<rparr>), w2))))"

definition head_file ::
  "externals \<Rightarrow> server_state \<Rightarrow> int \<Rightarrow> string \<Rightarrow> token_claims \<Rightarrow> headers \<Rightarrow> response api" where
  "head_file x sv now path claims hs =
     am_bind (am_lift (map_err resolve_error (resolve_client_path sv now claims path Act_Read))) (\<lambda>p.
     am_bind (plan_download x sv p hs False) (\<lambda>plan.
     am_ret \<lparr> rs_status = dp_status plan, rs_headers = dp_headers plan, rs_body = Empty_body \<rparr>))"

subsection \<open>Streams\<close>

lemma reader_stream_chunks:
  "\<exists>cs. reader_stream sizes data = map Chunk cs \<and> concat cs = data \<and>
    (\<forall>c\<in>set cs. c \<noteq> [] \<and> length c \<le> stream_buf_size)"
proof (induction sizes data rule: reader_stream.induct)
  case (1 sizes data)
  show ?case
  proof (cases "data = []")
    case True
    then show ?thesis by (subst reader_stream.simps) simp
  next
    case False
    let ?n = "max 1 (min stream_buf_size (case sizes of [] \<Rightarrow> stream_buf_size | k # _ \<Rightarrow> k))"
    have n: "0 < ?n" "?n \<le> stream_buf_size" by (simp_all add: stream_buf_size_def)
    obtain cs where cs: "reader_stream (tl sizes) (drop ?n data) = map Chunk cs"
      "concat cs = drop ?n data" "\<forall>c\<in>set cs. c \<noteq> [] \<and> length c \<le> stream_buf_size"
      using "1.IH" [OF False refl] by blast
    have "reader_stream sizes data = map Chunk (take ?n data # cs)"
      using False cs(1) by (subst reader_stream.simps) (simp add: Let_def)
    moreover have "concat (take ?n data # cs) = data" using cs(2) by simp
    moreover have "\<forall>c\<in>set (take ?n data # cs). c \<noteq> [] \<and> length c \<le> stream_buf_size"
      using cs(3) n False by auto
    ultimately show ?thesis by blast
  qed
qed

lemma compressed_stream_chunks:
  assumes "compress_chunks z c cs = Inr out" and "\<forall>x\<in>set cs. x \<noteq> []"
  shows "\<exists>os. compressed_stream z c (map Chunk cs) = map Chunk os \<and> concat os = out"
  using assms
proof (induction cs arbitrary: c out)
  case Nil
  then obtain t c2 where t: "compress_finish z c = Inr (t, c2)" "out = t"
    by (auto simp: res_bind_Inr)
  show ?case
  proof (cases "t = []")
    case True
    with t show ?thesis by (intro exI [of _ "[]"]) (simp add: out_chunk_def)
  next
    case False
    with t show ?thesis by (intro exI [of _ "[t]"]) (simp add: out_chunk_def)
  qed
next
  case (Cons x cs)
  then obtain o1 c1 o2 where c: "compress z c x = Inr (o1, c1)" "compress_chunks z c1 cs = Inr o2"
    "out = o1 @ o2" by (auto simp: res_bind_Inr)
  with Cons obtain os where "compressed_stream z c1 (map Chunk cs) = map Chunk os" "concat os = o2"
    by auto
  with c Cons.prems(2) show ?case
    by (intro exI [of _ "(if o1 = [] then [] else [o1]) @ os"]) (simp add: out_chunk_def)
qed

text \<open>The levels the server may pick are ones the codec accepts.\<close>

definition levels_valid :: "server_state \<Rightarrow> bool" where
  "levels_valid sv \<longleftrightarrow>
     (case sv_zrip_levels sv of None \<Rightarrow> True
      | Some ls \<Rightarrow> is_valid_zrip_level (zl_default ls) \<and>
          is_valid_zrip_level (zl_min ls) \<and> is_valid_zrip_level (zl_max ls))"

lemma negotiated_level_valid:
  "levels_valid sv \<Longrightarrow> is_valid_zrip_level (fst (negotiate_download_level sv fmt hs))"
  by (auto simp: levels_valid_def negotiate_download_level_def negotiate_level_def Let_def
      is_valid_zrip_level_def zrip_default_level_def zrip_min_level_def zrip_max_level_def
      split: option.splits)

lemma body_stream_decodes:
  assumes "zrip_ok z R" and "is_valid_zrip_level level" and "length data \<le> mx" and "mx < u64_max"
  shows "\<exists>cs. body_stream z sizes data fmt level = Returned (map Chunk cs) \<and>
    (\<forall>os. concat os = concat cs \<longrightarrow> feed_all z (decompressor_with_limit fmt mx) os = Inr data)"
proof -
  obtain cs where cs: "reader_stream sizes data = map Chunk cs" "concat cs = data"
    "\<forall>c\<in>set cs. c \<noteq> [] \<and> length c \<le> stream_buf_size" using reader_stream_chunks by metis
  have "\<forall>c\<in>set cs. length c \<le> chunk_size"
    using cs(3) by (auto simp: stream_buf_size_def chunk_size_def)
  with compress_roundtrip [OF assms(1,2), of cs mx fmt] assms(3,4) cs(2)
  obtain s where s: "res_bind (compressor_with_level z fmt level) (\<lambda>c. compress_chunks z c cs) = Inr s"
    "\<And>os. concat os = s \<Longrightarrow> feed_all z (decompressor_with_limit fmt mx) os = Inr data" by auto
  show ?thesis
  proof (cases fmt)
    case Fmt_None
    with s have "concat cs = s" by (simp add: compressor_with_level_def compress_chunks_pass)
    with s(2) cs(1) Fmt_None show ?thesis by (auto simp: body_stream_def)
  next
    case Fmt_Zrip
    with s(1) obtain c where c: "compressor_with_level z Fmt_Zrip level = Inr c"
      "compress_chunks z c cs = Inr s" by (auto simp: res_bind_Inr)
    from compressed_stream_chunks [OF c(2)] cs(3) obtain os where
      "compressed_stream z c (map Chunk cs) = map Chunk os" "concat os = s" by auto
    with s(2) c(1) cs(1) Fmt_Zrip show ?thesis by (auto simp: body_stream_def)
  qed
qed

lemma body_stream_delivers:
  assumes "zrip_ok z R" and "is_valid_zrip_level level" and "length data \<le> mx" and "mx < u64_max"
  shows "\<exists>cs. body_stream z sizes data fmt level = Returned (map Chunk cs) \<and>
    feed_all z (decompressor_with_limit fmt mx) cs = Inr data"
  using body_stream_decodes [OF assms] by blast

subsection \<open>Plans\<close>

lemma walk_follow_not_link:
  "fs_walk_from fs True n cur ss = Inr q \<Longrightarrow> \<not> is_link fs cur \<Longrightarrow> \<not> is_link fs q"
proof (induction fs True n cur ss rule: fs_walk_from.induct)
  case (2 fs n cur s ss)
  show ?case
  proof (cases "fs_node fs (cur @ [s])")
    case None
    with "2.prems" show ?thesis by (auto simp: is_link_def split: if_splits)
  next
    case (Some nd)
    have "\<not> is_link fs []" by (simp add: is_link_def)
    then show ?thesis
      using 2 Some by (cases nd) (auto simp: is_link_def split: if_splits nat.splits)
  qed
qed simp

lemma stat_follow_file:
  "fs_stat fs True p = Inr nd \<Longrightarrow> \<not> node_is_dir nd \<Longrightarrow> \<exists>i. nd = NFile i \<and> fs_open fs p = Inr i"
proof -
  assume s: "fs_stat fs True p = Inr nd" and d: "\<not> node_is_dir nd"
  then obtain q where q: "fs_walk fs True p = Inr q" "fs_node fs q = Some nd"
    by (auto simp: fs_stat_def res_bind_Inr)
  have "\<not> is_link fs q" using walk_follow_not_link [of fs max_links "[]" p q] q(1)
    by (simp add: fs_walk_def is_link_def)
  with q(2) d have "\<exists>i. nd = NFile i" by (cases nd) (auto simp: is_link_def node_is_dir_def)
  with s show ?thesis by (auto simp: fs_open_def)
qed

lemma open_path_state: "open_path st p w = (r, w2) \<Longrightarrow> w2 = w"
  by (auto simp: open_path_def sm_simps check_symlinks_def split: sum.splits prod.splits)

text \<open>What a file's metadata says of the file.\<close>

lemma st_file_meta_Some:
  assumes "st_file_meta x st p w = (Inr (Some meta), w2)"
  shows "w2 = w \<and> (\<exists>full i. open_path st p w = (Inr full, w) \<and> fs_open (w_fs w) full = Inr i \<and>
    meta = file_meta_at x p (w_fs w) (NFile i))"
proof -
  obtain full where f: "open_path st p w = (Inr full, w)"
    using assms open_path_state unfolding st_file_meta_def sm_bind_def
    by (cases "open_path st p w") (auto split: sum.splits)
  show ?thesis
  proof (cases "fs_stat (w_fs w) True full")
    case (Inl e)
    with assms f show ?thesis by (simp add: st_file_meta_def sm_bind_def split: if_splits)
  next
    case (Inr nd)
    with assms f have nd: "\<not> node_is_dir nd" "meta = file_meta_at x p (w_fs w) nd" "w2 = w"
      by (auto simp: st_file_meta_def sm_bind_def node_is_dir_def split: node.splits)
    with stat_follow_file [OF Inr nd(1)] f show ?thesis by auto
  qed
qed

lemma read_stream_Inr:
  assumes "open_path st p w = (Inr full, w)" and "fs_open (w_fs w) full = Inr i"
  shows "read_stream st p rng w =
    (Inr \<lparr> rd_ino = i, rd_pos = r_start rng, rd_limit = range_len rng \<rparr>, w)"
  using assms by (simp add: read_stream_def sm_simps)

text \<open>The plan for an open file, from what the headers ask for.\<close>

definition plan_of ::
  "server_state \<Rightarrow> headers \<Rightarrow> file_meta \<Rightarrow> bool \<Rightarrow> range_spec \<Rightarrow> reader option \<Rightarrow> download_plan" where
  "plan_of sv hs m ranged spec rd =
     (let fmt = negotiate_download_format sv hs; lv = negotiate_download_level sv fmt hs in
      \<lparr> dp_status = (if ranged then 206 else 200),
        dp_headers = plan_headers m fmt (fst lv) (snd lv) ranged spec,
        dp_format = fmt, dp_level = fst lv, dp_reader = rd \<rparr>)"

definition file_reader :: "nat \<Rightarrow> range_spec \<Rightarrow> reader" where
  "file_reader i spec = \<lparr> rd_ino = i, rd_pos = r_start spec, rd_limit = range_len spec \<rparr>"

lemma reader_bytes_file:
  "reader_bytes fs (file_reader i spec) = take (range_len spec) (drop (r_start spec) (fs_data fs i))"
  by (simp add: reader_bytes_def file_reader_def)

text \<open>What the download of a regular file comes to, before the body.\<close>

definition plan_result :: "server_state \<Rightarrow> headers \<Rightarrow> file_meta \<Rightarrow> bool \<Rightarrow> nat \<Rightarrow> api_error + download_plan" where
  "plan_result sv hs m wr i =
     res_bind (check_if_none_match hs (fm_etag m)) (\<lambda>_.
     res_bind (request_range hs) (\<lambda>r0.
     res_bind (select_spec (wanted_range hs (fm_etag m) r0) (fm_size m)) (\<lambda>spec.
     Inr (plan_of sv hs m (wanted_range hs (fm_etag m) r0 \<noteq> None) spec
            (if wr then Some (file_reader i spec) else None)))))"

lemma plan_download_file:
  assumes "validate_rel_path p = Inr q" and "open_path (sv_storage sv) q w = (Inr full, w)"
    and "fs_open (w_fs w) full = Inr i"
    and "st_file_meta x (sv_storage sv) q w = (Inr (Some m), w)"
  shows "plan_download x sv p hs wr w = (plan_result sv hs m wr i, w)"
proof -
  note rd = read_stream_Inr [OF assms(2,3)]
  show ?thesis
  proof (cases "check_if_none_match hs (fm_etag m)")
    case (Inr u)
    then show ?thesis
    proof (cases "request_range hs")
      case (Inr r0)
      with \<open>check_if_none_match hs (fm_etag m) = Inr u\<close> show ?thesis
        using assms(1,4) rd
        by (cases "select_spec (wanted_range hs (fm_etag m) r0) (fm_size m)")
          (simp_all add: plan_download_def plan_result_def am_simps Let_def plan_of_def file_reader_def)
    qed (use assms(1,4) in \<open>simp add: plan_download_def plan_result_def am_simps\<close>)
  qed (use assms(1,4) in \<open>simp add: plan_download_def plan_result_def am_simps\<close>)
qed

lemma st_file_meta_state: "st_file_meta x st p w = (r, w2) \<Longrightarrow> w2 = w"
  by (auto simp: st_file_meta_def sm_bind_def dest!: open_path_state
      split: prod.splits sum.splits node.splits if_splits)

lemma read_stream_state: "read_stream st p rng w = (r, w2) \<Longrightarrow> w2 = w"
  by (auto simp: read_stream_def sm_simps dest!: open_path_state split: prod.splits sum.splits)

lemma plan_download_state: "plan_download x sv p hs wr w = (r, w2) \<Longrightarrow> w2 = w"
  by (auto simp: plan_download_def am_simps Let_def dest!: st_file_meta_state read_stream_state
      split: prod.splits sum.splits if_splits)

lemma plan_download_Inr:
  assumes "plan_download x sv p hs wr w = (Inr plan, w2)"
  obtains q full i where
    "validate_rel_path p = Inr q" "w2 = w" "open_path (sv_storage sv) q w = (Inr full, w)"
    "fs_open (w_fs w) full = Inr i"
    "plan_result sv hs (file_meta_at x q (w_fs w) (NFile i)) wr i = Inr plan"
proof -
  obtain q found w1 where q: "validate_rel_path p = Inr q"
    "st_file_meta x (sv_storage sv) q w = (Inr (Some found), w1)"
    using assms unfolding plan_download_def am_bind_Inr am_lift_Inr am_st_Inr ok_or_Inr map_err_Inr by blast
  obtain full i where f: "w1 = w" "open_path (sv_storage sv) q w = (Inr full, w)"
    "fs_open (w_fs w) full = Inr i" "found = file_meta_at x q (w_fs w) (NFile i)"
    using st_file_meta_Some [OF q(2)] by blast
  from q(2) f(1,4) have "st_file_meta x (sv_storage sv) q w =
      (Inr (Some (file_meta_at x q (w_fs w) (NFile i))), w)" by simp
  from plan_download_file [OF q(1) f(2,3) this, of hs wr] assms
  have "plan_result sv hs (file_meta_at x q (w_fs w) (NFile i)) wr i = Inr plan" "w2 = w"
    by (metis prod.inject)+
  with q(1) f(2,3) show ?thesis by (intro that)
qed

lemma select_spec_bounds:
  "select_spec wanted n = Inr spec \<Longrightarrow>
   (\<And>r. wanted = Some (PBytes r) \<Longrightarrow> r_start r < r_end r) \<Longrightarrow>
   r_start spec \<le> r_end spec \<and> r_end spec \<le> n \<and> (wanted = None \<longrightarrow> spec = range_full n)"
  by (auto simp: select_spec_def range_clamp_Some range_full_def ok_or_def
      split: option.splits parsed_range.splits if_splits)

lemma request_range_nonempty:
  "request_range hs = Inr r0 \<Longrightarrow> wanted_range hs etag r0 = Some (PBytes r) \<Longrightarrow> r_start r < r_end r"
  using parse_range_header_PBytes
  by (auto simp: request_range_def wanted_range_def split: option.splits if_splits)

lemma file_meta_at_size [simp]: "fm_size (file_meta_at x p fs (NFile i)) = fs_len fs i"
  by (simp add: file_meta_at_def Let_def meta_len_def)

lemma plan_result_Inr:
  assumes "plan_result sv hs m wr i = Inr plan"
  obtains ranged spec where "plan = plan_of sv hs m ranged spec (if wr then Some (file_reader i spec) else None)"
    "r_start spec \<le> r_end spec" "r_end spec \<le> fm_size m" "\<not> ranged \<Longrightarrow> spec = range_full (fm_size m)"
proof -
  obtain r0 spec where r: "request_range hs = Inr r0"
    "select_spec (wanted_range hs (fm_etag m) r0) (fm_size m) = Inr spec"
    "plan = plan_of sv hs m (wanted_range hs (fm_etag m) r0 \<noteq> None) spec
            (if wr then Some (file_reader i spec) else None)"
    using assms by (auto simp: plan_result_def res_bind_Inr)
  from select_spec_bounds [OF r(2)] request_range_nonempty [OF r(1)] have
    "r_start spec \<le> r_end spec \<and> r_end spec \<le> fm_size m \<and>
     (wanted_range hs (fm_etag m) r0 = None \<longrightarrow> spec = range_full (fm_size m))" by blast
  with r(3) show ?thesis by (intro that [OF r(3)]) auto
qed

subsection \<open>Properties\<close>

text \<open>
  C15: a download that succeeds delivers the file: the world is unchanged, the request was resolved
  for reading, and the client that decodes the body in the format the response names obtains exactly
  the bytes of the selected range of the file (the whole file with status 200, the range of the
  \<open>Content-Range\<close> header with 206), whatever the sizes of the server's reads.
\<close>

theorem download_delivers:
  assumes "zrip_ok z R" and "levels_valid sv" and "mx < u64_max" and "\<forall>i. fs_len (w_fs w) i \<le> mx"
    and "download z x sizes sv now path claims hs w = (Returned (Inr r), w2)"
  shows "w2 = w \<and>
    (\<exists>p full i spec fmt cs. resolve_client_path sv now claims path Act_Read = Inr p \<and>
       open_path (sv_storage sv) p w = (Inr full, w) \<and> fs_open (w_fs w) full = Inr i \<and>
       r_start spec \<le> r_end spec \<and> r_end spec \<le> fs_len (w_fs w) i \<and>
       (rs_status r = 200 \<and> spec = range_full (fs_len (w_fs w) i) \<or>
        rs_status r = 206 \<and>
        (''content-range'', content_range_value spec (fs_len (w_fs w) i)) \<in> set (rs_headers r)) \<and>
       (''x-libfw-compress'', format_as_str fmt) \<in> set (rs_headers r) \<and>
       rs_body r = Stream_body (map Chunk cs) \<and>
       feed_all z (decompressor_with_limit fmt mx) cs =
         Inr (take (range_len spec) (drop (r_start spec) (fs_data (w_fs w) i))))"
proof -
  obtain p plan rd b where d: "resolve_client_path sv now claims path Act_Read = Inr p"
    "plan_download x sv p hs True w = (Inr plan, w2)" "dp_reader plan = Some rd"
    "body_stream z sizes (reader_bytes (w_fs w2) rd) (dp_format plan) (dp_level plan) = Returned b"
    "r = \<lparr> rs_status = dp_status plan, rs_headers = dp_headers plan, rs_body = Stream_body b \<rparr>"
    using assms(5) by (auto simp: download_def am_simps split: sum.splits prod.splits option.splits outcome.splits)
  from resolve_client_path_canonical [OF d(1)] have vp: "validate_rel_path p = Inr p"
    by (rule validate_rel_path_id)
  obtain full i where f: "w2 = w" "open_path (sv_storage sv) p w = (Inr full, w)"
    "fs_open (w_fs w) full = Inr i"
    "plan_result sv hs (file_meta_at x p (w_fs w) (NFile i)) True i = Inr plan"
    using plan_download_Inr [OF d(2)] vp by (metis sum.inject(2))
  obtain ranged spec where s: "plan = plan_of sv hs (file_meta_at x p (w_fs w) (NFile i)) ranged spec (Some (file_reader i spec))"
    "r_start spec \<le> r_end spec" "r_end spec \<le> fs_len (w_fs w) i"
    "\<not> ranged \<Longrightarrow> spec = range_full (fs_len (w_fs w) i)"
    using plan_result_Inr [OF f(4)] by (metis file_meta_at_size)
  let ?data = "take (range_len spec) (drop (r_start spec) (fs_data (w_fs w) i))"
  have rd: "reader_bytes (w_fs w2) rd = ?data"
    using s(1) d(3) f(1) by (simp add: plan_of_def Let_def flip: reader_bytes_file)
  have lv: "is_valid_zrip_level (dp_level plan)"
    using negotiated_level_valid [OF assms(2)] s(1) by (simp add: plan_of_def Let_def)
  have "length ?data \<le> fs_len (w_fs w) i" by (simp add: fs_len_def)
  then have "length ?data \<le> mx" using assms(4) by (meson le_trans)
  from body_stream_delivers [OF assms(1) lv this assms(3)] d(4) rd obtain cs where
    cs: "b = map Chunk cs" "feed_all z (decompressor_with_limit (dp_format plan) mx) cs = Inr ?data"
    by (metis outcome.inject)
  have "rs_status r = 200 \<and> spec = range_full (fs_len (w_fs w) i) \<or> rs_status r = 206 \<and>
      (''content-range'', content_range_value spec (fs_len (w_fs w) i)) \<in> set (rs_headers r)"
    using s(1,4) d(5) by (cases ranged) (simp_all add: plan_of_def Let_def plan_headers_def)
  moreover have "(''x-libfw-compress'', format_as_str (dp_format plan)) \<in> set (rs_headers r)"
    using s(1) d(5) by (simp add: plan_of_def Let_def plan_headers_def)
  moreover have "rs_body r = Stream_body (map Chunk cs)" using d(5) cs(1) by simp
  ultimately show ?thesis using d(1) f(1,2,3) s(2,3) cs(2) by blast
qed

text \<open>
  C26: with levels the codec knows, a GET always returns, an error or a response, and never changes
  the world.
\<close>

theorem download_never_panics:
  assumes "zrip_ok z R" and "levels_valid sv" and "mx < u64_max" and "\<forall>i. fs_len (w_fs w) i \<le> mx"
  shows "\<exists>r. download z x sizes sv now path claims hs w = (Returned r, w)"
proof (cases "am_bind (am_lift (map_err resolve_error (resolve_client_path sv now claims path Act_Read)))
      (\<lambda>p. plan_download x sv p hs True) w")
  case (Pair r w2)
  have w2: "w2 = w"
    using Pair plan_download_state by (auto simp: am_simps split: sum.splits prod.splits)
  show ?thesis
  proof (cases r)
    case (Inl e)
    with Pair w2 show ?thesis by (simp add: download_def)
  next
    case (Inr plan)
    with Pair obtain p where "plan_download x sv p hs True w = (Inr plan, w2)"
      by (auto simp: am_elims)
    then obtain q i where q: "plan_result sv hs (file_meta_at x q (w_fs w) (NFile i)) True i = Inr plan"
      by (elim plan_download_Inr) blast
    obtain ranged spec where s: "plan = plan_of sv hs (file_meta_at x q (w_fs w) (NFile i)) ranged spec (Some (file_reader i spec))"
      by (rule plan_result_Inr [OF q]) simp
    have lv: "is_valid_zrip_level (dp_level plan)"
      using negotiated_level_valid [OF assms(2)] s by (simp add: plan_of_def Let_def)
    have "length (reader_bytes (w_fs w) (file_reader i spec)) \<le> fs_len (w_fs w) i"
      by (simp add: reader_bytes_file fs_len_def)
    then have "length (reader_bytes (w_fs w) (file_reader i spec)) \<le> mx" using assms(4) by (meson le_trans)
    from body_stream_delivers [OF assms(1) lv this assms(3), of sizes "dp_format plan"] obtain cs where
      "body_stream z sizes (reader_bytes (w_fs w) (file_reader i spec)) (dp_format plan) (dp_level plan) =
        Returned (map Chunk cs)" by blast
    moreover have "dp_reader plan = Some (file_reader i spec)" using s by (simp add: plan_of_def Let_def)
    ultimately show ?thesis using Pair Inr w2 by (simp add: download_def)
  qed
qed

lemma plan_result_reader:
  "plan_result sv hs m False i =
    (case plan_result sv hs m True i of Inl e \<Rightarrow> Inl e | Inr plan \<Rightarrow> Inr (plan\<lparr> dp_reader := None \<rparr>))"
  by (cases "check_if_none_match hs (fm_etag m)"; cases "request_range hs")
    (auto simp: plan_result_def plan_of_def Let_def res_bind_def split: sum.splits)

lemma plan_download_cases:
  assumes "canonical p"
  shows "(\<exists>e. \<forall>wr. plan_download x sv p hs wr w = (Inl e, w)) \<or>
    (\<exists>m i. \<forall>wr. plan_download x sv p hs wr w = (plan_result sv hs m wr i, w))"
proof -
  have vp: "validate_rel_path p = Inr p" using assms by (rule validate_rel_path_id)
  obtain r w2 where m: "st_file_meta x (sv_storage sv) p w = (r, w2)" by force
  then have w2: "w2 = w" by (rule st_file_meta_state)
  show ?thesis
  proof (cases r)
    case (Inl e)
    with m w2 vp show ?thesis by (intro disjI1 exI [of _ "Api_Storage e"]) (simp add: plan_download_def am_simps)
  next
    case (Inr found)
    show ?thesis
    proof (cases found)
      case None
      with Inr m w2 vp show ?thesis
        by (intro disjI1 exI [of _ "Not_Found p"]) (simp add: plan_download_def am_simps)
    next
      case (Some meta)
      with m Inr w2 have m2: "st_file_meta x (sv_storage sv) p w = (Inr (Some meta), w)" by simp
      from st_file_meta_Some [OF this] obtain full i where
        "open_path (sv_storage sv) p w = (Inr full, w)" "fs_open (w_fs w) full = Inr i" by blast
      with plan_download_file [OF vp _ _ m2] show ?thesis by blast
    qed
  qed
qed

text \<open>
  C27: HEAD answers as GET does: whenever a GET returns, the HEAD of the same path and headers has
  the same error, or the same status and headers with an empty body.
\<close>

theorem head_matches_get:
  assumes "download z x sizes sv now path claims hs w = (Returned res, w2)"
  shows "head_file x sv now path claims hs w =
    (case res of Inl e \<Rightarrow> Inl e | Inr r \<Rightarrow> Inr (r\<lparr> rs_body := Empty_body \<rparr>), w)"
proof (cases "resolve_client_path sv now claims path Act_Read")
  case (Inl e)
  with assms show ?thesis by (auto simp: download_def head_file_def am_simps)
next
  case (Inr p)
  with resolve_client_path_canonical have "canonical p" by blast
  from plan_download_cases [OF this, of x sv hs w] show ?thesis
  proof (elim disjE exE)
    fix e assume "\<forall>wr. plan_download x sv p hs wr w = (Inl e, w)"
    with assms Inr show ?thesis by (auto simp: download_def head_file_def am_simps)
  next
    fix m i assume "\<forall>wr. plan_download x sv p hs wr w = (plan_result sv hs m wr i, w)"
    with assms Inr show ?thesis
      by (cases "plan_result sv hs m True i")
        (auto simp: download_def head_file_def am_simps plan_result_reader split: option.splits outcome.splits)
  qed
qed

lemma st_file_meta_at:
  assumes "target_at st (w_fs w) p d t"
  shows "st_file_meta x st p w =
    (Inr (case fs_node (w_fs w) (d @ [t]) of
            Some (NFile i) \<Rightarrow> Some (file_meta_at x p (w_fs w) (NFile i)) | _ \<Rightarrow> None), w)"
proof -
  have d: "dir_ok (w_fs w) d" "free_name (w_fs w) (d @ [t])" using assms by (auto simp: target_at_def)
  then have "fs_stat (w_fs w) True (d @ [t]) = ok_or enoent (fs_node (w_fs w) (d @ [t]))"
    using stat_in_dir(2) free_not_dir by blast
  with d(2) open_path_at(1) [OF assms] show ?thesis
    by (auto simp: st_file_meta_def sm_bind_def free_name_def enoent_def)
qed

text \<open>
  C22: a byte-range request for an existing file is answered exactly: \<open>bytes=a-b\<close> with \<open>a\<close> inside
  the file gives 206, the bytes from \<open>a\<close> to \<open>b\<close> or the end of the file, and a \<open>Content-Range\<close> that
  says so; with \<open>a\<close> at or past the end it gives 416 with the size of the file.
\<close>

theorem range_request_exact:
  assumes "resolve_client_path sv now claims path Act_Read = Inr p"
    and "target_at (sv_storage sv) (w_fs w) p d t"
    and "fs_node (w_fs w) (d @ [t]) = Some (NFile i)"
    and "a \<le> b" and "b < u64_max" and "fs_len (w_fs w) i \<le> u64_max"
  defines "hs \<equiv> [(''range'', as_bytes (''bytes='' @ show_nat a @ ''-'' @ show_nat b))]"
    and "n \<equiv> fs_len (w_fs w) i" and "e \<equiv> min (b + 1) (fs_len (w_fs w) i)"
  shows "if a < n
    then \<exists>r cs. download z x sizes sv now path claims hs w = (Returned (Inr r), w) \<and>
      rs_status r = 206 \<and> rs_body r = Stream_body (map Chunk cs) \<and>
      concat cs = take (e - a) (drop a (fs_data (w_fs w) i)) \<and>
      (''content-range'', ''bytes '' @ show_nat a @ ''-'' @ show_nat (e - 1) @ ''/'' @ show_nat n)
        \<in> set (rs_headers r)
    else download z x sizes sv now path claims hs w = (Returned (Inl (Range_Unsatisfiable n)), w)"
proof -
  let ?m = "file_meta_at x p (w_fs w) (NFile i)" and ?txt = "''bytes='' @ show_nat a @ ''-'' @ show_nat b"
  have vp: "validate_rel_path p = Inr p"
    using resolve_client_path_canonical [OF assms(1)] by (rule validate_rel_path_id)
  have op: "open_path (sv_storage sv) p w = (Inr (d @ [t]), w)" by (rule open_path_at(1) [OF assms(2)])
  have fo: "fs_open (w_fs w) (d @ [t]) = Inr i"
    using assms(2,3) open_file by (auto simp: target_at_def)
  have m: "st_file_meta x (sv_storage sv) p w = (Inr (Some ?m), w)"
    using st_file_meta_at [OF assms(2), of x] assms(3) by simp
  have "list_all printable ?txt" by (simp add: printable_def)
  then have "header_get hs ''range'' = Some ?txt"
    unfolding hs_def header_get_def by (simp add: header_text_printable del: append.simps)
  moreover have o: "header_get hs ''if-range'' = None" "header_get hs ''if-none-match'' = None"
    "header_get hs ''accept-encoding'' = None"
    by (simp_all add: hs_def header_get_def)
  moreover have "parse_range_header ?txt = Inr (Some (PBytes \<lparr> r_start = a, r_end = b + 1 \<rparr>))"
    using parse_range_closed [of a "b + 1"] assms(4,5) by simp
  ultimately have sel: "request_range hs = Inr (Some (PBytes \<lparr> r_start = a, r_end = b + 1 \<rparr>))"
    "wanted_range hs g r0 = r0" "check_if_none_match hs g = Inr ()" for g r0
    by (simp_all add: request_range_def wanted_range_def check_if_none_match_def)
  have fmt: "negotiate_download_format sv hs = Fmt_None" using o by (simp add: negotiate_download_format_def)
  note pl = plan_download_file [OF vp op fo m, of hs True]
  show ?thesis
  proof (cases "a < n")
    case True
    let ?spec = "\<lparr> r_start = a, r_end = e \<rparr>"
    have "select_spec (Some (PBytes \<lparr> r_start = a, r_end = b + 1 \<rparr>)) (fs_len (w_fs w) i) = Inr ?spec"
      using True by (simp add: select_spec_def range_clamp_def n_def e_def)
    then have r: "plan_result sv hs ?m True i = Inr (plan_of sv hs ?m True ?spec (Some (file_reader i ?spec)))"
      by (simp add: plan_result_def sel)
    obtain cs where cs: "reader_stream sizes (take (e - a) (drop a (fs_data (w_fs w) i))) = map Chunk cs"
      "concat cs = take (e - a) (drop a (fs_data (w_fs w) i))"
      using reader_stream_chunks by metis
    have "1 \<le> e" "e \<le> u64_max" using True assms(4,6) by (auto simp: e_def n_def)
    then have "content_range_value ?spec n =
        ''bytes '' @ show_nat a @ ''-'' @ show_nat (e - 1) @ ''/'' @ show_nat n"
      by (simp add: content_range_value_def)
    then have hd: "(''content-range'', ''bytes '' @ show_nat a @ ''-'' @ show_nat (e - 1) @ ''/'' @ show_nat n)
        \<in> set (plan_headers ?m Fmt_None lv ec True ?spec)" for lv ec
      by (simp add: plan_headers_def n_def)
    have rb: "reader_bytes (w_fs w) (file_reader i ?spec) = take (e - a) (drop a (fs_data (w_fs w) i))"
      by (simp add: reader_bytes_file range_len_def)
    let ?lv = "negotiate_download_level sv Fmt_None hs"
    have "download z x sizes sv now path claims hs w = (Returned (Inr
        \<lparr> rs_status = 206, rs_headers = plan_headers ?m Fmt_None (fst ?lv) (snd ?lv) True ?spec,
          rs_body = Stream_body (map Chunk cs) \<rparr>), w)"
      using assms(1) r pl cs(1) fmt rb
      by (simp add: download_def am_simps plan_of_def Let_def body_stream_def)
    with True cs(2) hd show ?thesis by (auto intro!: exI [of _ cs])
  next
    case False
    then have "select_spec (Some (PBytes \<lparr> r_start = a, r_end = b + 1 \<rparr>)) (fs_len (w_fs w) i) =
        Inl (Range_Unsatisfiable n)"
      by (simp add: select_spec_def range_clamp_def n_def)
    then have "plan_result sv hs ?m True i = Inl (Range_Unsatisfiable n)"
      by (simp add: plan_result_def sel)
    with False assms(1) pl show ?thesis by (simp add: download_def am_simps)
  qed
qed

text \<open>The level the server answers with by default lies in what it advertises.\<close>

definition levels_sane :: "server_state \<Rightarrow> bool" where
  "levels_sane sv \<longleftrightarrow>
     (case sv_zrip_levels sv of None \<Rightarrow> True
      | Some ls \<Rightarrow> zl_min ls \<le> zl_default ls \<and> zl_default ls \<le> zl_max ls)"

lemma zrip_request: "header_get [(''accept-encoding'', as_bytes ''zrip'')] ''accept-encoding'' = Some ''zrip''"
proof -
  have "list_all printable ''zrip''" by (simp add: printable_def)
  then show ?thesis by (simp add: header_get_def header_text_printable)
qed

lemma accepts_zrip_token: "accepts_zrip ''zrip''"
proof -
  have "str_trim ''zrip'' = ''zrip''" by (rule str_trim_visible) (simp add: visible_def)
  then show ?thesis by (simp add: accepts_zrip_def eq_ignore_ascii_case_def)
qed

text \<open>
  The advertisement is honest: zrip is advertised exactly when some request is answered with
  it, the advertised upload cap never exceeds the enforced one, and with a sane level range every
  level a zrip download is compressed with lies in the advertised range.
\<close>

theorem capabilities_honest:
  assumes "levels_sane sv"
  shows "(Fmt_Zrip \<in> set (cc_formats (cap_compression (server_capabilities sv))) \<longleftrightarrow>
      (\<exists>hs. negotiate_download_format sv hs = Fmt_Zrip)) \<and>
    lm_max_upload_size (cap_limits (server_capabilities sv)) \<le> sv_max_upload_size sv \<and>
    (\<forall>hs. zrip_levels_contains (cc_zrip_levels (cap_compression (server_capabilities sv)))
       (fst (negotiate_download_level sv Fmt_Zrip hs)))"
proof (intro conjI allI)
  show "Fmt_Zrip \<in> set (cc_formats (cap_compression (server_capabilities sv))) \<longleftrightarrow>
      (\<exists>hs. negotiate_download_format sv hs = Fmt_Zrip)"
  proof (cases "sv_compression sv")
    case Fmt_None
    then show ?thesis by (simp add: server_capabilities_def Let_def negotiate_download_format_def)
  next
    case Fmt_Zrip
    then have "negotiate_download_format sv [(''accept-encoding'', as_bytes ''zrip'')] = Fmt_Zrip"
      by (simp add: negotiate_download_format_def zrip_request accepts_zrip_token)
    with Fmt_Zrip show ?thesis by (auto simp: server_capabilities_def Let_def)
  qed
  show "lm_max_upload_size (cap_limits (server_capabilities sv)) \<le> sv_max_upload_size sv"
    by (simp add: server_capabilities_def Let_def split: option.split)
  show "zrip_levels_contains (cc_zrip_levels (cap_compression (server_capabilities sv)))
       (fst (negotiate_download_level sv Fmt_Zrip hs))" for hs
    using assms
    by (auto simp: server_capabilities_def Let_def zrip_levels_contains_def negotiate_download_level_def
        negotiate_level_def levels_sane_def capabilities_default_def compression_caps_default_def
        zrip_levels_default_def zrip_default_level_def zrip_min_level_def zrip_max_level_def
        split: option.splits)
qed

theorem capabilities_honest_witness:
  "lm_max_upload_size (cap_limits (server_capabilities (demo_state identity_codec))) \<le> 1000"
  using capabilities_honest [of "demo_state identity_codec"]
  by (simp add: levels_sane_def) (simp add: demo_state_def)

text \<open>
  With a level range the codec does not know, a client can make the handler panic: the clamped
  level reaches the \<open>expect\<close> of \<open>body_stream\<close>.
\<close>

theorem bad_levels_panic:
  assumes "z_new z level = Inl e"
  shows "body_stream z sizes data Fmt_Zrip level = Panicked"
  using assms by (simp add: body_stream_def compressor_with_level_def zrip_compressor_new_def Let_def)

text \<open>
  A request for a missing file is answered with the real path, also under a codec that hides real
  paths from clients.
\<close>

theorem missing_file_reveals_real_path:
  assumes "resolve_client_path sv now claims path Act_Read = Inr p"
    and "target_at (sv_storage sv) (w_fs w) p d t" and "fs_node (w_fs w) (d @ [t]) = None"
  shows "\<exists>e. download z x sizes sv now path claims hs w = (Returned (Inl e), w) \<and>
    api_error_response e = text_response 404 p"
proof -
  have "validate_rel_path p = Inr p"
    using resolve_client_path_canonical [OF assms(1)] by (rule validate_rel_path_id)
  moreover have "st_file_meta x (sv_storage sv) p w = (Inr None, w)"
    using st_file_meta_at [OF assms(2), of x] assms(3) by simp
  ultimately show ?thesis
    using assms(1) by (intro exI [of _ "Not_Found p"])
      (simp add: download_def plan_download_def am_simps)
qed

subsection \<open>Witnesses\<close>

text \<open>A world with one file of five bytes.\<close>

definition demo_fs :: fsys where
  "demo_fs =
     \<lparr> fs_entries = [([''srv''], NDir 0), ([''srv'', ''a''], NFile 0)],
       fs_data = (\<lambda>i. if i = 0 then [1, 2, 3, 4, 5] else []), fs_mtime = (\<lambda>_. 7),
       fs_next = 1, fs_now = 9 \<rparr>"

definition demo_world :: world where
  "demo_world = \<lparr> w_fs = demo_fs, w_tmp_counter = 0 \<rparr>"

definition demo_ext :: externals where
  "demo_ext =
     \<lparr> x_sha = (\<lambda>_. replicate 32 0), x_ser_ranges = (\<lambda>_. []), x_de_ranges = (\<lambda>_. Inr []),
       x_de_meta = (\<lambda>_. Inl ''none'') \<rparr>"

lemma demo_node:
  "fs_node demo_fs p =
    (if p = [] \<or> p = [''srv''] then Some (NDir 0)
     else if p = [''srv'', ''a''] then Some (NFile 0) else None)"
  by (simp add: fs_node_def demo_fs_def)

lemma demo_dir_ok: "dir_ok demo_fs [''srv'']"
  by (auto simp: dir_ok_def is_dir_def demo_node prefix_Cons)

lemma demo_wf: "fs_wf demo_fs"
proof -
  have "fs_next demo_fs = 1" by (simp add: demo_fs_def)
  then show ?thesis by (auto simp: fs_wf_def demo_node split: if_splits)
qed

lemma demo_target: "target_at (sv_storage (demo_state pc)) (w_fs demo_world) ''a'' [''srv''] ''a''"
proof -
  have "resolve (sv_storage (demo_state pc)) ''a'' = Inr ([''srv''] @ [''a''])"
    by (simp add: resolve_cases demo_state_def starts_with_def)
  then show ?thesis
    by (simp add: target_at_def demo_world_def demo_dir_ok demo_wf) (simp add: free_name_def demo_node)
qed

lemma demo_resolve:
  "resolve_client_path (demo_state identity_codec) now demo_claims ''a'' act = Inr ''a''"
proof -
  have "canonical ''a''" by (simp add: canonical_def segments_def plain_seg_def)
  then show ?thesis
    using identity_pc.resolve_shadow [of "demo_state identity_codec" "''a''", OF _ _ _ demo_accepts]
    by (simp add: identity_dom_def) (simp add: demo_state_def identity_codec_def)
qed

lemma demo_file: "fs_node (w_fs demo_world) ([''srv''] @ [''a'']) = Some (NFile 0)"
  by (simp add: demo_world_def demo_node)

lemma demo_data: "fs_len (w_fs demo_world) 0 = 5" "fs_data (w_fs demo_world) 0 = [1, 2, 3, 4, 5]"
    "fs_len (w_fs demo_world) i \<le> 100"
  by (simp_all add: fs_len_def demo_world_def demo_fs_def)

theorem range_request_exact_witness:
  "\<exists>r cs. download raw_zrip demo_ext [] (demo_state identity_codec) 5 ''a'' demo_claims
      [(''range'', as_bytes (''bytes='' @ show_nat 2 @ ''-'' @ show_nat 3))] demo_world =
      (Returned (Inr r), demo_world) \<and>
    rs_status r = 206 \<and> rs_body r = Stream_body (map Chunk cs) \<and> concat cs = [3, 4]"
  using range_request_exact [OF demo_resolve demo_target demo_file, of 2 3 raw_zrip demo_ext "[]" 5]
  by (simp add: demo_data u64_max_def) blast

lemma demo_download:
  "\<exists>r. download raw_zrip demo_ext [] (demo_state identity_codec) 5 ''a'' demo_claims [] demo_world =
    (Returned (Inr r), demo_world)"
proof -
  let ?sv = "demo_state identity_codec"
  let ?m = "file_meta_at demo_ext ''a'' (w_fs demo_world) (NFile 0)"
  have "open_path (sv_storage ?sv) ''a'' demo_world = (Inr ([''srv''] @ [''a'']), demo_world)"
    by (rule open_path_at(1) [OF demo_target])
  moreover have "fs_open (w_fs demo_world) ([''srv''] @ [''a'']) = Inr 0"
    using demo_dir_ok demo_file by (intro open_file) (simp_all add: demo_world_def)
  moreover have "st_file_meta demo_ext (sv_storage ?sv) ''a'' demo_world = (Inr (Some ?m), demo_world)"
    using st_file_meta_at [OF demo_target, of demo_ext] demo_file by simp
  moreover have "validate_rel_path ''a'' = Inr ''a''"
    using resolve_client_path_canonical [OF demo_resolve] by (rule validate_rel_path_id)
  ultimately have "plan_download demo_ext ?sv ''a'' [] True demo_world =
      (plan_result ?sv [] ?m True 0, demo_world)" by (intro plan_download_file)
  then show ?thesis
    by (simp add: download_def demo_resolve am_simps plan_result_def check_if_none_match_def header_get_def
        request_range_def wanted_range_def select_spec_def plan_of_def Let_def
        negotiate_download_format_def body_stream_def)
qed

theorem download_delivers_witness:
  "\<exists>r cs fmt spec. download raw_zrip demo_ext [] (demo_state identity_codec) 5 ''a'' demo_claims [] demo_world =
      (Returned (Inr r), demo_world) \<and> rs_body r = Stream_body (map Chunk cs) \<and>
    feed_all raw_zrip (decompressor_with_limit fmt 100) cs =
      Inr (take (range_len spec) (drop (r_start spec) [1, 2, 3, 4, 5]))"
proof -
  obtain r where r: "download raw_zrip demo_ext [] (demo_state identity_codec) 5 ''a'' demo_claims [] demo_world =
    (Returned (Inr r), demo_world)" using demo_download by blast
  have lv: "levels_valid (demo_state identity_codec)" by (simp add: levels_valid_def demo_state_def)
  have o: "fs_open (w_fs demo_world) ([''srv''] @ [''a'']) = Inr 0"
    using demo_dir_ok demo_file by (intro open_file) (simp_all add: demo_world_def)
  from download_delivers [OF raw_zrip_ok lv _ _ r, of 100] show ?thesis
    unfolding r demo_resolve using open_path_at(1) [OF demo_target, of identity_codec] o demo_data
    by (auto simp: u64_max_def)
qed

theorem download_never_panics_witness:
  "\<exists>r. download raw_zrip demo_ext [] (demo_state identity_codec) 5 ''b'' demo_claims [] demo_world =
    (Returned r, demo_world)"
  by (rule download_never_panics [OF raw_zrip_ok, where mx = 100])
    (simp_all add: levels_valid_def demo_state_def u64_max_def demo_data)

theorem head_matches_get_witness:
  "\<exists>r. head_file demo_ext (demo_state identity_codec) 5 ''a'' demo_claims [] demo_world =
    (Inr (r\<lparr> rs_body := Empty_body \<rparr>), demo_world)"
proof -
  obtain r where "download raw_zrip demo_ext [] (demo_state identity_codec) 5 ''a'' demo_claims [] demo_world =
    (Returned (Inr r), demo_world)" using demo_download by blast
  from head_matches_get [OF this] show ?thesis by auto
qed

end
