(* ===== verification/Upload_Props.thy ===== *)
theory Upload_Props
  imports Upload Download
begin

text \<open>
  What an upload does.  The receiving loop is verified once against a contract of the batch writers
  (\<open>upload_sink\<close>); the plain and the session writer fulfil it.  From that follow the all-or-nothing
  behaviour of the plain protocol and the behaviour of the session protocol's requests.
\<close>

subsection \<open>The writer's contract\<close>

text \<open>
  \<open>content w us c\<close>: in the world \<open>w\<close> the sink of \<open>us\<close> holds the bytes \<open>c\<close> this request has sent so
  far.  A batch within the limit is taken, one beyond it is refused and changes nothing.
\<close>

locale upload_sink =
  fixes wr :: writer
    and content :: "world \<Rightarrow> upload_state \<Rightarrow> bytes \<Rightarrow> bool"
    and lim :: nat
  assumes takes: "content w us c \<Longrightarrow> b \<noteq> [] \<Longrightarrow> length c + length b \<le> lim \<Longrightarrow>
      \<exists>us2 w2. wr b us w = (Inr (), us2, w2) \<and> content w2 us2 (c @ b) \<and>
        us_decomp us2 = us_decomp us \<and> us_gone us2 = us_gone us"
    and refuses: "content w us c \<Longrightarrow> b \<noteq> [] \<Longrightarrow> lim < length c + length b \<Longrightarrow>
      \<exists>e us2. wr b us w = (Inl e, us2, w) \<and> us_sink us2 = us_sink us \<and> us_gone us2 = us_gone us"
    and decomp_free: "content w (us\<lparr> us_decomp := dc \<rparr>) c = content w us c"
begin

lemma recv_ok:
  assumes "content w us c" and "feed_all z (us_decomp us) cs = Inr b" and "length c + length b \<le> lim"
  shows "\<exists>us2 w2. recv_loop z wr (map Chunk cs) us w = (Inr (), us2, w2) \<and> content w2 us2 (c @ b)"
  using assms
proof (induction cs arbitrary: w us c b)
  case Nil
  then obtain dc where d: "decompress_finish z (us_decomp us) = Inr (b, dc)"
    by (auto simp: feed_all_def res_bind_Inr)
  have c: "content w (us\<lparr> us_decomp := dc \<rparr>) c" using Nil(1) by (simp add: decomp_free)
  show ?case
  proof (cases "b = []")
    case True
    with d c show ?thesis by simp
  next
    case False
    from takes [OF c False] Nil(3) d False show ?thesis by fastforce
  qed
next
  case (Cons ch cs)
  from Cons.prems(2) obtain o1 d1 b2 where d: "decompress z (us_decomp us) ch = Inr (o1, d1)"
    "feed_all z d1 cs = Inr b2" "b = o1 @ b2"
    unfolding feed_all_Cons by (auto simp: res_bind_Inr)
  have c: "content w (us\<lparr> us_decomp := d1 \<rparr>) c" using Cons.prems(1) by (simp add: decomp_free)
  show ?case
  proof (cases "o1 = []")
    case True
    with Cons.IH [OF c, of b2] Cons.prems(3) d show ?thesis by simp
  next
    case False
    from takes [OF c False] Cons.prems(3) d(3) obtain us2 w2 where
      w: "wr o1 (us\<lparr> us_decomp := d1 \<rparr>) w = (Inr (), us2, w2)" "content w2 us2 (c @ o1)"
      "us_decomp us2 = d1" by fastforce
    from Cons.IH [OF w(2), of b2] w d Cons.prems(3) False show ?thesis by simp
  qed
qed

text \<open>A disconnect after chunks that decode: the bytes decoded so far have been written.\<close>

lemma recv_gone:
  assumes "content w us c" and "feed z (us_decomp us) cs = Inr (b, dc)" and "length c + length b \<le> lim"
  shows "\<exists>us2 w2. recv_loop z wr (map Chunk cs @ Body_err e # rest) us w =
      (Inl (Api_Io (Io_error Io_Other e)), us2, w2) \<and> us_gone us2 \<and>
    (\<exists>us3. content w2 us3 (c @ b) \<and> us_sink us3 = us_sink us2)"
  using assms
proof (induction cs arbitrary: w us c b)
  case Nil
  then show ?case by auto
next
  case (Cons ch cs)
  from Cons.prems(2) obtain o1 d1 b2 where d: "decompress z (us_decomp us) ch = Inr (o1, d1)"
    "feed z d1 cs = Inr (b2, dc)" "b = o1 @ b2"
    by (auto simp: res_bind_Inr)
  have c: "content w (us\<lparr> us_decomp := d1 \<rparr>) c" using Cons.prems(1) by (simp add: decomp_free)
  show ?case
  proof (cases "o1 = []")
    case True
    with Cons.IH [OF c, of b2] Cons.prems(3) d show ?thesis by simp
  next
    case False
    from takes [OF c False] Cons.prems(3) d(3) obtain us2 w2 where
      w: "wr o1 (us\<lparr> us_decomp := d1 \<rparr>) w = (Inr (), us2, w2)" "content w2 us2 (c @ o1)"
      "us_decomp us2 = d1" by fastforce
    from Cons.IH [OF w(2), of b2] w d Cons.prems(3) False show ?thesis by simp
  qed
qed

lemma recv_Inr:
  assumes "content w us c" and "recv_loop z wr evs us w = (Inr u, us2, w2)"
  shows "\<exists>cs b. evs = map Chunk cs \<and> feed_all z (us_decomp us) cs = Inr b \<and>
    (b = [] \<or> length c + length b \<le> lim) \<and> content w2 us2 (c @ b)"
  using assms
proof (induction evs arbitrary: w us c)
  case Nil
  then obtain b dc where d: "decompress_finish z (us_decomp us) = Inr (b, dc)"
    by (cases "decompress_finish z (us_decomp us)") auto
  have c: "content w (us\<lparr> us_decomp := dc \<rparr>) c" using Nil(1) by (simp add: decomp_free)
  have f: "feed_all z (us_decomp us) [] = Inr b" using d by (simp add: feed_all_def)
  show ?case
  proof (cases "b = []")
    case True
    with d c f Nil(2) show ?thesis by auto
  next
    case False
    with d Nil(2) have w: "wr b (us\<lparr> us_decomp := dc \<rparr>) w = (Inr u, us2, w2)" by simp
    have l: "length c + length b \<le> lim"
      using refuses [OF c False] w by (metis Pair_inject not_le sum.distinct(1))
    with takes [OF c False] w f show ?thesis by auto
  qed
next
  case (Cons ev evs)
  then obtain ch where ch: "ev = Chunk ch" by (cases ev) auto
  obtain o1 d1 where d: "decompress z (us_decomp us) ch = Inr (o1, d1)"
    using Cons.prems(2) ch by (cases "decompress z (us_decomp us) ch") auto
  have c: "content w (us\<lparr> us_decomp := d1 \<rparr>) c" using Cons.prems(1) by (simp add: decomp_free)
  show ?case
  proof (cases "o1 = []")
    case True
    with Cons.prems(2) ch d have "recv_loop z wr evs (us\<lparr> us_decomp := d1 \<rparr>) w = (Inr u, us2, w2)" by simp
    from Cons.IH [OF c this] obtain cs b where
      b: "evs = map Chunk cs" "feed_all z d1 cs = Inr b" "b = [] \<or> length c + length b \<le> lim"
      "content w2 us2 (c @ b)" by auto
    have "feed_all z (us_decomp us) (ch # cs) = Inr b"
      unfolding feed_all_Cons using d b(2) True by simp
    with b ch show ?thesis by (intro exI [of _ "ch # cs"] exI [of _ b]) simp
  next
    case False
    then obtain us3 w3 where w: "wr o1 (us\<lparr> us_decomp := d1 \<rparr>) w = (Inr (), us3, w3)"
      "recv_loop z wr evs us3 w3 = (Inr u, us2, w2)"
      using Cons.prems(2) ch d by (auto split: prod.splits sum.splits)
    have l: "length c + length o1 \<le> lim"
      using refuses [OF c False] w(1) by (metis Pair_inject not_le sum.distinct(1))
    from takes [OF c False l] w(1) have w3: "content w3 us3 (c @ o1)" "us_decomp us3 = d1" by auto
    from Cons.IH [OF w3(1) w(2)] w3(2) obtain cs b where
      b: "evs = map Chunk cs" "feed_all z d1 cs = Inr b" "b = [] \<or> length (c @ o1) + length b \<le> lim"
      "content w2 us2 ((c @ o1) @ b)" by auto
    have "feed_all z (us_decomp us) (ch # cs) = Inr (o1 @ b)"
      unfolding feed_all_Cons using d b(2) by simp
    with b l ch show ?thesis by (intro exI [of _ "ch # cs"] exI [of _ "o1 @ b"]) auto
  qed
qed

lemma recv_Inl:
  assumes "content w us c" and "recv_loop z wr evs us w = (Inl e, us2, w2)"
  shows "\<exists>us3 c2. content w2 us3 c2 \<and> us_sink us3 = us_sink us2 \<and>
    (us_gone us2 \<longrightarrow> us_gone us \<or> (\<exists>err. Body_err err \<in> set evs))"
  using assms
proof (induction evs arbitrary: w us c)
  case Nil
  show ?case
  proof (cases "decompress_finish z (us_decomp us)")
    case (Inl e2)
    with Nil show ?thesis by auto
  next
    case (Inr r)
    then obtain b dc where d: "decompress_finish z (us_decomp us) = Inr (b, dc)" by (cases r) auto
    have c: "content w (us\<lparr> us_decomp := dc \<rparr>) c" using Nil(1) by (simp add: decomp_free)
    from d Nil(2) have b: "b \<noteq> []" "wr b (us\<lparr> us_decomp := dc \<rparr>) w = (Inl e, us2, w2)"
      by (auto split: if_splits)
    then have "lim < length c + length b" using takes [OF c b(1)] by (metis Pair_inject not_le sum.distinct(1))
    from refuses [OF c b(1) this] b(2) have "w2 = w" "us_sink us2 = us_sink us" "us_gone us2 = us_gone us" by auto
    with Nil(1) show ?thesis by (intro exI [of _ us] exI [of _ c]) simp
  qed
next
  case (Cons ev evs)
  show ?case
  proof (cases ev)
    case (Body_err err)
    with Cons.prems show ?thesis by (intro exI [of _ us] exI [of _ c]) auto
  next
    case (Chunk ch)
    show ?thesis
    proof (cases "decompress z (us_decomp us) ch")
      case (Inl e2)
      with Cons.prems Chunk show ?thesis by (intro exI [of _ us] exI [of _ c]) auto
    next
      case (Inr r)
      then obtain o1 d1 where d: "decompress z (us_decomp us) ch = Inr (o1, d1)" by (cases r) auto
      have c: "content w (us\<lparr> us_decomp := d1 \<rparr>) c" using Cons.prems(1) by (simp add: decomp_free)
      show ?thesis
      proof (cases "o1 = []")
        case True
        with Cons.prems(2) Chunk d have "recv_loop z wr evs (us\<lparr> us_decomp := d1 \<rparr>) w = (Inl e, us2, w2)" by simp
        from Cons.IH [OF c this] show ?thesis by auto
      next
        case False
        obtain r3 us3 w3 where w: "wr o1 (us\<lparr> us_decomp := d1 \<rparr>) w = (r3, us3, w3)" by (metis prod_cases3)
        show ?thesis
        proof (cases "length c + length o1 \<le> lim")
          case True
          from takes [OF c False this] w have w3: "r3 = Inr ()" "content w3 us3 (c @ o1)" "us_gone us3 = us_gone us"
            by auto
          with Cons.prems(2) Chunk d False w have "recv_loop z wr evs us3 w3 = (Inl e, us2, w2)" by simp
          from Cons.IH [OF w3(2) this] w3(3) show ?thesis by auto
        next
          case False
          then have "lim < length c + length o1" by simp
          from refuses [OF c \<open>o1 \<noteq> []\<close> this] w have r: "\<exists>e2. r3 = Inl e2" "w3 = w"
            "us_sink us3 = us_sink us" "us_gone us3 = us_gone us" by auto
          with Cons.prems(2) Chunk d \<open>o1 \<noteq> []\<close> w have "us2 = us3" "w2 = w" by auto
          with r Cons.prems(1) show ?thesis by (intro exI [of _ us] exI [of _ c]) simp
        qed
      qed
    qed
  qed
qed

end

subsection \<open>The session writer\<close>

definition upload_cap :: "server_state \<Rightarrow> nat \<Rightarrow> nat" where
  "upload_cap sv meta_size = min (sv_max_upload_size sv) meta_size"

definition same_sink :: "fs_sink \<Rightarrow> fs_sink \<Rightarrow> bool" where
  "same_sink a b \<longleftrightarrow> sk_target a = sk_target b \<and> sk_rel a = sk_rel b \<and> sk_mode a = sk_mode b"

text \<open>
  The request started with sink \<open>sk0\<close> on the session \<open>s0\<close> in the file system \<open>fs0\<close> and has
  written \<open>c\<close> at \<open>base\<close>.
\<close>

definition sess_content ::
  "externals \<Rightarrow> nat \<Rightarrow> path \<Rightarrow> string \<Rightarrow> nat \<Rightarrow> nat \<Rightarrow> session \<Rightarrow> fs_sink \<Rightarrow> world \<Rightarrow>
   world \<Rightarrow> upload_state \<Rightarrow> bytes \<Rightarrow> bool" where
  "sess_content x cap d n i base s0 sk0 w0 w us c \<longleftrightarrow>
     ext_ok x \<and> cap < u64_max \<and> base + length c \<le> u64_max \<and> sess_inv s0 \<and>
     us_done us = length c \<and> session_sink d n i (us_sink us) \<and> same_sink sk0 (us_sink us) \<and>
     (\<exists>s. session_at x (w_fs w) d n i s \<and> sess_inv s \<and> sk_ranges (us_sink us) = snd s \<and>
        sess_abs s = sess_abs (sess_put s0 base c)) \<and>
     same_outside (w_fs w0) (w_fs w) (session_names d n) \<and> w_tmp_counter w = w_tmp_counter w0"

lemma sess_put_Nil: "sess_put s off [] = s"
  by (simp add: sess_put_def write_bytes_def merge_range_def chunk_range_is_empty_def
      chunk_range_len_def sat_add_def)

lemma same_outside_step:
  "same_outside a b N \<Longrightarrow> same_outside b c N \<Longrightarrow> same_outside a c N"
  using same_outside_trans [of a b N c N] by simp

lemma sess_put_append:
  assumes "sess_inv s" and "sess_inv s0" and "sess_abs s = sess_abs (sess_put s0 base c)"
    and "base + length c + length b \<le> u64_max"
  shows "sess_abs (sess_put s (base + length c) b) = sess_abs (sess_put s0 base (c @ b))"
  using sess_put_abs [OF assms(1), of "base + length c" b] sess_put_abs [OF assms(2), of base c]
    sess_put_abs [OF assms(2), of base "c @ b"] assms(3,4)
  by (auto simp: fun_eq_iff nth_append)

lemma session_takes:
  assumes c: "sess_content x (upload_cap sv sz) d n i base s0 sk0 w0 w us c"
    and b: "b \<noteq> []" "length c + length b \<le> upload_cap sv sz - base"
  shows "\<exists>us2 w2. write_at_batch x sv base sz b us w = (Inr (), us2, w2) \<and>
    sess_content x (upload_cap sv sz) d n i base s0 sk0 w0 w2 us2 (c @ b) \<and>
    us_decomp us2 = us_decomp us \<and> us_gone us2 = us_gone us"
proof -
  obtain s where s: "session_at x (w_fs w) d n i s" "sess_inv s" "sess_abs s = sess_abs (sess_put s0 base c)"
    using c by (auto simp: sess_content_def)
  have "0 < length b" using b(1) by simp
  with b(2) have l: "base + length c + length b \<le> upload_cap sv sz" by linarith
  moreover have cap: "upload_cap sv sz < u64_max" using c by (simp add: sess_content_def)
  ultimately have u: "base + length c + length b \<le> u64_max" by simp
  have d: "us_done us = length c" using c by (simp add: sess_content_def)
  have k: "session_sink d n i (us_sink us)" "ext_ok x" using c by (simp_all add: sess_content_def)
  obtain sk2 fs2 where w: "sink_write_at x (us_sink us) (base + length c) b w = (Inr sk2, w\<lparr> w_fs := fs2 \<rparr>)"
    "session_at x fs2 d n i (sess_put s (base + length c) b)" "session_sink d n i sk2"
    "sk_ranges sk2 = snd (sess_put s (base + length c) b)" "same_sink (us_sink us) sk2"
    "same_outside (w_fs w) fs2 (session_names d n)"
    using write_at_refines [OF k(2) s(1) k(1), of "base + length c" b] by (auto simp: same_sink_def)
  let ?us2 = "us\<lparr> us_sink := sk2, us_done := length (c @ b) \<rparr>"
  have "write_at_batch x sv base sz b us w = (Inr (), ?us2, w\<lparr> w_fs := fs2 \<rparr>)"
    using l u d w(1) by (simp add: write_at_batch_def upload_cap_def)
  moreover have "sess_content x (upload_cap sv sz) d n i base s0 sk0 w0 (w\<lparr> w_fs := fs2 \<rparr>) ?us2 (c @ b)"
    unfolding sess_content_def
  proof (intro conjI exI [of _ "sess_put s (base + length c) b"])
    show "sess_inv (sess_put s (base + length c) b)" using s(2) u by (rule sess_put_inv)
    show "sess_abs (sess_put s (base + length c) b) = sess_abs (sess_put s0 base (c @ b))"
      using c s u by (intro sess_put_append) (auto simp: sess_content_def)
    show "same_sink sk0 (us_sink ?us2)" using c w(5) by (simp add: sess_content_def same_sink_def)
    show "same_outside (w_fs w0) (w_fs (w\<lparr> w_fs := fs2 \<rparr>)) (session_names d n)"
      using c w(6) same_outside_step by (simp add: sess_content_def) blast
  qed (use c w u in \<open>simp_all add: sess_content_def add.assoc\<close>)
  ultimately show ?thesis by (intro exI [of _ ?us2]) auto
qed

interpretation session_writer: upload_sink "write_at_batch x sv base sz"
  "sess_content x (upload_cap sv sz) d n i base s0 sk0 w0" "upload_cap sv sz - base"
  for x sv base sz d n i s0 sk0 w0
proof unfold_locales
  fix w us c and b :: bytes
  assume c: "sess_content x (upload_cap sv sz) d n i base s0 sk0 w0 w us c" and b: "b \<noteq> []"
  {
    assume "length c + length b \<le> upload_cap sv sz - base"
    with c b show "\<exists>us2 w2. write_at_batch x sv base sz b us w = (Inr (), us2, w2) \<and>
        sess_content x (upload_cap sv sz) d n i base s0 sk0 w0 w2 us2 (c @ b) \<and>
        us_decomp us2 = us_decomp us \<and> us_gone us2 = us_gone us"
      by (rule session_takes)
  next
    assume "upload_cap sv sz - base < length c + length b"
    with c have "upload_cap sv sz < sat_add (sat_add base (us_done us)) (length b)"
      by (auto simp: sess_content_def sat_add_def min_def)
    then show "\<exists>e us2. write_at_batch x sv base sz b us w = (Inl e, us2, w) \<and>
        us_sink us2 = us_sink us \<and> us_gone us2 = us_gone us"
      by (auto simp: write_at_batch_def upload_cap_def Let_def)
  }
next
  show "sess_content x (upload_cap sv sz) d n i base s0 sk0 w0 w (us\<lparr> us_decomp := dc \<rparr>) c =
      sess_content x (upload_cap sv sz) d n i base s0 sk0 w0 w us c" for w us dc c
    by (simp add: sess_content_def)
qed

subsection \<open>The plain writer\<close>

text \<open>
  The sink writes inode \<open>i\<close>, known by the name \<open>q\<close>; the file held \<open>old\<close> before (only an append
  keeps it) and now holds \<open>old @ c\<close>.
\<close>

definition plain_content ::
  "nat \<Rightarrow> path \<Rightarrow> nat \<Rightarrow> bytes \<Rightarrow> fs_sink \<Rightarrow> world \<Rightarrow> world \<Rightarrow> upload_state \<Rightarrow> bytes \<Rightarrow> bool" where
  "plain_content cap q i old sk0 w0 w us c \<longleftrightarrow>
     cap < u64_max \<and> length old + length c \<le> u64_max \<and> us_done us = length c \<and>
     (let sk = us_sink us in
      sk_ino sk = i \<and> sk_tmp sk = sk_tmp sk0 \<and> sk_blocks sk = None \<and> same_sink sk0 sk \<and>
      (\<not> sk_append sk \<longrightarrow> old = [] \<and> sk_pos sk = length c)) \<and>
     fs_wf (w_fs w) \<and> fs_node (w_fs w) q = Some (NFile i) \<and> fs_data (w_fs w) i = old @ c \<and>
     same_outside (w_fs w0) (w_fs w) {q} \<and> w_tmp_counter w = w_tmp_counter w0 \<and>
     fs_node (w_fs w) = fs_node (w_fs w0)"

lemma write_bytes_end: "write_bytes c (length c) b = c @ b"
  by (simp add: write_bytes_def)

lemma plain_takes:
  assumes c: "plain_content (upload_cap sv sz) q i old sk0 w0 w us c"
    and b: "b \<noteq> []" "length c + length b \<le> upload_cap sv sz - length old"
  shows "\<exists>us2 w2. write_batch sv (length old) sz b us w = (Inr (), us2, w2) \<and>
    plain_content (upload_cap sv sz) q i old sk0 w0 w2 us2 (c @ b) \<and>
    us_decomp us2 = us_decomp us \<and> us_gone us2 = us_gone us"
proof -
  let ?sk = "us_sink us" and ?fs = "w_fs w"
  have "0 < length b" using b(1) by simp
  with b(2) have l: "length old + (length c + length b) \<le> upload_cap sv sz" by linarith
  moreover have cap: "upload_cap sv sz < u64_max" using c by (simp add: plain_content_def)
  ultimately have u: "length old + (length c + length b) \<le> u64_max" by simp
  have k: "us_done us = length c" "sk_ino ?sk = i" "fs_data ?fs i = old @ c" "fs_node ?fs q = Some (NFile i)"
    "fs_wf ?fs" and pos: "\<not> sk_append ?sk \<Longrightarrow> old = [] \<and> sk_pos ?sk = length c"
    using c by (auto simp: plain_content_def Let_def)
  let ?p = "if sk_append ?sk then fs_len ?fs i else sk_pos ?sk"
  have wb: "write_bytes (fs_data ?fs i) ?p b = old @ c @ b"
    using pos write_bytes_end [of "old @ c" b] k(3) by (auto simp: fs_len_def)
  let ?fs2 = "fs_write ?fs i ?p b"
  let ?sk2 = "?sk\<lparr> sk_pos := ?p + length b, sk_written := u64_add (sk_written ?sk) (length b) \<rparr>"
  let ?us2 = "us\<lparr> us_done := length (c @ b), us_sink := ?sk2 \<rparr>"
  have "sink_write ?sk b w = (Inr ?sk2, w\<lparr> w_fs := ?fs2 \<rparr>)" using k(2) by (simp add: sink_write_def Let_def)
  then have "write_batch sv (length old) sz b us w = (Inr (), ?us2, w\<lparr> w_fs := ?fs2 \<rparr>)"
    using l u k(1) by (simp add: write_batch_def upload_cap_def)
  moreover have "plain_content (upload_cap sv sz) q i old sk0 w0 (w\<lparr> w_fs := ?fs2 \<rparr>) ?us2 (c @ b)"
  proof -
    have "same_outside ?fs ?fs2 {q}"
      using k(4,5) by (auto simp: same_outside_def fs_write_data fs_wf_def)
    moreover have "same_outside (w_fs w0) ?fs {q}" using c by (simp add: plain_content_def)
    ultimately have "same_outside (w_fs w0) ?fs2 {q}" using same_outside_step by blast
    moreover have "sk_ino ?sk2 = i \<and> sk_tmp ?sk2 = sk_tmp sk0 \<and> sk_blocks ?sk2 = None \<and>
        same_sink sk0 ?sk2 \<and> (\<not> sk_append ?sk2 \<longrightarrow> old = [] \<and> sk_pos ?sk2 = length (c @ b))"
      using c pos by (simp add: plain_content_def Let_def same_sink_def)
    moreover have "fs_data ?fs2 i = old @ c @ b" using wb by (simp add: fs_write_data)
    ultimately show ?thesis
      using c u k(4,5) cap by (simp add: plain_content_def Let_def)
  qed
  ultimately show ?thesis by (intro exI [of _ ?us2]) auto
qed

interpretation plain_writer: upload_sink "write_batch sv (length old) sz"
  "plain_content (upload_cap sv sz) q i old sk0 w0" "upload_cap sv sz - length old"
  for sv sz q i old sk0 w0
proof unfold_locales
  fix w us c and b :: bytes
  assume c: "plain_content (upload_cap sv sz) q i old sk0 w0 w us c" and b: "b \<noteq> []"
  {
    assume "length c + length b \<le> upload_cap sv sz - length old"
    with c b show "\<exists>us2 w2. write_batch sv (length old) sz b us w = (Inr (), us2, w2) \<and>
        plain_content (upload_cap sv sz) q i old sk0 w0 w2 us2 (c @ b) \<and>
        us_decomp us2 = us_decomp us \<and> us_gone us2 = us_gone us"
      by (rule plain_takes)
  next
    assume "upload_cap sv sz - length old < length c + length b"
    with c have "upload_cap sv sz < sat_add (length old) (sat_add (us_done us) (length b))"
      by (auto simp: plain_content_def sat_add_def min_def)
    then show "\<exists>e us2. write_batch sv (length old) sz b us w = (Inl e, us2, w) \<and>
        us_sink us2 = us_sink us \<and> us_gone us2 = us_gone us"
      by (auto simp: write_batch_def upload_cap_def Let_def)
  }
next
  show "plain_content (upload_cap sv sz) q i old sk0 w0 w (us\<lparr> us_decomp := dc \<rparr>) c =
      plain_content (upload_cap sv sz) q i old sk0 w0 w us c" for w us dc c
    by (simp add: plain_content_def)
qed

subsection \<open>The plain protocol\<close>

definition body_decodes :: "'e zrip \<Rightarrow> compression_format \<Rightarrow> body \<Rightarrow> bytes \<Rightarrow> bool" where
  "body_decodes z fmt body b \<longleftrightarrow>
     (\<exists>cs. body = map Chunk cs \<and>
        feed_all z (decompressor_with_limit fmt max_output_per_call) cs = Inr b)"

lemma map_Chunk_inj: "map Chunk xs = map Chunk ys \<longleftrightarrow> xs = ys"
  by (rule inj_map_eq_map) (simp add: inj_def)

lemma body_decodes_unique: "body_decodes z fmt body b \<Longrightarrow> body_decodes z fmt body c \<Longrightarrow> b = c"
  by (auto simp: body_decodes_def map_Chunk_inj)

definition tmp_name :: "string \<Rightarrow> world \<Rightarrow> string" where
  "tmp_name t w = ''.libfw-tmp-'' @ t @ ''-'' @ show_nat (fs_now (w_fs w)) @ ''-'' @ show_nat (w_tmp_counter w)"

lemma tmp_name_longer: "length t < length (tmp_name t w)"
  by (simp add: tmp_name_def)

lemma tmp_name_neq: "tmp_name t w \<noteq> t" "t \<noteq> tmp_name t w"
  using tmp_name_longer [of t w] by (metis less_irrefl)+

definition plain_sink :: "path \<Rightarrow> string \<Rightarrow> string \<Rightarrow> nat \<Rightarrow> string \<Rightarrow> write_mode \<Rightarrow> fs_sink" where
  "plain_sink d n t i p mode =
     \<lparr> sk_ino = i, sk_append = False, sk_pos = 0, sk_tmp = Some (d @ [n]), sk_target = d @ [t],
       sk_rel = p, sk_mode = mode, sk_written = 0, sk_blocks = None, sk_ranges = [] \<rparr>"

definition opened :: "path \<Rightarrow> string \<Rightarrow> world \<Rightarrow> world" where
  "opened d n w = \<lparr> w_fs = snd (new_file (w_fs w) (d @ [n])), w_tmp_counter = u64_add (w_tmp_counter w) 1 \<rparr>"

lemma open_plain:
  assumes t: "target_at st (w_fs w) p d t"
    and m: "mode = WM_Overwrite \<or> mode = WM_Create \<and> fs_node (w_fs w) (d @ [t]) = None"
    and n: "fs_node (w_fs w) (d @ [tmp_name t w]) = None"
  shows "write_stream st p mode w =
    (Inr (plain_sink d (tmp_name t w) t (fs_next (w_fs w)) p mode), opened d (tmp_name t w) w)"
proof -
  have d: "dir_ok (w_fs w) d" "free_name (w_fs w) (d @ [t])" using t by (auto simp: target_at_def)
  have ex: "mode = WM_Create \<Longrightarrow> fs_try_exists (w_fs w) (d @ [t]) = Inr False"
    using exists_in_dir [OF d(1)] free_not_dir [OF d(2)] m by auto
  have tp: "temp_path_for (d @ [t]) w =
      (Inr (d @ [tmp_name t w]), w\<lparr> w_tmp_counter := u64_add (w_tmp_counter w) 1 \<rparr>)"
    by (simp add: temp_path_for_def tmp_name_def name_or_upload_def file_name_def)
  have c: "fs_create (w_fs w) (d @ [tmp_name t w]) =
      Inr (fs_next (w_fs w), snd (new_file (w_fs w) (d @ [tmp_name t w])))"
    using create_none [OF d(1) n] by (metis new_file_fields(1) prod.collapse)
  show ?thesis
    using m ex tp c
    by (auto simp: write_stream_def sm_bind_def open_path_at [OF t] fs_query_def sm_ret_def fs_step_def
        plain_sink_def opened_def)
qed

lemma opened_content:
  assumes "fs_wf (w_fs w)" and "cap < u64_max"
  shows "plain_content cap (d @ [n]) (fs_next (w_fs w)) [] (plain_sink d n t (fs_next (w_fs w)) p mode)
    (opened d n w) (opened d n w) (upload_start (plain_sink d n t (fs_next (w_fs w)) p mode) fmt) []"
  using assms by (simp add: plain_content_def opened_def plain_sink_def upload_start_def same_sink_def
      fs_wf_new_file new_file_node)

text \<open>Before and after: the temp name is gone again.\<close>

lemma opened_back:
  assumes wf: "fs_wf (w_fs w)" and n: "fs_node (w_fs w) (d @ [n]) = None"
    and s: "same_outside (w_fs (opened d n w)) (w_fs w2) {d @ [n]}"
    and f3: "\<And>q. fs_node fs3 q = (if q = d @ [n] then None else fs_node (w_fs w2) q)"
      "fs_data fs3 = fs_data (w_fs w2)" "fs_now fs3 = fs_now (w_fs w2)"
  shows "same_outside (w_fs w) fs3 {}"
proof -
  have s1: "fs_node (w_fs w2) q = fs_node (w_fs w) q" if "q \<noteq> d @ [n]" for q
    using same_outside_node [OF s, of q] that by (simp add: opened_def new_file_node)
  have s2: "fs_data (w_fs w2) k = fs_data (w_fs w) k" if "fs_node (w_fs w) q = Some (NFile k)" for q k
  proof -
    have q: "q \<noteq> d @ [n]" using n that by auto
    have k: "k \<noteq> fs_next (w_fs w)" using wf that by (auto simp: fs_wf_def)
    from q that have "fs_node (w_fs (opened d n w)) q = Some (NFile k)" by (simp add: opened_def new_file_node)
    with same_outside_data [OF s, of q k] q k show ?thesis by (simp add: opened_def)
  qed
  have "fs_now fs3 = fs_now (w_fs w)" using s f3(3) by (simp add: same_outside_def opened_def)
  with s1 s2 n show ?thesis by (auto simp: same_outside_def f3)
qed

lemma abort_plain:
  assumes c: "plain_content cap (d @ [n]) i [] sk0 w0 w us c" and k: "sk_tmp sk0 = Some (d @ [n])"
    and d: "dir_ok (w_fs w) d"
  shows "sink_abort (us_sink us) w = (Inr (), w\<lparr> w_fs := del_node (w_fs w) (d @ [n]) \<rparr>)"
proof -
  have "fs_node (w_fs w) (d @ [n]) = Some (NFile i)" using c by (auto simp: plain_content_def)
  with remove_file [OF d] have "fs_remove_file (w_fs w) (d @ [n]) = Inr (del_node (w_fs w) (d @ [n]))" .
  with c k show ?thesis
    by (auto simp: sink_abort_def remove_blocks_sidecar_def plain_content_def Let_def sm_bind_def
        fs_attempt_def sm_ret_def)
qed

lemma commit_plain:
  assumes c: "plain_content cap (d @ [n]) i [] sk0 w0 w us c"
    and k: "sk_tmp sk0 = Some (d @ [n])" "sk_target sk0 = d @ [t]"
    and d: "dir_ok (w_fs w) d" and t: "free_name (w_fs w) (d @ [t])" "n \<noteq> t"
    and m: "sk_mode sk0 = WM_Create \<Longrightarrow> fs_node (w_fs w) (d @ [t]) = None"
  shows "\<exists>meta. sink_commit x (us_sink us) w =
      (Inr meta, w\<lparr> w_fs := set_node (del_node (w_fs w) (d @ [n])) (d @ [t]) (NFile i) \<rparr>) \<and>
    fm_path meta = sk_rel sk0 \<and> fm_size meta = length c"
proof -
  let ?fs = "w_fs w" and ?sk = "us_sink us"
  let ?fs2 = "set_node (del_node ?fs (d @ [n])) (d @ [t]) (NFile i)"
  have s: "fs_node ?fs (d @ [n]) = Some (NFile i)" "fs_data ?fs i = c" "sk_tmp ?sk = Some (d @ [n])"
    "sk_blocks ?sk = None" "sk_target ?sk = d @ [t]" "sk_rel ?sk = sk_rel sk0" "sk_mode ?sk = sk_mode sk0"
    using c k by (auto simp: plain_content_def Let_def same_sink_def)
  have ex: "sk_mode ?sk = WM_Create \<Longrightarrow> fs_try_exists ?fs (d @ [t]) = Inr False"
    using exists_in_dir [OF d] free_not_dir [OF t(1)] m s(7) by auto
  have rn: "fs_rename ?fs (d @ [n]) (d @ [t]) = Inr ?fs2"
    using rename_file [OF d s(1) t(2)] free_not_dir [OF t(1)] by blast
  have "dir_ok ?fs2 d" using d by simp
  then have st: "fs_stat ?fs2 True (d @ [t]) = Inr (NFile i)"
    by (subst stat_in_dir(2)) (simp_all add: fs_node_set is_link_def)
  have "sink_commit x ?sk w = (Inr (file_meta_at x (sk_rel sk0) ?fs2 (NFile i)), w\<lparr> w_fs := ?fs2 \<rparr>)"
    using s ex rn st
    by (auto simp: sink_commit_def remove_blocks_sidecar_def sm_bind_def sm_ret_def fs_query_def fs_step_def)
  with s(2) show ?thesis by (auto simp: file_meta_at_def Let_def meta_len_def fs_len_def)
qed

text \<open>
  C14: a plain upload to a name of an existing directory (Create on a free name, or Overwrite) is all
  or nothing.  If the body arrives complete, decodes to at most the declared and the maximal size and,
  on a final chunk, to exactly the declared size, the answer is 201 and the target holds exactly
  the decoded bytes; in every other case the answer is an error and every name and every file is as
  it was.  In both cases nothing but the target changes and the temp file is gone.
\<close>

theorem plain_upload_all_or_nothing:
  assumes t: "target_at (sv_storage sv) (w_fs w) p d t" and hm: "plain_mode hs = Inr mode"
    and m: "mode = WM_Overwrite \<or> mode = WM_Create \<and> fs_node (w_fs w) (d @ [t]) = None"
    and n: "fs_node (w_fs w) (d @ [tmp_name t w]) = None"
    and cap: "upload_cap sv (fm_size meta) < u64_max"
  shows "\<exists>res w2. upload_plain z x sv rnd p meta fmt final_chunk hs body w = (res, w2) \<and>
    (if \<exists>b. body_decodes z fmt body b \<and> length b \<le> upload_cap sv (fm_size meta) \<and>
          (final_chunk \<longrightarrow> length b = fm_size meta)
     then \<exists>b i m. body_decodes z fmt body b \<and> res = Inr (upload_ok m) \<and> fm_size m = length b \<and>
          fs_node (w_fs w2) (d @ [t]) = Some (NFile i) \<and> fs_data (w_fs w2) i = b \<and>
          same_outside (w_fs w) (w_fs w2) {d @ [t]}
     else (\<exists>e. res = Inl e) \<and> same_outside (w_fs w) (w_fs w2) {})"
proof -
  let ?n = "tmp_name t w" and ?i = "fs_next (w_fs w)" and ?cap = "upload_cap sv (fm_size meta)"
  let ?sk = "plain_sink d ?n t ?i p mode" and ?w1 = "opened d ?n w"
  let ?us = "upload_start ?sk fmt" and ?c = "plain_content ?cap (d @ [?n]) ?i [] ?sk ?w1"
  let ?ok = "\<lambda>b. body_decodes z fmt body b \<and> length b \<le> ?cap \<and> (final_chunk \<longrightarrow> length b = fm_size meta)"
  have d: "dir_ok (w_fs w) d" "fs_wf (w_fs w)" "free_name (w_fs w) (d @ [t])" using t by (auto simp: target_at_def)
  have c1: "?c ?w1 ?us []" by (rule opened_content [OF d(2) cap])
  have off: "resume_offset_of mode = 0" using m by (auto simp: resume_offset_of_def)
  obtain r us2 w2 where loop: "recv_loop z (write_batch sv 0 (fm_size meta)) body ?us ?w1 = (r, us2, w2)"
    by (metis prod_cases3)
  have dk: "dir_ok (w_fs w2) d" if "?c w2 us3 c" for us3 c
  proof -
    have "fs_node (w_fs w2) = fs_node (w_fs ?w1)" using that by (simp add: plain_content_def)
    with d(1) show ?thesis by (auto simp: opened_def intro: dir_ok_cong dir_ok_new_file)
  qed
  have bk: "same_outside (w_fs w) (del_node (w_fs w2) (d @ [?n])) {}" if "?c w2 us3 c" for us3 c
    using that by (intro opened_back [OF d(2) n, of w2]) (auto simp: plain_content_def fs_node_del)
  have start: "upload_plain z x sv rnd p meta fmt final_chunk hs body w =
      (case (r, us2, w2) of
         (Inl e, us, w2) \<Rightarrow> abort_with (us_sink us) e w2
       | (Inr _, us, w2) \<Rightarrow>
           (let final_size = sat_add 0 (us_done us) in
            if final_chunk \<and> final_size \<noteq> fm_size meta
            then abort_with (us_sink us) (Bad_Request (''final chunk yields '' @ show_nat final_size @
                   '' bytes but the declared file size is '' @ show_nat (fm_size meta))) w2
            else am_bind (am_st (sink_commit x (us_sink us))) (\<lambda>committed.
              am_ret (upload_ok (committed\<lparr> fm_path := expose_path sv rnd (fm_path committed) \<rparr>))) w2))"
    using hm off loop open_plain [OF t m n] by (simp add: upload_plain_def am_simps)
  have fail: ?thesis if no: "\<not> (\<exists>b. ?ok b)" and c: "?c w2 us3 c" "us_sink us3 = us_sink us2"
    and res: "upload_plain z x sv rnd p meta fmt final_chunk hs body w = abort_with (us_sink us2) e w2"
    for us3 c e
  proof -
    have "snd (sink_abort (us_sink us2) w2) = w2\<lparr> w_fs := del_node (w_fs w2) (d @ [?n]) \<rparr>"
      using abort_plain [OF c(1) _ dk [OF c(1)]] c(2) by (simp add: plain_sink_def)
    with res no bk [OF c(1)] show ?thesis by (simp add: abort_with_def)
  qed
  show ?thesis
  proof (cases r)
    case (Inl e)
    obtain us3 c where c: "?c w2 us3 c" "us_sink us3 = us_sink us2"
      using plain_writer.recv_Inl [OF c1] loop Inl by fastforce
    have "\<not> ?ok b" for b
    proof (rule notI)
      assume b: "?ok b"
      then obtain cs where cs: "body = map Chunk cs" "feed_all z (us_decomp ?us) cs = Inr b"
        by (auto simp: body_decodes_def upload_start_def)
      with plain_writer.recv_ok [OF c1 cs(2)] b loop Inl show False by auto
    qed
    then have no: "\<not> (\<exists>b. ?ok b)" by blast
    show ?thesis by (rule fail [OF no c, of e]) (use start Inl in simp)
  next
    case (Inr u)
    obtain cs b where b: "body = map Chunk cs" "feed_all z (us_decomp ?us) cs = Inr b"
      "b = [] \<or> length b \<le> ?cap" "?c w2 us2 b"
      using plain_writer.recv_Inr [OF c1] loop Inr by fastforce
    have dec: "body_decodes z fmt body b" using b(1,2) by (auto simp: body_decodes_def upload_start_def)
    have len: "length b \<le> ?cap" using b(3) by auto
    have dn: "sat_add 0 (us_done us2) = length b" using b(4) by (auto simp: plain_content_def)
    show ?thesis
    proof (cases "final_chunk \<and> length b \<noteq> fm_size meta")
      case True
      then have no: "\<not> (\<exists>b. ?ok b)" using dec body_decodes_unique by blast
      show ?thesis by (rule fail [OF no b(4) refl]) (use start Inr True dn in \<open>simp add: Let_def\<close>)
    next
      case False
      have nt: "fs_node (w_fs w2) (d @ [t]) = fs_node (w_fs w) (d @ [t])"
        using b(4) tmp_name_neq [of t w] by (simp add: plain_content_def opened_def new_file_node)
      obtain m where m2: "sink_commit x (us_sink us2) w2 =
          (Inr m, w2\<lparr> w_fs := set_node (del_node (w_fs w2) (d @ [?n])) (d @ [t]) (NFile ?i) \<rparr>)"
        "fm_size m = length b"
        using commit_plain [OF b(4) _ _ dk [OF b(4)], of t x] nt d(3) m tmp_name_neq [of t w]
        by (auto simp: plain_sink_def free_name_def)
      let ?fs3 = "set_node (del_node (w_fs w2) (d @ [?n])) (d @ [t]) (NFile ?i)"
      have "same_outside (w_fs w) ?fs3 {d @ [t]}"
        using bk [OF b(4)] by (auto simp: same_outside_def fs_node_set)
      moreover have "fs_data ?fs3 ?i = b" using b(4) by (simp add: plain_content_def)
      moreover have "upload_plain z x sv rnd p meta fmt final_chunk hs body w =
          (Inr (upload_ok (m\<lparr> fm_path := expose_path sv rnd (fm_path m) \<rparr>)), w2\<lparr> w_fs := ?fs3 \<rparr>)"
        using start Inr False dn m2(1) by (auto simp: Let_def am_simps)
      moreover have "fs_node ?fs3 (d @ [t]) = Some (NFile ?i)" by (simp add: fs_node_set)
      moreover have "fm_size (m\<lparr> fm_path := expose_path sv rnd (fm_path m) \<rparr>) = length b" using m2(2) by simp
      moreover have ok: "\<exists>b. ?ok b" using dec len False by blast
      ultimately show ?thesis
        unfolding if_P [OF ok] using dec
        by (intro exI [of _ "Inr (upload_ok (m\<lparr> fm_path := expose_path sv rnd (fm_path m) \<rparr>))"]
            exI [of _ "w2\<lparr> w_fs := ?fs3 \<rparr>"] exI [of _ b] exI [of _ ?i]
            exI [of _ "m\<lparr> fm_path := expose_path sv rnd (fm_path m) \<rparr>"] conjI) simp_all
    qed
  qed
qed

definition demo_put_headers :: headers where
  "demo_put_headers = [(''x-libfw-offset'', as_bytes (show_nat 0))]"

definition demo_meta :: file_meta where
  "demo_meta = \<lparr> fm_path = ''a'', fm_size = 2, fm_mtime = 0, fm_etag = [] \<rparr>"

theorem plain_upload_all_or_nothing_witness:
  "\<exists>m w2 i. upload_plain raw_zrip demo_ext (demo_state identity_codec) [] ''a'' demo_meta Fmt_None True
      demo_put_headers [Chunk [1], Chunk [2]] demo_world = (Inr (upload_ok m), w2) \<and>
    fs_node (w_fs w2) [''srv'', ''a''] = Some (NFile i) \<and> fs_data (w_fs w2) i = [1, 2]"
proof -
  let ?sv = "demo_state identity_codec"
  have f: "feed_all raw_zrip (decompressor_with_limit Fmt_None max_output_per_call) [[1], [2]] = Inr [1, 2]"
    by (simp add: feed_all_def decompressor_with_limit_def)
  have "[Chunk [1], Chunk [2]] = map Chunk cs \<longleftrightarrow> cs = [[1], [2 :: byte]]" for cs
    using map_Chunk_inj [of "[[1], [2]]" cs] by auto
  with f have b: "body_decodes raw_zrip Fmt_None [Chunk [1], Chunk [2]] b \<longleftrightarrow> b = [1, 2]" for b
    by (auto simp: body_decodes_def)
  have m: "plain_mode demo_put_headers = Inr WM_Overwrite"
    by (simp add: plain_mode_def offset_header_def demo_put_headers_def header_get_def header_text_printable
        u64_max_def)
  have z: "fm_size demo_meta = 2" by (simp add: demo_meta_def)
  have c: "upload_cap ?sv 2 = 2" by (simp add: upload_cap_def) (simp add: demo_state_def)
  have n: "fs_node (w_fs demo_world) ([''srv''] @ [tmp_name ''a'' demo_world]) = None"
    by (simp add: demo_world_def demo_node tmp_name_def)
  show ?thesis
    using plain_upload_all_or_nothing [OF demo_target [of identity_codec] m _ n, of demo_meta raw_zrip demo_ext "[]" Fmt_None True
        "[Chunk [1], Chunk [2]]"]
    unfolding b c z by (auto simp: u64_max_def)
qed

end
