(* ===== verification/Upload_Session.thy ===== *)
theory Upload_Session
  imports Upload_Props
begin

text \<open>
  The session protocol from the outside: the requests of one session, in any order, with any
  disconnects between them, assemble the file.  The state between two requests is what the server
  keeps on disk: the temp file and its list of received ranges.
\<close>

subsection \<open>The state between requests\<close>

text \<open>
  The session of temp name \<open>n\<close> holds \<open>s\<close>; a session without files has received nothing.
\<close>

definition session_holds :: "externals \<Rightarrow> fsys \<Rightarrow> path \<Rightarrow> string \<Rightarrow> session \<Rightarrow> bool" where
  "session_holds x fs d n s \<longleftrightarrow> sess_inv s \<and>
     ((\<exists>i. session_at x fs d n i s) \<or>
      s = ([], []) \<and> fs_node fs (d @ [n]) = None \<and> free_name fs (d @ [blocks_name n]) \<and>
      free_name fs (d @ [blocks_tmp_name n]))"

lemma open_session:
  assumes x: "ext_ok x" and t: "target_at st (w_fs w) p d t"
    and s: "session_holds x (w_fs w) d (sess_name t session owner) s"
  shows "\<exists>sk w1 i. write_stream_session x st p session owner WM_Overwrite w = (Inr sk, w1) \<and>
    session_at x (w_fs w1) d (sess_name t session owner) i s \<and>
    session_sink d (sess_name t session owner) i sk \<and> sk_ranges sk = snd s \<and>
    sk_target sk = d @ [t] \<and> sk_rel sk = p \<and> sk_mode sk = WM_Overwrite \<and>
    same_outside (w_fs w) (w_fs w1) (session_names d (sess_name t session owner)) \<and>
    w_tmp_counter w1 = w_tmp_counter w"
proof (cases "\<exists>i. session_at x (w_fs w) d (sess_name t session owner) i s")
  case True
  then obtain i where "session_at x (w_fs w) d (sess_name t session owner) i s" ..
  from open_session_existing [OF x t this, of WM_Overwrite] this show ?thesis
    by (metis same_outside_refl)
next
  case False
  with s have f: "s = ([], [])" "fs_node (w_fs w) (d @ [sess_name t session owner]) = None"
    "free_name (w_fs w) (d @ [blocks_name (sess_name t session owner)])"
    "free_name (w_fs w) (d @ [blocks_tmp_name (sess_name t session owner)])"
    by (auto simp: session_holds_def)
  from open_session_fresh [OF t _ f(2-4), of WM_Overwrite x] obtain sk fs2 where
    o: "write_stream_session x st p session owner WM_Overwrite w = (Inr sk, w\<lparr> w_fs := fs2 \<rparr>)"
    "session_at x fs2 d (sess_name t session owner) (sk_ino sk) ([], [])"
    "session_sink d (sess_name t session owner) (sk_ino sk) sk" "sk_ranges sk = []"
    "sk_target sk = d @ [t]" "sk_rel sk = p" "sk_mode sk = WM_Overwrite"
    "same_outside (w_fs w) fs2 (session_names d (sess_name t session owner))" by blast
  then show ?thesis
    by (intro exI [of _ sk] exI [of _ "w\<lparr> w_fs := fs2 \<rparr>"] exI [of _ "sk_ino sk"]) (simp add: f(1))
qed

lemma target_still:
  assumes t: "target_at st fs p d t" and s: "session_at x fs2 d n i s"
    and o: "same_outside fs fs2 (session_names d n)" and n: "d @ [t] \<notin> session_names d n"
  shows "target_at st fs2 p d t"
  using t s same_outside_node [OF o n] by (simp add: target_at_def session_at_def free_name_def)

subsection \<open>One request\<close>

text \<open>
  A request that sends the piece of \<open>D\<close> at \<open>off\<close>: it names its offset, is no probe, and its body
  decodes to the bytes of the file there.
\<close>

definition sends_piece ::
  "'e zrip \<Rightarrow> bytes \<Rightarrow> headers \<times> compression_format \<times> body \<Rightarrow> nat \<Rightarrow> bytes \<Rightarrow> bool" where
  "sends_piece z D r off b \<longleftrightarrow>
     (case r of (hs, fmt, body) \<Rightarrow>
        offset_header hs \<noteq> None \<and> session_base hs = Inr off \<and> \<not> status_probe hs \<and>
        body_decodes z fmt body b \<and> off + length b \<le> length D \<and> b = take (length b) (drop off D))"

text \<open>The sink of a request, before its body is read.\<close>

lemma session_opened:
  assumes x: "ext_ok x" and t: "target_at (sv_storage sv) (w_fs w) p d t"
    and s: "session_holds x (w_fs w) d (sess_name t session owner) s"
    and cap: "off \<le> upload_cap sv sz" "upload_cap sv sz < u64_max"
  shows "\<exists>sk w1 i. write_stream_session x (sv_storage sv) p session owner WM_Overwrite w = (Inr sk, w1) \<and>
    sess_content x (upload_cap sv sz) d (sess_name t session owner) i off s sk w1 w1 (upload_start sk fmt) [] \<and>
    sk_target sk = d @ [t] \<and> sk_rel sk = p \<and> sk_mode sk = WM_Overwrite \<and>
    same_outside (w_fs w) (w_fs w1) (session_names d (sess_name t session owner))"
proof -
  let ?n = "sess_name t session owner"
  have inv: "sess_inv s" using s by (simp add: session_holds_def)
  obtain sk w1 i where o: "write_stream_session x (sv_storage sv) p session owner WM_Overwrite w = (Inr sk, w1)"
    "session_at x (w_fs w1) d ?n i s" "session_sink d ?n i sk" "sk_ranges sk = snd s"
    "sk_target sk = d @ [t]" "sk_rel sk = p" "sk_mode sk = WM_Overwrite"
    "same_outside (w_fs w) (w_fs w1) (session_names d ?n)"
    using open_session [OF x t s] by blast
  have "sess_content x (upload_cap sv sz) d ?n i off s sk w1 w1 (upload_start sk fmt) []"
    unfolding sess_content_def
    by (intro conjI exI [of _ s])
      (use x inv o cap in \<open>simp_all add: upload_start_def same_sink_def sess_put_Nil\<close>)
  with o show ?thesis by blast
qed

text \<open>The request up to the end of its body: the batches are in the session.\<close>

lemma session_received:
  assumes x: "ext_ok x" and t: "target_at (sv_storage sv) (w_fs w) p d t"
    and s: "session_holds x (w_fs w) d (sess_name t session owner) s"
    and own: "owner = owner_tag x (tc_sub claims)"
    and r: "sends_piece z D (hs, fmt, body) off b"
    and cap: "length D \<le> upload_cap sv (fm_size meta)" "upload_cap sv (fm_size meta) < u64_max"
  shows "\<exists>(us :: upload_state) w2 i s2. upload_session z x sv rnd p session claims meta fmt fin hs body w =
      (if fin then session_commit x sv rnd meta (us_sink us) w2 else (Inr (upload_ok meta), w2)) \<and>
    session_at x (w_fs w2) d (sess_name t session owner) i s2 \<and> sess_inv s2 \<and>
    sess_abs s2 = sess_abs (sess_put s off b) \<and>
    session_sink d (sess_name t session owner) i (us_sink us) \<and> sk_ranges (us_sink us) = snd s2 \<and>
    sk_target (us_sink us) = d @ [t] \<and> sk_rel (us_sink us) = p \<and> sk_mode (us_sink us) = WM_Overwrite \<and>
    same_outside (w_fs w) (w_fs w2) (session_names d (sess_name t session owner))"
proof -
  let ?n = "sess_name t session owner" and ?cap = "upload_cap sv (fm_size meta)"
  have off: "off + length b \<le> length D" "session_base hs = Inr off" "offset_header hs \<noteq> None" "\<not> status_probe hs"
    using r by (auto simp: sends_piece_def)
  obtain sk w1 i where o: "write_stream_session x (sv_storage sv) p session owner WM_Overwrite w = (Inr sk, w1)"
    "sess_content x ?cap d ?n i off s sk w1 w1 (upload_start sk fmt) []"
    "sk_target sk = d @ [t]" "sk_rel sk = p" "sk_mode sk = WM_Overwrite"
    "same_outside (w_fs w) (w_fs w1) (session_names d ?n)"
    using session_opened [OF x t s, of off "fm_size meta"] off(1) cap by fastforce
  let ?us = "upload_start sk fmt"
  let ?c = "sess_content x ?cap d ?n i off s sk w1"
  obtain cs where cs: "body = map Chunk cs" "feed_all z (us_decomp ?us) cs = Inr b"
    using r by (auto simp: sends_piece_def body_decodes_def upload_start_def)
  have "length ([] :: bytes) + length b \<le> ?cap - off" using off(1) cap(1) by simp
  from session_writer.recv_ok [OF o(2) cs(2) this] obtain us w2 where
    l: "recv_loop z (write_at_batch x sv off (fm_size meta)) body ?us w1 = (Inr (), us, w2)" "?c w2 us b"
    by (auto simp: cs(1))
  from l(2) obtain s2 where s2: "session_at x (w_fs w2) d ?n i s2" "sess_inv s2"
    "sk_ranges (us_sink us) = snd s2" "sess_abs s2 = sess_abs (sess_put s off b)"
    by (auto simp: sess_content_def)
  have "upload_session z x sv rnd p session claims meta fmt fin hs body w =
      (if fin then session_commit x sv rnd meta (us_sink us) w2 else (Inr (upload_ok meta), w2))"
    using off o(1) l(1) own
    by (cases "offset_header hs") (simp_all add: upload_session_def am_simps Let_def)
  moreover have "session_sink d ?n i (us_sink us)" "same_sink sk (us_sink us)"
    "same_outside (w_fs w1) (w_fs w2) (session_names d ?n)"
    using l(2) by (simp_all add: sess_content_def)
  moreover from o(6) this(3) have "same_outside (w_fs w) (w_fs w2) (session_names d ?n)"
    by (rule same_outside_step)
  ultimately show ?thesis
    using s2 o(3-5)
    by (intro exI [of _ us] exI [of _ w2] exI [of _ i] exI [of _ s2]) (simp add: same_sink_def)
qed

lemma session_commit_result:
  assumes x: "ext_ok x" and s: "session_at x (w_fs w) d n i s" "sess_inv s" and k: "session_sink d n i sk"
    "sk_ranges sk = snd s" "sk_target sk = d @ [t]" "sk_rel sk = p" "sk_mode sk = WM_Overwrite"
    and t: "free_name (w_fs w) (d @ [t])" "d @ [t] \<notin> session_names d n"
  shows "\<exists>res w2. session_commit x sv rnd meta sk w = (res, w2) \<and>
    fs_node (w_fs w2) (d @ [n]) = None \<and> fs_node (w_fs w2) (d @ [blocks_name n]) = None \<and>
    fs_wf (w_fs w2) \<and> dir_ok (w_fs w2) d \<and> free_name (w_fs w2) (d @ [blocks_tmp_name n]) \<and>
    (if dom (sess_abs s) = {..<fm_size meta}
     then \<exists>m. res = Inr (upload_ok m) \<and> fm_size m = fm_size meta \<and>
       fs_node (w_fs w2) (d @ [t]) = Some (NFile i) \<and> fs_data (w_fs w2) i = fst s \<and>
       same_outside (w_fs w) (w_fs w2) (insert (d @ [t]) (session_names d n))
     else (\<exists>e. res = Inl (Bad_Request e)) \<and> same_outside (w_fs w) (w_fs w2) (session_names d n))"
proof -
  let ?len = "length (fst s)" and ?cov = "covered_bytes (snd s)"
  have l: "fs_len (w_fs w) (sk_ino sk) = ?len"
    using s(1) k(1) by (simp add: fs_len_def session_at_def session_sink_def)
  have cov: "sum_list (map (\<lambda>r. c_end r - c_start r) (snd s)) = ?cov" by (simp add: covered_bytes_def chunk_range_len_def [abs_def])
  have full: "?len = fm_size meta \<and> (snd s \<noteq> [] \<longrightarrow> ?cov = fm_size meta) \<longleftrightarrow> dom (sess_abs s) = {..<fm_size meta}"
  proof
    assume "?len = fm_size meta \<and> (snd s \<noteq> [] \<longrightarrow> ?cov = fm_size meta)"
    then show "dom (sess_abs s) = {..<fm_size meta}" using sess.commit_complete [OF s(2)] by simp
  next
    assume d: "dom (sess_abs s) = {..<fm_size meta}"
    have r: "ranges_wf (snd s) \<and> ranges_set (snd s) = dom (sess_abs s)" by (rule sess.ranges_ok [OF s(2)])
    then have "?cov = fm_size meta" using covered_bytes_card d by (metis card_lessThan)
    moreover have "dom (sess_abs s) \<subseteq> {..<?len} \<and> (0 < ?len \<longrightarrow> ?len - 1 \<in> dom (sess_abs s))"
      by (rule sess.len_ok [OF s(2)])
    then have "?len = fm_size meta" unfolding d by (cases "fm_size meta") auto
    ultimately show "?len = fm_size meta \<and> (snd s \<noteq> [] \<longrightarrow> ?cov = fm_size meta)" by simp
  qed
  have tmp: "free_name (w_fs w) (d @ [blocks_tmp_name n])" using s(1) by (simp add: session_at_def)
  show ?thesis
  proof (cases "dom (sess_abs s) = {..<fm_size meta}")
    case True
    with full have f: "?len = fm_size meta" "snd s \<noteq> [] \<longrightarrow> ?cov = fm_size meta" by blast+
    have "sk_mode sk = WM_Create \<Longrightarrow> fs_node (w_fs w) (d @ [t]) = None" using k(5) by simp
    from commit_session [OF s(1) k(1,3) t this] obtain m fs2 where
      c: "sink_commit x sk w = (Inr m, w\<lparr> w_fs := fs2 \<rparr>)" "fs_node fs2 (d @ [t]) = Some (NFile i)"
      "fs_data fs2 i = fst s" "fm_size m = ?len" "fs_node fs2 (d @ [n]) = None"
      "fs_node fs2 (d @ [blocks_name n]) = None"
      "same_outside (w_fs w) fs2 (insert (d @ [t]) (session_names d n))" "fs_wf fs2" "dir_ok fs2 d"
      "fs_node fs2 (d @ [blocks_tmp_name n]) = fs_node (w_fs w) (d @ [blocks_tmp_name n])" by blast
    have "session_commit x sv rnd meta sk w =
        (Inr (upload_ok (m\<lparr> fm_path := expose_path sv rnd (fm_path m) \<rparr>)), w\<lparr> w_fs := fs2 \<rparr>)"
      using f l cov k(2) c(1)
      by (cases "snd s = []")
        (simp_all add: session_commit_def am_simps sink_len_def sink_received_ranges_def sm_ret_def Let_def)
    with c f(1) True tmp show ?thesis
      by (intro exI [of _ "Inr (upload_ok (m\<lparr> fm_path := expose_path sv rnd (fm_path m) \<rparr>))"]
          exI [of _ "w\<lparr> w_fs := fs2 \<rparr>"]) (auto simp: free_name_def)
  next
    case False
    from abort_session [OF s(1) k(1)] obtain fs2 where
      a: "sink_abort sk w = (Inr (), w\<lparr> w_fs := fs2 \<rparr>)" "fs_node fs2 (d @ [n]) = None"
      "fs_node fs2 (d @ [blocks_name n]) = None" "same_outside (w_fs w) fs2 (session_names d n)" "fs_wf fs2" "dir_ok fs2 d"
      "fs_node fs2 (d @ [blocks_tmp_name n]) = fs_node (w_fs w) (d @ [blocks_tmp_name n])" by blast
    have "\<exists>e. session_commit x sv rnd meta sk w = (Inl (Bad_Request e), w\<lparr> w_fs := fs2 \<rparr>)"
    proof (cases "?len = fm_size meta")
      case True
      with full False have "snd s \<noteq> []" "?cov \<noteq> fm_size meta" by blast+
      with True l cov k(2) a(1) show ?thesis
        by (simp add: session_commit_def am_simps sink_len_def sink_received_ranges_def sm_ret_def Let_def
            abort_with_def)
    next
      case False
      with l a(1) show ?thesis
        by (simp add: session_commit_def am_simps sink_len_def sm_ret_def Let_def abort_with_def)
    qed
    with a False tmp show ?thesis by (auto simp: free_name_def)
  qed
qed

subsection \<open>A whole session\<close>

text \<open>The requests that are not the last, one after the other; their answers are ignored.\<close>

type_synonym request = "headers \<times> compression_format \<times> body"

fun session_requests ::
  "'e zrip \<Rightarrow> externals \<Rightarrow> server_state \<Rightarrow> bytes \<Rightarrow> string \<Rightarrow> string \<Rightarrow> token_claims \<Rightarrow> file_meta \<Rightarrow>
   request list \<Rightarrow> world \<Rightarrow> world" where
  "session_requests z x sv rnd p session claims meta [] w = w"
| "session_requests z x sv rnd p session claims meta ((hs, fmt, body) # rs) w =
     session_requests z x sv rnd p session claims meta rs
       (snd (upload_session z x sv rnd p session claims meta fmt False hs body w))"

lemma sess_abs_pieces_cong:
  assumes "sess_inv s" and "sess_inv s2" and "sess_abs s = sess_abs s2" and "length d \<le> u64_max"
    and "\<forall>(off, b)\<in>set ps. off + length b \<le> length d"
  shows "sess_abs (fold (\<lambda>(off, b) s. sess_put s off b) ps s) = sess_abs (fold (\<lambda>(off, b) s. sess_put s off b) ps s2)"
  using assms(1-3,5)
proof (induction ps arbitrary: s s2)
  case (Cons q ps)
  obtain off b where q: "q = (off, b)" by force
  with Cons.prems(4) assms(4) have u: "off + length b \<le> u64_max" by auto
  from sess_put_abs [OF Cons.prems(1) u] sess_put_abs [OF Cons.prems(2) u] Cons.prems(3)
  have "sess_abs (sess_put s off b) = sess_abs (sess_put s2 off b)" by (simp add: fun_eq_iff)
  with Cons.IH [OF sess_put_inv [OF Cons.prems(1) u] sess_put_inv [OF Cons.prems(2) u]] Cons.prems(4) q
  show ?case by simp
qed simp

lemma sends_pieces_in_file:
  assumes "list_all2 (\<lambda>r (off, b). sends_piece z D r off b) rs ps"
  shows "\<forall>(off, b)\<in>set ps. off + length b \<le> length D \<and> b = take (length b) (drop off D)"
  using assms
proof (induction rule: list_all2_induct)
  case (Cons r rs q ps)
  then show ?case by (cases q) (simp add: sends_piece_def split: prod.splits)
qed simp

lemma session_requests_put:
  assumes x: "ext_ok x" and own: "owner = owner_tag x (tc_sub claims)"
    and cap: "length D \<le> upload_cap sv (fm_size meta)" "upload_cap sv (fm_size meta) < u64_max"
    and t: "target_at (sv_storage sv) (w_fs w) p d t"
    and s: "session_holds x (w_fs w) d (sess_name t session owner) s"
    and rs: "list_all2 (\<lambda>r (off, b). sends_piece z D r off b) rs ps"
  shows "\<exists>s2. session_holds x (w_fs (session_requests z x sv rnd p session claims meta rs w)) d
      (sess_name t session owner) s2 \<and>
    sess_abs s2 = sess_abs (fold (\<lambda>(off, b) s. sess_put s off b) ps s) \<and>
    target_at (sv_storage sv) (w_fs (session_requests z x sv rnd p session claims meta rs w)) p d t \<and>
    same_outside (w_fs w) (w_fs (session_requests z x sv rnd p session claims meta rs w))
      (session_names d (sess_name t session owner))"
  using rs t s
proof (induction rs ps arbitrary: w s rule: list_all2_induct)
  case Nil
  then show ?case by (intro exI [of _ s]) simp
next
  case (Cons r rs q ps)
  obtain hs fmt body where r: "r = (hs, fmt, body)" by (metis prod_cases3)
  obtain off b where q: "q = (off, b)" by force
  let ?n = "sess_name t session owner"
  have sp: "sends_piece z D (hs, fmt, body) off b" using Cons.hyps(1) r q by simp
  then have u: "off + length b \<le> u64_max" using cap by (auto simp: sends_piece_def)
  obtain w2 i s2 where g: "upload_session z x sv rnd p session claims meta fmt False hs body w = (Inr (upload_ok meta), w2)"
    "session_at x (w_fs w2) d ?n i s2" "sess_inv s2" "sess_abs s2 = sess_abs (sess_put s off b)"
    "same_outside (w_fs w) (w_fs w2) (session_names d ?n)"
    using session_received [OF x Cons.prems own sp cap, of rnd False] by auto
  have t2: "target_at (sv_storage sv) (w_fs w2) p d t"
    by (rule target_still [OF Cons.prems(1) g(2,5) target_not_session_name])
  have h2: "session_holds x (w_fs w2) d ?n s2" using g(2,3) by (auto simp: session_holds_def)
  from Cons.IH [OF t2 h2] obtain s3 where s3:
    "session_holds x (w_fs (session_requests z x sv rnd p session claims meta rs w2)) d ?n s3"
    "sess_abs s3 = sess_abs (fold (\<lambda>(off, b) s. sess_put s off b) ps s2)"
    "target_at (sv_storage sv) (w_fs (session_requests z x sv rnd p session claims meta rs w2)) p d t"
    "same_outside (w_fs w2) (w_fs (session_requests z x sv rnd p session claims meta rs w2)) (session_names d ?n)"
    by blast
  have ps: "\<forall>(off, b)\<in>set ps. off + length b \<le> length D"
    using sends_pieces_in_file [OF Cons.hyps(2)] by (metis (no_types, lifting) case_prodD case_prodI2)
  have inv: "sess_inv s" using Cons.prems(2) by (simp add: session_holds_def)
  have le: "length D \<le> u64_max" using cap by simp
  have "sess_abs (fold (\<lambda>(off, b) s. sess_put s off b) ps s2) =
      sess_abs (fold (\<lambda>(off, b) s. sess_put s off b) ps (sess_put s off b))"
    by (rule sess_abs_pieces_cong [OF g(3) sess_put_inv [OF inv u] g(4) le ps])
  moreover from g(5) s3(4) have "same_outside (w_fs w)
      (w_fs (session_requests z x sv rnd p session claims meta rs w2)) (session_names d ?n)"
    by (rule same_outside_step)
  ultimately show ?case
    using s3 g(1) r q by (intro exI [of _ s3]) simp
qed

text \<open>Which offsets a list of pieces covers.\<close>

definition pieces_cover :: "(nat \<times> bytes) list \<Rightarrow> nat \<Rightarrow> bool" where
  "pieces_cover ps k \<longleftrightarrow> (\<exists>(off, b)\<in>set ps. off \<le> k \<and> k < off + length b)"

text \<open>The abstract content after all pieces: the bytes of the file where a piece covers them.\<close>

lemma pieces_content:
  assumes "length D \<le> u64_max"
    and "\<forall>(off, b)\<in>set ps. off + length b \<le> length D \<and> b = take (length b) (drop off D)"
  shows "sess_abs (fold (\<lambda>(off, b) s. sess_put s off b) ps ([], [])) =
    (\<lambda>k. if pieces_cover ps k then Some (D ! k) else None)"
proof -
  have "\<forall>k. sess_abs (fold (\<lambda>(off, b) s. sess_put s off b) ps ([], [])) k =
      (if k \<in> dom (sess_abs ([], [])) \<or> (\<exists>(off, b)\<in>set ps. off \<le> k \<and> k < off + length b)
       then Some (D ! k) else None)"
    by (rule sess.fold_pieces [OF sess.inv_start assms, THEN conjunct2]) (simp add: sess.abs_start)
  then show ?thesis by (simp add: fun_eq_iff sess.abs_start pieces_cover_def)
qed

lemma full_session_content:
  assumes "sess_inv s" and "\<forall>k. sess_abs s k = (if P k then Some (D ! k) else None)"
    and "dom (sess_abs s) = {..<length D}"
  shows "fst s = D"
proof (rule nth_equalityI)
  have d: "dom (sess_abs s) \<subseteq> {..<length (fst s)} \<and> (0 < length (fst s) \<longrightarrow> length (fst s) - 1 \<in> dom (sess_abs s))"
    by (rule sess.len_ok [OF assms(1)])
  then show l: "length (fst s) = length D" unfolding assms(3) by (cases "length D") auto
  fix k assume "k < length (fst s)"
  with l assms(3) obtain v where v: "sess_abs s k = Some v" by (auto simp: dom_def)
  then have "v = D ! k" using assms(2) by (auto split: if_splits)
  moreover have "v = fst s ! k" using v by (auto simp: sess_abs_def split: if_splits)
  ultimately show "fst s ! k = D ! k" by simp
qed

text \<open>
  C13: a session upload assembles the file.  On a session that has received nothing, send any requests
  that are not the last, each a piece of the file \<open>D\<close> at its offset, in any order and with any
  repetitions, then the last one.  If the pieces cover every byte, the answer is 201 and the target
  holds exactly \<open>D\<close>; if not, the answer is \<open>Bad_Request\<close> and the target is as it was.  In both cases
  the temp file and its sidecar are gone and nothing else has changed.
\<close>

theorem session_assembles_file:
  assumes x: "ext_ok x" and t: "target_at (sv_storage sv) (w_fs w) p d t"
    and s: "session_holds x (w_fs w) d (sess_name t session (owner_tag x (tc_sub claims))) ([], [])"
    and rs: "list_all2 (\<lambda>r (off, b). sends_piece z D r off b) rs ps"
    and r: "sends_piece z D (hs, fmt, body) off b"
    and sz: "fm_size meta = length D" "length D \<le> sv_max_upload_size sv" "length D < u64_max"
  defines "n \<equiv> sess_name t session (owner_tag x (tc_sub claims))"
  shows "\<exists>res w2. upload_session z x sv rnd p session claims meta fmt True hs body
        (session_requests z x sv rnd p session claims meta rs w) = (res, w2) \<and>
    fs_node (w_fs w2) (d @ [n]) = None \<and> fs_node (w_fs w2) (d @ [blocks_name n]) = None \<and>
    (if \<forall>k<length D. pieces_cover (ps @ [(off, b)]) k
     then \<exists>m i. res = Inr (upload_ok m) \<and> fm_size m = length D \<and>
       fs_node (w_fs w2) (d @ [t]) = Some (NFile i) \<and> fs_data (w_fs w2) i = D \<and>
       same_outside (w_fs w) (w_fs w2) (insert (d @ [t]) (session_names d n))
     else (\<exists>e. res = Inl (Bad_Request e)) \<and> same_outside (w_fs w) (w_fs w2) (session_names d n))"
proof -
  let ?w1 = "session_requests z x sv rnd p session claims meta rs w"
  have cap: "length D \<le> upload_cap sv (fm_size meta)" "upload_cap sv (fm_size meta) < u64_max"
    using sz by (simp_all add: upload_cap_def)
  obtain s2 where s2: "session_holds x (w_fs ?w1) d n s2"
    "sess_abs s2 = sess_abs (fold (\<lambda>(off, b) s. sess_put s off b) ps ([], []))"
    "target_at (sv_storage sv) (w_fs ?w1) p d t" "same_outside (w_fs w) (w_fs ?w1) (session_names d n)"
    using session_requests_put [OF x refl cap t s rs, of rnd] unfolding n_def by blast
  obtain us :: upload_state and w2 i s3 where g: "upload_session z x sv rnd p session claims meta fmt True hs body ?w1 =
      session_commit x sv rnd meta (us_sink us) w2"
    "session_at x (w_fs w2) d n i s3" "sess_inv s3" "sess_abs s3 = sess_abs (sess_put s2 off b)"
    "session_sink d n i (us_sink us)" "sk_ranges (us_sink us) = snd s3"
    "sk_target (us_sink us) = d @ [t]" "sk_rel (us_sink us) = p" "sk_mode (us_sink us) = WM_Overwrite"
    "same_outside (w_fs ?w1) (w_fs w2) (session_names d n)"
    using session_received [OF x s2(3) s2(1) [unfolded n_def] refl r cap, of rnd True]
    unfolding n_def if_True by blast
  let ?all = "ps @ [(off, b)]"
  have pcs: "\<forall>(off, b)\<in>set ?all. off + length b \<le> length D \<and> b = take (length b) (drop off D)"
    using sends_pieces_in_file [OF list_all2_appendI [OF rs, of "[(hs, fmt, body)]" "[(off, b)]"]] r by simp
  have inv0: "sess_inv s2" using s2(1) by (simp add: session_holds_def)
  have le: "length D \<le> u64_max" and u: "off + length b \<le> u64_max" using sz(3) r by (auto simp: sends_piece_def)
  have inv1: "sess_inv (fold (\<lambda>(off, b) s. sess_put s off b) ps ([], []))"
    by (rule sess.fold_pieces [OF sess.inv_start le, THEN conjunct1]) (use pcs in \<open>auto simp: sess.abs_start\<close>)
  have "sess_abs s3 = sess_abs (fold (\<lambda>(off, b) s. sess_put s off b) ?all ([], []))"
    using g(4) sess_put_abs [OF inv0 u] sess_put_abs [OF inv1 u] s2(2) by (simp add: fun_eq_iff)
  then have c: "sess_abs s3 = (\<lambda>k. if pieces_cover ?all k then Some (D ! k) else None)"
    using pieces_content [OF le pcs] by simp
  have cov: "k < length D" if "pieces_cover ?all k" for k
    using that pcs by (fastforce simp: pieces_cover_def)
  then have full: "dom (sess_abs s3) = {..<fm_size meta} \<longleftrightarrow> (\<forall>k<length D. pieces_cover ?all k)"
    unfolding sz(1) c by (auto simp: dom_def set_eq_iff split: if_splits)
  have o: "same_outside (w_fs w) (w_fs w2) (session_names d n)"
    using s2(4) g(10) by (rule same_outside_step)
  have nt: "d @ [t] \<notin> session_names d n" unfolding n_def by (rule target_not_session_name)
  have "target_at (sv_storage sv) (w_fs w2) p d t"
    using s2(3) g(2,10) nt by (rule target_still)
  then have ft: "free_name (w_fs w2) (d @ [t])" by (simp add: target_at_def)
  obtain res w3 where c2: "session_commit x sv rnd meta (us_sink us) w2 = (res, w3)"
    "fs_node (w_fs w3) (d @ [n]) = None" "fs_node (w_fs w3) (d @ [blocks_name n]) = None"
    "if dom (sess_abs s3) = {..<fm_size meta}
     then \<exists>m. res = Inr (upload_ok m) \<and> fm_size m = fm_size meta \<and>
       fs_node (w_fs w3) (d @ [t]) = Some (NFile i) \<and> fs_data (w_fs w3) i = fst s3 \<and>
       same_outside (w_fs w2) (w_fs w3) (insert (d @ [t]) (session_names d n))
     else (\<exists>e. res = Inl (Bad_Request e)) \<and> same_outside (w_fs w2) (w_fs w3) (session_names d n)"
    using session_commit_result [OF x g(2,3,5-9) ft nt, of sv rnd meta] by blast
  show ?thesis
  proof (cases "\<forall>k<length D. pieces_cover ?all k")
    case True
    then have dm: "dom (sess_abs s3) = {..<fm_size meta}" using full by blast
    then have D: "fst s3 = D"
      using full_session_content [OF g(3), of "pieces_cover ?all" D] c sz(1) by simp
    obtain m where m: "res = Inr (upload_ok m)" "fm_size m = length D"
      "fs_node (w_fs w3) (d @ [t]) = Some (NFile i)" "fs_data (w_fs w3) i = D"
      "same_outside (w_fs w2) (w_fs w3) (insert (d @ [t]) (session_names d n))"
      using c2(4) unfolding if_P [OF dm] unfolding D sz(1) by blast
    have "same_outside (w_fs w) (w_fs w3) (insert (d @ [t]) (session_names d n))"
      by (rule same_outside_step [OF same_outside_mono [OF o subset_insertI] m(5)])
    then have "\<exists>m i. res = Inr (upload_ok m) \<and> fm_size m = length D \<and>
        fs_node (w_fs w3) (d @ [t]) = Some (NFile i) \<and> fs_data (w_fs w3) i = D \<and>
        same_outside (w_fs w) (w_fs w3) (insert (d @ [t]) (session_names d n))"
      using m(1-4) by (intro exI [of _ m] exI [of _ i]) (intro conjI)
    then show ?thesis
      unfolding g(1) c2(1) if_P [OF True] by (intro exI [of _ res] exI [of _ w3] conjI refl c2(2,3))
  next
    case False
    then obtain e where e: "res = Inl (Bad_Request e)" "same_outside (w_fs w2) (w_fs w3) (session_names d n)"
      using c2(4) full unfolding if_not_P [OF False [folded full]] by blast
    from o e(2) have "same_outside (w_fs w) (w_fs w3) (session_names d n)" by (rule same_outside_step)
    with e(1) have "(\<exists>e. res = Inl (Bad_Request e)) \<and> same_outside (w_fs w) (w_fs w3) (session_names d n)"
      by (intro conjI exI [of _ e])
    then show ?thesis
      unfolding g(1) c2(1) if_not_P [OF False] by (intro exI [of _ res] exI [of _ w3] conjI refl c2(2,3)) blast+
  qed
qed

text \<open>A probe answers the recorded ranges and leaves the session as it is.\<close>

lemma session_probe:
  assumes x: "ext_ok x" and t: "target_at (sv_storage sv) (w_fs w) p d t"
    and s: "session_at x (w_fs w) d (sess_name t session (owner_tag x (tc_sub claims))) i s"
    and h: "offset_header hs \<noteq> None" "session_base hs = Inr off" "status_probe hs"
  shows "\<exists>w2. upload_session z x sv rnd p session claims meta fmt fin hs body w =
    (Inr (session_status (snd s)), w2)"
proof -
  obtain sk where "write_stream_session x (sv_storage sv) p session (owner_tag x (tc_sub claims)) WM_Overwrite w =
      (Inr sk, w)" "sk_ranges sk = snd s"
    using open_session_existing [OF x t s, of WM_Overwrite] by blast
  with h show ?thesis
    by (cases "offset_header hs")
      (simp_all add: upload_session_def am_simps sink_received_ranges_def sm_ret_def Let_def)
qed

text \<open>
  C19: a disconnect loses nothing that arrived.  If the connection breaks after chunks that decode to
  \<open>b\<close>, the request fails, but the session keeps \<open>b\<close> at the request's offset besides what it had, and
  the next status probe answers exactly those ranges.
\<close>

theorem session_survives_disconnect:
  assumes x: "ext_ok x" and t: "target_at (sv_storage sv) (w_fs w) p d t"
    and s: "session_holds x (w_fs w) d (sess_name t session (owner_tag x (tc_sub claims))) s"
    and h: "offset_header hs \<noteq> None" "session_base hs = Inr off" "\<not> status_probe hs"
    and b: "feed z (decompressor_with_limit fmt max_output_per_call) cs = Inr (b, dc)"
    and cap: "off + length b \<le> upload_cap sv (fm_size meta)" "upload_cap sv (fm_size meta) < u64_max"
    and pr: "offset_header hs2 \<noteq> None" "session_base hs2 = Inr off2" "status_probe hs2"
  shows "\<exists>w2 s2 w3.
    upload_session z x sv rnd p session claims meta fmt fin hs (map Chunk cs @ Body_err e # rest) w =
      (Inl (Api_Io (Io_error Io_Other e)), w2) \<and>
    session_holds x (w_fs w2) d (sess_name t session (owner_tag x (tc_sub claims))) s2 \<and>
    sess_abs s2 = sess_abs (sess_put s off b) \<and>
    ranges_set (snd s2) = dom (sess_abs s) \<union> {off..<off + length b} \<and>
    upload_session z x sv rnd p session claims meta fmt2 fin2 hs2 body2 w2 =
      (Inr (session_status (snd s2)), w3)"
proof -
  let ?n = "sess_name t session (owner_tag x (tc_sub claims))" and ?cap = "upload_cap sv (fm_size meta)"
  have "off \<le> ?cap" using cap(1) by simp
  from session_opened [OF x t s this cap(2)] obtain sk w1 i where
    o: "write_stream_session x (sv_storage sv) p session (owner_tag x (tc_sub claims)) WM_Overwrite w = (Inr sk, w1)"
    "sess_content x ?cap d ?n i off s sk w1 w1 (upload_start sk fmt) []"
    "same_outside (w_fs w) (w_fs w1) (session_names d ?n)" by blast
  have f: "feed z (us_decomp (upload_start sk fmt)) cs = Inr (b, dc)" using b by (simp add: upload_start_def)
  have l: "length ([] :: bytes) + length b \<le> ?cap - off" using cap(1) by simp
  from session_writer.recv_gone [OF o(2) f l, where e = e and rest = rest] obtain us2 us3 :: upload_state and w2 where
    g: "recv_loop z (write_at_batch x sv off (fm_size meta)) (map Chunk cs @ Body_err e # rest) (upload_start sk fmt) w1 =
      (Inl (Api_Io (Io_error Io_Other e)), us2, w2)" "us_gone us2"
    "sess_content x ?cap d ?n i off s sk w1 w2 us3 b" by auto
  from g(3) obtain s2 where s2: "session_at x (w_fs w2) d ?n i s2" "sess_inv s2"
    "sess_abs s2 = sess_abs (sess_put s off b)" "same_outside (w_fs w1) (w_fs w2) (session_names d ?n)"
    by (auto simp: sess_content_def)
  have r: "upload_session z x sv rnd p session claims meta fmt fin hs (map Chunk cs @ Body_err e # rest) w =
      (Inl (Api_Io (Io_error Io_Other e)), w2)"
    using h o(1) g(1,2)
    by (cases "offset_header hs") (simp_all add: upload_session_def am_simps Let_def)
  have inv: "sess_inv s" and u: "off + length b \<le> u64_max"
    using s cap by (simp_all add: session_holds_def)
  have "ranges_set (snd s2) = dom (sess_abs (sess_put s off b))"
    using sess.ranges_ok [OF s2(2)] s2(3) by simp
  also have "\<dots> = dom (sess_abs s) \<union> {off..<off + length b}"
    unfolding sess_put_abs [OF inv u] by (auto split: if_splits)
  finally have rs: "ranges_set (snd s2) = dom (sess_abs s) \<union> {off..<off + length b}" .
  have t2: "target_at (sv_storage sv) (w_fs w2) p d t"
    by (rule target_still [OF t s2(1) same_outside_step [OF o(3) s2(4)] target_not_session_name])
  have hold: "session_holds x (w_fs w2) d ?n s2" using s2(1,2) by (auto simp: session_holds_def)
  from session_probe [OF x t2 s2(1) pr] obtain w3 where
    "upload_session z x sv rnd p session claims meta fmt2 fin2 hs2 body2 w2 = (Inr (session_status (snd s2)), w3)"
    by blast
  with r rs s2(3) hold show ?thesis
    by (intro exI [of _ w2] exI [of _ s2] exI [of _ w3] conjI)
qed

subsection \<open>A concrete session\<close>

text \<open>A serialisation of range lists that reads back: runs of dots, each closed by a comma.\<close>

fun read_runs :: "nat \<Rightarrow> string \<Rightarrow> nat list" where
  "read_runs k [] = []"
| "read_runs k (c # cs) = (if c = CHR '','' then k # read_runs 0 cs else read_runs (Suc k) cs)"

fun pair_ranges :: "nat list \<Rightarrow> chunk_range list" where
  "pair_ranges (a # b # ks) = \<lparr> c_start = a, c_end = b \<rparr> # pair_ranges ks"
| "pair_ranges ks = []"

definition write_run :: "nat \<Rightarrow> string" where
  "write_run k = replicate k CHR ''.'' @ '',''"

definition runs_ext :: externals where
  "runs_ext =
     \<lparr> x_sha = (\<lambda>_. replicate 32 0),
       x_ser_ranges = (\<lambda>rs. concat (map (\<lambda>r. write_run (c_start r) @ write_run (c_end r)) rs)),
       x_de_ranges = (\<lambda>s. Inr (pair_ranges (read_runs 0 s))),
       x_de_meta = (\<lambda>_. Inl ''none'') \<rparr>"

lemma read_write_run: "read_runs k (write_run n @ rest) = (k + n) # read_runs 0 rest"
  by (induction n arbitrary: k) (simp_all add: write_run_def)

lemma runs_ext_ok: "ext_ok runs_ext"
proof -
  have "pair_ranges (read_runs 0 (concat (map (\<lambda>r. write_run (c_start r) @ write_run (c_end r)) rs))) = rs"
    for rs :: "chunk_range list" by (induction rs) (simp_all add: read_write_run)
  moreover have "utf8_valid (as_bytes (concat (map (\<lambda>r. write_run (c_start r) @ write_run (c_end r)) rs)))"
    for rs :: "chunk_range list"
    by (rule utf8_valid_ascii) (auto simp: as_bytes_def write_run_def set_replicate_conv_if split: if_splits)
  ultimately show ?thesis by (simp add: ext_ok_def runs_ext_def)
qed

lemma demo_session: "session_holds runs_ext (w_fs demo_world) [''srv''] (sess_name ''a'' session owner) ([], [])"
  by (simp add: session_holds_def sess.inv_start demo_world_def demo_node free_name_def sess_name_def
      blocks_name_def blocks_tmp_name_def)

definition piece_headers :: "nat \<Rightarrow> headers" where
  "piece_headers off = [(''x-libfw-offset'', as_bytes (show_nat off))]"

definition probe_headers :: headers where
  "probe_headers = [(''x-libfw-session-status'', as_bytes ''1''), (''x-libfw-offset'', as_bytes (show_nat 0))]"

lemma piece_headers_base:
  assumes "off \<le> u64_max"
  shows "offset_header (piece_headers off) \<noteq> None" "session_base (piece_headers off) = Inr off"
    "\<not> status_probe (piece_headers off)"
  using assms str_trim_show_nat [of off]
  by (simp_all add: session_base_def offset_header_def status_probe_def piece_headers_def header_get_def
      header_text_printable)

lemma piece_sent:
  assumes "off + length b \<le> length D" and "length D \<le> u64_max" and "b = take (length b) (drop off D)"
  shows "sends_piece raw_zrip D (piece_headers off, Fmt_None, [Chunk b]) off b"
proof -
  have "feed_all raw_zrip (decompressor_with_limit Fmt_None max_output_per_call) [b] = Inr b"
    by (simp add: feed_all_def decompressor_with_limit_def)
  then have "body_decodes raw_zrip Fmt_None [Chunk b] b"
    unfolding body_decodes_def by (intro exI [of _ "[b]"]) simp
  then show ?thesis
    using assms piece_headers_base [of off] by (simp add: sends_piece_def)
qed

theorem session_assembles_file_witness:
  "\<exists>m w2 i. upload_session raw_zrip runs_ext (demo_state identity_codec) [] ''a'' ''s'' demo_claims
      (demo_meta\<lparr> fm_size := 3 \<rparr>) Fmt_None True (piece_headers 0) [Chunk [7]]
      (session_requests raw_zrip runs_ext (demo_state identity_codec) [] ''a'' ''s'' demo_claims
        (demo_meta\<lparr> fm_size := 3 \<rparr>) [(piece_headers 1, Fmt_None, [Chunk [8, 9]])] demo_world) =
      (Inr (upload_ok m), w2) \<and>
    fs_node (w_fs w2) [''srv'', ''a''] = Some (NFile i) \<and> fs_data (w_fs w2) i = [7, 8, 9]"
proof -
  let ?D = "[7, 8, 9 :: byte]" and ?sv = "demo_state identity_codec" and ?meta = "demo_meta\<lparr> fm_size := 3 \<rparr>"
  have p: "sends_piece raw_zrip ?D (piece_headers 1, Fmt_None, [Chunk [8, 9]]) 1 [8, 9]"
    "sends_piece raw_zrip ?D (piece_headers 0, Fmt_None, [Chunk [7]]) 0 [7]"
    by (rule piece_sent, simp_all add: u64_max_def)+
  then have l: "list_all2 (\<lambda>r (off, b). sends_piece raw_zrip ?D r off b)
      [(piece_headers 1, Fmt_None, [Chunk [8, 9]])] [(1, [8, 9])]" by simp
  have m: "fm_size ?meta = length ?D" "length ?D \<le> sv_max_upload_size ?sv" "length ?D < u64_max"
    by (simp_all add: u64_max_def) (simp add: demo_state_def)
  have "k = 0 \<or> k = 1 \<or> k = 2" if "k < 3" for k :: nat using that by linarith
  then have c: "\<forall>k<length ?D. pieces_cover ([(1, [8, 9])] @ [(0, [7])]) k"
    by (auto simp: pieces_cover_def)
  show ?thesis
    using session_assembles_file [OF runs_ext_ok demo_target demo_session l p(2) m, of "[]" "''s''" demo_claims]
    unfolding if_P [OF c] by auto
qed

theorem session_survives_disconnect_witness:
  "\<exists>w2 s2 w3.
    upload_session raw_zrip runs_ext (demo_state identity_codec) [] ''a'' ''s'' demo_claims
      (demo_meta\<lparr> fm_size := 9 \<rparr>) Fmt_None False (piece_headers 4) [Chunk [1, 2], Body_err ''reset''] demo_world =
      (Inl (Api_Io (Io_error Io_Other ''reset'')), w2) \<and>
    ranges_set (snd s2) = {4..<6} \<and>
    upload_session raw_zrip runs_ext (demo_state identity_codec) [] ''a'' ''s'' demo_claims
      (demo_meta\<lparr> fm_size := 9 \<rparr>) Fmt_None False probe_headers [] w2 = (Inr (session_status (snd s2)), w3)"
proof -
  let ?sv = "demo_state identity_codec" and ?meta = "demo_meta\<lparr> fm_size := 9 \<rparr>"
  have f: "feed raw_zrip (decompressor_with_limit Fmt_None max_output_per_call) [[1, 2]] =
      Inr ([1, 2], decompressor_with_limit Fmt_None max_output_per_call)"
    by (simp add: decompressor_with_limit_def)
  have c: "4 + length [1, 2 :: byte] \<le> upload_cap ?sv (fm_size ?meta)" "upload_cap ?sv (fm_size ?meta) < u64_max"
    by (simp_all add: upload_cap_def u64_max_def) (simp_all add: demo_state_def)
  have "(4 :: nat) \<le> u64_max" by (simp add: u64_max_def)
  note h = piece_headers_base [OF this]
  have pr: "offset_header probe_headers \<noteq> None" "session_base probe_headers = Inr 0" "status_probe probe_headers"
    using str_trim_show_nat [of 0] str_trim_visible [of "''1''"] header_text_printable [of "''1''"]
    by (simp_all add: visible_def printable_def session_base_def offset_header_def status_probe_def probe_headers_def header_get_def
        header_text_printable u64_max_def)
  have "{4..<4 + length [1, 2 :: byte]} = {4..<6}" by simp
  then show ?thesis
    using session_survives_disconnect [OF runs_ext_ok demo_target demo_session h f c pr,
        where e = "''reset''" and rest = "[]" and rnd = "[]" and session = "''s''" and claims = demo_claims
          and fin = False and ?fin2.0 = False and ?fmt2.0 = Fmt_None and ?body2.0 = "[]"]
    by (simp add: sess.abs_start) blast
qed

end
