(* ===== verification/Router.thy ===== *)
theory Router
  imports Upload_Session
begin

text \<open>
  The server's front door (libfw-server, \<open>lib.rs\<close>): the protocol check that wraps all routes, the route
  table, the bearer-token extractor and the conversion of a handler's result to a response.  A request
  carries its path percent-decoded; matching a path to a route, \<open>405\<close> for a method without a handler
  and \<open>404\<close> for a path without a route are the framework's documented behaviour.
\<close>

record http_in =
  hi_method :: string
  hi_path :: string
  hi_headers :: headers
  hi_body :: body

text \<open>
  What the handlers take from outside: the codec and the other crates, the sizes of the reads from
  disk, the random material, the clock, and the JSON form of the capabilities.
\<close>

record 'e serving =
  sg_zrip :: "'e zrip"
  sg_ext :: externals
  sg_sizes :: "nat list"
  sg_rnds :: "nat \<Rightarrow> bytes"
  sg_now :: int
  sg_caps_json :: "capabilities \<Rightarrow> json"

datatype route = File_route string | Dir_root | Dir_route string | Capabilities_route

definition find_route :: "string \<Rightarrow> route option" where
  "find_route path =
     (case strip_prefix path ''/file/'' of
        Some p \<Rightarrow> if p = [] then None else Some (File_route p)
      | None \<Rightarrow>
          if path = ''/dir'' then Some Dir_root
          else case strip_prefix path ''/dir/'' of
            Some p \<Rightarrow> if p = [] then None else Some (Dir_route p)
          | None \<Rightarrow> if path = ''/capabilities'' then Some Capabilities_route else None)"

definition outcome_response :: "(api_error + response) outcome \<Rightarrow> response outcome" where
  "outcome_response r = (case r of Panicked \<Rightarrow> Panicked | Returned x \<Rightarrow> Returned (into_response x))"

text \<open>The claims are extracted before the handler runs.\<close>

definition with_claims ::
  "server_state \<Rightarrow> headers \<Rightarrow> (token_claims \<Rightarrow> world \<Rightarrow> (api_error + response) outcome \<times> world) \<Rightarrow>
   world \<Rightarrow> response outcome \<times> world" where
  "with_claims sv hs handler w =
     (case bearer_claims (sv_verifier sv) hs of
        Inl rej \<Rightarrow> (Returned (auth_rejection_response rej), w)
      | Inr claims \<Rightarrow> (case handler claims w of (r, w2) \<Rightarrow> (outcome_response r, w2)))"

definition returning :: "response api \<Rightarrow> world \<Rightarrow> (api_error + response) outcome \<times> world" where
  "returning m w = (case m w of (r, w2) \<Rightarrow> (Returned r, w2))"

definition drop_body :: "response outcome \<times> world \<Rightarrow> response outcome \<times> world" where
  "drop_body r = (case r of (Returned resp, w) \<Rightarrow> (Returned (resp\<lparr> rs_body := Empty_body \<rparr>), w) | (Panicked, w) \<Rightarrow> (Panicked, w))"

definition no_method :: "response outcome" where
  "no_method = Returned \<lparr> rs_status = 405, rs_headers = [], rs_body = Empty_body \<rparr>"

text \<open>A \<open>GET\<close> handler also answers \<open>HEAD\<close>, without the body, unless the route has one of its own.\<close>

definition run_get :: "string \<Rightarrow> (world \<Rightarrow> response outcome \<times> world) \<Rightarrow> world \<Rightarrow> response outcome \<times> world" where
  "run_get method handler w =
     (if method = ''GET'' then handler w
      else if method = ''HEAD'' then drop_body (handler w)
      else (no_method, w))"

definition run_route :: "'e serving \<Rightarrow> server_state \<Rightarrow> route \<Rightarrow> http_in \<Rightarrow> world \<Rightarrow> response outcome \<times> world" where
  "run_route g sv rt q =
     (let hs = hi_headers q in
      case rt of
        File_route p \<Rightarrow>
          if hi_method q = ''GET''
          then with_claims sv hs (\<lambda>c. download (sg_zrip g) (sg_ext g) (sg_sizes g) sv (sg_now g) p c hs)
          else if hi_method q = ''HEAD''
          then with_claims sv hs (\<lambda>c. returning (head_file (sg_ext g) sv (sg_now g) p c hs))
          else if hi_method q = ''POST''
          then with_claims sv hs (\<lambda>c. returning
                 (upload (sg_zrip g) (sg_ext g) (sg_rnds g 0) sv (sg_now g) p c hs (hi_body q)))
          else (\<lambda>w. (no_method, w))
      | Dir_root \<Rightarrow> run_get (hi_method q) (with_claims sv hs (\<lambda>c. returning (list_dir_root (sg_rnds g) sv (sg_now g) c)))
      | Dir_route p \<Rightarrow> run_get (hi_method q) (with_claims sv hs (\<lambda>c. returning (list_dir (sg_rnds g) sv (sg_now g) p c)))
      | Capabilities_route \<Rightarrow>
          run_get (hi_method q) (\<lambda>w. (Returned (json_response 200 (sg_caps_json g (server_capabilities sv))), w)))"

definition serve :: "'e serving \<Rightarrow> server_state \<Rightarrow> http_in \<Rightarrow> world \<Rightarrow> response outcome \<times> world" where
  "serve g sv q =
     validate_protocol (hi_headers q) (\<lambda>w.
       case find_route (hi_path q) of
         None \<Rightarrow> (Returned \<lparr> rs_status = 404, rs_headers = [], rs_body = Empty_body \<rparr>, w)
       | Some rt \<Rightarrow> run_route g sv rt q w)"

subsection \<open>Properties\<close>

lemma list_dir_state: "snd (list_dir_impl rnds sv now c p w) = w"
  by (auto simp: list_dir_impl_def am_simps st_list_dir_def check_symlinks_def sm_bind_def sm_ret_def sm_lift_def Let_def
      split: prod.splits sum.splits if_splits)

lemma download_state: "snd (download z x sizes sv now p c hs w) = w"
  by (auto simp: download_def am_simps Let_def dest: plan_download_state
      split: prod.splits sum.splits option.splits outcome.splits)

lemma head_state: "snd (head_file x sv now p c hs w) = w"
  by (auto simp: head_file_def am_simps Let_def dest: plan_download_state split: prod.splits sum.splits)

lemma with_claims_state:
  assumes "\<And>c. snd (handler c w) = w"
  shows "snd (with_claims sv hs handler w) = w"
  using assms by (auto simp: with_claims_def split: sum.splits prod.splits) (metis snd_conv)

lemma returning_state: "snd (returning m w) = snd (m w)"
  by (simp add: returning_def split: prod.splits)

lemma drop_body_state: "snd (drop_body r) = snd r"
  by (cases r) (auto simp: drop_body_def split: outcome.splits)

lemma run_get_state: "snd (handler w) = w \<Longrightarrow> snd (run_get m handler w) = w"
  by (simp add: run_get_def drop_body_state)

text \<open>
  C9: only an authorized upload changes what the server stores: a request that is not a \<open>POST\<close> to a file
  route with a token the verifier accepts, for a path that resolves to a real one the validator allows
  to be written, leaves the world as it is, whatever it is answered.
\<close>

theorem only_authorized_uploads_write:
  assumes "\<not> (hi_method q = ''POST'' \<and>
    (\<exists>p c real. find_route (hi_path q) = Some (File_route p) \<and>
       bearer_claims (sv_verifier sv) (hi_headers q) = Inr c \<and>
       resolve_client_path sv (sg_now g) c p Act_Write = Inr real \<and>
       sv_validator sv (sg_now g) c real Act_Write = Inr ()))"
  shows "snd (serve g sv q w) = w"
proof (cases "find_route (hi_path q)")
  case None
  then show ?thesis by (auto simp: serve_def validate_protocol_def split: option.splits)
next
  case rt: (Some rt)
  have up: "snd (with_claims sv (hi_headers q) (\<lambda>c. returning
      (upload (sg_zrip g) (sg_ext g) (sg_rnds g 0) sv (sg_now g) p c (hi_headers q) (hi_body q))) w) = w"
    if "rt = File_route p" "hi_method q = ''POST''" for p
  proof (cases "bearer_claims (sv_verifier sv) (hi_headers q)")
    case (Inr c)
    have "isl (resolve_client_path sv (sg_now g) c p Act_Write)"
    proof (rule ccontr)
      assume "\<not> isl (resolve_client_path sv (sg_now g) c p Act_Write)"
      then obtain real where r: "resolve_client_path sv (sg_now g) c p Act_Write = Inr real"
        by (cases "resolve_client_path sv (sg_now g) c p Act_Write") auto
      then have "sv_validator sv (sg_now g) c real Act_Write = Inr ()"
        by (auto simp: resolve_client_path_def authorize_def elim!: res_bind_Inr [THEN iffD1, elim_format])
      with assms that rt r Inr show False by blast
    qed
    then show ?thesis
      using Inr by (auto simp: with_claims_def returning_def upload_def am_simps isl_def split: prod.splits)
  qed (simp add: with_claims_def)
  have "snd (run_route g sv rt q w) = w"
    by (cases rt) (auto simp: run_route_def Let_def up list_dir_root_def list_dir_def returning_state
        download_state head_state list_dir_state
        intro!: with_claims_state run_get_state)
  then show ?thesis by (simp add: serve_def rt validate_protocol_def split: option.splits)
qed

theorem only_authorized_uploads_write_witness:
  "snd (serve \<lparr> sg_zrip = raw_zrip, sg_ext = runs_ext, sg_sizes = [], sg_rnds = \<lambda>_. [], sg_now = 5, sg_caps_json = \<lambda>_. JObj [] \<rparr>
     (demo_state identity_codec)
     \<lparr> hi_method = ''POST'', hi_path = ''/file/a'', hi_headers = [], hi_body = [Chunk [7]] \<rparr> demo_world) = demo_world"
  by (rule only_authorized_uploads_write) (simp add: bearer_claims_def header_get_def)

end
