(* ===== verification/Server_Session.thy ===== *)
theory Server_Session
  imports Upload_Session
begin

text \<open>
  The server's side of one upload as a client sees it: which offsets of the file its session holds,
  which file is stored, and what each request does to both, whether it arrives, is cut off or only
  probes.
\<close>

subsection \<open>The view\<close>

text \<open>The session holds bytes of \<open>D\<close> only.\<close>

definition part_of :: "bytes \<Rightarrow> session \<Rightarrow> bool" where
  "part_of D s \<longleftrightarrow> (\<forall>k v. sess_abs s k = Some v \<longrightarrow> k < length D \<and> v = D ! k)"

definition session_fine :: "externals \<Rightarrow> fs_storage \<Rightarrow> string \<Rightarrow> path \<Rightarrow> string \<Rightarrow> string \<Rightarrow> bytes \<Rightarrow> world \<Rightarrow> bool" where
  "session_fine x st p d t n D w \<longleftrightarrow>
     target_at st (w_fs w) p d t \<and> (\<exists>s. session_holds x (w_fs w) d n s \<and> part_of D s)"

definition session_got :: "externals \<Rightarrow> path \<Rightarrow> string \<Rightarrow> world \<Rightarrow> nat set" where
  "session_got x d n w = {k. \<exists>s. session_holds x (w_fs w) d n s \<and> k \<in> dom (sess_abs s)}"

definition stored_file :: "path \<Rightarrow> string \<Rightarrow> world \<Rightarrow> bytes option" where
  "stored_file d t w = (case fs_node (w_fs w) (d @ [t]) of Some (NFile i) \<Rightarrow> Some (fs_data (w_fs w) i) | _ \<Rightarrow> None)"

lemma as_bytes_inj: "as_bytes a = as_bytes b \<Longrightarrow> a = b"
  by (metis bytes_to_str_as_bytes)

lemma sidecar_unique:
  assumes "ext_ok x" and "sidecar_at x fs q a" and "sidecar_at x fs q b"
  shows "a = b"
proof (cases "fs_node fs q")
  case None
  with assms show ?thesis by (simp add: sidecar_at_def)
next
  case (Some nd)
  with assms(2,3) obtain j where "fs_data fs j = as_bytes (x_ser_ranges x a)" "fs_data fs j = as_bytes (x_ser_ranges x b)"
    by (auto simp: sidecar_at_def)
  then have "x_ser_ranges x a = x_ser_ranges x b" using as_bytes_inj by metis
  then have "Inr a = (Inr b :: string + chunk_range list)" using assms(1) unfolding ext_ok_def by metis
  then show ?thesis by simp
qed

lemma session_at_unique:
  assumes "ext_ok x" and "session_at x fs d n i s" and "session_at x fs d n k s2"
  shows "s = s2"
proof -
  have "i = k" "fst s = fst s2" using assms(2,3) by (auto simp: session_at_def)
  moreover have "sidecar_at x fs (d @ [blocks_name n]) (snd s)" "sidecar_at x fs (d @ [blocks_name n]) (snd s2)"
    using assms(2,3) by (simp_all add: session_at_def)
  then have "snd s = snd s2" by (rule sidecar_unique [OF assms(1)])
  ultimately show ?thesis by (simp add: prod_eq_iff)
qed

lemma session_at_node: "session_at x fs d n i s \<Longrightarrow> fs_node fs (d @ [n]) = Some (NFile i)"
  by (simp add: session_at_def)

lemma session_holds_unique:
  assumes "ext_ok x" and "session_holds x fs d n s" and "session_holds x fs d n s2"
  shows "s = s2"
proof (cases "fs_node fs (d @ [n]) = None")
  case True
  then have "\<nexists>i s. session_at x fs d n i s" using session_at_node by fastforce
  then have "s = ([], [])" "s2 = ([], [])" using assms(2,3) unfolding session_holds_def by blast+
  then show ?thesis by simp
next
  case False
  then have "\<exists>i. session_at x fs d n i s" "\<exists>k. session_at x fs d n k s2"
    using assms(2,3) by (auto simp: session_holds_def)
  then obtain i k where "session_at x fs d n i s" "session_at x fs d n k s2" by blast
  then show ?thesis by (rule session_at_unique [OF assms(1)])
qed

lemma session_got_eq:
  assumes "ext_ok x" and "session_holds x (w_fs w) d n s"
  shows "session_got x d n w = dom (sess_abs s)"
proof -
  have "session_holds x (w_fs w) d n s2 \<longleftrightarrow> s2 = s" for s2
    using session_holds_unique [OF assms(1) _ assms(2)] assms(2) by blast
  then show ?thesis by (simp add: session_got_def)
qed

lemma stored_outside:
  assumes "same_outside (w_fs w) (w_fs w2) N" and "d @ [t] \<notin> N"
  shows "stored_file d t w2 = stored_file d t w"
  using assms same_outside_node [OF assms] same_outside_data [OF assms]
  by (auto simp: stored_file_def split: option.splits node.splits)

lemma part_of_put:
  assumes "sess_inv s" and "part_of D s" and "off + length b \<le> length D" and "b = take (length b) (drop off D)"
    and "length D \<le> u64_max"
  shows "part_of D (sess_put s off b)" "dom (sess_abs (sess_put s off b)) = dom (sess_abs s) \<union> {off..<off + length b}"
proof -
  have a: "sess_abs (sess_put s off b) = (\<lambda>i. if off \<le> i \<and> i < off + length b then Some (b ! (i - off)) else sess_abs s i)"
    using assms by (intro sess_put_abs) simp_all
  have "b ! i = D ! (off + i)" if "i < length b" for i
    using that assms(3) by (subst assms(4)) simp
  then show "part_of D (sess_put s off b)" using assms(2,3) by (auto simp: part_of_def a split: if_splits)
  show "dom (sess_abs (sess_put s off b)) = dom (sess_abs s) \<union> {off..<off + length b}"
    by (auto simp: a split: if_splits)
qed

lemma part_of_cong: "sess_abs s = sess_abs s2 \<Longrightarrow> part_of D s = part_of D s2"
  by (simp add: part_of_def)

text \<open>What is true after a request that added \<open>b\<close> at \<open>off\<close>.\<close>

lemma fine_after_put:
  assumes x: "ext_ok x" and f: "session_holds x (w_fs w) d n s" "part_of D s"
    and n: "n = sess_name t session owner" and t: "target_at st (w_fs w) p d t"
    and b: "off + length b \<le> length D" "b = take (length b) (drop off D)" and l: "length D \<le> u64_max"
    and s2: "session_at x (w_fs w2) d n i s2" "sess_inv s2" "sess_abs s2 = sess_abs (sess_put s off b)"
    and o: "same_outside (w_fs w) (w_fs w2) (session_names d n)"
  shows "session_fine x st p d t n D w2 \<and> session_got x d n w2 = session_got x d n w \<union> {off..<off + length b} \<and>
    stored_file d t w2 = stored_file d t w"
proof -
  have inv: "sess_inv s" using f(1) by (simp add: session_holds_def)
  have nt: "d @ [t] \<notin> session_names d n" unfolding n by (rule target_not_session_name)
  have h: "session_holds x (w_fs w2) d n s2" using s2 by (auto simp: session_holds_def)
  have "target_at st (w_fs w2) p d t" by (rule target_still [OF t s2(1) o nt])
  moreover have "part_of D s2"
    using part_of_put(1) [OF inv f(2) b l] part_of_cong [OF s2(3)] by simp
  ultimately have "session_fine x st p d t n D w2" using h unfolding session_fine_def by blast
  moreover have "session_got x d n w2 = session_got x d n w \<union> {off..<off + length b}"
    using part_of_put(2) [OF inv f(2) b l] s2(3) by (simp add: session_got_eq [OF x h] session_got_eq [OF x f(1)])
  ultimately show ?thesis using stored_outside [OF o nt] by simp
qed

lemma got_bound:
  assumes "ext_ok x" and "session_fine x st p d t n D w"
  shows "session_got x d n w \<subseteq> {..<length D}"
proof -
  obtain s where s: "session_holds x (w_fs w) d n s" "part_of D s" using assms(2) by (auto simp: session_fine_def)
  then show ?thesis by (auto simp: session_got_eq [OF assms(1) s(1)] part_of_def)
qed

subsection \<open>Requests\<close>

lemma session_piece:
  assumes x: "ext_ok x" and n: "n = sess_name t session (owner_tag x (tc_sub claims))"
    and f: "session_fine x (sv_storage sv) p d t n D w"
    and r: "sends_piece z D (hs, fmt, body) off b"
    and cap: "length D \<le> upload_cap sv (fm_size meta)" "upload_cap sv (fm_size meta) < u64_max"
  shows "\<exists>w2. upload_session z x sv rnd p session claims meta fmt False hs body w = (Inr (upload_ok meta), w2) \<and>
    session_fine x (sv_storage sv) p d t n D w2 \<and>
    session_got x d n w2 = session_got x d n w \<union> {off..<off + length b} \<and> stored_file d t w2 = stored_file d t w"
proof -
  obtain s where s: "session_holds x (w_fs w) d n s" "part_of D s" and t: "target_at (sv_storage sv) (w_fs w) p d t"
    using f by (auto simp: session_fine_def)
  obtain w2 i s2 where g: "upload_session z x sv rnd p session claims meta fmt False hs body w = (Inr (upload_ok meta), w2)"
    "session_at x (w_fs w2) d n i s2" "sess_inv s2" "sess_abs s2 = sess_abs (sess_put s off b)"
    "same_outside (w_fs w) (w_fs w2) (session_names d n)"
    using session_received [OF x t s(1) [unfolded n] refl r cap, of rnd False] unfolding n by auto
  have b: "off + length b \<le> length D" "b = take (length b) (drop off D)" using r by (auto simp: sends_piece_def)
  have "length D \<le> u64_max" using cap by simp
  from fine_after_put [OF x s n t b this g(2-5)] g(1) show ?thesis by blast
qed

text \<open>What a connection that breaks has delivered is a first part of what was sent.\<close>

lemma feed_prefix:
  assumes "feed_all z dc (cs @ rest) = Inr b"
  shows "\<exists>b1 dc1. feed z dc cs = Inr (b1, dc1) \<and> prefix b1 b"
  using assms
proof (induction cs arbitrary: dc b)
  case (Cons c cs)
  from Cons.prems obtain o1 d1 b2 where d: "decompress z dc c = Inr (o1, d1)" "feed_all z d1 (cs @ rest) = Inr b2" "b = o1 @ b2"
    unfolding append_Cons feed_all_Cons by (auto simp: res_bind_Inr)
  from Cons.IH [OF d(2)] obtain b1 dc1 where "feed z d1 cs = Inr (b1, dc1)" "prefix b1 b2" by blast
  with d show ?case by (intro exI [of _ "o1 @ b1"] exI [of _ dc1]) simp
qed simp

lemma session_cut:
  assumes x: "ext_ok x" and n: "n = sess_name t session (owner_tag x (tc_sub claims))"
    and f: "session_fine x (sv_storage sv) p d t n D w"
    and h: "offset_header hs \<noteq> None" "session_base hs = Inr off" "\<not> status_probe hs"
    and b: "feed_all z (decompressor_with_limit fmt max_output_per_call) (cs @ rest) = Inr b"
      "off + length b \<le> length D" "b = take (length b) (drop off D)"
    and cap: "length D \<le> upload_cap sv (fm_size meta)" "upload_cap sv (fm_size meta) < u64_max"
  shows "\<exists>r w2. upload_session z x sv rnd p session claims meta fmt fin hs (map Chunk cs @ [Body_err e]) w = (Inl r, w2) \<and>
    session_fine x (sv_storage sv) p d t n D w2 \<and>
    session_got x d n w2 \<subseteq> session_got x d n w \<union> {off..<off + length b} \<and> stored_file d t w2 = stored_file d t w"
proof -
  let ?cap = "upload_cap sv (fm_size meta)"
  obtain s where s: "session_holds x (w_fs w) d n s" "part_of D s" and t: "target_at (sv_storage sv) (w_fs w) p d t"
    using f by (auto simp: session_fine_def)
  obtain b1 dc1 where f1: "feed z (decompressor_with_limit fmt max_output_per_call) cs = Inr (b1, dc1)" "prefix b1 b"
    using feed_prefix [OF b(1)] by blast
  then obtain b2 where b2: "b = b1 @ b2" by (auto simp: prefix_def)
  have b1: "off + length b1 \<le> length D" "b1 = take (length b1) (drop off D)"
  proof -
    show "off + length b1 \<le> length D" using b(2) b2 by simp
    have "take (length b1) b = take (length b1) (drop off D)" using b(3) b2 by (metis length_append le_add1 min.absorb1 take_take)
    then show "b1 = take (length b1) (drop off D)" by (simp add: b2)
  qed
  have "off \<le> ?cap" using b(2) cap(1) by simp
  from session_opened [OF x t s(1) [unfolded n] this cap(2)] obtain sk w1 i where
    o: "write_stream_session x (sv_storage sv) p session (owner_tag x (tc_sub claims)) WM_Overwrite w = (Inr sk, w1)"
    "sess_content x ?cap d n i off s sk w1 w1 (upload_start sk fmt) []"
    "same_outside (w_fs w) (w_fs w1) (session_names d n)" unfolding n by blast
  have g: "feed z (us_decomp (upload_start sk fmt)) cs = Inr (b1, dc1)" using f1(1) by (simp add: upload_start_def)
  have l: "length ([] :: bytes) + length b1 \<le> ?cap - off" using b1(1) cap(1) by simp
  from session_writer.recv_gone [OF o(2) g l, where e = e and rest = "[]"] obtain us2 us3 :: upload_state and w2 where
    r: "recv_loop z (write_at_batch x sv off (fm_size meta)) (map Chunk cs @ [Body_err e]) (upload_start sk fmt) w1 =
      (Inl (Api_Io (Io_error Io_Other e)), us2, w2)" "us_gone us2"
    "sess_content x ?cap d n i off s sk w1 w2 us3 b1" by auto
  from r(3) obtain s2 where s2: "session_at x (w_fs w2) d n i s2" "sess_inv s2"
    "sess_abs s2 = sess_abs (sess_put s off b1)" "same_outside (w_fs w1) (w_fs w2) (session_names d n)"
    by (auto simp: sess_content_def)
  have "upload_session z x sv rnd p session claims meta fmt fin hs (map Chunk cs @ [Body_err e]) w =
      (Inl (Api_Io (Io_error Io_Other e)), w2)"
    using h o(1) r(1,2) by (cases "offset_header hs") (simp_all add: upload_session_def am_simps Let_def)
  moreover have "session_fine x (sv_storage sv) p d t n D w2 \<and>
      session_got x d n w2 = session_got x d n w \<union> {off..<off + length b1} \<and> stored_file d t w2 = stored_file d t w"
    by (rule fine_after_put [OF x s n t b1 _ s2(1-3) same_outside_step [OF o(3) s2(4)]]) (use cap in simp)
  ultimately show ?thesis using b2 by fastforce
qed

text \<open>A commit of a session with the whole file stores it; any other is refused, and the session is gone.\<close>

lemma session_final:
  assumes x: "ext_ok x" and n: "n = sess_name t session (owner_tag x (tc_sub claims))"
    and f: "session_fine x (sv_storage sv) p d t n D w"
    and r: "sends_piece z D (hs, fmt, body) off []"
    and cap: "fm_size meta = length D" "length D \<le> sv_max_upload_size sv" "length D < u64_max"
  shows "\<exists>res w2. upload_session z x sv rnd p session claims meta fmt True hs body w = (res, w2) \<and>
    session_fine x (sv_storage sv) p d t n D w2 \<and> session_got x d n w2 = {} \<and>
    (if session_got x d n w = {..<length D}
     then (\<exists>m. res = Inr (upload_ok m)) \<and> stored_file d t w2 = Some D
     else (\<exists>e. res = Inl (Bad_Request e)) \<and> stored_file d t w2 = stored_file d t w)"
proof -
  obtain s where s: "session_holds x (w_fs w) d n s" "part_of D s" and t: "target_at (sv_storage sv) (w_fs w) p d t"
    using f by (auto simp: session_fine_def)
  have cp: "length D \<le> upload_cap sv (fm_size meta)" "upload_cap sv (fm_size meta) < u64_max"
    using cap by (simp_all add: upload_cap_def)
  obtain us :: upload_state and w1 i s2 where g: "upload_session z x sv rnd p session claims meta fmt True hs body w =
      session_commit x sv rnd meta (us_sink us) w1"
    "session_at x (w_fs w1) d n i s2" "sess_inv s2" "sess_abs s2 = sess_abs (sess_put s off [])"
    "session_sink d n i (us_sink us)" "sk_ranges (us_sink us) = snd s2"
    "sk_target (us_sink us) = d @ [t]" "sk_rel (us_sink us) = p" "sk_mode (us_sink us) = WM_Overwrite"
    "same_outside (w_fs w) (w_fs w1) (session_names d n)"
    using session_received [OF x t s(1) [unfolded n] refl r cp, of rnd True] unfolding n if_True by blast
  have nt: "d @ [t] \<notin> session_names d n" unfolding n by (rule target_not_session_name)
  have t1: "target_at (sv_storage sv) (w_fs w1) p d t" by (rule target_still [OF t g(2,10) nt])
  then have ft: "free_name (w_fs w1) (d @ [t])" by (simp add: target_at_def)
  have a: "sess_abs s2 = sess_abs s" using g(4) by (simp add: sess_put_Nil)
  obtain res w2 where c: "session_commit x sv rnd meta (us_sink us) w1 = (res, w2)"
    "fs_node (w_fs w2) (d @ [n]) = None" "fs_node (w_fs w2) (d @ [blocks_name n]) = None"
    "fs_wf (w_fs w2)" "dir_ok (w_fs w2) d" "free_name (w_fs w2) (d @ [blocks_tmp_name n])"
    "if dom (sess_abs s2) = {..<fm_size meta}
     then \<exists>m. res = Inr (upload_ok m) \<and> fm_size m = fm_size meta \<and>
       fs_node (w_fs w2) (d @ [t]) = Some (NFile i) \<and> fs_data (w_fs w2) i = fst s2 \<and>
       same_outside (w_fs w1) (w_fs w2) (insert (d @ [t]) (session_names d n))
     else (\<exists>e. res = Inl (Bad_Request e)) \<and> same_outside (w_fs w1) (w_fs w2) (session_names d n)"
    using session_commit_result [OF x g(2,3,5-9) ft nt, of sv rnd meta] by blast
  have h: "session_holds x (w_fs w2) d n ([], [])"
    using c(2,3,6) by (simp add: session_holds_def sess.inv_start free_name_def)
  have empty: "session_got x d n w2 = {}" by (simp add: session_got_eq [OF x h] sess.abs_start)
  have pe: "part_of D ([], [])" by (simp add: part_of_def sess.abs_start)
  have got: "session_got x d n w = dom (sess_abs s2)" by (simp add: session_got_eq [OF x s(1)] a)
  have fine: "session_fine x (sv_storage sv) p d t n D w2" if "free_name (w_fs w2) (d @ [t])"
    using that t1 c(4,5) h pe unfolding session_fine_def target_at_def by blast
  show ?thesis
  proof (cases "session_got x d n w = {..<length D}")
    case True
    then have dm: "dom (sess_abs s2) = {..<fm_size meta}" using got cap(1) by simp
    have "\<forall>k. sess_abs s2 k = (if k < length D then Some (D ! k) else None)"
    proof
      fix k show "sess_abs s2 k = (if k < length D then Some (D ! k) else None)"
        using True s(2) unfolding got a part_of_def by (metis domD domI lessThan_iff option.exhaust)
    qed
    then have D: "fst s2 = D" using full_session_content [OF g(3), of "\<lambda>k. k < length D" D] dm cap(1) by simp
    obtain m where m: "res = Inr (upload_ok m)" "fs_node (w_fs w2) (d @ [t]) = Some (NFile i)" "fs_data (w_fs w2) i = D"
      using c(7) unfolding if_P [OF dm] D by blast
    then have "stored_file d t w2 = Some D" "free_name (w_fs w2) (d @ [t])"
      by (simp_all add: stored_file_def free_name_def)
    with True m(1) fine empty g(1) c(1) show ?thesis by auto
  next
    case False
    then have dm: "dom (sess_abs s2) \<noteq> {..<fm_size meta}" using got cap(1) by simp
    from c(7) obtain e where e: "res = Inl (Bad_Request e)" "same_outside (w_fs w1) (w_fs w2) (session_names d n)"
      unfolding if_not_P [OF dm] by blast
    have "stored_file d t w2 = stored_file d t w"
      using stored_outside [OF e(2) nt] stored_outside [OF g(10) nt] by simp
    moreover have "free_name (w_fs w2) (d @ [t])" using ft same_outside_node [OF e(2) nt] by (simp add: free_name_def)
    ultimately show ?thesis using False e(1) fine empty g(1) c(1) by auto
  qed
qed

text \<open>A probe answers the offsets the session holds.\<close>

lemma session_asked:
  assumes x: "ext_ok x" and n: "n = sess_name t session (owner_tag x (tc_sub claims))"
    and f: "session_fine x (sv_storage sv) p d t n D w"
    and h: "offset_header hs \<noteq> None" "session_base hs = Inr off" "status_probe hs"
    and l: "length D \<le> u64_max"
  shows "\<exists>rs w2. upload_session z x sv rnd p session claims meta fmt fin hs body w = (Inr (session_status rs), w2) \<and>
    session_fine x (sv_storage sv) p d t n D w2 \<and> session_got x d n w2 = session_got x d n w \<and>
    stored_file d t w2 = stored_file d t w \<and> ranges_wf rs \<and> ranges_set rs = session_got x d n w"
proof -
  obtain s where s: "session_holds x (w_fs w) d n s" "part_of D s" and t: "target_at (sv_storage sv) (w_fs w) p d t"
    using f by (auto simp: session_fine_def)
  obtain sk w1 i where o: "write_stream_session x (sv_storage sv) p session (owner_tag x (tc_sub claims)) WM_Overwrite w = (Inr sk, w1)"
    "session_at x (w_fs w1) d n i s" "sk_ranges sk = snd s" "same_outside (w_fs w) (w_fs w1) (session_names d n)"
    using open_session [OF x t s(1) [unfolded n]] unfolding n by blast
  have inv: "sess_inv s" using s(1) by (simp add: session_holds_def)
  have "upload_session z x sv rnd p session claims meta fmt fin hs body w = (Inr (session_status (snd s)), w1)"
    using h o(1,3)
    by (cases "offset_header hs")
      (simp_all add: upload_session_def am_simps sink_received_ranges_def sm_ret_def Let_def)
  moreover have "session_fine x (sv_storage sv) p d t n D w1 \<and>
      session_got x d n w1 = session_got x d n w \<union> {0..<0 + length ([] :: bytes)} \<and> stored_file d t w1 = stored_file d t w"
    by (rule fine_after_put [OF x s n t _ _ l o(2) inv _ o(4)]) (simp_all add: sess_put_Nil)
  moreover have "ranges_wf (snd s) \<and> ranges_set (snd s) = session_got x d n w"
    using sess.ranges_ok [OF inv] by (simp add: session_got_eq [OF x s(1)])
  ultimately show ?thesis by (intro exI [of _ "snd s"] exI [of _ w1]) simp
qed

end
