(* ===== verification/End_To_End.thy ===== *)
theory End_To_End
  imports Client_Service Router Server_Session
begin

text \<open>
  Client and server together: the client's upload scheduler talks to the server's router over a
  connection that loses requests, cuts bodies off and loses replies, while the user pauses and
  resumes.  The composition fulfils the contracts of \<open>Client_Service\<close>, which gives the two theorems
  on a whole upload: a reported success means the file is stored, and with no more faults than
  retries it is.
\<close>

subsection \<open>The connection\<close>

text \<open>What becomes of a posted request: the body may be cut off after some frames.\<close>

datatype fault = Delivered | Request_lost | Body_cut nat | Reply_lost

text \<open>
  The server behind the connection; \<open>nw_path\<close> is the decoded path of a URL, \<open>nw_json\<close> writes JSON, and
  bodies travel in frames of \<open>nw_frame\<close> bytes.
\<close>

record 'e network =
  nw_serving :: "'e serving"
  nw_state :: server_state
  nw_path :: "string \<Rightarrow> string"
  nw_json :: "json \<Rightarrow> bytes"
  nw_frame :: nat

record e2e_world =
  ew_server :: world
  ew_faults :: "fault list"
  ew_turns :: "user_op list list list"
  ew_orders :: "nat list list"

definition wire_headers :: "(string \<times> string) list \<Rightarrow> headers" where
  "wire_headers hs = map (\<lambda>(n, v). (to_ascii_lowercase n, as_bytes v)) hs"

definition exchange :: "'e network \<Rightarrow> http_request \<Rightarrow> body \<Rightarrow> world \<Rightarrow> response outcome \<times> world" where
  "exchange nw req body w =
     serve (nw_serving nw) (nw_state nw)
       \<lparr> hi_method = rq_method req, hi_path = nw_path nw (rq_url req),
         hi_headers = wire_headers (rq_headers req), hi_body = body \<rparr> w"

definition connection_lost :: libfw_error where
  "connection_lost = Err_Network ''connection lost''"

definition frames_of :: "'e network \<Rightarrow> bytes \<Rightarrow> bytes list" where
  "frames_of nw b = split_chunks (nw_frame nw) b"

definition answer_status :: "response outcome \<Rightarrow> libfw_error + nat" where
  "answer_status r = (case r of Panicked \<Rightarrow> Inl connection_lost | Returned resp \<Rightarrow> Inr (rs_status resp))"

fun post_outcome :: "'e network \<Rightarrow> fault \<Rightarrow> http_request \<Rightarrow> world \<Rightarrow> (libfw_error + nat) \<times> world" where
  "post_outcome nw Delivered req w =
     (case exchange nw req (map Chunk (frames_of nw (rq_body req))) w of (r, w2) \<Rightarrow> (answer_status r, w2))"
| "post_outcome nw Request_lost req w = (Inl connection_lost, w)"
| "post_outcome nw (Body_cut k) req w =
     (Inl connection_lost,
      snd (exchange nw req (map Chunk (take k (frames_of nw (rq_body req))) @ [Body_err ''reset'']) w))"
| "post_outcome nw Reply_lost req w =
     (Inl connection_lost, snd (exchange nw req (map Chunk (frames_of nw (rq_body req))) w))"

definition net_xhr :: "'e network \<Rightarrow> http_request \<Rightarrow> nat \<Rightarrow> e2e_world \<Rightarrow> nat list \<times> (libfw_error + nat) \<times> e2e_world" where
  "net_xhr nw req timeout ew =
     (let f = (case ew_faults ew of [] \<Rightarrow> Delivered | f # _ \<Rightarrow> f);
          (r, w) = post_outcome nw f req (ew_server ew) in
      ([length (rq_body req)], r, ew\<lparr> ew_server := w, ew_faults := tl (ew_faults ew) \<rparr>))"

fun stream_chunks :: "body \<Rightarrow> bytes list \<times> libfw_error option" where
  "stream_chunks [] = ([], None)"
| "stream_chunks (Chunk c # evs) = (c # fst (stream_chunks evs), snd (stream_chunks evs))"
| "stream_chunks (Body_err e # evs) = ([], Some (Err_Network e))"

fun reply_body :: "'e network \<Rightarrow> resp_body \<Rightarrow> bytes list \<times> libfw_error option" where
  "reply_body nw Empty_body = ([], None)"
| "reply_body nw (Text_body m) = ([as_bytes m], None)"
| "reply_body nw (Json_body j) = ([nw_json nw j], None)"
| "reply_body nw (Stream_body evs) = stream_chunks evs"

definition net_fetch ::
  "'e network \<Rightarrow> http_request \<Rightarrow> nat \<Rightarrow> e2e_world \<Rightarrow> (libfw_error + http_reply \<times> libfw_error option) \<times> e2e_world" where
  "net_fetch nw req timeout ew =
     (case exchange nw req (map Chunk (frames_of nw (rq_body req))) (ew_server ew) of
        (Panicked, w) \<Rightarrow> (Inl connection_lost, ew\<lparr> ew_server := w \<rparr>)
      | (Returned resp, w) \<Rightarrow>
          (let (chunks, broken) = reply_body nw (rs_body resp) in
           (Inr (\<lparr> rp_status = rs_status resp, rp_headers = rs_headers resp, rp_body = chunks \<rparr>, broken),
            ew\<lparr> ew_server := w \<rparr>)))"

text \<open>The user, once the script is over, resumes what is paused.\<close>

definition net_controls :: "e2e_world \<Rightarrow> user_op list list \<times> e2e_world" where
  "net_controls ew = (case ew_turns ew of [] \<Rightarrow> ([[Op_resume]], ew) | ts # rest \<Rightarrow> (ts, ew\<lparr> ew_turns := rest \<rparr>))"

definition net_order :: "nat \<Rightarrow> e2e_world \<Rightarrow> nat list \<times> e2e_world" where
  "net_order n ew = (case ew_orders ew of [] \<Rightarrow> ([0..<n], ew) | q # rest \<Rightarrow> (q, ew\<lparr> ew_orders := rest \<rparr>))"

definition e2e_env ::
  "('e, 's, e2e_world) client_env \<Rightarrow> 'e network \<Rightarrow> (string \<Rightarrow> bytes) \<Rightarrow> ('e, 's, e2e_world) client_env" where
  "e2e_env base nw files =
     base\<lparr> ce_controls := net_controls, ce_fetch := net_fetch nw, ce_xhr := net_xhr nw,
           ce_call := (\<lambda>_ ew. (Inr (), ew)),
           ce_read_file := (\<lambda>path start len ew. (Inr (take len (drop start (files path))), ew)),
           ce_sleep := (\<lambda>_ ew. ew), ce_order := net_order \<rparr>"

lemma e2e_env_simps [simp]:
  "ce_controls (e2e_env base nw files) = net_controls" "ce_fetch (e2e_env base nw files) = net_fetch nw"
  "ce_xhr (e2e_env base nw files) = net_xhr nw" "ce_call (e2e_env base nw files) = (\<lambda>_ ew. (Inr (), ew))"
  "ce_read_file (e2e_env base nw files) = (\<lambda>path start len ew. (Inr (take len (drop start (files path))), ew))"
  "ce_sleep (e2e_env base nw files) = (\<lambda>_ ew. ew)" "ce_order (e2e_env base nw files) = net_order"
  "ce_zrip (e2e_env base nw files) = ce_zrip base" "ce_sha (e2e_env base nw files) = ce_sha base"
  "ce_encode_uri (e2e_env base nw files) = ce_encode_uri base" "ce_meta_json (e2e_env base nw files) = ce_meta_json base"
  "ce_ranges_json (e2e_env base nw files) = ce_ranges_json base"
  by (simp_all add: e2e_env_def)

subsection \<open>The user\<close>

definition patient_turns :: "user_op list list \<Rightarrow> bool" where
  "patient_turns ts \<longleftrightarrow> ts \<noteq> [] \<and> (\<forall>ops\<in>set ts. Op_cancel \<notin> set ops) \<and> last ts \<noteq> [] \<and> last (last ts) = Op_resume"

lemma running_user:
  "running c \<Longrightarrow> Op_cancel \<notin> set ops \<Longrightarrow> running (user_run ops c)"
proof (induction ops arbitrary: c)
  case (Cons op ops)
  then have "running (user_apply op c)"
    by (cases op) (auto simp: running_def control_pause_def control_resume_def)
  with Cons show ?case by (simp add: user_run_def)
qed (simp add: user_run_def)

lemma resumed_not_paused:
  assumes "running c" and "Op_cancel \<notin> set ops" and "ops \<noteq> []" and "last ops = Op_resume"
  shows "wait_ready_turn (user_run ops c) = Some (Inr ())"
proof -
  obtain us where us: "ops = us @ [Op_resume]" using assms(3,4) by (metis append_butlast_last_id)
  then have r: "running (user_run us c)" using running_user [OF assms(1), of us] assms(2) by simp
  have "user_run ops c = control_resume (user_run us c)" by (simp add: us user_run_def)
  with r show ?thesis by (auto simp: wait_ready_turn_def control_check_def control_resume_def running_def)
qed

lemma patient_ends:
  assumes "running c" and "patient_turns ts"
  shows "\<exists>c2. wait_loop ts c = (Some (Inr ()), c2) \<and> running c2"
  using assms
proof (induction ts arbitrary: c)
  case (Cons ops ts)
  have r: "running (user_run ops c)" using Cons.prems by (intro running_user) (auto simp: patient_turns_def)
  then have w: "wait_ready_turn (user_run ops c) = Some (Inr ()) \<or> wait_ready_turn (user_run ops c) = None"
    by (auto simp: wait_ready_turn_def control_check_def running_def)
  show ?case
  proof (cases "wait_ready_turn (user_run ops c)")
    case (Some q)
    with w r show ?thesis by simp
  next
    case None
    have "ts \<noteq> []"
    proof
      assume "ts = []"
      with Cons.prems have "wait_ready_turn (user_run ops c) = Some (Inr ())"
        by (intro resumed_not_paused) (auto simp: patient_turns_def)
      with None show False by simp
    qed
    with Cons.prems(2) have "patient_turns ts" by (simp add: patient_turns_def)
    from Cons.IH [OF r this] None show ?thesis by simp
  qed
qed (simp add: patient_turns_def)

subsection \<open>Headers on the wire\<close>

lemma header_get_wire:
  "list_all printable v \<Longrightarrow> map_of hs name = Some (as_bytes v) \<Longrightarrow> header_get hs name = Some v"
  by (simp add: header_get_def header_text_printable)

lemma b64_char_printable: "k < 64 \<Longrightarrow> printable (b64_alphabet ! k)"
proof -
  have a: "list_all printable b64_alphabet" "length b64_alphabet = 64"
    by (simp_all add: b64_alphabet_def printable_def)
  assume "k < 64"
  with a show ?thesis by (simp add: list_all_length)
qed

lemma b64_group_printable: "list_all printable (b64_group bs)"
proof -
  have "unat (w AND 63 :: 32 word) < 64" for w
  proof -
    have "w AND 63 \<le> 63" by (rule word_and_le1)
    then show ?thesis by (simp add: word_le_nat_alt)
  qed
  then show ?thesis by (simp add: b64_group_def Let_def b64_char_printable) (simp add: printable_def)
qed

lemma base64_printable: "list_all printable (base64_encode bs)"
  by (induction bs rule: base64_encode.induct) (simp_all add: b64_group_printable)

lemma lower_names:
  "to_ascii_lowercase ''Authorization'' = ''authorization''"
  "to_ascii_lowercase ''authorization'' = ''authorization''"
  "to_ascii_lowercase ''x-libfw-protocol'' = ''x-libfw-protocol''"
  "to_ascii_lowercase ''x-libfw-offset'' = ''x-libfw-offset''"
  "to_ascii_lowercase ''x-libfw-file-meta'' = ''x-libfw-file-meta''"
  "to_ascii_lowercase ''x-libfw-session'' = ''x-libfw-session''"
  "to_ascii_lowercase ''x-libfw-session-status'' = ''x-libfw-session-status''"
  "to_ascii_lowercase ''x-libfw-compress'' = ''x-libfw-compress''"
  "to_ascii_lowercase ''x-libfw-final'' = ''x-libfw-final''"
  by code_simp+

text \<open>A session id is hexadecimal.\<close>

lemma session_id_hex: "\<forall>c\<in>set (session_id_for sha f). is_hex c"
proof -
  obtain h where h: "etag_from_size_mtime sha (fe_size f) (fe_mtime f) = [CHR 0x22] @ h @ [CHR 0x22]" "\<forall>c\<in>set h. is_hex c"
    using etag_shape by blast
  then have "trim_char CHR 0x22 (CHR 0x22 # h @ [CHR 0x22]) = h"
    by (intro trim_quotes(2)) (use is_hex_neq in blast)
  with h show ?thesis by (simp add: session_id_for_def to_meta_def)
qed

lemma is_hex_printable: "is_hex c \<Longrightarrow> printable c"
  by (auto simp: is_hex_def printable_def Let_def)

lemma session_id_text:
  "list_all printable (session_id_for sha f)" "str_trim (session_id_for sha f) = session_id_for sha f"
  using session_id_hex [of sha f] is_hex_printable is_hex_visible
  by (auto simp: list_all_iff intro!: str_trim_visible)

text \<open>The headers of a post, as the server reads them.\<close>

lemma post_headers_read:
  fixes env :: "('e, 's, 'w) client_env" and off :: nat and body :: bytes and cmp fin :: bool
  assumes session: "session = session_id_for (ce_sha env) (uj_file j)" "session \<noteq> []"
  defines "hs \<equiv> wire_headers (post_headers env j off body cmp fin session)"
  shows "header_get hs ''authorization'' = header_get [(''authorization'', as_bytes (''Bearer '' @ uj_token j))] ''authorization''"
    "header_get hs ''x-libfw-protocol'' = Some protocol_header_value"
    "header_get hs ''x-libfw-offset'' = Some (show_nat off)"
    "header_get hs ''x-libfw-session'' = Some session"
    "header_get hs ''x-libfw-session-status'' = None"
    "header_get hs ''x-libfw-file-meta'' = Some (encode_file_meta_header (ce_meta_json env) (to_meta (ce_sha env) (uj_file j)))"
    "header_get hs ''x-libfw-compress'' = (if cmp \<and> body \<noteq> [] then Some ''zrip'' else None)"
    "header_get hs ''x-libfw-final'' = (if fin then Some ''1'' else None)"
  using session(2) session_id_text(1) [of "ce_sha env" "uj_file j"] base64_printable
  unfolding hs_def session(1)
  by (simp_all add: wire_headers_def post_headers_def lower_names header_get_def header_text_printable
      protocol_header_value_def printable_def encode_file_meta_header_def)

lemma show_zero: "show_nat 0 = ''0''"
  by code_simp

lemma probe_headers_read:
  fixes env :: "('e, 's, 'w) client_env"
  assumes session: "session = session_id_for (ce_sha env) (uj_file j)" "session \<noteq> []"
  defines "hs \<equiv> wire_headers (rq_headers (probe_request env j session))"
  shows "header_get hs ''authorization'' = header_get [(''authorization'', as_bytes (''Bearer '' @ uj_token j))] ''authorization''"
    "header_get hs ''x-libfw-protocol'' = Some protocol_header_value"
    "header_get hs ''x-libfw-offset'' = Some (show_nat 0)"
    "header_get hs ''x-libfw-session'' = Some session"
    "header_get hs ''x-libfw-session-status'' = Some ''1''"
    "header_get hs ''x-libfw-file-meta'' = Some (encode_file_meta_header (ce_meta_json env) (to_meta (ce_sha env) (uj_file j)))"
    "header_get hs ''x-libfw-compress'' = None" "header_get hs ''x-libfw-final'' = None"
  using session(2) session_id_text(1) [of "ce_sha env" "uj_file j"] base64_printable printable_show_nat [of 0]
  unfolding hs_def session(1)
  by (simp_all add: wire_headers_def probe_request_def auth_headers_def show_zero lower_names header_get_def header_text_printable
      protocol_header_value_def printable_def encode_file_meta_header_def)

subsection \<open>The setting\<close>

text \<open>
  What has to agree between the two sides: the codecs and serialisers read what the other side wrote,
  the URL of the file is routed to its path, the token is accepted and the path may be written, and
  the file is within the server's limit.  \<open>p\<close> is the real path and \<open>t\<close> the name of the target.
\<close>

definition upload_setup ::
  "('e \<Rightarrow> bytes \<Rightarrow> bool) \<Rightarrow> ('e, 's, e2e_world) client_env \<Rightarrow> 'e network \<Rightarrow> (string \<Rightarrow> bytes) \<Rightarrow>
   upload_job \<Rightarrow> string \<Rightarrow> token_claims \<Rightarrow> bool" where
  "upload_setup R base nw files j p claims \<longleftrightarrow>
     (let g = nw_serving nw; sv = nw_state nw; f = uj_file j; D = files (fe_path f) in
      ext_ok (sg_ext g) \<and> zrip_ok (sg_zrip g) R \<and> ce_zrip base = sg_zrip g \<and> 0 < nw_frame nw \<and>
      (uj_compress j \<longrightarrow> is_valid_zrip_level (uj_level j)) \<and>
      (\<forall>m. x_de_meta (sg_ext g) (ce_meta_json base m) = Inr m \<and> utf8_valid (as_bytes (ce_meta_json base m))) \<and>
      (\<forall>rs :: chunk_range list. ce_ranges_json base (nw_json nw (JObj [(''ranges'',
         JArr (map (\<lambda>r. JArr [JNum (int (c_start r)), JNum (int (c_end r))]) rs))])) =
         Inr (map (\<lambda>r. (c_start r, c_end r)) rs)) \<and>
      (\<forall>b. length (ce_sha base b) = 32) \<and>
      fe_path f \<noteq> [] \<and>
      nw_path nw (file_url (ce_encode_uri base) (uj_base_url j) (fe_path f)) = ''/file/'' @ fe_path f \<and>
      bearer_claims (sv_verifier sv) [(''authorization'', as_bytes (''Bearer '' @ uj_token j))] = Inr claims \<and>
      resolve_client_path sv (sg_now g) claims (fe_path f) Act_Write = Inr p \<and>
      fe_size f = length D \<and> length D \<le> sv_max_upload_size sv \<and> length D + 16777216 \<le> u64_max)"

lemma upload_setupD:
  assumes "upload_setup R base nw files j p claims"
  shows "ext_ok (sg_ext (nw_serving nw))" "zrip_ok (sg_zrip (nw_serving nw)) R" "ce_zrip base = sg_zrip (nw_serving nw)"
    "0 < nw_frame nw" "uj_compress j \<Longrightarrow> is_valid_zrip_level (uj_level j)"
    "x_de_meta (sg_ext (nw_serving nw)) (ce_meta_json base m) = Inr m" "utf8_valid (as_bytes (ce_meta_json base m))"
    "ce_ranges_json base (nw_json nw (JObj [(''ranges'',
       JArr (map (\<lambda>r. JArr [JNum (int (c_start r)), JNum (int (c_end r))]) rs))])) =
       Inr (map (\<lambda>r. (c_start r, c_end (r :: chunk_range))) rs)"
    "length (ce_sha base b) = 32" "fe_path (uj_file j) \<noteq> []"
    "nw_path nw (file_url (ce_encode_uri base) (uj_base_url j) (fe_path (uj_file j))) = ''/file/'' @ fe_path (uj_file j)"
    "bearer_claims (sv_verifier (nw_state nw)) [(''authorization'', as_bytes (''Bearer '' @ uj_token j))] = Inr claims"
    "resolve_client_path (nw_state nw) (sg_now (nw_serving nw)) claims (fe_path (uj_file j)) Act_Write = Inr p"
    "fe_size (uj_file j) = length (files (fe_path (uj_file j)))"
    "length (files (fe_path (uj_file j))) \<le> sv_max_upload_size (nw_state nw)"
    "length (files (fe_path (uj_file j))) + 16777216 \<le> u64_max"
  using assms unfolding upload_setup_def Let_def by blast+

text \<open>The session's temp file.\<close>

definition temp_of ::
  "('e, 's, e2e_world) client_env \<Rightarrow> 'e network \<Rightarrow> upload_job \<Rightarrow> string \<Rightarrow> token_claims \<Rightarrow> string" where
  "temp_of base nw j t claims = sess_name t (job_session base j) (owner_tag (sg_ext (nw_serving nw)) (tc_sub claims))"

definition meta_of :: "('e, 's, e2e_world) client_env \<Rightarrow> upload_job \<Rightarrow> file_meta" where
  "meta_of base j = to_meta (ce_sha base) (uj_file j)"

lemma bearer_claims_cong:
  "header_get hs ''authorization'' = header_get hs2 ''authorization'' \<Longrightarrow> bearer_claims v hs = bearer_claims v hs2"
  by (simp add: bearer_claims_def)

lemma hex_length: "length (hex bs) = 2 * length bs"
  by (induction bs) (simp_all add: hex_def)

lemma job_session_nonempty:
  assumes "\<And>b. length (ce_sha base b) = 32"
  shows "job_session base j \<noteq> []"
proof -
  let ?f = "uj_file j"
  let ?h = "hex (take 8 (ce_sha base (le_bytes 8 (fe_size ?f) @ le_bytes 8 (fe_mtime ?f))))"
  have "length ?h = 16" using assms by (simp add: hex_length)
  then have n: "?h \<noteq> []" by (metis list.size(3) zero_neq_numeral)
  have t: "trim_char CHR 0x22 (CHR 0x22 # ?h @ [CHR 0x22]) = ?h"
    by (intro trim_quotes(2)) (use is_hex_neq is_hex_hex in blast)
  show ?thesis
    using n t by (simp add: job_session_def session_id_for_def to_meta_def etag_from_size_mtime_def Let_def del: take_map)
qed

lemma decode_meta:
  assumes "de (ser m) = Inr m" and "utf8_valid (as_bytes (ser m))"
  shows "decode_file_meta_header de (encode_file_meta_header ser m) = Inr m"
  using assms
  by (simp add: decode_file_meta_header_def encode_file_meta_header_def base64_decode_def
      b64_loop_encode utf8_lossy_valid)

text \<open>A request to the file route with a good session header is one of the session protocol.\<close>

lemma exchange_session:
  assumes u: "upload_setup R base nw files j p claims"
    and q: "rq_method req = ''POST''" "rq_url req = file_url (ce_encode_uri base) (uj_base_url j) (fe_path (uj_file j))"
    and h: "hs = wire_headers (rq_headers req)"
      "header_get hs ''authorization'' = header_get [(''authorization'', as_bytes (''Bearer '' @ uj_token j))] ''authorization''"
      "header_get hs ''x-libfw-protocol'' = Some protocol_header_value"
      "header_get hs ''x-libfw-session'' = Some (job_session base j)"
      "header_get hs ''x-libfw-file-meta'' = Some (encode_file_meta_header (ce_meta_json base) (meta_of base j))"
  shows "exchange nw req body w =
    (case upload_session (sg_zrip (nw_serving nw)) (sg_ext (nw_serving nw)) (nw_state nw) (sg_rnds (nw_serving nw) 0) p
       (job_session base j) claims (meta_of base j) (upload_format hs) (header_flag hs ''x-libfw-final'') hs body w of
       (r, w2) \<Rightarrow> (Returned (into_response r), w2))"
proof -
  let ?g = "nw_serving nw" and ?sv = "nw_state nw"
  have v: "validate_protocol hs next_handler w = next_handler w" for next_handler
    by (simp add: validate_protocol_def h(3) protocol_compatible_def protocol_header_value_def eq_ignore_ascii_case_def
        str_trim_visible visible_def)
  note d = upload_setupD [OF u]
  have r: "find_route (nw_path nw (rq_url req)) = Some (File_route (fe_path (uj_file j)))"
    unfolding q(2) d(11) find_route_def strip_prefix_append by (simp add: d(10))
  have b: "bearer_claims (sv_verifier ?sv) hs = Inr claims"
    using d(12) bearer_claims_cong [OF h(2)] by simp
  have m: "upload_meta (sg_ext ?g) hs = Inr (meta_of base j)"
    using decode_meta [of "x_de_meta (sg_ext ?g)" "ce_meta_json base" "meta_of base j", OF d(6,7)]
    by (simp add: upload_meta_def h(5) ok_or_def res_bind_def map_err_def)
  have s: "session_header hs = Some (job_session base j)"
    using job_session_nonempty [of base j, OF d(9)] session_id_text(2) [of "ce_sha base" "uj_file j"]
    by (simp add: session_header_def h(4) job_session_def)
  have "fm_size (meta_of base j) \<le> sv_max_upload_size ?sv"
    using d(14,15) by (simp add: meta_of_def to_meta_def)
  moreover have "resolve_client_path ?sv (sg_now ?g) claims (fe_path (uj_file j)) Act_Write = Inr p"
    by (rule d(13))
  ultimately show ?thesis
    using v r b m s h(1)
    by (simp add: exchange_def serve_def run_route_def with_claims_def q(1) returning_def upload_def am_simps
        outcome_response_def map_err_def Let_def split: prod.splits)
qed

subsection \<open>Payloads\<close>

lemma concat_split_chunks: "0 < n \<Longrightarrow> concat (split_chunks n xs) = xs"
proof (induction n xs rule: split_chunks.induct)
  case (1 n xs)
  then show ?case by (subst split_chunks.simps) auto
qed

lemma split_chunks_length: "0 < n \<Longrightarrow> c \<in> set (split_chunks n xs) \<Longrightarrow> length c \<le> n"
proof (induction n xs rule: split_chunks.induct)
  case (1 n xs)
  from 1(3) have "xs \<noteq> []" by (subst (asm) split_chunks.simps) (auto split: if_splits)
  with 1 have "c = take n xs \<or> c \<in> set (split_chunks n (drop n xs))"
    by (subst (asm) (2) split_chunks.simps) auto
  with 1 \<open>xs \<noteq> []\<close> show ?case by auto
qed

lemma payload_roundtrip:
  assumes z: "zrip_ok z R" and v: "cmp \<Longrightarrow> is_valid_zrip_level level"
    and raw: "raw \<noteq> []" "length raw \<le> 16777216"
  shows "\<exists>b. chunk_payload z cmp level raw = Inr b \<and>
    (\<forall>cs. concat cs = b \<longrightarrow>
       feed_all z (decompressor_with_limit (if cmp \<and> b \<noteq> [] then Fmt_Zrip else Fmt_None) max_output_per_call) cs = Inr raw)"
proof (cases cmp)
  case False
  then show ?thesis by (simp add: chunk_payload_def decompressor_with_limit_def feed_all_pass)
next
  case True
  let ?xs = "split_chunks stream_buf_size raw"
  have n: "0 < stream_buf_size" "stream_buf_size \<le> chunk_size" by (simp_all add: stream_buf_size_def chunk_size_def)
  have l: "\<forall>x\<in>set ?xs. length x \<le> chunk_size" using split_chunks_length [OF n(1)] n(2) le_trans by blast
  have m: "max_output_per_call = 16777216"
    by (simp add: max_output_per_call_def max_frame_output_def chunk_size_def sat_mul_def u64_max_def)
  have c: "concat ?xs = raw" by (rule concat_split_chunks [OF n(1)])
  obtain b where b: "res_bind (compressor_with_level z Fmt_Zrip level) (\<lambda>c. compress_chunks z c ?xs) = Inr b"
    "\<And>cs. concat cs = b \<Longrightarrow> feed_all z (decompressor_with_limit Fmt_Zrip max_output_per_call) cs = Inr raw"
    using compress_roundtrip [OF z v [OF True] l, of max_output_per_call Fmt_Zrip] raw(2) unfolding c m
    by (auto simp: u64_max_def)
  have "b \<noteq> []"
  proof
    assume "b = []"
    then have "feed_all z (decompressor_with_limit Fmt_Zrip max_output_per_call) [] = Inr raw" using b(2) [of "[]"] by simp
    moreover have "feed_all z (decompressor_with_limit Fmt_Zrip max_output_per_call) [] = Inr []"
      by (simp add: feed_all_def decompressor_with_limit_def zrip_decompressor_with_max_output_def drain_frames_def
          drain_loop.simps frame_boundary_def)
    ultimately show False using raw(1) by simp
  qed
  with True b show ?thesis by (intro exI [of _ b]) (simp add: chunk_payload_def map_err_def)
qed

lemma lower_zrip: "to_ascii_lowercase ''zrip'' = ''zrip''"
  by code_simp

subsection \<open>What requests do\<close>

definition e2e_view ::
  "('e, 's, e2e_world) client_env \<Rightarrow> 'e network \<Rightarrow> upload_job \<Rightarrow> path \<Rightarrow> string \<Rightarrow> token_claims \<Rightarrow> e2e_world \<Rightarrow> service_view" where
  "e2e_view base nw j d t claims ew =
     \<lparr> vw_got = session_got (sg_ext (nw_serving nw)) d (temp_of base nw j t claims) (ew_server ew),
       vw_stored = stored_file d t (ew_server ew),
       vw_budget = length (filter (\<lambda>f. f \<noteq> Delivered) (ew_faults ew)) \<rparr>"

definition e2e_fine ::
  "('e, 's, e2e_world) client_env \<Rightarrow> 'e network \<Rightarrow> (string \<Rightarrow> bytes) \<Rightarrow> upload_job \<Rightarrow> string \<Rightarrow> path \<Rightarrow> string \<Rightarrow>
   token_claims \<Rightarrow> e2e_world \<Rightarrow> bool" where
  "e2e_fine base nw files j p d t claims ew \<longleftrightarrow>
     session_fine (sg_ext (nw_serving nw)) (sv_storage (nw_state nw)) p d t (temp_of base nw j t claims)
       (files (fe_path (uj_file j))) (ew_server ew)"

definition e2e_patient :: "e2e_world \<Rightarrow> bool" where
  "e2e_patient ew \<longleftrightarrow> list_all patient_turns (ew_turns ew)"

lemma budget_step:
  "(case fs of [] \<Rightarrow> Delivered | f # _ \<Rightarrow> f) = Delivered \<Longrightarrow>
    length (filter (\<lambda>f. f \<noteq> Delivered) (tl fs)) = length (filter (\<lambda>f. f \<noteq> Delivered) fs)"
  "(case fs of [] \<Rightarrow> Delivered | f # _ \<Rightarrow> f) \<noteq> Delivered \<Longrightarrow>
    length (filter (\<lambda>f. f \<noteq> Delivered) (tl fs)) < length (filter (\<lambda>f. f \<noteq> Delivered) fs)"
  by (cases fs; simp)+

lemma upload_ok_status: "into_response (Inr (upload_ok m)) = upload_ok m" "rs_status (upload_ok m) = 201"
  by (simp_all add: into_response_def upload_ok_def json_response_def)

text \<open>
  The four fates of a request: what the exchange does when it arrives (\<open>A\<close>) and when its body is cut
  (\<open>C\<close>) determines what \<open>net_xhr\<close> does.
\<close>

lemma net_xhr_cases:
  assumes "net_xhr nw req tmo ew = (ticks, r, ew2)"
    and whole: "\<And>rep w2. exchange nw req (map Chunk (frames_of nw (rq_body req))) (ew_server ew) = (rep, w2) \<Longrightarrow>
      A (answer_status rep) w2"
    and cut: "\<And>k. C (snd (exchange nw req (map Chunk (take k (frames_of nw (rq_body req))) @ [Body_err ''reset'']) (ew_server ew)))"
  shows "ew_turns ew2 = ew_turns ew \<and>
    (A r (ew_server ew2) \<and> length (filter (\<lambda>f. f \<noteq> Delivered) (ew_faults ew2)) = length (filter (\<lambda>f. f \<noteq> Delivered) (ew_faults ew)) \<or>
     (\<exists>e. r = Inl e) \<and> length (filter (\<lambda>f. f \<noteq> Delivered) (ew_faults ew2)) < length (filter (\<lambda>f. f \<noteq> Delivered) (ew_faults ew)) \<and>
     (ew_server ew2 = ew_server ew \<or> C (ew_server ew2) \<or> (\<exists>q. A q (ew_server ew2))))"
proof -
  let ?f = "case ew_faults ew of [] \<Rightarrow> Delivered | f # _ \<Rightarrow> f"
  obtain w where w: "post_outcome nw ?f req (ew_server ew) = (r, w)"
    "ew2 = ew\<lparr> ew_server := w, ew_faults := tl (ew_faults ew) \<rparr>"
    using assms(1) by (auto simp: net_xhr_def Let_def split: prod.splits)
  obtain rep w3 where e: "exchange nw req (map Chunk (frames_of nw (rq_body req))) (ew_server ew) = (rep, w3)" by force
  note A = whole [OF e]
  show ?thesis
  proof (cases ?f)
    case Delivered
    with w e A budget_step(1) [OF this] show ?thesis by simp
  next
    case Request_lost
    with w budget_step(2) [of "ew_faults ew"] show ?thesis by auto
  next
    case (Body_cut k)
    with w cut [of k] budget_step(2) [of "ew_faults ew"] show ?thesis by auto
  next
    case Reply_lost
    with w e A budget_step(2) [of "ew_faults ew"] show ?thesis by auto
  qed
qed

lemma flag_read: "header_get hs name = (if b then Some ''1'' else None) \<Longrightarrow> header_flag hs name = b"
  using str_trim_visible [of "''1''"] by (simp add: header_flag_def visible_def)

lemma format_read:
  "header_get hs ''x-libfw-compress'' = (if b then Some ''zrip'' else None) \<Longrightarrow>
    upload_format hs = (if b then Fmt_Zrip else Fmt_None)"
  using str_trim_visible [of "''zrip''"] lower_zrip by (simp add: upload_format_def parse_format_header_def visible_def)

text \<open>A post of a block.\<close>

lemma block_headers:
  assumes u: "upload_setup R base nw files j p claims"
    and b: "chunk_payload (ce_zrip base) (uj_compress j) (uj_level j) (block_of D start e) = Inr b"
    and D: "D = files (fe_path (uj_file j))" and r: "start < e" "e \<le> length D" "e - start \<le> 16777216"
  defines "hs \<equiv> wire_headers (rq_headers (block_request (e2e_env base nw files) j start b))"
  shows "exchange nw (block_request (e2e_env base nw files) j start b) body w =
      (case upload_session (sg_zrip (nw_serving nw)) (sg_ext (nw_serving nw)) (nw_state nw) (sg_rnds (nw_serving nw) 0) p
         (job_session base j) claims (meta_of base j) (upload_format hs) False hs body w of
         (r, w2) \<Rightarrow> (Returned (into_response r), w2))"
    "offset_header hs \<noteq> None" "session_base hs = Inr start" "\<not> status_probe hs"
    "concat cs = b \<Longrightarrow>
      feed_all (sg_zrip (nw_serving nw)) (decompressor_with_limit (upload_format hs) max_output_per_call) cs = Inr (block_of D start e)"
proof -
  let ?env = "e2e_env base nw files" and ?S = "job_session base j"
  note d = upload_setupD [OF u]
  have S: "?S = session_id_for (ce_sha ?env) (uj_file j)" "?S \<noteq> []" "job_session ?env j = ?S"
    using job_session_nonempty [of base j, OF d(9)] by (simp_all add: job_session_def)
  have q: "rq_headers (block_request ?env j start b) = post_headers ?env j start b (uj_compress j) False ?S"
    "rq_method (block_request ?env j start b) = ''POST''"
    "rq_url (block_request ?env j start b) = file_url (ce_encode_uri base) (uj_base_url j) (fe_path (uj_file j))"
    by (simp_all add: block_request_def post_request_def S(3))
  note h = post_headers_read [OF S(1,2), of start b "uj_compress j" False, folded q(1), folded hs_def]
  have f: "header_flag hs ''x-libfw-final'' = False" by (rule flag_read) (use h(8) in simp)
  show "exchange nw (block_request ?env j start b) body w =
      (case upload_session (sg_zrip (nw_serving nw)) (sg_ext (nw_serving nw)) (nw_state nw) (sg_rnds (nw_serving nw) 0) p
         ?S claims (meta_of base j) (upload_format hs) False hs body w of
         (r, w2) \<Rightarrow> (Returned (into_response r), w2))"
    using exchange_session [OF u q(2,3) hs_def [THEN meta_eq_to_obj_eq] h(1,2,4)] h(6) f
    by (simp add: meta_of_def)
  have "start \<le> u64_max" using r(1,2) d(16) D by simp
  then show "session_base hs = Inr start" "offset_header hs \<noteq> None" "\<not> status_probe hs"
    using h(3,5) by (simp_all add: session_base_def offset_header_def status_probe_def ok_or_def)
  have "block_of D start e \<noteq> []" "length (block_of D start e) \<le> 16777216" using r by (simp_all add: block_of_def)
  from payload_roundtrip [where cmp = "uj_compress j" and level = "uj_level j", OF d(2,5) this]
  obtain c where c: "chunk_payload (sg_zrip (nw_serving nw)) (uj_compress j) (uj_level j) (block_of D start e) = Inr c"
    "\<And>cs. concat cs = c \<Longrightarrow> feed_all (sg_zrip (nw_serving nw))
      (decompressor_with_limit (if uj_compress j \<and> c \<noteq> [] then Fmt_Zrip else Fmt_None) max_output_per_call) cs =
      Inr (block_of D start e)" by blast
  have "c = b" using b c(1) by (simp add: d(3))
  with c(2) show "feed_all (sg_zrip (nw_serving nw))
      (decompressor_with_limit (upload_format hs) max_output_per_call) cs = Inr (block_of D start e)" if "concat cs = b"
    using that unfolding format_read [OF h(7)] by blast
qed

lemma block_of_take:
  assumes "start < e" and "e \<le> length D"
  shows "start + length (block_of D start e) \<le> length D"
    "block_of D start e = take (length (block_of D start e)) (drop start D)"
    "{start..<start + length (block_of D start e)} = {start..<e}"
  using assms by (simp_all add: block_of_def)

lemma xhr_block:
  assumes u: "upload_setup R base nw files j p claims" and f: "e2e_fine base nw files j p d t claims ew"
    and D: "D = files (fe_path (uj_file j))" and r: "start < e" "e \<le> length D" "e - start \<le> 16777216"
    and b: "chunk_payload (ce_zrip base) (uj_compress j) (uj_level j) (block_of D start e) = Inr b"
    and x: "net_xhr nw (block_request (e2e_env base nw files) j start b) tmo ew = (ticks, res, ew2)"
  shows "e2e_fine base nw files j p d t claims ew2 \<and>
    post_step {start..<e} res (e2e_view base nw j d t claims ew) (e2e_view base nw j d t claims ew2) \<and>
    ew_turns ew2 = ew_turns ew"
proof -
  let ?req = "block_request (e2e_env base nw files) j start b" and ?x = "sg_ext (nw_serving nw)" and ?sv = "nw_state nw"
  let ?n = "temp_of base nw j t claims" and ?S = "job_session base j" and ?hs = "wire_headers (rq_headers (block_request (e2e_env base nw files) j start b))"
  let ?fine = "session_fine ?x (sv_storage ?sv) p d t ?n D" and ?got = "session_got ?x d ?n" and ?st = "stored_file d t"
  let ?w = "ew_server ew"
  note dd = upload_setupD [OF u]
  note h = block_headers [OF u b D r]
  note k = block_of_take [OF r(1,2)]
  have fr: "concat (frames_of nw b) = b" using dd(4) by (simp add: frames_of_def concat_split_chunks)
  have body: "rq_body ?req = b" by (simp add: block_request_def post_request_def)
  have n: "?n = sess_name t ?S (owner_tag ?x (tc_sub claims))" by (simp add: temp_of_def)
  have f0: "?fine ?w" using f by (simp add: e2e_fine_def D)
  have cap: "length D \<le> upload_cap ?sv (fm_size (meta_of base j))" "upload_cap ?sv (fm_size (meta_of base j)) < u64_max"
    using dd(14-16) by (simp_all add: D upload_cap_def meta_of_def to_meta_def)
  let ?A = "\<lambda>(q :: libfw_error + nat) w2. q = Inr 201 \<and> ?fine w2 \<and> ?got w2 = ?got ?w \<union> {start..<e} \<and> ?st w2 = ?st ?w"
  let ?C = "\<lambda>w2. ?fine w2 \<and> ?got w2 \<subseteq> ?got ?w \<union> {start..<e} \<and> ?st w2 = ?st ?w"
  have A: "?A (answer_status rep) w2"
    if ex: "exchange nw ?req (map Chunk (frames_of nw (rq_body ?req))) ?w = (rep, w2)" for rep w2
  proof -
    have "body_decodes (sg_zrip (nw_serving nw)) (upload_format ?hs) (map Chunk (frames_of nw b)) (block_of D start e)"
      unfolding body_decodes_def using h(5) [OF fr] by blast
    then have "sends_piece (sg_zrip (nw_serving nw)) D (?hs, upload_format ?hs, map Chunk (frames_of nw b)) start (block_of D start e)"
      using h(2-4) k(1,2) by (simp add: sends_piece_def)
    from session_piece [OF dd(1) n f0 this cap, of "sg_rnds (nw_serving nw) 0"] ex
    show ?thesis unfolding body h(1) k(3) by (auto simp: answer_status_def upload_ok_status)
  qed
  have C: "?C (snd (exchange nw ?req (map Chunk (take m (frames_of nw (rq_body ?req))) @ [Body_err ''reset'']) ?w))" for m
  proof -
    have "feed_all (sg_zrip (nw_serving nw)) (decompressor_with_limit (upload_format ?hs) max_output_per_call)
        (take m (frames_of nw b) @ drop m (frames_of nw b)) = Inr (block_of D start e)"
      unfolding append_take_drop_id by (rule h(5) [OF fr])
    from session_cut [OF dd(1) n f0 h(2-4) this k(1,2) cap, of "sg_rnds (nw_serving nw) 0" False "''reset''"]
    show ?thesis unfolding body h(1) k(3) by auto
  qed
  let ?b = "\<lambda>ew. length (filter (\<lambda>f. f \<noteq> Delivered) (ew_faults ew))"
  have c: "ew_turns ew2 = ew_turns ew \<and> (?A res (ew_server ew2) \<and> ?b ew2 = ?b ew \<or>
      (\<exists>e. res = Inl e) \<and> ?b ew2 < ?b ew \<and>
      (ew_server ew2 = ?w \<or> ?C (ew_server ew2) \<or> (\<exists>q. ?A q (ew_server ew2))))"
    by (rule net_xhr_cases [where A = ?A and C = ?C, OF x]) (rule A, assumption, rule C)
  from c f0
  have "?fine (ew_server ew2) \<and> ew_turns ew2 = ew_turns ew \<and> ?st (ew_server ew2) = ?st ?w \<and>
      ?got (ew_server ew2) \<subseteq> ?got ?w \<union> {start..<e} \<and>
      length (filter (\<lambda>f. f \<noteq> Delivered) (ew_faults ew2)) \<le> length (filter (\<lambda>f. f \<noteq> Delivered) (ew_faults ew)) \<and>
      (if res = Inr 201 then ?got (ew_server ew2) = ?got ?w \<union> {start..<e}
       else length (filter (\<lambda>f. f \<noteq> Delivered) (ew_faults ew2)) < length (filter (\<lambda>f. f \<noteq> Delivered) (ew_faults ew)))"
    by (elim conjE disjE exE) simp_all
  then show ?thesis unfolding post_step_def e2e_fine_def e2e_view_def D by simp
qed

text \<open>The commit.\<close>

lemma commit_headers:
  assumes u: "upload_setup R base nw files j p claims"
  defines "hs \<equiv> wire_headers (rq_headers (commit_request (e2e_env base nw files) j))"
  shows "exchange nw (commit_request (e2e_env base nw files) j) body w =
      (case upload_session (sg_zrip (nw_serving nw)) (sg_ext (nw_serving nw)) (nw_state nw) (sg_rnds (nw_serving nw) 0) p
         (job_session base j) claims (meta_of base j) Fmt_None True hs body w of
         (r, w2) \<Rightarrow> (Returned (into_response r), w2))"
    "offset_header hs \<noteq> None" "session_base hs = Inr (length (files (fe_path (uj_file j))))" "\<not> status_probe hs"
proof -
  let ?env = "e2e_env base nw files" and ?S = "job_session base j"
  note d = upload_setupD [OF u]
  have S: "?S = session_id_for (ce_sha ?env) (uj_file j)" "?S \<noteq> []" "job_session ?env j = ?S"
    using job_session_nonempty [of base j, OF d(9)] by (simp_all add: job_session_def)
  have q: "rq_headers (commit_request ?env j) = post_headers ?env j (fe_size (uj_file j)) [] False True ?S"
    "rq_method (commit_request ?env j) = ''POST''"
    "rq_url (commit_request ?env j) = file_url (ce_encode_uri base) (uj_base_url j) (fe_path (uj_file j))"
    by (simp_all add: commit_request_def post_request_def S(3))
  note h = post_headers_read [OF S(1,2), of "fe_size (uj_file j)" "[]" False True, folded q(1), folded hs_def]
  have f: "header_flag hs ''x-libfw-final'' = True" by (rule flag_read) (use h(8) in simp)
  have g: "upload_format hs = Fmt_None" using h(7) by (simp add: upload_format_def)
  show "exchange nw (commit_request ?env j) body w =
      (case upload_session (sg_zrip (nw_serving nw)) (sg_ext (nw_serving nw)) (nw_state nw) (sg_rnds (nw_serving nw) 0) p
         ?S claims (meta_of base j) Fmt_None True hs body w of
         (r, w2) \<Rightarrow> (Returned (into_response r), w2))"
    using exchange_session [OF u q(2,3) hs_def [THEN meta_eq_to_obj_eq] h(1,2,4)] h(6) f g
    by (simp add: meta_of_def)
  have "fe_size (uj_file j) \<le> u64_max" using d(14,16) by simp
  then show "session_base hs = Inr (length (files (fe_path (uj_file j))))" "offset_header hs \<noteq> None" "\<not> status_probe hs"
    using h(3,5) d(14) by (simp_all add: session_base_def offset_header_def status_probe_def ok_or_def)
qed

lemma split_chunks_Nil: "split_chunks n [] = []"
  by (simp add: split_chunks.simps)

lemma xhr_commit:
  assumes u: "upload_setup R base nw files j p claims" and f: "e2e_fine base nw files j p d t claims ew"
    and D: "D = files (fe_path (uj_file j))"
    and x: "net_xhr nw (commit_request (e2e_env base nw files) j) tmo ew = (ticks, res, ew2)"
  shows "e2e_fine base nw files j p d t claims ew2 \<and>
    commit_step D res (e2e_view base nw j d t claims ew) (e2e_view base nw j d t claims ew2) \<and>
    ew_turns ew2 = ew_turns ew"
proof -
  let ?req = "commit_request (e2e_env base nw files) j" and ?x = "sg_ext (nw_serving nw)" and ?sv = "nw_state nw"
  let ?n = "temp_of base nw j t claims" and ?S = "job_session base j" and ?hs = "wire_headers (rq_headers (commit_request (e2e_env base nw files) j))"
  let ?fine = "session_fine ?x (sv_storage ?sv) p d t ?n D" and ?got = "session_got ?x d ?n" and ?st = "stored_file d t"
  let ?w = "ew_server ew" and ?z = "sg_zrip (nw_serving nw)"
  note dd = upload_setupD [OF u]
  note h = commit_headers [OF u]
  have body: "rq_body ?req = []" "frames_of nw [] = []"
    by (simp_all add: commit_request_def post_request_def frames_of_def split_chunks_Nil)
  have n: "?n = sess_name t ?S (owner_tag ?x (tc_sub claims))" by (simp add: temp_of_def)
  have f0: "?fine ?w" using f by (simp add: e2e_fine_def D)
  have m: "fm_size (meta_of base j) = length D" "length D \<le> sv_max_upload_size ?sv" "length D < u64_max"
    using dd(14-16) by (simp_all add: D meta_of_def to_meta_def)
  have cap: "length D \<le> upload_cap ?sv (fm_size (meta_of base j))" "upload_cap ?sv (fm_size (meta_of base j)) < u64_max"
    using m by (simp_all add: upload_cap_def)
  have fd: "feed_all ?z (decompressor_with_limit Fmt_None max_output_per_call) ([] @ []) = Inr []"
    by (simp add: decompressor_with_limit_def feed_all_pass)
  let ?A = "\<lambda>(q :: libfw_error + nat) w2. ?fine w2 \<and> ?got w2 = {} \<and>
      (if ?got ?w = {..<length D} then q = Inr 201 \<and> ?st w2 = Some D else q \<noteq> Inr 201 \<and> ?st w2 = ?st ?w)"
  let ?C = "\<lambda>w2. ?fine w2 \<and> ?got w2 \<subseteq> ?got ?w \<and> ?st w2 = ?st ?w"
  have A: "?A (answer_status rep) w2"
    if ex: "exchange nw ?req (map Chunk (frames_of nw (rq_body ?req))) ?w = (rep, w2)" for rep w2
  proof -
    have "sends_piece ?z D (?hs, Fmt_None, []) (length D) []"
      using h(2-4) fd by (simp add: sends_piece_def body_decodes_def D [symmetric])
    from session_final [OF dd(1) n f0 this m, of "sg_rnds (nw_serving nw) 0"]
    obtain r w3 where g: "upload_session ?z ?x ?sv (sg_rnds (nw_serving nw) 0) p ?S claims (meta_of base j) Fmt_None True ?hs [] ?w = (r, w3)"
      "?fine w3" "?got w3 = {}"
      "if ?got ?w = {..<length D} then (\<exists>m. r = Inr (upload_ok m)) \<and> ?st w3 = Some D
       else (\<exists>e. r = Inl (Bad_Request e)) \<and> ?st w3 = ?st ?w" by blast
    have "rep = Returned (into_response r)" "w2 = w3" using ex unfolding body h(1) by (simp_all add: g(1))
    with g(2-4) show ?thesis
      by (auto simp: answer_status_def upload_ok_status into_response_def text_response_def split: if_splits)
  qed
  have C: "?C (snd (exchange nw ?req (map Chunk (take k (frames_of nw (rq_body ?req))) @ [Body_err ''reset'']) ?w))" for k
  proof -
    have "length D + length ([] :: bytes) \<le> length D" "[] = take (length ([] :: bytes)) (drop (length D) D)" by simp_all
    from session_cut [OF dd(1) n f0 h(2-4) [folded D] fd this cap, of "sg_rnds (nw_serving nw) 0" True "''reset''"]
    show ?thesis unfolding body h(1) by auto
  qed
  let ?b = "\<lambda>ew. length (filter (\<lambda>f. f \<noteq> Delivered) (ew_faults ew))"
  have c: "ew_turns ew2 = ew_turns ew \<and> (?A res (ew_server ew2) \<and> ?b ew2 = ?b ew \<or>
      (\<exists>e. res = Inl e) \<and> ?b ew2 < ?b ew \<and>
      (ew_server ew2 = ?w \<or> ?C (ew_server ew2) \<or> (\<exists>q. ?A q (ew_server ew2))))"
    by (rule net_xhr_cases [where A = ?A and C = ?C, OF x]) (rule A, assumption, rule C)
  from c f0
  have "?fine (ew_server ew2) \<and> ew_turns ew2 = ew_turns ew \<and> (?st (ew_server ew2) = ?st ?w \<or> ?st (ew_server ew2) = Some D) \<and>
      ?got (ew_server ew2) \<subseteq> ?got ?w \<and>
      length (filter (\<lambda>f. f \<noteq> Delivered) (ew_faults ew2)) \<le> length (filter (\<lambda>f. f \<noteq> Delivered) (ew_faults ew)) \<and>
      (if res = Inr 201 then ?st (ew_server ew2) = Some D
       else ?got ?w = {..<length D} \<longrightarrow>
         length (filter (\<lambda>f. f \<noteq> Delivered) (ew_faults ew2)) < length (filter (\<lambda>f. f \<noteq> Delivered) (ew_faults ew)))"
    by (elim conjE disjE exE) (simp_all split: if_splits)
  then show ?thesis unfolding commit_step_def e2e_fine_def e2e_view_def D by simp
qed

text \<open>The probe.\<close>

lemma probe_exchange:
  assumes u: "upload_setup R base nw files j p claims"
  defines "hs \<equiv> wire_headers (rq_headers (probe_request (e2e_env base nw files) j (job_session base j)))"
  shows "exchange nw (probe_request (e2e_env base nw files) j (job_session base j)) body w =
      (case upload_session (sg_zrip (nw_serving nw)) (sg_ext (nw_serving nw)) (nw_state nw) (sg_rnds (nw_serving nw) 0) p
         (job_session base j) claims (meta_of base j) Fmt_None False hs body w of
         (r, w2) \<Rightarrow> (Returned (into_response r), w2))"
    "offset_header hs \<noteq> None" "session_base hs = Inr 0" "status_probe hs"
proof -
  let ?env = "e2e_env base nw files" and ?S = "job_session base j"
  note d = upload_setupD [OF u]
  have S: "?S = session_id_for (ce_sha ?env) (uj_file j)" "?S \<noteq> []"
    using job_session_nonempty [of base j, OF d(9)] by (simp_all add: job_session_def)
  note h = probe_headers_read [OF S, folded hs_def]
  have q: "rq_method (probe_request ?env j ?S) = ''POST''"
    "rq_url (probe_request ?env j ?S) = file_url (ce_encode_uri base) (uj_base_url j) (fe_path (uj_file j))"
    by (simp_all add: probe_request_def)
  show "exchange nw (probe_request ?env j ?S) body w =
      (case upload_session (sg_zrip (nw_serving nw)) (sg_ext (nw_serving nw)) (nw_state nw) (sg_rnds (nw_serving nw) 0) p
         ?S claims (meta_of base j) Fmt_None False hs body w of
         (r, w2) \<Rightarrow> (Returned (into_response r), w2))"
    using exchange_session [OF u q hs_def [THEN meta_eq_to_obj_eq] h(1,2,4)] h(6-8)
    by (simp add: meta_of_def upload_format_def header_flag_def)
  have "str_trim ''1'' = ''1''" by (rule str_trim_visible) (simp add: visible_def)
  then show "offset_header hs \<noteq> None" "session_base hs = Inr 0" "status_probe hs"
    using h(3,5) by (simp_all add: session_base_def offset_header_def status_probe_def ok_or_def u64_max_def)
qed

lemma ranges_wf_mem: "ranges_wf rs \<Longrightarrow> r \<in> set rs \<Longrightarrow> c_start r < c_end r"
  by (induction rs rule: ranges_wf.induct) auto

lemma fetch_probe:
  assumes u: "upload_setup R base nw files j p claims" and f: "e2e_fine base nw files j p d t claims ew"
  shows "\<exists>reply rs ew2.
    net_fetch nw (probe_request (e2e_env base nw files) j (job_session base j)) tmo ew = (Inr (reply, None), ew2) \<and>
    rp_status reply = 200 \<and> ce_ranges_json base (concat (rp_body reply)) = Inr rs \<and>
    (\<forall>r\<in>set rs. fst r \<le> snd r \<and> snd r \<le> u64_max) \<and> spans_set rs = vw_got (e2e_view base nw j d t claims ew) \<and>
    e2e_fine base nw files j p d t claims ew2 \<and>
    e2e_view base nw j d t claims ew2 = e2e_view base nw j d t claims ew \<and> ew_turns ew2 = ew_turns ew"
proof -
  let ?D = "files (fe_path (uj_file j))" and ?x = "sg_ext (nw_serving nw)" and ?sv = "nw_state nw"
  let ?n = "temp_of base nw j t claims" and ?S = "job_session base j" and ?w = "ew_server ew"
  let ?req = "probe_request (e2e_env base nw files) j ?S"
  note dd = upload_setupD [OF u]
  note h = probe_exchange [OF u]
  have n: "?n = sess_name t ?S (owner_tag ?x (tc_sub claims))" by (simp add: temp_of_def)
  have f0: "session_fine ?x (sv_storage ?sv) p d t ?n ?D ?w" using f by (simp add: e2e_fine_def)
  have l: "length ?D \<le> u64_max" using dd(16) by simp
  obtain rs w2 where g: "upload_session (sg_zrip (nw_serving nw)) ?x ?sv (sg_rnds (nw_serving nw) 0) p ?S claims (meta_of base j)
      Fmt_None False (wire_headers (rq_headers ?req)) (map Chunk (frames_of nw (rq_body ?req))) ?w = (Inr (session_status rs), w2)"
    "session_fine ?x (sv_storage ?sv) p d t ?n ?D w2" "session_got ?x d ?n w2 = session_got ?x d ?n ?w"
    "stored_file d t w2 = stored_file d t ?w" "ranges_wf rs" "ranges_set rs = session_got ?x d ?n ?w"
    using session_asked [OF dd(1) n f0 h(2-4) l] by blast
  have e: "exchange nw ?req (map Chunk (frames_of nw (rq_body ?req))) ?w = (Returned (session_status rs), w2)"
    unfolding h(1) g(1) by (simp add: into_response_def)
  let ?rs = "map (\<lambda>r. (c_start r, c_end r)) rs"
  have b: "c_start r \<le> c_end r \<and> c_end r \<le> u64_max" if "r \<in> set rs" for r
  proof -
    have w: "c_start r < c_end r" using g(5) that by (rule ranges_wf_mem)
    then have "c_end r - 1 \<in> ranges_set rs" using that by (auto simp: ranges_set_def intro!: bexI [of _ r])
    then have "c_end r - 1 < length ?D" using got_bound [OF dd(1) f0] g(6) by auto
    with w l show ?thesis by simp
  qed
  have s: "spans_set ?rs = session_got ?x d ?n ?w" unfolding g(6) [symmetric] by (auto simp: spans_set_def ranges_set_def)
  let ?reply = "\<lparr> rp_status = 200, rp_headers = [], rp_body = [nw_json nw (JObj [(''ranges'',
       JArr (map (\<lambda>r. JArr [JNum (int (c_start r)), JNum (int (c_end r))]) rs))])] \<rparr>"
  have "net_fetch nw ?req tmo ew = (Inr (?reply, None), ew\<lparr> ew_server := w2 \<rparr>)"
    by (simp add: net_fetch_def e session_status_def json_response_def)
  moreover have "ce_ranges_json base (concat (rp_body ?reply)) = Inr ?rs" using dd(8) by simp
  ultimately show ?thesis
    using b s g(2-4)
    by (intro exI [of _ ?reply] exI [of _ ?rs] exI [of _ "ew\<lparr> ew_server := w2 \<rparr>"])
      (simp add: e2e_fine_def e2e_view_def)
qed

subsection \<open>The composition fulfils the contracts\<close>

lemma quiet_e2e: "quiet_world (e2e_env base nw files) (\<lambda>ew. e2e_fine base nw files j p d t claims ew \<and> e2e_view base nw j d t claims ew = v)"
  by (auto simp: quiet_world_def net_controls_def net_order_def e2e_fine_def e2e_view_def split: list.splits)

lemma patient_controls:
  assumes "e2e_patient ew"
  shows "patient_turns (fst (net_controls ew))" "e2e_patient (snd (net_controls ew))"
  using assms by (auto simp: e2e_patient_def net_controls_def patient_turns_def split: list.splits)

lemma e2e_session_service:
  assumes u: "upload_setup R base nw files j p claims"
  shows "session_service (e2e_env base nw files) j (files (fe_path (uj_file j)))
    (e2e_fine base nw files j p d t claims) (e2e_view base nw j d t claims)"
proof unfold_locales
  note dd = upload_setupD [OF u]
  have js: "job_session (e2e_env base nw files) j = job_session base j" by (simp add: job_session_def)
  let ?D = "files (fe_path (uj_file j))" and ?fine = "e2e_fine base nw files j p d t claims" and ?view = "e2e_view base nw j d t claims"
  show "fe_size (uj_file j) = length ?D" by (rule dd(14))
  show "length ?D + 16777216 \<le> u64_max" by (rule dd(16))
  show "quiet_world (e2e_env base nw files) (\<lambda>ew. ?fine ew \<and> ?view ew = v)" for v by (rule quiet_e2e)
  show "raw = take len (drop start ?D)"
    if "fst (ce_read_file (e2e_env base nw files) (fe_path (uj_file j)) start len w) = Inr raw" for w start len raw
    using that by simp
  show "?fine w2 \<and> post_step {start..<e} r (?view w) (?view w2)"
    if "?fine w" "start < e" "e \<le> length ?D" "e - start \<le> 16777216"
      "chunk_payload (ce_zrip (e2e_env base nw files)) (uj_compress j) (uj_level j) (block_of ?D start e) = Inr b"
      "ce_xhr (e2e_env base nw files) (block_request (e2e_env base nw files) j start b) (cg_timeout_ms (uj_config j)) w = (ticks, r, w2)"
    for w start e b ticks r w2
    using xhr_block [OF u that(1) refl that(2-4), of b] that(5,6) unfolding e2e_env_simps by blast
  show "?fine w2 \<and> commit_step ?D r (?view w) (?view w2)"
    if "?fine w" "ce_xhr (e2e_env base nw files) (commit_request (e2e_env base nw files) j) (cg_timeout_ms (uj_config j)) w = (ticks, r, w2)"
    for w ticks r w2
    using xhr_commit [OF u that(1) refl] that(2) unfolding e2e_env_simps by blast
  show "?fine w2 \<and> ?view w2 = ?view w"
    if "?fine w" "ce_fetch (e2e_env base nw files) (probe_request (e2e_env base nw files) j (job_session (e2e_env base nw files) j))
      (cg_timeout_ms (uj_config j)) w = (reply, w2)" for w reply w2
    using fetch_probe [OF u that(1), of "cg_timeout_ms (uj_config j)"] that(2) unfolding e2e_env_simps js by auto
qed

lemma turns_kept:
  "net_xhr nw req tmo ew = (ticks, r, ew2) \<Longrightarrow> ew_turns ew2 = ew_turns ew"
  "net_fetch nw req tmo ew = (reply, ew2) \<Longrightarrow> ew_turns ew2 = ew_turns ew"
  by (auto simp: net_xhr_def net_fetch_def Let_def split: prod.splits outcome.splits)

lemma quiet_patient:
  "quiet_world (e2e_env base nw files)
     (\<lambda>ew. (e2e_fine base nw files j p d t claims ew \<and> e2e_patient ew) \<and> e2e_view base nw j d t claims ew = v)"
  by (auto simp: quiet_world_def net_controls_def net_order_def e2e_fine_def e2e_view_def e2e_patient_def split: list.splits)

text \<open>With a patient user the composition is a reliable service.\<close>

lemma e2e_reliable_service:
  assumes u: "upload_setup R base nw files j p claims"
  shows "reliable_service (e2e_env base nw files) j (files (fe_path (uj_file j)))
    (\<lambda>ew. e2e_fine base nw files j p d t claims ew \<and> e2e_patient ew) (e2e_view base nw j d t claims)"
proof -
  let ?D = "files (fe_path (uj_file j))" and ?fine = "e2e_fine base nw files j p d t claims" and ?view = "e2e_view base nw j d t claims"
  note dd = upload_setupD [OF u]
  have js: "job_session (e2e_env base nw files) j = job_session base j" by (simp add: job_session_def)
  note ss = e2e_session_service [OF u, of d t]
  show ?thesis
  proof unfold_locales
    show "fe_size (uj_file j) = length ?D" by (rule dd(14))
    show "length ?D + 16777216 \<le> u64_max" by (rule dd(16))
    show "quiet_world (e2e_env base nw files) (\<lambda>ew. (?fine ew \<and> e2e_patient ew) \<and> ?view ew = v)" for v
      by (rule quiet_patient)
    show "raw = take len (drop start ?D)"
      if "fst (ce_read_file (e2e_env base nw files) (fe_path (uj_file j)) start len w) = Inr raw" for w start len raw
      using that by simp
    show "(?fine w2 \<and> e2e_patient w2) \<and> post_step {start..<e} r (?view w) (?view w2)"
      if "?fine w \<and> e2e_patient w" "start < e" "e \<le> length ?D" "e - start \<le> 16777216"
        "chunk_payload (ce_zrip (e2e_env base nw files)) (uj_compress j) (uj_level j) (block_of ?D start e) = Inr b"
        "ce_xhr (e2e_env base nw files) (block_request (e2e_env base nw files) j start b) (cg_timeout_ms (uj_config j)) w = (ticks, r, w2)"
      for w start e b ticks r w2
      using session_service.post [OF ss conjunct1 [OF that(1)] that(2-6)] that(1) turns_kept(1) that(6)
      by (fastforce simp: e2e_patient_def)
    show "(?fine w2 \<and> e2e_patient w2) \<and> commit_step ?D r (?view w) (?view w2)"
      if "?fine w \<and> e2e_patient w"
        "ce_xhr (e2e_env base nw files) (commit_request (e2e_env base nw files) j) (cg_timeout_ms (uj_config j)) w = (ticks, r, w2)"
      for w ticks r w2
      using session_service.commit [OF ss conjunct1 [OF that(1)] that(2)] that(1) turns_kept(1) that(2)
      by (fastforce simp: e2e_patient_def)
    show "(?fine w2 \<and> e2e_patient w2) \<and> ?view w2 = ?view w"
      if "?fine w \<and> e2e_patient w" "ce_fetch (e2e_env base nw files) (probe_request (e2e_env base nw files) j (job_session (e2e_env base nw files) j))
        (cg_timeout_ms (uj_config j)) w = (reply, w2)" for w reply w2
      using session_service.probe [OF ss conjunct1 [OF that(1)] that(2)] that(1) turns_kept(2) that(2)
      by (fastforce simp: e2e_patient_def)
    show "vw_got (?view w) \<subseteq> {..<length ?D}" if "?fine w \<and> e2e_patient w" for w
      using that got_bound [OF dd(1)] unfolding e2e_fine_def e2e_view_def by (metis service_view.select_convs(1))
    show "\<exists>c2. wait_loop (fst (ce_controls (e2e_env base nw files) w)) c = (Some (Inr ()), c2) \<and> running c2"
      if "?fine w \<and> e2e_patient w" "running c" for w c
      using patient_ends [OF that(2)] patient_controls(1) that(1) by simp
    show "fst (ce_call (e2e_env base nw files) q w) = Inr ()" for q w by simp
    show "fst (ce_read_file (e2e_env base nw files) (fe_path (uj_file j)) start len w) = Inr (take len (drop start ?D))"
      for start len w by simp
    show "\<exists>b. chunk_payload (ce_zrip (e2e_env base nw files)) (uj_compress j) (uj_level j) (block_of ?D start e) = Inr b"
      if "start < e" "e \<le> length ?D" "e - start \<le> 16777216" for start e
    proof -
      have "length (block_of ?D start e) = e - start" using that by (simp add: block_of_def)
      then have "block_of ?D start e \<noteq> []" "length (block_of ?D start e) \<le> 16777216" using that by auto
      then show ?thesis using payload_roundtrip [OF dd(2) dd(5), of "uj_compress j" "block_of ?D start e"] dd(3) by auto
    qed
    show "\<exists>reply rs. fst (ce_fetch (e2e_env base nw files)
          (probe_request (e2e_env base nw files) j (job_session (e2e_env base nw files) j)) (cg_timeout_ms (uj_config j)) w) = Inr (reply, None) \<and>
        rp_status reply = 200 \<and> ce_ranges_json (e2e_env base nw files) (concat (rp_body reply)) = Inr rs \<and>
        (\<forall>r\<in>set rs. fst r \<le> snd r \<and> snd r \<le> u64_max) \<and> spans_set rs = vw_got (?view w)"
      if "?fine w \<and> e2e_patient w" for w
      using fetch_probe [OF u conjunct1 [OF that], of "cg_timeout_ms (uj_config j)"] unfolding e2e_env_simps js by fastforce
  qed
qed

end
