(* ===== verification/End_To_End_Props.thy ===== *)
theory End_To_End_Props
  imports End_To_End
begin

text \<open>
  Whole uploads over a faulty connection.  The deployment of client, connection and server is a locale
  whose assumption is the setting; the contracts of \<open>Client_Service\<close> are its sublocales, and a concrete
  deployment interprets it.
\<close>

subsection \<open>The deployment\<close>

locale upload_deployment =
  fixes R :: "'e \<Rightarrow> bytes \<Rightarrow> bool" and base :: "('e, 's, e2e_world) client_env" and nw :: "'e network"
    and files :: "string \<Rightarrow> bytes" and j :: upload_job and p :: string and d :: path and t :: string
    and claims :: token_claims
  assumes agree: "upload_setup R base nw files j p claims"
begin

text \<open>What a client's run needs to start from, and what the upload has stored.\<close>

definition begins :: "('s, e2e_world) client \<Rightarrow> bool" where
  "begins s \<longleftrightarrow> e2e_fine base nw files j p d t claims (cl_world s) \<and> engine_ok (cl_tune s)"

definition stores :: "('s, e2e_world) client \<Rightarrow> bool" where
  "stores s \<longleftrightarrow> stored_file d t (ew_server (cl_world s)) = Some (files (fe_path (uj_file j)))"

end

sublocale upload_deployment \<subseteq> service: session_service "e2e_env base nw files" j "files (fe_path (uj_file j))"
    "e2e_fine base nw files j p d t claims" "e2e_view base nw j d t claims"
  by (rule e2e_session_service [OF agree])

sublocale upload_deployment \<subseteq> patient: reliable_service "e2e_env base nw files" j "files (fe_path (uj_file j))"
    "\<lambda>ew. e2e_fine base nw files j p d t claims ew \<and> e2e_patient ew" "e2e_view base nw j d t claims"
  by (rule e2e_reliable_service [OF agree])

context upload_deployment
begin

lemma reported_is_stored:
  assumes "begins s" and "upload_file (e2e_env base nw files) j s = (Some (Inr n), s2)"
  shows "stores s2"
  using service.upload_stores assms
  by (auto simp: cm_sat_def in_order_def begins_def stores_def e2e_view_def dest!: spec [of _ s])

lemma patient_upload_succeeds:
  assumes "begins s" and "e2e_patient (cl_world s)" and "running (cl_control s)"
    and "vw_budget (e2e_view base nw j d t claims (cl_world s)) \<le> cg_max_retries (uj_config j)"
  shows "\<exists>s2. upload_file (e2e_env base nw files) j s =
      (Some (Inr (length (files (fe_path (uj_file j))) - card (vw_got (e2e_view base nw j d t claims (cl_world s))))), s2) \<and>
    stores s2"
proof -
  have "live (\<lambda>ew. e2e_fine base nw files j p d t claims ew \<and> e2e_patient ew) (e2e_view base nw j d t claims)
      (\<lambda>x. x = e2e_view base nw j d t claims (cl_world s)) s"
    using assms(1-3) by (simp add: live_def in_order_def begins_def)
  with patient.upload_succeeds [OF assms(4), of "\<lambda>_ _. False" "\<lambda>_. False"]
  have "cm_post (\<lambda>n s2. n = length (files (fe_path (uj_file j))) - card (vw_got (e2e_view base nw j d t claims (cl_world s))) \<and>
      live (\<lambda>ew. e2e_fine base nw files j p d t claims ew \<and> e2e_patient ew) (e2e_view base nw j d t claims) patient.in_place s2)
    (\<lambda>_ _. False) (\<lambda>_. False) (upload_file (e2e_env base nw files) j s)" by (simp add: cm_sat_def)
  then obtain s2 where "upload_file (e2e_env base nw files) j s =
      (Some (Inr (length (files (fe_path (uj_file j))) - card (vw_got (e2e_view base nw j d t claims (cl_world s))))), s2)"
    "live (\<lambda>ew. e2e_fine base nw files j p d t claims ew \<and> e2e_patient ew) (e2e_view base nw j d t claims) patient.in_place s2"
    by (auto elim!: cm_post.elims)
  then show ?thesis
    by (auto simp: live_def in_order_def patient.in_place_def stores_def e2e_view_def)
qed

end


text \<open>
  C2: a reported upload is stored.  Whatever requests, bodies and replies the connection loses and however
  the user pauses, resumes or cancels: when the client reports the upload as done, the server holds
  exactly the file's bytes under its path.
\<close>

theorem upload_success_means_stored:
  assumes "upload_setup R base nw files j p claims"
    and "e2e_fine base nw files j p d t claims (cl_world s)" and "engine_ok (cl_tune s)"
    and "upload_file (e2e_env base nw files) j s = (Some (Inr n), s2)"
  shows "stored_file d t (ew_server (cl_world s2)) = Some (files (fe_path (uj_file j)))"
proof -
  have u: "upload_deployment R base nw files j p claims" using assms(1) by (rule upload_deployment.intro)
  show ?thesis
    using upload_deployment.reported_is_stored [OF u] assms(2-4)
    by (simp add: upload_deployment.begins_def [OF u] upload_deployment.stores_def [OF u])
qed


subsection \<open>A concrete deployment\<close>

text \<open>Numbers travel as runs of dots.\<close>

definition write_runs :: "nat list \<Rightarrow> string" where
  "write_runs ks = concat (map write_run ks)"

lemma read_write_runs: "read_runs 0 (write_runs ks) = ks"
  by (induction ks) (simp_all add: write_runs_def read_write_run)

lemma write_runs_utf8: "utf8_valid (as_bytes (write_runs ks))"
  by (rule utf8_valid_ascii) (auto simp: as_bytes_def write_runs_def write_run_def set_replicate_conv_if split: if_splits)

definition meta_runs :: "file_meta \<Rightarrow> string" where
  "meta_runs m = write_runs (fm_size m # fm_mtime m # length (fm_path m) # map of_char (fm_path m) @ map of_char (fm_etag m))"

fun runs_meta :: "nat list \<Rightarrow> string + file_meta" where
  "runs_meta (s # mt # n # ks) =
     Inr \<lparr> fm_path = map char_of (take n ks), fm_size = s, fm_mtime = mt, fm_etag = map char_of (drop n ks) \<rparr>"
| "runs_meta _ = Inl ''short''"

lemma runs_meta_back: "runs_meta (read_runs 0 (meta_runs m)) = Inr m"
  by (simp add: meta_runs_def read_write_runs comp_def)

fun spans_text :: "json \<Rightarrow> nat list" where
  "spans_text (JArr [JNum a, JNum b]) = [nat a, nat b]"
| "spans_text _ = []"

fun json_text :: "json \<Rightarrow> string" where
  "json_text (JObj [(_, JArr js)]) = write_runs (concat (map spans_text js))"
| "json_text _ = []"

definition text_spans :: "bytes \<Rightarrow> string + (nat \<times> nat) list" where
  "text_spans b = Inr (map (\<lambda>r. (c_start r, c_end r)) (pair_ranges (read_runs 0 (bytes_to_str b))))"

lemma text_spans_back:
  "text_spans (as_bytes (json_text (JObj [(k, JArr (map (\<lambda>r. JArr [JNum (int (c_start r)), JNum (int (c_end r))]) rs))]))) =
     Inr (map (\<lambda>r. (c_start r, c_end (r :: chunk_range))) rs)"
proof -
  have "pair_ranges (concat (map spans_text (map (\<lambda>r. JArr [JNum (int (c_start r)), JNum (int (c_end r))]) rs))) = rs"
    by (induction rs) simp_all
  then show ?thesis by (simp add: text_spans_def bytes_to_str_as_bytes read_write_runs)
qed

definition demo_serving :: "bytes serving" where
  "demo_serving = \<lparr> sg_zrip = raw_zrip, sg_ext = runs_ext\<lparr> x_de_meta := (\<lambda>s. runs_meta (read_runs 0 s)) \<rparr>,
     sg_sizes = [], sg_rnds = (\<lambda>_. []), sg_now = 5, sg_caps_json = (\<lambda>_. JObj []) \<rparr>"

definition demo_network :: "bytes network" where
  "demo_network = \<lparr> nw_serving = demo_serving, nw_state = demo_state identity_codec, nw_path = drop 8,
     nw_json = (\<lambda>v. as_bytes (json_text v)), nw_frame = 2 \<rparr>"

definition demo_client :: "(bytes, string \<rightharpoonup> string, e2e_world) client_env" where
  "demo_client = \<lparr> ce_tune = demo_env, ce_zrip = raw_zrip, ce_sha = (\<lambda>_. replicate 32 0), ce_encode_uri = (\<lambda>s. s),
     ce_meta_json = meta_runs, ce_ranges_json = text_spans, ce_dir_json = (\<lambda>_. Inr []), ce_now = (\<lambda>_. Fin 0), ce_controls = net_controls,
     ce_fetch = net_fetch demo_network, ce_xhr = net_xhr demo_network, ce_call = (\<lambda>_ ew. (Inr (), ew)),
     ce_file_list = (\<lambda>ew. (Inr [], ew)), ce_read_file = (\<lambda>_ _ _ ew. (Inr [], ew)),
     ce_load_state = (\<lambda>_ _ ew. (Inr None, ew)), ce_bench = (\<lambda>_ _. None), ce_bench_clock = (\<lambda>_ _. Fin 0),
     ce_sleep = (\<lambda>_ ew. ew), ce_order = net_order \<rparr>"

definition demo_files :: "string \<Rightarrow> bytes" where
  "demo_files _ = [7, 8, 9]"

definition demo_job :: upload_job where
  "demo_job = \<lparr> uj_base_url = ''http://h'', uj_token = ''u'',
     uj_file = \<lparr> fe_path = ''a'', fe_size = 3, fe_mtime = 1 \<rparr>, uj_config = client_config_default,
     uj_compress = True, uj_level = 1 \<rparr>"

lemma demo_upload_setup: "upload_setup (=) demo_client demo_network demo_files demo_job ''a'' demo_claims"
proof -
  have e: "ext_ok (sg_ext demo_serving)" using runs_ext_ok by (simp add: ext_ok_def demo_serving_def)
  have u: "drop 8 (file_url (\<lambda>s. s) ''http://h'' ''a'') = ''/file/'' @ ''a''" by code_simp
  have b: "bearer_claims (sv_verifier (demo_state identity_codec)) [(''authorization'', as_bytes (''Bearer '' @ ''u''))] =
      Inr demo_claims"
    by (simp add: bearer_claims_def header_get_def header_text_printable printable_def ok_or_def res_bind_def
        strip_prefix_def eval_nat_numeral str_trim_visible visible_def map_err_def demo_state_def demo_claims_def)
  have m: "utf8_valid (as_bytes (meta_runs m))" for m by (simp add: meta_runs_def write_runs_utf8)
  have l: "is_valid_zrip_level 1" by code_simp
  have n: "sv_max_upload_size (demo_state pc) = 1000" for pc by (simp add: demo_state_def)
  have g: "sg_zrip demo_serving = raw_zrip" "x_de_meta (sg_ext demo_serving) (meta_runs m) = Inr m" for m
    by (simp_all add: demo_serving_def runs_meta_back)
  show ?thesis
    unfolding upload_setup_def Let_def demo_network_def demo_client_def demo_job_def demo_files_def
      client_env.simps network.simps upload_job.simps file_entry.simps
    by (intro conjI allI impI e u b m l g text_spans_back demo_resolve) (simp_all add: raw_zrip_ok n g u64_max_def)
qed

interpretation demo: upload_deployment "(=)" demo_client demo_network demo_files demo_job "''a''" "[''srv'']" "''a''" demo_claims
  by (unfold_locales) (rule demo_upload_setup)

text \<open>Three faults: a lost request, a body cut after one frame and a lost reply, and a user who pauses and resumes.\<close>

definition faulty_start :: "(string \<rightharpoonup> string, e2e_world) client" where
  "faulty_start = \<lparr> cl_control = control_new 2, cl_tune = engine_new False Lv_Balanced,
     cl_world = \<lparr> ew_server = demo_world, ew_faults = [Request_lost, Body_cut 1, Reply_lost],
       ew_turns = [[[Op_pause], [Op_resume]]], ew_orders = [] \<rparr> \<rparr>"

lemma faulty_start_fine:
  "e2e_fine demo_client demo_network demo_files demo_job ''a'' [''srv''] ''a'' demo_claims (cl_world faulty_start)"
proof -
  let ?n = "temp_of demo_client demo_network demo_job ''a'' demo_claims"
  have "session_holds (sg_ext demo_serving) (w_fs demo_world) [''srv''] ?n ([], [])"
    by (simp add: temp_of_def session_holds_def sess.inv_start demo_world_def demo_node free_name_def sess_name_def
        blocks_name_def blocks_tmp_name_def)
  moreover have "part_of [7, 8, 9] ([], [])" by (simp add: part_of_def sess.abs_start)
  ultimately show ?thesis
    using demo_target [of identity_codec]
    unfolding e2e_fine_def session_fine_def
    by (auto simp: demo_network_def faulty_start_def demo_files_def intro!: exI [of _ "([], [])"])
qed

lemma faulty_start_engine: "engine_ok (cl_tune faulty_start)"
  unfolding faulty_start_def by (simp add: tune_reach_ok [OF Reach_new])

lemma faulty_start_user: "e2e_patient (cl_world faulty_start)" "running (cl_control faulty_start)"
    "length (filter (\<lambda>f. f \<noteq> Delivered) (ew_faults (cl_world faulty_start))) \<le> cg_max_retries (uj_config demo_job)"
  by (simp_all add: e2e_patient_def patient_turns_def running_def faulty_start_def control_new_def demo_job_def
      client_config_default_def max_retries_const_def)

theorem upload_success_means_stored_witness:
  "\<exists>n s2. upload_file (e2e_env demo_client demo_network demo_files) demo_job faulty_start = (Some (Inr n), s2) \<and>
    stored_file [''srv''] ''a'' (ew_server (cl_world s2)) = Some [7, 8, 9]"
proof -
  have "demo.begins faulty_start"
    using faulty_start_fine faulty_start_engine by (simp add: demo.begins_def)
  moreover have "vw_budget (e2e_view demo_client demo_network demo_job [''srv''] ''a'' demo_claims (cl_world faulty_start)) \<le>
      cg_max_retries (uj_config demo_job)"
    using faulty_start_user(3) by (simp add: e2e_view_def)
  ultimately obtain n s2 where
    "upload_file (e2e_env demo_client demo_network demo_files) demo_job faulty_start = (Some (Inr n), s2)"
    using demo.patient_upload_succeeds faulty_start_user by blast
  then show ?thesis
    using upload_success_means_stored [OF demo_upload_setup faulty_start_fine faulty_start_engine]
    by (auto simp: demo_files_def demo_job_def)
qed


end
