(* ===== verification/Client_Download.thy ===== *)
theory Client_Download
  imports Client_Monad "HOL-Library.List_Lexorder"
begin

text \<open>
  The client's download scheduler (libfw-client, \<open>download.rs\<close>): a large file is fetched by byte ranges,
  batch by batch, and written in order; a small one, or the tail of a large one, by one request.  Both
  resume from a persisted offset.  The permit of a range request is held during that request only.
\<close>

subsection \<open>Decisions\<close>

datatype download_disposition = Disp_restart | Disp_already_done | Disp_transfer

definition classify_download :: "nat \<Rightarrow> nat \<Rightarrow> download_disposition" where
  "classify_download sz offset =
     (if sz < offset then Disp_restart else if offset = sz then Disp_already_done else Disp_transfer)"

definition min_parallel_download_bytes :: nat where
  "min_parallel_download_bytes = 512 * 1024"

definition should_chunked :: "nat \<Rightarrow> nat \<Rightarrow> bool" where
  "should_chunked sz resume_offset \<longleftrightarrow>
     min_parallel_download_bytes \<le> sz \<and> min_parallel_download_bytes \<le> sz - resume_offset"

fun is_restart_err :: "libfw_error \<Rightarrow> bool" where
  "is_restart_err (Err_Http status url) \<longleftrightarrow> status = 416 \<or> status = 200"
| "is_restart_err _ \<longleftrightarrow> False"

definition resume_save_every :: nat where
  "resume_save_every = 4 * 1024 * 1024"

fun batch_loop :: "nat \<Rightarrow> nat \<Rightarrow> nat \<Rightarrow> nat \<Rightarrow> (nat \<times> nat) list" where
  "batch_loop 0 offset sz chunk = []"
| "batch_loop (Suc n) offset sz chunk =
     (if sz \<le> offset then []
      else let fin = min (u64_add offset chunk) sz in (offset, fin) # batch_loop n fin sz chunk)"

definition chunk_batch :: "nat \<Rightarrow> nat \<Rightarrow> nat \<Rightarrow> nat \<Rightarrow> (nat \<times> nat) list" where
  "chunk_batch from_off sz chunk window =
     batch_loop window (min from_off sz) sz (if chunk = 0 then chunk_size_const else chunk)"

subsection \<open>Replies\<close>

text \<open>\<open>Headers.get\<close>: names are compared without case, and the values of a repeated header are joined.\<close>

definition reply_header :: "http_reply \<Rightarrow> string \<Rightarrow> string option" where
  "reply_header r name =
     (case filter (\<lambda>(n, v). to_ascii_lowercase n = name) (rp_headers r) of
        [] \<Rightarrow> None
      | h # hs \<Rightarrow> Some (snd h @ concat (map (\<lambda>(n, v). '', '' @ v) hs)))"

definition response_etag :: "http_reply \<Rightarrow> string option" where
  "response_etag r = reply_header r ''etag''"

definition content_length :: "http_reply \<Rightarrow> nat option" where
  "content_length r = Option.bind (reply_header r ''content-length'') u64_from_str"

definition second_word :: "string \<Rightarrow> string option" where
  "second_word v = (case split_ws v of a # b # ws \<Rightarrow> Some b | _ \<Rightarrow> None)"

definition content_range_start :: "http_reply \<Rightarrow> nat option" where
  "content_range_start r =
     Option.bind (reply_header r ''content-range'') (\<lambda>v.
     Option.bind (second_word v) (\<lambda>after. u64_from_str (hd (split_on CHR ''-'' after))))"

definition content_range_total :: "http_reply \<Rightarrow> nat option" where
  "content_range_total r =
     Option.bind (reply_header r ''content-range'') (\<lambda>v.
     Option.bind (second_word v) (\<lambda>after.
     case split_on CHR ''/'' after of a # b # ws \<Rightarrow> u64_from_str b | _ \<Rightarrow> None))"

definition reply_format :: "http_reply \<Rightarrow> compression_format" where
  "reply_format r =
     (case Option.bind (reply_header r ''x-libfw-compress'') parse_format_header of
        Some f \<Rightarrow> f | None \<Rightarrow> Fmt_None)"

subsection \<open>Listings\<close>

record download_job =
  dj_base_url :: string
  dj_token :: string
  dj_config :: client_config
  dj_level :: int

definition get_request ::
  "('e, 's, 'w) client_env \<Rightarrow> download_job \<Rightarrow> string \<Rightarrow> string \<Rightarrow> (string \<times> string) list \<Rightarrow> http_request" where
  "get_request env j method path headers =
     \<lparr> rq_method = method, rq_url = file_url (ce_encode_uri env) (dj_base_url j) path,
       rq_headers = headers, rq_body = [] \<rparr>"

definition fetch_dir :: "('e, 's, 'w) client_env \<Rightarrow> download_job \<Rightarrow> string \<Rightarrow> ('s, 'w, dir_entry list) cm" where
  "fetch_dir env j path =
     (let url = dir_url (ce_encode_uri env) (dj_base_url j) path in
      cm_bind (cm_world (ce_fetch env \<lparr> rq_method = ''GET'', rq_url = url,
                 rq_headers = auth_headers (dj_token j) False None, rq_body = [] \<rparr> (cg_timeout_ms (dj_config j))))
        (\<lambda>(reply, broken).
      if rp_status reply \<noteq> 200 then cm_fail (Err_Http (rp_status reply) url)
      else case broken of
        Some e \<Rightarrow> cm_fail e
      | None \<Rightarrow>
          (case ce_dir_json env (concat (rp_body reply)) of
             Inl m \<Rightarrow> cm_fail (Err_Protocol (''bad listing JSON: '' @ m))
           | Inr es \<Rightarrow> cm_ret es)))"

definition entry_of_listing :: "dir_entry \<Rightarrow> file_entry" where
  "entry_of_listing e = \<lparr> fe_path = de_path e, fe_size = de_size e, fe_mtime = de_mtime e \<rparr>"

text \<open>One round of the walk: the stack of directories, its top last, and the files found.\<close>

definition collect_step ::
  "('e, 's, 'w) client_env \<Rightarrow> download_job \<Rightarrow> string list \<times> file_entry list \<Rightarrow>
   ('s, 'w, (string list \<times> file_entry list) + file_entry list) cm" where
  "collect_step env j = (\<lambda>(stack, out).
     if stack = [] then cm_ret (Inr out)
     else cm_bind (fetch_dir env j (last stack)) (\<lambda>es.
          cm_ret (Inl (butlast stack @ map de_path (filter de_is_dir es),
                       out @ map entry_of_listing (filter (\<lambda>e. \<not> de_is_dir e) es)))))"

definition collect_files :: "('e, 's, 'w) client_env \<Rightarrow> download_job \<Rightarrow> string \<Rightarrow> ('s, 'w, file_entry list) cm" where
  "collect_files env j path =
     cm_bind (cm_while (collect_step env j) ([path], [])) (\<lambda>out. cm_ret (sort_key fe_path out))"

definition fetch_meta :: "('e, 's, 'w) client_env \<Rightarrow> download_job \<Rightarrow> string \<Rightarrow> ('s, 'w, string \<times> nat) cm" where
  "fetch_meta env j path =
     (let req = get_request env j ''HEAD'' path (auth_headers (dj_token j) False None) in
      cm_bind (cm_world (ce_fetch env req (cg_timeout_ms (dj_config j)))) (\<lambda>(reply, _).
      if rp_status reply \<noteq> 200 then cm_fail (Err_Http (rp_status reply) (rq_url req))
      else cm_ret (case response_etag reply of Some e \<Rightarrow> e | None \<Rightarrow> [],
                   case content_length reply of Some n \<Rightarrow> n | None \<Rightarrow> 0)))"

subsection \<open>One range\<close>

text \<open>
  \<open>collect_chunk\<close>: the body of a range into memory, reported as it arrives.  The first component
  is \<open>counted\<close>, the bytes this attempt has reported, whether it succeeds or not.
\<close>

fun collect_loop ::
  "('e, 's, 'w) client_env \<Rightarrow> bytes list \<Rightarrow> libfw_error option \<Rightarrow> decompressor \<Rightarrow> bytes \<Rightarrow> nat \<Rightarrow>
   ('s, 'w, nat \<times> (libfw_error + bytes \<times> decompressor)) cm" where
  "collect_loop env [] broken d collected counted =
     cm_ret (counted, case broken of Some e \<Rightarrow> Inl e | None \<Rightarrow> Inr (collected, d))"
| "collect_loop env (chunk # chunks) broken d collected counted =
     (if chunk = [] then collect_loop env chunks broken d collected counted
      else case decompress (ce_zrip env) d chunk of
        Inl e \<Rightarrow> cm_ret (counted, Inl (Err_Decompress (decompress_error_display e)))
      | Inr (out, d2) \<Rightarrow>
          if out = [] then collect_loop env chunks broken d2 collected counted
          else cm_bind (cm_control (add_progress (length out))) (\<lambda>_.
               cm_bind (cm_attempt (cm_report env)) (\<lambda>r.
               case r of
                 Inl e \<Rightarrow> cm_ret (sat_add counted (length out), Inl e)
               | Inr _ \<Rightarrow> collect_loop env chunks broken d2 (collected @ out) (sat_add counted (length out)))))"

definition collect_chunk ::
  "('e, 's, 'w) client_env \<Rightarrow> http_reply \<Rightarrow> libfw_error option \<Rightarrow> ('s, 'w, nat \<times> (libfw_error + bytes)) cm" where
  "collect_chunk env reply broken =
     cm_bind (collect_loop env (rp_body reply) broken (decompressor_new (reply_format reply)) [] 0) (\<lambda>(counted, r).
     cm_ret (counted,
       res_bind r (\<lambda>(collected, d).
       res_bind (map_err (\<lambda>e. Err_Decompress (decompress_error_display e)) (decompress_finish (ce_zrip env) d))
         (\<lambda>(tail, _). Inr (collected @ tail)))))"

definition range_headers :: "download_job \<Rightarrow> string \<Rightarrow> string \<Rightarrow> (string \<times> string) list" where
  "range_headers j range_value etag =
     auth_headers (dj_token j) (cg_compress (dj_config j)) (Some (dj_level j)) @
     [(''Range'', range_value)] @ (if etag \<noteq> [] then [(''If-Range'', etag)] else [])"

definition chunk_request ::
  "('e, 's, 'w) client_env \<Rightarrow> download_job \<Rightarrow> string \<Rightarrow> string \<Rightarrow> nat \<Rightarrow> nat \<Rightarrow> http_request" where
  "chunk_request env j path etag start fin =
     get_request env j ''GET'' path
       (range_headers j (''bytes='' @ show_nat start @ ''-'' @ show_nat (fin - 1)) etag)"

definition download_chunk_once ::
  "('e, 's, 'w) client_env \<Rightarrow> download_job \<Rightarrow> string \<Rightarrow> string \<Rightarrow> nat \<Rightarrow> nat \<Rightarrow>
   ('s, 'w, nat \<times> (libfw_error + bytes \<times> f64)) cm" where
  "download_chunk_once env j path etag start fin =
     (let req = chunk_request env j path etag start fin in
      cm_bind (cm_get (\<lambda>s. ce_now env (cl_world s))) (\<lambda>t0.
      cm_bind (cm_attempt (cm_world (ce_fetch env req (cg_timeout_ms (dj_config j))))) (\<lambda>r.
      case r of
        Inl e \<Rightarrow> cm_ret (0, Inl e)
      | Inr (reply, broken) \<Rightarrow>
          cm_bind (cm_get (\<lambda>s. ce_now env (cl_world s))) (\<lambda>t1.
          if rp_status reply = 206
          then cm_bind (collect_chunk env reply broken) (\<lambda>(counted, r2).
               cm_ret (counted, res_bind r2 (\<lambda>data. Inr (data, f_sub t1 t0))))
          else cm_ret (0, Inl (Err_Http (rp_status reply) (rq_url req)))))))"

definition chunk_name :: "string \<Rightarrow> nat \<Rightarrow> nat \<Rightarrow> string" where
  "chunk_name path start fin = ''chunk '' @ show_nat start @ ''..'' @ show_nat fin @ '' of `'' @ path @ ''`''"

definition wrong_length :: "string \<Rightarrow> nat \<Rightarrow> nat \<Rightarrow> nat \<Rightarrow> libfw_error" where
  "wrong_length path start fin n =
     Err_Protocol (chunk_name path start fin @ '' yielded '' @ show_nat n @ '' bytes, expected '' @
       show_nat (u64_sub fin start))"

definition retry_note :: "string \<Rightarrow> nat \<Rightarrow> libfw_error \<Rightarrow> string" where
  "retry_note what attempts e =
     ''retrying '' @ what @ '' (attempt '' @ show_nat attempts @ ''): '' @ libfw_error_display e"

function download_chunk_with_retry ::
  "('e, 's, 'w) client_env \<Rightarrow> download_job \<Rightarrow> string \<Rightarrow> string \<Rightarrow> nat \<Rightarrow> nat \<Rightarrow> nat \<Rightarrow>
   ('s, 'w, bytes \<times> f64) cm" where
  "download_chunk_with_retry env j path etag start fin attempts =
     cm_bind (cm_ready env) (\<lambda>_.
     cm_bind (download_chunk_once env j path etag start fin) (\<lambda>(counted, r).
     case r of
       Inr (data, rtt) \<Rightarrow>
         if length data \<noteq> u64_sub fin start then cm_fail (wrong_length path start fin (length data))
         else cm_bind (cm_when (counted < length data)
                (cm_bind (cm_control (add_progress (length data - counted))) (\<lambda>_. cm_report env))) (\<lambda>_.
              cm_ret (data, rtt))
     | Inl e \<Rightarrow>
         if is_restart_err e then cm_fail e
         else cm_bind (cm_when (0 < counted) (cm_control (subtract_progress counted))) (\<lambda>_.
              if cg_max_retries (dj_config j) \<le> attempts then cm_fail e
              else cm_bind (cm_call_ignored env (Call_log (retry_note (chunk_name path start fin) (attempts + 1) e))) (\<lambda>_.
                   cm_bind (cm_sleep env (config_backoff_ms (dj_config j) (attempts + 1))) (\<lambda>_.
                   download_chunk_with_retry env j path etag start fin (attempts + 1))))))"
  by pat_completeness auto
termination
  by (relation "measure (\<lambda>(env, j, path, etag, start, fin, attempts). cg_max_retries (dj_config j) - attempts)") auto

declare download_chunk_with_retry.simps [simp del]

subsection \<open>Resume state\<close>

definition download_state :: "string \<Rightarrow> nat \<Rightarrow> (string \<times> js_value) list" where
  "download_state etag offset =
     [(''etag'', JS_str etag), (''offset'', JS_num (f_of_nat offset)), (''size'', JS_num (f_of_nat offset))]"

definition save_download :: "('e, 's, 'w) client_env \<Rightarrow> string \<Rightarrow> string \<Rightarrow> nat \<Rightarrow> callback" where
  "save_download env path etag offset = Call_save_state ''download'' path (download_state etag offset)"

definition finish_download ::
  "('e, 's, 'w) client_env \<Rightarrow> file_entry \<Rightarrow> string \<Rightarrow> nat \<Rightarrow> ('s, 'w, nat) cm" where
  "finish_download env file etag sz =
     cm_bind (cm_call env (save_download env (fe_path file) etag sz)) (\<lambda>_.
     cm_bind (cm_call env (Call_file_completed (fe_path file))) (\<lambda>_. cm_ret sz))"

text \<open>A saved offset counts only with an ETag.\<close>

definition load_resume :: "('e, 's, 'w) client_env \<Rightarrow> string \<Rightarrow> ('s, 'w, string \<times> nat) cm" where
  "load_resume env path =
     cm_bind (cm_world (ce_load_state env ''download'' path)) (\<lambda>saved.
     case saved of
       None \<Rightarrow> cm_ret ([], 0)
     | Some v \<Rightarrow>
         (let etag = (case Option.bind (js_get v ''etag'') js_as_string of Some e \<Rightarrow> e | None \<Rightarrow> []) in
          cm_bind (cm_lift (safe_u64 (js_field v ''offset'') ''offset'')) (\<lambda>offset.
          cm_ret (if etag \<noteq> [] \<and> 0 < offset then (etag, offset) else ([], 0)))))"

text \<open>
  The periodic save of the offset reached: the last offset saved after it; errors of the callback are
  ignored.
\<close>

definition save_progress ::
  "('e, 's, 'w) client_env \<Rightarrow> string \<Rightarrow> string \<Rightarrow> nat \<Rightarrow> nat \<Rightarrow> ('s, 'w, nat) cm" where
  "save_progress env path etag offset last_saved =
     (if sat_add last_saved resume_save_every \<le> offset
      then cm_bind (cm_call_ignored env (save_download env path etag offset)) (\<lambda>_. cm_ret offset)
      else cm_ret last_saved)"

subsection \<open>Ranges in parallel\<close>

text \<open>\<open>BTreeMap::insert\<close>, the map as its sorted list.\<close>

fun btree_insert :: "nat \<Rightarrow> 'a \<Rightarrow> (nat \<times> 'a) list \<Rightarrow> (nat \<times> 'a) list" where
  "btree_insert k v [] = [(k, v)]"
| "btree_insert k v ((k2, v2) # m) =
     (if k < k2 then (k, v) # (k2, v2) # m
      else if k = k2 then (k, v) # m
      else (k2, v2) # btree_insert k v m)"

text \<open>The results of a batch by their start, or the first error.\<close>

fun order_results ::
  "(libfw_error + nat \<times> bytes \<times> f64) list \<Rightarrow> (nat \<times> bytes \<times> f64) list \<Rightarrow> libfw_error + (nat \<times> bytes \<times> f64) list" where
  "order_results [] m = Inr m"
| "order_results (Inl e # rs) m = Inl e"
| "order_results (Inr (s, data, rtt) # rs) m = order_results rs (btree_insert s (data, rtt) m)"

definition lost_offset :: "string \<Rightarrow> nat \<Rightarrow> nat \<Rightarrow> libfw_error" where
  "lost_offset path contiguous chunk_start =
     Err_Protocol (''download of `'' @ path @ ''` lost its contiguous offset ('' @ show_nat contiguous @ '' != '' @
       show_nat chunk_start @ '')'')"

fun emit_chunks ::
  "('e, 's, 'w) client_env \<Rightarrow> string \<Rightarrow> string \<Rightarrow> (nat \<times> bytes \<times> f64) list \<Rightarrow> nat \<Rightarrow> nat \<Rightarrow>
   ('s, 'w, nat \<times> nat) cm" where
  "emit_chunks env path etag [] contiguous last_saved = cm_ret (contiguous, last_saved)"
| "emit_chunks env path etag ((chunk_start, data, rtt) # m) contiguous last_saved =
     (if chunk_start \<noteq> contiguous then cm_fail (lost_offset path contiguous chunk_start)
      else cm_bind (cm_call env (Call_write_chunk path contiguous data)) (\<lambda>_.
           let contiguous2 = sat_add contiguous (length data) in
           cm_bind (save_progress env path etag contiguous2 last_saved) (\<lambda>last_saved2.
           cm_bind (cm_tick env (Some rtt) False) (\<lambda>_.
           emit_chunks env path etag m contiguous2 last_saved2))))"

definition fetch_batch ::
  "('e, 's, 'w) client_env \<Rightarrow> download_job \<Rightarrow> string \<Rightarrow> string \<Rightarrow> (nat \<times> nat) list \<Rightarrow>
   ('s, 'w, (libfw_error + nat \<times> bytes \<times> f64) list) cm" where
  "fetch_batch env j path etag batch =
     cm_unordered env batch (\<lambda>(s, e).
       cm_bind (download_chunk_with_retry env j path etag s e 0) (\<lambda>(data, rtt). cm_ret (s, data, rtt)))"

definition parallel_step ::
  "('e, 's, 'w) client_env \<Rightarrow> download_job \<Rightarrow> string \<Rightarrow> string \<Rightarrow> nat \<Rightarrow> nat \<times> nat \<Rightarrow>
   ('s, 'w, nat \<times> nat + nat) cm" where
  "parallel_step env j path etag sz = (\<lambda>(contiguous, last_saved).
     if sz \<le> contiguous then cm_ret (Inr contiguous)
     else cm_bind (cm_ready env) (\<lambda>_.
          cm_bind (cm_get (\<lambda>s. max (pm_download_window (te_params (cl_tune s))) 1)) (\<lambda>window.
          cm_bind (cm_get (\<lambda>s. max (pm_chunk_size (te_params (cl_tune s))) 1)) (\<lambda>chunk.
          cm_bind (fetch_batch env j path etag (chunk_batch contiguous sz chunk window)) (\<lambda>results.
          case order_results results [] of
            Inl e \<Rightarrow> cm_bind (cm_tick env None True) (\<lambda>_. cm_fail e)
          | Inr ordered \<Rightarrow>
              cm_bind (emit_chunks env path etag ordered contiguous last_saved) (\<lambda>st. cm_ret (Inl st)))))))"

definition no_remote_size :: "string \<Rightarrow> libfw_error" where
  "no_remote_size path =
     Err_Protocol (''remote size of `'' @ path @ ''` is 0; cannot plan parallel chunks'')"

definition stopped_short :: "string \<Rightarrow> nat \<Rightarrow> nat \<Rightarrow> libfw_error" where
  "stopped_short path contiguous sz =
     Err_Protocol (''download of `'' @ path @ ''` stopped at '' @ show_nat contiguous @ '' bytes, expected '' @ show_nat sz)"

definition seed_progress :: "('e, 's, 'w) client_env \<Rightarrow> nat \<Rightarrow> ('s, 'w, unit) cm" where
  "seed_progress env start =
     cm_when (0 < start) (cm_bind (cm_control (add_progress start)) (\<lambda>_. cm_report env))"

text \<open>The result is the ETag the server names, and the size.\<close>

definition download_file_parallel ::
  "('e, 's, 'w) client_env \<Rightarrow> download_job \<Rightarrow> file_entry \<Rightarrow> string \<Rightarrow> nat \<Rightarrow> ('s, 'w, string \<times> nat) cm" where
  "download_file_parallel env j file resume_etag resume_offset =
     cm_bind (fetch_meta env j (fe_path file)) (\<lambda>(meta_etag, sz).
     if sz = 0 then cm_fail (no_remote_size (fe_path file))
     else
       let start = (if resume_etag \<noteq> [] \<and> resume_etag \<noteq> meta_etag then 0 else min resume_offset sz) in
       cm_bind (cm_control (\<lambda>c. if tk_total c = 0 then set_total sz c else c)) (\<lambda>_.
       cm_bind (seed_progress env start) (\<lambda>_.
       cm_bind (cm_while (parallel_step env j (fe_path file) meta_etag sz) (start, 0)) (\<lambda>contiguous.
       if contiguous \<noteq> sz then cm_fail (stopped_short (fe_path file) contiguous sz)
       else cm_ret (meta_etag, contiguous)))))"

subsection \<open>One request\<close>

text \<open>Decompressed bytes are written and counted; the offset after them.\<close>

definition write_data ::
  "('e, 's, 'w) client_env \<Rightarrow> string \<Rightarrow> nat \<Rightarrow> bytes \<Rightarrow> ('s, 'w, nat) cm" where
  "write_data env path offset data =
     cm_bind (cm_call env (Call_write_chunk path offset data)) (\<lambda>_.
     cm_bind (cm_control (add_progress (length data))) (\<lambda>_.
     cm_bind (cm_report env) (\<lambda>_. cm_ret (sat_add offset (length data)))))"

fun stream_loop ::
  "('e, 's, 'w) client_env \<Rightarrow> string \<Rightarrow> string \<Rightarrow> bytes list \<Rightarrow> libfw_error option \<Rightarrow> decompressor \<Rightarrow> nat \<Rightarrow> nat \<Rightarrow>
   ('s, 'w, decompressor \<times> nat) cm" where
  "stream_loop env path etag [] broken d offset last_saved =
     (case broken of Some e \<Rightarrow> cm_fail e | None \<Rightarrow> cm_ret (d, offset))"
| "stream_loop env path etag (chunk # chunks) broken d offset last_saved =
     (if chunk = [] then stream_loop env path etag chunks broken d offset last_saved
      else cm_bind (cm_ready env) (\<lambda>_.
        case decompress (ce_zrip env) d chunk of
          Inl e \<Rightarrow> cm_fail (Err_Decompress (decompress_error_display e))
        | Inr (data, d2) \<Rightarrow>
            if data = [] then stream_loop env path etag chunks broken d2 offset last_saved
            else cm_bind (write_data env path offset data) (\<lambda>offset2.
                 cm_bind (cm_tick env None False) (\<lambda>_.
                 cm_bind (save_progress env path etag offset2 last_saved) (\<lambda>last_saved2.
                 stream_loop env path etag chunks broken d2 offset2 last_saved2)))))"

definition stream_download ::
  "('e, 's, 'w) client_env \<Rightarrow> file_entry \<Rightarrow> http_reply \<Rightarrow> libfw_error option \<Rightarrow> nat \<Rightarrow> string \<Rightarrow> ('s, 'w, nat) cm" where
  "stream_download env file reply broken start etag =
     cm_bind (cm_control (\<lambda>c.
       if tk_total c = 0
       then (case (case content_range_total reply of Some n \<Rightarrow> Some n | None \<Rightarrow> content_length reply) of
               Some n \<Rightarrow> set_total (max n (fe_size file)) c | None \<Rightarrow> c)
       else c)) (\<lambda>_.
     cm_bind (seed_progress env start) (\<lambda>_.
     cm_bind (stream_loop env (fe_path file) etag (rp_body reply) broken (decompressor_new (reply_format reply)) start 0)
       (\<lambda>(d, offset).
     case decompress_finish (ce_zrip env) d of
       Inl e \<Rightarrow> cm_fail (Err_Decompress (decompress_error_display e))
     | Inr (tail, _) \<Rightarrow>
         cm_bind (if tail = [] then cm_ret offset else write_data env (fe_path file) offset tail) (\<lambda>offset2.
         cm_ret (max (fe_size file) offset2)))))"

subsection \<open>A file\<close>

text \<open>The state of the loop: offset, ETag and attempts.  A failure is retried with a pause while retries are left.\<close>

definition download_retry ::
  "('e, 's, 'w) client_env \<Rightarrow> download_job \<Rightarrow> file_entry \<Rightarrow> nat \<Rightarrow> string \<Rightarrow> nat \<Rightarrow> libfw_error \<Rightarrow>
   ('s, 'w, nat \<times> string \<times> nat + nat) cm" where
  "download_retry env j file offset etag attempts e =
     (if cg_max_retries (dj_config j) \<le> attempts then cm_fail e
      else cm_bind (cm_call_ignored env (Call_log (retry_note (''`'' @ fe_path file @ ''`'') (attempts + 1) e))) (\<lambda>_.
           cm_bind (cm_tick env None True) (\<lambda>_.
           cm_bind (cm_sleep env (config_backoff_ms (dj_config j) (attempts + 1))) (\<lambda>_.
           cm_ret (Inl (offset, etag, attempts + 1))))))"

definition tail_request ::
  "('e, 's, 'w) client_env \<Rightarrow> download_job \<Rightarrow> string \<Rightarrow> string \<Rightarrow> nat \<Rightarrow> http_request" where
  "tail_request env j path etag offset =
     get_request env j ''GET'' path
       (range_headers j (''bytes='' @ show_nat offset @ ''-'') (if 0 < offset then etag else []))"

text \<open>A body that is taken to its end.\<close>

definition take_body ::
  "('e, 's, 'w) client_env \<Rightarrow> file_entry \<Rightarrow> http_reply \<Rightarrow> libfw_error option \<Rightarrow> nat \<Rightarrow> string \<Rightarrow> f64 \<Rightarrow>
   ('s, 'w, nat \<times> string \<times> nat + nat) cm" where
  "take_body env file reply broken start etag rtt =
     cm_bind (stream_download env file reply broken start etag) (\<lambda>sz.
     cm_bind (cm_tick env (Some rtt) False) (\<lambda>_.
     cm_bind (finish_download env file etag sz) (\<lambda>n. cm_ret (Inr n))))"

definition sequential_step ::
  "('e, 's, 'w) client_env \<Rightarrow> download_job \<Rightarrow> file_entry \<Rightarrow> nat \<Rightarrow> string \<Rightarrow> nat \<Rightarrow>
   ('s, 'w, nat \<times> string \<times> nat + nat) cm" where
  "sequential_step env j file offset etag attempts =
     (let req = tail_request env j (fe_path file) etag offset in
      cm_bind (cm_get (\<lambda>s. ce_now env (cl_world s))) (\<lambda>t0.
      cm_bind (cm_attempt (cm_world (ce_fetch env req (cg_timeout_ms (dj_config j))))) (\<lambda>r.
      case r of
        Inl e \<Rightarrow> download_retry env j file offset etag attempts e
      | Inr (reply, broken) \<Rightarrow>
          cm_bind (cm_get (\<lambda>s. ce_now env (cl_world s))) (\<lambda>t1.
          if rp_status reply = 200
          then take_body env file reply broken 0 (case response_etag reply of Some e \<Rightarrow> e | None \<Rightarrow> etag) (f_sub t1 t0)
          else if rp_status reply = 206
          then take_body env file reply broken
                 (case content_range_start reply of Some n \<Rightarrow> n | None \<Rightarrow> offset)
                 (if etag = [] then (case response_etag reply of Some e \<Rightarrow> e | None \<Rightarrow> []) else etag) (f_sub t1 t0)
          else if rp_status reply = 416 then cm_ret (Inl (0, etag, 0))
          else cm_fail (Err_Http (rp_status reply) (rq_url req))))))"

definition parallel_attempt ::
  "('e, 's, 'w) client_env \<Rightarrow> download_job \<Rightarrow> file_entry \<Rightarrow> nat \<Rightarrow> string \<Rightarrow> nat \<Rightarrow>
   ('s, 'w, nat \<times> string \<times> nat + nat) cm" where
  "parallel_attempt env j file offset etag attempts =
     cm_bind (cm_attempt (download_file_parallel env j file etag offset)) (\<lambda>r.
     case r of
       Inr (meta_etag, sz) \<Rightarrow> cm_bind (finish_download env file meta_etag sz) (\<lambda>n. cm_ret (Inr n))
     | Inl e \<Rightarrow>
         if is_restart_err e then cm_ret (Inl (0, etag, 0))
         else download_retry env j file offset etag attempts e)"

definition download_step ::
  "('e, 's, 'w) client_env \<Rightarrow> download_job \<Rightarrow> file_entry \<Rightarrow> nat \<times> string \<times> nat \<Rightarrow>
   ('s, 'w, nat \<times> string \<times> nat + nat) cm" where
  "download_step env j file = (\<lambda>(offset, etag, attempts).
     cm_bind (cm_ready env) (\<lambda>_.
     if should_chunked (fe_size file) offset then parallel_attempt env j file offset etag attempts
     else sequential_step env j file offset etag attempts))"

definition download_file :: "('e, 's, 'w) client_env \<Rightarrow> download_job \<Rightarrow> file_entry \<Rightarrow> ('s, 'w, nat) cm" where
  "download_file env j file =
     cm_bind (cm_call env (Call_file_start (fe_path file) (fe_size file))) (\<lambda>_.
     cm_bind (load_resume env (fe_path file)) (\<lambda>(etag, offset).
     case classify_download (fe_size file) offset of
       Disp_already_done \<Rightarrow>
         cm_bind (seed_progress env offset) (\<lambda>_. finish_download env file etag (fe_size file))
     | Disp_restart \<Rightarrow> cm_while (download_step env j file) (0, [], 0)
     | Disp_transfer \<Rightarrow> cm_while (download_step env j file) (offset, etag, 0)))"

subsection \<open>Folders and single files\<close>

fun download_files :: "('e, 's, 'w) client_env \<Rightarrow> download_job \<Rightarrow> file_entry list \<Rightarrow> ('s, 'w, unit) cm" where
  "download_files env j [] = cm_ret ()"
| "download_files env j (f # fs) =
     cm_bind (cm_attempt (download_file env j f)) (\<lambda>r.
     case r of
       Inl e \<Rightarrow> cm_bind (cm_tick env None True) (\<lambda>_. cm_fail e)
     | Inr _ \<Rightarrow>
         cm_bind (cm_get (\<lambda>s. (tk_done (cl_control s), tk_total (cl_control s)))) (\<lambda>(n, tot).
         cm_bind (cm_call env (Call_progress n tot)) (\<lambda>_. download_files env j fs)))"

definition download_folder :: "('e, 's, 'w) client_env \<Rightarrow> download_job \<Rightarrow> string \<Rightarrow> ('s, 'w, nat) cm" where
  "download_folder env j path =
     cm_bind (collect_files env j path) (\<lambda>files.
     let tot = entries_total files in
     cm_bind (cm_control (set_total tot)) (\<lambda>_.
     cm_bind (cm_call env (Call_progress 0 tot)) (\<lambda>_.
     cm_bind (cm_world (\<lambda>w. let (perm, w2) = ce_order env (length files) w in (Inr perm, w2))) (\<lambda>perm.
     cm_bind (download_files env j (arrange perm files)) (\<lambda>_.
     cm_get (\<lambda>s. tk_done (cl_control s)))))))"

definition download_single :: "('e, 's, 'w) client_env \<Rightarrow> download_job \<Rightarrow> string \<Rightarrow> ('s, 'w, nat) cm" where
  "download_single env j path =
     cm_bind (fetch_meta env j path) (\<lambda>(_, sz).
     cm_bind (cm_control (set_total sz)) (\<lambda>_.
     download_file env j \<lparr> fe_path = path, fe_size = sz, fe_mtime = 0 \<rparr>))"

end
