(* ===== verification/Native_Client.thy ===== *)
theory Native_Client
  imports Client_Download Client_Upload Storage
begin

text \<open>
  The native client (libfw-client, \<open>native/mod.rs\<close>): the transport of a Rust program over an HTTP library
  and the local file system.  Its runs are those of \<open>Client_Monad\<close>; it has no task control, so that
  component is never used.  Paths of the local file system are lists of names.
\<close>

subsection \<open>The world\<close>

datatype native_event =
    Ev_file_start string nat
  | Ev_progress nat nat
  | Ev_file_done string nat
  | Ev_tuning tune_event
  | Ev_log string

text \<open>The network and the clock, the local file system, and the events the sink has been given.\<close>

record 'n native_world =
  nw_net :: 'n
  nw_fs :: fsys
  nw_events :: "native_event list"

record native_config =
  nc_base_url :: string
  nc_token :: string
  nc_client :: client_config
  nc_on_event :: bool

record remote_file =
  rf_path :: string
  rf_is_dir :: bool
  rf_size :: nat
  rf_mtime :: nat

record remote_stat =
  rt_size :: nat
  rt_etag :: string

record resume_state =
  rs_etag :: string
  rs_offset :: nat

text \<open>
  What the client uses of other crates and of the machine.  \<open>ne_send\<close> sends a request: an error, or the
  reply with its body and the error that broke the body off; \<open>ne_header_ok\<close> says which strings are header
  values, \<open>ne_header_text\<close> reads one back.  \<open>ne_fault\<close> is what goes wrong with the next operation on a
  file: the operation fails, a write after some bytes.  \<open>ne_order n\<close> is the order in which \<open>n\<close> concurrent
  tasks complete.
\<close>

record ('e, 's, 'n) native_env =
  ne_config :: native_config
  ne_tune :: "'s tune_env"
  ne_zrip :: "'e zrip"
  ne_sha :: "bytes \<Rightarrow> bytes"
  ne_meta_json :: "file_meta \<Rightarrow> string"
  ne_caps_json :: "bytes \<Rightarrow> string + capabilities"
  ne_ranges_json :: "bytes \<Rightarrow> string + (nat \<times> nat) list"
  ne_dir_json :: "bytes \<Rightarrow> string + remote_file list"
  ne_resume_text :: "resume_state \<Rightarrow> bytes"
  ne_resume_parse :: "bytes \<Rightarrow> resume_state option"
  ne_header_ok :: "string \<Rightarrow> bool"
  ne_header_text :: "string \<Rightarrow> string option"
  ne_display :: "path \<Rightarrow> string"
  ne_dir_len :: nat
  ne_now :: "'n \<Rightarrow> f64"
  ne_send :: "http_request \<Rightarrow> 'n \<Rightarrow> (string + http_reply \<times> string option) \<times> 'n"
  ne_fault :: "'n \<Rightarrow> (nat \<times> io_error) option \<times> 'n"
  ne_sleep :: "nat \<Rightarrow> 'n \<Rightarrow> 'n"
  ne_order :: "nat \<Rightarrow> 'n \<Rightarrow> nat list \<times> 'n"
  ne_bench :: "bytes \<Rightarrow> int \<Rightarrow> bytes option"
  ne_bench_clock :: "'n \<Rightarrow> nat \<Rightarrow> f64"

abbreviation ne_client :: "('e, 's, 'n) native_env \<Rightarrow> client_config" where
  "ne_client env \<equiv> nc_client (ne_config env)"

abbreviation ne_base :: "('e, 's, 'n) native_env \<Rightarrow> string" where
  "ne_base env \<equiv> trim_end_char CHR ''/'' (nc_base_url (ne_config env))"

type_synonym ('s, 'n, 'a) nm = "('s, 'n native_world, 'a) cm"

subsection \<open>Steps on the world\<close>

definition nv_emit :: "('e, 's, 'n) native_env \<Rightarrow> native_event \<Rightarrow> ('s, 'n, unit) nm" where
  "nv_emit env ev =
     cm_world (\<lambda>w. (Inr (), if nc_on_event (ne_config env) then w\<lparr> nw_events := nw_events w @ [ev] \<rparr> else w))"

definition nv_log :: "('e, 's, 'n) native_env \<Rightarrow> string \<Rightarrow> ('s, 'n, unit) nm" where
  "nv_log env msg = nv_emit env (Ev_log msg)"

definition nv_now :: "('e, 's, 'n) native_env \<Rightarrow> ('s, 'n, f64) nm" where
  "nv_now env = cm_get (\<lambda>s. ne_now env (nw_net (cl_world s)))"

definition nv_send :: "('e, 's, 'n) native_env \<Rightarrow> http_request \<Rightarrow> ('s, 'n, http_reply \<times> string option) nm" where
  "nv_send env req =
     cm_world (\<lambda>w. let (r, n) = ne_send env req (nw_net w) in (map_err Err_Network r, w\<lparr> nw_net := n \<rparr>))"

definition nv_sleep :: "('e, 's, 'n) native_env \<Rightarrow> nat \<Rightarrow> ('s, 'n, unit) nm" where
  "nv_sleep env ms = cm_world (\<lambda>w. (Inr (), w\<lparr> nw_net := ne_sleep env ms (nw_net w) \<rparr>))"

definition nv_order :: "('e, 's, 'n) native_env \<Rightarrow> 'a list \<Rightarrow> ('s, 'n, 'a list) nm" where
  "nv_order env xs =
     cm_world (\<lambda>w. let (perm, n) = ne_order env (length xs) (nw_net w) in (Inr (arrange perm xs), w\<lparr> nw_net := n \<rparr>))"

text \<open>The whole body, or the error that broke it off.\<close>

definition nv_body :: "http_reply \<times> string option \<Rightarrow> libfw_error + bytes" where
  "nv_body = (\<lambda>(reply, broken). case broken of Some m \<Rightarrow> Inl (Err_Network m) | None \<Rightarrow> Inr (concat (rp_body reply)))"

text \<open>An operation on the file system, and one whose error is reported as a storage error.\<close>

definition nv_file :: "('e, 's, 'n) native_env \<Rightarrow> (fsys \<Rightarrow> (io_error + 'a) \<times> fsys) \<Rightarrow> ('s, 'n, io_error + 'a) nm" where
  "nv_file env f =
     cm_world (\<lambda>w. let (fault, n) = ne_fault env (nw_net w);
                       (r, fs) = (case fault of Some (_, e) \<Rightarrow> (Inl e, nw_fs w) | None \<Rightarrow> f (nw_fs w))
                   in (Inr r, w\<lparr> nw_net := n, nw_fs := fs \<rparr>))"

definition storage_failure :: "string \<Rightarrow> io_error \<Rightarrow> libfw_error" where
  "storage_failure what e = Err_Storage (what @ '': '' @ io_msg e)"

definition nv_storage ::
  "('e, 's, 'n) native_env \<Rightarrow> string \<Rightarrow> (fsys \<Rightarrow> (io_error + 'a) \<times> fsys) \<Rightarrow> ('s, 'n, 'a) nm" where
  "nv_storage env what f = cm_bind (nv_file env f) (\<lambda>r. cm_lift (map_err (storage_failure what) r))"

text \<open>\<open>write_all\<close> at an offset: a write that fails may have written a part.\<close>

definition nv_write_at :: "('e, 's, 'n) native_env \<Rightarrow> nat \<Rightarrow> nat \<Rightarrow> bytes \<Rightarrow> ('s, 'n, io_error + unit) nm" where
  "nv_write_at env i off data =
     cm_world (\<lambda>w. let (fault, n) = ne_fault env (nw_net w) in
       case fault of
         Some (k, e) \<Rightarrow> (Inr (Inl e), w\<lparr> nw_net := n, nw_fs := fs_write (nw_fs w) i off (take k data) \<rparr>)
       | None \<Rightarrow> (Inr (Inr ()), w\<lparr> nw_net := n, nw_fs := fs_write (nw_fs w) i off data \<rparr>))"

abbreviation fs_silent :: "(fsys \<Rightarrow> io_error + 'a) \<Rightarrow> fsys \<Rightarrow> (io_error + 'a) \<times> fsys" where
  "fs_silent f fs \<equiv> (f fs, fs)"

text \<open>An operation that returns the new file system keeps the old one when it fails.\<close>

definition fs_change :: "(fsys \<Rightarrow> io_error + 'a \<times> fsys) \<Rightarrow> fsys \<Rightarrow> (io_error + 'a) \<times> fsys" where
  "fs_change f fs = (case f fs of Inl e \<Rightarrow> (Inl e, fs) | Inr (x, fs2) \<Rightarrow> (Inr x, fs2))"

subsection \<open>The tuning engine\<close>

definition cm_tuned :: "('s tuning_engine \<Rightarrow> 'a \<times> 's tuning_engine) \<Rightarrow> ('s, 'w, 'a) cm" where
  "cm_tuned f s = (let (x, e) = f (cl_tune s) in (Some (Inr x), s\<lparr> cl_tune := e \<rparr>))"

definition native_config_new :: "string \<Rightarrow> string \<Rightarrow> native_config" where
  "native_config_new base_url token =
     \<lparr> nc_base_url = base_url, nc_token = token, nc_client = client_config_default, nc_on_event = False \<rparr>"

definition native_engine :: "native_config \<Rightarrow> 's tuning_engine" where
  "native_engine cfg = engine_new (cg_auto_tune (nc_client cfg)) (cg_compress_level (nc_client cfg))"

record native_tune_status =
  nt_phase :: tune_phase
  nt_params :: tune_params
  nt_stats :: tune_stats
  nt_caps_hash :: string

definition tune_status :: "'s tuning_engine \<Rightarrow> native_tune_status option" where
  "tune_status e =
     (if \<not> te_enabled e then None
      else Some \<lparr> nt_phase = te_phase e, nt_params = te_params e, nt_stats = te_stats e,
                  nt_caps_hash = te_caps_hash e \<rparr>)"

definition effective_concurrency :: "client_config \<Rightarrow> 's tuning_engine \<Rightarrow> nat" where
  "effective_concurrency c e =
     (if te_enabled e then max (pm_concurrency (te_params e)) 1 else max (cg_concurrency c) 1)"

definition nv_tick :: "('e, 's, 'n) native_env \<Rightarrow> nat \<Rightarrow> f64 option \<Rightarrow> bool \<Rightarrow> ('s, 'n, unit) nm" where
  "nv_tick env done_bytes rtt err =
     cm_bind (nv_now env) (\<lambda>now.
     cm_bind (cm_tuned (tick (ne_tune env) now done_bytes rtt err)) (\<lambda>event.
     case event of None \<Rightarrow> cm_ret () | Some ev \<Rightarrow> nv_emit env (Ev_tuning ev)))"

definition finish_transfer :: "('e, 's, 'n) native_env \<Rightarrow> bool \<Rightarrow> ('s, 'n, unit) nm" where
  "finish_transfer env ok = cm_tuned (\<lambda>e. ((), transfer_end (ne_tune env) ok e))"

definition native_upload_level ::
  "('e, 's, 'n) native_env \<Rightarrow> capabilities \<Rightarrow> bytes option \<Rightarrow> f64 \<Rightarrow> ('s, 'n, int) nm" where
  "native_upload_level env caps sample mbps =
     cm_bind (cm_get (\<lambda>s. ne_bench_clock env (nw_net (cl_world s)))) (\<lambda>clock.
     cm_tuned (upload_compress_level (ne_bench env) clock caps sample mbps))"

definition fetch_capabilities :: "('e, 's, 'n) native_env \<Rightarrow> ('s, 'n, capabilities) nm" where
  "fetch_capabilities env =
     (let url = ne_base env @ ''/capabilities'' in
      cm_bind (nv_send env \<lparr> rq_method = ''GET'', rq_url = url, rq_headers = [], rq_body = [] \<rparr>) (\<lambda>resp.
      if rp_status (fst resp) \<noteq> 200 then cm_fail (Err_Http (rp_status (fst resp)) url)
      else cm_bind (cm_lift (nv_body resp)) (\<lambda>body.
           cm_lift (map_err (\<lambda>e. Err_Protocol (''bad /capabilities JSON: '' @ e)) (ne_caps_json env body)))))"

fun not_found :: "libfw_error \<Rightarrow> bool" where
  "not_found (Err_Http status url) \<longleftrightarrow> status = 404"
| "not_found _ \<longleftrightarrow> False"

definition transfer_capabilities :: "('e, 's, 'n) native_env \<Rightarrow> ('s, 'n, capabilities) nm" where
  "transfer_capabilities env =
     (if cg_auto_tune (ne_client env)
      then cm_bind (cm_attempt (fetch_capabilities env)) (\<lambda>r.
           case r of
             Inr caps \<Rightarrow> cm_ret caps
           | Inl e \<Rightarrow>
               if not_found e
               then cm_bind (cm_tuned (\<lambda>t. ((), set_enabled False t))) (\<lambda>_. cm_ret capabilities_default)
               else cm_fail e)
      else cm_ret capabilities_default)"

definition prepare_transfer :: "('e, 's, 'n) native_env \<Rightarrow> transfer_kind \<Rightarrow> ('s, 'n, tune_params) nm" where
  "prepare_transfer env direction =
     cm_bind (transfer_capabilities env) (\<lambda>caps.
     let c = ne_client env;
         level = resolve_level (cg_compress_level c) caps;
         static_params = from_config (cg_concurrency c) (cg_upload_window c) (cg_download_window c)
                           (cg_chunk_size c) level caps in
     cm_bind (nv_now env) (\<lambda>now.
     cm_tuned (\<lambda>t. begin_transfer (ne_tune env) caps now static_params (set_direction direction t))))"

subsection \<open>Requests\<close>

text \<open>A value that is no header value is left out.\<close>

definition native_headers :: "('e, 's, 'n) native_env \<Rightarrow> bool \<Rightarrow> int option \<Rightarrow> (string \<times> string) list" where
  "native_headers env accept_zrip level =
     (let auth = ''Bearer '' @ nc_token (ne_config env) in
      (if ne_header_ok env auth then [(''authorization'', auth)] else []) @
      [(''x-libfw-protocol'', protocol_header_value)] @
      (if accept_zrip
       then (''accept-encoding'', ''zrip'') #
            (case level of
               Some l \<Rightarrow> if ne_header_ok env (show_int l) then [(''x-libfw-compress-level'', show_int l)] else []
             | None \<Rightarrow> [])
       else []))"

definition unreserved :: "char \<Rightarrow> bool" where
  "unreserved c \<longleftrightarrow> is_ascii_alphanumeric c \<or> c \<in> {CHR ''-'', CHR ''.'', CHR ''_'', CHR ''~'', CHR ''/''}"

definition upper_hex :: "nat \<Rightarrow> char" where
  "upper_hex d = char_of (if d < 10 then 48 + d else 55 + d)"

definition percent_byte :: "char \<Rightarrow> string" where
  "percent_byte c = (let n = of_char c :: nat in CHR ''%'' # [upper_hex (n div 16), upper_hex (n mod 16)])"

definition native_encode_path :: "string \<Rightarrow> string" where
  "native_encode_path path = concat (map (\<lambda>c. if unreserved c then [c] else percent_byte c) path)"

definition native_file_url :: "('e, 's, 'n) native_env \<Rightarrow> string \<Rightarrow> string" where
  "native_file_url env path = ne_base env @ ''/file/'' @ native_encode_path path"

definition native_dir_url :: "('e, 's, 'n) native_env \<Rightarrow> string \<Rightarrow> string" where
  "native_dir_url env path =
     (if path = [] then ne_base env @ ''/dir'' else ne_base env @ ''/dir/'' @ native_encode_path path)"

definition native_backoff :: "('e, 's, 'n) native_env \<Rightarrow> nat \<Rightarrow> nat" where
  "native_backoff env attempt = config_backoff_ms (ne_client env) attempt"

subsection \<open>Paths\<close>

definition join_virtual :: "path \<Rightarrow> string \<Rightarrow> path" where
  "join_virtual base virtual_path =
     base @ filter (\<lambda>s. s \<noteq> [] \<and> s \<noteq> ''.'') (split_on CHR ''/'' virtual_path)"

definition validate_relative :: "string \<Rightarrow> libfw_error + unit" where
  "validate_relative p =
     (if starts_with p ''/'' then Inl (Err_Protocol (''server returned an absolute path: `'' @ p @ ''`''))
      else if list_ex (\<lambda>seg. seg = ''..'' \<or> CHR 0x5C \<in> set seg) (split_on CHR ''/'' p)
      then Inl (Err_Protocol (''refusing unsafe path from server: `'' @ p @ ''`''))
      else Inr ())"

subsection \<open>Directories\<close>

text \<open>
  One round of the local walk: the stack of directories, its top last, and the files found.  Symbolic
  links are skipped.
\<close>

definition walk_step ::
  "('e, 's, 'n) native_env \<Rightarrow> path list \<times> path list \<Rightarrow> ('s, 'n, (path list \<times> path list) + path list) nm" where
  "walk_step env = (\<lambda>(stack, out).
     if stack = [] then cm_ret (Inr out)
     else let dir = last stack in
          cm_bind (nv_storage env (''read_dir '' @ ne_display env dir) (fs_silent (\<lambda>fs. fs_read_dir fs dir))) (\<lambda>es.
          cm_ret (Inl (butlast stack @ map (\<lambda>(n, _). dir @ [n]) (filter (\<lambda>(_, nd). case nd of NDir _ \<Rightarrow> True | _ \<Rightarrow> False) es),
                       out @ map (\<lambda>(n, _). dir @ [n]) (filter (\<lambda>(_, nd). case nd of NFile _ \<Rightarrow> True | _ \<Rightarrow> False) es)))))"

definition walk_files :: "('e, 's, 'n) native_env \<Rightarrow> path \<Rightarrow> ('s, 'n, path list) nm" where
  "walk_files env start_dir =
     cm_bind (cm_while (walk_step env) ([start_dir], [])) (\<lambda>out. cm_ret (sort out))"

definition to_file_entry :: "remote_file \<Rightarrow> file_entry" where
  "to_file_entry f = \<lparr> fe_path = rf_path f, fe_size = rf_size f, fe_mtime = rf_mtime f \<rparr>"

definition native_list_dir :: "('e, 's, 'n) native_env \<Rightarrow> string \<Rightarrow> ('s, 'n, remote_file list) nm" where
  "native_list_dir env dir =
     (let url = native_dir_url env dir in
      cm_bind (nv_send env \<lparr> rq_method = ''GET'', rq_url = url, rq_headers = native_headers env False None,
                             rq_body = [] \<rparr>) (\<lambda>resp.
      if rp_status (fst resp) \<noteq> 200 then cm_fail (Err_Http (rp_status (fst resp)) url)
      else cm_bind (cm_lift (nv_body resp)) (\<lambda>body.
           cm_lift (map_err (\<lambda>e. Err_Protocol (''bad listing JSON: '' @ e)) (ne_dir_json env body)))))"

text \<open>The entries of a listing, the first unsafe path ends it.\<close>

fun take_listing ::
  "remote_file list \<Rightarrow> string list \<Rightarrow> file_entry list \<Rightarrow> libfw_error + string list \<times> file_entry list" where
  "take_listing [] stack out = Inr (stack, out)"
| "take_listing (e # es) stack out =
     res_bind (validate_relative (rf_path e)) (\<lambda>_.
       if rf_is_dir e then take_listing es (stack @ [rf_path e]) out
       else take_listing es stack (out @ [to_file_entry e]))"

definition collect_remote_step ::
  "('e, 's, 'n) native_env \<Rightarrow> string list \<times> file_entry list \<Rightarrow>
   ('s, 'n, (string list \<times> file_entry list) + file_entry list) nm" where
  "collect_remote_step env = (\<lambda>(stack, out).
     if stack = [] then cm_ret (Inr out)
     else cm_bind (native_list_dir env (last stack)) (\<lambda>es.
          cm_bind (cm_lift (take_listing es (butlast stack) out)) (\<lambda>st. cm_ret (Inl st))))"

definition collect_remote_files :: "('e, 's, 'n) native_env \<Rightarrow> string \<Rightarrow> ('s, 'n, file_entry list) nm" where
  "collect_remote_files env dir =
     cm_bind (cm_while (collect_remote_step env) ([dir], [])) (\<lambda>out. cm_ret (sort_key fe_path out))"

subsection \<open>Blocks and sessions\<close>

definition compress_chunk :: "'e zrip \<Rightarrow> bytes \<Rightarrow> int \<Rightarrow> libfw_error + bytes" where
  "compress_chunk z raw level =
     map_err (\<lambda>e. Err_Compress (compress_error_display e))
       (res_bind (compressor_with_level z Fmt_Zrip level) (\<lambda>c. compress_chunks z c (split_chunks stream_buf_size raw)))"

definition native_session_id :: "file_meta \<Rightarrow> string" where
  "native_session_id m = trim_char CHR 0x22 (fm_etag m)"

text \<open>The sum over the results of tasks; the first error in the order of completion.\<close>

fun sum_results :: "(libfw_error + nat) list \<Rightarrow> nat \<Rightarrow> libfw_error + nat" where
  "sum_results [] n = Inr n"
| "sum_results (r # rs) n = res_bind r (\<lambda>k. sum_results rs (sat_add n k))"

definition nv_unordered ::
  "('e, 's, 'n) native_env \<Rightarrow> 'a list \<Rightarrow> ('a \<Rightarrow> ('s, 'n, 'b) nm) \<Rightarrow> ('s, 'n, (libfw_error + 'b) list) nm" where
  "nv_unordered env xs task = cm_bind (nv_order env xs) (\<lambda>ys. cm_tasks ys task)"

end
