(* ===== verification/Native_Upload.thy ===== *)
theory Native_Upload
  imports Native_Client
begin

text \<open>
  The native client's uploads (libfw-client, \<open>native/upload.rs\<close>): the same session protocol as the
  browser's, with blocks read from a local file.
\<close>

subsection \<open>The local file\<close>

text \<open>\<open>FileMeta::new\<close> of the local file under its remote name.\<close>

definition local_meta :: "('e, 's, 'n) native_env \<Rightarrow> path \<Rightarrow> string \<Rightarrow> ('s, 'n, file_meta) nm" where
  "local_meta env local remote =
     cm_bind (nv_storage env (''stat '' @ ne_display env local)
                (fs_silent (\<lambda>fs. res_bind (fs_stat fs True local) (\<lambda>nd. Inr (fs, nd))))) (\<lambda>(fs, nd).
     case nd of
       NFile i \<Rightarrow> cm_ret (to_meta (ne_sha env)
                    \<lparr> fe_path = remote, fe_size = fs_len fs i, fe_mtime = meta_mtime fs nd div 10 ^ 9 \<rparr>)
     | _ \<Rightarrow> cm_fail (Err_Storage (ne_display env local @ '' is not a regular file'')))"

definition early_eof :: io_error where
  "early_eof = Io_error Io_UnexpectedEof ''early eof''"

definition read_slice :: "('e, 's, 'n) native_env \<Rightarrow> path \<Rightarrow> nat \<Rightarrow> nat \<Rightarrow> ('s, 'n, bytes) nm" where
  "read_slice env p start len =
     cm_bind (nv_storage env (''open '' @ ne_display env p) (fs_silent (\<lambda>fs. fs_open fs p))) (\<lambda>i.
     cm_bind (nv_storage env ''seek'' (fs_silent (\<lambda>_. Inr ()))) (\<lambda>_.
     nv_storage env (''read '' @ show_nat len @ '' bytes at '' @ show_nat start)
       (fs_silent (\<lambda>fs. let d = take len (drop start (fs_data fs i)) in
          if length d < len then Inl early_eof else Inr d))))"

subsection \<open>Requests\<close>

record native_upload_job =
  nu_local :: path
  nu_meta :: file_meta
  nu_session :: string
  nu_compress :: bool
  nu_level :: int

definition session_request ::
  "('e, 's, 'n) native_env \<Rightarrow> file_meta \<Rightarrow> string \<Rightarrow> nat \<Rightarrow> (string \<times> string) list \<Rightarrow> bytes \<Rightarrow> http_request" where
  "session_request env m session offset extra body =
     \<lparr> rq_method = ''POST'', rq_url = native_file_url env (fm_path m),
       rq_headers = native_headers env False None @
         [(''x-libfw-offset'', show_nat offset),
          (''x-libfw-file-meta'', encode_file_meta_header (ne_meta_json env) m),
          (''x-libfw-session'', session)] @ extra,
       rq_body = body \<rparr>"

definition native_probe ::
  "('e, 's, 'n) native_env \<Rightarrow> file_meta \<Rightarrow> string \<Rightarrow> ('s, 'n, (nat \<times> nat) list) nm" where
  "native_probe env m session =
     (let req = session_request env m session 0 [(''x-libfw-session-status'', ''1'')] [] in
      cm_bind (nv_send env req) (\<lambda>resp.
      if rp_status (fst resp) \<noteq> 200 \<and> rp_status (fst resp) \<noteq> 201
      then cm_fail (Err_Http (rp_status (fst resp)) (rq_url req))
      else cm_bind (cm_lift (nv_body resp)) (\<lambda>body.
           cm_bind (cm_lift (map_err (\<lambda>e. Err_Protocol (''bad session-status JSON: '' @ e)) (ne_ranges_json env body)))
             (\<lambda>rs. cm_ret (map (\<lambda>(s, e). (s, max e s)) rs)))))"

definition block_retry_note :: "native_upload_job \<Rightarrow> nat \<Rightarrow> nat \<Rightarrow> nat \<Rightarrow> string \<Rightarrow> string" where
  "block_retry_note j start fin attempt e =
     ''retrying block '' @ show_nat start @ ''..'' @ show_nat fin @ '' of `'' @ fm_path (nu_meta j) @
     ''` (attempt '' @ show_nat attempt @ ''): '' @ e"

text \<open>An error of the transport is logged as the library words it.\<close>

fun transport_text :: "libfw_error \<Rightarrow> string" where
  "transport_text (Err_Network m) = m"
| "transport_text e = libfw_error_display e"

function post_block_loop ::
  "('e, 's, 'n) native_env \<Rightarrow> native_upload_job \<Rightarrow> nat \<Rightarrow> nat \<Rightarrow> bytes \<Rightarrow> nat \<Rightarrow> ('s, 'n, nat) nm" where
  "post_block_loop env j start fin payload attempt =
     (let req = session_request env (nu_meta j) (nu_session j) start
                  (if nu_compress j then [(''x-libfw-compress'', ''zrip'')] else []) payload;
          again = (\<lambda>e.
            if cg_max_retries (ne_client env) \<le> attempt then cm_fail e
            else cm_bind (nv_log env (block_retry_note j start fin (attempt + 1) (transport_text e))) (\<lambda>_.
                 cm_bind (nv_sleep env (native_backoff env (attempt + 1))) (\<lambda>_.
                 post_block_loop env j start fin payload (attempt + 1)))) in
      cm_bind (cm_attempt (nv_send env req)) (\<lambda>r.
      case r of
        Inr resp \<Rightarrow>
          if rp_status (fst resp) = 201 then cm_ret (length payload)
          else again (Err_Http (rp_status (fst resp)) (rq_url req))
      | Inl e \<Rightarrow> again e))"
  by pat_completeness auto
termination
  by (relation "measure (\<lambda>(env, j, start, fin, payload, attempt). cg_max_retries (ne_client env) - attempt)") auto

declare post_block_loop.simps [simp del]

definition post_block ::
  "('e, 's, 'n) native_env \<Rightarrow> native_upload_job \<Rightarrow> nat \<Rightarrow> nat \<Rightarrow> ('s, 'n, nat) nm" where
  "post_block env j start fin =
     cm_bind (read_slice env (nu_local j) start (u64_sub fin start)) (\<lambda>raw.
     cm_bind (cm_lift (if nu_compress j then compress_chunk (ne_zrip env) raw (nu_level j) else Inr raw)) (\<lambda>payload.
     post_block_loop env j start fin payload 0))"

definition native_commit :: "('e, 's, 'n) native_env \<Rightarrow> file_meta \<Rightarrow> string \<Rightarrow> ('s, 'n, unit) nm" where
  "native_commit env m session =
     (let req = session_request env m session (fm_size m) [(''x-libfw-final'', ''1'')] [] in
      cm_bind (nv_send env req) (\<lambda>resp.
      if rp_status (fst resp) = 201 then cm_ret ()
      else cm_fail (Err_Http (rp_status (fst resp)) (rq_url req))))"

subsection \<open>A file\<close>

definition native_verify_note :: "string \<Rightarrow> libfw_error \<Rightarrow> string" where
  "native_verify_note p e =
     ''commit failed for `'' @ p @ ''`; re-verifying server state: '' @ libfw_error_display e"

definition stuck_error :: "string \<Rightarrow> nat \<Rightarrow> libfw_error option \<Rightarrow> libfw_error" where
  "stuck_error p rounds fst_err =
     (case fst_err of
        Some e \<Rightarrow> e
      | None \<Rightarrow> Err_Protocol (''upload of `'' @ p @ ''` did not converge after '' @ show_nat rounds @ '' rounds''))"

definition entry_of_meta :: "file_meta \<Rightarrow> file_entry" where
  "entry_of_meta m = \<lparr> fe_path = fm_path m, fe_size = fm_size m, fe_mtime = fm_mtime m \<rparr>"

text \<open>
  The missing blocks in the order in which their requests complete: bytes sent, failures, and the first
  error.
\<close>

fun send_blocks ::
  "('e, 's, 'n) native_env \<Rightarrow> native_upload_job \<Rightarrow> (nat \<times> nat) list \<Rightarrow> nat \<Rightarrow> nat \<Rightarrow> libfw_error option \<Rightarrow>
   ('s, 'n, nat \<times> nat \<times> libfw_error option) nm" where
  "send_blocks env j [] sent errors fst_err = cm_ret (sent, errors, fst_err)"
| "send_blocks env j ((s, e) # bs) sent errors fst_err =
     cm_bind (cm_attempt (post_block env j s e)) (\<lambda>r.
     case r of
       Inr n \<Rightarrow>
         (let sent2 = sat_add sent n in
          cm_bind (nv_emit env (Ev_progress sent2 (fm_size (nu_meta j)))) (\<lambda>_.
          cm_bind (nv_tick env sent2 None False) (\<lambda>_. send_blocks env j bs sent2 errors fst_err)))
     | Inl err \<Rightarrow>
         cm_bind (nv_log env (''block at '' @ show_nat s @ '' of `'' @ fm_path (nu_meta j) @ ''` failed: '' @
                    libfw_error_display err)) (\<lambda>_.
         send_blocks env j bs sent (u32_add errors 1) (insert_error fst_err err)))"

text \<open>The rounds: \<open>received\<close> is the result of the last probe, which round 0 takes over from the start.\<close>

function session_rounds ::
  "('e, 's, 'n) native_env \<Rightarrow> native_upload_job \<Rightarrow> (nat \<times> nat) list \<Rightarrow> nat \<Rightarrow> nat \<Rightarrow> libfw_error option \<Rightarrow>
   ('s, 'n, nat) nm" where
  "session_rounds env j received0 rounds sent fst_err =
     (let m = nu_meta j; session = nu_session j; retries = cg_max_retries (ne_client env) in
      cm_bind (if 0 < rounds then native_probe env m session else cm_ret received0) (\<lambda>received.
      cm_bind (cm_get (\<lambda>s. max (pm_chunk_size (te_params (cl_tune s))) 1)) (\<lambda>chunk_sz.
      cm_bind (cm_loop (aligned_missing (entry_of_meta m) chunk_sz received)) (\<lambda>missing.
      if missing = []
      then cm_bind (cm_attempt (native_commit env m session)) (\<lambda>r.
           case r of
             Inr _ \<Rightarrow> cm_bind (nv_tick env sent None False) (\<lambda>_. cm_ret sent)
           | Inl e \<Rightarrow>
               if retries \<le> rounds then cm_fail e
               else cm_bind (nv_log env (native_verify_note (fm_path m) e)) (\<lambda>_.
                    session_rounds env j received (rounds + 1) sent (insert_error fst_err e)))
      else cm_bind (nv_order env missing) (\<lambda>blocks.
           cm_bind (send_blocks env j blocks sent 0 fst_err) (\<lambda>(sent2, errors, fst_err2).
           cm_bind (cm_attempt (native_commit env m session)) (\<lambda>r.
           case r of
             Inr _ \<Rightarrow> cm_bind (nv_tick env sent2 None (0 < errors)) (\<lambda>_. cm_ret sent2)
           | Inl e \<Rightarrow>
               if retries < rounds + 1
               then cm_bind (native_probe env m session) (\<lambda>received2.
                    cm_bind (cm_loop (aligned_missing (entry_of_meta m) chunk_sz received2)) (\<lambda>missing2.
                    if missing2 = [] then cm_bind (native_commit env m session) (\<lambda>_. cm_ret sent2)
                    else cm_fail (stuck_error (fm_path m) (rounds + 1) fst_err2)))
               else cm_bind (nv_log env (native_verify_note (fm_path m) e)) (\<lambda>_.
                    cm_bind (nv_tick env sent2 None (0 < errors)) (\<lambda>_.
                    session_rounds env j received (rounds + 1) sent2 (insert_error fst_err2 e))))))))))"
  by pat_completeness auto
termination
  by (relation "measure (\<lambda>(env, j, received, rounds, sent, fst_err). cg_max_retries (ne_client env) - rounds)") auto

declare session_rounds.simps [simp del]

definition native_covered :: "(nat \<times> nat) list \<Rightarrow> nat \<Rightarrow> nat" where
  "native_covered received sz = min (foldl u64_add 0 (map (\<lambda>(s, e). e - s) received)) sz"

definition native_upload_session :: "('e, 's, 'n) native_env \<Rightarrow> native_upload_job \<Rightarrow> ('s, 'n, nat) nm" where
  "native_upload_session env j =
     cm_bind (native_probe env (nu_meta j) (nu_session j)) (\<lambda>received.
     let covered = native_covered received (fm_size (nu_meta j)) in
     cm_bind (cm_when (0 < covered)
        (nv_log env (''upload `'' @ fm_path (nu_meta j) @ ''`: server already holds '' @ show_nat covered @
           '' of '' @ show_nat (fm_size (nu_meta j)) @ '' bytes; resuming''))) (\<lambda>_.
     session_rounds env j received 0 0 None))"

text \<open>The sample for the choice of a level: the head of the file, if the level is to be measured.\<close>

definition file_sample :: "('e, 's, 'n) native_env \<Rightarrow> path \<Rightarrow> nat \<Rightarrow> ('s, 'n, bytes option) nm" where
  "file_sample env local sz =
     (if cg_compress (ne_client env) \<and> cg_compress_level (ne_client env) = Lv_Auto
      then let len = min sz level_sample_size in
           if len = 0 then cm_ret None
           else cm_bind (cm_attempt (read_slice env local 0 len)) (\<lambda>r.
                cm_ret (case r of Inl _ \<Rightarrow> None | Inr b \<Rightarrow> Some b))
      else cm_ret None)"

definition native_upload_file :: "('e, 's, 'n) native_env \<Rightarrow> path \<Rightarrow> string \<Rightarrow> ('s, 'n, nat) nm" where
  "native_upload_file env local remote =
     cm_bind (cm_lift (validate_relative remote)) (\<lambda>_.
     cm_bind (prepare_transfer env Upload_kind) (\<lambda>_.
     cm_bind (local_meta env local remote) (\<lambda>m.
     cm_bind (nv_emit env (Ev_file_start remote (fm_size m))) (\<lambda>_.
     cm_bind (cm_get (\<lambda>s. case te_caps (cl_tune s) of Some c \<Rightarrow> c | None \<Rightarrow> capabilities_default)) (\<lambda>caps.
     cm_bind (file_sample env local (fm_size m)) (\<lambda>sample.
     cm_bind (cm_get (\<lambda>s. ts_mbps (te_stats (cl_tune s)))) (\<lambda>mbps.
     cm_bind (native_upload_level env caps sample mbps) (\<lambda>level.
     cm_bind (cm_attempt (native_upload_session env
        \<lparr> nu_local = local, nu_meta = m, nu_session = native_session_id m,
          nu_compress = cg_compress (ne_client env), nu_level = level \<rparr>)) (\<lambda>outcome.
     cm_bind (finish_transfer env (case outcome of Inl _ \<Rightarrow> False | Inr _ \<Rightarrow> True)) (\<lambda>_.
     cm_bind (cm_lift outcome) (\<lambda>sent.
     cm_bind (nv_emit env (Ev_file_done remote sent)) (\<lambda>_. cm_ret sent))))))))))))"

subsection \<open>Several files\<close>

definition native_upload_files :: "('e, 's, 'n) native_env \<Rightarrow> (path \<times> string) list \<Rightarrow> ('s, 'n, nat) nm" where
  "native_upload_files env files =
     cm_bind (nv_unordered env files (\<lambda>(local, remote). native_upload_file env local remote)) (\<lambda>results.
     cm_lift (sum_results results 0))"

definition remote_name :: "path \<Rightarrow> string \<Rightarrow> path \<Rightarrow> string" where
  "remote_name start_dir remote_dir entry =
     (let rel = map (\<lambda>c. if c = CHR 0x5C then CHR ''/'' else c)
                  (join_on CHR ''/'' (drop (length start_dir) entry)) in
      if remote_dir = [] then rel else trim_char CHR ''/'' remote_dir @ ''/'' @ rel)"

definition upload_folder :: "('e, 's, 'n) native_env \<Rightarrow> path \<Rightarrow> string \<Rightarrow> ('s, 'n, nat) nm" where
  "upload_folder env local_dir remote_dir =
     cm_bind (walk_files env local_dir) (\<lambda>entries.
     native_upload_files env (map (\<lambda>e. (e, remote_name local_dir remote_dir e)) entries))"

end
