(* ===== verification/Native_Download.thy ===== *)
theory Native_Download
  imports Native_Upload
begin

text \<open>
  The native client's downloads (libfw-client, \<open>native/download.rs\<close>): ranges written in order to a local
  file, with a sidecar that names the ETag and the offset reached.
\<close>

subsection \<open>The sidecar\<close>

definition resume_path :: "path \<Rightarrow> path" where
  "resume_path dest =
     (if dest = [] then [''.libfw-resume.json''] else butlast dest @ [last dest @ ''.libfw-resume.json''])"

definition native_load_resume :: "('e, 's, 'n) native_env \<Rightarrow> path \<Rightarrow> ('s, 'n, resume_state option) nm" where
  "native_load_resume env dest =
     cm_bind (nv_file env (fs_silent (\<lambda>fs. res_bind (fs_open fs (resume_path dest)) (\<lambda>i. Inr (fs_data fs i)))))
       (\<lambda>r. cm_ret (case r of Inl _ \<Rightarrow> None | Inr text \<Rightarrow> ne_resume_parse env text))"

text \<open>The parent directories, unless the path has none.\<close>

definition native_make_parent :: "('e, 's, 'n) native_env \<Rightarrow> path \<Rightarrow> ('s, 'n, unit) nm" where
  "native_make_parent env dest =
     cm_when (dest \<noteq> []) (nv_storage env (''create dir '' @ ne_display env (butlast dest))
       (\<lambda>fs. fs_create_dir_all fs (butlast dest)))"

definition native_write_file :: "('e, 's, 'n) native_env \<Rightarrow> path \<Rightarrow> bytes \<Rightarrow> ('s, 'n, io_error + unit) nm" where
  "native_write_file env p text =
     cm_bind (nv_file env (fs_change (\<lambda>fs. fs_create fs p))) (\<lambda>r.
     case r of Inl e \<Rightarrow> cm_ret (Inl e) | Inr i \<Rightarrow> nv_write_at env i 0 text)"

definition save_resume :: "('e, 's, 'n) native_env \<Rightarrow> path \<Rightarrow> string \<Rightarrow> nat \<Rightarrow> ('s, 'n, unit) nm" where
  "save_resume env dest etag offset =
     cm_bind (native_make_parent env dest) (\<lambda>_.
     cm_bind (native_write_file env (resume_path dest)
                (ne_resume_text env \<lparr> rs_etag = etag, rs_offset = offset \<rparr>)) (\<lambda>r.
     cm_lift (map_err (storage_failure ''write resume state'') r)))"

definition save_resume_ignored :: "('e, 's, 'n) native_env \<Rightarrow> path \<Rightarrow> string \<Rightarrow> nat \<Rightarrow> ('s, 'n, unit) nm" where
  "save_resume_ignored env dest etag offset =
     cm_bind (cm_attempt (save_resume env dest etag offset)) (\<lambda>_. cm_ret ())"

subsection \<open>Decisions\<close>

text \<open>The loop may not end when the end of a chunk wraps around.\<close>

definition parallel_chunks :: "nat \<Rightarrow> nat \<Rightarrow> nat \<Rightarrow> (nat \<times> nat) list option" where
  "parallel_chunks from_off sz chunk_sz =
     bounds_loop sz (if chunk_sz = 0 then chunk_size_const else chunk_sz) (min from_off sz) []"

definition native_should_chunked :: "nat \<Rightarrow> nat \<Rightarrow> bool" where
  "native_should_chunked sz resume_offset \<longleftrightarrow>
     min_parallel_download_bytes \<le> sz \<and> min_parallel_download_bytes \<le> sz - resume_offset"

definition batch_span :: "nat \<Rightarrow> nat \<Rightarrow> nat \<Rightarrow> nat" where
  "batch_span remaining chunk_sz window =
     (let c = max chunk_sz 1; w = max window 1 in min (max (sat_mul c w) c) (max remaining 1))"

subsection \<open>Requests\<close>

text \<open>\<open>HeaderMap::get\<close>: the first value of the name.\<close>

definition native_header :: "('e, 's, 'n) native_env \<Rightarrow> http_reply \<Rightarrow> string \<Rightarrow> string option" where
  "native_header env r name =
     (case filter (\<lambda>(n, v). to_ascii_lowercase n = name) (rp_headers r) of
        [] \<Rightarrow> None | h # _ \<Rightarrow> ne_header_text env (snd h))"

definition header_str :: "('e, 's, 'n) native_env \<Rightarrow> http_reply \<Rightarrow> string \<Rightarrow> string" where
  "header_str env r name = (case native_header env r name of Some v \<Rightarrow> v | None \<Rightarrow> [])"

definition native_format :: "('e, 's, 'n) native_env \<Rightarrow> http_reply \<Rightarrow> compression_format" where
  "native_format env r =
     (case Option.bind (native_header env r ''x-libfw-compress'') parse_format_header of
        Some f \<Rightarrow> f | None \<Rightarrow> Fmt_None)"

definition native_head :: "('e, 's, 'n) native_env \<Rightarrow> string \<Rightarrow> http_request" where
  "native_head env remote =
     \<lparr> rq_method = ''HEAD'', rq_url = native_file_url env remote, rq_headers = native_headers env False None,
       rq_body = [] \<rparr>"

definition native_fetch_meta :: "('e, 's, 'n) native_env \<Rightarrow> string \<Rightarrow> ('s, 'n, string \<times> nat) nm" where
  "native_fetch_meta env remote =
     cm_bind (nv_send env (native_head env remote)) (\<lambda>(reply, _).
     if rp_status reply \<noteq> 200 then cm_fail (Err_Http (rp_status reply) (native_file_url env remote))
     else cm_ret (header_str env reply ''etag'',
                  case u64_from_str (header_str env reply ''content-length'') of Some n \<Rightarrow> n | None \<Rightarrow> 0))"

definition native_stat :: "('e, 's, 'n) native_env \<Rightarrow> string \<Rightarrow> ('s, 'n, remote_stat) nm" where
  "native_stat env remote =
     cm_bind (cm_lift (validate_relative remote)) (\<lambda>_.
     cm_bind (native_fetch_meta env remote) (\<lambda>(etag, sz). cm_ret \<lparr> rt_size = sz, rt_etag = etag \<rparr>))"

text \<open>One file's download: its open destination is named by the inode.\<close>

record native_job =
  nj_remote :: string
  nj_etag :: string
  nj_level :: int
  nj_file :: nat
  nj_dest :: path

definition range_get :: "('e, 's, 'n) native_env \<Rightarrow> native_job \<Rightarrow> nat \<Rightarrow> nat \<Rightarrow> http_request" where
  "range_get env j start fin =
     \<lparr> rq_method = ''GET'', rq_url = native_file_url env (nj_remote j),
       rq_headers = native_headers env (cg_compress (ne_client env)) (Some (nj_level j)) @
         [(''range'', ''bytes='' @ show_nat start @ ''-'' @ show_nat (fin - 1))] @
         (if nj_etag j \<noteq> [] then [(''if-range'', nj_etag j)] else []),
       rq_body = [] \<rparr>"

definition range_request ::
  "('e, 's, 'n) native_env \<Rightarrow> native_job \<Rightarrow> nat \<Rightarrow> nat \<Rightarrow> ('s, 'n, (http_reply \<times> string option) \<times> f64) nm" where
  "range_request env j start fin =
     cm_bind (nv_now env) (\<lambda>t0.
     cm_bind (nv_send env (range_get env j start fin)) (\<lambda>resp.
     cm_bind (nv_now env) (\<lambda>t1.
     if rp_status (fst resp) = 206 then cm_ret (resp, f_sub t1 t0)
     else cm_fail (Err_Http (rp_status (fst resp)) (native_file_url env (nj_remote j))))))"

definition decompress_text :: "decompress_error \<Rightarrow> libfw_error" where
  "decompress_text e = Err_Decompress (decompress_error_display e)"

definition whole_body :: "'e zrip \<Rightarrow> compression_format \<Rightarrow> bytes \<Rightarrow> libfw_error + bytes" where
  "whole_body z fmt body =
     map_err decompress_text
       (res_bind (decompress z (decompressor_new fmt) body) (\<lambda>(out, d).
        res_bind (decompress_finish z d) (\<lambda>(tail, _). Inr (out @ tail))))"

definition range_to_vec ::
  "('e, 's, 'n) native_env \<Rightarrow> native_job \<Rightarrow> nat \<Rightarrow> nat \<Rightarrow> ('s, 'n, bytes \<times> f64) nm" where
  "range_to_vec env j start fin =
     cm_bind (range_request env j start fin) (\<lambda>(resp, rtt).
     cm_bind (cm_lift (nv_body resp)) (\<lambda>body.
     cm_bind (cm_lift (whole_body (ne_zrip env) (native_format env (fst resp)) body)) (\<lambda>out.
     cm_ret (out, rtt))))"

definition native_wrong_length :: "string \<Rightarrow> nat \<Rightarrow> nat \<Rightarrow> nat \<Rightarrow> libfw_error" where
  "native_wrong_length remote start fin n =
     Err_Protocol (''chunk '' @ show_nat start @ ''..'' @ show_nat fin @ '' of `'' @ remote @ ''` yielded '' @
       show_nat n @ '' bytes, expected '' @ show_nat (u64_sub fin start))"

definition chunk_retry_note :: "string \<Rightarrow> nat \<Rightarrow> nat \<Rightarrow> nat \<Rightarrow> libfw_error \<Rightarrow> string" where
  "chunk_retry_note remote start fin attempt e =
     ''retrying chunk '' @ show_nat start @ ''..'' @ show_nat fin @ '' of `'' @ remote @ ''` (attempt '' @
     show_nat attempt @ ''): '' @ libfw_error_display e"

function get_range_with_retry ::
  "('e, 's, 'n) native_env \<Rightarrow> native_job \<Rightarrow> nat \<Rightarrow> nat \<Rightarrow> nat \<Rightarrow> ('s, 'n, bytes \<times> f64) nm" where
  "get_range_with_retry env j start fin attempt =
     cm_bind (cm_attempt (range_to_vec env j start fin)) (\<lambda>r.
     case r of
       Inr (data, rtt) \<Rightarrow>
         if length data \<noteq> u64_sub fin start then cm_fail (native_wrong_length (nj_remote j) start fin (length data))
         else cm_ret (data, rtt)
     | Inl e \<Rightarrow>
         if is_restart_err e \<or> cg_max_retries (ne_client env) \<le> attempt then cm_fail e
         else cm_bind (nv_log env (chunk_retry_note (nj_remote j) start fin (attempt + 1) e)) (\<lambda>_.
              cm_bind (nv_sleep env (native_backoff env (attempt + 1))) (\<lambda>_.
              get_range_with_retry env j start fin (attempt + 1))))"
  by pat_completeness auto
termination
  by (relation "measure (\<lambda>(env, j, start, fin, attempt). cg_max_retries (ne_client env) - attempt)") auto

declare get_range_with_retry.simps [simp del]

subsection \<open>A batch of ranges\<close>

definition write_data_at :: "('e, 's, 'n) native_env \<Rightarrow> native_job \<Rightarrow> nat \<Rightarrow> bytes \<Rightarrow> ('s, 'n, unit) nm" where
  "write_data_at env j off data =
     cm_bind (nv_storage env ''seek'' (fs_silent (\<lambda>_. Inr ()))) (\<lambda>_.
     cm_bind (nv_write_at env (nj_file j) off data) (\<lambda>r.
     cm_lift (map_err (storage_failure ''write'') r)))"

text \<open>The last offset saved, after the one reached was saved if it is time.\<close>

definition save_periodically :: "('e, 's, 'n) native_env \<Rightarrow> native_job \<Rightarrow> nat \<Rightarrow> nat \<Rightarrow> ('s, 'n, nat) nm" where
  "save_periodically env j cursor last_saved =
     (if sat_add last_saved resume_save_every \<le> cursor
      then cm_bind (save_resume_ignored env (nj_dest j) (nj_etag j) cursor) (\<lambda>_. cm_ret cursor)
      else cm_ret last_saved)"

text \<open>The state of a batch: the chunks that wait for an earlier one, the offset, the bytes moved, the last save.\<close>

type_synonym batch_state = "(nat \<times> bytes) list \<times> nat \<times> nat \<times> nat"

lemma length_delete_less: "map_of m k = Some v \<Longrightarrow> length (AList.delete k m) < length m"
  by (induction m) (auto simp: AList.delete_eq less_Suc_eq_le split: if_splits)

function flush_pending ::
  "('e, 's, 'n) native_env \<Rightarrow> native_job \<Rightarrow> nat \<Rightarrow> nat \<Rightarrow> f64 \<Rightarrow> batch_state \<Rightarrow> ('s, 'n, batch_state) nm" where
  "flush_pending env j done_base tot rtt (pending, cursor, moved, last_saved) =
     (case map_of pending cursor of
        None \<Rightarrow> cm_ret (pending, cursor, moved, last_saved)
      | Some data \<Rightarrow>
          cm_bind (write_data_at env j cursor data) (\<lambda>_.
          let cursor2 = sat_add cursor (length data); moved2 = sat_add moved (length data) in
          cm_bind (nv_emit env (Ev_progress (sat_add done_base moved2) tot)) (\<lambda>_.
          cm_bind (save_periodically env j cursor2 last_saved) (\<lambda>last_saved2.
          cm_bind (nv_tick env (sat_add done_base moved2) (Some rtt) False) (\<lambda>_.
          flush_pending env j done_base tot rtt (AList.delete cursor pending, cursor2, moved2, last_saved2))))))"
  by pat_completeness auto
termination
  by (relation "measure (\<lambda>(env, j, done_base, tot, rtt, pending, x). length pending)")
    (simp_all add: length_delete_less)

declare flush_pending.simps [simp del]

text \<open>The chunks in the order in which their requests complete; the first error ends the batch.\<close>

fun batch_chunks ::
  "('e, 's, 'n) native_env \<Rightarrow> native_job \<Rightarrow> nat \<Rightarrow> nat \<Rightarrow> (nat \<times> nat) list \<Rightarrow> batch_state \<Rightarrow> ('s, 'n, nat) nm" where
  "batch_chunks env j done_base tot [] (pending, cursor, moved, last_saved) = cm_ret moved"
| "batch_chunks env j done_base tot ((s, e) # chunks) (pending, cursor, moved, last_saved) =
     cm_bind (cm_attempt (get_range_with_retry env j s e 0)) (\<lambda>r.
     case r of
       Inl err \<Rightarrow> cm_bind (nv_tick env (sat_add done_base moved) None True) (\<lambda>_. cm_fail err)
     | Inr (data, rtt) \<Rightarrow>
         cm_bind (flush_pending env j done_base tot rtt (btree_insert s data pending, cursor, moved, last_saved))
           (\<lambda>st. batch_chunks env j done_base tot chunks st))"

definition download_batch ::
  "('e, 's, 'n) native_env \<Rightarrow> native_job \<Rightarrow> nat \<Rightarrow> nat \<Rightarrow> nat \<Rightarrow> nat \<Rightarrow> nat \<Rightarrow> ('s, 'n, nat) nm" where
  "download_batch env j from_off to_off tot done_base chunk_sz =
     cm_bind (cm_loop (parallel_chunks from_off to_off chunk_sz)) (\<lambda>chunks.
     cm_bind (nv_order env chunks) (\<lambda>ordered.
     batch_chunks env j done_base tot ordered ([], from_off, 0, from_off)))"

subsection \<open>One request\<close>

fun native_stream ::
  "('e, 's, 'n) native_env \<Rightarrow> native_job \<Rightarrow> nat \<Rightarrow> f64 \<Rightarrow> string option \<Rightarrow> bytes list \<Rightarrow> decompressor \<Rightarrow>
   nat \<Rightarrow> nat \<Rightarrow> nat \<Rightarrow> ('s, 'n, decompressor \<times> nat \<times> nat) nm" where
  "native_stream env j sz rtt broken [] d cursor moved last_saved =
     (case broken of Some m \<Rightarrow> cm_fail (Err_Network m) | None \<Rightarrow> cm_ret (d, cursor, moved))"
| "native_stream env j sz rtt broken (chunk # chunks) d cursor moved last_saved =
     (case decompress (ne_zrip env) d chunk of
        Inl e \<Rightarrow> cm_fail (decompress_text e)
      | Inr (out, d2) \<Rightarrow>
          if out = [] then native_stream env j sz rtt broken chunks d2 cursor moved last_saved
          else cm_bind (write_data_at env j cursor out) (\<lambda>_.
               let cursor2 = sat_add cursor (length out); moved2 = sat_add moved (length out) in
               cm_bind (save_periodically env j cursor2 last_saved) (\<lambda>last_saved2.
               cm_bind (nv_emit env (Ev_progress moved2 sz)) (\<lambda>_.
               cm_bind (nv_tick env moved2 (Some rtt) False) (\<lambda>_.
               native_stream env j sz rtt broken chunks d2 cursor2 moved2 last_saved2)))))"

definition download_sequential ::
  "('e, 's, 'n) native_env \<Rightarrow> native_job \<Rightarrow> nat \<Rightarrow> nat \<Rightarrow> ('s, 'n, nat) nm" where
  "download_sequential env j start sz =
     cm_bind (range_request env j start sz) (\<lambda>((reply, broken), rtt).
     cm_bind (native_stream env j sz rtt broken (rp_body reply) (decompressor_new (native_format env reply))
                start 0 0) (\<lambda>(d, cursor, moved).
     case decompress_finish (ne_zrip env) d of
       Inl e \<Rightarrow> cm_fail (decompress_text e)
     | Inr (out, _) \<Rightarrow>
         if out = [] then cm_ret moved
         else cm_bind (write_data_at env j cursor out) (\<lambda>_. cm_ret (sat_add moved (length out)))))"

subsection \<open>A file\<close>

text \<open>\<open>OpenOptions\<close> with \<open>create\<close> and without \<open>truncate\<close>.\<close>

definition fs_open_create :: "path \<Rightarrow> fsys \<Rightarrow> io_error + nat \<times> fsys" where
  "fs_open_create p fs =
     res_bind (fs_walk fs True p) (\<lambda>q.
       case fs_node fs q of
         None \<Rightarrow> Inr (new_file fs q)
       | Some (NFile i) \<Rightarrow> Inr (i, fs)
       | Some (NDir _) \<Rightarrow> Inl eisdir
       | Some (NSymlink _) \<Rightarrow> Inl eloop)"

definition fs_set_len :: "nat \<Rightarrow> nat \<Rightarrow> fsys \<Rightarrow> fsys" where
  "fs_set_len i n fs =
     fs\<lparr> fs_data := (fs_data fs)(i := take n (fs_data fs i) @ replicate (n - fs_len fs i) 0),
         fs_mtime := (fs_mtime fs)(i := fs_now fs) \<rparr>"

definition local_length :: "('e, 's, 'n) native_env \<Rightarrow> path \<Rightarrow> ('s, 'n, nat) nm" where
  "local_length env dest =
     cm_bind (nv_file env (fs_silent (\<lambda>fs. res_bind (fs_stat fs True dest) (\<lambda>nd.
        Inr (case nd of NFile i \<Rightarrow> fs_len fs i | _ \<Rightarrow> ne_dir_len env))))) (\<lambda>r.
     cm_ret (case r of Inl _ \<Rightarrow> 0 | Inr n \<Rightarrow> n))"

text \<open>A resume only counts for the same ETag, unless a restart is forced.\<close>

definition resume_start :: "bool \<Rightarrow> string \<Rightarrow> nat \<Rightarrow> nat \<Rightarrow> resume_state option \<Rightarrow> nat" where
  "resume_start force_restart etag sz local_len saved =
     (case saved of
        Some st \<Rightarrow> if \<not> force_restart \<and> rs_etag st = etag \<and> rs_offset st \<le> sz \<and> rs_offset st \<le> local_len
                  then rs_offset st else 0
      | None \<Rightarrow> 0)"

text \<open>One batch: the window and the chunk size are read anew.\<close>

definition native_batch_step ::
  "('e, 's, 'n) native_env \<Rightarrow> native_job \<Rightarrow> nat \<Rightarrow> nat \<times> nat \<Rightarrow> ('s, 'n, nat \<times> nat + nat) nm" where
  "native_batch_step env j sz = (\<lambda>(cursor, moved).
     if sz \<le> cursor then cm_ret (Inr moved)
     else cm_bind (cm_get (\<lambda>s. max (pm_download_window (te_params (cl_tune s))) 1)) (\<lambda>window.
          cm_bind (cm_get (\<lambda>s. max (pm_chunk_size (te_params (cl_tune s))) 1)) (\<lambda>chunk_sz.
          cm_bind (download_batch env j cursor (sat_add cursor (batch_span (sz - cursor) chunk_sz window)) sz moved
                     chunk_sz) (\<lambda>got.
          if got = 0 then cm_ret (Inr moved)
          else cm_bind (save_resume_ignored env (nj_dest j) (nj_etag j) (sat_add cursor got)) (\<lambda>_.
               cm_ret (Inl (sat_add cursor got, sat_add moved got)))))))"

definition native_stopped :: "string \<Rightarrow> nat \<Rightarrow> nat \<Rightarrow> libfw_error" where
  "native_stopped remote computed sz =
     Err_Protocol (''download of `'' @ remote @ ''` stopped at '' @ show_nat computed @ '' bytes, expected '' @
       show_nat sz)"

text \<open>From the open file on: the bytes, the final length, and the completed offset.\<close>

definition fill_file :: "('e, 's, 'n) native_env \<Rightarrow> native_job \<Rightarrow> nat \<Rightarrow> nat \<Rightarrow> ('s, 'n, nat) nm" where
  "fill_file env j start sz =
     cm_bind (if native_should_chunked sz start then cm_while (native_batch_step env j sz) (start, 0)
              else download_sequential env j start sz) (\<lambda>moved.
     cm_bind (nv_storage env (''truncate '' @ ne_display env (nj_dest j)) (\<lambda>fs. (Inr (), fs_set_len (nj_file j) sz fs))) (\<lambda>_.
     cm_bind (nv_storage env (''flush '' @ ne_display env (nj_dest j)) (fs_silent (\<lambda>_. Inr ()))) (\<lambda>_.
     let computed = sat_add start moved in
     if computed \<noteq> sz then cm_fail (native_stopped (nj_remote j) computed sz)
     else cm_bind (save_resume_ignored env (nj_dest j) (nj_etag j) sz) (\<lambda>_.
          cm_bind (nv_emit env (Ev_file_done (nj_remote j) moved)) (\<lambda>_. cm_ret moved)))))"

definition download_once ::
  "('e, 's, 'n) native_env \<Rightarrow> string \<Rightarrow> path \<Rightarrow> int \<Rightarrow> bool \<Rightarrow> ('s, 'n, nat) nm" where
  "download_once env remote dest level force_restart =
     cm_bind (native_fetch_meta env remote) (\<lambda>(etag, sz).
     cm_bind (native_load_resume env dest) (\<lambda>saved.
     cm_bind (local_length env dest) (\<lambda>local_len.
     let start = resume_start force_restart etag sz local_len saved in
     cm_bind (cm_when (0 < start) (nv_log env (''resuming `'' @ remote @ ''` at byte '' @ show_nat start @
                '' of '' @ show_nat sz))) (\<lambda>_.
     cm_bind (nv_emit env (Ev_file_start remote sz)) (\<lambda>_.
     if start = sz then cm_bind (nv_emit env (Ev_file_done remote 0)) (\<lambda>_. cm_ret 0)
     else cm_bind (native_make_parent env dest) (\<lambda>_.
          cm_bind (nv_storage env (''open '' @ ne_display env dest) (fs_change (fs_open_create dest))) (\<lambda>i.
          fill_file env \<lparr> nj_remote = remote, nj_etag = etag, nj_level = level, nj_file = i, nj_dest = dest \<rparr>
            start sz)))))))"

definition native_download_file :: "('e, 's, 'n) native_env \<Rightarrow> string \<Rightarrow> path \<Rightarrow> ('s, 'n, nat) nm" where
  "native_download_file env remote dest =
     cm_bind (cm_lift (validate_relative remote)) (\<lambda>_.
     cm_bind (prepare_transfer env Download_kind) (\<lambda>params.
     cm_bind (cm_attempt (download_once env remote dest (pm_compress_level params) False)) (\<lambda>first.
     cm_bind (case first of
                Inl e \<Rightarrow>
                  if is_restart_err e
                  then cm_bind (nv_log env (''`'' @ remote @ ''` changed or shrank on the server; restarting from byte 0''))
                         (\<lambda>_. cm_attempt (download_once env remote dest (pm_compress_level params) True))
                  else cm_ret first
              | Inr _ \<Rightarrow> cm_ret first) (\<lambda>outcome.
     cm_bind (finish_transfer env (case outcome of Inl _ \<Rightarrow> False | Inr _ \<Rightarrow> True)) (\<lambda>_.
     cm_lift outcome)))))"

subsection \<open>A folder\<close>

definition native_download_folder :: "('e, 's, 'n) native_env \<Rightarrow> string \<Rightarrow> path \<Rightarrow> ('s, 'n, nat) nm" where
  "native_download_folder env dir dest_dir =
     cm_bind (collect_remote_files env dir) (\<lambda>files.
     cm_bind (nv_unordered env files (\<lambda>f. native_download_file env (fe_path f) (join_virtual dest_dir (fe_path f))))
       (\<lambda>results.
     cm_bind (cm_lift (sum_results results 0)) (\<lambda>n.
     cm_bind (nv_emit env (Ev_progress n (entries_total files))) (\<lambda>_. cm_ret n))))"

end
