(* ===== verification/Client_Delivery.thy ===== *)
theory Client_Delivery
  imports Client_Steady Client_Download "HOL-Library.Multiset"
begin

text \<open>
  Contracts of a server and a disk under which the client's downloads are correct: what a reply that
  decodes to its end carries, what a write leaves on the disk, and what a saved offset stands for.
  Proved inside them: a download that is reported as complete has left exactly the file on the disk,
  and with no more failures than retries it completes.
\<close>

subsection \<open>Blocks of a batch\<close>

text \<open>Consecutive non-empty blocks from \<open>a\<close> to \<open>b\<close>.\<close>

fun chain :: "nat \<Rightarrow> (nat \<times> nat) list \<Rightarrow> nat \<Rightarrow> bool" where
  "chain a [] b \<longleftrightarrow> a = b"
| "chain a ((s, e) # bs) b \<longleftrightarrow> s = a \<and> a < e \<and> chain e bs b"

lemma chain_le: "chain a bs b \<Longrightarrow> a \<le> b"
  by (induction a bs b rule: chain.induct) auto

lemma chain_mem: "chain a bs b \<Longrightarrow> (s, e) \<in> set bs \<Longrightarrow> a \<le> s \<and> s < e \<and> e \<le> b"
  by (induction a bs b rule: chain.induct) (auto dest: chain_le)

lemma chain_starts: "chain a bs b \<Longrightarrow> sorted_wrt (<) (map fst bs)"
proof (induction a bs b rule: chain.induct)
  case (2 a s e bs b)
  then show ?case using chain_mem [of e bs b] by fastforce
qed simp

lemma batch_loop_chain:
  assumes "0 < chunk" and "sz + chunk \<le> u64_max" and "offset \<le> sz"
  shows "chain offset (batch_loop n offset sz chunk) (min sz (offset + n * chunk)) \<and>
    length (batch_loop n offset sz chunk) \<le> n \<and>
    (\<forall>(s, e) \<in> set (batch_loop n offset sz chunk). e = min (s + chunk) sz)"
  using assms(3)
proof (induction n arbitrary: offset)
  case (Suc n)
  show ?case
  proof (cases "sz \<le> offset")
    case True
    with Suc.prems show ?thesis by simp
  next
    case False
    then have a: "u64_add offset chunk = offset + chunk" using assms(2) by simp
    let ?fin = "min (offset + chunk) sz"
    have "chain ?fin (batch_loop n ?fin sz chunk) (min sz (?fin + n * chunk))"
      "length (batch_loop n ?fin sz chunk) \<le> n"
      "\<forall>(s, e) \<in> set (batch_loop n ?fin sz chunk). e = min (s + chunk) sz"
      using Suc.IH [of ?fin] by auto
    moreover have "min sz (?fin + n * chunk) = min sz (offset + Suc n * chunk)"
      by (cases "offset + chunk \<le> sz") (simp_all add: min_def)
    ultimately show ?thesis using False assms(1) a by (simp add: Let_def)
  qed
qed simp

text \<open>
  A batch is consecutive from the offset reached, its blocks have the tuned size, and with every
  block of it written the offset is as far as the window allows, or the end of the file.
\<close>

lemma chunk_batch_consecutive:
  assumes "from_off \<le> sz" and "0 < chunk" and "sz + chunk \<le> u64_max"
  shows "chain from_off (chunk_batch from_off sz chunk window) (min sz (from_off + window * chunk)) \<and>
    length (chunk_batch from_off sz chunk window) \<le> window \<and>
    (\<forall>(s, e) \<in> set (chunk_batch from_off sz chunk window). e = min (s + chunk) sz)"
  using batch_loop_chain [OF assms(2,3,1)] assms(1,2) by (simp add: chunk_batch_def min_absorb1)

subsection \<open>Results in order\<close>

lemma btree_insert_keys:
  "sorted_wrt (<) (map fst m) \<Longrightarrow> k \<notin> fst ` set m \<Longrightarrow>
    sorted_wrt (<) (map fst (btree_insert k v m)) \<and> set (btree_insert k v m) = insert (k, v) (set m)"
proof (induction k v m rule: btree_insert.induct)
  case (2 k v k2 v2 m)
  show ?case
  proof (cases "k < k2")
    case True
    with 2 show ?thesis by auto
  next
    case False
    with 2 have "k2 < k" by auto
    with 2 have "sorted_wrt (<) (map fst (btree_insert k v m)) \<and> set (btree_insert k v m) = insert (k, v) (set m)"
      by auto
    moreover have "\<forall>y\<in>set m. k2 < fst y" using 2(2) by auto
    ultimately show ?thesis using \<open>k2 < k\<close> by auto
  qed
qed simp

lemma order_results_Inr:
  assumes "order_results rs m0 = Inr m" and "sorted_wrt (<) (map fst m0)"
    and "list_all2 (\<lambda>x r. \<forall>y. r = Inr y \<longrightarrow> fst y = fst x) ys rs"
    and "distinct (map fst ys)" and "fst ` set ys \<inter> fst ` set m0 = {}"
  shows "sorted_wrt (<) (map fst m) \<and> fst ` set m = fst ` set m0 \<union> fst ` set ys \<and>
    (\<forall>y\<in>set m. y \<in> set m0 \<or> Inr y \<in> set rs)"
  using assms
proof (induction rs m0 arbitrary: ys rule: order_results.induct)
  case (3 s data rtt rs m0)
  then obtain x xs where ys: "ys = x # xs" "fst x = s"
    "list_all2 (\<lambda>x r. \<forall>y. r = Inr y \<longrightarrow> fst y = fst x) xs rs" by (auto simp: list_all2_Cons2)
  have k: "sorted_wrt (<) (map fst (btree_insert s (data, rtt) m0))"
    "set (btree_insert s (data, rtt) m0) = insert (s, data, rtt) (set m0)"
    using btree_insert_keys [of m0 s "(data, rtt)"] 3(3,6) ys by auto
  have "sorted_wrt (<) (map fst m) \<and> fst ` set m = fst ` set (btree_insert s (data, rtt) m0) \<union> fst ` set xs \<and>
      (\<forall>y\<in>set m. y \<in> set (btree_insert s (data, rtt) m0) \<or> Inr y \<in> set rs)"
    using 3(2,5,6) ys k by (intro 3(1)) auto
  then show ?case unfolding k(2) using ys by auto
qed simp_all

lemma sorted_starts_eq:
  assumes "sorted_wrt (<) (xs :: nat list)" and "sorted_wrt (<) ys" and "set xs = set ys"
  shows "xs = ys"
  using assms by (simp add: strict_sorted_iff sorted_distinct_set_unique)

text \<open>With every result in, the chunks come out in the order of the batch.\<close>

lemma order_results_batch:
  fixes G :: "nat \<times> nat \<Rightarrow> bytes \<times> f64 \<Rightarrow> bool"
  assumes "order_results rs [] = Inr m" and "sorted_wrt (<) (map fst batch)" and "mset ys = mset batch"
    and "list_all2 (\<lambda>x r. \<forall>y. r = Inr y \<longrightarrow> fst y = fst x \<and> G x (snd y)) ys rs"
  shows "list_all2 (\<lambda>x y. fst y = fst x \<and> G x (snd y)) batch m"
proof -
  have d: "distinct (map fst batch)" using assms(2) by (simp add: strict_sorted_iff)
  have d2: "distinct (map fst ys)" using d assms(3) by (metis mset_map mset_eq_imp_distinct_iff)
  have st: "set ys = set batch" using assms(3) by (rule mset_eq_setD)
  have "list_all2 (\<lambda>x r. \<forall>y. r = Inr y \<longrightarrow> fst y = fst x) ys rs"
    using assms(4) by (rule list_all2_mono) blast
  from order_results_Inr [OF assms(1) _ this d2]
  have m: "sorted_wrt (<) (map fst m)" "fst ` set m = fst ` set batch" "\<forall>y\<in>set m. Inr y \<in> set rs"
    by (simp_all add: st)
  have e: "map fst m = map fst batch" using m(1,2) assms(2) by (intro sorted_starts_eq) simp_all
  have "G x (snd y)" if xy: "(x, y) \<in> set (zip batch m)" for x y
  proof -
    from xy have y: "y \<in> set m" by (rule set_zip_rightD)
    then have "Inr y \<in> set rs" using m(3) by blast
    then obtain i where i: "i < length rs" "rs ! i = Inr y" by (metis in_set_conv_nth)
    have l: "length ys = length rs" using assms(4) by (rule list_all2_lengthD)
    have "\<forall>y. rs ! i = Inr y \<longrightarrow> fst y = fst (ys ! i) \<and> G (ys ! i) (snd y)"
      using list_all2_nthD2 [OF assms(4) i(1)] .
    then have g: "fst y = fst (ys ! i)" "G (ys ! i) (snd y)" "i < length ys"
      using i l by simp_all
    have "fst y = fst x" using xy e by (metis in_set_zip nth_map fst_conv snd_conv)
    moreover have "x \<in> set batch" using xy by (rule set_zip_leftD)
    ultimately have "ys ! i = x"
      using g(1,3) st d by (metis eq_key_imp_eq_value nth_mem prod.collapse)
    with g(2) show ?thesis by simp
  qed
  moreover have "list_all2 (\<lambda>x y. fst y = fst x) batch m"
    using e by (metis (mono_tags, lifting) length_map list_all2_all_nthI nth_map)
  ultimately show ?thesis by (auto simp: list_all2_iff)
qed

subsection \<open>Tasks\<close>

lemma mset_arrange: "mset (arrange perm xs) = mset xs"
proof (cases "sort perm = [0..<length xs]")
  case True
  then have "mset perm = mset [0..<length xs]" by (metis mset_sort)
  then have "mset (map ((!) xs) perm) = mset (map ((!) xs) [0..<length xs])" by (metis mset_map)
  with True show ?thesis by (simp add: arrange_def map_nth)
qed (simp add: arrange_def)

lemma sat_tasks:
  assumes "\<And>x. x \<in> set xs \<Longrightarrow> cm_sat I (f x) (\<lambda>y s. G x y \<and> I s) (\<lambda>_. I) N"
  shows "cm_sat I (cm_tasks xs f) (\<lambda>rs s. list_all2 (\<lambda>x r. \<forall>y. r = Inr y \<longrightarrow> G x y) xs rs \<and> I s) E N"
  using assms
proof (induction xs)
  case (Cons x xs)
  note task = sat_attempt [OF Cons.prems, of x]
  have "cm_sat I (cm_bind (cm_attempt (f x)) (\<lambda>r. cm_bind (cm_tasks xs f) (\<lambda>rs. cm_ret (r # rs))))
      (\<lambda>rs s. list_all2 (\<lambda>x r. \<forall>y. r = Inr y \<longrightarrow> G x y) (x # xs) rs \<and> I s) E N"
  proof (rule sat_bind [OF task])
    fix r
    have "cm_sat (\<lambda>s. (\<forall>y. r = Inr y \<longrightarrow> G x y) \<and> I s) (cm_bind (cm_tasks xs f) (\<lambda>rs. cm_ret (r # rs)))
      (\<lambda>rs s. list_all2 (\<lambda>x r. \<forall>y. r = Inr y \<longrightarrow> G x y) (x # xs) rs \<and> I s) E N"
      by (rule sat_fact, rule sat_bind [OF Cons.IH]) (auto intro!: sat_ret simp: Cons.prems)
    then show "cm_sat (\<lambda>s. case r of Inl e \<Rightarrow> I s | Inr y \<Rightarrow> G x y \<and> I s) (cm_bind (cm_tasks xs f) (\<lambda>rs. cm_ret (r # rs)))
      (\<lambda>rs s. list_all2 (\<lambda>x r. \<forall>y. r = Inr y \<longrightarrow> G x y) (x # xs) rs \<and> I s) E N"
      by (rule sat_pre) (auto split: sum.splits)
  qed simp
  then show ?case by simp
qed (simp add: sat_ret)

text \<open>All tasks of a window, in whatever order they complete.\<close>

lemma sat_unordered:
  assumes "quiet_for env C p"
    and "\<And>x. x \<in> set xs \<Longrightarrow> cm_sat (in_order p) (f x) (\<lambda>y s. G x y \<and> in_order p s) (\<lambda>_. in_order p) N"
    and "\<And>s. in_order p s \<Longrightarrow> E s" and "\<And>s. in_order p s \<Longrightarrow> N s"
  shows "cm_sat (in_order p) (cm_unordered env xs f)
    (\<lambda>rs s. (\<exists>ys. mset ys = mset xs \<and> list_all2 (\<lambda>x r. \<forall>y. r = Inr y \<longrightarrow> G x y) ys rs) \<and> in_order p s) (\<lambda>_. E) N"
  unfolding cm_unordered_def
proof (rule sat_bind)
  show "cm_sat (in_order p) (cm_world (\<lambda>w. let (perm, w2) = ce_order env (length xs) w in (Inr perm, w2)))
      (\<lambda>_. in_order p) (\<lambda>_. E) N"
    by (rule sat_conseq [OF keeps_sat [OF keeps_world]])
      (use assms(1) in \<open>auto simp: quiet_for_def case_prod_beta intro: assms(3,4)\<close>)
  fix perm
  have "cm_sat (in_order p) (cm_tasks (arrange perm xs) f)
      (\<lambda>rs s. list_all2 (\<lambda>x r. \<forall>y. r = Inr y \<longrightarrow> G x y) (arrange perm xs) rs \<and> in_order p s) (\<lambda>_. E) N"
    by (rule sat_tasks) (use assms(2) in auto)
  then show "cm_sat (in_order p) (cm_tasks (arrange perm xs) f)
      (\<lambda>rs s. (\<exists>ys. mset ys = mset xs \<and> list_all2 (\<lambda>x r. \<forall>y. r = Inr y \<longrightarrow> G x y) ys rs) \<and> in_order p s) (\<lambda>_. E) N"
    by (rule sat_conseq) (use mset_arrange in blast)+
qed

subsection \<open>The contract\<close>

definition is_write :: "callback \<Rightarrow> bool" where
  "is_write c \<longleftrightarrow> (case c of Call_write_chunk _ _ _ \<Rightarrow> True | _ \<Rightarrow> False)"

text \<open>What a body comes to when it is taken to its end.\<close>

definition decodes :: "('e, 's, 'w) client_env \<Rightarrow> http_reply \<Rightarrow> bytes \<Rightarrow> bool" where
  "decodes env reply data \<longleftrightarrow>
     feed_all (ce_zrip env) (decompressor_new (reply_format reply)) (filter (\<lambda>c. c \<noteq> []) (rp_body reply)) = Inr data"

text \<open>A saved offset is that of the bytes on the disk, if its ETag is still the file's.\<close>

definition saved_etag :: "js_value \<Rightarrow> string" where
  "saved_etag v = (case Option.bind (js_get v ''etag'') js_as_string of Some e \<Rightarrow> e | None \<Rightarrow> [])"

text \<open>ETags as the server writes them.\<close>

definition etag_text :: "string \<Rightarrow> bool" where
  "etag_text t \<longleftrightarrow> t = CHR 0x22 # butlast (tl t) @ [CHR 0x22] \<and> list_all is_hex (butlast (tl t))"

definition saved_fine :: "bytes \<Rightarrow> string \<Rightarrow> js_value \<Rightarrow> bytes \<Rightarrow> bool" where
  "saved_fine D tag v disk \<longleftrightarrow> (\<forall>off. safe_u64 (js_field v ''offset'') ''offset'' = Inr off \<longrightarrow> 0 < off \<longrightarrow>
     (saved_etag v \<noteq> [] \<longrightarrow> etag_text (saved_etag v)) \<and> (off = length D \<longrightarrow> disk = D) \<and>
     (off < length D \<and> saved_etag v = tag \<longrightarrow> off \<le> length disk \<and> take off disk = take off D))"

text \<open>The disk holds the first \<open>o\<close> bytes of the file; and: it holds just these, once something was written.\<close>

definition intact :: "bytes \<Rightarrow> nat \<Rightarrow> bytes \<Rightarrow> bool" where
  "intact D n X \<longleftrightarrow> n \<le> length X \<and> take n X = take n D"

definition reached :: "bytes \<Rightarrow> nat \<Rightarrow> nat \<Rightarrow> bytes \<Rightarrow> bool" where
  "reached D start c X \<longleftrightarrow> intact D c X \<and> (c = start \<or> X = take c D)"

lemma intact_le: "intact D n X \<Longrightarrow> m \<le> n \<Longrightarrow> intact D m X"
  unfolding intact_def by (metis le_trans min.absorb1 take_take)

lemma intact_write: "intact D c X \<Longrightarrow> n \<le> c \<Longrightarrow> intact D n (take c X @ t)"
proof -
  assume a: "intact D c X" "n \<le> c"
  have "length (take c X) = c" using a(1) unfolding intact_def by (metis length_take min.absorb2)
  then have l: "n \<le> length (take c X)" using a(2) by simp
  have "take n (take c X @ t) = take n (take c X)" unfolding take_append using l by simp
  also have "\<dots> = take n X" using a(2) by (metis min_absorb1 take_take)
  finally have "take n (take c X @ t) = take n X" .
  moreover have "take n X = take n D" using intact_le [OF a] by (simp add: intact_def)
  moreover have "n \<le> length (take c X @ t)" using l unfolding length_append by (rule trans_le_add1)
  ultimately show ?thesis unfolding intact_def by simp
qed

lemma reached_write:
  assumes "intact D c X" and "c < e" and "e \<le> length D"
  shows "reached D start e (take c X @ block_of D c e)"
proof -
  have "take c X @ block_of D c e = take e D"
    using assms by (simp add: intact_def block_of_def) (metis add_diff_inverse_nat less_imp_le_nat not_less take_add)
  with assms(3) show ?thesis by (simp add: reached_def intact_def)
qed

text \<open>The disk begins with \<open>X\<close>; it holds nothing else, once something was written.\<close>

definition laid :: "bytes \<Rightarrow> bool \<Rightarrow> bytes \<Rightarrow> bool" where
  "laid X fresh Y \<longleftrightarrow> (length X \<le> u64_max \<longrightarrow> length X \<le> length Y \<and> take (length X) Y = X \<and> (fresh \<or> Y = X))"

abbreviation capped :: "bytes \<Rightarrow> nat" where
  "capped X \<equiv> min (length X) u64_max"

lemma capped_append: "sat_add (capped X) (length Y) = capped (X @ Y)"
  by (simp add: sat_add_def min_def)

lemma laid_write: "laid X fresh Y \<Longrightarrow> length X \<le> u64_max \<Longrightarrow> laid (X @ data) False (take (capped X) Y @ data)"
  by (auto simp: laid_def min_absorb1)

locale delivery_service =
  fixes env :: "('e, 's, 'w) client_env" and j :: download_job and fl :: file_entry and D :: bytes
    and tag :: string and ok :: "'w \<Rightarrow> bool" and unopened :: "'w \<Rightarrow> bool" and view :: "'w \<Rightarrow> bytes"
  assumes file_size: "fe_size fl = length D"
    and not_empty: "D \<noteq> []"
    and small: "length D + 16777216 \<le> u64_max"
    and quiet: "quiet_for env (\<lambda>c. \<not> is_write c) (\<lambda>w. ok w \<and> view w = v)"
    and writes: "ok w \<Longrightarrow> ce_call env (Call_write_chunk (fe_path fl) off data) w = (a, w2) \<Longrightarrow>
      ok w2 \<and>
      (off \<le> length (view w) \<longrightarrow>
        (\<exists>t. view w2 = take off (view w) @ t \<and> (a = Inr () \<longrightarrow> t = data)))"
    and opens: "ok w \<Longrightarrow> unopened w \<Longrightarrow> ce_call env (Call_file_start (fe_path fl) (fe_size fl)) w = (a, w2) \<Longrightarrow> unopened w2"
    and load: "ok w \<Longrightarrow> unopened w \<Longrightarrow> ce_load_state env ''download'' (fe_path fl) w = (q, w2) \<Longrightarrow>
      ok w2 \<and> view w2 = view w \<and> (\<forall>x. q = Inr (Some x) \<longrightarrow> saved_fine D tag x (view w))"
    and head: "ok w \<Longrightarrow>
      ce_fetch env (get_request env j ''HEAD'' (fe_path fl) (auth_headers (dj_token j) False None))
        (cg_timeout_ms (dj_config j)) w = (r, w2) \<Longrightarrow>
      ok w2 \<and> view w2 = view w \<and>
      (\<forall>reply broken. r = Inr (reply, broken) \<longrightarrow> rp_status reply = 200 \<longrightarrow>
        response_etag reply = Some tag \<and> content_length reply = Some (length D))"
    and range: "ok w \<Longrightarrow> start < e \<Longrightarrow> e \<le> length D \<Longrightarrow>
      ce_fetch env (chunk_request env j (fe_path fl) tag start e) (cg_timeout_ms (dj_config j)) w = (r, w2) \<Longrightarrow>
      ok w2 \<and> view w2 = view w \<and>
      (\<forall>reply data. r = Inr (reply, None) \<longrightarrow> rp_status reply = 206 \<longrightarrow> decodes env reply data \<longrightarrow>
        length data = e - start \<longrightarrow> data = block_of D start e)"
    and rest: "ok w \<Longrightarrow> off < length D \<Longrightarrow> off = 0 \<or> etag_text t \<Longrightarrow>
      ce_fetch env (tail_request env j (fe_path fl) t off) (cg_timeout_ms (dj_config j)) w = (r, w2) \<Longrightarrow>
      ok w2 \<and> view w2 = view w \<and>
      (\<forall>reply broken. r = Inr (reply, broken) \<longrightarrow> rp_status reply = 206 \<longrightarrow>
        (off = 0 \<or> t = tag) \<and> (case content_range_start reply of Some n \<Rightarrow> n | None \<Rightarrow> off) = off) \<and>
      (\<forall>reply data. r = Inr (reply, None) \<longrightarrow> decodes env reply data \<longrightarrow>
        (rp_status reply = 200 \<longrightarrow> data = D) \<and> (rp_status reply = 206 \<longrightarrow> data = drop off D))"
begin

subsection \<open>Safety\<close>

text \<open>States whose disk is as \<open>P\<close> says.\<close>

definition on_disk :: "(bytes \<Rightarrow> bool) \<Rightarrow> ('s, 'w) client \<Rightarrow> bool" where
  "on_disk P s \<longleftrightarrow> in_order (\<lambda>w. ok w \<and> P (view w)) s"

abbreviation disk_is :: "(bytes \<Rightarrow> bool) \<Rightarrow> 'w \<Rightarrow> bool" where
  "disk_is P \<equiv> \<lambda>w. ok w \<and> P (view w)"

lemma on_disk_mono: "on_disk P s \<Longrightarrow> (\<And>x. P x \<Longrightarrow> Q x) \<Longrightarrow> on_disk Q s"
  by (auto simp: on_disk_def in_order_def)

lemma quiet_disk: "quiet_for env (\<lambda>c. \<not> is_write c) (disk_is P)"
  using quiet by (fastforce simp: quiet_for_def)

lemma not_write [simp]:
  "\<not> is_write (Call_progress n m)" "\<not> is_write (Call_log t)" "\<not> is_write (Call_save_state a b c)"
  "\<not> is_write (Call_file_start a n)" "\<not> is_write (Call_file_completed a)" "\<not> is_write (save_download env p t n)"
  by (simp_all add: is_write_def save_download_def)

text \<open>A step that keeps what is on the disk; its error need only keep less.\<close>

lemma step_sat:
  assumes "cm_keeps (disk_is P) m" and "\<And>x. P x \<Longrightarrow> E x"
  shows "cm_sat (on_disk P) m (\<lambda>_. on_disk P) (\<lambda>_. on_disk E) (\<lambda>_. True)"
  unfolding on_disk_def
  by (rule sat_conseq [OF keeps_sat [OF assms(1)]]) (use assms(2) in \<open>auto simp: in_order_def\<close>)

lemma step_bind:
  assumes "cm_keeps (disk_is P) m" and "\<And>x. P x \<Longrightarrow> E x"
    and "\<And>x. cm_sat (on_disk P) (f x) Q (\<lambda>_. on_disk E) (\<lambda>_. True)"
  shows "cm_sat (on_disk P) (cm_bind m f) Q (\<lambda>_. on_disk E) (\<lambda>_. True)"
  using step_sat [OF assms(1,2)] assms(3) by (rule sat_bind)

lemmas disk_rules = keeps_rules quiet_for_keeps(1,4) [OF quiet_disk]
  quiet_for_keeps(2,3) [OF quiet_disk not_write(1)] quiet_for_keeps(2,3) [OF quiet_disk not_write(2)]
  quiet_for_keeps(2,3) [OF quiet_disk not_write(4)] quiet_for_keeps(2,3) [OF quiet_disk not_write(5)]
  quiet_for_keeps(2,3) [OF quiet_disk not_write(6)]
  quiet_for_keeps(5,6) [OF quiet_disk not_write(1)]

lemma seed_keeps: "cm_keeps (disk_is P) (seed_progress env n)"
  unfolding seed_progress_def by (intro disk_rules)

lemma save_keeps: "cm_keeps (disk_is P) (save_progress env path t n m)"
  unfolding save_progress_def by (intro disk_rules)

lemma finish_keeps: "cm_keeps (disk_is P) (finish_download env f t n)"
  unfolding finish_download_def by (intro disk_rules)

lemma retry_keeps: "cm_keeps (disk_is P) (download_retry env j f off t attempts e)"
  unfolding download_retry_def by (intro disk_rules)

subsubsection \<open>A range\<close>

lemma collect_loop_sat:
  "cm_sat (on_disk P) (collect_loop env chunks broken d acc n)
    (\<lambda>(n2, r) s. (\<forall>acc2 d2. r = Inr (acc2, d2) \<longrightarrow> broken = None \<and>
        (\<exists>out. feed (ce_zrip env) d (filter (\<lambda>c. c \<noteq> []) chunks) = Inr (out, d2) \<and> acc2 = acc @ out)) \<and> on_disk P s)
    (\<lambda>_. on_disk P) (\<lambda>_. True)"
proof (induction chunks arbitrary: d acc n)
  case Nil
  show ?case by (auto intro!: sat_ret split: option.splits)
next
  case (Cons c cs)
  show ?case
  proof (cases "c = []")
    case True
    with Cons show ?thesis by simp
  next
    case False
    show ?thesis
    proof (cases "decompress (ce_zrip env) d c")
      case (Inl e)
      with False show ?thesis by (auto intro!: sat_ret)
    next
      case (Inr q)
      then obtain out d2 where q: "decompress (ce_zrip env) d c = Inr (out, d2)" by (cases q) auto
      have "cm_sat (on_disk P) (collect_loop env cs broken d2 (acc @ out) n2)
          (\<lambda>(n2, r) s. (\<forall>acc2 d3. r = Inr (acc2, d3) \<longrightarrow> broken = None \<and>
            (\<exists>out. feed (ce_zrip env) d (filter (\<lambda>c. c \<noteq> []) (c # cs)) = Inr (out, d3) \<and> acc2 = acc @ out)) \<and> on_disk P s)
          (\<lambda>_. on_disk P) (\<lambda>_. True)" for n2
        by (rule sat_conseq [OF Cons [of d2 "acc @ out"]]) (use False q in auto)
      then show ?thesis
        using False q by (cases "out = []") (auto intro!: step_bind disk_rules sat_sum sat_ret)
    qed
  qed
qed

lemma collect_chunk_sat:
  "cm_sat (on_disk P) (collect_chunk env reply broken)
    (\<lambda>(n2, r) s. (\<forall>data. r = Inr data \<longrightarrow> broken = None \<and> decodes env reply data) \<and> on_disk P s)
    (\<lambda>_. on_disk P) (\<lambda>_. True)"
  unfolding collect_chunk_def
  by (rule sat_bind [OF collect_loop_sat])
    (auto intro!: sat_ret simp: decodes_def feed_all_def res_bind_Inr map_err_Inr split: prod.splits)

text \<open>A request: the reply with what is known of it.\<close>

lemma fetch_sat:
  assumes "\<And>w r w2. ok w \<Longrightarrow> ce_fetch env req (cg_timeout_ms (dj_config j)) w = (r, w2) \<Longrightarrow>
    ok w2 \<and> view w2 = view w \<and> (\<forall>reply broken. r = Inr (reply, broken) \<longrightarrow> A reply broken)"
  shows "cm_sat (on_disk P) (cm_world (ce_fetch env req (cg_timeout_ms (dj_config j))))
    (\<lambda>(reply, broken) s. A reply broken \<and> on_disk P s) (\<lambda>_. on_disk P) N"
proof (rule sat_world)
  fix s :: "('s, 'w) client" and r w
  assume "on_disk P s" "ce_fetch env req (cg_timeout_ms (dj_config j)) (cl_world s) = (r, w)"
  with assms [of "cl_world s" r w] show "case r of Inl e \<Rightarrow> on_disk P (s\<lparr> cl_world := w \<rparr>)
      | Inr x \<Rightarrow> (case x of (reply, broken) \<Rightarrow> \<lambda>s. A reply broken \<and> on_disk P s) (s\<lparr> cl_world := w \<rparr>)"
    by (auto simp: on_disk_def in_order_def split: sum.splits)
qed

lemma attempt_fetch_sat:
  assumes "\<And>w r w2. ok w \<Longrightarrow> ce_fetch env req (cg_timeout_ms (dj_config j)) w = (r, w2) \<Longrightarrow>
    ok w2 \<and> view w2 = view w \<and> (\<forall>reply broken. r = Inr (reply, broken) \<longrightarrow> A reply broken)"
  shows "cm_sat (on_disk P) (cm_attempt (cm_world (ce_fetch env req (cg_timeout_ms (dj_config j)))))
    (\<lambda>r s. (\<forall>reply broken. r = Inr (reply, broken) \<longrightarrow> A reply broken) \<and> on_disk P s) E N"
  by (rule sat_conseq [OF sat_attempt [OF fetch_sat [OF assms]]]) (auto split: sum.splits)

lemma chunk_once_sat:
  assumes "start < e" and "e \<le> length D"
  shows "cm_sat (on_disk P) (download_chunk_once env j (fe_path fl) tag start e)
    (\<lambda>(n, r) s. (\<forall>data rtt. r = Inr (data, rtt) \<longrightarrow> length data = e - start \<longrightarrow> data = block_of D start e) \<and> on_disk P s)
    (\<lambda>_. on_disk P) (\<lambda>_. True)"
  unfolding download_chunk_once_def Let_def
  apply (rule step_bind, intro disk_rules, assumption)
  apply (rule sat_bind, rule attempt_fetch_sat [where A = "\<lambda>reply broken. \<forall>data. broken = None \<longrightarrow>
      rp_status reply = 206 \<longrightarrow> decodes env reply data \<longrightarrow> length data = e - start \<longrightarrow> data = block_of D start e"])
  subgoal using range [OF _ assms] by blast
  subgoal for t0 r
    apply (rule sat_fact, rule sat_sum)
    subgoal by (auto intro!: sat_ret)
    subgoal for q
      apply (cases q, simp only: prod.case)
      subgoal for reply broken
        apply (rule step_bind, intro disk_rules, assumption)
        apply (rule sat_if)
        subgoal by (rule sat_bind [OF collect_chunk_sat]) (auto intro!: sat_ret simp: res_bind_Inr split: prod.splits)
        subgoal by (auto intro!: sat_ret)
        done
      done
    done
  done

lemma chunk_retry_sat:
  assumes "start < e" and "e \<le> length D"
  shows "cm_sat (on_disk P) (download_chunk_with_retry env j (fe_path fl) tag start e attempts)
    (\<lambda>(data, rtt) s. data = block_of D start e \<and> on_disk P s) (\<lambda>_. on_disk P) (\<lambda>_. True)"
proof (induction "cg_max_retries (dj_config j) - attempts" arbitrary: attempts rule: less_induct)
  case less
  have u: "u64_sub e start = e - start" using assms small by simp
  show ?case
    apply (subst download_chunk_with_retry.simps)
    apply (rule step_bind, intro disk_rules, assumption)
    apply (rule sat_bind [OF chunk_once_sat [OF assms]])
    subgoal for x y
      apply (cases y, simp only: prod.case)
      apply (rule sat_fact, rule sat_sum)
      subgoal by (intro sat_if sat_fail step_bind disk_rules less) auto
      subgoal for n r q
        apply (cases q, simp only: prod.case u)
        apply (rule sat_if)
        subgoal by (intro sat_fail) simp
        subgoal by (rule step_bind, intro disk_rules) (auto intro!: sat_ret)
        done
      done
    done
qed

subsubsection \<open>Batches\<close>

lemma write_sat:
  assumes "c < e" and "e \<le> length D" and "n \<le> c"
  shows "cm_sat (on_disk (intact D c)) (cm_call env (Call_write_chunk (fe_path fl) c (block_of D c e)))
    (\<lambda>_. on_disk (reached D start e)) (\<lambda>_. on_disk (intact D n)) (\<lambda>_. True)"
  unfolding cm_call_def
proof (rule sat_world)
  fix s :: "('s, 'w) client" and r w
  assume a: "on_disk (intact D c) s" "ce_call env (Call_write_chunk (fe_path fl) c (block_of D c e)) (cl_world s) = (r, w)"
  then have o: "ok (cl_world s)" "intact D c (view (cl_world s))" "engine_ok (cl_tune s)"
    by (simp_all add: on_disk_def in_order_def)
  obtain t where t: "ok w" "view w = take c (view (cl_world s)) @ t"
    "r = Inr () \<Longrightarrow> t = block_of D c e"
    using writes [OF o(1) a(2)] o(2) by (auto simp: intact_def)
  have "intact D n (view w)" unfolding t(2) using o(2) assms(3) by (rule intact_write)
  moreover have "reached D start e (view w)" if "r = Inr ()"
    unfolding t(2) t(3) [OF that] using o(2) assms(1,2) by (rule reached_write)
  ultimately show "case r of Inl e \<Rightarrow> on_disk (intact D n) (s\<lparr> cl_world := w \<rparr>)
      | Inr x \<Rightarrow> on_disk (reached D start e) (s\<lparr> cl_world := w \<rparr>)"
    using t(1) o(3) by (auto simp: on_disk_def split: sum.splits)
qed

lemma reached_intact: "reached D start c X \<Longrightarrow> n \<le> c \<Longrightarrow> intact D n X"
  unfolding reached_def using intact_le by blast

lemma emit_sat:
  assumes "chain c bs b" and "b \<le> length D" and "n \<le> c"
    and "list_all2 (\<lambda>x y. fst y = fst x \<and> fst (snd y) = block_of D (fst x) (snd x)) bs m"
  shows "cm_sat (on_disk (reached D start c)) (emit_chunks env (fe_path fl) tag m c ls)
    (\<lambda>(c2, ls2) s. c2 = b \<and> on_disk (reached D start b) s) (\<lambda>_. on_disk (intact D n)) (\<lambda>_. True)"
  using assms
proof (induction bs arbitrary: m c ls)
  case Nil
  then show ?case by (auto intro!: sat_ret)
next
  case (Cons x bs)
  obtain e where x: "x = (c, e)" "c < e" "chain e bs b" using Cons.prems(1) by (cases x) auto
  obtain rtt m2 where m: "m = (c, block_of D c e, rtt) # m2"
    "list_all2 (\<lambda>x y. fst y = fst x \<and> fst (snd y) = block_of D (fst x) (snd x)) bs m2"
    using Cons.prems(4) x by (auto simp: list_all2_Cons1)
  have e: "e \<le> length D" using chain_le [OF x(3)] Cons.prems(2) by simp
  then have l: "sat_add c (length (block_of D c e)) = e" using x(2) small by (simp add: block_of_def sat_add_def)
  have nx: "n \<le> e" using x(2) Cons.prems(3) by simp
  have "cm_sat (on_disk (reached D start e))
      (cm_bind (save_progress env (fe_path fl) tag e ls) (\<lambda>ls2. cm_bind (cm_tick env (Some rtt) False) (\<lambda>_.
        emit_chunks env (fe_path fl) tag m2 e ls2)))
      (\<lambda>(c2, ls2) s. c2 = b \<and> on_disk (reached D start b) s) (\<lambda>_. on_disk (intact D n)) (\<lambda>_. True)"
    by (intro step_bind save_keeps disk_rules Cons.IH x(3) Cons.prems(2) nx m(2); erule reached_intact [OF _ nx])
  from sat_bind [OF write_sat [OF x(2) e Cons.prems(3)] this]
  show ?case
    unfolding m(1) emit_chunks.simps Let_def l
    by (simp add: x(1)) (rule sat_pre, assumption, erule on_disk_mono, simp add: reached_def)
qed

lemma fetch_batch_sat:
  assumes "chain c batch b" and "b \<le> length D"
  shows "cm_sat (on_disk P) (fetch_batch env j (fe_path fl) tag batch)
    (\<lambda>rs s. (\<forall>m. order_results rs [] = Inr m \<longrightarrow>
        list_all2 (\<lambda>x y. fst y = fst x \<and> fst (snd y) = block_of D (fst x) (snd x)) batch m) \<and> on_disk P s)
    (\<lambda>_. on_disk P) (\<lambda>_. True)"
proof -
  let ?G = "\<lambda>(x :: nat \<times> nat) (y :: nat \<times> bytes \<times> f64). fst y = fst x \<and> fst (snd y) = block_of D (fst x) (snd x)"
  let ?f = "\<lambda>(s, e). cm_bind (download_chunk_with_retry env j (fe_path fl) tag s e 0) (\<lambda>(data, rtt). cm_ret (s, data, rtt))"
  have "cm_sat (on_disk P) (?f x) (\<lambda>y s. ?G x y \<and> on_disk P s) (\<lambda>_. on_disk P) (\<lambda>_. True)" if "x \<in> set batch" for x
  proof -
    obtain s e where x: "x = (s, e)" by force
    with chain_mem [OF assms(1)] that assms(2) have "s < e" "e \<le> length D" by force+
    from sat_bind [OF chunk_retry_sat [OF this]] show ?thesis
      unfolding x prod.case by (rule meta_mp) (auto intro!: sat_ret split: prod.splits)
  qed
  from sat_unordered [OF quiet_disk [of P], where f = ?f and G = ?G and N = "\<lambda>_. True", unfolded on_disk_def [symmetric], OF this]
  have "cm_sat (on_disk P) (fetch_batch env j (fe_path fl) tag batch)
      (\<lambda>rs s. (\<exists>ys. mset ys = mset batch \<and> list_all2 (\<lambda>x r. \<forall>y. r = Inr y \<longrightarrow> ?G x y) ys rs) \<and> on_disk P s)
      (\<lambda>_. on_disk P) (\<lambda>_. True)"
    unfolding fetch_batch_def by simp
  then show ?thesis
    by (rule sat_conseq)
      (use order_results_batch [where G = "\<lambda>x y. fst y = block_of D (fst x) (snd x)", OF _ chain_starts [OF assms(1)]] in blast)+
qed

lemma tuned_chunk:
  "cm_sat (on_disk P) (cm_get (\<lambda>s. max (pm_chunk_size (te_params (cl_tune s))) 1))
    (\<lambda>c s. chunk_fine c \<and> on_disk P s) (\<lambda>_. E) N"
  by (rule sat_get) (metis chunk_fine_tuned in_orderD(2) on_disk_def)

lemma parallel_step_sat:
  assumes "n \<le> start"
  shows "cm_sat (\<lambda>s. start \<le> fst st \<and> fst st \<le> length D \<and> on_disk (reached D start (fst st)) s)
    (parallel_step env j (fe_path fl) tag (length D) st)
    (\<lambda>r s. case r of Inl st2 \<Rightarrow> start \<le> fst st2 \<and> fst st2 \<le> length D \<and> on_disk (reached D start (fst st2)) s
       | Inr c \<Rightarrow> c = length D \<and> on_disk (reached D start (length D)) s)
    (\<lambda>_. on_disk (intact D n)) (\<lambda>_. True)"
proof (cases st)
  case (Pair c ls)
  show ?thesis
    unfolding parallel_step_def Pair prod.case fst_conv
  proof (rule sat_fact, rule sat_fact, rule sat_if)
    assume "c \<le> length D" "length D \<le> c"
    then show "cm_sat (on_disk (reached D start c)) (cm_ret (Inr c))
        (\<lambda>r s. case r of Inl st2 \<Rightarrow> start \<le> fst st2 \<and> fst st2 \<le> length D \<and> on_disk (reached D start (fst st2)) s
           | Inr c \<Rightarrow> c = length D \<and> on_disk (reached D start (length D)) s)
        (\<lambda>_. on_disk (intact D n)) (\<lambda>_. True)" by (auto intro!: sat_ret)
  next
    assume c: "start \<le> c" "c \<le> length D" "\<not> length D \<le> c"
    note keep = reached_intact [OF _ le_trans [OF assms c(1)]]
    show "cm_sat (on_disk (reached D start c))
      (cm_bind (cm_ready env) (\<lambda>_.
          cm_bind (cm_get (\<lambda>s. max (pm_download_window (te_params (cl_tune s))) 1)) (\<lambda>window.
          cm_bind (cm_get (\<lambda>s. max (pm_chunk_size (te_params (cl_tune s))) 1)) (\<lambda>chunk.
          cm_bind (fetch_batch env j (fe_path fl) tag (chunk_batch c (length D) chunk window)) (\<lambda>results.
          case order_results results [] of
            Inl e \<Rightarrow> cm_bind (cm_tick env None True) (\<lambda>_. cm_fail e)
          | Inr ordered \<Rightarrow>
              cm_bind (emit_chunks env (fe_path fl) tag ordered c ls) (\<lambda>st. cm_ret (Inl st)))))))
      (\<lambda>r s. case r of Inl st2 \<Rightarrow> start \<le> fst st2 \<and> fst st2 \<le> length D \<and> on_disk (reached D start (fst st2)) s
           | Inr c \<Rightarrow> c = length D \<and> on_disk (reached D start (length D)) s)
      (\<lambda>_. on_disk (intact D n)) (\<lambda>_. True)"
    proof (rule step_bind, intro disk_rules, erule keep, rule step_bind, intro disk_rules, erule keep,
        rule sat_bind, rule tuned_chunk, rule sat_fact)
      fix window chunk :: nat assume cf: "chunk_fine chunk"
      let ?batch = "chunk_batch c (length D) chunk window"
      obtain b where b: "chain c ?batch b" "b \<le> length D"
        using chunk_batch_consecutive [of c "length D" chunk window] c(2) cf small by (auto simp: chunk_fine_def)
      have "start \<le> b" using chain_le [OF b(1)] c(1) by simp
      note fb = sat_conseq [OF fetch_batch_sat [OF b, of "reached D start c"], where ?P2.0 = "on_disk (reached D start c)"
          and ?E2.0 = "\<lambda>_. on_disk (intact D n)" and ?N2.0 = "\<lambda>_. True"]
      show "cm_sat (on_disk (reached D start c))
        (cm_bind (fetch_batch env j (fe_path fl) tag ?batch) (\<lambda>results.
          case order_results results [] of
            Inl e \<Rightarrow> cm_bind (cm_tick env None True) (\<lambda>_. cm_fail e)
          | Inr ordered \<Rightarrow>
              cm_bind (emit_chunks env (fe_path fl) tag ordered c ls) (\<lambda>st. cm_ret (Inl st))))
        (\<lambda>r s. case r of Inl st2 \<Rightarrow> start \<le> fst st2 \<and> fst st2 \<le> length D \<and> on_disk (reached D start (fst st2)) s
           | Inr c \<Rightarrow> c = length D \<and> on_disk (reached D start (length D)) s)
        (\<lambda>_. on_disk (intact D n)) (\<lambda>_. True)"
        apply (rule sat_bind, rule fb, assumption, assumption, erule on_disk_mono, erule keep, assumption)
        apply (rule sat_fact, rule sat_sum)
        subgoal by (rule step_bind, intro disk_rules, erule keep) (rule sat_fail, erule on_disk_mono, erule keep)
        subgoal for rs m
          by (rule sat_bind, rule emit_sat [OF b le_trans [OF assms c(1)]], simp)
            (use \<open>start \<le> b\<close> b(2) in \<open>auto intro!: sat_ret split: prod.splits\<close>)
        done
    qed
  qed
qed

lemma parallel_loop_sat:
  assumes "n \<le> start" and "start < length D"
  shows "cm_sat (on_disk (intact D start)) (cm_while (parallel_step env j (fe_path fl) tag (length D)) (start, 0))
    (\<lambda>c s. c = length D \<and> on_disk (\<lambda>X. X = D) s) (\<lambda>_. on_disk (intact D n)) (\<lambda>_. True)"
proof -
  have w: "cm_sat (\<lambda>s. start \<le> fst (start, 0::nat) \<and> fst (start, 0::nat) \<le> length D \<and> on_disk (reached D start (fst (start, 0::nat))) s)
      (cm_while (parallel_step env j (fe_path fl) tag (length D)) (start, 0))
      (\<lambda>c s. c = length D \<and> on_disk (reached D start (length D)) s) (\<lambda>_. on_disk (intact D n)) (\<lambda>_. True)"
    by (rule sat_while [OF parallel_step_sat [OF assms(1)]]) simp
  have r: "on_disk (reached D start start) s" if "on_disk (intact D start) s" for s
    using that by (rule on_disk_mono) (simp add: reached_def)
  have e: "on_disk (\<lambda>X. X = D) s" if "on_disk (reached D start (length D)) s" for s
    using that by (rule on_disk_mono) (use assms(2) in \<open>auto simp: reached_def\<close>)
  show ?thesis
    by (rule sat_conseq [OF w]) (simp_all add: r e assms(2) less_imp_le)
qed

text \<open>The ranges of a file, from an offset whose bytes are on the disk.\<close>

lemma parallel_sat:
  assumes "off < length D" and "rtag \<noteq> [] \<or> off = 0" and "rtag = tag \<or> rtag = [] \<or> n = 0" and "n \<le> off"
  shows "cm_sat (on_disk (intact D (if rtag = tag then off else 0)))
    (download_file_parallel env j fl rtag off)
    (\<lambda>(t, sz) s. t = tag \<and> sz = length D \<and> on_disk (\<lambda>X. X = D) s) (\<lambda>_. on_disk (intact D n)) (\<lambda>_. True)"
proof -
  let ?P = "intact D (if rtag = tag then off else 0)"
  let ?start = "if rtag \<noteq> [] \<and> rtag \<noteq> tag then 0 else min off (length D)"
  have st: "?start < length D" "n \<le> ?start" "(if rtag = tag then off else 0) = ?start"
    using assms not_empty by auto
  have w: "cm_sat (on_disk ?P) (cm_while (parallel_step env j (fe_path fl) tag (length D)) (?start, 0))
      (\<lambda>c s. c = length D \<and> on_disk (\<lambda>X. X = D) s) (\<lambda>_. on_disk (intact D n)) (\<lambda>_. True)"
    unfolding st(3) by (rule parallel_loop_sat [OF st(2,1)])
  have keep: "intact D n X" if "?P X" for X using that unfolding st(3) by (rule intact_le) (rule st(2))
  have m: "cm_sat (on_disk ?P) (fetch_meta env j (fe_path fl))
      (\<lambda>x s. x = (tag, length D) \<and> on_disk ?P s) (\<lambda>_. on_disk (intact D n)) (\<lambda>_. True)"
    unfolding fetch_meta_def Let_def
    apply (rule sat_bind, rule sat_conseq, rule fetch_sat [where A = "\<lambda>reply broken. rp_status reply = 200 \<longrightarrow>
        response_etag reply = Some tag \<and> content_length reply = Some (length D)"])
    subgoal using head by blast
         apply (assumption, assumption, erule on_disk_mono, erule keep, assumption)
    subgoal for q
      by (cases q, simp only: prod.case)
        (rule sat_fact, intro sat_if sat_fail sat_ret; (erule on_disk_mono, erule keep)?; simp)
    done
  show ?thesis
    unfolding download_file_parallel_def
    apply (rule sat_bind, rule m)
    subgoal for x
      apply (cases x, simp only: prod.case)
      apply (rule sat_fact)
      apply (simp only: prod.inject Let_def, elim conjE, hypsubst)
      apply (rule sat_if)
      subgoal using not_empty by simp
      subgoal
        apply (rule step_bind, intro disk_rules, erule keep)
        apply (rule step_bind, rule seed_keeps, erule keep)
        apply (rule sat_bind, rule w, rule sat_fact)
        apply (auto intro!: sat_ret)
        done
      done
    done
qed

subsubsection \<open>One request\<close>

lemma write_data_sat:
  "cm_sat (on_disk (laid X fresh)) (write_data env (fe_path fl) (capped X) data)
    (\<lambda>n s. n = capped (X @ data) \<and> on_disk (laid (X @ data) False) s) (\<lambda>_. on_disk (\<lambda>_. True)) (\<lambda>_. True)"
  unfolding write_data_def
proof (rule sat_bind)
  show "cm_sat (on_disk (laid X fresh)) (cm_call env (Call_write_chunk (fe_path fl) (capped X) data))
      (\<lambda>_. on_disk (laid (X @ data) False)) (\<lambda>_. on_disk (\<lambda>_. True)) (\<lambda>_. True)"
    unfolding cm_call_def
  proof (rule sat_world)
    fix s :: "('s, 'w) client" and r w
    assume a: "on_disk (laid X fresh) s" "ce_call env (Call_write_chunk (fe_path fl) (capped X) data) (cl_world s) = (r, w)"
    then have o: "ok (cl_world s)" "laid X fresh (view (cl_world s))" "engine_ok (cl_tune s)"
      by (simp_all add: on_disk_def in_order_def)
    have l: "laid (X @ data) False (view w)" if "r = Inr ()"
    proof (cases "length X \<le> u64_max")
      case True
      then have "capped X \<le> length (view (cl_world s))" using o(2) by (simp add: laid_def)
      then have "view w = take (capped X) (view (cl_world s)) @ data"
        using writes [OF o(1) a(2)] that by auto
      with laid_write [OF o(2) True] show ?thesis by simp
    qed (simp add: laid_def)
    show "case r of Inl e \<Rightarrow> on_disk (\<lambda>_. True) (s\<lparr> cl_world := w \<rparr>)
        | Inr x \<Rightarrow> on_disk (laid (X @ data) False) (s\<lparr> cl_world := w \<rparr>)"
      using l writes [OF o(1) a(2)] o(3) by (auto simp: on_disk_def split: sum.splits)
  qed
qed (intro step_bind disk_rules sat_ret; simp add: capped_append)

lemma stream_loop_sat:
  "cm_sat (on_disk (laid X fresh)) (stream_loop env (fe_path fl) t chunks broken d (capped X) ls)
    (\<lambda>(d2, n) s. \<exists>out. (broken = None \<and> feed (ce_zrip env) d (filter (\<lambda>c. c \<noteq> []) chunks) = Inr (out, d2) \<and>
       n = capped (X @ out)) \<and> on_disk (laid (X @ out) (fresh \<and> out = [])) s)
    (\<lambda>_. on_disk (\<lambda>_. True)) (\<lambda>_. True)"
proof (induction chunks arbitrary: X fresh d ls)
  case Nil
  show ?case by (auto intro!: sat_ret sat_fail elim: on_disk_mono split: option.splits)
next
  case (Cons c cs)
  show ?case
  proof (cases "c = []")
    case True
    with Cons show ?thesis by simp
  next
    case False
    show ?thesis
    proof (cases "decompress (ce_zrip env) d c")
      case (Inl e)
      with False show ?thesis
        by (simp, intro step_bind disk_rules sat_fail) (auto elim: on_disk_mono)
    next
      case (Inr q)
      then obtain data d2 where q: "decompress (ce_zrip env) d c = Inr (data, d2)" by (cases q) auto
      have rec: "cm_sat (on_disk (laid (X @ data) (fresh \<and> data = [])))
          (stream_loop env (fe_path fl) t cs broken d2 (capped (X @ data)) ls2)
          (\<lambda>(d2, n) s. \<exists>out. (broken = None \<and> feed (ce_zrip env) d (filter (\<lambda>c. c \<noteq> []) (c # cs)) = Inr (out, d2) \<and>
             n = capped (X @ out)) \<and> on_disk (laid (X @ out) (fresh \<and> out = [])) s)
          (\<lambda>_. on_disk (\<lambda>_. True)) (\<lambda>_. True)" for ls2
        by (rule sat_conseq [OF Cons]) (use False q in \<open>force+\<close>)
      show ?thesis
      proof (cases "data = []")
        case True
        with rec [of ls] False q show ?thesis
          by simp (intro step_bind disk_rules; simp)
      next
        case d: False
        have "cm_sat (on_disk (laid X fresh))
          (cm_bind (write_data env (fe_path fl) (capped X) data) (\<lambda>offset2.
           cm_bind (cm_tick env None False) (\<lambda>_.
           cm_bind (save_progress env (fe_path fl) t offset2 ls) (\<lambda>last_saved2.
           stream_loop env (fe_path fl) t cs broken d2 offset2 last_saved2))))
          (\<lambda>(d2, n) s. \<exists>out. (broken = None \<and> feed (ce_zrip env) d (filter (\<lambda>c. c \<noteq> []) (c # cs)) = Inr (out, d2) \<and>
             n = capped (X @ out)) \<and> on_disk (laid (X @ out) (fresh \<and> out = [])) s)
          (\<lambda>_. on_disk (\<lambda>_. True)) (\<lambda>_. True)"
          using rec d by (intro sat_bind [OF write_data_sat] sat_fact step_bind disk_rules save_keeps) auto
        then show ?thesis
          unfolding stream_loop.simps if_not_P [OF False] q sum.case prod.case if_not_P [OF d]
          by (rule step_bind [OF quiet_for_keeps(1) [OF quiet_disk] TrueI])
      qed
    qed
  qed
qed

lemma stream_sat:
  assumes "\<And>data. broken = None \<Longrightarrow> decodes env reply data \<Longrightarrow> X @ data = D" and "length X < length D"
  shows "cm_sat (on_disk (laid X True)) (stream_download env fl reply broken (length X) t)
    (\<lambda>n s. n = length D \<and> on_disk (\<lambda>Y. Y = D) s) (\<lambda>_. on_disk (\<lambda>_. True)) (\<lambda>_. True)"
proof -
  have c: "capped X = length X" "length D \<le> u64_max" using assms(2) small by simp_all
  let ?Q = "\<lambda>n s. n = length D \<and> on_disk (\<lambda>Y. Y = D) s"
  have fin: "cm_sat (on_disk (laid (X @ out) (True \<and> out = [])))
      (case decompress_finish (ce_zrip env) d of
         Inl e \<Rightarrow> cm_fail (Err_Decompress (decompress_error_display e))
       | Inr (tail, _) \<Rightarrow>
           cm_bind (if tail = [] then cm_ret (capped (X @ out)) else write_data env (fe_path fl) (capped (X @ out)) tail) (\<lambda>offset2.
           cm_ret (max (fe_size fl) offset2)))
      ?Q (\<lambda>_. on_disk (\<lambda>_. True)) (\<lambda>_. True)"
    if "broken = None" "feed (ce_zrip env) (decompressor_new (reply_format reply)) (filter (\<lambda>c. c \<noteq> []) (rp_body reply)) = Inr (out, d)"
    for d out
  proof (cases "decompress_finish (ce_zrip env) d")
    case (Inl e)
    then show ?thesis by (auto intro!: sat_fail elim: on_disk_mono)
  next
    case (Inr q)
    then obtain tail d2 where q: "decompress_finish (ce_zrip env) d = Inr (tail, d2)" by (cases q) auto
    have "decodes env reply (out @ tail)" using that(2) q by (simp add: decodes_def feed_all_def)
    from assms(1) [OF that(1) this] have D: "X @ out @ tail = D" .
    have l: "laid (X @ out @ tail) fresh Y \<Longrightarrow> \<not> fresh \<Longrightarrow> Y = D" for fresh Y
      using c(2) unfolding D by (simp add: laid_def)
    have cD: "max (fe_size fl) (capped (X @ out @ tail)) = length D" unfolding D using c(2) file_size by simp
    show ?thesis
    proof (cases "tail = []")
      case True
      with D assms(2) have "out \<noteq> []" by auto
      with l [of False] True cD show ?thesis
        unfolding q sum.case prod.case by (auto intro!: sat_ret elim!: on_disk_mono)
    next
      case False
      have "cm_sat (\<lambda>s. n = capped (X @ out @ tail) \<and> on_disk (laid (X @ out @ tail) False) s)
          (cm_ret (max (fe_size fl) n)) ?Q (\<lambda>_. on_disk (\<lambda>_. True)) (\<lambda>_. True)" for n
        by (rule sat_ret) (use cD l [of False] in \<open>auto elim!: on_disk_mono\<close>)
      with False show ?thesis
        unfolding q sum.case prod.case if_not_P [OF False]
        by (intro sat_bind [OF write_data_sat]) simp
    qed
  qed
  show ?thesis
    unfolding stream_download_def
    apply (rule step_bind, intro disk_rules, rule TrueI)
    apply (rule step_bind, rule seed_keeps, rule TrueI)
    apply (subst c(1) [symmetric], rule sat_bind, rule stream_loop_sat)
    subgoal for _ _ x
      apply (cases x, simp only: prod.case)
      apply (rule sat_ex, rule sat_fact, elim conjE, hypsubst, rule fin, assumption, assumption)
      done
    done
qed

lemma finish_sat:
  assumes "\<And>X. P X \<Longrightarrow> E X"
  shows "cm_sat (on_disk P) (finish_download env f t n) (\<lambda>m s. m = n \<and> on_disk P s) (\<lambda>_. on_disk E) (\<lambda>_. True)"
  unfolding finish_download_def
  by (rule step_bind [OF quiet_for_keeps(2) [OF quiet_disk not_write(6)] assms], assumption,
    rule step_bind [OF quiet_for_keeps(2) [OF quiet_disk not_write(5)] assms], assumption, rule sat_ret, simp)

lemma take_body_sat:
  assumes "\<And>data. broken = None \<Longrightarrow> decodes env reply data \<Longrightarrow> X @ data = D" and "length X < length D"
  shows "cm_sat (on_disk (laid X True)) (take_body env fl reply broken (length X) t rtt)
    (\<lambda>r s. r = Inr (length D) \<and> on_disk (\<lambda>Y. Y = D) s) (\<lambda>_. on_disk (\<lambda>_. True)) (\<lambda>_. True)"
  unfolding take_body_def
  apply (rule sat_bind [OF stream_sat [OF assms]], assumption, assumption, rule sat_fact)
  apply (rule step_bind, intro disk_rules, rule TrueI)
  apply (rule sat_bind, rule finish_sat, rule TrueI)
  apply (rule sat_ret, simp)
  done

subsubsection \<open>A file\<close>

text \<open>The loop's state: an offset whose bytes are on the disk, if its ETag is the file's.\<close>

definition at_offset :: "nat \<times> string \<times> nat \<Rightarrow> ('s, 'w) client \<Rightarrow> bool" where
  "at_offset st s \<longleftrightarrow> (case st of (off, rtag, _) \<Rightarrow>
     off < length D \<and> (off = 0 \<or> etag_text rtag) \<and> on_disk (intact D (if rtag = tag then off else 0)) s)"

abbreviation file_done :: "nat \<Rightarrow> ('s, 'w) client \<Rightarrow> bool" where
  "file_done n s \<equiv> n = length D \<and> on_disk (\<lambda>X. X = D) s"

abbreviation step_post :: "nat \<times> string \<times> nat + nat \<Rightarrow> ('s, 'w) client \<Rightarrow> bool" where
  "step_post r s \<equiv> (case r of Inl st \<Rightarrow> at_offset st s | Inr n \<Rightarrow> file_done n s)"

lemma restart_at: "on_disk P s \<Longrightarrow> at_offset (0, rtag, 0) s"
  using not_empty by (auto simp: at_offset_def intact_def elim: on_disk_mono)

lemma retry_sat:
  assumes "off < length D" and "off = 0 \<or> etag_text rtag"
  shows "cm_sat (on_disk (intact D (if rtag = tag then off else 0))) (download_retry env j f off rtag attempts e)
    step_post (\<lambda>_. on_disk (\<lambda>_. True)) (\<lambda>_. True)"
proof -
  have "at_offset (off, rtag, k) s" if "on_disk (intact D (if rtag = tag then off else 0)) s" for k s
    using that assms by (simp only: at_offset_def prod.case simp_thms)
  then have retried: "cm_sat (on_disk (intact D (if rtag = tag then off else 0))) (cm_ret (Inl (off, rtag, attempts + 1)))
      step_post (\<lambda>_. on_disk (\<lambda>_. True)) (\<lambda>_. True)"
    by (intro sat_ret) (simp only: sum.case)
  show ?thesis
    unfolding download_retry_def
    apply (rule sat_if)
    subgoal by (rule sat_fail) (erule on_disk_mono, rule TrueI)
    apply (rule step_bind [OF quiet_for_keeps(3) [OF quiet_disk not_write(2)] TrueI])
    apply (rule step_bind [OF keeps_tick TrueI])
    apply (rule step_bind, intro disk_rules, rule TrueI)
    apply (rule retried)
    done
qed

lemma sequential_sat:
  assumes "off < length D" and "off = 0 \<or> etag_text rtag"
  shows "cm_sat (on_disk (intact D (if rtag = tag then off else 0))) (sequential_step env j fl off rtag attempts)
    step_post (\<lambda>_. on_disk (\<lambda>_. True)) (\<lambda>_. True)"
  unfolding sequential_step_def Let_def
  apply (rule step_bind, intro disk_rules, rule TrueI)
  apply (rule sat_bind, rule attempt_fetch_sat [where A = "\<lambda>reply broken.
      (rp_status reply = 206 \<longrightarrow> (off = 0 \<or> rtag = tag) \<and> (case content_range_start reply of Some n \<Rightarrow> n | None \<Rightarrow> off) = off) \<and>
      (\<forall>data. broken = None \<longrightarrow> decodes env reply data \<longrightarrow>
        (rp_status reply = 200 \<longrightarrow> data = D) \<and> (rp_status reply = 206 \<longrightarrow> data = drop off D))"])
  subgoal for t0 w r w2
    by (drule (1) rest [OF _ assms], elim conjE, intro conjI allI impI, assumption, assumption) simp_all
  subgoal for t0 r
    apply (rule sat_fact, rule sat_sum)
    subgoal by (rule retry_sat [OF assms])
    subgoal for q
      apply (cases q, simp only: prod.case)
      subgoal for reply broken
        apply (rule step_bind, intro disk_rules, rule TrueI)
        apply (intro sat_if)
        subgoal
          apply (rule sat_conseq [OF take_body_sat [where X = "[]", unfolded list.size]])
          apply (use not_empty in \<open>auto simp: laid_def elim: on_disk_mono split: sum.splits\<close>)
          done
        subgoal premises prems for t1
        proof -
          have a: "off = 0 \<or> rtag = tag" "(case content_range_start reply of Some n \<Rightarrow> n | None \<Rightarrow> off) = length (take off D)"
            "\<And>data. broken = None \<Longrightarrow> decodes env reply data \<Longrightarrow> take off D @ data = D" "length (take off D) < length D"
            using prems assms by auto
          show ?thesis
            unfolding a(2)
            by (rule sat_conseq [OF take_body_sat [OF a(3,4)]])
              (use a(1) assms(1) in \<open>auto simp: laid_def intact_def elim!: on_disk_mono split: sum.splits if_splits\<close>)
        qed
        subgoal by (rule sat_ret) (simp add: restart_at)
        subgoal by (rule sat_fail) (erule on_disk_mono, rule TrueI)
        done
      done
    done
  done

lemma ranges_sat:
  assumes "off < length D" and "off = 0 \<or> etag_text rtag"
  shows "cm_sat (on_disk (intact D (if rtag = tag then off else 0))) (parallel_attempt env j fl off rtag attempts)
    step_post (\<lambda>_. on_disk (\<lambda>_. True)) (\<lambda>_. True)"
proof -
  let ?n = "if rtag = tag then off else 0"
  have p: "cm_sat (on_disk (intact D ?n)) (download_file_parallel env j fl rtag off)
      (\<lambda>(t, sz) s. t = tag \<and> sz = length D \<and> on_disk (\<lambda>X. X = D) s) (\<lambda>_. on_disk (intact D ?n)) (\<lambda>_. True)"
    by (rule parallel_sat) (use assms in \<open>auto simp: etag_text_def\<close>)
  show ?thesis
    unfolding parallel_attempt_def
    apply (rule sat_bind, rule sat_attempt, rule p)
    subgoal for r
      apply (cases r)
      subgoal by (simp only: sum.case, intro sat_if sat_ret retry_sat assms) (simp add: restart_at)
      subgoal for q
        apply (cases q, simp only: sum.case prod.case)
        apply (rule sat_fact, rule sat_fact, rule sat_bind, rule finish_sat, rule TrueI)
        apply (rule sat_ret, simp)
        done
      done
    done
qed

lemma step_keeps:
  "cm_sat (at_offset st) (download_step env j fl st) step_post (\<lambda>_. on_disk (\<lambda>_. True)) (\<lambda>_. True)"
proof -
  obtain off rtag k where st: "st = (off, rtag, k)" by (cases st) auto
  have "cm_sat (\<lambda>s. off < length D \<and> (off = 0 \<or> etag_text rtag) \<and> on_disk (intact D (if rtag = tag then off else 0)) s)
      (download_step env j fl st) step_post (\<lambda>_. on_disk (\<lambda>_. True)) (\<lambda>_. True)"
    unfolding st download_step_def prod.case
    by (rule sat_fact, rule sat_fact, rule step_bind, intro disk_rules, rule TrueI, rule sat_if)
      (erule (1) ranges_sat, erule (1) sequential_sat)
  then show ?thesis by (rule sat_pre) (simp only: at_offset_def st prod.case)
qed

lemma loop_sat:
  "cm_sat (at_offset st) (cm_while (download_step env j fl) st) file_done (\<lambda>_. on_disk (\<lambda>_. True)) (\<lambda>_. True)"
  by (rule sat_while [OF step_keeps]) simp

text \<open>What is loaded: no offset, or one that stands for bytes on the disk.\<close>

definition resumes :: "string \<times> nat \<Rightarrow> bytes \<Rightarrow> bool" where
  "resumes q X \<longleftrightarrow> (case q of (t, off) \<Rightarrow> (off = 0 \<or> etag_text t) \<and> (off = length D \<longrightarrow> X = D) \<and>
     (off < length D \<longrightarrow> intact D (if t = tag then off else 0) X))"

definition starting :: "('s, 'w) client \<Rightarrow> bool" where
  "starting s \<longleftrightarrow> on_disk (\<lambda>_. True) s \<and> unopened (cl_world s)"

lemma start_sat:
  "cm_sat starting (cm_call env (Call_file_start (fe_path fl) (fe_size fl)))
    (\<lambda>_. starting) (\<lambda>_. on_disk (\<lambda>_. True)) (\<lambda>_. True)"
  unfolding cm_call_def
proof (rule sat_world)
  fix s :: "('s, 'w) client" and r w
  assume a: "starting s" "ce_call env (Call_file_start (fe_path fl) (fe_size fl)) (cl_world s) = (r, w)"
  then have o: "ok (cl_world s)" "unopened (cl_world s)" "engine_ok (cl_tune s)"
    by (simp_all add: starting_def on_disk_def in_order_def)
  have "ok w" using quiet [of "view (cl_world s)"] o(1) a(2) not_write(4) unfolding quiet_for_def by (metis snd_conv)
  with opens [OF o(1,2) a(2)] o(3) show "case r of Inl e \<Rightarrow> on_disk (\<lambda>_. True) (s\<lparr> cl_world := w \<rparr>)
      | Inr x \<Rightarrow> starting (s\<lparr> cl_world := w \<rparr>)"
    by (auto simp: starting_def on_disk_def split: sum.splits)
qed

lemma resume_sat:
  "cm_sat starting (load_resume env (fe_path fl)) (\<lambda>q. on_disk (resumes q)) (\<lambda>_. on_disk (\<lambda>_. True)) (\<lambda>_. True)"
proof -
  have l: "cm_sat starting (cm_world (ce_load_state env ''download'' (fe_path fl)))
      (\<lambda>q. on_disk (\<lambda>X. \<forall>x. q = Some x \<longrightarrow> saved_fine D tag x X)) (\<lambda>_. on_disk (\<lambda>_. True)) (\<lambda>_. True)"
  proof (rule sat_world)
    fix s :: "('s, 'w) client" and r w
    assume a: "starting s" "ce_load_state env ''download'' (fe_path fl) (cl_world s) = (r, w)"
    then have "ok (cl_world s)" "unopened (cl_world s)" "engine_ok (cl_tune s)" by (simp_all add: starting_def on_disk_def in_order_def)
    with load [OF this(1,2) a(2)] show "case r of Inl e \<Rightarrow> on_disk (\<lambda>_. True) (s\<lparr> cl_world := w \<rparr>)
        | Inr q \<Rightarrow> on_disk (\<lambda>X. \<forall>x. q = Some x \<longrightarrow> saved_fine D tag x X) (s\<lparr> cl_world := w \<rparr>)"
      by (auto simp: on_disk_def split: sum.splits)
  qed
  have none: "resumes ([], 0) X" for X using not_empty by (simp add: resumes_def intact_def)
  show ?thesis
    unfolding load_resume_def
  proof (rule sat_bind [OF l])
    fix q
    show "cm_sat (on_disk (\<lambda>X. \<forall>x. q = Some x \<longrightarrow> saved_fine D tag x X))
      (case q of None \<Rightarrow> cm_ret ([], 0)
       | Some v \<Rightarrow>
         (let etag = (case Option.bind (js_get v ''etag'') js_as_string of Some e \<Rightarrow> e | None \<Rightarrow> []) in
          cm_bind (cm_lift (safe_u64 (js_field v ''offset'') ''offset'')) (\<lambda>offset.
          cm_ret (if etag \<noteq> [] \<and> 0 < offset then (etag, offset) else ([], 0)))))
      (\<lambda>q. on_disk (resumes q)) (\<lambda>_. on_disk (\<lambda>_. True)) (\<lambda>_. True)"
    proof (cases q)
      case None
      then show ?thesis by (auto intro!: sat_ret none elim: on_disk_mono)
    next
      case (Some v)
      show ?thesis
      proof (cases "safe_u64 (js_field v ''offset'') ''offset''")
        case (Inl e)
        with Some show ?thesis by (auto simp: Let_def intro!: sat_fail elim: on_disk_mono)
      next
        case (Inr off)
        have "resumes (saved_etag v, off) X" if "saved_fine D tag v X" "saved_etag v \<noteq> []" "0 < off" for X
          using that Inr by (auto simp: resumes_def saved_fine_def intact_def)
        with Some Inr none show ?thesis
          by (auto simp: Let_def saved_etag_def [symmetric] intro!: sat_ret elim!: on_disk_mono)
      qed
    qed
  qed
qed

theorem download_sat:
  "cm_sat starting (download_file env j fl) file_done (\<lambda>_. on_disk (\<lambda>_. True)) (\<lambda>_. True)"
  unfolding download_file_def
  apply (rule sat_bind, rule start_sat, rule sat_bind, rule resume_sat)
  subgoal for _ q
  proof (cases q)
    case (Pair t off)
    show ?thesis
    proof (cases "classify_download (fe_size fl) off")
      case Disp_already_done
      then have o: "off = length D" by (simp add: classify_download_def file_size split: if_splits)
      have r: "on_disk (\<lambda>X. X = D) s" if "on_disk (resumes q) s" for s
        using that by (rule on_disk_mono) (simp add: Pair o resumes_def)
      have "cm_sat (on_disk (\<lambda>X. X = D)) (cm_bind (seed_progress env off) (\<lambda>_. finish_download env fl t (fe_size fl)))
          file_done (\<lambda>_. on_disk (\<lambda>_. True)) (\<lambda>_. True)"
        by (rule step_bind [OF seed_keeps TrueI], rule sat_conseq [OF finish_sat [OF TrueI]]) (auto simp: file_size)
      then show ?thesis
        unfolding Pair prod.case Disp_already_done download_disposition.case by (rule sat_pre) (use r Pair in simp)
    next
      case Disp_restart
      show ?thesis
        unfolding Pair prod.case Disp_restart download_disposition.case
        by (rule sat_pre [OF loop_sat]) (erule restart_at)
    next
      case Disp_transfer
      then have o: "off < length D" by (simp add: classify_download_def file_size split: if_splits)
      have "at_offset (off, t, 0) s" if r: "on_disk (resumes (t, off)) s" for s
      proof -
        have "off = 0 \<or> etag_text t" using r by (auto simp: on_disk_def in_order_def resumes_def)
        moreover have "on_disk (intact D (if t = tag then off else 0)) s"
          using r by (rule on_disk_mono) (simp only: resumes_def prod.case o simp_thms)
        ultimately show ?thesis unfolding at_offset_def prod.case using o by blast
      qed
      then show ?thesis
        unfolding Pair prod.case Disp_transfer download_disposition.case by (rule sat_pre [OF loop_sat])
    qed
  qed
  done

end

subsection \<open>Two corner cases\<close>

lemma call_any_fetch: "cm_call (env\<lparr> ce_fetch := g \<rparr>) q = cm_call env q"
  by (simp add: cm_call_def)

lemma report_any_fetch: "cm_report (env\<lparr> ce_fetch := g \<rparr>) = cm_report env"
  by (rule ext) (simp add: cm_report_def call_any_fetch split: prod.split option.split)

lemmas any_fetch = call_any_fetch report_any_fetch

lemma finish_any_fetch:
  "finish_download (env\<lparr> ce_fetch := g \<rparr>) f t n = finish_download env f t n"
  "seed_progress (env\<lparr> ce_fetch := g \<rparr>) k = seed_progress env k"
  by (simp_all add: finish_download_def seed_progress_def save_download_def any_fetch)

text \<open>
  A saved offset equal to the listed size ends the download without any request, whatever ETag was saved
  with it: what a request would have been answered makes no difference.
\<close>

theorem complete_resume_asks_nothing:
  fixes env :: "('e, 's, 'w) client_env"
  assumes "\<And>w. fst (ce_load_state env ''download'' (fe_path fl) w) = Inr (Some v)"
    and "safe_u64 (js_field v ''offset'') ''offset'' = Inr (fe_size fl)" and "0 < fe_size fl"
    and "Option.bind (js_get v ''etag'') js_as_string = Some t" and "t \<noteq> []"
  shows "download_file (env\<lparr> ce_fetch := g \<rparr>) j fl = download_file env j fl"
proof -
  have l: "load_resume e (fe_path fl) = cm_bind (cm_world (ce_load_state e ''download'' (fe_path fl))) (\<lambda>_. cm_ret (t, fe_size fl))"
    if "ce_load_state e = ce_load_state env" for e :: "('e, 's, 'w) client_env"
  proof
    fix s :: "('s, 'w) client"
    obtain r w where r: "ce_load_state env ''download'' (fe_path fl) (cl_world s) = (r, w)" by force
    then have "r = Inr (Some v)" using assms(1) by (metis fst_conv)
    then show "load_resume e (fe_path fl) s = cm_bind (cm_world (ce_load_state e ''download'' (fe_path fl))) (\<lambda>_. cm_ret (t, fe_size fl)) s"
      using r assms(2-5) that by (simp add: load_resume_def cm_bind_def cm_world_def Let_def cm_lift_def cm_ret_def)
  qed
  have d: "classify_download (fe_size fl) (fe_size fl) = Disp_already_done" by (simp add: classify_download_def)
  have b: "cm_bind (cm_bind m (\<lambda>_. cm_ret x)) f = cm_bind m (\<lambda>_. f x)" for m :: "('s, 'w, 'd) cm" and x f
    by (auto simp: cm_bind_def cm_ret_def fun_eq_iff split: prod.splits option.splits sum.splits)
  show ?thesis
    unfolding download_file_def any_fetch by (simp add: l b d finish_any_fetch)
qed

text \<open>
  A file that is empty by now: the server answers \<open>416\<close> to a range from its start, and the client asks
  again at once, for ever.
\<close>

theorem unsatisfiable_never_ends:
  fixes env :: "('e, 's, 'w) client_env" and s :: "('s, 'w) client"
  assumes "\<And>s. fst (cm_ready env s) = Some (Inr ())"
    and "\<And>w t. \<exists>reply w2. ce_fetch env (tail_request env j (fe_path fl) t 0) (cg_timeout_ms (dj_config j)) w = (Inr (reply, None), w2) \<and>
      rp_status reply = 416"
    and "fe_size fl < min_parallel_download_bytes"
  shows "fst (cm_while (download_step env j fl) (0, t, 0) s) = None"
proof -
  have "cm_sat (\<lambda>_. \<exists>t. st = (0, t, 0)) (download_step env j fl st)
      (\<lambda>r _. case r of Inl st2 \<Rightarrow> \<exists>t. st2 = (0, t, 0) | Inr n \<Rightarrow> False) (\<lambda>_ _. False) (\<lambda>_. True)" for st
    unfolding cm_sat_def
  proof (intro allI impI, elim exE)
    fix s :: "('s, 'w) client" and t assume st: "st = (0, t, 0)"
    obtain s2 where r: "cm_ready env s = (Some (Inr ()), s2)" using assms(1) [of s] by (metis prod.collapse)
    obtain reply w2 where f: "ce_fetch env (tail_request env j (fe_path fl) t 0) (cg_timeout_ms (dj_config j)) (cl_world s2) = (Inr (reply, None), w2)"
      "rp_status reply = 416" using assms(2) by blast
    show "cm_post (\<lambda>r _. case r of Inl st2 \<Rightarrow> \<exists>t. st2 = (0, t, 0) | Inr n \<Rightarrow> False) (\<lambda>_ _. False) (\<lambda>_. True) (download_step env j fl st s)"
      using r f assms(3)
      by (simp add: st download_step_def should_chunked_def sequential_step_def cm_bind_def cm_get_def cm_attempt_def cm_world_def
          cm_ret_def Let_def)
  qed
  from sat_while [where I = "\<lambda>st _. \<exists>t. st = (0, t, 0)", OF this, of "(0, t, 0)" "\<lambda>_. True"]
  have "cm_post (\<lambda>_ _. False) (\<lambda>_ _. False) (\<lambda>_. True) (cm_while (download_step env j fl) (0, t, 0) s)"
    by (simp add: cm_sat_def)
  then show ?thesis by (auto elim: cm_post.elims)
qed

end
