(* ===== verification/Native_Runs.thy ===== *)
theory Native_Runs
  imports Native_Download Client_Delivery Storage_Props
begin

text \<open>
  Rules for the runs of the native client: what is known of the network and of the file system before
  and after each step.
\<close>

subsection \<open>Steps\<close>

text \<open>A property of the network and of the file system.\<close>

definition nw_is :: "('n \<Rightarrow> bool) \<Rightarrow> (fsys \<Rightarrow> bool) \<Rightarrow> 'n native_world \<Rightarrow> bool" where
  "nw_is ok P w \<longleftrightarrow> ok (nw_net w) \<and> P (nw_fs w)"

lemma nw_is_simps [simp]:
  "nw_is ok P (w\<lparr> nw_events := es \<rparr>) = nw_is ok P w"
  "nw_is ok P (w\<lparr> nw_net := n \<rparr>) \<longleftrightarrow> ok n \<and> P (nw_fs w)"
  "nw_is ok P (w\<lparr> nw_net := n, nw_fs := fs \<rparr>) \<longleftrightarrow> ok n \<and> P fs"
  by (simp_all add: nw_is_def)

lemma nw_isD: "nw_is ok P w \<Longrightarrow> ok (nw_net w)" "nw_is ok P w \<Longrightarrow> P (nw_fs w)"
  by (simp_all add: nw_is_def)

text \<open>The network stays in \<open>ok\<close> whatever is asked of it, but for the requests that change the server.\<close>

definition net_closed :: "('e, 's, 'n) native_env \<Rightarrow> (http_request \<Rightarrow> bool) \<Rightarrow> ('n \<Rightarrow> bool) \<Rightarrow> bool" where
  "net_closed env A ok \<longleftrightarrow> (\<forall>n. ok n \<longrightarrow>
     (\<forall>req. A req \<longrightarrow> ok (snd (ne_send env req n))) \<and> ok (snd (ne_fault env n)) \<and>
     (\<forall>ms. ok (ne_sleep env ms n)) \<and> (\<forall>k. ok (snd (ne_order env k n))))"

lemma net_closedD:
  assumes "net_closed env A ok" and "ok n"
  shows "A req \<Longrightarrow> ok (snd (ne_send env req n))" "ok (snd (ne_fault env n))" "ok (ne_sleep env ms n)"
    "ok (snd (ne_order env k n))"
  using assms by (simp_all add: net_closed_def)

lemma keeps_tuned:
  assumes "\<And>e. engine_ok e \<Longrightarrow> engine_ok (snd (f e))"
  shows "cm_keeps p (cm_tuned f)"
  using assms by (simp add: cm_keeps_def cm_tuned_def case_prod_beta Let_def in_orderD)

lemma cm_bind_assoc: "cm_bind (cm_bind m f) g = cm_bind m (\<lambda>x. cm_bind (f x) g)"
  by (simp add: fun_eq_iff cm_bind_def split: prod.split option.split sum.split)

lemma keeps_prod2 [keeps_rules]:
  "(\<And>x y. r = (x, y) \<Longrightarrow> cm_keeps p (f x y z)) \<Longrightarrow> cm_keeps p ((case r of (x, y) \<Rightarrow> f x y) z)"
  by (cases r) simp

lemma keeps_let [keeps_rules]: "(\<And>y. y = x \<Longrightarrow> cm_keeps p (f y)) \<Longrightarrow> cm_keeps p (let y = x in f y)"
  by simp

lemma transfer_end_ok: "engine_ok e \<Longrightarrow> engine_ok (transfer_end v ok e)"
  by (auto simp: transfer_end_def engine_ok_def)

lemma set_enabled_ok [simp]: "engine_ok (set_enabled b e) = engine_ok e"
  by (rule engine_ok_cong) (simp_all add: set_enabled_def)

lemma upload_level_ok: "engine_ok e \<Longrightarrow> engine_ok (snd (upload_compress_level zc clock caps sample mbps e))"
  by (subst engine_ok_cong [of _ e]) simp_all

lemma engine_new_ok: "engine_ok (engine_new enabled lvl)"
  by (simp add: engine_new_def engine_ok_def params_ok_def dims_ok_def widest_def hard_max_in_flight_bytes_def)

lemma nv_keeps:
  fixes env :: "('e, 's, 'n) native_env"
  assumes c: "net_closed env A ok"
  shows "cm_keeps (nw_is ok P) (nv_emit env ev)" "cm_keeps (nw_is ok P) (nv_log env msg)"
    "cm_keeps (nw_is ok P) (nv_now env)" "A req \<Longrightarrow> cm_keeps (nw_is ok P) (nv_send env req)"
    "cm_keeps (nw_is ok P) (nv_sleep env ms)" "cm_keeps (nw_is ok P) (nv_order env xs)"
    "(\<And>fs. P fs \<Longrightarrow> P (snd (f fs))) \<Longrightarrow> cm_keeps (nw_is ok P) (nv_file env f)"
    "(\<And>fs. P fs \<Longrightarrow> P (snd (f fs))) \<Longrightarrow> cm_keeps (nw_is ok P) (nv_storage env what f)"
    "cm_keeps (nw_is ok P) (nv_tick env n rtt err)" "cm_keeps (nw_is ok P) (finish_transfer env b)"
proof -
  note d = net_closedD [OF c]
  show e: "cm_keeps (nw_is ok P) (nv_emit env ev)" for ev
    unfolding nv_emit_def by (rule keeps_world) simp
  then show "cm_keeps (nw_is ok P) (nv_log env msg)" unfolding nv_log_def .
  show n: "cm_keeps (nw_is ok P) (nv_now env)" unfolding nv_now_def by (rule keeps_silent)
  show "A req \<Longrightarrow> cm_keeps (nw_is ok P) (nv_send env req)"
    unfolding nv_send_def by (rule keeps_world) (simp add: case_prod_beta nw_is_def d)
  show "cm_keeps (nw_is ok P) (nv_sleep env ms)"
    unfolding nv_sleep_def by (rule keeps_world) (simp add: nw_is_def d)
  show "cm_keeps (nw_is ok P) (nv_order env xs)"
    unfolding nv_order_def by (rule keeps_world) (simp add: case_prod_beta nw_is_def d)
  show f: "cm_keeps (nw_is ok P) (nv_file env f)" if "\<And>fs. P fs \<Longrightarrow> P (snd (f fs))"
    for f :: "fsys \<Rightarrow> (io_error + 'x) \<times> fsys"
    unfolding nv_file_def
    by (rule keeps_world) (use that in \<open>auto simp: case_prod_beta nw_is_def d Let_def split: option.split\<close>)
  show "cm_keeps (nw_is ok P) (nv_storage env what f)" if "\<And>fs. P fs \<Longrightarrow> P (snd (f fs))"
    unfolding nv_storage_def by (intro keeps_rules f that)
  show "cm_keeps (nw_is ok P) (nv_tick env n rtt err)"
    unfolding nv_tick_def by (intro keeps_rules n e keeps_tuned tick_ok)
  show "cm_keeps (nw_is ok P) (finish_transfer env b)"
    unfolding finish_transfer_def by (rule keeps_tuned) (simp add: transfer_end_ok)
qed

subsection \<open>Shared parts of a transfer\<close>

text \<open>Requests that only read.\<close>

definition reads :: "http_request \<Rightarrow> bool" where
  "reads req \<longleftrightarrow> rq_method req = ''GET'' \<or> rq_method req = ''HEAD''"

lemma capabilities_keeps:
  assumes c: "net_closed env reads ok"
  shows "cm_keeps (nw_is ok P) (fetch_capabilities env)" "cm_keeps (nw_is ok P) (transfer_capabilities env)"
    "cm_keeps (nw_is ok P) (prepare_transfer env direction)"
proof -
  show f: "cm_keeps (nw_is ok P) (fetch_capabilities env)"
    unfolding fetch_capabilities_def Let_def by (intro keeps_rules nv_keeps(4) [OF c]) (simp add: reads_def)
  show t: "cm_keeps (nw_is ok P) (transfer_capabilities env)"
    unfolding transfer_capabilities_def by (intro keeps_rules f keeps_tuned) simp
  show "cm_keeps (nw_is ok P) (prepare_transfer env direction)"
    unfolding prepare_transfer_def Let_def
    by (intro keeps_rules t nv_keeps(3) [OF c] keeps_tuned begin_transfer_ok)
qed

lemma listing_keeps:
  assumes c: "net_closed env reads ok"
  shows "cm_keeps (nw_is ok P) (native_list_dir env dir)"
  unfolding native_list_dir_def Let_def by (intro keeps_rules nv_keeps(4) [OF c]) (simp add: reads_def)

lemma ranges_keep:
  assumes c: "net_closed env reads ok"
  shows "cm_keeps (nw_is ok P) (range_request env j s e)" "cm_keeps (nw_is ok P) (range_to_vec env j s e)"
    "cm_keeps (nw_is ok P) (get_range_with_retry env j s e attempt)" "cm_keeps (nw_is ok P) (native_fetch_meta env remote)"
proof -
  show r: "cm_keeps (nw_is ok P) (range_request env j s e)"
    unfolding range_request_def by (intro keeps_rules nv_keeps(3,4) [OF c]) (simp add: reads_def range_get_def)
  show v: "cm_keeps (nw_is ok P) (range_to_vec env j s e)" unfolding range_to_vec_def by (intro keeps_rules r)
  show "cm_keeps (nw_is ok P) (get_range_with_retry env j s e attempt)"
    using c v
  proof (induction env j s e attempt rule: get_range_with_retry.induct)
    case (1 env j s e attempt)
    show ?case
      by (subst get_range_with_retry.simps, intro keeps_rules 1(3) nv_keeps(2,5) [OF 1(2)])
        (rule 1(1), (assumption | simp add: 1(2,3))+)
  qed
  show "cm_keeps (nw_is ok P) (native_fetch_meta env remote)"
    unfolding native_fetch_meta_def by (intro keeps_rules nv_keeps(4) [OF c]) (simp add: reads_def native_head_def)
qed

subsection \<open>Files\<close>

abbreviation at_fs :: "('n \<Rightarrow> bool) \<Rightarrow> (fsys \<Rightarrow> bool) \<Rightarrow> ('s, 'n native_world) client \<Rightarrow> bool" where
  "at_fs ok P \<equiv> in_order (nw_is ok P)"

lemma at_fs_mono: "at_fs ok P s \<Longrightarrow> (\<And>fs. P fs \<Longrightarrow> Q fs) \<Longrightarrow> at_fs ok Q s"
  by (auto simp: in_order_def nw_is_def)

lemma file_sat:
  fixes env :: "('e, 's, 'n) native_env" and f :: "fsys \<Rightarrow> (io_error + 'a) \<times> fsys"
  assumes c: "net_closed env A ok" and "\<And>fs r fs2. P fs \<Longrightarrow> f fs = (r, fs2) \<Longrightarrow> Q r fs2"
    and "\<And>fs e. P fs \<Longrightarrow> Q (Inl e) fs"
  shows "cm_sat (at_fs ok P) (nv_file env f) (\<lambda>r. at_fs ok (Q r)) E N"
  unfolding nv_file_def
proof (rule sat_world)
  fix s :: "('s, 'n native_world) client" and r :: "libfw_error + (io_error + 'a)" and w
  assume s: "at_fs ok P s" and e: "(let (fault, n) = ne_fault env (nw_net (cl_world s));
      (r, fs) = (case fault of Some (_, e) \<Rightarrow> (Inl e, nw_fs (cl_world s)) | None \<Rightarrow> f (nw_fs (cl_world s)))
    in (Inr r, (cl_world s)\<lparr> nw_net := n, nw_fs := fs \<rparr>)) = (r, w)"
  have o1: "ok (nw_net (cl_world s))" "P (nw_fs (cl_world s))" "engine_ok (cl_tune s)"
    using s by (simp_all add: in_order_def nw_is_def)
  obtain fault n where f: "ne_fault env (nw_net (cl_world s)) = (fault, n)" by force
  then have "ok n" using net_closedD(2) [OF c o1(1)] by simp
  obtain r2 fs where rf: "(case fault of Some (_, e) \<Rightarrow> (Inl e, nw_fs (cl_world s)) | None \<Rightarrow> f (nw_fs (cl_world s))) = (r2, fs)"
    by force
  then have "Q r2 fs" using assms(2,3) [OF o1(2)] by (cases fault) auto
  moreover have "r = Inr r2" "w = (cl_world s)\<lparr> nw_net := n, nw_fs := fs \<rparr>" using e f rf by simp_all
  ultimately show "case r of Inl e \<Rightarrow> E e (s\<lparr> cl_world := w \<rparr>) | Inr x \<Rightarrow> at_fs ok (Q x) (s\<lparr> cl_world := w \<rparr>)"
    using \<open>ok n\<close> o1(3) by simp
qed

lemma storage_sat:
  fixes env :: "('e, 's, 'n) native_env" and f :: "fsys \<Rightarrow> (io_error + 'a) \<times> fsys"
  assumes c: "net_closed env A ok" and "\<And>fs x fs2. P fs \<Longrightarrow> f fs = (Inr x, fs2) \<Longrightarrow> Q x fs2"
    and "\<And>fs e fs2. P fs \<Longrightarrow> f fs = (Inl e, fs2) \<Longrightarrow> E fs2" and "\<And>fs. P fs \<Longrightarrow> E fs"
  shows "cm_sat (at_fs ok P) (nv_storage env what f) (\<lambda>x. at_fs ok (Q x)) (\<lambda>_. at_fs ok E) N"
  unfolding nv_storage_def
proof (rule sat_bind)
  show "cm_sat (at_fs ok P) (nv_file env f) (\<lambda>r. at_fs ok (\<lambda>fs. case r of Inl e \<Rightarrow> E fs | Inr x \<Rightarrow> Q x fs)) (\<lambda>_. at_fs ok E) N"
    by (rule file_sat [OF c]) (use assms(2-4) in \<open>auto split: sum.split\<close>)
  fix r :: "io_error + 'a"
  show "cm_sat (at_fs ok (\<lambda>fs. case r of Inl e \<Rightarrow> E fs | Inr x \<Rightarrow> Q x fs)) (cm_lift (map_err (storage_failure what) r))
      (\<lambda>x. at_fs ok (Q x)) (\<lambda>_. at_fs ok E) N"
    by (rule sat_lift; cases r) simp_all
qed

text \<open>A write leaves a part of its data when it fails.\<close>

lemma write_at_sat:
  fixes env :: "('e, 's, 'n) native_env"
  assumes c: "net_closed env A ok" and "\<And>fs. P fs \<Longrightarrow> Q (fs_write fs i off data)"
    and "\<And>fs k. P fs \<Longrightarrow> E (fs_write fs i off (take k data))"
  shows "cm_sat (at_fs ok P) (nv_write_at env i off data)
    (\<lambda>r. at_fs ok (\<lambda>fs. case r of Inl _ \<Rightarrow> E fs | Inr _ \<Rightarrow> Q fs)) F N"
  unfolding nv_write_at_def
proof (rule sat_world)
  fix s :: "('s, 'n native_world) client" and r :: "libfw_error + (io_error + unit)" and w
  assume s: "at_fs ok P s" and e: "(let (fault, n) = ne_fault env (nw_net (cl_world s)) in
       case fault of
         None \<Rightarrow> (Inr (Inr ()), (cl_world s)\<lparr> nw_net := n, nw_fs := fs_write (nw_fs (cl_world s)) i off data \<rparr>)
       | Some (k, e) \<Rightarrow> (Inr (Inl e), (cl_world s)\<lparr> nw_net := n, nw_fs := fs_write (nw_fs (cl_world s)) i off (take k data) \<rparr>))
     = (r, w)"
  have o1: "ok (nw_net (cl_world s))" "P (nw_fs (cl_world s))" "engine_ok (cl_tune s)"
    using s by (simp_all add: in_order_def nw_is_def)
  obtain fault n where f: "ne_fault env (nw_net (cl_world s)) = (fault, n)" by force
  then have "ok n" using net_closedD(2) [OF c o1(1)] by simp
  then show "case r of Inl e \<Rightarrow> F e (s\<lparr> cl_world := w \<rparr>)
      | Inr x \<Rightarrow> at_fs ok (\<lambda>fs. case x of Inl _ \<Rightarrow> E fs | Inr _ \<Rightarrow> Q fs) (s\<lparr> cl_world := w \<rparr>)"
    using e f assms(2,3) [OF o1(2)] o1(3) by (auto split: option.splits)
qed

end
