(* ===== verification/Native_Chunks.thy ===== *)
theory Native_Chunks
  imports Native_Runs
begin

text \<open>
  The bookkeeping of a batch of the native client: the chunks are consecutive, and whatever the order in
  which they arrive, the offset reached is that of the first chunk that is missing.
\<close>

subsection \<open>The chunks of a batch\<close>

lemma bounds_loop_chain:
  assumes "0 < c" and "sz + c \<le> u64_max" and "offset \<le> sz"
  shows "\<exists>bs. bounds_loop sz c offset acc = Some (acc @ bs) \<and> chain offset bs sz \<and> (\<forall>(s, e) \<in> set bs. e = min (s + c) sz)"
  using assms(3)
proof (induction "sz - offset" arbitrary: offset acc rule: less_induct)
  case less
  show ?case
  proof (cases "offset < sz")
    case True
    let ?e = "min (offset + c) sz"
    have a: "min (u64_add offset c) sz = ?e" using assms(2) True by simp
    have "sz - ?e < sz - offset" "?e \<le> sz" using True assms(1) by linarith+
    from less.hyps [OF this] obtain bs where
      "bounds_loop sz c ?e (acc @ [(offset, ?e)]) = Some ((acc @ [(offset, ?e)]) @ bs)" "chain ?e bs sz"
      "\<forall>(s, e) \<in> set bs. e = min (s + c) sz" by blast
    then show ?thesis
      using True assms(1) a by (subst bounds_loop.simps) (intro exI [of _ "(offset, ?e) # bs"], simp add: Let_def)
  next
    case False
    with less.prems show ?thesis by (intro exI [of _ "[]"]) (simp add: bounds_loop.simps)
  qed
qed

lemma parallel_chunks_chain:
  assumes "from_off \<le> sz" and "0 < c" and "sz + c \<le> u64_max"
  shows "\<exists>bs. parallel_chunks from_off sz c = Some bs \<and> chain from_off bs sz \<and> (\<forall>(s, e) \<in> set bs. e = min (s + c) sz)"
  using bounds_loop_chain [OF assms(2,3,1), of "[]"] assms(1,2) by (simp add: parallel_chunks_def min_absorb1)

lemma batch_span_bounds: "0 < rest \<Longrightarrow> 1 \<le> batch_span rest c w \<and> batch_span rest c w \<le> rest"
  by (auto simp: batch_span_def Let_def)

lemma chain_next: "chain a bs b \<Longrightarrow> (s, e) \<in> set bs \<Longrightarrow> e = b \<or> e \<in> fst ` set bs"
proof (induction a bs b rule: chain.induct)
  case (2 a s0 e0 bs b)
  have "bs = [] \<or> e0 \<in> fst ` set bs" using 2(2) by (cases bs) auto
  with 2 show ?case by auto
qed simp

lemma chain_gap: "chain a bs b \<Longrightarrow> (s, e) \<in> set bs \<Longrightarrow> (s2, e2) \<in> set bs \<Longrightarrow> s2 < e \<Longrightarrow> s2 \<le> s \<and> (s2 = s \<longrightarrow> e2 = e)"
proof (induction a bs b rule: chain.induct)
  case (2 a s0 e0 bs b)
  note m = chain_mem [of e0 bs b]
  from 2 show ?case using m [of s e] m [of s2 e2] by auto
qed simp

subsection \<open>The chunks that have arrived\<close>

text \<open>
  \<open>B\<close> are the chunks of a batch that ends at \<open>stop\<close>, \<open>S\<close> those that have arrived; \<open>pending\<close> are those of them
  from the offset \<open>c\<close> on, with their data.
\<close>

definition waiting ::
  "bytes \<Rightarrow> (nat \<times> nat) list \<Rightarrow> nat \<Rightarrow> (nat \<times> nat) set \<Rightarrow> nat \<Rightarrow> (nat \<times> bytes) list \<Rightarrow> bool" where
  "waiting D B stop S c pending \<longleftrightarrow> S \<subseteq> set B \<and> (c = stop \<or> c \<in> fst ` set B) \<and>
     (\<forall>s x. (s, x) \<in> set pending \<longrightarrow> (\<exists>e. (s, e) \<in> S \<and> x = block_of D s e)) \<and>
     (\<forall>s e. (s, e) \<in> S \<longrightarrow> c \<le> s \<longrightarrow> s \<in> fst ` set pending)"

lemma waiting_start: "chain a B stop \<Longrightarrow> waiting D B stop {} a []"
  by (cases B) (auto simp: waiting_def)

lemma btree_insert_set: "set (btree_insert k v m) \<subseteq> insert (k, v) (set m) \<and> fst ` set (btree_insert k v m) = insert k (fst ` set m)"
  by (induction k v m rule: btree_insert.induct) auto

lemma waiting_insert:
  assumes "waiting D B stop S c pending" and "(s, e) \<in> set B" and "x = block_of D s e"
  shows "waiting D B stop (insert (s, e) S) c (btree_insert s x pending)"
proof -
  note b = btree_insert_set [of s x pending]
  have o1: "insert (s, e) S \<subseteq> set B" "c = stop \<or> c \<in> fst ` set B"
    using assms(1,2) by (simp_all add: waiting_def)
  have p: "\<exists>e2. (s2, e2) \<in> insert (s, e) S \<and> y = block_of D s2 e2" if "(s2, y) \<in> set (btree_insert s x pending)" for s2 y
  proof -
    have "(s2, y) = (s, x) \<or> (s2, y) \<in> set pending" using b that by blast
    then show ?thesis
    proof
      assume "(s2, y) \<in> set pending"
      then obtain e2 where "(s2, e2) \<in> S" "y = block_of D s2 e2" using assms(1) unfolding waiting_def by blast
      then show ?thesis by blast
    qed (use assms(3) in blast)
  qed
  have q: "s2 \<in> fst ` set (btree_insert s x pending)" if "(s2, e2) \<in> insert (s, e) S" "c \<le> s2" for s2 e2
  proof -
    have "s2 = s \<or> s2 \<in> fst ` set pending" using assms(1) that by (auto simp: waiting_def)
    then show ?thesis using b by blast
  qed
  show ?thesis unfolding waiting_def by (intro conjI allI impI o1 p q)
qed

text \<open>The chunk at the offset is written: the offset moves to the next.\<close>

lemma waiting_flush:
  assumes w: "waiting D B stop S c pending" and ch: "chain a B stop" and m: "map_of pending c = Some x" and "stop \<le> length D"
  shows "\<exists>e. c < e \<and> e \<le> stop \<and> x = block_of D c e \<and> length x = e - c \<and> waiting D B stop S e (AList.delete c pending)"
proof -
  have "(c, x) \<in> set pending" using m by (rule map_of_SomeD)
  then obtain e where e: "(c, e) \<in> S" "x = block_of D c e" using w unfolding waiting_def by blast
  then have b: "(c, e) \<in> set B" using w unfolding waiting_def by blast
  note l = chain_mem [OF ch b]
  have "s \<in> fst ` set (AList.delete c pending)" if "(s, e2) \<in> S" "e \<le> s" for s e2
  proof -
    have "s \<in> fst ` set pending" using w that l unfolding waiting_def by (metis le_trans less_imp_le)
    moreover have "s \<noteq> c" using that l by linarith
    ultimately show ?thesis by (force simp: AList.delete_eq)
  qed
  moreover have "set (AList.delete c pending) \<subseteq> set pending" by (auto simp: AList.delete_eq)
  ultimately have "waiting D B stop S e (AList.delete c pending)"
    using w chain_next [OF ch b] unfolding waiting_def by blast
  moreover have "e - c \<le> length D - c" using l assms(4) by linarith
  then have "length x = e - c" using e(2) by (simp add: block_of_def)
  ultimately show ?thesis using e(2) l by blast
qed

lemma waiting_done:
  assumes "waiting D B stop S c pending" and "map_of pending c = None" and "set B \<subseteq> S"
  shows "c = stop"
  using assms unfolding waiting_def map_of_eq_None_iff by fastforce

end
