(* ===== verification/Native_Delivery.thy ===== *)
theory Native_Delivery
  imports Native_Chunks
begin

text \<open>
  The contract of a server for the native client's downloads, and what it gives: a download that is
  reported as done has left the file on the disk, and whatever becomes of a download, the sidecar that
  stays behind vouches only for bytes that are those of the file.
\<close>

subsection \<open>Bytes\<close>

text \<open>What is on the disk agrees with the file up to \<open>n\<close>, if it goes that far.\<close>

definition agrees :: "bytes \<Rightarrow> nat \<Rightarrow> bytes \<Rightarrow> bool" where
  "agrees D n X \<longleftrightarrow> (n \<le> length X \<and> n \<le> length D \<longrightarrow> take n X = take n D)"

lemma agrees_nth: "agrees D n X \<longleftrightarrow> (n \<le> length X \<and> n \<le> length D \<longrightarrow> (\<forall>i<n. X ! i = D ! i))"
  by (auto simp: agrees_def list_eq_iff_nth_eq)

lemma length_write_at: "c \<le> length X \<Longrightarrow> length (write_bytes X c data) = max (length X) (c + length data)"
  by (auto simp: write_bytes_def)

lemma nth_write_at:
  assumes "c \<le> length X" and "i < length (write_bytes X c data)"
  shows "write_bytes X c data ! i = (if c \<le> i \<and> i < c + length data then data ! (i - c) else X ! i)"
proof (cases "data = []")
  case False
  then have w: "write_bytes X c data = take c X @ data @ drop (c + length data) X" using assms(1) by (simp add: write_bytes_def)
  have l: "length (take c X) = c" using assms(1) by simp
  consider "i < c" | "c \<le> i" "i < c + length data" | "c + length data \<le> i" by linarith
  then show ?thesis
  proof cases
    case 3
    then have "i < length X" using assms length_write_at [OF assms(1), of data] by (auto simp: max_def split: if_splits)
    have "\<not> i < c" "\<not> i - c < length data" "c + length data + (i - c - length data) = i" using 3 by linarith+
    with 3 l \<open>i < length X\<close> show ?thesis by (simp add: w nth_append)
  qed (use l in \<open>simp_all add: w nth_append less_diff_conv2\<close>)
qed (auto simp: write_bytes_def)

text \<open>Data of the file, written where the disk is right up to there.\<close>

lemma write_agrees:
  assumes c: "c \<le> length X" "c \<le> length D" "agrees D c X" and p: "prefix data (drop c D)"
  shows "c + length data \<le> length D" "agrees D (c + length data) (write_bytes X c data)"
    "agrees D n X \<Longrightarrow> agrees D n (write_bytes X c data)"
proof -
  show l: "c + length data \<le> length D" using prefix_length_le [OF p] c(2) by simp
  have w: "write_bytes X c data ! i = D ! i" if "i < c + length data" for i
  proof (cases "i < c")
    case True
    then show ?thesis using nth_write_at [OF c(1), of i data] length_write_at [OF c(1), of data] c that
      by (simp add: agrees_nth)
  next
    case False
    obtain r where r: "drop c D = data @ r" using p by (auto simp: prefix_def)
    have "D ! i = drop c D ! (i - c)" using False c(2) by simp
    also have "i - c < length data" using False that by linarith
    then have "drop c D ! (i - c) = data ! (i - c)" by (simp add: r nth_append)
    finally show ?thesis using False nth_write_at [OF c(1), of i data] length_write_at [OF c(1), of data] that by simp
  qed
  then show "agrees D (c + length data) (write_bytes X c data)" by (simp add: agrees_nth)
  assume a: "agrees D n X"
  show "agrees D n (write_bytes X c data)"
    unfolding agrees_nth
  proof (intro impI allI, elim conjE)
    fix i assume i: "n \<le> length (write_bytes X c data)" "n \<le> length D" "i < n"
    show "write_bytes X c data ! i = D ! i"
    proof (cases "i < c + length data")
      case False
      then have "n \<le> length X" using i length_write_at [OF c(1), of data] by (auto simp: max_def split: if_splits)
      then show ?thesis using False i a nth_write_at [OF c(1), of i data] by (auto simp: agrees_nth)
    qed (rule w)
  qed
qed

text \<open>The final length: with everything there, the disk holds the file and nothing else.\<close>

lemma set_len_exact:
  "length D \<le> length X \<Longrightarrow> agrees D (length D) X \<Longrightarrow> take (length D) X @ replicate (length D - length X) 0 = D"
  by (simp add: agrees_def)

subsection \<open>The destination\<close>

text \<open>The destination \<open>d/t\<close> in a directory that exists, and its sidecar.\<close>

definition ready :: "path \<Rightarrow> string \<Rightarrow> fsys \<Rightarrow> bool" where
  "ready d t fs \<longleftrightarrow> dir_ok fs d \<and> fs_wf fs \<and> free_name fs (d @ [t]) \<and> free_name fs (resume_path (d @ [t]))"

definition content_at :: "path \<Rightarrow> fsys \<Rightarrow> bytes" where
  "content_at p fs = (case fs_node fs p of Some (NFile i) \<Rightarrow> fs_data fs i | _ \<Rightarrow> [])"

definition sidecar_saves :: "('e, 's, 'n) native_env \<Rightarrow> path \<Rightarrow> fsys \<Rightarrow> resume_state \<Rightarrow> bool" where
  "sidecar_saves env p fs st \<longleftrightarrow>
     (\<exists>k. fs_node fs (resume_path p) = Some (NFile k) \<and> ne_resume_parse env (fs_data fs k) = Some st)"

lemma resume_path_snoc [simp]: "resume_path (d @ [t]) = d @ [t @ ''.libfw-resume.json'']"
  by (simp add: resume_path_def)

text \<open>The sidecar vouches only for bytes of the file.\<close>

definition sidecar_honest :: "('e, 's, 'n) native_env \<Rightarrow> bytes \<Rightarrow> string \<Rightarrow> path \<Rightarrow> string \<Rightarrow> fsys \<Rightarrow> bool" where
  "sidecar_honest env D tag d t fs \<longleftrightarrow> ready d t fs \<and>
     (\<forall>st. sidecar_saves env (d @ [t]) fs st \<longrightarrow> rs_etag st = tag \<longrightarrow>
       agrees D (rs_offset st) (content_at (d @ [t]) fs))"

subsection \<open>The contract\<close>

text \<open>
  \<open>D\<close> is the file and \<open>tag\<close> its ETag, the same for the whole time.  A body that is complete decodes to the
  range; a part of one decodes to a part of the range, if to anything.  A part of a sidecar's text is not
  taken for another sidecar.
\<close>

locale native_service =
  fixes env :: "('e, 's, 'n) native_env" and remote :: string and D :: bytes and tag :: string and ok :: "'n \<Rightarrow> bool"
  assumes not_empty: "D \<noteq> []"
    and small: "length D + 16777216 \<le> u64_max"
    and closed: "net_closed env reads ok"
    and sidecar: "ne_resume_parse env (take k (ne_resume_text env st)) = Some st2 \<Longrightarrow> st2 = st"
    and head: "ok n \<Longrightarrow> ne_send env (native_head env remote) n = (Inr (reply, broken), n2) \<Longrightarrow> rp_status reply = 200 \<Longrightarrow>
      header_str env reply ''etag'' = tag \<and> u64_from_str (header_str env reply ''content-length'') = Some (length D)"
    and range: "ok n \<Longrightarrow> nj_remote j = remote \<Longrightarrow> nj_etag j = tag \<Longrightarrow> s < e \<Longrightarrow> e \<le> length D \<Longrightarrow>
      ne_send env (range_get env j s e) n = (Inr (reply, broken), n2) \<Longrightarrow> rp_status reply = 206 \<Longrightarrow>
      (\<forall>data. broken = None \<longrightarrow> whole_body (ne_zrip env) (native_format env reply) (concat (rp_body reply)) = Inr data \<longrightarrow>
        prefix data (block_of D s e)) \<and>
      (\<forall>xs ys out d. rp_body reply = xs @ ys \<longrightarrow>
        feed (ne_zrip env) (decompressor_new (native_format env reply)) xs = Inr (out, d) \<longrightarrow>
        prefix out (block_of D s e)) \<and>
      (\<forall>data. broken = None \<longrightarrow>
        feed_all (ne_zrip env) (decompressor_new (native_format env reply)) (rp_body reply) = Inr data \<longrightarrow>
        data = block_of D s e)"
begin

abbreviation saved_at :: "path \<Rightarrow> fsys \<Rightarrow> resume_state \<Rightarrow> bool" where
  "saved_at \<equiv> sidecar_saves env"

abbreviation honest :: "path \<Rightarrow> string \<Rightarrow> fsys \<Rightarrow> bool" where
  "honest \<equiv> sidecar_honest env D tag"

lemmas saved_at_def = sidecar_saves_def [of env]
lemmas honest_def = sidecar_honest_def [of env D tag]

text \<open>The open file \<open>i\<close> is right up to \<open>c\<close>.\<close>

definition upto :: "path \<Rightarrow> string \<Rightarrow> nat \<Rightarrow> nat \<Rightarrow> fsys \<Rightarrow> bool" where
  "upto d t i c fs \<longleftrightarrow> honest d t fs \<and> fs_node fs (d @ [t]) = Some (NFile i) \<and> c \<le> length D \<and>
     c \<le> length (fs_data fs i) \<and> agrees D c (fs_data fs i)"

lemma upto_honest: "upto d t i c fs \<Longrightarrow> honest d t fs"
  by (simp add: upto_def)

lemma sidecar_other: "fs_wf fs \<Longrightarrow> fs_node fs (d @ [t]) = Some (NFile i) \<Longrightarrow>
    fs_node fs (resume_path (d @ [t])) = Some (NFile k) \<Longrightarrow> k \<noteq> i"
proof
  assume a: "fs_wf fs" "fs_node fs (d @ [t]) = Some (NFile i)" "fs_node fs (resume_path (d @ [t])) = Some (NFile k)" "k = i"
  then have "resume_path (d @ [t]) = d @ [t]" unfolding fs_wf_def by blast
  then show False by simp
qed

text \<open>Changing the destination's content.\<close>

lemma upto_content:
  assumes u: "upto d t i c fs" and n: "fs_node fs2 = fs_node fs" "fs_next fs2 = fs_next fs"
    "\<And>k. k \<noteq> i \<Longrightarrow> fs_data fs2 k = fs_data fs k"
    and a: "\<And>m. agrees D m (fs_data fs i) \<Longrightarrow> agrees D m (fs_data fs2 i)"
    and c2: "c2 \<le> length D" "c2 \<le> length (fs_data fs2 i)" "agrees D c2 (fs_data fs2 i)"
  shows "upto d t i c2 fs2"
proof -
  have f: "fs_node fs (d @ [t]) = Some (NFile i)" "ready d t fs" using u by (simp_all add: upto_def honest_def)
  have r: "ready d t fs2" using f(2) by (simp add: ready_def dir_ok_def is_dir_def fs_wf_def free_name_def n(1,2))
  have "saved_at (d @ [t]) fs2 st \<longleftrightarrow> saved_at (d @ [t]) fs st" for st
    using sidecar_other [of fs d t i] f by (auto simp: saved_at_def n ready_def)
  moreover have "content_at (d @ [t]) fs2 = fs_data fs2 i" "content_at (d @ [t]) fs = fs_data fs i"
    by (simp_all add: content_at_def n(1) f(1))
  ultimately show ?thesis using u r a c2 by (simp add: upto_def honest_def n(1))
qed

lemma upto_write:
  assumes "upto d t i c fs" and "prefix data (drop c D)"
  shows "upto d t i (c + length data) (fs_write fs i c data)"
proof -
  have u: "c \<le> length (fs_data fs i)" "c \<le> length D" "agrees D c (fs_data fs i)" using assms(1) by (simp_all add: upto_def)
  note w = write_agrees [OF u assms(2)]
  show ?thesis
    by (rule upto_content [OF assms(1)]) (simp_all add: fs_write_data w length_write_at [OF u(1)])
qed

lemma upto_le: "upto d t i c fs \<Longrightarrow> m \<le> c \<Longrightarrow> upto d t i m fs"
  by (auto simp: upto_def agrees_nth)


subsection \<open>The sidecar\<close>

abbreviation side :: "path \<Rightarrow> string \<Rightarrow> path" where
  "side d t \<equiv> resume_path (d @ [t])"

text \<open>The sidecar holds a part of the text of a state that is right.\<close>

lemma upto_side:
  assumes u: "upto d t i c fs" and r: "ready d t fs2" "fs_node fs2 (d @ [t]) = Some (NFile i)"
    and n: "fs_node fs2 (side d t) = Some (NFile k)" "fs_data fs2 i = fs_data fs i"
    and x: "fs_data fs2 k = take m (ne_resume_text env \<lparr> rs_etag = tag, rs_offset = off \<rparr>)" "off \<le> c"
  shows "upto d t i c fs2"
proof -
  have f: "c \<le> length D" "c \<le> length (fs_data fs i)" "agrees D c (fs_data fs i)" using u by (simp_all add: upto_def)
  have "agrees D off (fs_data fs i)" using f x(2) by (auto simp: agrees_nth)
  then have "agrees D (rs_offset st) (content_at (d @ [t]) fs2)" if "saved_at (d @ [t]) fs2 st" for st
    using that sidecar [of m "\<lparr> rs_etag = tag, rs_offset = off \<rparr>" st] n r(2)
    by (auto simp: saved_at_def x(1) content_at_def)
  with r f n(2) show ?thesis by (simp add: upto_def honest_def)
qed

lemma create_side:
  assumes u: "upto d t i c fs" and "off \<le> c" and c: "fs_create fs (side d t) = Inr (k, fs2)"
  shows "(upto d t i c fs2 \<and> fs_data fs2 i = fs_data fs i) \<and> fs_node fs2 (side d t) = Some (NFile k) \<and>
    fs_data fs2 k = [] \<and> k \<noteq> i"
proof -
  have r: "ready d t fs" "fs_node fs (d @ [t]) = Some (NFile i)" using u by (simp_all add: upto_def honest_def)
  then have w: "dir_ok fs d" "fs_wf fs" "free_name fs (side d t)" by (simp_all add: ready_def)
  have e: "ready d t fs2 \<and> fs_node fs2 (d @ [t]) = Some (NFile i) \<and> fs_node fs2 (side d t) = Some (NFile k) \<and>
      fs_data fs2 i = fs_data fs i \<and> fs_data fs2 k = [] \<and> k \<noteq> i"
  proof (cases "fs_node fs (side d t) = None")
    case True
    then have "(k, fs2) = new_file fs (side d t)" using c create_none [OF w(1)] by simp
    then have k: "k = fs_next fs" "fs2 = snd (new_file fs (side d t))" by (metis new_file_fields(1) fst_conv, metis snd_conv)
    have "side d t \<noteq> []" by simp
    note n = new_file_node [OF this, of fs, folded k(2)]
    have "i < fs_next fs" using w(2) r(2) by (auto simp: fs_wf_def)
    moreover have "dir_ok fs2 d" unfolding k(2) resume_path_snoc using w(1) by (rule dir_ok_new_file)
    moreover have "fs_wf fs2" unfolding k(2) using w(2) by (simp add: fs_wf_new_file)
    moreover note new_file_fields(2) [of fs "side d t", folded k(2)]
    ultimately show ?thesis using r k(1) unfolding ready_def free_name_def n by simp
  next
    case False
    then obtain j where j: "fs_node fs (side d t) = Some (NFile j)" using w(3) by (auto simp: free_name_def)
    then have "j \<noteq> i" by (rule sidecar_other [OF w(2) r(2)])
    moreover have "k = j" "fs2 = fs\<lparr> fs_data := (fs_data fs)(j := []), fs_mtime := (fs_mtime fs)(j := fs_now fs) \<rparr>"
      using c create_file [OF w(1)] j by auto
    ultimately show ?thesis using r w j by (simp add: ready_def free_name_def)
  qed
  moreover from e have "upto d t i c fs2"
    using assms(2) by (intro upto_side [OF u, where k = k and m = 0 and off = off]) simp_all
  ultimately show ?thesis by blast
qed

lemma sidecar_written:
  assumes "upto d t i c fs" and "fs_node fs (side d t) = Some (NFile k)" and "fs_data fs k = []" and "k \<noteq> i" and "off \<le> c"
  shows "upto d t i c (fs_write fs k 0 (take m (ne_resume_text env \<lparr> rs_etag = tag, rs_offset = off \<rparr>)))"
proof (rule upto_side [OF assms(1), where k = k and m = m and off = off])
  show "ready d t (fs_write fs k 0 (take m (ne_resume_text env \<lparr> rs_etag = tag, rs_offset = off \<rparr>)))"
    using assms(1) by (simp add: upto_def honest_def ready_def free_name_def)
qed (use assms in \<open>simp_all add: fs_write_data write_bytes_def upto_def\<close>)

lemma parent_noop: "ready d t fs \<Longrightarrow> fs_create_dir_all fs d = (Inr (), fs)"
  using mkdirs_ok [of fs d "[]" d] by (simp add: ready_def fs_create_dir_all_def)

lemma parent_honest: "honest d t fs \<Longrightarrow> honest d t (snd (fs_create_dir_all fs d))"
  by (metis honest_def parent_noop snd_conv)

lemma parent_same: "upto d t i c fs \<Longrightarrow> fs_create_dir_all fs d = (Inr (), fs)"
  by (metis honest_def parent_noop upto_honest)

lemma save_right:
  assumes "off \<le> c"
  shows "cm_keeps (nw_is ok (\<lambda>fs. upto d t i c fs \<and> Y (fs_data fs i))) (save_resume_ignored env (d @ [t]) tag off)"
proof -
  let ?P = "\<lambda>fs. upto d t i c fs \<and> Y (fs_data fs i)" and ?st = "\<lparr> rs_etag = tag, rs_offset = off \<rparr>"
  have "cm_keeps (nw_is ok ?P) (native_make_parent env (d @ [t]))"
    unfolding native_make_parent_def
    by (intro keeps_rules nv_keeps(8) [OF closed]) (auto simp: parent_same)
  moreover have "cm_keeps (nw_is ok ?P) (native_write_file env (side d t) (ne_resume_text env ?st))"
    unfolding native_write_file_def
  proof (rule keepsI, rule sat_bind)
    let ?Q = "\<lambda>r fs. ?P fs \<and> (\<forall>k. r = Inr k \<longrightarrow> fs_node fs (side d t) = Some (NFile k) \<and> fs_data fs k = [] \<and> k \<noteq> i)"
    have "?Q r fs2" if "?P fs" "fs_change (\<lambda>fs. fs_create fs (side d t)) fs = (r, fs2)" for fs r fs2
      using that create_side [OF conjunct1 [OF that(1)] assms] by (auto simp: fs_change_def split: sum.splits prod.splits)
    then show "cm_sat (at_fs ok ?P) (nv_file env (fs_change (\<lambda>fs. fs_create fs (side d t)))) (\<lambda>r. at_fs ok (?Q r))
        (\<lambda>_. at_fs ok ?P) (at_fs ok ?P)"
      by (rule file_sat [OF closed]) simp_all
    fix r
    show "cm_sat (at_fs ok (?Q r))
        (case r of Inl e \<Rightarrow> cm_ret (Inl e) | Inr k \<Rightarrow> nv_write_at env k 0 (ne_resume_text env ?st))
        (\<lambda>_. at_fs ok ?P) (\<lambda>_. at_fs ok ?P) (at_fs ok ?P)"
    proof (cases r)
      case (Inr k)
      have w: "?P (fs_write fs k 0 (take m (ne_resume_text env ?st)))" if "?Q r fs" for fs m
        using that Inr assms sidecar_written [of d t i c fs k off m] by (simp add: fs_write_data)
      have w2: "?P (fs_write fs k 0 (ne_resume_text env ?st))" if "?Q r fs" for fs
        using w [OF that, of "length (ne_resume_text env ?st)"] by simp
      have "cm_sat (at_fs ok (?Q r)) (nv_write_at env k 0 (ne_resume_text env ?st))
          (\<lambda>q. at_fs ok (\<lambda>fs. case q of Inl _ \<Rightarrow> ?P fs | Inr _ \<Rightarrow> ?P fs)) (\<lambda>_. at_fs ok ?P) (at_fs ok ?P)"
        using w2 w by (intro write_at_sat [OF closed]) simp_all
      then show ?thesis unfolding Inr sum.case by (rule sat_conseq) (auto elim: at_fs_mono split: sum.splits)
    qed (auto intro!: sat_ret elim: at_fs_mono)
  qed
  ultimately show ?thesis
    unfolding save_resume_ignored_def save_resume_def by (intro keeps_rules)
qed

end

end
