(* ===== verification/Native_Fetch.thy ===== *)
theory Native_Fetch
  imports Native_Delivery
begin

text \<open>
  The runs of a native download under the contract: ranges are written in order, the sidecar follows what
  was written, and a success means that the file is on the disk.
\<close>

lemma feed_snoc: "feed z x (xs @ [c]) =
    res_bind (feed z x xs) (\<lambda>(o1, x1). res_bind (decompress z x1 c) (\<lambda>(o2, x2). Inr (o1 @ o2, x2)))"
  by (induction xs arbitrary: x) (auto simp: res_bind_def split: sum.splits)

text \<open>The files of the destination, as the operating system finds them.\<close>

lemma ready_stat:
  assumes "ready d t fs"
  shows "fs_stat fs True (d @ [t]) = ok_or enoent (fs_node fs (d @ [t]))"
    "fs_stat fs True (resume_path (d @ [t])) = ok_or enoent (fs_node fs (resume_path (d @ [t])))"
    "fs_walk fs True (d @ [t]) = Inr (d @ [t])"
proof -
  have r: "dir_ok fs d" "\<not> is_link fs (d @ [t])" "\<not> is_link fs (resume_path (d @ [t]))"
    using assms by (auto simp: ready_def free_name_def is_link_def)
  note w = walk_in_dir(2) [OF r(1)]
  show "fs_walk fs True (d @ [t]) = Inr (d @ [t])" using w r(2) .
  with w r show "fs_stat fs True (d @ [t]) = ok_or enoent (fs_node fs (d @ [t]))"
    "fs_stat fs True (resume_path (d @ [t])) = ok_or enoent (fs_node fs (resume_path (d @ [t])))"
    by (simp_all add: fs_stat_def)
qed

context native_service
begin

text \<open>Whatever goes wrong, the sidecar stays honest.\<close>

abbreviation sats ::
  "(fsys \<Rightarrow> bool) \<Rightarrow> ('s, 'n, 'a) nm \<Rightarrow> ('a \<Rightarrow> ('s, 'n native_world) client \<Rightarrow> bool) \<Rightarrow> path \<Rightarrow> string \<Rightarrow> bool" where
  "sats P m Q d t \<equiv> cm_sat (at_fs ok P) m Q (\<lambda>_. at_fs ok (honest d t)) (\<lambda>_. True)"

lemma sats_keeps:
  assumes "cm_keeps (nw_is ok P) m" and "\<And>fs. P fs \<Longrightarrow> honest d t fs"
  shows "sats P m (\<lambda>_. at_fs ok P) d t"
  by (rule sat_conseq [OF keeps_sat [OF assms(1)]]) (auto elim: at_fs_mono assms(2))

lemma sats_step:
  assumes "cm_keeps (nw_is ok P) m" and "\<And>fs. P fs \<Longrightarrow> honest d t fs" and "\<And>x. sats P (f x) Q d t"
  shows "sats P (cm_bind m f) Q d t"
  using sats_keeps [OF assms(1,2)] assms(3) by (rule sat_bind)

text \<open>A step that leaves everything as it is, and may fail.\<close>

lemma keeps_then:
  assumes "cm_keeps (nw_is ok P) m" and "\<And>x. cm_sat (at_fs ok P) (f x) Q (\<lambda>_. at_fs ok P) (\<lambda>_. True)"
  shows "cm_sat (at_fs ok P) (cm_bind m f) Q (\<lambda>_. at_fs ok P) (\<lambda>_. True)"
proof (rule sat_bind)
  show "cm_sat (at_fs ok P) m (\<lambda>_. at_fs ok P) (\<lambda>_. at_fs ok P) (\<lambda>_. True)"
    by (rule sat_conseq [OF keeps_sat [OF assms(1)]]) simp_all
qed (fact assms(2))

lemmas steps = keeps_rules nv_keeps [OF closed] ranges_keep [OF closed] capabilities_keeps [OF closed]

subsection \<open>Writing\<close>

lemma write_data_right:
  assumes "nj_file j = i" and "prefix data (drop c D)"
  shows "sats (upto d t i c) (write_data_at env j c data) (\<lambda>_. at_fs ok (upto d t i (c + length data))) d t"
proof -
  have w: "upto d t i (c + length data) (fs_write fs i c data)" if "upto d t i c fs" for fs
    using that assms(2) by (rule upto_write)
  have p: "honest d t (fs_write fs i c (take k data))" if "upto d t i c fs" for fs k
  proof -
    have "prefix (take k data) (drop c D)" using take_is_prefix assms(2) by (rule prefix_order.trans)
    then show ?thesis using upto_write [OF that] by (blast intro: upto_honest)
  qed
  have "sats (upto d t i c) (cm_bind (nv_write_at env i c data) (\<lambda>r. cm_lift (map_err (storage_failure ''write'') r)))
      (\<lambda>_. at_fs ok (upto d t i (c + length data))) d t"
  proof (rule sat_bind)
    show "sats (upto d t i c) (nv_write_at env i c data)
        (\<lambda>r. at_fs ok (\<lambda>fs. case r of Inl _ \<Rightarrow> honest d t fs | Inr _ \<Rightarrow> upto d t i (c + length data) fs)) d t"
      by (rule write_at_sat [OF closed]) (simp_all add: w p)
    show "sats (\<lambda>fs. case r of Inl _ \<Rightarrow> honest d t fs | Inr _ \<Rightarrow> upto d t i (c + length data) fs)
        (cm_lift (map_err (storage_failure ''write'') r)) (\<lambda>_. at_fs ok (upto d t i (c + length data))) d t" for r
      by (cases r) (auto intro!: sat_lift)
  qed
  then show ?thesis
    unfolding write_data_at_def assms(1) by (intro sats_step [OF nv_keeps(8) [OF closed]]) (auto intro: upto_honest)
qed

lemma periodic_right:
  "nj_dest j = d @ [t] \<Longrightarrow> nj_etag j = tag \<Longrightarrow> off \<le> c \<Longrightarrow> cm_keeps (nw_is ok (upto d t i c)) (save_periodically env j off ls)"
  unfolding save_periodically_def by (intro steps) (simp_all add: save_right [where Y = "\<lambda>_. True", simplified])

text \<open>A part of a range continues the file.\<close>

lemma block_prefix: "prefix x (block_of D s e) \<Longrightarrow> prefix x (drop s D)"
  by (metis block_of_def prefix_order.trans take_is_prefix)

lemma sat_exact: "length D + n \<le> u64_max \<Longrightarrow> a + b \<le> length D \<Longrightarrow> sat_add a b = a + b"
  by (simp add: sat_add_def)

lemma flush_right:
  assumes j: "nj_file j = i" "nj_dest j = d @ [t]" "nj_etag j = tag"
    and b: "chain a B stop" "stop \<le> length D"
    and w: "waiting D B stop S (a + m) pending"
  shows "sats (upto d t i (a + m)) (flush_pending env j db tot rtt (pending, a + m, m, ls))
     (\<lambda>(p2, c2, m2, ls2) s. (c2 = a + m2 \<and> waiting D B stop S c2 p2 \<and> map_of p2 c2 = None) \<and> at_fs ok (upto d t i c2) s) d t"
  using w
proof (induction "length pending" arbitrary: pending m ls rule: less_induct)
  case less
  let ?c = "a + m"
  show ?case
  proof (cases "map_of pending ?c")
    case None
    then show ?thesis using less.prems by (subst flush_pending.simps) (auto intro!: sat_ret)
  next
    case (Some x)
    obtain e where e: "?c < e" "e \<le> stop" "x = block_of D ?c e" "length x = e - ?c"
      "waiting D B stop S e (AList.delete ?c pending)"
      using waiting_flush [OF less.prems b(1) Some b(2)] by blast
    have l: "sat_add ?c (length x) = a + (e - a)" "sat_add m (length x) = e - a" "?c + length x = a + (e - a)"
      using e(1,2,4) b(2) small by (simp_all add: sat_add_def)
    have "prefix x (drop ?c D)" unfolding e(3) by (rule block_prefix [OF prefix_order.refl])
    note wr = write_data_right [OF j(1) this, of d t, unfolded l(3)]
    have "sats (upto d t i (a + (e - a)))
        (flush_pending env j db tot rtt (AList.delete ?c pending, a + (e - a), e - a, ls2))
        (\<lambda>(p2, c2, m2, ls2) s. (c2 = a + m2 \<and> waiting D B stop S c2 p2 \<and> map_of p2 c2 = None) \<and> at_fs ok (upto d t i c2) s) d t" for ls2
      by (rule less.hyps) (use Some e in \<open>simp_all add: length_delete_less\<close>)
    then show ?thesis
      by (subst flush_pending.simps, simp only: Some option.case Let_def l)
        (intro sat_bind [OF wr] sats_step steps periodic_right j, auto intro: upto_honest)
  qed
qed

subsection \<open>Ranges\<close>

lemma send_sat:
  fixes Q :: "http_reply \<times> string option \<Rightarrow> bool"
  assumes "reads req" and "\<And>n reply n2. ok n \<Longrightarrow> ne_send env req n = (Inr reply, n2) \<Longrightarrow> Q reply"
  shows "cm_sat (at_fs ok P) (nv_send env req) (\<lambda>r s. Q r \<and> at_fs ok P s) (\<lambda>_. at_fs ok P) N"
  unfolding nv_send_def
proof (rule sat_world)
  fix s :: "('s, 'n native_world) client" and r w
  assume s: "at_fs ok P s"
    and e: "(let (r, n) = ne_send env req (nw_net (cl_world s)) in (map_err Err_Network r, (cl_world s)\<lparr> nw_net := n \<rparr>)) = (r, w)"
  obtain q n where q: "ne_send env req (nw_net (cl_world s)) = (q, n)" by force
  have o1: "ok (nw_net (cl_world s))" "P (nw_fs (cl_world s))" "engine_ok (cl_tune s)"
    using s by (simp_all add: in_order_def nw_is_def)
  moreover have "ok n" using net_closedD(1) [OF closed o1(1) assms(1)] q by (metis snd_conv)
  ultimately show "case r of Inl e \<Rightarrow> at_fs ok P (s\<lparr> cl_world := w \<rparr>) | Inr x \<Rightarrow> Q x \<and> at_fs ok P (s\<lparr> cl_world := w \<rparr>)"
    using e q assms(2) [OF o1(1)] by (cases q) (auto simp: in_order_def nw_is_def)
qed

text \<open>What the server promises of a range, for a reply that has come.\<close>

definition range_reply :: "nat \<Rightarrow> nat \<Rightarrow> http_reply \<times> string option \<Rightarrow> bool" where
  "range_reply s e = (\<lambda>(reply, broken).
     (\<forall>data. broken = None \<longrightarrow> whole_body (ne_zrip env) (native_format env reply) (concat (rp_body reply)) = Inr data \<longrightarrow>
        prefix data (block_of D s e)) \<and>
     (\<forall>xs ys out x. rp_body reply = xs @ ys \<longrightarrow>
        feed (ne_zrip env) (decompressor_new (native_format env reply)) xs = Inr (out, x) \<longrightarrow> prefix out (block_of D s e)) \<and>
     (\<forall>data. broken = None \<longrightarrow>
        feed_all (ne_zrip env) (decompressor_new (native_format env reply)) (rp_body reply) = Inr data \<longrightarrow>
        data = block_of D s e))"

lemma range_replyD:
  assumes "range_reply s e (reply, broken)"
  shows "rp_body reply = xs @ ys \<Longrightarrow> feed (ne_zrip env) (decompressor_new (native_format env reply)) xs = Inr (out, x) \<Longrightarrow>
      prefix out (block_of D s e)"
    "broken = None \<Longrightarrow> feed_all (ne_zrip env) (decompressor_new (native_format env reply)) (rp_body reply) = Inr data \<Longrightarrow>
      data = block_of D s e"
  using assms by (auto simp: range_reply_def)

lemma request_sat:
  assumes j: "nj_remote j = remote" "nj_etag j = tag" and "s < e" "e \<le> length D"
  shows "cm_sat (at_fs ok P) (range_request env j s e) (\<lambda>(r, rtt) w. range_reply s e r \<and> at_fs ok P w) (\<lambda>_. at_fs ok P) (\<lambda>_. True)"
proof -
  have "range_reply s e r" if "ok n" "ne_send env (range_get env j s e) n = (Inr r, n2)" "rp_status (fst r) = 206" for n r n2
    using range [OF that(1) assms(1-4), of "fst r" "snd r" n2] that(2,3) by (simp add: range_reply_def case_prod_beta)
  then have r: "cm_sat (at_fs ok P) (nv_send env (range_get env j s e))
      (\<lambda>r w. (rp_status (fst r) = 206 \<longrightarrow> range_reply s e r) \<and> at_fs ok P w) (\<lambda>_. at_fs ok P) N" for N
    by (intro send_sat) (auto simp: reads_def range_get_def)
  show ?thesis
    unfolding range_request_def
    apply (rule keeps_then [OF nv_keeps(3) [OF closed]])
    apply (rule sat_bind [OF r])
    apply (rule sat_fact)
    apply (rule keeps_then [OF nv_keeps(3) [OF closed]])
    apply (auto intro!: sat_if sat_ret sat_fail)
    done
qed

lemma to_vec_sat:
  assumes "nj_remote j = remote" "nj_etag j = tag" "s < e" "e \<le> length D"
  shows "cm_sat (at_fs ok P) (range_to_vec env j s e) (\<lambda>(data, rtt) w. prefix data (block_of D s e) \<and> at_fs ok P w)
    (\<lambda>_. at_fs ok P) (\<lambda>_. True)"
  unfolding range_to_vec_def
proof (rule sat_bind [OF request_sat [OF assms]], clarify, rule sat_fact)
  fix reply broken rtt
  assume r: "range_reply s e (reply, broken)"
  show "cm_sat (at_fs ok P)
      (cm_bind (cm_lift (nv_body (reply, broken))) (\<lambda>body.
       cm_bind (cm_lift (whole_body (ne_zrip env) (native_format env (fst (reply, broken))) body)) (\<lambda>out. cm_ret (out, rtt))))
      (\<lambda>(data, rtt) w. prefix data (block_of D s e) \<and> at_fs ok P w) (\<lambda>_. at_fs ok P) (\<lambda>_. True)"
  proof (cases broken)
    case None
    then have b: "nv_body (reply, broken) = Inr (concat (rp_body reply))" by (simp add: nv_body_def)
    show ?thesis
    proof (cases "whole_body (ne_zrip env) (native_format env reply) (concat (rp_body reply))")
      case (Inr data)
      then have "prefix data (block_of D s e)" using r None unfolding range_reply_def by blast
      with b Inr show ?thesis by (simp add: sat_ret)
    qed (simp add: b sat_fail)
  qed (simp add: nv_body_def sat_fail)
qed

lemma retry_sat:
  assumes j: "nj_remote j = remote" "nj_etag j = tag" and se: "s < e" "e \<le> length D"
  shows "cm_sat (at_fs ok P) (get_range_with_retry env j s e attempt)
    (\<lambda>(data, rtt) w. data = block_of D s e \<and> at_fs ok P w) (\<lambda>_. at_fs ok P) (\<lambda>_. True)"
proof (induction "cg_max_retries (ne_client env) - attempt" arbitrary: attempt rule: less_induct)
  case less
  have full: "data = block_of D s e" if "prefix data (block_of D s e)" "length data = u64_sub e s" for data
  proof -
    have "length data = length (block_of D s e)" using that(2) se small u64_sub_exact [of s e] by (simp add: block_of_def)
    with that(1) show ?thesis by (metis append_eq_conv_conj prefix_def take_all_iff order_refl)
  qed
  show ?case
    apply (subst get_range_with_retry.simps)
    apply (rule sat_bind [OF sat_attempt [OF to_vec_sat [OF j se]]])
    subgoal for r
    proof (cases r)
      case (Inl e1)
      show ?thesis
        unfolding Inl sum.case
        by (intro sat_if sat_fail keeps_then steps less.hyps) auto
    next
      case (Inr q)
      obtain data rtt where q: "q = (data, rtt)" by force
      show ?thesis
        unfolding Inr q sum.case prod.case
        by (rule sat_fact) (auto intro!: sat_fail sat_ret full)
    qed
    done
qed

text \<open>The chunks of a batch, in the order in which they complete.\<close>

lemma chunks_sat:
  assumes j: "nj_remote j = remote" "nj_etag j = tag" "nj_file j = i" "nj_dest j = d @ [t]"
    and b: "chain a B stop" "stop \<le> length D"
  shows "set cs \<subseteq> set B \<Longrightarrow> set B \<subseteq> S \<union> set cs \<Longrightarrow> waiting D B stop S (a + m) p \<Longrightarrow> map_of p (a + m) = None \<Longrightarrow>
    sats (upto d t i (a + m)) (batch_chunks env j db tot cs (p, a + m, m, ls))
      (\<lambda>n s. a + n = stop \<and> at_fs ok (upto d t i stop) s) d t"
proof (induction cs arbitrary: S p m ls)
  case Nil
  then have "a + m = stop" using waiting_done [of D B stop S "a + m" p] by simp
  then show ?case by (auto intro!: sat_ret)
next
  case (Cons ch cs)
  obtain s e where ch: "ch = (s, e)" by force
  then have m: "(s, e) \<in> set B" using Cons.prems(1) by simp
  have se: "s < e" "e \<le> length D" using chain_mem [OF b(1) m] b(2) by linarith+
  let ?P = "upto d t i (a + m)"
  have at: "sats ?P (cm_attempt (get_range_with_retry env j s e 0))
      (\<lambda>r w. (case r of Inl _ \<Rightarrow> True | Inr (data, _) \<Rightarrow> data = block_of D s e) \<and> at_fs ok ?P w) d t"
    by (rule sat_conseq [OF sat_attempt [OF retry_sat [OF j(1,2) se]]]) (auto split: sum.splits)
  show ?case
    unfolding ch batch_chunks.simps
  proof (rule sat_bind [OF at], rule sat_fact)
    fix r :: "libfw_error + bytes \<times> f64"
    assume r: "case r of Inl _ \<Rightarrow> True | Inr (data, _) \<Rightarrow> data = block_of D s e"
    show "sats ?P (case r of
         Inl err \<Rightarrow> cm_bind (nv_tick env (sat_add db m) None True) (\<lambda>_. cm_fail err)
       | Inr (data, rtt) \<Rightarrow>
           cm_bind (flush_pending env j db tot rtt (btree_insert s data p, a + m, m, ls))
             (\<lambda>st. batch_chunks env j db tot cs st))
        (\<lambda>n s. a + n = stop \<and> at_fs ok (upto d t i stop) s) d t"
    proof (cases r)
      case (Inl err)
      show ?thesis
        unfolding Inl sum.case by (intro sats_step [OF nv_keeps(9) [OF closed]] sat_fail) (auto elim: at_fs_mono intro: upto_honest)
    next
      case (Inr q)
      then obtain rtt where q: "q = (block_of D s e, rtt)" using r by (cases q) auto
      have w: "waiting D B stop (insert (s, e) S) (a + m) (btree_insert s (block_of D s e) p)"
        using waiting_insert [OF Cons.prems(3) m refl] .
      show ?thesis
        unfolding Inr q sum.case prod.case
      proof (rule sat_bind [OF flush_right [OF j(3,4,2) b w]], clarify, rule sat_fact)
        fix p2 c2 m2 ls2
        assume c: "c2 = a + m2 \<and> waiting D B stop (insert (s, e) S) c2 p2 \<and> map_of p2 c2 = None"
        then have c2: "c2 = a + m2" ..
        show "sats (upto d t i c2) (batch_chunks env j db tot cs (p2, c2, m2, ls2))
            (\<lambda>n s. a + n = stop \<and> at_fs ok (upto d t i stop) s) d t"
          unfolding c2
          by (rule Cons.IH [of "insert (s, e) S"]) (use c ch Cons.prems(1,2) in auto)
      qed
    qed
  qed
qed

lemma batch_right:
  assumes j: "nj_remote j = remote" "nj_etag j = tag" "nj_file j = i" "nj_dest j = d @ [t]"
    and c: "a \<le> stop" "stop \<le> length D" "0 < k" "k \<le> 16777216"
  shows "sats (upto d t i a) (download_batch env j a stop tot db k) (\<lambda>n s. a + n = stop \<and> at_fs ok (upto d t i stop) s) d t"
proof -
  have "stop + k \<le> u64_max" using c small by linarith
  then obtain bs where bs: "parallel_chunks a stop k = Some bs" "chain a bs stop"
    using parallel_chunks_chain [OF c(1,3)] by blast
  have o1: "sats (upto d t i a) (nv_order env bs) (\<lambda>cs s. set cs = set bs \<and> at_fs ok (upto d t i a) s) d t"
    unfolding nv_order_def
    by (rule sat_world)
      (auto simp: case_prod_beta in_order_def nw_is_def net_closedD(4) [OF closed])
  show ?thesis
    unfolding download_batch_def bs(1)
    apply (rule sat_bind [OF sat_loop [where Q = "\<lambda>x s. x = bs \<and> at_fs ok (upto d t i a) s"]])
    subgoal by simp
    subgoal by simp
    apply (rule sat_fact, simp only:)
    apply (rule sat_bind [OF o1], rule sat_fact)
    using chunks_sat [OF j bs(2) c(2), where S = "{}" and m = 0 and p = "[]"] waiting_start [OF bs(2)]
    by simp
qed

subsection \<open>The loop of the batches\<close>

lemma chunk_fine: "at_fs ok P s \<Longrightarrow> max (pm_chunk_size (te_params (cl_tune s))) 1 \<le> 16777216"
  by (drule in_orderD(2)) (auto simp: engine_ok_def params_ok_def hard_max_chunk_size_def)

lemma step_right:
  assumes j: "nj_remote j = remote" "nj_etag j = tag" "nj_file j = i" "nj_dest j = d @ [t]"
  shows "sats (upto d t i (a + m)) (native_batch_step env j (length D) (a + m, m))
    (\<lambda>r s. case r of
       Inl (c2, m2) \<Rightarrow> c2 = a + m2 \<and> at_fs ok (upto d t i c2) s
     | Inr n \<Rightarrow> a + n = length D \<and> at_fs ok (upto d t i (length D)) s) d t"
proof (cases "length D \<le> a + m")
  case True
  then have "a + m = length D" if "upto d t i (a + m) fs" for fs using that by (simp add: upto_def)
  with True show ?thesis
    by (auto simp: native_batch_step_def in_order_def nw_is_def intro!: sat_ret)
next
  case False
  let ?c = "a + m" and ?P = "upto d t i (a + m)"
  have b: "sats ?P
      (cm_bind (download_batch env j ?c (sat_add ?c (batch_span (length D - ?c) k w)) (length D) m k) (\<lambda>got.
          if got = 0 then cm_ret (Inr m)
          else cm_bind (save_resume_ignored env (nj_dest j) (nj_etag j) (sat_add ?c got)) (\<lambda>_.
               cm_ret (Inl (sat_add ?c got, sat_add m got)))))
    (\<lambda>r s. case r of
       Inl (c2, m2) \<Rightarrow> c2 = a + m2 \<and> at_fs ok (upto d t i c2) s
     | Inr n \<Rightarrow> a + n = length D \<and> at_fs ok (upto d t i (length D)) s) d t" if k: "0 < k" "k \<le> 16777216" for k w
  proof -
    let ?n = "batch_span (length D - ?c) k w"
    have n: "1 \<le> ?n" "?n \<le> length D - ?c" using batch_span_bounds [of "length D - ?c" k w] False by simp_all
    then have l: "sat_add ?c ?n = ?c + ?n" "sat_add m ?n = m + ?n" "?c + ?n \<le> length D"
      using small False by (simp_all add: sat_add_def)
    show ?thesis
      unfolding l(1)
    proof (rule sat_bind [OF batch_right [OF j _ l(3) k]], simp, rule sat_fact)
      fix got
      assume "?c + got = ?c + ?n"
      then have g: "got = ?n" by simp
      have g0: "?n \<noteq> 0" using n by simp
      show "sats (upto d t i (?c + ?n))
         (if got = 0 then cm_ret (Inr m)
          else cm_bind (save_resume_ignored env (nj_dest j) (nj_etag j) (sat_add ?c got)) (\<lambda>_.
               cm_ret (Inl (sat_add ?c got, sat_add m got))))
        (\<lambda>r s. case r of
           Inl (c2, m2) \<Rightarrow> c2 = a + m2 \<and> at_fs ok (upto d t i c2) s
         | Inr n \<Rightarrow> a + n = length D \<and> at_fs ok (upto d t i (length D)) s) d t"
        unfolding g if_not_P [OF g0] l(1,2) j
        by (intro sats_step [OF save_right [where Y = "\<lambda>_. True", simplified, OF order_refl]] sat_ret)
          (auto intro: upto_honest simp: ac_simps)
    qed
  qed
  have c: "\<not> length D \<le> ?c" using False .
  show ?thesis
    unfolding native_batch_step_def prod.case if_not_P [OF c]
    apply (rule sat_bind [OF sat_get [where Q = "\<lambda>_. at_fs ok ?P"]], assumption)
    apply (rule sat_bind [OF sat_get [where Q = "\<lambda>k s. (0 < k \<and> k \<le> 16777216) \<and> at_fs ok ?P s"]])
    subgoal for w s using chunk_fine [of ?P s] by simp
    apply (rule sat_fact, elim conjE)
    apply (erule (1) b)
    done
qed

lemma loop_right:
  assumes "nj_remote j = remote" "nj_etag j = tag" "nj_file j = i" "nj_dest j = d @ [t]"
  shows "sats (upto d t i a) (cm_while (native_batch_step env j (length D)) (a, 0))
    (\<lambda>n s. a + n = length D \<and> at_fs ok (upto d t i (length D)) s) d t"
proof -
  define J where "J = (\<lambda>(c, m) s. c = a + m \<and> at_fs ok (upto d t i c) (s :: ('s, 'n native_world) client))"
  have "cm_sat (J x) (native_batch_step env j (length D) x)
      (\<lambda>r s. case r of Inl x2 \<Rightarrow> J x2 s | Inr n \<Rightarrow> a + n = length D \<and> at_fs ok (upto d t i (length D)) s)
      (\<lambda>_. at_fs ok (honest d t)) (\<lambda>_. True)" for x
  proof (cases x)
    case (Pair c m)
    show ?thesis
      unfolding Pair J_def prod.case
      by (rule sat_fact, simp only:, rule sat_conseq [OF step_right [OF assms]]) (auto split: sum.splits)
  qed
  then have "cm_sat (J (a, 0)) (cm_while (native_batch_step env j (length D)) (a, 0))
      (\<lambda>n s. a + n = length D \<and> at_fs ok (upto d t i (length D)) s) (\<lambda>_. at_fs ok (honest d t)) (\<lambda>_. True)"
    by (rule sat_while) simp
  then show ?thesis by (rule sat_pre) (simp add: J_def)
qed

subsection \<open>One request\<close>

text \<open>\<open>xs\<close> has been read and gave \<open>out\<close>.\<close>

lemma stream_right:
  assumes j: "nj_etag j = tag" "nj_file j = i" "nj_dest j = d @ [t]"
    and r: "range_reply a (length D) (reply, broken)"
  defines "x0 \<equiv> decompressor_new (native_format env reply)"
  shows "rp_body reply = xs @ cs \<Longrightarrow> feed (ne_zrip env) x0 xs = Inr (out, x) \<Longrightarrow>
    sats (upto d t i (a + length out)) (native_stream env j sz rtt broken cs x (a + length out) (length out) ls)
      (\<lambda>(x2, c2, m2) s. (\<exists>out2. broken = None \<and> feed (ne_zrip env) x0 (rp_body reply) = Inr (out2, x2) \<and>
        c2 = a + length out2 \<and> m2 = length out2) \<and> at_fs ok (upto d t i c2) s) d t"
proof (induction cs arbitrary: xs x out ls)
  case Nil
  show ?case
  proof (cases broken)
    case None
    with Nil show ?thesis by (auto intro!: sat_ret)
  next
    case (Some e)
    then show ?thesis by (auto intro!: sat_fail elim: at_fs_mono intro: upto_honest)
  qed
next
  case (Cons c cs)
  show ?case
  proof (cases "decompress (ne_zrip env) x c")
    case (Inl e)
    then show ?thesis by (auto intro!: sat_fail elim: at_fs_mono intro: upto_honest)
  next
    case (Inr q)
    obtain o2 x2 where q: "q = (o2, x2)" by force
    have f: "feed (ne_zrip env) x0 (xs @ [c]) = Inr (out @ o2, x2)" using Cons.prems(2) Inr q by (simp add: feed_snoc)
    have b: "rp_body reply = (xs @ [c]) @ cs" using Cons.prems(1) by simp
    note ih = Cons.IH [OF b f]
    have "prefix (out @ o2) (block_of D a (length D))"
      by (rule range_replyD(1) [OF r b f [unfolded x0_def]])
    then have p: "prefix (out @ o2) (drop a D)" by (rule block_prefix)
    then obtain r2 where r2: "drop a D = out @ o2 @ r2" by (auto simp: prefix_def)
    have "drop (a + length out) D = drop (length out) (drop a D)" by (simp add: add.commute)
    then have p2: "prefix o2 (drop (a + length out) D)" by (simp add: r2)
    have l: "a + length (out @ o2) \<le> length D \<or> length (out @ o2) = 0" using prefix_length_le [OF p]
      by (cases "a \<le> length D") auto
    show ?thesis
    proof (cases "o2 = []")
      case True
      with ih show ?thesis by (simp add: Inr q)
    next
      case False
      with l have e: "sat_add (a + length out) (length o2) = a + length (out @ o2)" "sat_add (length out) (length o2) = length (out @ o2)"
        using small by (simp_all add: sat_add_def)
      note w = write_data_right [OF j(2) p2, of d t]
      have u: "a + length out + length o2 = a + length (out @ o2)" by simp
      show ?thesis
        unfolding native_stream.simps Inr q sum.case prod.case if_not_P [OF False] Let_def e
        by (intro sat_bind [OF w [unfolded u]] sats_step steps ih periodic_right [OF j(3,1) order_refl])
          (auto intro: upto_honest)
    qed
  qed
qed

lemma sequential_right:
  assumes j: "nj_remote j = remote" "nj_etag j = tag" "nj_file j = i" "nj_dest j = d @ [t]" and a: "a < length D"
  shows "sats (upto d t i a) (download_sequential env j a (length D))
    (\<lambda>n s. a + n = length D \<and> at_fs ok (upto d t i (length D)) s) d t"
proof -
  have rq: "sats (upto d t i a) (range_request env j a (length D))
      (\<lambda>(r, rtt) w. range_reply a (length D) r \<and> at_fs ok (upto d t i a) w) d t"
    by (rule sat_conseq [OF request_sat [OF j(1,2) a order_refl]]) (assumption | erule at_fs_mono, erule upto_honest | rule TrueI)+
  show ?thesis
    unfolding download_sequential_def
  proof (rule sat_bind [OF rq], clarify, rule sat_fact)
    fix reply broken rtt
    let ?x0 = "decompressor_new (native_format env reply)"
    assume r: "range_reply a (length D) (reply, broken)"
    have st: "sats (upto d t i a) (native_stream env j (length D) rtt broken (rp_body reply) ?x0 a 0 0)
        (\<lambda>(x2, c2, m2) s. (\<exists>out2. broken = None \<and> feed (ne_zrip env) ?x0 (rp_body reply) = Inr (out2, x2) \<and>
          c2 = a + length out2 \<and> m2 = length out2) \<and> at_fs ok (upto d t i c2) s) d t"
      using stream_right [OF j(2-4) r, of "[]" "rp_body reply" "[]" ?x0] by simp
    show "sats (upto d t i a)
       (cm_bind (native_stream env j (length D) rtt broken (rp_body reply) ?x0 a 0 0) (\<lambda>(x, c, m).
          case decompress_finish (ne_zrip env) x of
            Inl e \<Rightarrow> cm_fail (decompress_text e)
          | Inr (out, _) \<Rightarrow>
              if out = [] then cm_ret m
              else cm_bind (write_data_at env j c out) (\<lambda>_. cm_ret (sat_add m (length out)))))
       (\<lambda>n s. a + n = length D \<and> at_fs ok (upto d t i (length D)) s) d t"
    proof (rule sat_bind [OF st], clarify, rule sat_fact, elim exE conjE)
      fix x c m out2
      assume b: "broken = None" "feed (ne_zrip env) ?x0 (rp_body reply) = Inr (out2, x)"
        "c = a + length out2" "m = length out2"
      show "sats (upto d t i c)
         (case decompress_finish (ne_zrip env) x of
            Inl e \<Rightarrow> cm_fail (decompress_text e)
          | Inr (out, _) \<Rightarrow>
              if out = [] then cm_ret m
              else cm_bind (write_data_at env j c out) (\<lambda>_. cm_ret (sat_add m (length out))))
         (\<lambda>n s. a + n = length D \<and> at_fs ok (upto d t i (length D)) s) d t"
      proof (cases "decompress_finish (ne_zrip env) x")
        case (Inl e)
        then show ?thesis by (auto intro!: sat_fail elim: at_fs_mono intro: upto_honest)
      next
        case (Inr q)
        obtain out y where q: "q = (out, y)" by force
        have "feed_all (ne_zrip env) ?x0 (rp_body reply) = Inr (out2 @ out)"
          using b(2) Inr q by (simp add: feed_all_def)
        then have o1: "out2 @ out = block_of D a (length D)" by (rule range_replyD(2) [OF r b(1)])
        then have o2: "out2 @ out = drop a D" by (simp add: block_of_def)
        then have l: "length out2 + length out = length D - a" by (metis length_append length_drop)
        have p: "prefix out (drop c D)"
          unfolding b(3) by (metis o2 add.commute append_eq_conv_conj drop_drop prefix_order.refl)
        show ?thesis
        proof (cases "out = []")
          case True
          then show ?thesis using l a b(3,4) by (auto simp: Inr q intro!: sat_ret)
        next
          case False
          have e: "c + length out = length D" "a + sat_add m (length out) = length D"
            using l a b(3,4) small by (simp_all add: sat_add_def)
          show ?thesis
            unfolding Inr q sum.case prod.case if_not_P [OF False]
            by (rule sat_bind [OF write_data_right [OF j(3) p, unfolded e(1)]]) (simp add: sat_ret e(2))
        qed
      qed
    qed
  qed
qed

subsection \<open>A file\<close>

text \<open>The file is on the disk, and nothing is left of what was there before.\<close>

definition complete :: "path \<Rightarrow> string \<Rightarrow> fsys \<Rightarrow> bool" where
  "complete d t fs \<longleftrightarrow> honest d t fs \<and> content_at (d @ [t]) fs = D"

lemma cut_right:
  assumes "upto d t i (length D) fs"
  shows "upto d t i (length D) (fs_set_len i (length D) fs)" "fs_data (fs_set_len i (length D) fs) i = D"
proof -
  have u: "length D \<le> length (fs_data fs i)" "agrees D (length D) (fs_data fs i)" using assms by (simp_all add: upto_def)
  then have e: "take (length D) (fs_data fs i) @ replicate (length D - length (fs_data fs i)) 0 = D"
    by (rule set_len_exact)
  then show x: "fs_data (fs_set_len i (length D) fs) i = D" by (simp add: fs_set_len_def fs_len_def)
  have "agrees D n D" for n by (simp add: agrees_def)
  then show "upto d t i (length D) (fs_set_len i (length D) fs)"
    using x by (intro upto_content [OF assms]) (simp_all add: fs_set_len_def)
qed

lemma fill_right:
  assumes j: "nj_remote j = remote" "nj_etag j = tag" "nj_file j = i" "nj_dest j = d @ [t]" and a: "a < length D"
  shows "sats (upto d t i a) (fill_file env j a (length D)) (\<lambda>_. at_fs ok (complete d t)) d t"
proof -
  let ?P = "\<lambda>fs. upto d t i (length D) fs \<and> fs_data fs i = D"
  have w: "sats (upto d t i a) (if native_should_chunked (length D) a then cm_while (native_batch_step env j (length D)) (a, 0)
        else download_sequential env j a (length D))
      (\<lambda>n s. a + n = length D \<and> at_fs ok (upto d t i (length D)) s) d t"
    by (intro sat_if loop_right sequential_right j a)
  have t: "sats (upto d t i (length D)) (nv_storage env (''truncate '' @ ne_display env (nj_dest j))
      (\<lambda>fs. (Inr (), fs_set_len i (length D) fs))) (\<lambda>_. at_fs ok ?P) d t"
    by (rule storage_sat [OF closed]) (auto simp: cut_right intro: upto_honest)
  have s: "cm_keeps (nw_is ok ?P) (save_resume_ignored env (d @ [t]) tag (length D))"
    by (rule save_right) simp
  show ?thesis
    unfolding fill_file_def
  proof (rule sat_bind [OF w], rule sat_fact)
    fix n
    assume n: "a + n = length D"
    have e: "sat_add a n = length D" using n small by (simp add: sat_add_def)
    have c: "complete d t fs" if "?P fs" for fs using that by (simp add: complete_def upto_def content_at_def)
    show "sats (upto d t i (length D))
       (cm_bind (nv_storage env (''truncate '' @ ne_display env (nj_dest j)) (\<lambda>fs. (Inr (), fs_set_len (nj_file j) (length D) fs))) (\<lambda>_.
        cm_bind (nv_storage env (''flush '' @ ne_display env (nj_dest j)) (fs_silent (\<lambda>_. Inr ()))) (\<lambda>_.
        let computed = sat_add a n in
        if computed \<noteq> length D then cm_fail (native_stopped (nj_remote j) computed (length D))
        else cm_bind (save_resume_ignored env (nj_dest j) (nj_etag j) (length D)) (\<lambda>_.
             cm_bind (nv_emit env (Ev_file_done (nj_remote j) n)) (\<lambda>_. cm_ret n)))))
       (\<lambda>_. at_fs ok (complete d t)) d t"
      unfolding j e Let_def
      apply (rule sat_bind [OF t [unfolded j]])
      apply (rule sats_step [OF nv_keeps(8) [OF closed]])
      subgoal by simp
      subgoal by (erule conjunct1 [THEN upto_honest])
      apply (simp only: simp_thms if_False)
      apply (rule sats_step [OF s])
      subgoal by (erule conjunct1 [THEN upto_honest])
      apply (rule sats_step [OF nv_keeps(1) [OF closed]])
      subgoal by (erule conjunct1 [THEN upto_honest])
      apply (rule sat_ret, erule at_fs_mono, erule c)
      done
  qed
qed

text \<open>A start that is right.\<close>

definition started :: "path \<Rightarrow> string \<Rightarrow> nat \<Rightarrow> fsys \<Rightarrow> bool" where
  "started d t a fs \<longleftrightarrow> honest d t fs \<and> a \<le> length D \<and> a \<le> length (content_at (d @ [t]) fs) \<and>
     agrees D a (content_at (d @ [t]) fs)"

definition fetched :: "path \<Rightarrow> string \<Rightarrow> nat \<Rightarrow> fsys \<Rightarrow> bool" where
  "fetched d t n fs \<longleftrightarrow> honest d t fs \<and> take (length D) (content_at (d @ [t]) fs) = D \<and>
     (0 < n \<longrightarrow> content_at (d @ [t]) fs = D)"

lemma open_right:
  assumes s: "started d t a fs" and c: "fs_open_create (d @ [t]) fs = Inr (i, fs2)"
  shows "upto d t i a fs2"
proof -
  have r: "ready d t fs" using s by (simp add: started_def honest_def)
  note w = ready_stat(3) [OF r]
  show ?thesis
  proof (cases "fs_node fs (d @ [t])")
    case None
    then have "(i, fs2) = new_file fs (d @ [t])" using c w by (simp add: fs_open_create_def)
    then have k: "i = fs_next fs" "fs2 = snd (new_file fs (d @ [t]))" by (metis new_file_fields(1) fst_conv, metis snd_conv)
    have nn: "d @ [t] \<noteq> []" by simp
    note n = new_file_node [OF this, of fs, folded k(2)]
    have wf: "dir_ok fs d" "fs_wf fs" using r by (simp_all add: ready_def)
    have "dir_ok fs2 d" unfolding k(2) using wf(1) by (rule dir_ok_new_file)
    moreover have "fs_wf fs2" unfolding k(2) using wf(2) by (simp add: fs_wf_new_file)
    ultimately have r2: "ready d t fs2" using r by (simp add: ready_def free_name_def n)
    have c0: "content_at (d @ [t]) fs = []" using None by (simp add: content_at_def)
    then have a: "a = 0" using s by (simp add: started_def)
    have d2: "fs_data fs2 i = []" "\<And>k. k < fs_next fs \<Longrightarrow> fs_data fs2 k = fs_data fs k"
      using new_file_fields [of fs "d @ [t]", folded k(2)] k(1) by simp_all
    have "saved_at (d @ [t]) fs2 st \<Longrightarrow> saved_at (d @ [t]) fs st" for st
      using wf(2) by (auto simp: saved_at_def n d2(2) fs_wf_def)
    then have "honest d t fs2"
      using s r2 c0 by (auto simp: started_def honest_def content_at_def n k(1) d2(1) [unfolded k(1)])
    then show ?thesis using a by (simp add: upto_def n k(1) agrees_def)
  next
    case (Some nd)
    then have "nd = NFile i" "fs2 = fs" using c w by (auto simp: fs_open_create_def split: node.splits)
    with Some s show ?thesis by (simp add: started_def upto_def content_at_def)
  qed
qed

lemma meta_right:
  "cm_sat (at_fs ok P) (native_fetch_meta env remote) (\<lambda>x s. x = (tag, length D) \<and> at_fs ok P s) (\<lambda>_. at_fs ok P) (\<lambda>_. True)"
proof -
  let ?G = "\<lambda>r. rp_status (fst r) = 200 \<longrightarrow> header_str env (fst r) ''etag'' = tag \<and>
      u64_from_str (header_str env (fst r) ''content-length'') = Some (length D)"
  have "?G r" if "ok n" "ne_send env (native_head env remote) n = (Inr r, n2)" for n r n2
    using head [OF that(1), of "fst r" "snd r" n2] that(2) by simp
  then have "cm_sat (at_fs ok P) (nv_send env (native_head env remote)) (\<lambda>r s. ?G r \<and> at_fs ok P s) (\<lambda>_. at_fs ok P) (\<lambda>_. True)"
    by (intro send_sat) (auto simp: reads_def native_head_def)
  then show ?thesis
    unfolding native_fetch_meta_def
    by (rule sat_bind, clarify, intro sat_fact) (auto intro!: sat_if sat_fail sat_ret)
qed

lemma load_right:
  "sats (honest d t) (native_load_resume env (d @ [t]))
     (\<lambda>saved. at_fs ok (\<lambda>fs. honest d t fs \<and> (\<forall>st. saved = Some st \<longrightarrow> saved_at (d @ [t]) fs st))) d t"
  unfolding native_load_resume_def
proof (rule sat_bind)
  let ?Q = "\<lambda>r fs. honest d t fs \<and> (\<forall>x st. r = Inr x \<longrightarrow> ne_resume_parse env x = Some st \<longrightarrow> saved_at (d @ [t]) fs st)"
  have q: "saved_at (d @ [t]) fs st"
    if "honest d t fs" "fs_open fs (side d t) = Inr k" "ne_resume_parse env (fs_data fs k) = Some st" for fs k st
  proof -
    have "ready d t fs" using that(1) by (simp add: honest_def)
    moreover have "fs_stat fs True (side d t) = Inr (NFile k)"
      using that(2) unfolding fs_open_def res_bind_Inr by (elim exE conjE, rename_tac nd, case_tac nd) simp_all
    ultimately have "fs_node fs (side d t) = Some (NFile k)" using ready_stat(2) [of d t fs] by (metis ok_or_Inr)
    then show ?thesis using that(3) unfolding saved_at_def by blast
  qed
  show "sats (honest d t) (nv_file env (fs_silent (\<lambda>fs. res_bind (fs_open fs (side d t)) (\<lambda>i. Inr (fs_data fs i)))))
      (\<lambda>r. at_fs ok (?Q r)) d t"
    by (rule file_sat [OF closed]) (auto simp: res_bind_Inr intro: q [unfolded resume_path_snoc])
  show "sats (?Q r) (cm_ret (case r of Inl _ \<Rightarrow> None | Inr x \<Rightarrow> ne_resume_parse env x))
      (\<lambda>saved. at_fs ok (\<lambda>fs. honest d t fs \<and> (\<forall>st. saved = Some st \<longrightarrow> saved_at (d @ [t]) fs st))) d t" for r
    by (cases r) (auto intro!: sat_ret elim: at_fs_mono)
qed

lemma length_right:
  assumes "\<And>fs. P fs \<Longrightarrow> honest d t fs"
  shows "sats P (local_length env (d @ [t])) (\<lambda>n. at_fs ok (\<lambda>fs. P fs \<and> n \<le> length (content_at (d @ [t]) fs))) d t"
  unfolding local_length_def
proof (rule sat_bind)
  let ?Q = "\<lambda>r fs. P fs \<and> (\<forall>n. r = Inr n \<longrightarrow> n \<le> length (content_at (d @ [t]) fs))"
  have q: "n \<le> length (content_at (d @ [t]) fs)"
    if "P fs" "fs_stat fs True (d @ [t]) = Inr nd" "n = (case nd of NFile i \<Rightarrow> fs_len fs i | _ \<Rightarrow> ne_dir_len env)" for fs nd n
  proof -
    have "ready d t fs" using assms [OF that(1)] by (simp add: honest_def)
    then have "\<exists>i. nd = NFile i \<and> fs_node fs (d @ [t]) = Some (NFile i)"
      using that(2) ready_stat(1) [of d t fs] by (auto simp: ready_def free_name_def)
    then show ?thesis using that(3) by (auto simp: content_at_def fs_len_def)
  qed
  show "sats P (nv_file env (fs_silent (\<lambda>fs. res_bind (fs_stat fs True (d @ [t])) (\<lambda>nd.
        Inr (case nd of NFile i \<Rightarrow> fs_len fs i | _ \<Rightarrow> ne_dir_len env))))) (\<lambda>r. at_fs ok (?Q r)) d t"
    by (rule file_sat [OF closed]) (auto simp: res_bind_Inr intro: q)
  show "sats (?Q r) (cm_ret (case r of Inl _ \<Rightarrow> 0 | Inr n \<Rightarrow> n))
      (\<lambda>n. at_fs ok (\<lambda>fs. P fs \<and> n \<le> length (content_at (d @ [t]) fs))) d t" for r
    by (cases r) (auto intro!: sat_ret elim: at_fs_mono)
qed

lemma start_right:
  assumes "honest d t fs" and "\<forall>st. saved = Some st \<longrightarrow> saved_at (d @ [t]) fs st" and "n \<le> length (content_at (d @ [t]) fs)"
  shows "started d t (resume_start force tag (length D) n saved) fs"
  using assms by (auto simp: started_def resume_start_def honest_def agrees_def split: option.split)

lemma started_honest: "started d t a fs \<Longrightarrow> honest d t fs"
  by (simp add: started_def)

lemma parent_started: "cm_keeps (nw_is ok (started d t a)) (native_make_parent env (d @ [t]))"
  unfolding native_make_parent_def
  by (intro keeps_rules nv_keeps(8) [OF closed]) (auto simp: started_def honest_def parent_noop)

lemma open_sats:
  "sats (started d t a) (nv_storage env what (fs_change (fs_open_create (d @ [t]))))
    (\<lambda>i. at_fs ok (\<lambda>fs. a \<le> length D \<and> upto d t i a fs)) d t"
  by (rule storage_sat [OF closed])
    (auto simp: fs_change_def started_honest started_def [of d t a] intro: open_right [unfolded started_def]
      split: sum.splits prod.splits)

theorem once_right:
  "sats (honest d t) (download_once env remote (d @ [t]) level force) (\<lambda>n. at_fs ok (fetched d t n)) d t"
proof -
  have mt: "sats (honest d t) (native_fetch_meta env remote) (\<lambda>x s. x = (tag, length D) \<and> at_fs ok (honest d t) s) d t"
    by (rule sat_conseq [OF meta_right]) simp_all
  have go: "sats (started d t a)
     (cm_bind (cm_when (0 < a) (nv_log env m)) (\<lambda>_.
      cm_bind (nv_emit env ev) (\<lambda>_.
      if a = length D then cm_bind (nv_emit env ev2) (\<lambda>_. cm_ret 0)
      else cm_bind (native_make_parent env (d @ [t])) (\<lambda>_.
           cm_bind (nv_storage env what (fs_change (fs_open_create (d @ [t])))) (\<lambda>i.
           fill_file env \<lparr> nj_remote = remote, nj_etag = tag, nj_level = level, nj_file = i, nj_dest = d @ [t] \<rparr>
             a (length D))))))
     (\<lambda>n. at_fs ok (fetched d t n)) d t" for a m ev ev2 what
  proof -
    note h = started_honest
    have log: "cm_keeps (nw_is ok P) (cm_when (0 < a) (nv_log env m))" for P by (intro steps)
    have done1: "fetched d t 0 fs" if "started d t a fs" "a = length D" for fs
      using that by (simp add: started_def fetched_def agrees_def)
    have fl: "sats (\<lambda>fs. a \<le> length D \<and> upto d t i a fs)
        (fill_file env \<lparr> nj_remote = remote, nj_etag = tag, nj_level = level, nj_file = i, nj_dest = d @ [t] \<rparr> a (length D))
        (\<lambda>n. at_fs ok (fetched d t n)) d t" if "a \<noteq> length D" for i
    proof (cases "a < length D")
      case True
      show ?thesis
        by (rule sat_conseq [OF fill_right [OF _ _ _ _ True, where i = i]])
          (auto elim!: at_fs_mono simp: complete_def fetched_def)
    next
      case False
      with that have "\<not> a \<le> length D" by simp
      then show ?thesis by (simp add: cm_sat_def in_order_def nw_is_def)
    qed
    show ?thesis
      apply (rule sats_step [OF log], erule h)
      apply (rule sats_step [OF nv_keeps(1) [OF closed]], erule h)
      apply (rule sat_if)
      subgoal
        apply (rule sats_step [OF nv_keeps(1) [OF closed]], erule h)
        apply (rule sat_ret, erule at_fs_mono, erule (1) done1)
        done
      apply (rule sats_step [OF parent_started], erule h)
      apply (rule sat_bind [OF open_sats])
      apply (erule fl)
      done
  qed
  show ?thesis
    unfolding download_once_def
    apply (rule sat_bind [OF mt], rule sat_fact, simp only: prod.case)
    apply (rule sat_bind [OF load_right])
    apply (rule sat_bind [OF length_right])
    subgoal by simp
    subgoal for saved n
      unfolding Let_def
      by (rule sat_pre [OF go], erule at_fs_mono, elim conjE, erule (2) start_right)
    done
qed

text \<open>
  A whole download, restarts included: the file is on the disk, or the sidecar vouches only for what is
  right.
\<close>

theorem download_right:
  "sats (honest d t) (native_download_file env remote (d @ [t])) (\<lambda>n. at_fs ok (fetched d t n)) d t"
proof -
  let ?O = "\<lambda>r s. case r of Inl e \<Rightarrow> at_fs ok (honest d t) s | Inr n \<Rightarrow> at_fs ok (fetched d t n) s"
  have at: "cm_sat (at_fs ok (honest d t)) (cm_attempt (download_once env remote (d @ [t]) level force)) ?O E (\<lambda>_. True)" for level force E
    by (rule sat_attempt [OF once_right])
  have prep: "cm_keeps (nw_is ok (honest d t)) (prepare_transfer env Download_kind)" by (intro steps)
  have second: "cm_sat (?O first)
      (case first of
         Inl e \<Rightarrow>
           if is_restart_err e
           then cm_bind (nv_log env m) (\<lambda>_. cm_attempt (download_once env remote (d @ [t]) level True))
           else cm_ret first
       | Inr n \<Rightarrow> cm_ret first) ?O (\<lambda>_. at_fs ok (honest d t)) (\<lambda>_. True)" for first m level
  proof (cases first)
    case (Inl e)
    then show ?thesis
      by (auto intro!: sat_if sat_ret sats_step [OF nv_keeps(2) [OF closed]] at)
  qed (auto intro: sat_ret)
  have fin: "cm_sat (?O r) (cm_bind (finish_transfer env b) (\<lambda>_. cm_lift r)) (\<lambda>n. at_fs ok (fetched d t n))
      (\<lambda>_. at_fs ok (honest d t)) (\<lambda>_. True)" for r b
  proof (cases r)
    case (Inl e)
    then show ?thesis
      by (auto intro!: sats_step [OF nv_keeps(10) [OF closed]] sat_lift)
  next
    case (Inr n)
    have "fetched d t n fs \<Longrightarrow> honest d t fs" for fs by (simp add: fetched_def)
    with Inr show ?thesis
      by (auto intro!: sats_step [OF nv_keeps(10) [OF closed]] sat_lift)
  qed
  show ?thesis
    unfolding native_download_file_def
    apply (rule sat_bind [OF sat_lift [where Q = "\<lambda>_. at_fs ok (honest d t)"]])
    subgoal .
    subgoal .
    apply (rule sats_step [OF prep], assumption)
    apply (rule sat_bind [OF at])
    apply (rule sat_bind [OF second])
    apply (rule fin)
    done
qed

end

end
