(* ===== verification/Native_Confined.thy ===== *)
theory Native_Confined
  imports Native_Runs
begin

text \<open>
  What a server can make the native client do to the local file system: the downloads of a folder
  touch no file outside the destination directory, but for one sidecar beside it.
\<close>

subsection \<open>File systems\<close>

definition proper_name :: "string \<Rightarrow> bool" where
  "proper_name s \<longleftrightarrow> s \<noteq> [] \<and> s \<noteq> ''.'' \<and> s \<noteq> ''..'' \<and> CHR ''/'' \<notin> set s"

text \<open>
  A tree without symbolic links whose names are proper: so a path with \<open>..\<close> in it, which the operating
  system would follow out of a directory, is never created.
\<close>

definition proper_tree :: "fsys \<Rightarrow> bool" where
  "proper_tree fs \<longleftrightarrow> fs_wf fs \<and> (\<forall>p. \<not> is_link fs p) \<and>
     (\<forall>p nd. fs_node fs p = Some nd \<longrightarrow> list_all proper_name p)"

text \<open>The files outside \<open>A\<close> are those of \<open>fs0\<close>, with their contents.\<close>

definition confined_to :: "path set \<Rightarrow> fsys \<Rightarrow> fsys \<Rightarrow> bool" where
  "confined_to A fs0 fs \<longleftrightarrow> proper_tree fs \<and>
     (\<forall>p i. p \<notin> A \<longrightarrow> (fs_node fs p = Some (NFile i) \<longleftrightarrow> fs_node fs0 p = Some (NFile i)) \<and>
                    (fs_node fs0 p = Some (NFile i) \<longrightarrow> fs_data fs i = fs_data fs0 i))"

definition owned :: "path set \<Rightarrow> fsys \<Rightarrow> nat \<Rightarrow> bool" where
  "owned A fs i \<longleftrightarrow> (\<exists>p\<in>A. fs_node fs p = Some (NFile i))"

lemma confined_refl: "proper_tree fs \<Longrightarrow> confined_to A fs fs"
  by (simp add: confined_to_def)

lemma walk_unlinked: "(\<And>p. \<not> is_link fs p) \<Longrightarrow> fs_walk_from fs follow n cur ss = Inr q \<Longrightarrow> q = cur @ ss"
proof (induction fs follow n cur ss rule: fs_walk_from.induct)
  case (2 fs follow n cur s ss)
  have "fs_node fs (cur @ [s]) \<noteq> Some (NSymlink t)" for t using 2(3) [of "cur @ [s]"] by (auto simp: is_link_def)
  with 2(1,3,4) show ?case by (auto split: option.splits node.splits if_splits)
qed simp

lemma walk_proper: "proper_tree fs \<Longrightarrow> fs_walk fs follow p = Inr q \<Longrightarrow> q = p"
  unfolding fs_walk_def proper_tree_def by (metis append_Nil walk_unlinked)

lemma fs_set_len_node [simp]: "fs_node (fs_set_len i n fs) = fs_node fs"
  by (simp add: fs_set_len_def)

lemma proper_tree_cong: "fs_node fs2 = fs_node fs \<Longrightarrow> fs_next fs2 = fs_next fs \<Longrightarrow> proper_tree fs2 = proper_tree fs"
  by (simp add: proper_tree_def is_link_def fs_wf_def)

text \<open>Changing the content of an owned file.\<close>

lemma confined_content:
  assumes f: "confined_to A fs0 fs" and o1: "owned A fs i"
    and n: "fs_node fs2 = fs_node fs" "fs_next fs2 = fs_next fs" "\<And>k. k \<noteq> i \<Longrightarrow> fs_data fs2 k = fs_data fs k"
  shows "confined_to A fs0 fs2" "owned A fs2 k \<longleftrightarrow> owned A fs k"
proof -
  have "k \<noteq> i" if "p \<notin> A" "fs_node fs p = Some (NFile k)" for p k
    using f o1 that unfolding confined_to_def proper_tree_def fs_wf_def owned_def by blast
  then show "confined_to A fs0 fs2"
    using f n proper_tree_cong [OF n(1,2)] unfolding confined_to_def by metis
  show "owned A fs2 k \<longleftrightarrow> owned A fs k" by (simp add: owned_def n(1))
qed

lemma confined_write:
  "confined_to A fs0 fs \<Longrightarrow> owned A fs i \<Longrightarrow> confined_to A fs0 (fs_write fs i off b)"
  "owned A (fs_write fs i off b) k \<longleftrightarrow> owned A fs k"
  by (rule confined_content [of A fs0 fs i]) (simp_all add: fs_write_data owned_def)

lemma confined_set_len:
  "confined_to A fs0 fs \<Longrightarrow> owned A fs i \<Longrightarrow> confined_to A fs0 (fs_set_len i n fs)"
  "owned A (fs_set_len i n fs) k \<longleftrightarrow> owned A fs k"
  by (rule confined_content [of A fs0 fs i]) (simp_all add: fs_set_len_def owned_def)

text \<open>A new file of \<open>A\<close>, or one that is opened.\<close>

lemma confined_new:
  assumes f: "confined_to A fs0 fs" and p: "p \<in> A" "fs_node fs p = None" "list_all proper_name p"
  shows "confined_to A fs0 (snd (new_file fs p))" "owned A (snd (new_file fs p)) (fs_next fs)"
    "owned A fs k \<Longrightarrow> owned A (snd (new_file fs p)) k"
proof -
  have q: "p \<noteq> []" using p(2) by auto
  have t: "proper_tree fs" using f by (simp add: confined_to_def)
  note n = new_file_node [OF q, of fs]
  have "fs_wf (snd (new_file fs p))" using t q by (simp add: proper_tree_def fs_wf_new_file)
  moreover have "\<not> is_link (snd (new_file fs p)) r" for r using t by (simp add: proper_tree_def is_link_def n)
  ultimately have t2: "proper_tree (snd (new_file fs p))" using t p(3) by (simp add: proper_tree_def n)
  have "fs_data (snd (new_file fs p)) k = fs_data fs k" if "fs_node fs r = Some (NFile k)" for r k
    using t that unfolding proper_tree_def fs_wf_def by fastforce
  moreover have "fs_node (snd (new_file fs p)) r = fs_node fs r" if "r \<notin> A" for r
    using n p(1) that by auto
  ultimately show "confined_to A fs0 (snd (new_file fs p))"
    using f t2 unfolding confined_to_def by metis
  show "owned A (snd (new_file fs p)) (fs_next fs)" using p(1) unfolding owned_def n by auto
  have "r \<noteq> p" if "fs_node fs r = Some (NFile k)" for r using that p(2) by auto
  then show "owned A fs k \<Longrightarrow> owned A (snd (new_file fs p)) k" unfolding owned_def n by auto
qed

lemma confined_create:
  assumes f: "confined_to A fs0 fs" and p: "p \<in> A" "list_all proper_name p"
    and c: "fs_create fs p = Inr (i, fs2) \<or> fs_open_create p fs = Inr (i, fs2)"
  shows "confined_to A fs0 fs2 \<and> owned A fs2 i \<and> (\<forall>k. owned A fs k \<longrightarrow> owned A fs2 k)"
proof -
  have t: "proper_tree fs" using f by (simp add: confined_to_def)
  obtain q where "fs_walk fs True p = Inr q"
    using c by (cases "fs_walk fs True p") (auto simp: fs_create_def fs_open_create_def)
  then have w: "fs_walk fs True p = Inr p" using walk_proper [OF t] by metis
  show ?thesis
  proof (cases "fs_node fs p")
    case None
    then have "(i, fs2) = new_file fs p" using c w by (auto simp: fs_create_def fs_open_create_def)
    then have "i = fs_next fs" "fs2 = snd (new_file fs p)" by (metis new_file_fields(1) fst_conv, metis snd_conv)
    with confined_new [OF f p(1) None p(2)] show ?thesis by simp
  next
    case (Some nd)
    then have "nd = NFile i" "fs_node fs2 = fs_node fs" "fs_next fs2 = fs_next fs" "\<And>k. k \<noteq> i \<Longrightarrow> fs_data fs2 k = fs_data fs k"
      using c w by (auto simp: fs_create_def fs_open_create_def split: node.splits)
    moreover from this Some p(1) have "owned A fs i" by (auto simp: owned_def)
    ultimately show ?thesis using confined_content [OF f] by blast
  qed
qed

text \<open>New directories are no files.\<close>

lemma confined_mkdirs:
  assumes "confined_to A fs0 fs" and "list_all proper_name (cur @ ss)"
  shows "confined_to A fs0 (snd (fs_mkdirs fs cur ss)) \<and> (\<forall>k. owned A fs k \<longrightarrow> owned A (snd (fs_mkdirs fs cur ss)) k)"
  using assms
proof (induction fs cur ss rule: fs_mkdirs.induct)
  case (2 fs cur s ss)
  have t: "proper_tree fs" using 2(3) by (simp add: confined_to_def)
  show ?case
  proof (cases "fs_stat fs True (cur @ [s])")
    case (Inr nd)
    with 2 show ?thesis by (cases nd) auto
  next
    case (Inl e)
    note st = Inl
    show ?thesis
    proof (cases "io_kind e = Io_NotFound")
      case True
      show ?thesis
      proof (cases "fs_walk fs False (cur @ [s])")
        case (Inr q)
        then have q: "q = cur @ [s]" by (rule walk_proper [OF t])
        show ?thesis
        proof (cases "fs_node fs q")
          case None
          let ?fs = "set_node fs q (NDir (fs_now fs))"
          have n: "fs_node ?fs r = (if r = q then Some (NDir (fs_now fs)) else fs_node fs r)" for r
            using q by (simp add: fs_node_set)
          have "proper_tree ?fs"
            using t 2(4) q unfolding proper_tree_def fs_wf_def is_link_def n set_node_fields by (auto split: if_splits)
          moreover have eqv: "fs_node ?fs r = Some (NFile i) \<longleftrightarrow> fs_node fs r = Some (NFile i)" for r i
            using None n by auto
          ultimately have "confined_to A fs0 ?fs"
            using 2(3) unfolding confined_to_def set_node_fields by blast
          moreover have "owned A fs k \<Longrightarrow> owned A ?fs k" for k unfolding owned_def eqv .
          ultimately show ?thesis using 2(1) [OF st _ Inr None] True 2(4) st Inr None by simp
        qed (use 2(3) True st Inr in simp)
      qed (use 2(3) True st in simp)
    qed (use 2(3) st in simp)
  qed
qed simp

subsection \<open>Paths\<close>

lemma segment_no_sep: "seg \<in> set (split_on c xs) \<Longrightarrow> c \<notin> set seg"
proof (induction xs arbitrary: seg)
  case (Cons x xs)
  then show ?case by (cases "split_on c xs") (auto split: if_splits)
qed simp

lemma validated_segments:
  assumes "validate_relative p = Inr ()"
  shows "join_virtual dest p = dest @ filter (\<lambda>s. s \<noteq> [] \<and> s \<noteq> ''.'') (split_on CHR ''/'' p)"
    "list_all proper_name (filter (\<lambda>s. s \<noteq> [] \<and> s \<noteq> ''.'') (split_on CHR ''/'' p))"
  using assms segment_no_sep [of _ "CHR ''/''" p]
  by (auto simp: join_virtual_def validate_relative_def list_all_iff list_ex_iff proper_name_def split: if_splits)

definition area :: "path \<Rightarrow> path set" where
  "area dest = {p. prefix dest p} \<union> {resume_path dest}"

lemma proper_sidecar: "list_all proper_name f \<Longrightarrow> list_all proper_name (resume_path f)"
  by (cases f rule: rev_cases) (auto simp: resume_path_def proper_name_def)

lemma target_in_area:
  assumes "validate_relative p = Inr ()" and "list_all proper_name dest"
  defines "f \<equiv> join_virtual dest p"
  shows "f \<in> area dest" "resume_path f \<in> area dest" "list_all proper_name f"
proof -
  note v = validated_segments [OF assms(1)]
  show "f \<in> area dest" "list_all proper_name f" using v assms(2) by (simp_all add: f_def area_def)
  show "resume_path f \<in> area dest"
    unfolding f_def v(1)
    by (cases "filter (\<lambda>s. s \<noteq> [] \<and> s \<noteq> ''.'') (split_on CHR ''/'' p)" rule: rev_cases)
      (simp_all only: area_def resume_path_def append_Nil2 butlast_append, simp_all)
qed

subsection \<open>Runs\<close>

definition keeping :: "path set \<Rightarrow> fsys \<Rightarrow> nat set \<Rightarrow> fsys \<Rightarrow> bool" where
  "keeping A fs0 K fs \<longleftrightarrow> confined_to A fs0 fs \<and> (\<forall>k\<in>K. owned A fs k)"

lemma all_requests: "net_closed env A (\<lambda>_. True)"
  by (simp add: net_closed_def)

abbreviation kept_fs :: "path set \<Rightarrow> fsys \<Rightarrow> nat set \<Rightarrow> 'n native_world \<Rightarrow> bool" where
  "kept_fs A fs0 K \<equiv> nw_is (\<lambda>_. True) (keeping A fs0 K)"

lemma keeping_mono: "keeping A fs0 K fs \<Longrightarrow> L \<subseteq> K \<Longrightarrow> keeping A fs0 L fs"
  by (auto simp: keeping_def)

lemma keeping_mkdirs:
  "keeping A fs0 K fs \<Longrightarrow> list_all proper_name p \<Longrightarrow> keeping A fs0 K (snd (fs_create_dir_all fs p))"
  using confined_mkdirs [of A fs0 fs "[]" p] by (simp add: keeping_def fs_create_dir_all_def)

lemma keeping_write: "keeping A fs0 K fs \<Longrightarrow> k \<in> K \<Longrightarrow> keeping A fs0 K (fs_write fs k off data)"
  by (simp add: keeping_def confined_write)

lemma keeping_set_len: "keeping A fs0 K fs \<Longrightarrow> k \<in> K \<Longrightarrow> keeping A fs0 K (fs_set_len k n fs)"
  by (simp add: keeping_def confined_set_len)

lemma keeping_create:
  assumes "keeping A fs0 K fs" and "p \<in> A" and "list_all proper_name p"
    and "fs_create fs p = Inr (i, fs2) \<or> fs_open_create p fs = Inr (i, fs2)"
  shows "keeping A fs0 (insert i K) fs2"
  using confined_create [of A fs0 fs p i fs2] assms by (simp add: keeping_def)

lemma write_keeps: "k \<in> K \<Longrightarrow> cm_keeps (kept_fs A fs0 K) (nv_write_at env k off data)"
  unfolding nv_write_at_def
  by (rule keeps_world) (auto simp: nw_is_def case_prod_beta Let_def keeping_write split: option.split)

text \<open>A file of \<open>A\<close> is opened, and then only it is written.\<close>

lemma open_keeps:
  fixes env :: "('e, 's, 'n) native_env"
  assumes f: "f = fs_change (\<lambda>fs. fs_create fs p) \<or> f = fs_change (fs_open_create p)"
    and p: "p \<in> A" "list_all proper_name p"
    and m: "\<And>i. cm_keeps (kept_fs A fs0 (insert i K)) (m (Inr i))" "\<And>e. cm_keeps (kept_fs A fs0 K) (m (Inl e))"
  shows "cm_keeps (kept_fs A fs0 K) (cm_bind (nv_file env f) m)"
proof (rule keepsI, rule sat_bind)
  let ?Q = "\<lambda>r. keeping A fs0 (case r of Inl e \<Rightarrow> K | Inr i \<Rightarrow> insert i K)"
  have "?Q r fs2" if "keeping A fs0 K fs" "f fs = (r, fs2)" for fs r fs2
    using that f keeping_create [OF that(1) p] by (auto simp: fs_change_def split: sum.splits prod.splits)
  then show "cm_sat (at_fs (\<lambda>_. True) (keeping A fs0 K)) (nv_file env f) (\<lambda>r. at_fs (\<lambda>_. True) (?Q r))
      (\<lambda>_. at_fs (\<lambda>_. True) (keeping A fs0 K)) (at_fs (\<lambda>_. True) (keeping A fs0 K))"
    by (rule file_sat [OF all_requests]) simp_all
  fix r
  show "cm_sat (at_fs (\<lambda>_. True) (?Q r)) (m r) (\<lambda>_. at_fs (\<lambda>_. True) (keeping A fs0 K))
      (\<lambda>_. at_fs (\<lambda>_. True) (keeping A fs0 K)) (at_fs (\<lambda>_. True) (keeping A fs0 K))"
  proof (cases r)
    case (Inr i)
    show ?thesis
      unfolding Inr sum.case
      by (rule sat_conseq [OF keeps_sat [OF m(1)]]) (auto elim: at_fs_mono intro: keeping_mono)
  qed (use keeps_sat [OF m(2)] in simp)
qed

lemmas conf_keeps = nv_keeps [OF all_requests] ranges_keep [OF all_requests] capabilities_keeps [OF all_requests]
  listing_keeps [OF all_requests]

text \<open>A destination inside \<open>A\<close>, with its sidecar.\<close>

definition target_in :: "path set \<Rightarrow> path \<Rightarrow> bool" where
  "target_in A f \<longleftrightarrow> f \<in> A \<and> resume_path f \<in> A \<and> list_all proper_name f"

lemma butlast_proper: "list_all proper_name f \<Longrightarrow> list_all proper_name (butlast f)"
  by (auto simp: list_all_iff dest: in_set_butlastD)

lemma parent_keeps: "target_in A f \<Longrightarrow> cm_keeps (kept_fs A fs0 K) (native_make_parent env f)"
  unfolding native_make_parent_def
  by (intro keeps_rules conf_keeps(8)) (simp add: target_in_def keeping_mkdirs butlast_proper)

lemma sidecar_keeps:
  assumes "target_in A f"
  shows "cm_keeps (kept_fs A fs0 K) (save_resume_ignored env f etag offset)"
proof -
  have "cm_keeps (kept_fs A fs0 K) (native_write_file env (resume_path f) content)" for content
    unfolding native_write_file_def
  proof (rule open_keeps [OF disjI1 [OF refl]])
    show "resume_path f \<in> A" "list_all proper_name (resume_path f)"
      using assms by (simp_all add: target_in_def proper_sidecar)
    show "cm_keeps (kept_fs A fs0 (insert i K))
        (case Inr i of Inl e \<Rightarrow> cm_ret (Inl e) | Inr i \<Rightarrow> nv_write_at env i 0 content)" for i
      by (simp add: write_keeps)
    show "cm_keeps (kept_fs A fs0 K)
        (case Inl e of Inl e \<Rightarrow> cm_ret (Inl e) | Inr i \<Rightarrow> nv_write_at env i 0 content)" for e
      by (simp add: keeps_ret)
  qed
  then show ?thesis
    unfolding save_resume_ignored_def save_resume_def by (intro keeps_rules parent_keeps assms)
qed

lemma periodic_keeps:
  "target_in A (nj_dest j) \<Longrightarrow> cm_keeps (kept_fs A fs0 K) (save_periodically env j cursor last_saved)"
  unfolding save_periodically_def by (intro keeps_rules sidecar_keeps)

lemma data_keeps: "nj_file j \<in> K \<Longrightarrow> cm_keeps (kept_fs A fs0 K) (write_data_at env j off data)"
  unfolding write_data_at_def by (intro keeps_rules conf_keeps(8) write_keeps) simp_all

lemma flush_keeps:
  assumes "target_in A (nj_dest j)" and "nj_file j \<in> K"
  shows "cm_keeps (kept_fs A fs0 K) (flush_pending env j base tot rtt st)"
  using assms
proof (induction env j base tot rtt st rule: flush_pending.induct)
  case (1 env j base tot rtt pending cursor moved last_saved)
  show ?case
    by (subst flush_pending.simps, unfold Let_def,
        intro keeps_rules data_keeps periodic_keeps conf_keeps(1,9) 1(2,3))
      (rule 1(1), (assumption | rule refl | simp add: 1(2,3))+)
qed

lemma chunks_keep:
  assumes "target_in A (nj_dest j)" and "nj_file j \<in> K"
  shows "cm_keeps (kept_fs A fs0 K) (batch_chunks env j base tot chunks st)"
  using assms
  by (induction env j base tot chunks st rule: batch_chunks.induct)
    (simp_all, (intro keeps_rules conf_keeps(9,13) flush_keeps | simp)+)

lemma batch_keeps:
  assumes "target_in A (nj_dest j)" and "nj_file j \<in> K"
  shows "cm_keeps (kept_fs A fs0 K) (download_batch env j a b tot base chunk_sz)"
  unfolding download_batch_def by (intro keeps_rules conf_keeps(6) chunks_keep assms)

lemma stream_keeps:
  assumes "target_in A (nj_dest j)" and "nj_file j \<in> K"
  shows "cm_keeps (kept_fs A fs0 K) (native_stream env j sz rtt broken chunks d cursor moved last_saved)"
  by (induction chunks arbitrary: d cursor moved last_saved)
    (simp_all add: Let_def, (intro keeps_rules conf_keeps(1,9) data_keeps periodic_keeps assms | simp)+)

lemma sequential_keeps:
  assumes "target_in A (nj_dest j)" and "nj_file j \<in> K"
  shows "cm_keeps (kept_fs A fs0 K) (download_sequential env j start sz)"
  unfolding download_sequential_def
  by (intro keeps_rules conf_keeps(11) stream_keeps data_keeps assms)

lemma fill_keeps:
  assumes "target_in A (nj_dest j)" and "nj_file j \<in> K"
  shows "cm_keeps (kept_fs A fs0 K) (fill_file env j start sz)"
proof -
  have "cm_keeps (kept_fs A fs0 K) (native_batch_step env j sz x)" for x
    unfolding native_batch_step_def by (intro keeps_rules batch_keeps sidecar_keeps assms)
  then show ?thesis
    unfolding fill_file_def Let_def
    by (intro keeps_rules sequential_keeps sidecar_keeps conf_keeps(1,8) assms) (simp_all add: keeping_set_len assms)
qed

lemma once_keeps:
  assumes "target_in A f"
  shows "cm_keeps (kept_fs A fs0 {}) (download_once env remote f level force_restart)"
proof -
  have "f \<in> A" "list_all proper_name f" using assms by (simp_all add: target_in_def)
  then have o1: "cm_keeps (kept_fs A fs0 {})
      (cm_bind (nv_storage env what (fs_change (fs_open_create f))) (\<lambda>i. fill_file env (j i) start sz))"
    if "\<And>i. nj_dest (j i) = f \<and> nj_file (j i) = i" for what j start sz
    unfolding nv_storage_def cm_bind_assoc
    by (rule open_keeps [OF disjI2 [OF refl]])
      (use that assms in \<open>auto intro!: fill_keeps keeps_rules simp: bind_lift\<close>)
  have "cm_keeps (kept_fs A fs0 {}) (native_load_resume env f)" "cm_keeps (kept_fs A fs0 {}) (local_length env f)"
    unfolding native_load_resume_def local_length_def by (intro keeps_rules conf_keeps(7); simp)+
  then show ?thesis
    unfolding download_once_def
    by (intro keeps_rules conf_keeps(1,2,14) parent_keeps assms o1) simp_all
qed

lemma file_keeps:
  assumes "list_all proper_name dest"
  shows "cm_keeps (kept_fs (area dest) fs0 {}) (native_download_file env remote (join_virtual dest remote))"
proof (cases "validate_relative remote")
  case (Inr u)
  then have "validate_relative remote = Inr ()" by simp
  then have "target_in (area dest) (join_virtual dest remote)"
    using target_in_area [OF _ assms] by (simp add: target_in_def)
  then show ?thesis
    unfolding native_download_file_def by (intro keeps_rules conf_keeps(2,10,17) once_keeps)
qed (simp add: native_download_file_def keeps_fail)

lemma folder_keeps:
  assumes "list_all proper_name dest"
  shows "cm_keeps (kept_fs (area dest) fs0 {}) (native_download_folder env dir dest)"
proof -
  have "cm_keeps (kept_fs (area dest) fs0 {}) (collect_remote_files env dir)"
    unfolding collect_remote_files_def collect_remote_step_def by (intro keeps_rules conf_keeps(18))
  then show ?thesis
    unfolding native_download_folder_def nv_unordered_def
    by (intro keeps_rules conf_keeps(1,6) file_keeps assms)
qed

text \<open>
  C8: whatever a server lists and sends, and whatever fails, the download of a folder creates, changes
  and removes no file outside the destination directory, except for the one sidecar beside it; and it
  makes no name like \<open>..\<close>, so no path of it leads out of the directory.
\<close>

theorem download_folder_confined:
  assumes "proper_tree (nw_fs (cl_world s))" and "engine_ok (cl_tune s)" and "list_all proper_name dest"
    and "native_download_folder env dir dest s = (r, s2)"
  shows "proper_tree (nw_fs (cl_world s2)) \<and>
    (\<forall>p i. \<not> prefix dest p \<longrightarrow> p \<noteq> resume_path dest \<longrightarrow>
      (fs_node (nw_fs (cl_world s2)) p = Some (NFile i) \<longleftrightarrow> fs_node (nw_fs (cl_world s)) p = Some (NFile i)) \<and>
      (fs_node (nw_fs (cl_world s)) p = Some (NFile i) \<longrightarrow>
        fs_data (nw_fs (cl_world s2)) i = fs_data (nw_fs (cl_world s)) i))"
proof -
  have "in_order (kept_fs (area dest) (nw_fs (cl_world s)) {}) s"
    using assms(1,2) by (simp add: in_order_def nw_is_def keeping_def confined_refl)
  with folder_keeps [OF assms(3)] have "in_order (kept_fs (area dest) (nw_fs (cl_world s)) {}) s2"
    unfolding cm_keeps_def by (metis assms(4) snd_conv)
  then show ?thesis by (simp add: in_order_def nw_is_def keeping_def confined_to_def area_def)
qed

text \<open>
  The exception is real: an entry named \<open>.\<close> passes the check and stands for the destination itself, whose
  sidecar lies beside it.
\<close>

theorem dot_entry_escapes:
  "validate_relative ''.'' = Inr () \<and> join_virtual dest ''.'' = dest \<and>
   (dest = [] \<or> \<not> prefix dest (resume_path (join_virtual dest ''.'')))"
proof (cases dest rule: rev_cases)
  case (snoc d t)
  then have "\<not> prefix dest (resume_path dest)" by (simp add: resume_path_def)
  then show ?thesis by (simp add: validate_relative_def join_virtual_def starts_with_def)
qed (simp add: validate_relative_def join_virtual_def starts_with_def)

subsection \<open>A hostile server\<close>

text \<open>Every reply is a listing that names a file outside.\<close>

definition hostile_env :: "(bytes, string \<rightharpoonup> string, unit) native_env" where
  "hostile_env = \<lparr> ne_config = native_config_new ''http://h'' ''u'', ne_tune = demo_env, ne_zrip = raw_zrip,
     ne_sha = (\<lambda>_. replicate 32 0), ne_meta_json = (\<lambda>_. []), ne_caps_json = (\<lambda>_. Inl []),
     ne_ranges_json = (\<lambda>_. Inr []),
     ne_dir_json = (\<lambda>_. Inr [\<lparr> rf_path = ''../home'', rf_is_dir = False, rf_size = 1, rf_mtime = 0 \<rparr>]),
     ne_resume_text = (\<lambda>_. []), ne_resume_parse = (\<lambda>_. None), ne_header_ok = (\<lambda>_. True), ne_header_text = Some,
     ne_display = join_on CHR ''/'', ne_dir_len = 0, ne_now = (\<lambda>_. Fin 0),
     ne_send = (\<lambda>_ n. (Inr (\<lparr> rp_status = 200, rp_headers = [], rp_body = [] \<rparr>, None), n)),
     ne_fault = (\<lambda>n. (None, n)), ne_sleep = (\<lambda>_ n. n), ne_order = (\<lambda>k n. ([0..<k], n)),
     ne_bench = (\<lambda>_ _. None), ne_bench_clock = (\<lambda>_ _. Fin 0) \<rparr>"

definition home_fs :: fsys where
  "home_fs = \<lparr> fs_entries = [([''home''], NFile 0), ([''dest''], NDir 0)], fs_data = (\<lambda>_. [1, 2]), fs_mtime = (\<lambda>_. 0),
     fs_next = 1, fs_now = 0 \<rparr>"

definition home_start :: "(string \<rightharpoonup> string, unit native_world) client" where
  "home_start = \<lparr> cl_control = control_new 1, cl_tune = engine_new False Lv_Balanced,
     cl_world = \<lparr> nw_net = (), nw_fs = home_fs, nw_events = [] \<rparr> \<rparr>"

lemma home_node: "fs_node home_fs p =
    (if p = [] then Some (NDir 0) else if p = [''home''] then Some (NFile 0) else if p = [''dest''] then Some (NDir 0) else None)"
  by (auto simp: fs_node_def home_fs_def)

lemma home_proper: "proper_tree home_fs"
proof -
  have "fs_next home_fs = 1" by (simp add: home_fs_def)
  then show ?thesis
    by (auto simp: proper_tree_def fs_wf_def is_link_def home_node proper_name_def split: if_splits)
qed

theorem download_folder_confined_witness:
  "fst (native_download_folder hostile_env ''docs'' [''dest''] home_start) =
     Some (Inl (Err_Protocol ''refusing unsafe path from server: `../home`'')) \<and>
   fs_node (nw_fs (cl_world (snd (native_download_folder hostile_env ''docs'' [''dest''] home_start)))) [''home''] =
     Some (NFile 0) \<and>
   fs_data (nw_fs (cl_world (snd (native_download_folder hostile_env ''docs'' [''dest''] home_start)))) 0 = [1, 2]"
proof -
  let ?run = "native_download_folder hostile_env ''docs'' [''dest''] home_start"
  let ?e = "Err_Protocol ''refusing unsafe path from server: `../home`''"
  have "fst (collect_remote_step hostile_env ([''docs''], []) home_start) = Some (Inl ?e)"
    by (simp add: collect_remote_step_def native_list_dir_def nv_send_def cm_world_def cm_bind_def cm_fail_def cm_lift_def nv_body_def
        hostile_env_def validate_relative_def starts_with_def Let_def)
  then have "fst (cm_while (collect_remote_step hostile_env) ([''docs''], []) home_start) = Some (Inl ?e)"
    by (subst while_unfold) (auto split: prod.split)
  then have "fst ?run = Some (Inl ?e)"
    by (auto simp: native_download_folder_def collect_remote_files_def cm_bind_def split: prod.split)
  moreover have n: "fs_node (nw_fs (cl_world home_start)) [''home''] = Some (NFile 0)"
    and c: "fs_data (nw_fs (cl_world home_start)) 0 = [1, 2]"
    by (simp_all add: home_start_def home_node, simp add: home_fs_def)
  have h: "list_all proper_name [''dest'']" "proper_tree (nw_fs (cl_world home_start))" "engine_ok (cl_tune home_start)"
    by (simp_all add: proper_name_def home_start_def home_proper engine_new_ok)
  have o1: "\<not> prefix [''dest''] [''home'']" "[''home''] \<noteq> resume_path [''dest'']" by (simp_all add: resume_path_def)
  note download_folder_confined [OF h(2,3,1) prod.collapse [symmetric], THEN conjunct2, rule_format, OF o1,
      of hostile_env "''docs''" 0]
  ultimately show ?thesis using n c by simp
qed

end
