(* ===== verification/Native_Ends.thy ===== *)
theory Native_Ends
  imports Native_Chunks Native_Confined
begin

text \<open>
  The native client's download of a file ends, whatever the server answers and whatever fails.
\<close>

subsection \<open>Runs that end\<close>

abbreviation tuned_state :: "('s, 'w) client \<Rightarrow> bool" where
  "tuned_state \<equiv> in_order (\<lambda>_. True)"

definition cm_ends :: "('s, 'w, 'a) cm \<Rightarrow> bool" where
  "cm_ends m \<longleftrightarrow> cm_sat tuned_state m (\<lambda>_. tuned_state) (\<lambda>_. tuned_state) (\<lambda>_. False)"

named_theorems ends_rules \<open>rules that follow the text of a run\<close>

lemma ends_ret [ends_rules]: "cm_ends (cm_ret x)"
  by (simp add: cm_ends_def sat_ret)

lemma ends_fail [ends_rules]: "cm_ends (cm_fail e)"
  by (simp add: cm_ends_def sat_fail)

lemma ends_lift [ends_rules]: "cm_ends (cm_lift r)"
  by (simp add: cm_ends_def sat_lift)

lemma ends_bind [ends_rules]: "cm_ends m \<Longrightarrow> (\<And>x. cm_ends (f x)) \<Longrightarrow> cm_ends (cm_bind m f)"
  unfolding cm_ends_def by (rule sat_bind)

text \<open>With what is known of the value.\<close>

lemma ends_known:
  assumes "cm_sat tuned_state m (\<lambda>x s. Q x \<and> tuned_state s) (\<lambda>_. tuned_state) (\<lambda>_. False)"
    and "\<And>x. Q x \<Longrightarrow> cm_ends (f x)"
  shows "cm_ends (cm_bind m f)"
  unfolding cm_ends_def
  by (rule sat_bind [OF assms(1)], rule sat_fact) (use assms(2) in \<open>simp add: cm_ends_def\<close>)

lemma ends_attempt [ends_rules]:
  assumes "cm_ends m"
  shows "cm_ends (cm_attempt m)"
  unfolding cm_ends_def
  by (rule sat_conseq [OF sat_attempt [OF assms [unfolded cm_ends_def]]]) (auto split: sum.splits)

lemma ends_get [ends_rules]: "cm_ends (cm_get f)"
  by (simp add: cm_ends_def sat_get)

lemma ends_world [ends_rules]: "cm_ends (cm_world f)"
  unfolding cm_ends_def by (rule sat_world) (auto simp: in_order_def split: sum.split)

lemma ends_tuned:
  assumes "\<And>e. engine_ok e \<Longrightarrow> engine_ok (snd (f e))"
  shows "cm_ends (cm_tuned f)"
  using assms by (simp add: cm_ends_def cm_sat_def cm_tuned_def case_prod_beta Let_def in_orderD)

lemma ends_when [ends_rules]: "cm_ends m \<Longrightarrow> cm_ends (cm_when b m)"
  by (cases b) (simp_all add: cm_when_def ends_ret)

lemma ends_if [ends_rules]: "(b \<Longrightarrow> cm_ends m) \<Longrightarrow> (\<not> b \<Longrightarrow> cm_ends k) \<Longrightarrow> cm_ends (if b then m else k)"
  by simp

lemma ends_sum [ends_rules]:
  "(\<And>e. r = Inl e \<Longrightarrow> cm_ends (f e)) \<Longrightarrow> (\<And>x. r = Inr x \<Longrightarrow> cm_ends (g x)) \<Longrightarrow>
   cm_ends (case r of Inl e \<Rightarrow> f e | Inr x \<Rightarrow> g x)"
  by (cases r) simp_all

lemma ends_option [ends_rules]:
  "(r = None \<Longrightarrow> cm_ends m) \<Longrightarrow> (\<And>x. r = Some x \<Longrightarrow> cm_ends (f x)) \<Longrightarrow> cm_ends (case r of None \<Rightarrow> m | Some x \<Rightarrow> f x)"
  by (cases r) simp_all

lemma ends_prod [ends_rules]: "(\<And>x y. r = (x, y) \<Longrightarrow> cm_ends (f x y)) \<Longrightarrow> cm_ends (case r of (x, y) \<Rightarrow> f x y)"
  by (cases r) simp

lemma ends_prod2 [ends_rules]:
  "(\<And>x y. r = (x, y) \<Longrightarrow> cm_ends (f x y z)) \<Longrightarrow> cm_ends ((case r of (x, y) \<Rightarrow> f x y) z)"
  by (cases r) simp

lemma ends_let [ends_rules]: "(\<And>y. y = x \<Longrightarrow> cm_ends (f y)) \<Longrightarrow> cm_ends (let y = x in f y)"
  by simp

subsection \<open>Steps\<close>

lemma nv_ends [ends_rules]:
  "cm_ends (nv_emit env ev)" "cm_ends (nv_log env m)" "cm_ends (nv_now env)" "cm_ends (nv_send env q)"
  "cm_ends (nv_sleep env ms)" "cm_ends (nv_order env xs)" "cm_ends (nv_file env g)" "cm_ends (nv_storage env what g2)"
  "cm_ends (nv_write_at env i off data)" "cm_ends (nv_tick env n rtt err)" "cm_ends (finish_transfer env b)"
  unfolding nv_emit_def nv_log_def nv_now_def nv_send_def nv_sleep_def nv_order_def nv_file_def nv_storage_def
    nv_write_at_def nv_tick_def finish_transfer_def
  by (intro ends_rules ends_tuned; simp add: tick_ok transfer_end_ok)+

lemma send_known:
  fixes env :: "('e, 's, 'n) native_env"
  assumes "\<And>n r n2. ne_send env req n = (Inr r, n2) \<Longrightarrow> Q r"
  shows "cm_sat tuned_state (nv_send env req) (\<lambda>r s. Q r \<and> tuned_state s) (\<lambda>_. tuned_state) (\<lambda>_. False)"
  unfolding nv_send_def
proof (rule sat_world)
  fix s :: "('s, 'n native_world) client" and r w
  assume "tuned_state s" and e: "(let (r, n) = ne_send env req (nw_net (cl_world s)) in
      (map_err Err_Network r, (cl_world s)\<lparr> nw_net := n \<rparr>)) = (r, w)"
  obtain q n where q: "ne_send env req (nw_net (cl_world s)) = (q, n)" by force
  with \<open>tuned_state s\<close> e assms
  show "case r of Inl e \<Rightarrow> tuned_state (s\<lparr> cl_world := w \<rparr>) | Inr x \<Rightarrow> Q x \<and> tuned_state (s\<lparr> cl_world := w \<rparr>)"
    by (cases q) (auto simp: in_order_def)
qed

lemma prepare_ends: "cm_ends (prepare_transfer env k)"
  unfolding prepare_transfer_def transfer_capabilities_def fetch_capabilities_def Let_def
  by (intro ends_rules ends_tuned) (simp_all add: begin_transfer_ok)

lemma sidecar_ends [ends_rules]:
  "cm_ends (native_make_parent env p)" "cm_ends (save_resume_ignored env p g off)" "cm_ends (save_periodically env j c l)"
  "cm_ends (native_load_resume env p)" "cm_ends (local_length env p)" "cm_ends (write_data_at env j off data)"
  unfolding save_periodically_def save_resume_ignored_def save_resume_def native_make_parent_def native_write_file_def
    native_load_resume_def local_length_def write_data_at_def
  by (intro ends_rules)+

lemma range_ends: "cm_ends (range_request env j a e)" "cm_ends (range_to_vec env j a e)"
  unfolding range_to_vec_def range_request_def by (intro ends_rules)+

lemma retry_ends [ends_rules]: "cm_ends (get_range_with_retry env j a e attempt)"
proof (induction env j a e attempt rule: get_range_with_retry.induct)
  case (1 env j a e attempt)
  show ?case
    by (subst get_range_with_retry.simps, intro ends_rules range_ends) (rule 1, (assumption | simp)+)
qed

lemma flush_ends [ends_rules]: "cm_ends (flush_pending env j db tot rtt st)"
proof (induction "length (fst st)" arbitrary: st rule: less_induct)
  case less
  obtain p c m l where st: "st = (p, c, m, l)" by (cases st) auto
  show ?case
    unfolding st
    by (subst flush_pending.simps, intro ends_rules less) (simp add: st length_delete_less)
qed

lemma chunks_end [ends_rules]: "cm_ends (batch_chunks env j db tot cs st)"
proof (induction cs arbitrary: st)
  case Nil
  then show ?case by (cases st) (simp add: ends_ret)
next
  case (Cons ch cs)
  obtain a e p c m l where "ch = (a, e)" "st = (p, c, m, l)" by (cases ch; cases st) auto
  then show ?case by (simp only: batch_chunks.simps) (intro ends_rules Cons)
qed

lemma stream_ends [ends_rules]: "cm_ends (native_stream env j sz rtt broken cs x c m l)"
proof (induction cs arbitrary: x c m l)
  case Nil
  then show ?case by (cases broken) (simp_all add: ends_ret ends_fail)
next
  case (Cons ch cs)
  show ?case by (simp only: native_stream.simps) (intro ends_rules Cons)
qed

lemma sequential_ends: "cm_ends (download_sequential env j a sz)"
  unfolding download_sequential_def by (intro ends_rules range_ends)

subsection \<open>Loops\<close>

lemma batch_ends:
  assumes "stop + 16777216 \<le> u64_max" and "a \<le> stop" and "0 < k" and "k \<le> 16777216"
  shows "cm_ends (download_batch env j a stop tot db k)"
proof -
  have "stop + k \<le> u64_max" using assms(1,4) by linarith
  then obtain bs where "parallel_chunks a stop k = Some bs" using parallel_chunks_chain [OF assms(2,3)] by blast
  then have "cm_ends (cm_loop (parallel_chunks a stop k))" by (simp add: cm_ends_def cm_sat_def cm_loop_def)
  then show ?thesis unfolding download_batch_def by (intro ends_rules)
qed

lemma chunk_size_fine: "tuned_state s \<Longrightarrow> max (pm_chunk_size (te_params (cl_tune s))) 1 \<le> 16777216"
  by (drule in_orderD(2)) (auto simp: engine_ok_def params_ok_def hard_max_chunk_size_def)

text \<open>Every round that goes on has moved the offset.\<close>

lemma batch_step_ends:
  assumes "sz + 16777216 \<le> u64_max"
  shows "cm_sat (\<lambda>s. k = sz - c \<and> tuned_state s) (native_batch_step env j sz (c, m))
    (\<lambda>r s. case r of Inl x \<Rightarrow> \<exists>k2<k. k2 = sz - fst x \<and> tuned_state s | Inr _ \<Rightarrow> tuned_state s) (\<lambda>_. tuned_state) (\<lambda>_. False)"
proof (rule sat_fact)
  assume k: "k = sz - c"
  let ?Q = "\<lambda>r s. case r of Inl x \<Rightarrow> \<exists>k2<k. k2 = sz - fst x \<and> tuned_state s | Inr _ \<Rightarrow> tuned_state s"
  let ?sat = "\<lambda>m Q. cm_sat tuned_state m Q (\<lambda>_. tuned_state) (\<lambda>_. False)"
  show "?sat (native_batch_step env j sz (c, m)) ?Q"
  proof (cases "sz \<le> c")
    case True
    then show ?thesis by (simp add: native_batch_step_def sat_ret)
  next
    case False
    have more: "?sat (if got = 0 then cm_ret (Inr m)
          else cm_bind (save_resume_ignored env (nj_dest j) (nj_etag j) (sat_add c got)) (\<lambda>_.
               cm_ret (Inl (sat_add c got, sat_add m got)))) ?Q" for got
    proof (cases "got = 0")
      case True
      then show ?thesis by (simp add: sat_ret)
    next
      case g: False
      have "c < sat_add c got" using g False assms by (auto simp: sat_add_def)
      then have "sz - sat_add c got < k" using k False by linarith
      with g show ?thesis
        by (simp only: if_False simp_thms)
          (rule sat_bind [OF sidecar_ends(2) [unfolded cm_ends_def]], rule sat_ret, simp)
    qed
    have b: "?sat (cm_bind (download_batch env j c (sat_add c (batch_span (sz - c) q w)) sz m q) (\<lambda>got.
          if got = 0 then cm_ret (Inr m)
          else cm_bind (save_resume_ignored env (nj_dest j) (nj_etag j) (sat_add c got)) (\<lambda>_.
               cm_ret (Inl (sat_add c got, sat_add m got))))) ?Q" if "0 < q" "q \<le> 16777216" for q w
    proof -
      have "batch_span (sz - c) q w \<le> sz - c" using batch_span_bounds [of "sz - c" q w] False by simp
      then have "sat_add c (batch_span (sz - c) q w) + 16777216 \<le> u64_max" "c \<le> sat_add c (batch_span (sz - c) q w)"
        using assms False by (simp_all add: sat_add_def)
      from batch_ends [OF this that] show ?thesis unfolding cm_ends_def by (rule sat_bind) (rule more)
    qed
    show ?thesis
      unfolding native_batch_step_def prod.case if_not_P [OF False]
      apply (rule sat_bind [OF sat_get [where Q = "\<lambda>_. tuned_state"]], assumption)
      apply (rule sat_bind [OF sat_get [where Q = "\<lambda>q s. (0 < q \<and> q \<le> 16777216) \<and> tuned_state s"]])
      subgoal for w s using chunk_size_fine [of s] by simp
      apply (rule sat_fact, elim conjE)
      apply (erule (1) b)
      done
  qed
qed

lemma batches_end:
  fixes env :: "('e, 's, 'n) native_env"
  assumes "sz + 16777216 \<le> u64_max"
  shows "cm_ends (cm_while (native_batch_step env j sz) (a, 0))"
proof -
  define J where "J = (\<lambda>k (x :: nat \<times> nat) s. k = sz - fst x \<and> tuned_state (s :: ('s, 'n native_world) client))"
  have "cm_sat (J (sz - a) (a, 0)) (cm_while (native_batch_step env j sz) (a, 0)) (\<lambda>_. tuned_state) (\<lambda>_. tuned_state) (\<lambda>_. False)"
  proof (rule sat_while_total)
    show "cm_sat (J k x) (native_batch_step env j sz x) (\<lambda>r s. case r of Inl x2 \<Rightarrow> \<exists>k2<k. J k2 x2 s | Inr y \<Rightarrow> tuned_state s)
        (\<lambda>_. tuned_state) (\<lambda>_. False)" for k x
      unfolding J_def using batch_step_ends [OF assms, of k "fst x" env j "snd x"] by simp
  qed simp
  then show ?thesis by (simp add: cm_ends_def J_def)
qed

subsection \<open>A file\<close>

text \<open>The length the server states leaves room for one more chunk.\<close>

definition sane_length :: "('e, 's, 'n) native_env \<Rightarrow> string \<Rightarrow> bool" where
  "sane_length env remote \<longleftrightarrow> (\<forall>n reply broken n2 v. ne_send env (native_head env remote) n = (Inr (reply, broken), n2) \<longrightarrow>
     u64_from_str (header_str env reply ''content-length'') = Some v \<longrightarrow> v + 16777216 \<le> u64_max)"

lemma fill_ends: "sz + 16777216 \<le> u64_max \<Longrightarrow> cm_ends (fill_file env j a sz)"
  unfolding fill_file_def by (intro ends_rules batches_end sequential_ends)

text \<open>From any state in which the length that is fetched is sane.\<close>

lemma once_ends_from:
  assumes "cm_sat P (native_fetch_meta env remote) (\<lambda>x s. snd x + 16777216 \<le> u64_max \<and> tuned_state s) (\<lambda>_. tuned_state) (\<lambda>_. False)"
  shows "cm_sat P (download_once env remote dest level force) (\<lambda>_. tuned_state) (\<lambda>_. tuned_state) (\<lambda>_. False)"
  unfolding download_once_def
  by (rule sat_bind [OF assms], rule sat_fact, fold cm_ends_def, intro ends_rules fill_ends) simp

lemma once_ends:
  assumes "sane_length env remote"
  shows "cm_ends (download_once env remote dest level force)"
  unfolding cm_ends_def
proof (rule once_ends_from)
  have "cm_sat tuned_state (nv_send env (native_head env remote))
      (\<lambda>r s. (\<forall>v. u64_from_str (header_str env (fst r) ''content-length'') = Some v \<longrightarrow> v + 16777216 \<le> u64_max) \<and> tuned_state s)
      (\<lambda>_. tuned_state) (\<lambda>_. False)"
    by (rule send_known) (use assms in \<open>unfold sane_length_def, metis prod.collapse\<close>)
  then show "cm_sat tuned_state (native_fetch_meta env remote) (\<lambda>x s. snd x + 16777216 \<le> u64_max \<and> tuned_state s)
      (\<lambda>_. tuned_state) (\<lambda>_. False)"
    unfolding native_fetch_meta_def
    by (rule sat_bind, clarify, intro sat_fact) (auto intro!: sat_if sat_fail sat_ret simp: u64_max_def split: option.split)
qed

text \<open>
  C7: the download of a file ends, with a result or with an error, whatever the server answers, whatever
  requests and local operations fail and in whatever order they complete: retries are bounded, and every
  round of the batches moves the offset.
\<close>

theorem native_download_ends:
  assumes "sane_length env remote" and "engine_ok (cl_tune s)"
  shows "fst (native_download_file env remote dest s) \<noteq> None"
proof -
  have "cm_ends (native_download_file env remote dest)"
    unfolding native_download_file_def by (intro ends_rules prepare_ends once_ends assms(1))
  then have "cm_post (\<lambda>_. tuned_state) (\<lambda>_. tuned_state) (\<lambda>_. False) (native_download_file env remote dest s)"
    unfolding cm_ends_def by (rule satD) (simp add: in_order_def assms(2))
  then show ?thesis by (cases "native_download_file env remote dest s"; cases "fst (native_download_file env remote dest s)") simp_all
qed

theorem native_download_ends_witness:
  "fst (native_download_file hostile_env ''f'' [''dest'', ''f''] home_start) \<noteq> None"
proof (rule native_download_ends)
  show "sane_length hostile_env ''f''"
    by (auto simp: sane_length_def hostile_env_def header_str_def native_header_def u64_from_str_def)
  show "engine_ok (cl_tune home_start)" by (simp add: home_start_def engine_new_ok)
qed

text \<open>The walk of a directory has no such bound: a listing that names its own directory is followed for ever.\<close>

theorem self_listing_never_ends:
  fixes env :: "('e, 's, 'n) native_env" and s :: "('s, 'n native_world) client"
  assumes "\<And>req n. \<exists>reply n2. ne_send env req n = (Inr (reply, None), n2) \<and> rp_status reply = 200"
    and "\<And>b. ne_dir_json env b = Inr [\<lparr> rf_path = dir, rf_is_dir = True, rf_size = 0, rf_mtime = 0 \<rparr>]"
    and "validate_relative dir = Inr ()"
  shows "fst (collect_remote_files env dir s) = None"
proof -
  have "cm_sat (\<lambda>_. x = ([dir], [])) (collect_remote_step env x)
      (\<lambda>r _. case r of Inl x2 \<Rightarrow> x2 = ([dir], []) | Inr y \<Rightarrow> False) (\<lambda>_ _. False) (\<lambda>_. True)" for x
    unfolding cm_sat_def
  proof (intro allI impI)
    fix s :: "('s, 'n native_world) client" assume x: "x = ([dir], [])"
    obtain reply n2 where "ne_send env \<lparr> rq_method = ''GET'', rq_url = native_dir_url env dir,
        rq_headers = native_headers env False None, rq_body = [] \<rparr> (nw_net (cl_world s)) = (Inr (reply, None), n2)"
      "rp_status reply = 200" using assms(1) by blast
    then show "cm_post (\<lambda>r _. case r of Inl x2 \<Rightarrow> x2 = ([dir], []) | Inr y \<Rightarrow> False) (\<lambda>_ _. False) (\<lambda>_. True)
        (collect_remote_step env x s)"
      using assms(2,3)
      by (simp add: x collect_remote_step_def native_list_dir_def nv_send_def cm_world_def cm_bind_def cm_ret_def cm_lift_def
          nv_body_def map_err_def Let_def)
  qed
  from sat_while [where I = "\<lambda>x _. x = ([dir], [])", OF this, of "([dir], [])" "\<lambda>_. True"]
  have "cm_post (\<lambda>_ _. False) (\<lambda>_ _. False) (\<lambda>_. True) (cm_while (collect_remote_step env) ([dir], []) s)"
    by (simp add: cm_sat_def)
  then have "fst (cm_while (collect_remote_step env) ([dir], []) s) = None" by (auto elim: cm_post.elims)
  then show ?thesis by (auto simp: collect_remote_files_def cm_bind_def split: prod.split)
qed

end
