(* ===== verification/Native_Live.thy ===== *)
theory Native_Live
  imports Native_Fetch Native_Ends
begin

text \<open>
  A native download from a server that answers, over a connection and a disk that lose nothing, succeeds.
\<close>

subsection \<open>Runs without an error\<close>

abbreviation running_ok :: "('n \<Rightarrow> bool) \<Rightarrow> ('s, 'n native_world) client \<Rightarrow> bool" where
  "running_ok ok \<equiv> at_fs ok (\<lambda>_. True)"

text \<open>If it ends, it ends with a value.\<close>

definition cm_sound :: "('n \<Rightarrow> bool) \<Rightarrow> ('s, 'n native_world, 'a) cm \<Rightarrow> bool" where
  "cm_sound ok m \<longleftrightarrow> cm_sat (running_ok ok) m (\<lambda>_. running_ok ok) (\<lambda>_ _. False) (\<lambda>_. True)"

named_theorems sound_rules \<open>rules that follow the text of a run\<close>

lemma sound_ret [sound_rules]: "cm_sound ok (cm_ret x)"
  by (simp add: cm_sound_def sat_ret)

lemma sound_lift [sound_rules]: "cm_sound ok (cm_lift (Inr x))"
  by (simp add: cm_sound_def cm_sat_def cm_lift_def)

lemma sound_bind [sound_rules]: "cm_sound ok m \<Longrightarrow> (\<And>x. cm_sound ok (f x)) \<Longrightarrow> cm_sound ok (cm_bind m f)"
  unfolding cm_sound_def by (rule sat_bind)

lemma sound_known:
  assumes "cm_sat (running_ok ok) m (\<lambda>x s. Q x \<and> running_ok ok s) (\<lambda>_ _. False) (\<lambda>_. True)"
    and "\<And>x. Q x \<Longrightarrow> cm_sound ok (f x)"
  shows "cm_sound ok (cm_bind m f)"
  unfolding cm_sound_def
  by (rule sat_bind [OF assms(1)], rule sat_fact) (use assms(2) in \<open>simp add: cm_sound_def\<close>)

lemma sound_attempt: "cm_keeps (nw_is ok (\<lambda>_. True)) m \<Longrightarrow> cm_sound ok (cm_attempt m)"
  unfolding cm_sound_def
  by (rule sat_conseq [OF sat_attempt [OF keeps_sat, where ?E2.0 = "\<lambda>_ _. False"]]) (auto split: sum.splits)

lemma sound_get [sound_rules]: "cm_sound ok (cm_get f)"
  by (simp add: cm_sound_def sat_get)

lemma sound_tuned: "(\<And>e. engine_ok e \<Longrightarrow> engine_ok (snd (f e))) \<Longrightarrow> cm_sound ok (cm_tuned f)"
  by (simp add: cm_sound_def cm_sat_def cm_tuned_def case_prod_beta Let_def in_orderD)

lemma sound_when [sound_rules]: "cm_sound ok m \<Longrightarrow> cm_sound ok (cm_when b m)"
  by (cases b) (simp_all add: cm_when_def sound_ret)

lemma sound_if [sound_rules]: "(b \<Longrightarrow> cm_sound ok m) \<Longrightarrow> (\<not> b \<Longrightarrow> cm_sound ok k) \<Longrightarrow> cm_sound ok (if b then m else k)"
  by simp

lemma sound_option [sound_rules]:
  "(r = None \<Longrightarrow> cm_sound ok m) \<Longrightarrow> (\<And>x. r = Some x \<Longrightarrow> cm_sound ok (f x)) \<Longrightarrow>
   cm_sound ok (case r of None \<Rightarrow> m | Some x \<Rightarrow> f x)"
  by (cases r) simp_all

lemma sound_prod [sound_rules]: "(\<And>x y. r = (x, y) \<Longrightarrow> cm_sound ok (f x y)) \<Longrightarrow> cm_sound ok (case r of (x, y) \<Rightarrow> f x y)"
  by (cases r) simp

lemma sound_let [sound_rules]: "(\<And>y. y = x \<Longrightarrow> cm_sound ok (f y)) \<Longrightarrow> cm_sound ok (let y = x in f y)"
  by simp

lemma sound_world:
  fixes f :: "'n native_world \<Rightarrow> (libfw_error + 'a) \<times> 'n native_world"
  assumes "\<And>w. ok (nw_net w) \<Longrightarrow> \<exists>x w2. f w = (Inr x, w2) \<and> ok (nw_net w2)"
  shows "cm_sound ok (cm_world f)"
  unfolding cm_sound_def
proof (rule sat_world)
  fix s :: "('s, 'n native_world) client" and r w
  assume "running_ok ok s" "f (cl_world s) = (r, w)"
  with assms [of "cl_world s"] show "case r of Inl e \<Rightarrow> False | Inr x \<Rightarrow> running_ok ok (s\<lparr> cl_world := w \<rparr>)"
    by (auto simp: in_order_def nw_is_def)
qed

subsection \<open>The contract\<close>

text \<open>Every request is answered in full, and the local operations do not fail by themselves.\<close>

locale reliable_native = native_service env remote D tag ok
  for env :: "('e, 's, 'n) native_env" and remote :: string and D :: bytes and tag :: string and ok :: "'n \<Rightarrow> bool" +
  assumes quiet: "ok n \<Longrightarrow> fst (ne_fault env n) = None"
    and head_comes: "ok n \<Longrightarrow> \<exists>reply n2. ne_send env (native_head env remote) n = (Inr (reply, None), n2) \<and> rp_status reply = 200"
    and range_comes: "ok n \<Longrightarrow> nj_remote j = remote \<Longrightarrow> nj_etag j = tag \<Longrightarrow> s < e \<Longrightarrow> e \<le> length D \<Longrightarrow> e - s \<le> 16777216 \<Longrightarrow>
      \<exists>reply n2. ne_send env (range_get env j s e) n = (Inr (reply, None), n2) \<and> rp_status reply = 206 \<and>
        whole_body (ne_zrip env) (native_format env reply) (concat (rp_body reply)) = Inr (block_of D s e) \<and>
        feed_all (ne_zrip env) (decompressor_new (native_format env reply)) (rp_body reply) = Inr (block_of D s e)"
begin

lemma nv_sound [sound_rules]:
  "cm_sound ok (nv_emit env ev)" "cm_sound ok (nv_log env m)" "cm_sound ok (nv_now env)" "cm_sound ok (nv_order env xs)"
  "cm_sound ok (nv_file env g)" "cm_sound ok (nv_tick env k rtt err)" "cm_sound ok (finish_transfer env b)"
proof -
  note d = net_closedD [OF closed]
  show e: "cm_sound ok (nv_emit env ev)" for ev unfolding nv_emit_def by (rule sound_world) simp
  then show "cm_sound ok (nv_log env m)" unfolding nv_log_def .
  show n: "cm_sound ok (nv_now env)" unfolding nv_now_def by (rule sound_get)
  show "cm_sound ok (nv_order env xs)"
    unfolding nv_order_def by (rule sound_world) (simp add: case_prod_beta d)
  show "cm_sound ok (nv_file env g)"
    unfolding nv_file_def by (rule sound_world) (auto simp: case_prod_beta Let_def d split: option.split)
  show "cm_sound ok (nv_tick env k rtt err)" unfolding nv_tick_def by (intro sound_rules n e sound_tuned tick_ok)
  show "cm_sound ok (finish_transfer env b)" unfolding finish_transfer_def by (rule sound_tuned) (simp add: transfer_end_ok)
qed

text \<open>An operation that cannot fail in the states \<open>P\<close>.\<close>

lemma storage_comes:
  fixes f :: "fsys \<Rightarrow> (io_error + 'a) \<times> fsys"
  assumes "\<And>fs. P fs \<Longrightarrow> \<exists>x fs2. f fs = (Inr x, fs2)"
  shows "cm_sat (at_fs ok P) (nv_storage env what f) (\<lambda>_. running_ok ok) (\<lambda>_ _. False) (\<lambda>_. True)"
  unfolding nv_storage_def
proof (rule sat_bind)
  show "cm_sat (at_fs ok P) (nv_file env f) (\<lambda>r s. (\<exists>x. r = Inr x) \<and> running_ok ok s) (\<lambda>_ _. False) (\<lambda>_. True)"
    unfolding nv_file_def
  proof (rule sat_world)
    fix s :: "('s, 'n native_world) client" and r :: "libfw_error + (io_error + 'a)" and w
    assume s: "at_fs ok P s" and e: "(let (fault, n) = ne_fault env (nw_net (cl_world s));
        (r, fs) = (case fault of Some (_, e) \<Rightarrow> (Inl e, nw_fs (cl_world s)) | None \<Rightarrow> f (nw_fs (cl_world s)))
      in (Inr r, (cl_world s)\<lparr> nw_net := n, nw_fs := fs \<rparr>)) = (r, w)"
    have o1: "ok (nw_net (cl_world s))" "P (nw_fs (cl_world s))" "engine_ok (cl_tune s)"
      using s by (simp_all add: in_order_def nw_is_def)
    obtain n where n: "ne_fault env (nw_net (cl_world s)) = (None, n)" "ok n"
      using quiet [OF o1(1)] net_closedD(2) [OF closed o1(1)] by (metis prod.collapse)
    obtain x fs2 where "f (nw_fs (cl_world s)) = (Inr x, fs2)" using assms [OF o1(2)] by blast
    with e n o1(3) show "case r of Inl e \<Rightarrow> False | Inr r \<Rightarrow> (\<exists>x. r = Inr x) \<and> running_ok ok (s\<lparr> cl_world := w \<rparr>)"
      by (auto simp: in_order_def nw_is_def)
  qed
  show "cm_sat (\<lambda>s. (\<exists>x. r = Inr x) \<and> running_ok ok s) (cm_lift (map_err (storage_failure what) r))
      (\<lambda>_. running_ok ok) (\<lambda>_ _. False) (\<lambda>_. True)" for r :: "io_error + 'a"
    by (rule sat_lift) auto
qed

lemma storage_sound:
  assumes "\<And>fs. \<exists>x fs2. f fs = (Inr x, fs2)"
  shows "cm_sound ok (nv_storage env what f)"
  unfolding cm_sound_def by (rule storage_comes) (rule assms)

lemma write_sound [sound_rules]: "cm_sound ok (write_data_at env j off data)"
proof -
  have w: "cm_sat (running_ok ok) (nv_write_at env i off data) (\<lambda>r s. r = Inr () \<and> running_ok ok s) (\<lambda>_ _. False) (\<lambda>_. True)" for i
    unfolding nv_write_at_def
  proof (rule sat_world)
    fix s :: "('s, 'n native_world) client" and r :: "libfw_error + (io_error + unit)" and w
    assume s: "running_ok ok s" and e: "(let (fault, n) = ne_fault env (nw_net (cl_world s)) in
       case fault of
         None \<Rightarrow> (Inr (Inr ()), (cl_world s)\<lparr> nw_net := n, nw_fs := fs_write (nw_fs (cl_world s)) i off data \<rparr>)
       | Some (k, e) \<Rightarrow> (Inr (Inl e), (cl_world s)\<lparr> nw_net := n, nw_fs := fs_write (nw_fs (cl_world s)) i off (take k data) \<rparr>))
     = (r, w)"
    have o1: "ok (nw_net (cl_world s))" "engine_ok (cl_tune s)" using s by (simp_all add: in_order_def nw_is_def)
    obtain n where n: "ne_fault env (nw_net (cl_world s)) = (None, n)" "ok n"
      using quiet [OF o1(1)] net_closedD(2) [OF closed o1(1)] by (metis prod.collapse)
    with e o1(2) show "case r of Inl e \<Rightarrow> False | Inr r \<Rightarrow> r = Inr () \<and> running_ok ok (s\<lparr> cl_world := w \<rparr>)"
      by (auto simp: in_order_def nw_is_def)
  qed
  show ?thesis
    unfolding write_data_at_def
    by (intro sound_bind [OF storage_sound] sound_known [OF w]) (auto simp: sound_lift)
qed

lemma save_sound [sound_rules]:
  "cm_sound ok (save_resume_ignored env p g off)" "cm_sound ok (save_periodically env j c l)"
proof -
  have "cm_keeps (nw_is ok (\<lambda>_. True)) (nv_write_at env k off2 text2)" for k off2 text2
    unfolding nv_write_at_def
    by (rule keeps_world) (auto simp: nw_is_def case_prod_beta Let_def net_closedD(2) [OF closed] split: option.split)
  then have "cm_keeps (nw_is ok (\<lambda>_. True)) (save_resume env p g off)" for p g off
    unfolding save_resume_def native_make_parent_def native_write_file_def
    by (intro keeps_rules nv_keeps(7,8) [OF closed]) simp_all
  then show s: "cm_sound ok (save_resume_ignored env p g off)" for p g off
    unfolding save_resume_ignored_def by (intro sound_bind sound_attempt sound_ret)
  show "cm_sound ok (save_periodically env j c l)" unfolding save_periodically_def by (intro sound_rules s)
qed

subsection \<open>Ranges\<close>

abbreviation safely :: "(fsys \<Rightarrow> bool) \<Rightarrow> ('s, 'n, 'a) nm \<Rightarrow> ('a \<Rightarrow> ('s, 'n native_world) client \<Rightarrow> bool) \<Rightarrow> bool" where
  "safely P m Q \<equiv> cm_sat (at_fs ok P) m Q (\<lambda>_ _. False) (\<lambda>_. True)"

lemma send_comes:
  assumes "reads req" and "\<And>n. ok n \<Longrightarrow> \<exists>r n2. ne_send env req n = (Inr r, n2) \<and> Q r"
  shows "safely P (nv_send env req) (\<lambda>r s. Q r \<and> at_fs ok P s)"
  unfolding nv_send_def
proof (rule sat_world)
  fix s :: "('s, 'n native_world) client" and r w
  assume s: "at_fs ok P s"
    and e: "(let (r, n) = ne_send env req (nw_net (cl_world s)) in (map_err Err_Network r, (cl_world s)\<lparr> nw_net := n \<rparr>)) = (r, w)"
  have o1: "ok (nw_net (cl_world s))" "P (nw_fs (cl_world s))" "engine_ok (cl_tune s)"
    using s by (simp_all add: in_order_def nw_is_def)
  obtain q n where q: "ne_send env req (nw_net (cl_world s)) = (Inr q, n)" "Q q" using assms(2) [OF o1(1)] by blast
  moreover have "ok n" using net_closedD(1) [OF closed o1(1) assms(1)] q(1) by (metis snd_conv)
  ultimately show "case r of Inl e \<Rightarrow> False | Inr x \<Rightarrow> Q x \<and> at_fs ok P (s\<lparr> cl_world := w \<rparr>)"
    using e o1 by (auto simp: in_order_def nw_is_def)
qed

lemma meta_comes: "safely P (native_fetch_meta env remote) (\<lambda>x s. x = (tag, length D) \<and> at_fs ok P s)"
proof -
  have "safely P (nv_send env (native_head env remote)) (\<lambda>r s. (rp_status (fst r) = 200 \<and>
      header_str env (fst r) ''etag'' = tag \<and> u64_from_str (header_str env (fst r) ''content-length'') = Some (length D)) \<and> at_fs ok P s)"
  proof (rule send_comes)
    show "reads (native_head env remote)" by (simp add: reads_def native_head_def)
    show "\<exists>r n2. ne_send env (native_head env remote) n = (Inr r, n2) \<and> rp_status (fst r) = 200 \<and>
        header_str env (fst r) ''etag'' = tag \<and> u64_from_str (header_str env (fst r) ''content-length'') = Some (length D)"
      if "ok n" for n
      using head_comes [OF that] head [OF that] by (metis fst_conv)
  qed
  then show ?thesis
    unfolding native_fetch_meta_def
    by (rule sat_bind, clarify, intro sat_fact) (auto intro!: sat_ret)
qed

lemma request_comes:
  assumes j: "nj_remote j = remote" "nj_etag j = tag" and a: "a < e" "e \<le> length D" "e - a \<le> 16777216"
  shows "safely P (range_request env j a e) (\<lambda>((reply, broken), rtt) s. (broken = None \<and>
    whole_body (ne_zrip env) (native_format env reply) (concat (rp_body reply)) = Inr (block_of D a e) \<and>
    feed_all (ne_zrip env) (decompressor_new (native_format env reply)) (rp_body reply) = Inr (block_of D a e)) \<and> at_fs ok P s)"
proof -
  let ?G = "\<lambda>r. rp_status (fst r) = 206 \<and> snd r = None \<and>
      whole_body (ne_zrip env) (native_format env (fst r)) (concat (rp_body (fst r))) = Inr (block_of D a e) \<and>
      feed_all (ne_zrip env) (decompressor_new (native_format env (fst r))) (rp_body (fst r)) = Inr (block_of D a e)"
  have n: "safely P (nv_now env) (\<lambda>_. at_fs ok P)" unfolding nv_now_def by (rule sat_get)
  have g: "safely P (nv_send env (range_get env j a e)) (\<lambda>r s. ?G r \<and> at_fs ok P s)"
  proof (rule send_comes)
    show "reads (range_get env j a e)" by (simp add: reads_def range_get_def)
    show "\<exists>r n2. ne_send env (range_get env j a e) n = (Inr r, n2) \<and> ?G r" if "ok n" for n
      using range_comes [OF that j a] by (metis fst_conv snd_conv)
  qed
  show ?thesis
    unfolding range_request_def
    apply (rule sat_bind [OF n])
    apply (rule sat_bind [OF g], rule sat_fact)
    apply (rule sat_bind [OF n])
    apply (auto intro!: sat_ret split: prod.split)
    done
qed

lemma retry_comes:
  assumes "nj_remote j = remote" "nj_etag j = tag" "a < e" "e \<le> length D" "e - a \<le> 16777216"
  shows "cm_sound ok (get_range_with_retry env j a e k)"
proof -
  have v: "safely P (range_to_vec env j a e) (\<lambda>x s. fst x = block_of D a e \<and> at_fs ok P s)" for P
    unfolding range_to_vec_def
    by (rule sat_bind [OF request_comes [OF assms]], clarify, intro sat_fact) (auto simp: nv_body_def intro!: sat_ret)
  have l: "length (block_of D a e) = u64_sub e a"
    using assms(3,4) small by (simp add: block_of_def)
  have r: "safely P (cm_attempt (range_to_vec env j a e)) (\<lambda>r s. (\<exists>rtt. r = Inr (block_of D a e, rtt)) \<and> at_fs ok P s)" for P
    by (rule sat_conseq [OF sat_attempt [OF v, where ?E2.0 = "\<lambda>_ _. False"]]) (auto split: sum.splits)
  show ?thesis
    by (subst get_range_with_retry.simps, rule sound_known [OF r]) (auto simp: l sound_ret)
qed

subsection \<open>Batches\<close>

lemma flush_sound [sound_rules]: "cm_sound ok (flush_pending env j db tot rtt st)"
proof (induction "length (fst st)" arbitrary: st rule: less_induct)
  case less
  obtain p c m l where st: "st = (p, c, m, l)" by (cases st) auto
  show ?case
    unfolding st
    by (subst flush_pending.simps, intro sound_rules less) (simp add: st length_delete_less)
qed

lemma chunks_sound:
  assumes j: "nj_remote j = remote" "nj_etag j = tag"
  shows "\<forall>(a, e) \<in> set cs. a < e \<and> e \<le> length D \<and> e - a \<le> 16777216 \<Longrightarrow> cm_sound ok (batch_chunks env j db tot cs st)"
proof (induction cs arbitrary: st)
  case Nil
  then show ?case by (cases st) (simp add: sound_ret)
next
  case (Cons ch cs)
  obtain a e p c m l where ch: "ch = (a, e)" "st = (p, c, m, l)" by (cases ch; cases st) auto
  have r: "cm_sound ok (get_range_with_retry env j a e 0)" by (rule retry_comes [OF j]) (use Cons.prems ch in auto)
  have at: "cm_sat (running_ok ok) (cm_attempt (get_range_with_retry env j a e 0))
      (\<lambda>r s. (\<exists>x. r = Inr x) \<and> running_ok ok s) (\<lambda>_ _. False) (\<lambda>_. True)"
    by (rule sat_conseq [OF sat_attempt [OF r [unfolded cm_sound_def], where ?E2.0 = "\<lambda>_ _. False"]]) (auto split: sum.splits)
  have ih: "cm_sound ok (batch_chunks env j db tot cs st2)" for st2 using Cons by simp
  show ?case
    unfolding ch batch_chunks.simps
  proof (rule sound_known [OF at], elim exE)
    fix r :: "libfw_error + bytes \<times> f64" and x
    assume "r = Inr x"
    then show "cm_sound ok (case r of
        Inl err \<Rightarrow> cm_bind (nv_tick env (sat_add db m) None True) (\<lambda>_. cm_fail err)
      | Inr (data, rtt) \<Rightarrow> cm_bind (flush_pending env j db tot rtt (btree_insert a data p, c, m, l))
          (\<lambda>st. batch_chunks env j db tot cs st))"
      by (cases x) (simp add: sound_bind flush_sound ih)
  qed
qed

lemma batch_sound:
  assumes j: "nj_remote j = remote" "nj_etag j = tag"
    and c: "a \<le> stop" "stop \<le> length D" "0 < k" "k \<le> 16777216"
  shows "cm_sound ok (download_batch env j a stop tot db k)"
proof -
  have "stop + k \<le> u64_max" using c small by linarith
  then obtain bs where bs: "parallel_chunks a stop k = Some bs" "chain a bs stop" "\<forall>(s, e) \<in> set bs. e = min (s + k) stop"
    using parallel_chunks_chain [OF c(1,3)] by blast
  have b: "\<forall>(s, e) \<in> set bs. s < e \<and> e \<le> length D \<and> e - s \<le> 16777216"
  proof (clarify, intro conjI)
    fix s e assume m: "(s, e) \<in> set bs"
    then show "s < e" "e \<le> length D" using chain_mem [OF bs(2) m] c(2) by linarith+
    have "e = min (s + k) stop" using bs(3) m by blast
    then show "e - s \<le> 16777216" using c(4) by linarith
  qed
  have o1: "cm_sat (running_ok ok) (nv_order env bs) (\<lambda>cs s. set cs = set bs \<and> running_ok ok s) (\<lambda>_ _. False) (\<lambda>_. True)"
    unfolding nv_order_def
    by (rule sat_world) (auto simp: case_prod_beta in_order_def nw_is_def net_closedD(4) [OF closed])
  have lp: "cm_loop (Some bs) = cm_ret bs" by (simp add: fun_eq_iff cm_loop_def cm_ret_def)
  show ?thesis
    unfolding download_batch_def bs(1) lp bind_ret
    by (rule sound_known [OF o1], rule chunks_sound [OF j]) (simp add: b)
qed

lemma step_sound:
  assumes j: "nj_remote j = remote" "nj_etag j = tag"
  shows "cm_sound ok (native_batch_step env j (length D) (c, m))"
proof (cases "length D \<le> c")
  case True
  then show ?thesis by (simp add: native_batch_step_def sound_ret)
next
  case False
  have k: "cm_sat (running_ok ok) (cm_get (\<lambda>s. max (pm_chunk_size (te_params (cl_tune s))) 1))
      (\<lambda>q s. (0 < q \<and> q \<le> 16777216) \<and> running_ok ok s) (\<lambda>_ _. False) (\<lambda>_. True)"
    by (rule sat_get, frule chunk_fine) (simp add: less_max_iff_disj)
  have "cm_sound ok (download_batch env j c (sat_add c (batch_span (length D - c) q w)) (length D) m q)"
    if "0 < q \<and> q \<le> 16777216" for q w
  proof -
    have n: "batch_span (length D - c) q w \<le> length D - c" using batch_span_bounds [of "length D - c" q w] False by simp
    then have l: "sat_add c (batch_span (length D - c) q w) = c + batch_span (length D - c) q w"
      using small False by (simp add: sat_add_def)
    show ?thesis unfolding l by (rule batch_sound [OF j]) (use that n False in linarith)+
  qed
  then show ?thesis
    unfolding native_batch_step_def prod.case if_not_P [OF False]
    by (intro sound_bind [OF sound_get] sound_known [OF k] sound_rules) simp_all
qed

lemma loop_sound:
  assumes "nj_remote j = remote" "nj_etag j = tag"
  shows "cm_sound ok (cm_while (native_batch_step env j (length D)) (a, 0))"
proof -
  have "cm_sat (running_ok ok) (native_batch_step env j (length D) x)
      (\<lambda>r s. case r of Inl x2 \<Rightarrow> running_ok ok s | Inr y \<Rightarrow> running_ok ok s) (\<lambda>_ _. False) (\<lambda>_. True)" for x
  proof (cases x)
    case (Pair c m)
    show ?thesis
      unfolding Pair by (rule sat_conseq [OF step_sound [OF assms, unfolded cm_sound_def]]) (auto split: sum.splits)
  qed
  then show ?thesis unfolding cm_sound_def by (rule sat_while) simp
qed

subsection \<open>One request\<close>

lemma stream_comes:
  "feed (ne_zrip env) x cs = Inr (out, x2) \<Longrightarrow>
   cm_sat (running_ok ok) (native_stream env j sz rtt None cs x c m l) (\<lambda>(y, _, _) s. y = x2 \<and> running_ok ok s)
     (\<lambda>_ _. False) (\<lambda>_. True)"
proof (induction cs arbitrary: x out c m l)
  case Nil
  then show ?case by (simp add: sat_ret)
next
  case (Cons ch cs)
  obtain o1 x1 o2 where d: "decompress (ne_zrip env) x ch = Inr (o1, x1)" "feed (ne_zrip env) x1 cs = Inr (o2, x2)"
    using Cons.prems by (auto simp: res_bind_Inr split: prod.splits)
  note ih = Cons.IH [OF d(2)]
  show ?case
  proof (cases "o1 = []")
    case True
    with ih show ?thesis by (simp add: d(1))
  next
    case False
    show ?thesis
      unfolding native_stream.simps d(1) sum.case prod.case if_not_P [OF False] Let_def
      by (intro sat_bind [OF write_sound [unfolded cm_sound_def]] sat_bind [OF save_sound(2) [unfolded cm_sound_def]]
          sat_bind [OF nv_sound(1) [unfolded cm_sound_def]] sat_bind [OF nv_sound(6) [unfolded cm_sound_def]] ih)
  qed
qed

lemma sequential_sound:
  assumes "nj_remote j = remote" "nj_etag j = tag" "a < length D" "length D - a \<le> 16777216"
  shows "cm_sound ok (download_sequential env j a (length D))"
  unfolding download_sequential_def cm_sound_def
proof (rule sat_bind [OF request_comes [OF assms(1-3) order_refl assms(4)]], clarify, rule sat_fact, clarify)
  fix reply rtt
  let ?x0 = "decompressor_new (native_format env reply)"
  assume "feed_all (ne_zrip env) ?x0 (rp_body reply) = Inr (block_of D a (length D))"
  then obtain o1 x1 o2 y where f: "feed (ne_zrip env) ?x0 (rp_body reply) = Inr (o1, x1)" "decompress_finish (ne_zrip env) x1 = Inr (o2, y)"
    by (auto simp: feed_all_def res_bind_Inr split: prod.splits)
  show "cm_sat (running_ok ok)
     (cm_bind (native_stream env j (length D) rtt None (rp_body reply) ?x0 a 0 0) (\<lambda>(d, cursor, moved).
        case decompress_finish (ne_zrip env) d of
          Inl e \<Rightarrow> cm_fail (decompress_text e)
        | Inr (out, _) \<Rightarrow>
            if out = [] then cm_ret moved
            else cm_bind (write_data_at env j cursor out) (\<lambda>_. cm_ret (sat_add moved (length out)))))
     (\<lambda>_. running_ok ok) (\<lambda>_ _. False) (\<lambda>_. True)"
  proof (rule sat_bind [OF stream_comes [OF f(1)]], clarify, rule sat_fact)
    fix z c m
    assume z: "z = x1"
    have "cm_sound ok (if o2 = [] then cm_ret m else cm_bind (write_data_at env j c o2) (\<lambda>_. cm_ret (sat_add m (length o2))))"
      by (intro sound_rules)
    then show "cm_sat (running_ok ok) (case decompress_finish (ne_zrip env) z of
          Inl e \<Rightarrow> cm_fail (decompress_text e)
        | Inr (out, _) \<Rightarrow>
            if out = [] then cm_ret m
            else cm_bind (write_data_at env j c out) (\<lambda>_. cm_ret (sat_add m (length out))))
       (\<lambda>_. running_ok ok) (\<lambda>_ _. False) (\<lambda>_. True)"
      by (simp add: z f(2) cm_sound_def)
  qed
qed

subsection \<open>A file\<close>

text \<open>What is known of the outcome, and that there is no error.\<close>

lemma both_known:
  assumes "sats P m Q d t" and "safely P m (\<lambda>_. running_ok ok)"
  shows "safely P m Q"
  using sat_conj [OF assms] by (rule sat_conseq) auto

lemma both:
  assumes "sats P m Q d t" and "cm_sound ok m"
  shows "safely P m Q"
  by (rule both_known [OF assms(1)], rule sat_conseq [OF assms(2) [unfolded cm_sound_def]]) (auto elim: at_fs_mono)

lemma fill_comes:
  assumes j: "nj_remote j = remote" "nj_etag j = tag" "nj_file j = i" "nj_dest j = d @ [t]" and a: "a < length D"
  shows "safely (upto d t i a) (fill_file env j a (length D)) (\<lambda>_. running_ok ok)"
proof -
  let ?body = "if native_should_chunked (length D) a then cm_while (native_batch_step env j (length D)) (a, 0)
        else download_sequential env j a (length D)"
  have "length D - a \<le> 16777216" if "\<not> native_should_chunked (length D) a"
    using that by (auto simp: native_should_chunked_def min_parallel_download_bytes_def)
  then have s: "cm_sound ok ?body" by (intro sound_if loop_sound sequential_sound j a)
  have w: "sats (upto d t i a) ?body (\<lambda>n s. a + n = length D \<and> at_fs ok (upto d t i (length D)) s) d t"
    by (intro sat_if loop_right sequential_right j a)
  have "safely (upto d t i a) ?body (\<lambda>n s. a + n = length D \<and> running_ok ok s)"
    by (rule sat_conseq [OF both [OF w s]]) (auto elim: at_fs_mono)
  then show ?thesis
    unfolding fill_file_def
  proof (rule sat_bind, intro sat_fact)
    fix n
    assume n: "a + n = length D"
    have e: "sat_add a n = length D" using n small by (simp add: sat_add_def)
    have "cm_sound ok
       (cm_bind (nv_storage env (''truncate '' @ ne_display env (nj_dest j)) (\<lambda>fs. (Inr (), fs_set_len (nj_file j) (length D) fs))) (\<lambda>_.
        cm_bind (nv_storage env (''flush '' @ ne_display env (nj_dest j)) (fs_silent (\<lambda>_. Inr ()))) (\<lambda>_.
        cm_bind (save_resume_ignored env (nj_dest j) (nj_etag j) (length D)) (\<lambda>_.
        cm_bind (nv_emit env (Ev_file_done (nj_remote j) n)) (\<lambda>_. cm_ret n)))))"
      by (intro sound_bind storage_sound sound_rules) simp_all
    then show "cm_sat (running_ok ok)
       (cm_bind (nv_storage env (''truncate '' @ ne_display env (nj_dest j)) (\<lambda>fs. (Inr (), fs_set_len (nj_file j) (length D) fs))) (\<lambda>_.
        cm_bind (nv_storage env (''flush '' @ ne_display env (nj_dest j)) (fs_silent (\<lambda>_. Inr ()))) (\<lambda>_.
        let computed = sat_add a n in
        if computed \<noteq> length D then cm_fail (native_stopped (nj_remote j) computed (length D))
        else cm_bind (save_resume_ignored env (nj_dest j) (nj_etag j) (length D)) (\<lambda>_.
             cm_bind (nv_emit env (Ev_file_done (nj_remote j) n)) (\<lambda>_. cm_ret n)))))
       (\<lambda>_. running_ok ok) (\<lambda>_ _. False) (\<lambda>_. True)"
      by (simp add: e cm_sound_def)
  qed
qed

lemma open_comes:
  assumes "started d t a fs"
  shows "\<exists>x fs2. fs_change (fs_open_create (d @ [t])) fs = (Inr x, fs2)"
proof -
  have r: "ready d t fs" using assms by (simp add: started_def honest_def)
  then have "fs_node fs (d @ [t]) = None \<or> (\<exists>i. fs_node fs (d @ [t]) = Some (NFile i))" by (simp add: ready_def free_name_def)
  then show ?thesis
    using ready_stat(3) [OF r] by (auto simp: fs_change_def fs_open_create_def split: prod.split)
qed

lemma once_comes:
  "safely (honest d t) (download_once env remote (d @ [t]) level force) (\<lambda>_. running_ok ok)"
proof -
  have lo: "cm_sound ok (native_load_resume env (d @ [t]))" "cm_sound ok (local_length env (d @ [t]))"
    unfolding native_load_resume_def local_length_def by (intro sound_rules)+
  have go: "safely (started d t a)
     (cm_bind (cm_when (0 < a) (nv_log env m)) (\<lambda>_.
      cm_bind (nv_emit env ev) (\<lambda>_.
      if a = length D then cm_bind (nv_emit env ev2) (\<lambda>_. cm_ret 0)
      else cm_bind (native_make_parent env (d @ [t])) (\<lambda>_.
           cm_bind (nv_storage env what (fs_change (fs_open_create (d @ [t])))) (\<lambda>i.
           fill_file env \<lparr> nj_remote = remote, nj_etag = tag, nj_level = level, nj_file = i, nj_dest = d @ [t] \<rparr>
             a (length D))))))
     (\<lambda>_. running_ok ok)" for a m ev ev2 what
  proof -
    note h = started_honest
    have steps1: "safely (started d t a) (cm_when (0 < a) (nv_log env m)) (\<lambda>_. at_fs ok (started d t a))"
      "safely (started d t a) (nv_emit env ev) (\<lambda>_. at_fs ok (started d t a))" for ev
      by (intro both [OF sats_keeps [OF _ h]] steps sound_rules; assumption)+
    have par: "safely (started d t a) (native_make_parent env (d @ [t])) (\<lambda>_. at_fs ok (started d t a))"
    proof (rule both_known [OF sats_keeps [OF parent_started h]], assumption)
      have "safely (started d t a) (nv_storage env w2 (\<lambda>fs. fs_create_dir_all fs d)) (\<lambda>_. running_ok ok)" for w2
        by (rule storage_comes) (auto simp: started_def honest_def parent_noop)
      then show "safely (started d t a) (native_make_parent env (d @ [t])) (\<lambda>_. running_ok ok)"
        unfolding native_make_parent_def by (simp add: cm_when_def)
    qed
    have opn: "safely (started d t a) (nv_storage env what (fs_change (fs_open_create (d @ [t]))))
        (\<lambda>i. at_fs ok (\<lambda>fs. a \<le> length D \<and> upto d t i a fs))"
      by (rule both_known [OF open_sats], rule storage_comes, erule open_comes)
    have fl: "safely (\<lambda>fs. a \<le> length D \<and> upto d t i a fs)
        (fill_file env \<lparr> nj_remote = remote, nj_etag = tag, nj_level = level, nj_file = i, nj_dest = d @ [t] \<rparr> a (length D))
        (\<lambda>_. running_ok ok)" if "a \<noteq> length D" for i
    proof (cases "a < length D")
      case True
      show ?thesis by (rule sat_pre [OF fill_comes [OF _ _ _ _ True, where i = i]]) (auto elim: at_fs_mono)
    next
      case False
      with that have "\<not> a \<le> length D" by simp
      then show ?thesis by (simp add: cm_sat_def in_order_def nw_is_def)
    qed
    show ?thesis
      apply (rule sat_bind [OF steps1(1)])
      apply (rule sat_bind [OF steps1(2)])
      apply (rule sat_if)
      subgoal
        by (rule sat_bind [OF steps1(2)], rule sat_ret) (auto elim: at_fs_mono)
      apply (rule sat_bind [OF par])
      apply (rule sat_bind [OF opn])
      apply (erule fl)
      done
  qed
  show ?thesis
    unfolding download_once_def
    apply (rule sat_bind [OF meta_comes], rule sat_fact, simp only: prod.case)
    apply (rule sat_bind [OF both [OF load_right lo(1)]])
    apply (rule sat_bind [OF both [OF length_right lo(2)]])
    subgoal by simp
    subgoal for saved n
      unfolding Let_def
      by (rule sat_pre [OF go], erule at_fs_mono, elim conjE, erule (2) start_right)
    done
qed

text \<open>It also ends, and a success is right.\<close>

lemma once_succeeds:
  "cm_sat (at_fs ok (honest d t)) (download_once env remote (d @ [t]) level force) (\<lambda>n. at_fs ok (fetched d t n))
     (\<lambda>_ _. False) (\<lambda>_. False)"
proof -
  have "cm_sat (at_fs ok (honest d t)) (native_fetch_meta env remote) (\<lambda>x s. snd x + 16777216 \<le> u64_max \<and> tuned_state s)
      (\<lambda>_. tuned_state) (\<lambda>_. False)"
  proof -
    have e: "cm_ends (native_fetch_meta env remote)" unfolding native_fetch_meta_def by (intro ends_rules)
    have "cm_sat (at_fs ok (honest d t)) (native_fetch_meta env remote) (\<lambda>_. tuned_state) (\<lambda>_. tuned_state) (\<lambda>_. False)"
      by (rule sat_pre [OF e [unfolded cm_ends_def]]) (simp add: in_order_def)
    from sat_conj [OF this meta_comes] show ?thesis by (rule sat_conseq) (use small in auto)
  qed
  note ends = once_ends_from [OF this, of "d @ [t]" level force]
  from sat_conj [OF ends both_known [OF once_right once_comes]] show ?thesis by (rule sat_conseq) simp_all
qed

theorem download_succeeds:
  assumes "validate_relative remote = Inr ()" and tu: "\<not> cg_auto_tune (ne_client env)"
  shows "cm_sat (at_fs ok (honest d t)) (native_download_file env remote (d @ [t])) (\<lambda>n. at_fs ok (fetched d t n))
     (\<lambda>_ _. False) (\<lambda>_. False)"
proof -
  let ?sat = "\<lambda>P m Q. cm_sat (at_fs ok P) m Q (\<lambda>_ _. False) (\<lambda>_. False)"
  have prep: "?sat (honest d t) (prepare_transfer env Download_kind) (\<lambda>_. at_fs ok (honest d t))"
  proof -
    have tc: "transfer_capabilities env = cm_ret capabilities_default" using tu by (simp add: transfer_capabilities_def)
    have c: "cm_sound ok (prepare_transfer env Download_kind)"
      unfolding prepare_transfer_def tc Let_def by (intro sound_rules sound_tuned begin_transfer_ok)
    have s: "safely (honest d t) (prepare_transfer env Download_kind) (\<lambda>_. at_fs ok (honest d t))"
      by (rule both [OF sats_keeps c]) (intro steps, assumption)
    have "cm_sat (at_fs ok (honest d t)) (prepare_transfer env Download_kind) (\<lambda>_. tuned_state) (\<lambda>_. tuned_state) (\<lambda>_. False)"
      by (rule sat_pre [OF prepare_ends [unfolded cm_ends_def]]) (simp add: in_order_def)
    from sat_conj [OF this s] show ?thesis by (rule sat_conseq) simp_all
  qed
  have at: "?sat (honest d t) (cm_attempt (download_once env remote (d @ [t]) level force))
      (\<lambda>r s. \<exists>n. r = Inr n \<and> at_fs ok (fetched d t n) s)" for level force
    by (rule sat_conseq [OF sat_attempt [OF once_succeeds, where ?E2.0 = "\<lambda>_ _. False"]]) (auto split: sum.splits)
  have fin: "?sat (fetched d t n) (cm_bind (finish_transfer env b) (\<lambda>_. cm_lift (Inr n))) (\<lambda>n. at_fs ok (fetched d t n))" for n b
    by (auto simp: cm_sat_def cm_bind_def cm_lift_def finish_transfer_def cm_tuned_def in_order_def nw_is_def transfer_end_ok)
  show ?thesis
    unfolding native_download_file_def assms(1) bind_lift
    apply (rule sat_bind [OF prep])
    apply (rule sat_bind [OF at], rule sat_ex)
    apply (rule sat_fact, simp)
    apply (rule fin)
    done
qed

end

end
