(* ===== verification/Native_Paths.thy ===== *)
theory Native_Paths
  imports Native_Client Router
begin

text \<open>
  The URLs of the native client: a server that decodes the path of a request finds the route of the file
  that was asked for.
\<close>

text \<open>Percent-decoding as RFC 3986 has it: \<open>None\<close> is a malformed escape.\<close>

fun percent_decode :: "string \<Rightarrow> string option" where
  "percent_decode [] = Some []"
| "percent_decode (c # cs) =
     (if c \<noteq> CHR ''%'' then map_option ((#) c) (percent_decode cs)
      else case cs of
             a # b # ds \<Rightarrow>
               Option.bind (hex_value a) (\<lambda>x. Option.bind (hex_value b) (\<lambda>y.
               map_option ((#) (char_of (16 * x + y))) (percent_decode ds)))
           | _ \<Rightarrow> None)"

text \<open>The characters a path of a URL may consist of, besides the escapes.\<close>

definition safe_char :: "char \<Rightarrow> bool" where
  "safe_char c \<longleftrightarrow> unreserved c \<or> c = CHR ''%''"

lemma unreserved_not_percent [simp]: "\<not> unreserved CHR ''%''"
  by (simp add: unreserved_def is_ascii_alphanumeric_def)

lemma upper_hex_cases:
  assumes "d < 16"
  shows "hex_value (upper_hex d) = Some d \<and> unreserved (upper_hex d)"
proof -
  have "(of_char (upper_hex d) :: nat) = (if d < 10 then 48 + d else 55 + d)"
    using assms by (simp add: upper_hex_def)
  with assms show ?thesis
    by (simp add: hex_value_def char_digit_def unreserved_def is_ascii_alphanumeric_def Let_def)
qed

lemma decode_percent_byte: "percent_decode (percent_byte c @ s) = map_option ((#) c) (percent_decode s)"
proof -
  let ?n = "of_char c :: nat"
  have "?n < 256" by simp
  then have "?n div 16 < 16" by linarith
  then have h: "hex_value (upper_hex (?n div 16)) = Some (?n div 16)" "hex_value (upper_hex (?n mod 16)) = Some (?n mod 16)"
    using upper_hex_cases by simp_all
  have "char_of (16 * (?n div 16) + ?n mod 16) = c" by (simp only: mult_div_mod_eq char_of_char)
  with h show ?thesis by (simp add: percent_byte_def Let_def)
qed

lemma decode_encode: "percent_decode (native_encode_path p @ s) = map_option ((@) p) (percent_decode s)"
proof (induction p)
  case (Cons c p)
  have "unreserved c \<Longrightarrow> c \<noteq> CHR ''%''" by auto
  with Cons show ?case
    by (auto simp: native_encode_path_def decode_percent_byte option.map_comp comp_def)
qed (simp add: native_encode_path_def option.map_id [unfolded id_def])

lemma encoded_chars: "list_all safe_char (native_encode_path p)"
proof -
  have "list_all safe_char (percent_byte c)" for c
  proof -
    have "(of_char c :: nat) < 256" by simp
    then have "(of_char c :: nat) div 16 < 16" by linarith
    then show ?thesis using upper_hex_cases by (simp add: percent_byte_def Let_def safe_char_def)
  qed
  then show ?thesis
    by (induction p) (auto simp: native_encode_path_def safe_char_def)
qed


text \<open>
  The browser's \<open>encodeURIComponent\<close> leaves these characters as they are, so the two clients do not
  produce the same URLs.
\<close>

theorem native_escapes_more: "native_encode_path ''a(1)!*'' = ''a%281%29%21%2A''"
  by code_simp

end
