(* ===== verification/Client_Delivery_Live.thy ===== *)
theory Client_Delivery_Live
  imports Client_Delivery
begin

text \<open>
  Liveness of downloads.  In a world that only loses requests, with a user who lets the transfer go on
  and a disk that takes what it is given, a download ends and succeeds: each loss uses up a part of a
  budget, and with no more of them than retries none is final.
\<close>

lemma sat_tasks_all:
  assumes "\<And>x. x \<in> set xs \<Longrightarrow> cm_sat I (f x) (\<lambda>y s. G x y \<and> I s) (\<lambda>_ _. False) N"
  shows "cm_sat I (cm_tasks xs f) (\<lambda>rs s. list_all2 (\<lambda>x r. \<exists>y. r = Inr y \<and> G x y) xs rs \<and> I s) E N"
  using assms
proof (induction xs)
  case (Cons x xs)
  note task = sat_attempt [OF Cons.prems, of x]
  have "cm_sat I (cm_bind (cm_attempt (f x)) (\<lambda>r. cm_bind (cm_tasks xs f) (\<lambda>rs. cm_ret (r # rs))))
      (\<lambda>rs s. list_all2 (\<lambda>x r. \<exists>y. r = Inr y \<and> G x y) (x # xs) rs \<and> I s) E N"
  proof (rule sat_bind [OF task])
    fix r
    have "cm_sat (\<lambda>s. (\<exists>y. r = Inr y \<and> G x y) \<and> I s) (cm_bind (cm_tasks xs f) (\<lambda>rs. cm_ret (r # rs)))
      (\<lambda>rs s. list_all2 (\<lambda>x r. \<exists>y. r = Inr y \<and> G x y) (x # xs) rs \<and> I s) E N"
      by (rule sat_fact, rule sat_bind [OF Cons.IH]) (auto intro!: sat_ret simp: Cons.prems)
    then show "cm_sat (\<lambda>s. case r of Inl e \<Rightarrow> False | Inr y \<Rightarrow> G x y \<and> I s) (cm_bind (cm_tasks xs f) (\<lambda>rs. cm_ret (r # rs)))
      (\<lambda>rs s. list_all2 (\<lambda>x r. \<exists>y. r = Inr y \<and> G x y) (x # xs) rs \<and> I s) E N"
      by (rule sat_pre) (auto split: sum.splits)
  qed simp
  then show ?case by simp
qed (simp add: sat_ret)

lemma order_results_total: "\<forall>r\<in>set rs. \<exists>y. r = Inr y \<Longrightarrow> \<exists>m. order_results rs m0 = Inr m"
  by (induction rs m0 rule: order_results.induct) auto

text \<open>A contract holds as well for fewer worlds, if no step leaves them.\<close>

definition world_closed :: "('e, 's, 'w) client_env \<Rightarrow> ('w \<Rightarrow> bool) \<Rightarrow> bool" where
  "world_closed env q \<longleftrightarrow> (\<forall>w. q w \<longrightarrow>
     q (snd (ce_controls env w)) \<and> (\<forall>c. q (snd (ce_call env c w))) \<and> (\<forall>ms. q (ce_sleep env ms w)) \<and>
     (\<forall>n. q (snd (ce_order env n w))) \<and> (\<forall>req tmo. q (snd (ce_fetch env req tmo w))) \<and>
     (\<forall>dir path. q (snd (ce_load_state env dir path w))))"

lemma delivery_restrict:
  assumes d: "delivery_service env j fl D tag ok unopened view"
    and q: "world_closed env q" and u: "\<And>w. first w \<Longrightarrow> unopened w"
    and o: "\<And>w a w2. ok w \<Longrightarrow> first w \<Longrightarrow> ce_call env (Call_file_start (fe_path fl) (fe_size fl)) w = (a, w2) \<Longrightarrow> first w2"
  shows "delivery_service env j fl D tag (\<lambda>w. ok w \<and> q w) first view"
proof -
  have c: "q w2" if "q w" "ce_call env c w = (a, w2)" for w c a w2
    using q that unfolding world_closed_def by (metis snd_conv)
  have f: "q w2" if "q w" "ce_fetch env req tmo w = (r, w2)" for w req tmo r w2
    using q that unfolding world_closed_def by (metis snd_conv)
  have l: "q w2" if "q w" "ce_load_state env dir path w = (r, w2)" for w dir path r w2
    using q that unfolding world_closed_def by (metis snd_conv)
  show ?thesis
    apply unfold_locales
              apply (rule delivery_service.file_size [OF d])
             apply (rule delivery_service.not_empty [OF d])
            apply (rule delivery_service.small [OF d])
    subgoal for v using delivery_service.quiet [OF d, of v] q unfolding quiet_for_def world_closed_def by simp
    subgoal using delivery_service.writes [OF d] c by blast
    subgoal using o by blast
    subgoal using delivery_service.load [OF d] l u by blast
    subgoal using delivery_service.head [OF d] f by blast
    subgoal using delivery_service.range [OF d] f by blast
    subgoal for w off t r w2 using delivery_service.rest [OF d, of w off t r w2] f [of w _ _ r w2] by simp
    done
qed

subsection \<open>The contract\<close>

text \<open>A request is lost, at the price of a failure, or answered in full.\<close>

definition answered ::
  "(libfw_error + http_reply \<times> libfw_error option) \<Rightarrow> (http_reply \<Rightarrow> bool) \<Rightarrow> nat \<Rightarrow> nat \<Rightarrow> bool" where
  "answered r A b b2 \<longleftrightarrow> (case r of
     Inl e \<Rightarrow> (\<exists>m. e = Err_Network m) \<and> b2 < b
   | Inr (reply, broken) \<Rightarrow> broken = None \<and> A reply \<and> b2 \<le> b)"

text \<open>What is seen of the world is the disk and the failures still to come.\<close>

locale steady_delivery = delivery_service env j fl D tag ok unopened view +
    steady_client env ok "\<lambda>w. (view w, budget w)" "\<lambda>c. \<not> is_write c"
  for env :: "('e, 's, 'w) client_env" and j fl D tag ok unopened view and budget :: "'w \<Rightarrow> nat" +
  assumes takes: "ok w \<Longrightarrow> off \<le> length (view w) \<Longrightarrow> ce_call env (Call_write_chunk (fe_path fl) off data) w = (a, w2) \<Longrightarrow>
      a = Inr () \<and> budget w2 = budget w"
    and loads: "ok w \<Longrightarrow> unopened w \<Longrightarrow> ce_load_state env ''download'' (fe_path fl) w = (q, w2) \<Longrightarrow>
      budget w2 = budget w \<and> (\<exists>x. q = Inr x) \<and>
      (\<forall>x. q = Inr (Some x) \<longrightarrow> (\<exists>off. safe_u64 (js_field x ''offset'') ''offset'' = Inr off) \<and> saved_etag x = tag)"
    and heads: "ok w \<Longrightarrow>
      ce_fetch env (get_request env j ''HEAD'' (fe_path fl) (auth_headers (dj_token j) False None))
        (cg_timeout_ms (dj_config j)) w = (r, w2) \<Longrightarrow>
      answered r (\<lambda>reply. rp_status reply = 200) (budget w) (budget w2)"
    and ranges: "ok w \<Longrightarrow> start < e \<Longrightarrow> e \<le> length D \<Longrightarrow> e - start \<le> 16777216 \<Longrightarrow>
      ce_fetch env (chunk_request env j (fe_path fl) tag start e) (cg_timeout_ms (dj_config j)) w = (r, w2) \<Longrightarrow>
      answered r (\<lambda>reply. rp_status reply = 206 \<and> decodes env reply (block_of D start e)) (budget w) (budget w2)"
    and rests: "ok w \<Longrightarrow> off < length D \<Longrightarrow> length D - off \<le> 16777216 \<Longrightarrow> off = 0 \<or> t = tag \<Longrightarrow> off = 0 \<or> etag_text t \<Longrightarrow>
      ce_fetch env (tail_request env j (fe_path fl) t off) (cg_timeout_ms (dj_config j)) w = (r, w2) \<Longrightarrow>
      answered r (\<lambda>reply. rp_status reply = 206 \<and> decodes env reply (drop off D)) (budget w) (budget w2)"
begin

text \<open>States with at least \<open>n\<close> bytes on the disk and at most \<open>b\<close> failures to come.\<close>

abbreviation room :: "nat \<Rightarrow> nat \<Rightarrow> bytes \<times> nat \<Rightarrow> bool" where
  "room n b \<equiv> \<lambda>(X, k). n \<le> length X \<and> k \<le> b"

definition here :: "nat \<Rightarrow> nat \<Rightarrow> ('s, 'w) client \<Rightarrow> bool" where
  "here n b = live ok (\<lambda>w. (view w, budget w)) (room n b)"

lemma hereI: "ok (cl_world s) \<Longrightarrow> n \<le> length (view (cl_world s)) \<Longrightarrow> budget (cl_world s) \<le> b \<Longrightarrow>
    engine_ok (cl_tune s) \<Longrightarrow> running (cl_control s) \<Longrightarrow> here n b s"
  by (simp add: here_def live_def in_order_def)

lemma hereD:
  assumes "here n b s"
  shows "ok (cl_world s)" "n \<le> length (view (cl_world s))" "budget (cl_world s) \<le> b" "engine_ok (cl_tune s)" "running (cl_control s)"
  using assms by (simp_all add: here_def live_def in_order_def)

lemma here_mono: "here n b s \<Longrightarrow> m \<le> n \<Longrightarrow> b \<le> c \<Longrightarrow> here m c s"
  by (meson hereD hereI le_trans)

lemma here_control: "(\<And>c. running c \<Longrightarrow> running (f c)) \<Longrightarrow> cm_sat (here n b) (cm_control f) (\<lambda>_. here n b) E N"
  unfolding here_def by (rule live_control)

lemma here_get: "cm_sat (here n b) (cm_get f) (\<lambda>x s. True \<and> here n b s) E N"
  by (rule sat_get) simp

lemma running_totals [simp]:
  "running (subtract_progress k c) = running c" "running (set_total k c) = running c"
  by (simp_all add: subtract_progress_def set_total_def)

lemmas here_ready = live_ready [where V = "room n b" for n b, folded here_def]
  and here_report = live_report [where V = "room n b" for n b, folded here_def]
  and here_sleep = live_sleep [where V = "room n b" for n b, folded here_def]
  and here_call = live_call [where V = "room n b" for n b, folded here_def]
  and here_ignored = live_call_ignored [where V = "room n b" for n b, folded here_def]
  and here_order = live_order [where V = "room n b" for n b, folded here_def]

lemma here_tick: "cm_sat (here n b) (cm_tick env rtt err) (\<lambda>_. here n b) E N"
  unfolding here_def by (rule live_tick)

text \<open>A request.\<close>

lemma here_fetch:
  assumes "\<And>w r w2. ok w \<Longrightarrow> ce_fetch env req (cg_timeout_ms (dj_config j)) w = (r, w2) \<Longrightarrow>
    ok w2 \<and> view w2 = view w \<and> answered r A (budget w) (budget w2)"
  shows "cm_sat (here n b) (cm_attempt (cm_world (ce_fetch env req (cg_timeout_ms (dj_config j)))))
    (\<lambda>r s. case r of Inl e \<Rightarrow> (\<exists>m. e = Err_Network m) \<and> 0 < b \<and> here n (b - 1) s
       | Inr (reply, broken) \<Rightarrow> broken = None \<and> A reply \<and> here n b s) E N"
proof (rule sat_conseq [OF sat_attempt])
  show "cm_sat (here n b) (cm_world (ce_fetch env req (cg_timeout_ms (dj_config j))))
    (\<lambda>(reply, broken) s. broken = None \<and> A reply \<and> here n b s)
    (\<lambda>e s. (\<exists>m. e = Err_Network m) \<and> 0 < b \<and> here n (b - 1) s) N"
  proof (rule sat_world)
    fix s :: "('s, 'w) client" and r w
    assume a: "here n b s" "ce_fetch env req (cg_timeout_ms (dj_config j)) (cl_world s) = (r, w)"
    note h = hereD [OF a(1)]
    from assms [OF h(1) a(2)] h show "case r of
        Inl e \<Rightarrow> (\<exists>m. e = Err_Network m) \<and> 0 < b \<and> here n (b - 1) (s\<lparr> cl_world := w \<rparr>)
      | Inr x \<Rightarrow> (case x of (reply, broken) \<Rightarrow> \<lambda>s. broken = None \<and> A reply \<and> here n b s) (s\<lparr> cl_world := w \<rparr>)"
      by (auto simp: answered_def intro!: hereI split: sum.splits)
  qed
qed (auto split: sum.splits)

subsection \<open>A range\<close>

lemma collect_loop_live:
  assumes "feed (ce_zrip env) d (filter (\<lambda>c. c \<noteq> []) chunks) = Inr (out, d2)"
  shows "cm_sat (here n b) (collect_loop env chunks None d acc k)
    (\<lambda>(k2, r) s. r = Inr (acc @ out, d2) \<and> here n b s) E N"
  using assms
proof (induction chunks arbitrary: d acc k out)
  case Nil
  then show ?case by (auto intro!: sat_ret)
next
  case (Cons c cs)
  show ?case
  proof (cases "c = []")
    case True
    with Cons show ?thesis by simp
  next
    case False
    with Cons.prems obtain o1 d1 o2 where q: "decompress (ce_zrip env) d c = Inr (o1, d1)"
      "feed (ce_zrip env) d1 (filter (\<lambda>c. c \<noteq> []) cs) = Inr (o2, d2)" "out = o1 @ o2"
      by (auto simp: res_bind_Inr)
    have go: "cm_sat (here n b) (collect_loop env cs None d1 (acc @ o1) k2)
        (\<lambda>(k2, r) s. r = Inr (acc @ out, d2) \<and> here n b s) E N" for k2
      using Cons.IH [OF q(2), of "acc @ o1" k2] by (simp add: q(3))
    show ?thesis
    proof (cases "o1 = []")
      case True
      with False q go [of k] show ?thesis by simp
    next
      case o1: False
      have rep: "cm_sat (here n b) (cm_attempt (cm_report env)) (\<lambda>r s. case r of Inl e \<Rightarrow> False | Inr x \<Rightarrow> here n b s) E N"
        by (rule sat_attempt [OF here_report])
      have "cm_sat (\<lambda>s. case r of Inl e \<Rightarrow> False | Inr x \<Rightarrow> here n b s)
          (case r of Inl e \<Rightarrow> cm_ret (sat_add k (length o1), Inl e)
           | Inr _ \<Rightarrow> collect_loop env cs None d1 (acc @ o1) (sat_add k (length o1)))
          (\<lambda>(k2, r) s. r = Inr (acc @ out, d2) \<and> here n b s) E N" for r :: "libfw_error + unit"
        by (cases r) (simp_all add: go, simp add: cm_sat_def)
      then show ?thesis
        unfolding collect_loop.simps if_not_P [OF False] q(1) sum.case prod.case if_not_P [OF o1]
        by (intro sat_bind [OF here_control] sat_bind [OF rep]) simp_all
    qed
  qed
qed

lemma collect_chunk_live:
  assumes "decodes env reply data"
  shows "cm_sat (here n b) (collect_chunk env reply None) (\<lambda>(k, r) s. r = Inr data \<and> here n b s) E N"
proof -
  obtain out d2 tail d3 where d: "feed (ce_zrip env) (decompressor_new (reply_format reply)) (filter (\<lambda>c. c \<noteq> []) (rp_body reply)) = Inr (out, d2)"
    "decompress_finish (ce_zrip env) d2 = Inr (tail, d3)" "data = out @ tail"
    using assms by (auto simp: decodes_def feed_all_def res_bind_Inr)
  show ?thesis
    unfolding collect_chunk_def
    by (rule sat_bind [OF collect_loop_live [OF d(1)]]) (auto intro!: sat_ret simp: res_bind_def map_err_def d(2,3) split: prod.splits)
qed

lemma chunk_once_live:
  assumes "start < e" and "e \<le> length D" and "e - start \<le> 16777216"
  shows "cm_sat (here n b) (download_chunk_once env j (fe_path fl) tag start e)
    (\<lambda>(k, r) s. case r of Inl err \<Rightarrow> (\<exists>m. err = Err_Network m) \<and> 0 < b \<and> here n (b - 1) s
       | Inr (data, rtt) \<Rightarrow> data = block_of D start e \<and> here n b s) E N"
proof -
  let ?req = "chunk_request env j (fe_path fl) tag start e"
  have f: "cm_sat (here n b) (cm_attempt (cm_world (ce_fetch env ?req (cg_timeout_ms (dj_config j)))))
    (\<lambda>r s. case r of Inl e \<Rightarrow> (\<exists>m. e = Err_Network m) \<and> 0 < b \<and> here n (b - 1) s
       | Inr (reply, broken) \<Rightarrow> broken = None \<and> (rp_status reply = 206 \<and> decodes env reply (block_of D start e)) \<and> here n b s) E N"
    by (rule here_fetch) (use range [OF _ assms(1,2)] ranges [OF _ assms] in blast)
  show ?thesis
    unfolding download_chunk_once_def Let_def
    apply (rule sat_bind [OF here_get], rule sat_fact, rule sat_bind [OF f])
    subgoal for t0 r
      apply (cases r)
      subgoal by (simp only: sum.case, rule sat_ret, simp only: prod.case sum.case)
      subgoal for q
        apply (cases q, simp only: sum.case prod.case)
        apply (rule sat_fact, rule sat_fact, elim conjE, simp only: if_True simp_thms)
        apply (rule sat_bind [OF here_get], rule sat_fact, rule sat_bind [OF collect_chunk_live], assumption)
        apply (auto intro!: sat_ret simp: res_bind_def split: prod.splits)
        done
      done
    done
qed

lemma chunk_retry_live:
  assumes "start < e" and "e \<le> length D" and "e - start \<le> 16777216" and "attempts + b \<le> cg_max_retries (dj_config j)"
  shows "cm_sat (here n b) (download_chunk_with_retry env j (fe_path fl) tag start e attempts)
    (\<lambda>(data, rtt) s. data = block_of D start e \<and> here n b s) E N"
  using assms(4)
proof (induction b arbitrary: attempts rule: less_induct)
  case (less b)
  have u: "u64_sub e start = e - start" "length (block_of D start e) = e - start"
    using assms(1,2) small by (simp_all add: block_of_def)
  have again: "cm_sat (here n (b - 1)) (download_chunk_with_retry env j (fe_path fl) tag start e (attempts + 1))
      (\<lambda>(data, rtt) s. data = block_of D start e \<and> here n b s) E N" if "0 < b"
    by (rule sat_conseq [OF less.IH [of "b - 1" "attempts + 1"]]) (use that less.prems in \<open>auto elim: here_mono\<close>)
  show ?case
    apply (subst download_chunk_with_retry.simps)
    apply (rule sat_bind [OF here_ready], rule sat_bind [OF chunk_once_live [OF assms(1-3)]])
    subgoal for _ x
      apply (cases x, simp only: prod.case)
      subgoal for k r
        apply (cases r)
        subgoal for err
          apply (simp only: sum.case, rule sat_fact, rule sat_fact, elim exE, simp only: is_restart_err.simps if_False)
          apply (rule sat_bind [OF sat_when [OF here_control]], simp, assumption)
          apply (subst if_not_P)
          subgoal using less.prems by simp
          by (rule sat_bind [OF here_ignored [OF not_write(2)]], rule sat_bind [OF here_sleep], rule again)
        subgoal for q
          apply (cases q, simp only: sum.case prod.case)
          apply (rule sat_fact, simp only: u simp_thms if_False)
          apply (rule sat_bind [OF sat_when [OF sat_bind [OF here_control here_report]]], simp, assumption)
          by (rule sat_ret) simp
        done
      done
    done
qed

subsection \<open>Batches\<close>

lemma write_live:
  "cm_sat (here c b) (cm_call env (Call_write_chunk (fe_path fl) c data)) (\<lambda>_. here (c + length data) b) E N"
  unfolding cm_call_def
proof (rule sat_world)
  fix s :: "('s, 'w) client" and r w
  assume a: "here c b s" "ce_call env (Call_write_chunk (fe_path fl) c data) (cl_world s) = (r, w)"
  note h = hereD [OF a(1)]
  have t: "r = Inr ()" "budget w = budget (cl_world s)" using takes [OF h(1,2) a(2)] by simp_all
  then have "view w = take c (view (cl_world s)) @ data" "ok w" using writes [OF h(1) a(2)] h(2) by auto
  with t h have "here (c + length data) b (s\<lparr> cl_world := w \<rparr>)" by (intro hereI) simp_all
  with t(1) show "case r of Inl e \<Rightarrow> E e (s\<lparr> cl_world := w \<rparr>) | Inr x \<Rightarrow> here (c + length data) b (s\<lparr> cl_world := w \<rparr>)" by simp
qed

lemma save_live: "cm_sat (here n b) (save_progress env path t k ls) (\<lambda>_. here n b) E N"
  unfolding save_progress_def by (intro sat_if sat_bind [OF here_ignored [OF not_write(6)]] sat_ret)

lemma seed_live: "cm_sat (here n b) (seed_progress env k) (\<lambda>_. here n b) E N"
  unfolding seed_progress_def by (intro sat_when sat_bind [OF here_control] here_report) simp_all

lemma emit_live:
  assumes "chain c bs e" and "e \<le> length D"
    and "list_all2 (\<lambda>x y. fst y = fst x \<and> fst (snd y) = block_of D (fst x) (snd x)) bs m"
  shows "cm_sat (here c b) (emit_chunks env (fe_path fl) tag m c ls) (\<lambda>st s. fst st = e \<and> here e b s) E N"
  using assms
proof (induction bs arbitrary: c m ls)
  case Nil
  then show ?case by (auto intro!: sat_ret)
next
  case (Cons x bs)
  obtain f where x: "x = (c, f)" "c < f" "chain f bs e" using Cons.prems(1) by (cases x) auto
  obtain rtt m2 where m: "m = (c, block_of D c f, rtt) # m2"
    "list_all2 (\<lambda>x y. fst y = fst x \<and> fst (snd y) = block_of D (fst x) (snd x)) bs m2"
    using Cons.prems(3) x by (auto simp: list_all2_Cons1)
  have f: "f \<le> length D" using chain_le [OF x(3)] Cons.prems(2) by simp
  then have l: "sat_add c (length (block_of D c f)) = f" "c + length (block_of D c f) = f"
    using x(2) small by (simp_all add: block_of_def sat_add_def)
  show ?case
    unfolding m(1) emit_chunks.simps Let_def l
    apply (simp only: simp_thms if_False)
    apply (rule sat_bind [OF write_live], unfold l)
    apply (rule sat_bind [OF save_live])
    apply (rule sat_bind [OF here_tick])
    by (rule Cons.IH [OF x(3) Cons.prems(2) m(2)])
qed

lemma fetch_batch_live:
  assumes "chain c batch e" and "e \<le> length D" and "\<forall>(s, e) \<in> set batch. e - s \<le> 16777216"
    and "b \<le> cg_max_retries (dj_config j)"
  shows "cm_sat (here n b) (fetch_batch env j (fe_path fl) tag batch)
    (\<lambda>rs s. (\<exists>m. order_results rs [] = Inr m \<and>
        list_all2 (\<lambda>x y. fst y = fst x \<and> fst (snd y) = block_of D (fst x) (snd x)) batch m) \<and> here n b s) E N"
proof -
  let ?G = "\<lambda>(x :: nat \<times> nat) (y :: nat \<times> bytes \<times> f64). fst y = fst x \<and> fst (snd y) = block_of D (fst x) (snd x)"
  let ?f = "\<lambda>(s, e). cm_bind (download_chunk_with_retry env j (fe_path fl) tag s e 0) (\<lambda>(data, rtt). cm_ret (s, data, rtt))"
  have task: "cm_sat (here n b) (?f x) (\<lambda>y s. ?G x y \<and> here n b s) (\<lambda>_ _. False) N" if "x \<in> set batch" for x
  proof -
    obtain s e2 where x: "x = (s, e2)" by force
    with chain_mem [OF assms(1)] that assms(2,3) have "s < e2" "e2 \<le> length D" "e2 - s \<le> 16777216" by force+
    from sat_bind [OF chunk_retry_live [OF this, of 0 b]] assms(4) show ?thesis
      unfolding x prod.case by (rule meta_mp) (auto intro!: sat_ret split: prod.splits)
  qed
  have all: "cm_sat (here n b) (cm_tasks (arrange perm batch) ?f)
      (\<lambda>rs s. list_all2 (\<lambda>x r. \<exists>y. r = Inr y \<and> ?G x y) (arrange perm batch) rs \<and> here n b s) E N" for perm
    by (rule sat_tasks_all) (use task in simp)
  have ord: "\<exists>m. order_results rs [] = Inr m \<and> list_all2 ?G batch m"
    if l: "list_all2 (\<lambda>x r. \<exists>y. r = Inr y \<and> ?G x y) (arrange perm batch) rs" for rs :: "(libfw_error + nat \<times> bytes \<times> f64) list" and perm
  proof -
    have "\<forall>r\<in>set rs. \<exists>y. r = Inr y" using list_all2_nthD2 [OF l] by (metis in_set_conv_nth)
    then obtain m where m: "order_results rs [] = Inr m" using order_results_total by blast
    have "list_all2 (\<lambda>x r. \<forall>y. r = Inr y \<longrightarrow> fst y = fst x \<and> fst (snd y) = block_of D (fst x) (snd x)) (arrange perm batch) rs"
      using l by (rule list_all2_mono) auto
    from order_results_batch [where G = "\<lambda>x y. fst y = block_of D (fst x) (snd x)", OF m chain_starts [OF assms(1)] mset_arrange this]
    show ?thesis using m by blast
  qed
  have t: "cm_sat (here n b) (cm_tasks (arrange perm batch) ?f)
      (\<lambda>rs s. (\<exists>m. order_results rs [] = Inr m \<and> list_all2 ?G batch m) \<and> here n b s) E N" for perm
    by (rule sat_conseq [OF all]) (use ord in blast)+
  show ?thesis
    unfolding fetch_batch_def cm_unordered_def by (rule sat_bind [OF here_order t])
qed

lemma here_chunk:
  "cm_sat (here n b) (cm_get (\<lambda>s. max (pm_chunk_size (te_params (cl_tune s))) 1))
    (\<lambda>c s. chunk_fine c \<and> here n b s) E N"
  by (rule sat_get) (metis chunk_fine_tuned hereD(4))

lemma here_window:
  "cm_sat (here n b) (cm_get (\<lambda>s. max (pm_download_window (te_params (cl_tune s))) 1)) (\<lambda>k s. 0 < k \<and> here n b s) E N"
  by (rule sat_get) simp

lemma parallel_step_live:
  assumes "b \<le> cg_max_retries (dj_config j)"
  shows "cm_sat (\<lambda>s. k = length D - fst st \<and> fst st \<le> length D \<and> here (fst st) b s)
    (parallel_step env j (fe_path fl) tag (length D) st)
    (\<lambda>r s. case r of Inl st2 \<Rightarrow> \<exists>k2<k. k2 = length D - fst st2 \<and> fst st2 \<le> length D \<and> here (fst st2) b s
       | Inr c \<Rightarrow> c = length D \<and> here 0 b s) E N"
proof (cases st)
  case (Pair c ls)
  show ?thesis
    unfolding parallel_step_def Pair prod.case fst_conv
    apply (rule sat_fact, rule sat_fact, rule sat_if)
    subgoal by (rule sat_ret) (auto elim: here_mono)
    apply (rule sat_bind [OF here_ready], rule sat_bind [OF here_window], rule sat_fact, rule sat_bind [OF here_chunk], rule sat_fact)
    subgoal premises p for _ window chunk
    proof -
      let ?batch = "chunk_batch c (length D) chunk window"
      have cf: "0 < chunk" "chunk \<le> 16777216" using p(5) by (simp_all add: chunk_fine_def)
      obtain e where ch: "chain c ?batch e" "e \<le> length D" "c < e"
        "\<forall>(s, e) \<in> set ?batch. e = min (s + chunk) (length D)"
        using chunk_batch_consecutive [of c "length D" chunk window] p(2-4) cf small by force
      then have sz: "\<forall>(s, e) \<in> set ?batch. e - s \<le> 16777216" using cf(2) by fastforce
      have "length D - e < length D - c" using ch(2,3) by simp
      then show ?thesis
        apply (intro sat_bind [OF fetch_batch_live [OF ch(1,2) sz assms]])
        apply (rule sat_fact, elim exE conjE, simp only: sum.case)
        apply (rule sat_bind [OF emit_live [OF ch(1,2)]], assumption)
        by (rule sat_ret) (use p(1) ch(2) in auto)
    qed
    done
qed

lemma parallel_loop_live:
  assumes "start \<le> length D" and "b \<le> cg_max_retries (dj_config j)"
  shows "cm_sat (here start b) (cm_while (parallel_step env j (fe_path fl) tag (length D)) (start, 0))
    (\<lambda>c s. c = length D \<and> here 0 b s) E (\<lambda>_. False)"
proof -
  have "cm_sat (\<lambda>s. length D - start = length D - fst (start, 0::nat) \<and> fst (start, 0::nat) \<le> length D \<and> here (fst (start, 0::nat)) b s)
      (cm_while (parallel_step env j (fe_path fl) tag (length D)) (start, 0))
      (\<lambda>c s. c = length D \<and> here 0 b s) E (\<lambda>_. False)"
    by (rule sat_while_total [OF parallel_step_live [OF assms(2)]])
  then show ?thesis by (rule sat_pre) (use assms(1) in simp)
qed

text \<open>Only the request for the size can fail, at the price of a failure.\<close>

lemma parallel_live:
  assumes "off < length D" and "b \<le> cg_max_retries (dj_config j)"
  shows "cm_sat (here off b) (download_file_parallel env j fl rtag off)
    (\<lambda>(t, sz) s. sz = length D \<and> here 0 b s)
    (\<lambda>e s. (\<exists>m. e = Err_Network m) \<and> 0 < b \<and> here off (b - 1) s) (\<lambda>_. False)"
proof -
  let ?req = "get_request env j ''HEAD'' (fe_path fl) (auth_headers (dj_token j) False None)"
  let ?E = "\<lambda>e s. (\<exists>m. e = Err_Network m) \<and> 0 < b \<and> here off (b - 1) s"
  let ?f = "ce_fetch env ?req (cg_timeout_ms (dj_config j))"
  have h: "cm_sat (here off b) (cm_world ?f)
      (\<lambda>(reply, broken) s. (rp_status reply = 200 \<and> response_etag reply = Some tag \<and> content_length reply = Some (length D)) \<and> here off b s) ?E (\<lambda>_. False)"
  proof (rule sat_world)
    fix s :: "('s, 'w) client" and r w
    assume a: "here off b s" "?f (cl_world s) = (r, w)"
    note h = hereD [OF a(1)]
    from head [OF h(1) a(2)] heads [OF h(1) a(2)] h show "case r of Inl e \<Rightarrow> ?E e (s\<lparr> cl_world := w \<rparr>)
      | Inr x \<Rightarrow> (case x of (reply, broken) \<Rightarrow> \<lambda>s. (rp_status reply = 200 \<and> response_etag reply = Some tag \<and>
          content_length reply = Some (length D)) \<and> here off b s) (s\<lparr> cl_world := w \<rparr>)"
      by (auto simp: answered_def intro!: hereI split: sum.splits)
  qed
  have m: "cm_sat (here off b) (fetch_meta env j (fe_path fl)) (\<lambda>x s. x = (tag, length D) \<and> here off b s) ?E (\<lambda>_. False)"
    unfolding fetch_meta_def Let_def
    apply (rule sat_bind [OF h])
    subgoal for q
      by (cases q, simp only: prod.case) (rule sat_fact, rule sat_if, simp, rule sat_ret, simp)
    done
  let ?start = "if rtag \<noteq> [] \<and> rtag \<noteq> tag then 0 else min off (length D)"
  have st: "?start \<le> length D" "?start \<le> off" by simp_all
  show ?thesis
    unfolding download_file_parallel_def
    apply (rule sat_bind [OF m])
    subgoal for x
      apply (cases x, simp only: prod.case, rule sat_fact)
      apply (simp only: prod.inject Let_def, elim conjE, hypsubst)
      apply (rule sat_if)
      subgoal using not_empty by simp
      apply (rule sat_bind [OF here_control])
      subgoal by simp
      apply (rule sat_bind [OF seed_live], rule sat_pre, rule sat_bind [OF parallel_loop_live [OF st(1) assms(2)]])
      subgoal by (rule sat_fact) (auto intro!: sat_ret)
      subgoal by (erule here_mono [OF _ st(2)]) simp
      done
    done
qed

subsection \<open>One request\<close>

lemma write_data_live:
  assumes "c + length data \<le> u64_max"
  shows "cm_sat (here c b) (write_data env (fe_path fl) c data)
    (\<lambda>n s. n = c + length data \<and> here (c + length data) b s) E N"
  unfolding write_data_def
  by (rule sat_bind [OF write_live], rule sat_bind [OF here_control], simp, rule sat_bind [OF here_report], rule sat_ret)
    (use assms in \<open>simp add: sat_add_def\<close>)

lemma stream_loop_live:
  assumes "feed (ce_zrip env) d (filter (\<lambda>c. c \<noteq> []) chunks) = Inr (out, d2)" and "c + length out \<le> u64_max"
  shows "cm_sat (here c b) (stream_loop env (fe_path fl) t chunks None d c ls)
    (\<lambda>(d3, n) s. (d3 = d2 \<and> n = c + length out) \<and> here (c + length out) b s) E N"
  using assms
proof (induction chunks arbitrary: d c ls out)
  case Nil
  then show ?case by (auto intro!: sat_ret)
next
  case (Cons x cs)
  show ?case
  proof (cases "x = []")
    case True
    with Cons show ?thesis by simp
  next
    case False
    with Cons.prems(1) obtain o1 d1 o2 where q: "decompress (ce_zrip env) d x = Inr (o1, d1)"
      "feed (ce_zrip env) d1 (filter (\<lambda>c. c \<noteq> []) cs) = Inr (o2, d2)" "out = o1 @ o2"
      by (auto simp: res_bind_Inr)
    have go: "cm_sat (here (c + length o1) b) (stream_loop env (fe_path fl) t cs None d1 (c + length o1) ls2)
        (\<lambda>(d3, n) s. (d3 = d2 \<and> n = c + length out) \<and> here (c + length out) b s) E N" for ls2
      using Cons.IH [OF q(2), of "c + length o1" ls2] Cons.prems(2) by (simp add: q(3) add.assoc)
    show ?thesis
    proof (cases "o1 = []")
      case True
      show ?thesis
        unfolding stream_loop.simps if_not_P [OF False] q(1) sum.case prod.case if_P [OF True]
        by (rule sat_bind [OF here_ready]) (use go [of ls] True in simp)
    next
      case o1: False
      have fit: "c + length o1 \<le> u64_max" using Cons.prems(2) by (simp add: q(3))
      show ?thesis
        unfolding stream_loop.simps if_not_P [OF False] q(1) sum.case prod.case if_not_P [OF o1]
        by (rule sat_bind [OF here_ready], rule sat_bind [OF write_data_live [OF fit]], rule sat_fact, hypsubst,
          rule sat_bind [OF here_tick], rule sat_bind [OF save_live], rule go)
    qed
  qed
qed

lemma finish_live: "cm_sat (here n b) (finish_download env f t k) (\<lambda>_. here n b) E N"
  unfolding finish_download_def
  by (rule sat_bind [OF here_call [OF not_write(6)]], rule sat_bind [OF here_call [OF not_write(5)]], rule sat_ret)

lemma take_body_live:
  assumes "decodes env reply data" and "start + length data \<le> u64_max"
  shows "cm_sat (here start b) (take_body env fl reply None start t rtt) (\<lambda>r s. (\<exists>n. r = Inr n) \<and> here 0 b s) E N"
proof -
  obtain out d2 tail d3 where d: "feed (ce_zrip env) (decompressor_new (reply_format reply)) (filter (\<lambda>c. c \<noteq> []) (rp_body reply)) = Inr (out, d2)"
    "decompress_finish (ce_zrip env) d2 = Inr (tail, d3)" "data = out @ tail"
    using assms(1) by (auto simp: decodes_def feed_all_def res_bind_Inr)
  have fit: "start + length out \<le> u64_max" "start + length out + length tail \<le> u64_max"
    using assms(2) by (simp_all add: d(3))
  have tail_step: "cm_sat (here (start + length out) b)
      (if tail = [] then cm_ret (start + length out) else write_data env (fe_path fl) (start + length out) tail) (\<lambda>_. here 0 b) E N"
    by (rule sat_if, rule sat_ret, erule here_mono, simp, simp, rule sat_conseq [OF write_data_live [OF fit(2)]])
      (auto elim: here_mono)
  have "cm_sat (here start b) (stream_download env fl reply None start t) (\<lambda>_. here 0 b) E N"
    unfolding stream_download_def
    apply (rule sat_bind [OF here_control])
    subgoal by (simp split: option.splits)
    apply (rule sat_bind [OF seed_live], rule sat_bind [OF stream_loop_live [OF d(1) fit(1)]])
    subgoal for _ _ x
      apply (cases x, simp only: prod.case, rule sat_fact, elim conjE, hypsubst, simp only: d(2) sum.case prod.case)
      by (rule sat_bind [OF tail_step], rule sat_ret)
    done
  then show ?thesis
    unfolding take_body_def
    by (rule sat_bind, intro sat_bind [OF here_tick] sat_bind [OF finish_live] sat_ret) simp
qed

subsection \<open>A file\<close>

text \<open>A step succeeds, or is tried again at the price of a failure.\<close>

definition trying :: "nat \<Rightarrow> nat \<times> string \<times> nat \<Rightarrow> ('s, 'w) client \<Rightarrow> bool" where
  "trying k st s \<longleftrightarrow> (case st of (off, rtag, attempts) \<Rightarrow>
     (off < length D \<and> (off = 0 \<or> rtag = tag) \<and> (off = 0 \<or> etag_text rtag) \<and>
      attempts + k \<le> cg_max_retries (dj_config j)) \<and> here off k s)"

abbreviation tried :: "nat \<Rightarrow> nat \<times> string \<times> nat + nat \<Rightarrow> ('s, 'w) client \<Rightarrow> bool" where
  "tried k r s \<equiv> (case r of Inl st \<Rightarrow> \<exists>k2<k. trying k2 st s | Inr n \<Rightarrow> here 0 k s)"

lemma retry_live:
  assumes "off < length D" and "off = 0 \<or> rtag = tag" and "off = 0 \<or> etag_text rtag"
    and "attempts + k \<le> cg_max_retries (dj_config j)" and "0 < k"
  shows "cm_sat (here off (k - 1)) (download_retry env j fl off rtag attempts e) (tried k) E N"
proof -
  have "\<not> cg_max_retries (dj_config j) \<le> attempts" using assms(4,5) by simp
  moreover have "trying (k - 1) (off, rtag, attempts + 1) s" if "here off (k - 1) s" for s
    using assms that by (simp add: trying_def)
  then have "tried k (Inl (off, rtag, attempts + 1)) s" if "here off (k - 1) s" for s
    using that assms(5) by (auto intro!: exI [of _ "k - 1"])
  ultimately show ?thesis
    unfolding download_retry_def
    by (simp only: if_False simp_thms) (rule sat_bind [OF here_ignored [OF not_write(2)]], rule sat_bind [OF here_tick],
      rule sat_bind [OF here_sleep], rule sat_ret)
qed

lemma sequential_live:
  assumes "off < length D" and "off = 0 \<or> rtag = tag" and "off = 0 \<or> etag_text rtag"
    and "attempts + k \<le> cg_max_retries (dj_config j)" and "length D - off \<le> 16777216"
  shows "cm_sat (here off k) (sequential_step env j fl off rtag attempts) (tried k) E N"
proof -
  let ?A = "\<lambda>reply. (rp_status reply = 206 \<and> decodes env reply (drop off D)) \<and>
      (case content_range_start reply of Some n \<Rightarrow> n | None \<Rightarrow> off) = off"
  have f: "cm_sat (here off k) (cm_attempt (cm_world (ce_fetch env (tail_request env j (fe_path fl) rtag off) (cg_timeout_ms (dj_config j)))))
    (\<lambda>r s. case r of Inl e \<Rightarrow> (\<exists>m. e = Err_Network m) \<and> 0 < k \<and> here off (k - 1) s
       | Inr (reply, broken) \<Rightarrow> broken = None \<and> ?A reply \<and> here off k s) E N"
  proof (rule here_fetch)
    fix w r w2 assume a: "ok w" "ce_fetch env (tail_request env j (fe_path fl) rtag off) (cg_timeout_ms (dj_config j)) w = (r, w2)"
    from rest [OF a(1) assms(1,3) a(2)] rests [OF a(1) assms(1,5,2,3) a(2)]
    show "ok w2 \<and> view w2 = view w \<and> answered r ?A (budget w) (budget w2)"
      by (cases r) (auto simp: answered_def)
  qed
  have fit: "off + length (drop off D) \<le> u64_max" using assms(1) small by simp
  show ?thesis
    unfolding sequential_step_def Let_def
    apply (rule sat_bind [OF here_get], rule sat_fact, rule sat_bind [OF f])
    subgoal for t0 r
      apply (cases r)
      subgoal for e
        by (simp only: sum.case, rule sat_fact, rule sat_fact) (rule retry_live [OF assms(1-4)])
      subgoal for q
        apply (cases q, simp only: sum.case prod.case, rule sat_fact, rule sat_fact, elim conjE, hypsubst)
        apply (rule sat_bind [OF here_get], rule sat_fact, simp only: numeral_eq_iff num.simps simp_thms if_False if_True)
        apply (rule sat_conseq [OF take_body_live [OF _ fit]], assumption, assumption)
        apply (auto split: sum.splits)
        done
      done
    done
qed

lemma ranges_live:
  assumes "off < length D" and "off = 0 \<or> rtag = tag" and "off = 0 \<or> etag_text rtag"
    and "attempts + k \<le> cg_max_retries (dj_config j)"
  shows "cm_sat (here off k) (parallel_attempt env j fl off rtag attempts) (tried k) E (\<lambda>_. False)"
proof -
  have k: "k \<le> cg_max_retries (dj_config j)" using assms(4) by simp
  show ?thesis
    unfolding parallel_attempt_def
    apply (rule sat_bind [OF sat_attempt [OF parallel_live [OF assms(1) k]]])
    subgoal for r
      apply (cases r)
      subgoal for e
        apply (simp only: sum.case, rule sat_fact, rule sat_fact, elim exE, simp only: is_restart_err.simps if_False)
        by (rule retry_live [OF assms])
      subgoal for q
        apply (cases q, simp only: sum.case prod.case, rule sat_fact, rule sat_bind [OF finish_live])
        by (rule sat_ret) simp
      done
    done
qed

lemma step_live: "cm_sat (trying k st) (download_step env j fl st) (tried k) E (\<lambda>_. False)"
proof -
  obtain off rtag a where st: "st = (off, rtag, a)" by (cases st) auto
  let ?fine = "off < length D \<and> (off = 0 \<or> rtag = tag) \<and> (off = 0 \<or> etag_text rtag) \<and> a + k \<le> cg_max_retries (dj_config j)"
  have "cm_sat (\<lambda>s. ?fine \<and> here off k s) (download_step env j fl st) (tried k) E (\<lambda>_. False)"
    unfolding st download_step_def prod.case
    apply (rule sat_fact, elim conjE, rule sat_bind [OF here_ready], rule sat_if)
    subgoal by (rule ranges_live)
    subgoal premises p
    proof -
      have "length D - off \<le> 16777216"
        using p(5) unfolding should_chunked_def file_size min_parallel_download_bytes_def by linarith
      from sequential_live [OF p(1-4) this] show ?thesis .
    qed
    done
  then show ?thesis by (rule sat_pre) (simp only: trying_def st prod.case)
qed

lemma loop_live: "cm_sat (trying k st) (cm_while (download_step env j fl) st) (\<lambda>n. here 0 k) E (\<lambda>_. False)"
proof -
  have "cm_sat (\<lambda>s. k2 \<le> k \<and> trying k2 st s) (download_step env j fl st)
      (\<lambda>r s. case r of Inl st2 \<Rightarrow> \<exists>k3<k2. k3 \<le> k \<and> trying k3 st2 s | Inr n \<Rightarrow> here 0 k s) E (\<lambda>_. False)" for k2 st
    by (rule sat_fact, rule sat_conseq [OF step_live [of k2 st]]) (auto elim: here_mono split: sum.splits)
  from sat_while_total [where I = "\<lambda>k2 st s. k2 \<le> k \<and> trying k2 st s", OF this, of k st] show ?thesis
    by (rule sat_pre) simp_all
qed

text \<open>What is loaded.\<close>

lemma resume_live:
  "cm_sat (\<lambda>s. here 0 b s \<and> starting s) (load_resume env (fe_path fl))
    (\<lambda>(t, off) s. ((off = 0 \<or> t = tag) \<and> (off = 0 \<or> etag_text t)) \<and> here 0 b s \<and> (off < length D \<longrightarrow> here off b s)) E N"
proof -
  let ?ok = "\<lambda>x X. (\<exists>off. safe_u64 (js_field x ''offset'') ''offset'' = Inr off) \<and> saved_etag x = tag \<and> saved_fine D tag x X"
  let ?L = "\<lambda>q s. (\<forall>x. q = Some x \<longrightarrow> ?ok x (view (cl_world s))) \<and> here 0 b s"
  have l: "cm_sat (\<lambda>s. here 0 b s \<and> starting s) (cm_world (ce_load_state env ''download'' (fe_path fl))) ?L E N"
  proof (rule sat_world)
    fix s :: "('s, 'w) client" and r w
    assume a: "here 0 b s \<and> starting s" "ce_load_state env ''download'' (fe_path fl) (cl_world s) = (r, w)"
    note h = hereD [OF conjunct1 [OF a(1)]]
    have u: "unopened (cl_world s)" using a(1) by (simp add: starting_def)
    from load [OF h(1) u a(2)] loads [OF h(1) u a(2)] h show "case r of Inl e \<Rightarrow> E e (s\<lparr> cl_world := w \<rparr>)
        | Inr q \<Rightarrow> ?L q (s\<lparr> cl_world := w \<rparr>)"
      by (auto intro!: hereI split: sum.splits)
  qed
  have none: "cm_sat (here 0 b) (cm_ret ([], 0))
      (\<lambda>(t, off) s. ((off = 0 \<or> t = tag) \<and> (off = 0 \<or> etag_text t)) \<and> here 0 b s \<and> (off < length D \<longrightarrow> here off b s)) E N"
    by (rule sat_ret) simp
  show ?thesis
    unfolding load_resume_def
  proof (rule sat_bind [OF l])
    fix q
    show "cm_sat (?L q)
      (case q of None \<Rightarrow> cm_ret ([], 0)
       | Some v \<Rightarrow>
         (let etag = (case Option.bind (js_get v ''etag'') js_as_string of Some e \<Rightarrow> e | None \<Rightarrow> []) in
          cm_bind (cm_lift (safe_u64 (js_field v ''offset'') ''offset'')) (\<lambda>offset.
          cm_ret (if etag \<noteq> [] \<and> 0 < offset then (etag, offset) else ([], 0)))))
      (\<lambda>(t, off) s. ((off = 0 \<or> t = tag) \<and> (off = 0 \<or> etag_text t)) \<and> here 0 b s \<and> (off < length D \<longrightarrow> here off b s)) E N"
    proof (cases q)
      case None
      show ?thesis unfolding None option.case by (rule sat_pre [OF none]) simp
    next
      case (Some v)
      show ?thesis
      proof (cases "safe_u64 (js_field v ''offset'') ''offset''")
        case (Inl e)
        with Some show ?thesis by (auto simp: cm_sat_def)
      next
        case (Inr off)
        have r: "((saved_etag v = tag \<and> etag_text (saved_etag v)) \<and> here 0 b s \<and> (off < length D \<longrightarrow> here off b s))"
          if "?L (Some v) s" "saved_etag v \<noteq> []" "0 < off" for s
          using that Inr hereD [of 0 b s] by (auto simp: saved_fine_def intro!: hereI)
        show ?thesis
          unfolding Some option.case Let_def saved_etag_def [symmetric] Inr bind_lift
          by (rule sat_ret) (use r in auto)
      qed
    qed
  qed
qed

theorem download_live:
  assumes "b \<le> cg_max_retries (dj_config j)"
  shows "cm_sat (\<lambda>s. here 0 b s \<and> starting s) (download_file env j fl) (\<lambda>_. here 0 b) E (\<lambda>_. False)"
proof -
  have st: "cm_sat (\<lambda>s. here 0 b s \<and> starting s) (cm_call env (Call_file_start (fe_path fl) (fe_size fl)))
      (\<lambda>_ s. here 0 b s \<and> starting s) E (\<lambda>_. False)"
    by (rule sat_conseq [OF sat_conj [OF here_call [OF not_write(4), where E = "\<lambda>_ _. False" and N = "\<lambda>_. False"] start_sat]]) auto
  have anew: "trying b (0, [], 0) s" if "here 0 b s" for s
    using that assms not_empty by (simp add: trying_def)
  show ?thesis
    unfolding download_file_def
    apply (rule sat_bind [OF st], rule sat_bind [OF resume_live])
    subgoal for _ q
    proof (cases q)
      case (Pair t off)
      show ?thesis
      proof (cases "classify_download (fe_size fl) off")
        case Disp_already_done
        have "cm_sat (here 0 b) (cm_bind (seed_progress env off) (\<lambda>_. finish_download env fl t (fe_size fl))) (\<lambda>_. here 0 b) E (\<lambda>_. False)"
          by (rule sat_bind [OF seed_live finish_live])
        then show ?thesis
          unfolding Pair prod.case Disp_already_done download_disposition.case by (rule sat_pre) simp
      next
        case Disp_restart
        show ?thesis
          unfolding Pair prod.case Disp_restart download_disposition.case by (rule sat_pre [OF loop_live]) (use anew in blast)
      next
        case Disp_transfer
        then have o: "off < length D" by (simp add: classify_download_def file_size split: if_splits)
        show ?thesis
          unfolding Pair prod.case Disp_transfer download_disposition.case
          by (rule sat_pre [OF loop_live]) (use o assms in \<open>simp add: trying_def\<close>)
      qed
    qed
    done
qed

text \<open>With no more losses than retries a download succeeds, and has the file on the disk.\<close>

theorem download_succeeds:
  assumes "b \<le> cg_max_retries (dj_config j)"
  shows "cm_sat (\<lambda>s. here 0 b s \<and> starting s) (download_file env j fl)
    (\<lambda>n s. n = length D \<and> on_disk (\<lambda>X. X = D) s) (\<lambda>_ _. False) (\<lambda>_. False)"
  by (rule sat_conseq [OF sat_conj [OF download_live [OF assms, where E = "\<lambda>_ _. False"] download_sat]]) auto

end

end
