(* ===== verification/End_To_End_Download.thy ===== *)
theory End_To_End_Download
  imports End_To_End_Props Client_Delivery_Live
begin

text \<open>
  Whole downloads over a faulty connection: the client's download scheduler talks to the server's
  router, requests and replies are lost and bodies break off, and the disk may fail in the middle of
  a write.  The composition fulfils the contract of \<open>Client_Delivery\<close>.
\<close>

subsection \<open>Headers\<close>

lemma lower_names2:
  "to_ascii_lowercase ''accept-ranges'' = ''accept-ranges''"
  "to_ascii_lowercase ''content-type'' = ''content-type''"
  "to_ascii_lowercase ''etag'' = ''etag''"
  "to_ascii_lowercase ''x-libfw-compress-level'' = ''x-libfw-compress-level''"
  "to_ascii_lowercase ''content-range'' = ''content-range''"
  "to_ascii_lowercase ''content-length'' = ''content-length''"
  "to_ascii_lowercase ''accept-encoding'' = ''accept-encoding''"
  "to_ascii_lowercase ''Range'' = ''range''"
  "to_ascii_lowercase ''If-Range'' = ''if-range''" "to_ascii_lowercase ''identity'' = ''identity''"
  by code_simp+

text \<open>What the server reads of a request for a file.\<close>

lemma get_headers_read:
  fixes extra :: "(string \<times> string) list" and token :: string and zrip :: bool and level :: "int option"
  assumes "\<forall>(n, v) \<in> set extra. n = ''Range'' \<or> n = ''If-Range''"
  defines "hs \<equiv> wire_headers (auth_headers token zrip level @ extra)"
  shows "header_get hs ''authorization'' = header_get [(''authorization'', as_bytes (''Bearer '' @ token))] ''authorization''"
    "header_get hs ''x-libfw-protocol'' = Some protocol_header_value"
    "header_get hs ''if-none-match'' = None"
    "header_get hs ''range'' = header_get (wire_headers extra) ''range''"
    "header_get hs ''if-range'' = header_get (wire_headers extra) ''if-range''"
proof -
  have e: "map_of (wire_headers extra) n = None" if "n \<noteq> ''range''" "n \<noteq> ''if-range''" for n
    using assms(1) that by (auto simp: wire_headers_def map_of_eq_None_iff lower_names2)
  show "header_get hs ''authorization'' = header_get [(''authorization'', as_bytes (''Bearer '' @ token))] ''authorization''"
    "header_get hs ''x-libfw-protocol'' = Some protocol_header_value"
    "header_get hs ''if-none-match'' = None"
    "header_get hs ''range'' = header_get (wire_headers extra) ''range''"
    "header_get hs ''if-range'' = header_get (wire_headers extra) ''if-range''"
    using e [of "''if-none-match''"]
    unfolding hs_def
    by (cases zrip; cases level;
        simp add: wire_headers_def auth_headers_def lower_names lower_names2 header_get_def header_text_printable
        protocol_header_value_def printable_def map_add_def split: option.split)+
qed

lemma range_headers_read:
  fixes j :: download_job and rv et :: string
  assumes "list_all printable rv" and "list_all printable et"
  defines "hs \<equiv> wire_headers (range_headers j rv et)"
  shows "header_get hs ''authorization'' = header_get [(''authorization'', as_bytes (''Bearer '' @ dj_token j))] ''authorization''"
    "header_get hs ''x-libfw-protocol'' = Some protocol_header_value"
    "header_get hs ''if-none-match'' = None" "header_get hs ''range'' = Some rv"
    "header_get hs ''if-range'' = (if et = [] then None else Some et)"
proof -
  have e: "\<forall>(n, v) \<in> set ([(''Range'', rv)] @ (if et \<noteq> [] then [(''If-Range'', et)] else [])). n = ''Range'' \<or> n = ''If-Range''"
    by simp
  note h = get_headers_read [OF e, where token = "dj_token j" and zrip = "cg_compress (dj_config j)" and level = "Some (dj_level j)",
      folded range_headers_def]
  show "header_get hs ''authorization'' = header_get [(''authorization'', as_bytes (''Bearer '' @ dj_token j))] ''authorization''"
    "header_get hs ''x-libfw-protocol'' = Some protocol_header_value"
    "header_get hs ''if-none-match'' = None" unfolding hs_def by (fact h(1-3))+
  show "header_get hs ''range'' = Some rv" "header_get hs ''if-range'' = (if et = [] then None else Some et)"
    unfolding hs_def h(4,5) using assms(1,2)
    by (simp_all add: wire_headers_def lower_names2 header_get_def header_text_printable)
qed

text \<open>What the client reads of a reply.\<close>

lemma parse_format_str: "parse_format_header (format_as_str f) = Some f"
  by (cases f) (simp_all add: parse_format_header_def Let_def lower_names2 lower_zrip str_trim_visible visible_def)

lemma strip_first_single:
  "[c] \<in> set ws \<Longrightarrow> list_all (\<lambda>w. w \<noteq> [] \<and> hd w = c \<longrightarrow> w = [c]) ws \<Longrightarrow> strip_first ws (c # v) = Some v"
proof (induction ws)
  case (Cons w ws)
  show ?case
  proof (cases "w = [c]")
    case False
    with Cons.prems have "\<not> (w \<noteq> [] \<and> prefix w (c # v))" by (cases w) auto
    with Cons False show ?thesis by auto
  qed simp
qed simp

lemma space_white: "[CHR '' ''] \<in> set ws_seqs" "list_all (\<lambda>w. w \<noteq> [] \<and> hd w = CHR '' '' \<longrightarrow> w = [CHR '' '']) ws_seqs"
  by (simp_all add: ws_seqs_def char_of_def bit_0)

lemma split_ws_two:
  assumes "\<forall>c\<in>set v. visible c" and "v \<noteq> []"
  shows "split_ws (''bytes '' @ v) = [''bytes'', v]"
proof -
  have vis: "split_ws_loop cur (c # s) = split_ws_loop (cur @ [c]) s" if "visible c" for cur c s
    using strip_first_None [of ws_seqs c s] ws_seqs_not_visible(1) that
    by (subst split_ws_loop.simps) (fastforce split: option.splits)
  have vs: "split_ws_loop cur u = [cur @ u]" if "\<forall>c\<in>set u. visible c" "u \<noteq> [] \<or> cur \<noteq> []" for cur u
    using that
  proof (induction u arbitrary: cur)
    case (Cons c u)
    then show ?case using vis [of c cur u] by auto
  qed simp
  have "strip_first ws_seqs (CHR '' '' # v) = Some v"
    by (rule strip_first_single [OF space_white])
  then have "split_ws_loop ''bytes'' (CHR '' '' # v) = [''bytes'', v]"
    using vs [of v "[]"] assms by (subst split_ws_loop.simps) simp
  moreover have "split_ws_loop [] (''bytes'' @ CHR '' '' # v) = split_ws_loop ''bytes'' (CHR '' '' # v)"
    by (simp add: vis visible_def)
  ultimately show ?thesis by (simp add: split_ws_def)
qed

lemma second_word_range:
  assumes "v = content_range_value spec n"
  shows "second_word v = Some (show_nat (r_start spec) @ ''-'' @ show_nat (u64_sub (r_end spec) 1) @ ''/'' @ show_nat n)"
proof -
  let ?v = "show_nat (r_start spec) @ ''-'' @ show_nat (u64_sub (r_end spec) 1) @ ''/'' @ show_nat n"
  have "\<forall>c\<in>set ?v. visible c" using visible_show_nat by (auto simp: visible_def)
  then have "split_ws (''bytes '' @ ?v) = [''bytes'', ?v]" by (rule split_ws_two) simp
  then show ?thesis unfolding assms content_range_value_def second_word_def by simp
qed

lemma reply_headers_read:
  fixes reply :: http_reply
  assumes "rp_headers reply = plan_headers m fmt lv echo part spec" and "r_start spec \<le> u64_max"
  shows "response_etag reply = Some (fm_etag m)" "reply_format reply = fmt"
    "content_range_start reply = (if part then Some (r_start spec) else None)"
    "fmt = Fmt_None \<Longrightarrow> range_len spec \<le> u64_max \<Longrightarrow> content_length reply = Some (range_len spec)"
proof -
  have f: "reply_header reply ''etag'' = Some (fm_etag m)"
    "reply_header reply ''x-libfw-compress'' = Some (format_as_str fmt)"
    "reply_header reply ''content-range'' = (if part then Some (content_range_value spec (fm_size m)) else None)"
    "fmt = Fmt_None \<Longrightarrow> reply_header reply ''content-length'' = Some (show_nat (range_len spec))"
    by (simp_all add: reply_header_def assms(1) plan_headers_def lower_names lower_names2)
  show "response_etag reply = Some (fm_etag m)" by (simp add: response_etag_def f(1))
  show "reply_format reply = fmt" by (simp add: reply_format_def f(2) parse_format_str)
  have "CHR ''-'' \<notin> set (show_nat (r_start spec))" by (rule show_nat_chars)
  then have "hd (split_on CHR ''-'' (show_nat (r_start spec) @ ''-'' @ x)) = show_nat (r_start spec)" for x
    using split_on_append [of "CHR ''-''" "show_nat (r_start spec)" x] by simp
  then show "content_range_start reply = (if part then Some (r_start spec) else None)"
    using assms(2) by (simp add: content_range_start_def f(3) second_word_range [OF refl])
  show "fmt = Fmt_None \<Longrightarrow> range_len spec \<le> u64_max \<Longrightarrow> content_length reply = Some (range_len spec)"
    by (simp add: content_length_def f(4))
qed

subsection \<open>The setting\<close>

text \<open>
  What has to agree between the two sides: the codec, the route of the file's URL, the token and the
  permission to read; the listing has the file's size.  \<open>p\<close> is the real path.
\<close>

definition download_setup ::
  "('e \<Rightarrow> bytes \<Rightarrow> bool) \<Rightarrow> ('e, 's, 'w) client_env \<Rightarrow> 'e network \<Rightarrow> download_job \<Rightarrow> file_entry \<Rightarrow> bytes \<Rightarrow>
   string \<Rightarrow> token_claims \<Rightarrow> bool" where
  "download_setup R base nw j fl D p claims \<longleftrightarrow>
     zrip_ok (sg_zrip (nw_serving nw)) R \<and> ce_zrip base = sg_zrip (nw_serving nw) \<and> levels_valid (nw_state nw) \<and>
     fe_path fl \<noteq> [] \<and>
     nw_path nw (file_url (ce_encode_uri base) (dj_base_url j) (fe_path fl)) = ''/file/'' @ fe_path fl \<and>
     bearer_claims (sv_verifier (nw_state nw)) [(''authorization'', as_bytes (''Bearer '' @ dj_token j))] = Inr claims \<and>
     resolve_client_path (nw_state nw) (sg_now (nw_serving nw)) claims (fe_path fl) Act_Read = Inr p \<and>
     fe_size fl = length D \<and> D \<noteq> [] \<and> length D + 16777216 \<le> u64_max"

lemma download_setupD:
  assumes "download_setup R base nw j fl D p claims"
  shows "zrip_ok (sg_zrip (nw_serving nw)) R" "ce_zrip base = sg_zrip (nw_serving nw)" "levels_valid (nw_state nw)"
    "fe_path fl \<noteq> []"
    "nw_path nw (file_url (ce_encode_uri base) (dj_base_url j) (fe_path fl)) = ''/file/'' @ fe_path fl"
    "bearer_claims (sv_verifier (nw_state nw)) [(''authorization'', as_bytes (''Bearer '' @ dj_token j))] = Inr claims"
    "resolve_client_path (nw_state nw) (sg_now (nw_serving nw)) claims (fe_path fl) Act_Read = Inr p"
    "fe_size fl = length D" "D \<noteq> []" "length D + 16777216 \<le> u64_max"
  using assms unfolding download_setup_def by blast+

text \<open>The server holds the file, under this ETag.\<close>

definition server_holds ::
  "'e network \<Rightarrow> string \<Rightarrow> path \<Rightarrow> string \<Rightarrow> bytes \<Rightarrow> string \<Rightarrow> world \<Rightarrow> bool" where
  "server_holds nw p d t D tag w \<longleftrightarrow> (\<exists>i.
     target_at (sv_storage (nw_state nw)) (w_fs w) p d t \<and> fs_node (w_fs w) (d @ [t]) = Some (NFile i) \<and>
     fs_data (w_fs w) i = D \<and> fm_etag (file_meta_at (sg_ext (nw_serving nw)) p (w_fs w) (NFile i)) = tag)"

lemma holds_etag:
  assumes "server_holds nw p d t D tag w"
  shows "etag_text tag" "list_all printable tag" "tag \<noteq> []"
proof -
  obtain h where h: "tag = [CHR 0x22] @ h @ [CHR 0x22]" "\<forall>c\<in>set h. is_hex c"
    using assms etag_shape unfolding server_holds_def file_meta_at_def Let_def by fastforce
  then show "etag_text tag" "list_all printable tag" "tag \<noteq> []"
    using is_hex_printable by (auto simp: etag_text_def list_all_iff printable_def)
qed

lemma etag_text_printable:
  assumes "etag_text t"
  shows "list_all printable t"
proof -
  obtain g where g: "t = CHR 0x22 # g @ [CHR 0x22]" "list_all is_hex g" using assms unfolding etag_text_def by blast
  then show ?thesis using is_hex_printable by (auto simp: list_all_iff printable_def)
qed

text \<open>Among such ETags, \<open>If-Range\<close> matches only the file's own.\<close>

lemma etag_text_matches:
  assumes "etag_text t" and "etag_text u"
  shows "if_range_matches t u \<longleftrightarrow> t = u"
proof -
  obtain g h where g: "t = CHR 0x22 # g @ [CHR 0x22]" "\<forall>c\<in>set g. is_hex c"
    and h: "u = CHR 0x22 # h @ [CHR 0x22]" "\<forall>c\<in>set h. is_hex c"
    using assms unfolding etag_text_def list_all_iff by metis
  have "str_trim t = t" by (rule str_trim_visible) (simp add: g(1) visible_def)
  moreover have "trim_end_char CHR 0x22 (g @ [CHR 0x22]) = g" "trim_char CHR 0x22 (CHR 0x22 # h @ [CHR 0x22]) = h"
    using g(2) h(2) is_hex_neq by (blast intro: trim_quotes)+
  ultimately show ?thesis using g(1) h(1) by (auto simp: if_range_matches_def strip_prefix_def)
qed

subsection \<open>The server's replies\<close>

text \<open>The range a request is answered with.\<close>

definition asked_range :: "string \<Rightarrow> string \<Rightarrow> parsed_range \<Rightarrow> parsed_range option" where
  "asked_range et tag q = (if et = [] \<or> if_range_matches et tag then Some q else None)"

lemma exchange_get:
  assumes u: "download_setup R base nw j fl D p claims" and f: "server_holds nw p d t D tag w"
    and q: "rq_method req = ''GET''" "rq_url req = file_url (ce_encode_uri base) (dj_base_url j) (fe_path fl)"
      "rq_headers req = range_headers j rv et"
    and h: "list_all printable rv" "list_all printable et" "parse_range_header rv = Inr (Some r)"
      "select_spec (asked_range et tag r) (length D) = Inr spec"
    and mx: "length (take (range_len spec) (drop (r_start spec) D)) \<le> mx" "mx < u64_max"
  shows "\<exists>m cs fmt lv echo. exchange nw req body w = (Returned
      \<lparr> rs_status = (if asked_range et tag r = None then 200 else 206),
        rs_headers = plan_headers m fmt lv echo (asked_range et tag r \<noteq> None) spec, rs_body = Stream_body (map Chunk cs) \<rparr>, w) \<and>
    fm_etag m = tag \<and> (\<forall>os. concat os = concat cs \<longrightarrow>
      feed_all (sg_zrip (nw_serving nw)) (decompressor_with_limit fmt mx) os = Inr (take (range_len spec) (drop (r_start spec) D)))"
proof -
  let ?g = "nw_serving nw" and ?sv = "nw_state nw" and ?hs = "wire_headers (rq_headers req)"
  note dd = download_setupD [OF u]
  note hr = range_headers_read [OF h(1,2), of j, folded q(3)]
  obtain i where i: "target_at (sv_storage ?sv) (w_fs w) p d t" "fs_node (w_fs w) (d @ [t]) = Some (NFile i)"
    "fs_data (w_fs w) i = D" "fm_etag (file_meta_at (sg_ext ?g) p (w_fs w) (NFile i)) = tag"
    using f by (auto simp: server_holds_def)
  let ?m = "file_meta_at (sg_ext ?g) p (w_fs w) (NFile i)"
  have v: "validate_protocol ?hs next_handler w = next_handler w" for next_handler
    by (simp add: validate_protocol_def hr(2) protocol_compatible_def protocol_header_value_def eq_ignore_ascii_case_def
        str_trim_visible visible_def)
  have r: "find_route (nw_path nw (rq_url req)) = Some (File_route (fe_path fl))"
    unfolding q(2) dd(5) find_route_def strip_prefix_append by (simp add: dd(4))
  have b: "bearer_claims (sv_verifier ?sv) ?hs = Inr claims" using dd(6) bearer_claims_cong [OF hr(1)] by simp
  have vp: "validate_rel_path p = Inr p"
    using resolve_client_path_canonical [OF dd(7)] by (rule validate_rel_path_id)
  have op: "open_path (sv_storage ?sv) p w = (Inr (d @ [t]), w)" by (rule open_path_at(1) [OF i(1)])
  have fo: "fs_open (w_fs w) (d @ [t]) = Inr i" using i(1,2) open_file by (auto simp: target_at_def)
  have m: "st_file_meta (sg_ext ?g) (sv_storage ?sv) p w = (Inr (Some ?m), w)"
    using st_file_meta_at [OF i(1), of "sg_ext ?g"] i(2) by simp
  have sz: "fm_size ?m = length D" by (simp add: fs_len_def i(3))
  have wr: "wanted_range ?hs (fm_etag ?m) (Some r) = asked_range et tag r" "request_range ?hs = Inr (Some r)"
    "check_if_none_match ?hs (fm_etag ?m) = Inr ()"
    by (simp_all add: wanted_range_def asked_range_def request_range_def check_if_none_match_def hr(3-5) h(3) i(4) map_err_def)
  let ?fmt = "negotiate_download_format ?sv ?hs"
  let ?lv = "negotiate_download_level ?sv ?fmt ?hs"
  have pl: "plan_download (sg_ext ?g) ?sv p ?hs True w =
      (Inr (plan_of ?sv ?hs ?m (asked_range et tag r \<noteq> None) spec (Some (file_reader i spec))), w)"
    unfolding plan_download_file [OF vp op fo m] plan_result_def wr res_bind_def sum.case sz h(4) by simp
  have lv: "is_valid_zrip_level (fst ?lv)" by (rule negotiated_level_valid [OF dd(3)])
  have rb: "reader_bytes (w_fs w) (file_reader i spec) = take (range_len spec) (drop (r_start spec) D)"
    by (simp add: reader_bytes_file i(3))
  obtain cs where cs: "body_stream (sg_zrip ?g) (sg_sizes ?g) (reader_bytes (w_fs w) (file_reader i spec)) ?fmt (fst ?lv) =
      Returned (map Chunk cs)"
    "\<forall>os. concat os = concat cs \<longrightarrow> feed_all (sg_zrip ?g) (decompressor_with_limit ?fmt mx) os =
      Inr (take (range_len spec) (drop (r_start spec) D))"
    using body_stream_decodes [OF dd(1) lv mx, of "sg_sizes ?g" ?fmt] unfolding rb by blast
  have dl: "download (sg_zrip ?g) (sg_ext ?g) (sg_sizes ?g) ?sv (sg_now ?g) (fe_path fl) claims ?hs w =
      (Returned (Inr \<lparr> rs_status = (if asked_range et tag r = None then 200 else 206),
        rs_headers = plan_headers ?m ?fmt (fst ?lv) (snd ?lv) (asked_range et tag r \<noteq> None) spec,
        rs_body = Stream_body (map Chunk cs) \<rparr>), w)"
    unfolding download_def by (simp add: am_simps dd(7) map_err_def pl plan_of_def Let_def cs(1))
  have "exchange nw req body w = (Returned \<lparr> rs_status = (if asked_range et tag r = None then 200 else 206),
        rs_headers = plan_headers ?m ?fmt (fst ?lv) (snd ?lv) (asked_range et tag r \<noteq> None) spec,
        rs_body = Stream_body (map Chunk cs) \<rparr>, w)"
    using v r b dl q(1)
    by (simp add: exchange_def serve_def run_route_def with_claims_def outcome_response_def into_response_def Let_def)
  with cs(2) i(4) show ?thesis by blast
qed

lemma exchange_head:
  assumes u: "download_setup R base nw j fl D p claims" and f: "server_holds nw p d t D tag w"
    and q: "rq_method req = ''HEAD''" "rq_url req = file_url (ce_encode_uri base) (dj_base_url j) (fe_path fl)"
      "rq_headers req = auth_headers (dj_token j) False None"
  shows "\<exists>m lv echo. exchange nw req body w = (Returned
      \<lparr> rs_status = 200, rs_headers = plan_headers m Fmt_None lv echo False (range_full (length D)), rs_body = Empty_body \<rparr>, w) \<and>
    fm_etag m = tag"
proof -
  let ?g = "nw_serving nw" and ?sv = "nw_state nw" and ?hs = "wire_headers (rq_headers req)"
  note dd = download_setupD [OF u]
  note hr = get_headers_read [where extra = "[]" and token = "dj_token j" and zrip = False and level = None,
      simplified append_Nil2, folded q(3)]
  obtain i where i: "target_at (sv_storage ?sv) (w_fs w) p d t" "fs_node (w_fs w) (d @ [t]) = Some (NFile i)"
    "fs_data (w_fs w) i = D" "fm_etag (file_meta_at (sg_ext ?g) p (w_fs w) (NFile i)) = tag"
    using f by (auto simp: server_holds_def)
  let ?m = "file_meta_at (sg_ext ?g) p (w_fs w) (NFile i)"
  have h: "header_get ?hs ''authorization'' = header_get [(''authorization'', as_bytes (''Bearer '' @ dj_token j))] ''authorization''"
    "header_get ?hs ''x-libfw-protocol'' = Some protocol_header_value" "header_get ?hs ''if-none-match'' = None"
    "header_get ?hs ''range'' = None" "header_get ?hs ''accept-encoding'' = None"
    using hr by (simp_all add: q(3) wire_headers_def auth_headers_def lower_names header_get_def)
  have v: "validate_protocol ?hs next_handler w = next_handler w" for next_handler
    by (simp add: validate_protocol_def h(2) protocol_compatible_def protocol_header_value_def eq_ignore_ascii_case_def
        str_trim_visible visible_def)
  have r: "find_route (nw_path nw (rq_url req)) = Some (File_route (fe_path fl))"
    unfolding q(2) dd(5) find_route_def strip_prefix_append by (simp add: dd(4))
  have b: "bearer_claims (sv_verifier ?sv) ?hs = Inr claims" using dd(6) bearer_claims_cong [OF h(1)] by simp
  have vp: "validate_rel_path p = Inr p"
    using resolve_client_path_canonical [OF dd(7)] by (rule validate_rel_path_id)
  have op: "open_path (sv_storage ?sv) p w = (Inr (d @ [t]), w)" by (rule open_path_at(1) [OF i(1)])
  have fo: "fs_open (w_fs w) (d @ [t]) = Inr i" using i(1,2) open_file by (auto simp: target_at_def)
  have m: "st_file_meta (sg_ext ?g) (sv_storage ?sv) p w = (Inr (Some ?m), w)"
    using st_file_meta_at [OF i(1), of "sg_ext ?g"] i(2) by simp
  have sz: "fm_size ?m = length D" by (simp add: fs_len_def i(3))
  have wr: "wanted_range ?hs (fm_etag ?m) None = None" "request_range ?hs = Inr None"
    "check_if_none_match ?hs (fm_etag ?m) = Inr ()" "select_spec None (length D) = Inr (range_full (length D))"
    "negotiate_download_format ?sv ?hs = Fmt_None"
    by (simp_all add: wanted_range_def request_range_def check_if_none_match_def h(3-5) select_spec_def
        negotiate_download_format_def split: option.split)
  let ?lv = "negotiate_download_level ?sv Fmt_None ?hs"
  have pl: "plan_download (sg_ext ?g) ?sv p ?hs False w =
      (Inr (plan_of ?sv ?hs ?m False (range_full (length D)) None), w)"
    unfolding plan_download_file [OF vp op fo m] plan_result_def wr(2,3) res_bind_def sum.case sz wr(1,4) by simp
  have "exchange nw req body w = (Returned \<lparr> rs_status = 200,
        rs_headers = plan_headers ?m Fmt_None (fst ?lv) (snd ?lv) False (range_full (length D)), rs_body = Empty_body \<rparr>, w)"
    using v r b q(1)
    by (simp add: exchange_def serve_def run_route_def with_claims_def outcome_response_def into_response_def Let_def
        returning_def head_file_def am_simps dd(7) map_err_def pl plan_of_def wr(5))
  with i(4) show ?thesis by blast
qed

text \<open>What the client makes of the two.\<close>

lemma fetch_get:
  fixes env :: "('e, 's, 'w) client_env" and ew :: e2e_world
  assumes u: "download_setup R base nw j fl D p claims" and f: "server_holds nw p d t D tag (ew_server ew)"
    and q: "rq_method req = ''GET''" "rq_url req = file_url (ce_encode_uri base) (dj_base_url j) (fe_path fl)"
      "rq_headers req = range_headers j rv et"
    and h: "list_all printable rv" "list_all printable et" "parse_range_header rv = Inr (Some r)"
      "select_spec (asked_range et tag r) (length D) = Inr spec" "r_start spec \<le> u64_max"
    and z: "ce_zrip env = ce_zrip base"
  shows "\<exists>reply. net_fetch nw req tmo ew = (Inr (reply, None), ew) \<and>
    rp_status reply = (if asked_range et tag r = None then 200 else 206) \<and>
    content_range_start reply = (if asked_range et tag r = None then None else Some (r_start spec)) \<and>
    (\<forall>data. decodes env reply data \<longrightarrow> data = take (range_len spec) (drop (r_start spec) D)) \<and>
    (length (take (range_len spec) (drop (r_start spec) D)) \<le> max_output_per_call \<longrightarrow>
       decodes env reply (take (range_len spec) (drop (r_start spec) D)))"
proof -
  let ?data = "take (range_len spec) (drop (r_start spec) D)"
  let ?mx = "max (length ?data) max_output_per_call" and ?part = "asked_range et tag r \<noteq> None"
  have "length ?data \<le> length D" by simp
  then have mx: "length ?data \<le> ?mx" "?mx < u64_max"
    using download_setupD(10) [OF u] by (simp_all add: max_output_per_call_def max_frame_output_def chunk_size_def sat_mul_def u64_max_def)
  obtain m cs fmt lv echo where e: "exchange nw req (map Chunk (frames_of nw (rq_body req))) (ew_server ew) = (Returned
      \<lparr> rs_status = (if asked_range et tag r = None then 200 else 206),
        rs_headers = plan_headers m fmt lv echo ?part spec, rs_body = Stream_body (map Chunk cs) \<rparr>, ew_server ew)"
    "\<forall>os. concat os = concat cs \<longrightarrow>
      feed_all (sg_zrip (nw_serving nw)) (decompressor_with_limit fmt ?mx) os = Inr (take (range_len spec) (drop (r_start spec) D))"
    using exchange_get [OF u f q h(1-4) mx] by blast
  have st: "stream_chunks (map Chunk cs) = (cs, None)" by (induction cs) simp_all
  let ?reply = "\<lparr> rp_status = (if asked_range et tag r = None then 200 else 206),
      rp_headers = plan_headers m fmt lv echo ?part spec, rp_body = cs \<rparr>"
  have hd: "rp_headers ?reply = plan_headers m fmt lv echo ?part spec" by simp
  note rd = reply_headers_read [OF hd h(5)]
  have cc: "concat (filter (\<lambda>c. c \<noteq> []) cs) = concat cs" by (induction cs) simp_all
  have "data = take (range_len spec) (drop (r_start spec) D)" if "decodes env ?reply data" for data
  proof -
    have "feed_all (sg_zrip (nw_serving nw)) (decompressor_with_limit fmt max_output_per_call) (filter (\<lambda>c. c \<noteq> []) cs) = Inr data"
      using that unfolding decodes_def rd(2) decompressor_new_def z download_setupD(2) [OF u] http_reply.simps .
    then have "feed_all (sg_zrip (nw_serving nw)) (decompressor_with_limit fmt ?mx) (filter (\<lambda>c. c \<noteq> []) cs) = Inr data"
      by (rule feed_all_limit) simp
    then show ?thesis using e(2) cc by (metis sum.inject(2))
  qed
  moreover have "decodes env ?reply ?data" if "length ?data \<le> max_output_per_call"
  proof -
    have m: "?mx = max_output_per_call" using that by simp
    have "feed_all (sg_zrip (nw_serving nw)) (decompressor_with_limit fmt ?mx) (filter (\<lambda>c. c \<noteq> []) cs) = Inr ?data"
      using e(2) cc by blast
    then show ?thesis
      unfolding decodes_def rd(2) decompressor_new_def z download_setupD(2) [OF u] http_reply.simps m .
  qed
  moreover have "net_fetch nw req tmo ew = (Inr (?reply, None), ew)"
    by (simp add: net_fetch_def e(1) st)
  ultimately show ?thesis using rd(3) by (intro exI [of _ ?reply]) auto
qed

lemma fetch_head:
  fixes ew :: e2e_world
  assumes u: "download_setup R base nw j fl D p claims" and f: "server_holds nw p d t D tag (ew_server ew)"
    and q: "rq_method req = ''HEAD''" "rq_url req = file_url (ce_encode_uri base) (dj_base_url j) (fe_path fl)"
      "rq_headers req = auth_headers (dj_token j) False None"
  shows "\<exists>reply. net_fetch nw req tmo ew = (Inr (reply, None), ew) \<and> rp_status reply = 200 \<and>
    response_etag reply = Some tag \<and> content_length reply = Some (length D)"
proof -
  obtain m lv echo where e: "exchange nw req (map Chunk (frames_of nw (rq_body req))) (ew_server ew) = (Returned
      \<lparr> rs_status = 200, rs_headers = plan_headers m Fmt_None lv echo False (range_full (length D)), rs_body = Empty_body \<rparr>, ew_server ew)"
    "fm_etag m = tag" using exchange_head [OF u f q] by blast
  let ?reply = "\<lparr> rp_status = 200, rp_headers = plan_headers m Fmt_None lv echo False (range_full (length D)), rp_body = [] \<rparr>"
  have hd: "rp_headers ?reply = plan_headers m Fmt_None lv echo False (range_full (length D))" by simp
  have "range_len (range_full (length D)) \<le> u64_max" "r_start (range_full (length D)) \<le> u64_max"
    using download_setupD(10) [OF u] by (simp_all add: range_len_def range_full_def)
  with reply_headers_read(1,4) [OF hd] e(2) have "response_etag ?reply = Some tag" "content_length ?reply = Some (length D)"
    by (simp_all add: range_len_def range_full_def)
  moreover have "net_fetch nw req tmo ew = (Inr (?reply, None), ew)" by (simp add: net_fetch_def e(1))
  ultimately show ?thesis by (intro exI [of _ ?reply]) simp
qed

subsection \<open>The deployment\<close>

text \<open>
  The world of a download: the connection and its faults, the file on the client's disk, the saved
  state, and the writes that fail after some bytes.
\<close>

record dl_world =
  dw_net :: e2e_world
  dw_disk :: bytes
  dw_saved :: "js_value option"
  dw_disk_faults :: "nat option list"

definition cut_reply :: "nat \<Rightarrow> http_reply \<times> libfw_error option \<Rightarrow> http_reply \<times> libfw_error option" where
  "cut_reply k = (\<lambda>(reply, broken). (reply\<lparr> rp_body := take k (rp_body reply) \<rparr>, Some connection_lost))"

text \<open>A fault of a fetch: the request or the whole reply is lost, or the body breaks off after some chunks.\<close>

definition dl_fetch ::
  "'e network \<Rightarrow> http_request \<Rightarrow> nat \<Rightarrow> dl_world \<Rightarrow> (libfw_error + http_reply \<times> libfw_error option) \<times> dl_world" where
  "dl_fetch nw req tmo w =
     (let f = (case ew_faults (dw_net w) of [] \<Rightarrow> Delivered | f # _ \<Rightarrow> f);
          (r, n) = net_fetch nw req tmo (dw_net w) in
      ((case f of
          Delivered \<Rightarrow> r
        | Body_cut k \<Rightarrow> (case r of Inl e \<Rightarrow> Inl e | Inr q \<Rightarrow> Inr (cut_reply k q))
        | _ \<Rightarrow> Inl connection_lost),
       w\<lparr> dw_net := n\<lparr> ew_faults := tl (ew_faults n) \<rparr> \<rparr>))"

text \<open>A write ends the file where its data ends; one that fails has written a part of it.\<close>

fun dl_call :: "string \<Rightarrow> callback \<Rightarrow> dl_world \<Rightarrow> (libfw_error + unit) \<times> dl_world" where
  "dl_call path (Call_write_chunk path2 off data) w =
     (if path2 \<noteq> path then (Inr (), w)
      else if length (dw_disk w) < off then (Inl (Err_Js ''hole''), w)
      else (case dw_disk_faults w of
              Some k # fs \<Rightarrow> (Inl (Err_Js ''disk full''),
                w\<lparr> dw_disk := take off (dw_disk w) @ take k data, dw_disk_faults := fs \<rparr>)
            | fs \<Rightarrow> (Inr (), w\<lparr> dw_disk := take off (dw_disk w) @ data, dw_disk_faults := tl fs \<rparr>)))"
| "dl_call path (Call_save_state dir path2 v) w =
     (Inr (), if dir = ''download'' \<and> path2 = path then w\<lparr> dw_saved := Some (JS_obj v) \<rparr> else w)"
| "dl_call path _ w = (Inr (), w)"

definition dl_env :: "('e, 's, dl_world) client_env \<Rightarrow> 'e network \<Rightarrow> string \<Rightarrow> ('e, 's, dl_world) client_env" where
  "dl_env base nw path =
     base\<lparr> ce_controls := (\<lambda>w. case net_controls (dw_net w) of (ts, n) \<Rightarrow> (ts, w\<lparr> dw_net := n \<rparr>)),
           ce_fetch := dl_fetch nw, ce_call := dl_call path,
           ce_load_state := (\<lambda>dir path2 w. (Inr (if dir = ''download'' \<and> path2 = path then dw_saved w else None), w)),
           ce_sleep := (\<lambda>_ w. w),
           ce_order := (\<lambda>n w. case net_order n (dw_net w) of (q, m) \<Rightarrow> (q, w\<lparr> dw_net := m \<rparr>)) \<rparr>"

lemma dl_env_simps [simp]:
  "ce_controls (dl_env base nw path) = (\<lambda>w. case net_controls (dw_net w) of (ts, n) \<Rightarrow> (ts, w\<lparr> dw_net := n \<rparr>))"
  "ce_fetch (dl_env base nw path) = dl_fetch nw" "ce_call (dl_env base nw path) = dl_call path"
  "ce_load_state (dl_env base nw path) = (\<lambda>dir path2 w. (Inr (if dir = ''download'' \<and> path2 = path then dw_saved w else None), w))"
  "ce_sleep (dl_env base nw path) = (\<lambda>_ w. w)"
  "ce_order (dl_env base nw path) = (\<lambda>n w. case net_order n (dw_net w) of (q, m) \<Rightarrow> (q, w\<lparr> dw_net := m \<rparr>))"
  "ce_zrip (dl_env base nw path) = ce_zrip base" "ce_encode_uri (dl_env base nw path) = ce_encode_uri base"
  by (simp_all add: dl_env_def)

definition dl_fine :: "'e network \<Rightarrow> string \<Rightarrow> path \<Rightarrow> string \<Rightarrow> bytes \<Rightarrow> string \<Rightarrow> dl_world \<Rightarrow> bool" where
  "dl_fine nw p d t D tag w \<longleftrightarrow> server_holds nw p d t D tag (ew_server (dw_net w))"

text \<open>What was saved stands for what is on the disk.\<close>

definition dl_saved_fine :: "bytes \<Rightarrow> string \<Rightarrow> dl_world \<Rightarrow> bool" where
  "dl_saved_fine D tag w \<longleftrightarrow> (case dw_saved w of None \<Rightarrow> True | Some v \<Rightarrow> saved_fine D tag v (dw_disk w))"

lemma dl_fetch_result:
  assumes "net_fetch nw req tmo (dw_net w) = (Inr (reply, None), dw_net w)" and "dl_fetch nw req tmo w = (r, w2)"
  shows "w2 = w\<lparr> dw_net := (dw_net w)\<lparr> ew_faults := tl (ew_faults (dw_net w)) \<rparr> \<rparr>"
    "r = Inr (reply2, broken) \<Longrightarrow> rp_status reply2 = rp_status reply \<and> rp_headers reply2 = rp_headers reply"
    "r = Inr (reply2, None) \<Longrightarrow> reply2 = reply"
  using assms by (auto simp: dl_fetch_def cut_reply_def split: fault.splits list.splits)

lemma headers_only:
  assumes "rp_headers r1 = rp_headers r2"
  shows "response_etag r1 = response_etag r2" "content_length r1 = content_length r2"
    "content_range_start r1 = content_range_start r2"
  using assms by (simp_all add: response_etag_def content_length_def content_range_start_def reply_header_def)

lemma dl_call_quiet: "\<not> is_write c \<Longrightarrow> dw_net (snd (dl_call path c w)) = dw_net w \<and> dw_disk (snd (dl_call path c w)) = dw_disk w"
  by (cases c) (auto simp: is_write_def)

lemma dl_delivery_service:
  assumes u: "download_setup R base nw j fl D p claims"
  shows "delivery_service (dl_env base nw (fe_path fl)) j fl D tag (dl_fine nw p d t D tag) (dl_saved_fine D tag) dw_disk"
proof unfold_locales
  note dd = download_setupD [OF u]
  let ?env = "dl_env base nw (fe_path fl)" and ?fine = "dl_fine nw p d t D tag"
  show "fe_size fl = length D" "D \<noteq> []" "length D + 16777216 \<le> u64_max" by (fact dd(8-10))+
  show "quiet_for ?env (\<lambda>c. \<not> is_write c) (\<lambda>w. ?fine w \<and> dw_disk w = v)" for v
    using dl_call_quiet
    by (auto simp: quiet_for_def dl_fine_def net_controls_def net_order_def split: list.splits)
  show "?fine w2 \<and> (off \<le> length (dw_disk w) \<longrightarrow>
      (\<exists>t. dw_disk w2 = take off (dw_disk w) @ t \<and> (a = Inr () \<longrightarrow> t = data)))"
    if "?fine w" "ce_call ?env (Call_write_chunk (fe_path fl) off data) w = (a, w2)" for w off data a w2
    using that by (auto simp: dl_fine_def split: if_splits list.splits option.splits)
  show "dl_saved_fine D tag w2"
    if "?fine w" "dl_saved_fine D tag w" "ce_call ?env (Call_file_start (fe_path fl) (fe_size fl)) w = (a, w2)" for w a w2
    using that by simp
  show "?fine w2 \<and> dw_disk w2 = dw_disk w \<and> (\<forall>x. q = Inr (Some x) \<longrightarrow> saved_fine D tag x (dw_disk w))"
    if "?fine w" "dl_saved_fine D tag w" "ce_load_state ?env ''download'' (fe_path fl) w = (q, w2)" for w q w2
    using that by (auto simp: dl_saved_fine_def)
  show "?fine w2 \<and> dw_disk w2 = dw_disk w \<and>
      (\<forall>reply broken. r = Inr (reply, broken) \<longrightarrow> rp_status reply = 200 \<longrightarrow>
        response_etag reply = Some tag \<and> content_length reply = Some (length D))"
    if "?fine w" "ce_fetch ?env (get_request ?env j ''HEAD'' (fe_path fl) (auth_headers (dj_token j) False None))
        (cg_timeout_ms (dj_config j)) w = (r, w2)" for w r w2
  proof -
    let ?req = "get_request ?env j ''HEAD'' (fe_path fl) (auth_headers (dj_token j) False None)"
    have f: "server_holds nw p d t D tag (ew_server (dw_net w))" using that(1) by (simp add: dl_fine_def)
    obtain reply where n: "net_fetch nw ?req (cg_timeout_ms (dj_config j)) (dw_net w) = (Inr (reply, None), dw_net w)"
      "response_etag reply = Some tag" "content_length reply = Some (length D)"
      using fetch_head [OF u f, of ?req] by (auto simp: get_request_def)
    have g: "dl_fetch nw ?req (cg_timeout_ms (dj_config j)) w = (r, w2)" using that(2) by simp
    note e = dl_fetch_result [OF n(1) g]
    have "response_etag reply2 = Some tag \<and> content_length reply2 = Some (length D)" if "r = Inr (reply2, broken)" for reply2 broken
      using headers_only(1,2) [OF conjunct2 [OF e(2) [OF that]]] n(2,3) by simp
    then show ?thesis using that(1) by (simp add: dl_fine_def e(1))
  qed
  show "?fine w2 \<and> dw_disk w2 = dw_disk w \<and>
      (\<forall>reply data. r = Inr (reply, None) \<longrightarrow> rp_status reply = 206 \<longrightarrow> decodes ?env reply data \<longrightarrow>
        length data = e - start \<longrightarrow> data = block_of D start e)"
    if a: "?fine w" "start < e" "e \<le> length D" "ce_fetch ?env (chunk_request ?env j (fe_path fl) tag start e)
        (cg_timeout_ms (dj_config j)) w = (r, w2)" for w start e r w2
  proof -
    let ?req = "chunk_request ?env j (fe_path fl) tag start e" and ?rv = "''bytes='' @ show_nat start @ ''-'' @ show_nat (e - 1)"
    have f: "server_holds nw p d t D tag (ew_server (dw_net w))" using a(1) by (simp add: dl_fine_def)
    note tg = holds_etag [OF f]
    have "asked_range tag tag x = Some x" for x using etag_text_matches [OF tg(1) tg(1)] by (simp add: asked_range_def)
    then have s: "select_spec (asked_range tag tag (PBytes \<lparr> r_start = start, r_end = e \<rparr>)) (length D) = Inr \<lparr> r_start = start, r_end = e \<rparr>"
      using a(2,3) by (simp add: select_spec_def range_clamp_def ok_or_def min_absorb1)
    have pr: "list_all printable ?rv" by (simp add: printable_def)
    have eu: "e \<le> u64_max" using a(3) dd(10) by simp
    have q: "rq_method ?req = ''GET''" "rq_url ?req = file_url (ce_encode_uri base) (dj_base_url j) (fe_path fl)"
      "rq_headers ?req = range_headers j ?rv tag" by (simp_all add: chunk_request_def get_request_def)
    obtain reply where n: "net_fetch nw ?req (cg_timeout_ms (dj_config j)) (dw_net w) = (Inr (reply, None), dw_net w)"
      "\<forall>data. decodes ?env reply data \<longrightarrow> data = take (e - start) (drop start D)"
      using fetch_get [OF u f q pr tg(2) parse_range_closed [OF a(2) eu] s, of ?env] a(2) eu
      by (auto simp: range_len_def)
    have g: "dl_fetch nw ?req (cg_timeout_ms (dj_config j)) w = (r, w2)" using a(4) by simp
    note e = dl_fetch_result [OF n(1) g]
    show ?thesis using a(1) e(1,3) n(2) by (auto simp: dl_fine_def block_of_def)
  qed
  show "?fine w2 \<and> dw_disk w2 = dw_disk w \<and>
      (\<forall>reply broken. r = Inr (reply, broken) \<longrightarrow> rp_status reply = 206 \<longrightarrow>
        (off = 0 \<or> u = tag) \<and> (case content_range_start reply of Some n \<Rightarrow> n | None \<Rightarrow> off) = off) \<and>
      (\<forall>reply data. r = Inr (reply, None) \<longrightarrow> decodes ?env reply data \<longrightarrow>
        (rp_status reply = 200 \<longrightarrow> data = D) \<and> (rp_status reply = 206 \<longrightarrow> data = drop off D))"
    if a: "?fine w" "off < length D" "off = 0 \<or> etag_text u" "ce_fetch ?env (tail_request ?env j (fe_path fl) u off)
        (cg_timeout_ms (dj_config j)) w = (r, w2)" for w off u r w2
  proof -
    let ?req = "tail_request ?env j (fe_path fl) u off" and ?rv = "''bytes='' @ show_nat off @ ''-''"
    let ?et = "if 0 < off then u else []" and ?r = "PBytes \<lparr> r_start = off, r_end = u64_max \<rparr>"
    have f: "server_holds nw p d t D tag (ew_server (dw_net w))" using a(1) by (simp add: dl_fine_def)
    note tg = holds_etag [OF f]
    have as: "asked_range ?et tag ?r = (if off = 0 \<or> u = tag then Some ?r else None)"
      using etag_text_matches [OF _ tg(1), of u] a(3) by (auto simp: asked_range_def etag_text_def)
    let ?spec = "if off = 0 \<or> u = tag then \<lparr> r_start = off, r_end = length D \<rparr> else range_full (length D)"
    have ou: "off < u64_max" "length D \<le> u64_max" using a(2) dd(10) by simp_all
    then have s: "select_spec (asked_range ?et tag ?r) (length D) = Inr ?spec"
      unfolding as using a(2) by (simp add: select_spec_def range_clamp_def ok_or_def min_absorb2)
    have pr: "list_all printable ?rv" "list_all printable ?et"
      using a(3) etag_text_printable by (auto simp: printable_def)
    have sp: "r_start ?spec \<le> u64_max" using ou by (simp add: range_full_def)
    have q: "rq_method ?req = ''GET''" "rq_url ?req = file_url (ce_encode_uri base) (dj_base_url j) (fe_path fl)"
      "rq_headers ?req = range_headers j ?rv ?et" by (simp_all add: tail_request_def get_request_def)
    obtain reply where n: "net_fetch nw ?req (cg_timeout_ms (dj_config j)) (dw_net w) = (Inr (reply, None), dw_net w)"
      "rp_status reply = (if asked_range ?et tag ?r = None then 200 else 206)"
      "content_range_start reply = (if asked_range ?et tag ?r = None then None else Some (r_start ?spec))"
      "\<forall>data. decodes ?env reply data \<longrightarrow> data = take (range_len ?spec) (drop (r_start ?spec) D)"
      using fetch_get [OF u f q pr parse_range_open [OF ou(1)] s sp, of ?env] by auto
    have g: "dl_fetch nw ?req (cg_timeout_ms (dj_config j)) w = (r, w2)" using a(4) by simp
    note e = dl_fetch_result [OF n(1) g]
    have "(off = 0 \<or> u = tag) \<and> (case content_range_start reply2 of Some n \<Rightarrow> n | None \<Rightarrow> off) = off"
      if "r = Inr (reply2, broken)" "rp_status reply2 = 206" for reply2 broken
      using headers_only(3) [OF conjunct2 [OF e(2) [OF that(1)]]] e(2) [OF that(1)] that(2) n(2,3)
      by (simp add: as split: if_splits)
    moreover have "(rp_status reply2 = 200 \<longrightarrow> data = D) \<and> (rp_status reply2 = 206 \<longrightarrow> data = drop off D)"
      if "r = Inr (reply2, None)" "decodes ?env reply2 data" for reply2 data
    proof -
      have "decodes ?env reply data" using e(3) [OF that(1)] that(2) by simp
      with n(4) have "data = take (range_len ?spec) (drop (r_start ?spec) D)" by blast
      then show ?thesis using e(3) [OF that(1)] n(2) by (simp add: as range_len_def range_full_def)
    qed
    ultimately show ?thesis using a(1) by (simp add: dl_fine_def e(1))
  qed
qed

subsection \<open>A patient deployment\<close>

text \<open>
  The user resumes what is paused, requests and replies are lost but no body is cut, the disk takes
  every write, and what was saved is of this version of the file.
\<close>

definition dl_patient :: "dl_world \<Rightarrow> bool" where
  "dl_patient w \<longleftrightarrow> e2e_patient (dw_net w) \<and> (\<forall>f\<in>set (ew_faults (dw_net w)). \<forall>k. f \<noteq> Body_cut k) \<and>
     (\<forall>f\<in>set (dw_disk_faults w). f = None)"

definition dl_budget :: "dl_world \<Rightarrow> nat" where
  "dl_budget w = length (filter (\<lambda>f. f \<noteq> Delivered) (ew_faults (dw_net w)))"

definition dl_resumable :: "bytes \<Rightarrow> string \<Rightarrow> dl_world \<Rightarrow> bool" where
  "dl_resumable D tag w \<longleftrightarrow> dl_saved_fine D tag w \<and>
     (case dw_saved w of None \<Rightarrow> True
      | Some v \<Rightarrow> (\<exists>off. safe_u64 (js_field v ''offset'') ''offset'' = Inr off) \<and> saved_etag v = tag)"

lemma dl_call_faults:
  "set (dw_disk_faults (snd (dl_call path c w))) \<subseteq> set (dw_disk_faults w)" "dw_net (snd (dl_call path c w)) = dw_net w"
  by (induction path c w rule: dl_call.induct) (auto split: list.splits option.splits dest: list.set_sel(2))

lemma dl_patient_closed: "world_closed (dl_env base nw path) dl_patient"
proof -
  have c: "dl_patient (w\<lparr> dw_net := snd (net_controls (dw_net w)) \<rparr>)" if "dl_patient w" for w
  proof -
    have "ew_faults (snd (net_controls (dw_net w))) = ew_faults (dw_net w)"
      by (simp add: net_controls_def split: list.split)
    then show ?thesis using that patient_controls(2) by (simp add: dl_patient_def)
  qed
  have o: "dl_patient (w\<lparr> dw_net := snd (net_order n (dw_net w)) \<rparr>)" if "dl_patient w" for w n
    using that by (simp add: dl_patient_def net_order_def e2e_patient_def split: list.split)
  have f: "dl_patient (snd (dl_fetch nw req tmo w))" if "dl_patient w" for req tmo w
  proof -
    obtain r n where n: "net_fetch nw req tmo (dw_net w) = (r, n)" by force
    have "ew_turns n = ew_turns (dw_net w)" "ew_faults n = ew_faults (dw_net w)"
      using n by (auto simp: net_fetch_def Let_def split: prod.splits outcome.splits)
    then have w2: "snd (dl_fetch nw req tmo w) = w\<lparr> dw_net := n\<lparr> ew_faults := tl (ew_faults (dw_net w)) \<rparr> \<rparr>"
      "ew_turns n = ew_turns (dw_net w)" using n by (simp_all add: dl_fetch_def Let_def)
    have "x \<in> set xs" if "x \<in> set (tl xs)" for x :: fault and xs using that by (cases xs) simp_all
    with that show ?thesis unfolding w2(1) by (simp add: dl_patient_def e2e_patient_def w2(2))
  qed
  have k: "dl_patient (snd (dl_call path q w))" if "dl_patient w" for q w
    using that dl_call_faults [of path q w] by (auto simp: dl_patient_def)
  show ?thesis
    unfolding world_closed_def dl_env_simps using c o f k by (simp add: case_prod_beta)
qed

lemma dl_fetch_answered:
  assumes "net_fetch nw req tmo (dw_net w) = (Inr (reply, None), dw_net w)" and "dl_fetch nw req tmo w = (r, w2)"
    and "dl_patient w" and "A reply"
  shows "answered r A (dl_budget w) (dl_budget w2)"
proof -
  let ?f = "case ew_faults (dw_net w) of [] \<Rightarrow> Delivered | f # _ \<Rightarrow> f"
  have w2: "dl_budget w2 = length (filter (\<lambda>f. f \<noteq> Delivered) (tl (ew_faults (dw_net w))))"
    using dl_fetch_result(1) [OF assms(1,2)] by (simp add: dl_budget_def)
  show ?thesis
  proof (cases ?f)
    case Delivered
    then have "r = Inr (reply, None)" using assms(1,2) by (simp add: dl_fetch_def Let_def)
    then show ?thesis using budget_step(1) [OF Delivered] assms(4) unfolding w2 unfolding answered_def dl_budget_def by simp
  next
    case (Body_cut k)
    then show ?thesis using assms(3) by (auto simp: dl_patient_def split: list.splits)
  next
    case Request_lost
    then have "r = Inl connection_lost" "?f \<noteq> Delivered" using assms(1,2) by (simp_all add: dl_fetch_def Let_def)
    then show ?thesis using budget_step(2) unfolding w2 unfolding answered_def dl_budget_def connection_lost_def by simp
  next
    case Reply_lost
    then have "r = Inl connection_lost" "?f \<noteq> Delivered" using assms(1,2) by (simp_all add: dl_fetch_def Let_def)
    then show ?thesis using budget_step(2) unfolding w2 unfolding answered_def dl_budget_def connection_lost_def by simp
  qed
qed

text \<open>The two requests for parts of the file.\<close>

lemma fetch_range:
  assumes u: "download_setup R base nw j fl D p claims" and f: "dl_fine nw p d t D tag w"
    and a: "start < e" "e \<le> length D" "e - start \<le> max_output_per_call"
  defines "req \<equiv> chunk_request (dl_env base nw (fe_path fl)) j (fe_path fl) tag start e"
  shows "\<exists>reply. net_fetch nw req tmo (dw_net w) = (Inr (reply, None), dw_net w) \<and> rp_status reply = 206 \<and>
    decodes (dl_env base nw (fe_path fl)) reply (block_of D start e)"
proof -
  let ?rv = "''bytes='' @ show_nat start @ ''-'' @ show_nat (e - 1)"
  have h: "server_holds nw p d t D tag (ew_server (dw_net w))" using f by (simp add: dl_fine_def)
  note tg = holds_etag [OF h]
  have as: "asked_range tag tag x = Some x" for x using etag_text_matches [OF tg(1) tg(1)] by (simp add: asked_range_def)
  have s: "select_spec (asked_range tag tag (PBytes \<lparr> r_start = start, r_end = e \<rparr>)) (length D) = Inr \<lparr> r_start = start, r_end = e \<rparr>"
    using a(1,2) by (simp add: as select_spec_def range_clamp_def ok_or_def min_absorb1)
  have pr: "list_all printable ?rv" by (simp add: printable_def)
  have eu: "e \<le> u64_max" using a(2) download_setupD(10) [OF u] by simp
  have q: "rq_method req = ''GET''" "rq_url req = file_url (ce_encode_uri base) (dj_base_url j) (fe_path fl)"
    "rq_headers req = range_headers j ?rv tag" by (simp_all add: req_def chunk_request_def get_request_def)
  show ?thesis
    using fetch_get [OF u h q pr tg(2) parse_range_closed [OF a(1) eu] s, of "dl_env base nw (fe_path fl)"] a eu
    by (auto simp: range_len_def as block_of_def)
qed

lemma fetch_rest:
  assumes u: "download_setup R base nw j fl D p claims" and f: "dl_fine nw p d t D tag w"
    and a: "off < length D" "length D - off \<le> max_output_per_call" "off = 0 \<or> tg = tag"
  defines "req \<equiv> tail_request (dl_env base nw (fe_path fl)) j (fe_path fl) tg off"
  shows "\<exists>reply. net_fetch nw req tmo (dw_net w) = (Inr (reply, None), dw_net w) \<and> rp_status reply = 206 \<and>
    decodes (dl_env base nw (fe_path fl)) reply (drop off D)"
proof -
  let ?rv = "''bytes='' @ show_nat off @ ''-''" and ?et = "if 0 < off then tg else []" and ?r = "PBytes \<lparr> r_start = off, r_end = u64_max \<rparr>"
  have h: "server_holds nw p d t D tag (ew_server (dw_net w))" using f by (simp add: dl_fine_def)
  note ht = holds_etag [OF h]
  have as: "asked_range ?et tag ?r = Some ?r"
    using etag_text_matches [OF ht(1) ht(1)] a(3) by (auto simp: asked_range_def)
  have ou: "off < u64_max" "length D \<le> u64_max" using a(1) download_setupD(10) [OF u] by simp_all
  then have s: "select_spec (asked_range ?et tag ?r) (length D) = Inr \<lparr> r_start = off, r_end = length D \<rparr>"
    unfolding as using a(1) by (simp add: select_spec_def range_clamp_def ok_or_def min_absorb2)
  have pr: "list_all printable ?rv" "list_all printable ?et" using a(3) ht(2) by (auto simp: printable_def)
  have q: "rq_method req = ''GET''" "rq_url req = file_url (ce_encode_uri base) (dj_base_url j) (fe_path fl)"
    "rq_headers req = range_headers j ?rv ?et" by (simp_all add: req_def tail_request_def get_request_def)
  show ?thesis
    using fetch_get [OF u h q pr parse_range_open [OF ou(1)] s, of "dl_env base nw (fe_path fl)"] a(1,2) ou
    by (auto simp: range_len_def as)
qed

lemma dl_steady_delivery:
  assumes u: "download_setup R base nw j fl D p claims"
  shows "steady_delivery (dl_env base nw (fe_path fl)) j fl D tag (\<lambda>w. dl_fine nw p d t D tag w \<and> dl_patient w)
    (dl_resumable D tag) dw_disk dl_budget"
proof -
  let ?env = "dl_env base nw (fe_path fl)" and ?ok = "\<lambda>w. dl_fine nw p d t D tag w \<and> dl_patient w"
  have d: "delivery_service ?env j fl D tag ?ok (dl_resumable D tag) dw_disk"
    by (rule delivery_restrict [OF dl_delivery_service [OF u] dl_patient_closed]) (auto simp: dl_resumable_def)
  have mx: "max_output_per_call = 16777216" by (simp add: max_output_per_call_def max_frame_output_def chunk_size_def sat_mul_def u64_max_def)
  have s: "steady_client ?env ?ok (\<lambda>w. (dw_disk w, dl_budget w)) (\<lambda>c. \<not> is_write c)"
  proof unfold_locales
    show "quiet_for ?env (\<lambda>c. \<not> is_write c) (\<lambda>w. ?ok w \<and> (dw_disk w, dl_budget w) = v)" for v
    proof -
      have b: "dl_budget (w\<lparr> dw_net := snd (net_controls (dw_net w)) \<rparr>) = dl_budget w"
        "dl_budget (w\<lparr> dw_net := snd (net_order n (dw_net w)) \<rparr>) = dl_budget w" for w n
        by (simp_all add: dl_budget_def net_controls_def net_order_def split: list.split)
      have k: "dl_budget (snd (dl_call path c w)) = dl_budget w" for path c w
        by (simp add: dl_budget_def dl_call_faults(2))
      have "quiet_for ?env (\<lambda>c. \<not> is_write c) (\<lambda>w. ?ok w \<and> dw_disk w = fst v)"
        by (rule delivery_service.quiet [OF d])
      then show ?thesis unfolding quiet_for_def dl_env_simps using b k by (cases v) (simp add: case_prod_beta)
    qed
    show "\<not> is_write (Call_progress n m)" for n m by (simp add: is_write_def)
    show "\<exists>c2. wait_loop (fst (ce_controls ?env w)) c = (Some (Inr ()), c2) \<and> running c2" if "?ok w" "running c" for w c
      using patient_ends [OF that(2)] patient_controls(1) that(1) by (simp add: dl_patient_def case_prod_beta)
    show "fst (ce_call ?env q w) = Inr ()" if "?ok w" "\<not> is_write q" for w q
      using that(2) by (cases q) (auto simp: is_write_def)
  qed
  show ?thesis
  proof (intro steady_delivery.intro d s steady_delivery_axioms.intro)
    show "a = Inr () \<and> dl_budget w2 = dl_budget w"
      if "?ok w" "off \<le> length (dw_disk w)" "ce_call ?env (Call_write_chunk (fe_path fl) off data) w = (a, w2)" for w off data a w2
      using that by (auto simp: dl_patient_def dl_budget_def split: if_splits list.splits option.splits)
    show "dl_budget w2 = dl_budget w \<and> (\<exists>x. q = Inr x) \<and>
      (\<forall>x. q = Inr (Some x) \<longrightarrow> (\<exists>off. safe_u64 (js_field x ''offset'') ''offset'' = Inr off) \<and> saved_etag x = tag)"
      if "?ok w" "dl_resumable D tag w" "ce_load_state ?env ''download'' (fe_path fl) w = (q, w2)" for w q w2
      using that by (auto simp: dl_resumable_def)
    show "answered r (\<lambda>reply. rp_status reply = 200) (dl_budget w) (dl_budget w2)"
      if a: "?ok w" "ce_fetch ?env (get_request ?env j ''HEAD'' (fe_path fl) (auth_headers (dj_token j) False None))
        (cg_timeout_ms (dj_config j)) w = (r, w2)" for w r w2
    proof -
      have f: "server_holds nw p d t D tag (ew_server (dw_net w))" using a(1) by (simp add: dl_fine_def)
      let ?req = "get_request ?env j ''HEAD'' (fe_path fl) (auth_headers (dj_token j) False None)"
      obtain reply where n: "net_fetch nw ?req (cg_timeout_ms (dj_config j)) (dw_net w) = (Inr (reply, None), dw_net w)"
        "rp_status reply = 200" using fetch_head [OF u f, of ?req] by (auto simp: get_request_def)
      show ?thesis by (rule dl_fetch_answered [OF n(1)]) (use a n(2) in simp_all)
    qed
    show "answered r (\<lambda>reply. rp_status reply = 206 \<and> decodes ?env reply (block_of D start e)) (dl_budget w) (dl_budget w2)"
      if a: "?ok w" "start < e" "e \<le> length D" "e - start \<le> 16777216"
        "ce_fetch ?env (chunk_request ?env j (fe_path fl) tag start e) (cg_timeout_ms (dj_config j)) w = (r, w2)" for w start e r w2
    proof -
      from fetch_range [OF u conjunct1 [OF a(1)] a(2,3) a(4) [folded mx]] obtain reply where
        n: "net_fetch nw (chunk_request ?env j (fe_path fl) tag start e) (cg_timeout_ms (dj_config j)) (dw_net w) = (Inr (reply, None), dw_net w)"
        "rp_status reply = 206 \<and> decodes ?env reply (block_of D start e)" by blast
      show ?thesis by (rule dl_fetch_answered [OF n(1)]) (use a n(2) in simp_all)
    qed
    show "answered r (\<lambda>reply. rp_status reply = 206 \<and> decodes ?env reply (drop off D)) (dl_budget w) (dl_budget w2)"
      if a: "?ok w" "off < length D" "length D - off \<le> 16777216" "off = 0 \<or> tg = tag" "off = 0 \<or> etag_text tg"
        "ce_fetch ?env (tail_request ?env j (fe_path fl) tg off) (cg_timeout_ms (dj_config j)) w = (r, w2)" for w off tg r w2
    proof -
      from fetch_rest [OF u conjunct1 [OF a(1)] a(2) a(3) [folded mx] a(4)] obtain reply where
        n: "net_fetch nw (tail_request ?env j (fe_path fl) tg off) (cg_timeout_ms (dj_config j)) (dw_net w) = (Inr (reply, None), dw_net w)"
        "rp_status reply = 206 \<and> decodes ?env reply (drop off D)" by blast
      show ?thesis by (rule dl_fetch_answered [OF n(1)]) (use a n(2) in simp_all)
    qed
  qed
qed

locale download_deployment =
  fixes R :: "'e \<Rightarrow> bytes \<Rightarrow> bool" and base :: "('e, 's, dl_world) client_env" and nw :: "'e network"
    and j :: download_job and fl :: file_entry and D :: bytes and p :: string and d :: path and t :: string
    and claims :: token_claims and tag :: string
  assumes agree: "download_setup R base nw j fl D p claims"

sublocale download_deployment \<subseteq> delivery: delivery_service "dl_env base nw (fe_path fl)" j fl D tag
    "dl_fine nw p d t D tag" "dl_saved_fine D tag" dw_disk
  by (rule dl_delivery_service [OF agree])

sublocale download_deployment \<subseteq> steady: steady_delivery "dl_env base nw (fe_path fl)" j fl D tag
    "\<lambda>w. dl_fine nw p d t D tag w \<and> dl_patient w" "dl_resumable D tag" dw_disk dl_budget
  by (rule dl_steady_delivery [OF agree])

context download_deployment
begin

lemma reported_is_intact:
  assumes "dl_fine nw p d t D tag (cl_world s)" and "dl_saved_fine D tag (cl_world s)" and "engine_ok (cl_tune s)"
    and "download_file (dl_env base nw (fe_path fl)) j fl s = (Some (Inr n), s2)"
  shows "n = length D \<and> dw_disk (cl_world s2) = D"
proof -
  have "delivery.starting s"
    using assms(1-3) by (simp add: delivery.starting_def delivery.on_disk_def in_order_def)
  from satD [OF delivery.download_sat this] assms(4) show ?thesis
    by (simp add: delivery.on_disk_def in_order_def)
qed

lemma patient_download_succeeds:
  assumes "dl_fine nw p d t D tag (cl_world s)" and "dl_resumable D tag (cl_world s)" and "engine_ok (cl_tune s)"
    and "dl_patient (cl_world s)" and "running (cl_control s)" and "dl_budget (cl_world s) \<le> cg_max_retries (dj_config j)"
  shows "\<exists>s2. download_file (dl_env base nw (fe_path fl)) j fl s = (Some (Inr (length D)), s2) \<and> dw_disk (cl_world s2) = D"
proof -
  have "steady.here 0 (dl_budget (cl_world s)) s \<and> steady.starting s"
    using assms(1-5) by (simp add: steady.hereI steady.starting_def steady.on_disk_def in_order_def)
  from satD [OF steady.download_succeeds [OF assms(6)] this] show ?thesis
    by (auto simp: steady.on_disk_def in_order_def elim!: cm_post.elims)
qed

end



subsection \<open>A concrete deployment\<close>

definition dl_client :: "(bytes, string \<rightharpoonup> string, dl_world) client_env" where
  "dl_client = \<lparr> ce_tune = demo_env, ce_zrip = raw_zrip, ce_sha = (\<lambda>_. replicate 32 0), ce_encode_uri = (\<lambda>s. s),
     ce_meta_json = meta_runs, ce_ranges_json = text_spans, ce_dir_json = (\<lambda>_. Inr []), ce_now = (\<lambda>_. Fin 0),
     ce_controls = (\<lambda>w. ([], w)), ce_fetch = dl_fetch demo_network, ce_xhr = (\<lambda>_ _ w. ([], Inr 0, w)),
     ce_call = dl_call ''a'', ce_file_list = (\<lambda>w. (Inr [], w)), ce_read_file = (\<lambda>_ _ _ w. (Inr [], w)),
     ce_load_state = (\<lambda>_ _ w. (Inr None, w)), ce_bench = (\<lambda>_ _. None), ce_bench_clock = (\<lambda>_ _. Fin 0),
     ce_sleep = (\<lambda>_ w. w), ce_order = (\<lambda>n w. ([0..<n], w)) \<rparr>"

definition dl_entry :: file_entry where
  "dl_entry = \<lparr> fe_path = ''a'', fe_size = 5, fe_mtime = 0 \<rparr>"

definition dl_job :: download_job where
  "dl_job = \<lparr> dj_base_url = ''http://h'', dj_token = ''u'', dj_config = client_config_default, dj_level = 1 \<rparr>"

definition dl_tag :: string where
  "dl_tag = fm_etag (file_meta_at (sg_ext demo_serving) ''a'' (w_fs demo_world) (NFile 0))"

lemma dl_demo_setup: "download_setup (=) dl_client demo_network dl_job dl_entry [1, 2, 3, 4, 5] ''a'' demo_claims"
proof -
  have u: "drop 8 (file_url (\<lambda>s. s) ''http://h'' ''a'') = ''/file/'' @ ''a''" by code_simp
  have b: "bearer_claims (sv_verifier (demo_state identity_codec)) [(''authorization'', as_bytes (''Bearer '' @ ''u''))] =
      Inr demo_claims"
    by (simp add: bearer_claims_def header_get_def header_text_printable printable_def ok_or_def res_bind_def
        strip_prefix_def eval_nat_numeral str_trim_visible visible_def map_err_def demo_state_def demo_claims_def)
  have l: "levels_valid (demo_state identity_codec)" by (simp add: levels_valid_def demo_state_def)
  have g: "sg_zrip demo_serving = raw_zrip" by (simp add: demo_serving_def)
  show ?thesis
    unfolding download_setup_def demo_network_def dl_client_def dl_job_def dl_entry_def
      client_env.simps network.simps download_job.simps file_entry.simps
    by (intro conjI u b l demo_resolve) (simp_all add: raw_zrip_ok g u64_max_def)
qed

interpretation demo_dl: download_deployment "(=)" dl_client demo_network dl_job dl_entry "[1, 2, 3, 4, 5]" "''a''" "[''srv'']" "''a''"
    demo_claims dl_tag
  by unfold_locales (rule dl_demo_setup)

text \<open>An old file on the disk, a lost request and a lost reply, and a user who pauses and resumes.\<close>

definition dl_start :: "(string \<rightharpoonup> string, dl_world) client" where
  "dl_start = \<lparr> cl_control = control_new 2, cl_tune = engine_new False Lv_Balanced,
     cl_world = \<lparr> dw_net = \<lparr> ew_server = demo_world, ew_faults = [Request_lost, Reply_lost],
         ew_turns = [[[Op_pause], [Op_resume]]], ew_orders = [] \<rparr>,
       dw_disk = [9, 9], dw_saved = None, dw_disk_faults = [] \<rparr> \<rparr>"

lemma dl_start_fine:
  "dl_fine demo_network ''a'' [''srv''] ''a'' [1, 2, 3, 4, 5] dl_tag (cl_world dl_start)"
  "dl_resumable [1, 2, 3, 4, 5] dl_tag (cl_world dl_start)" "dl_saved_fine [1, 2, 3, 4, 5] dl_tag (cl_world dl_start)"
  "engine_ok (cl_tune dl_start)" "dl_patient (cl_world dl_start)" "running (cl_control dl_start)"
  "dl_budget (cl_world dl_start) \<le> cg_max_retries (dj_config dl_job)"
proof -
  have "server_holds demo_network ''a'' [''srv''] ''a'' [1, 2, 3, 4, 5] dl_tag demo_world"
    using demo_target [of identity_codec] demo_file demo_data(2)
    unfolding server_holds_def dl_tag_def demo_network_def network.simps
    by (intro exI [of _ "0::nat"]) simp
  then show "dl_fine demo_network ''a'' [''srv''] ''a'' [1, 2, 3, 4, 5] dl_tag (cl_world dl_start)"
    by (simp add: dl_fine_def dl_start_def)
  show "engine_ok (cl_tune dl_start)" unfolding dl_start_def by (simp add: tune_reach_ok [OF Reach_new])
qed (simp_all add: dl_resumable_def dl_saved_fine_def dl_patient_def e2e_patient_def patient_turns_def running_def
    dl_start_def control_new_def dl_budget_def dl_job_def client_config_default_def max_retries_const_def)



end
