(* ===== verification/End_To_End_Native.thy ===== *)
theory End_To_End_Native
  imports Native_Live Native_Paths End_To_End_Download
begin

text \<open>
  Downloads of the native client from the server: its requests are run through the router, over a
  connection that loses requests and replies and breaks bodies off, onto a file system whose operations
  may fail.  The composition fulfils the contract of \<open>Native_Delivery\<close>.
\<close>

subsection \<open>The connection\<close>

record native_net =
  nn_link :: e2e_world
  nn_disk :: "(nat \<times> io_error) option list"

definition native_lost :: string where
  "native_lost = ''connection lost''"

text \<open>What arrives of the reply.\<close>

definition native_outcome ::
  "fault \<Rightarrow> libfw_error + http_reply \<times> libfw_error option \<Rightarrow> string + http_reply \<times> string option" where
  "native_outcome f r =
     (case r of
        Inl e \<Rightarrow> Inl (libfw_error_display e)
      | Inr (reply, broken) \<Rightarrow>
          (case f of
             Delivered \<Rightarrow> Inr (reply, map_option libfw_error_display broken)
           | Body_cut k \<Rightarrow> Inr (reply\<lparr> rp_body := take k (rp_body reply) \<rparr>, Some native_lost)
           | _ \<Rightarrow> Inl native_lost))"

definition native_send ::
  "'e network \<Rightarrow> http_request \<Rightarrow> native_net \<Rightarrow> (string + http_reply \<times> string option) \<times> native_net" where
  "native_send nw req n =
     (let ew = nn_link n; f = (case ew_faults ew of [] \<Rightarrow> Delivered | f # _ \<Rightarrow> f);
          ew2 = ew\<lparr> ew_faults := tl (ew_faults ew) \<rparr> in
      if f = Request_lost then (Inl native_lost, n\<lparr> nn_link := ew2 \<rparr>)
      else let (r, ew3) = net_fetch nw req 0 ew2 in (native_outcome f r, n\<lparr> nn_link := ew3 \<rparr>))"

definition native_on :: "('e, 's, native_net) native_env \<Rightarrow> 'e network \<Rightarrow> ('e, 's, native_net) native_env" where
  "native_on base nw =
     base\<lparr> ne_send := native_send nw,
           ne_fault := (\<lambda>n. case nn_disk n of [] \<Rightarrow> (None, n) | f # fs \<Rightarrow> (f, n\<lparr> nn_disk := fs \<rparr>)),
           ne_sleep := (\<lambda>_ n. n),
           ne_order := (\<lambda>k n. case net_order k (nn_link n) of (q, ew) \<Rightarrow> (q, n\<lparr> nn_link := ew \<rparr>)) \<rparr>"

lemma native_on_simps [simp]:
  "ne_send (native_on base nw) = native_send nw"
  "ne_fault (native_on base nw) = (\<lambda>n. case nn_disk n of [] \<Rightarrow> (None, n) | f # fs \<Rightarrow> (f, n\<lparr> nn_disk := fs \<rparr>))"
  "ne_sleep (native_on base nw) = (\<lambda>_ n. n)"
  "ne_order (native_on base nw) = (\<lambda>k n. case net_order k (nn_link n) of (q, ew) \<Rightarrow> (q, n\<lparr> nn_link := ew \<rparr>))"
  "ne_zrip (native_on base nw) = ne_zrip base" "ne_config (native_on base nw) = ne_config base"
  "ne_header_ok (native_on base nw) = ne_header_ok base" "ne_header_text (native_on base nw) = ne_header_text base"
  "ne_resume_text (native_on base nw) = ne_resume_text base" "ne_resume_parse (native_on base nw) = ne_resume_parse base"
  by (simp_all add: native_on_def)

text \<open>A request that only reads leaves the server as it is.\<close>

lemma reads_leave_server: "hi_method q \<noteq> ''POST'' \<Longrightarrow> snd (serve g sv q w) = w"
proof (cases "find_route (hi_path q)")
  case None
  then show ?thesis by (auto simp: serve_def validate_protocol_def split: option.splits)
next
  case (Some rt)
  assume "hi_method q \<noteq> ''POST''"
  then have "snd (run_route g sv rt q w) = w"
    by (cases rt) (auto simp: run_route_def Let_def list_dir_root_def list_dir_def returning_state
        download_state head_state list_dir_state intro!: with_claims_state run_get_state)
  then show ?thesis by (simp add: serve_def Some validate_protocol_def split: option.splits)
qed

lemma reads_leave_link: "reads req \<Longrightarrow> ew_server (snd (net_fetch nw req tmo ew)) = ew_server ew"
proof -
  assume "reads req"
  then have "snd (exchange nw req body w) = w" for body w
    unfolding exchange_def by (intro reads_leave_server) (auto simp: reads_def)
  then show ?thesis
    by (auto simp: net_fetch_def Let_def split: prod.splits outcome.splits) (metis snd_conv)+
qed

subsection \<open>The setting\<close>

definition native_setup ::
  "('e \<Rightarrow> bytes \<Rightarrow> bool) \<Rightarrow> ('e, 's, native_net) native_env \<Rightarrow> 'e network \<Rightarrow> string \<Rightarrow> bytes \<Rightarrow> string \<Rightarrow>
   token_claims \<Rightarrow> bool" where
  "native_setup R base nw remote D p claims \<longleftrightarrow>
     zrip_ok (sg_zrip (nw_serving nw)) R \<and> ne_zrip base = sg_zrip (nw_serving nw) \<and> levels_valid (nw_state nw) \<and>
     remote \<noteq> [] \<and> nw_path nw (native_file_url base remote) = ''/file/'' @ remote \<and>
     bearer_claims (sv_verifier (nw_state nw))
       [(''authorization'', as_bytes (''Bearer '' @ nc_token (ne_config base)))] = Inr claims \<and>
     resolve_client_path (nw_state nw) (sg_now (nw_serving nw)) claims remote Act_Read = Inr p \<and>
     D \<noteq> [] \<and> length D + 16777216 \<le> u64_max \<and>
     list_all printable (nc_token (ne_config base)) \<and> (\<forall>v. list_all printable v \<longrightarrow> ne_header_ok base v) \<and>
     (\<forall>v. list_all printable v \<longrightarrow> ne_header_text base v = Some v) \<and>
     (\<forall>k st st2. ne_resume_parse base (take k (ne_resume_text base st)) = Some st2 \<longrightarrow> st2 = st)"

lemma native_setupD:
  assumes "native_setup R base nw remote D p claims"
  shows "ne_zrip base = sg_zrip (nw_serving nw)" "D \<noteq> []" "length D + 16777216 \<le> u64_max"
    "list_all printable (nc_token (ne_config base))" "list_all printable v \<Longrightarrow> ne_header_ok base v"
    "\<forall>v. list_all printable v \<longrightarrow> ne_header_text base v = Some v"
    "ne_resume_parse base (take k (ne_resume_text base st)) = Some st2 \<Longrightarrow> st2 = st"
  using assms unfolding native_setup_def by blast+

text \<open>The URL is the one the browser's client would make with this encoder.\<close>

lemma native_encode_join: "native_encode_path (join_on CHR ''/'' segs) = join_slash (map native_encode_path segs)"
proof -
  have e: "native_encode_path (x @ y) = native_encode_path x @ native_encode_path y" for x y
    by (simp add: native_encode_path_def)
  have c: "native_encode_path [] = []" "native_encode_path (CHR ''/'' # x) = CHR ''/'' # native_encode_path x" for x
    by (simp_all add: native_encode_path_def unreserved_def)
  have "native_encode_path (join_on CHR ''/'' (g # gs)) =
      native_encode_path g @ concat (map (\<lambda>t. ''/'' @ t) (map native_encode_path gs))" for g gs
    by (induction gs arbitrary: g) (simp_all add: e c)
  then show ?thesis by (cases segs) (simp_all add: join_slash_def c comp_def)
qed

lemma native_url_same: "file_url native_encode_path (nc_base_url (ne_config env)) p = native_file_url env p"
  unfolding file_url_def encode_path_def native_file_url_def
  by (metis native_encode_join join_split)

subsection \<open>The server's replies\<close>

lemma lower_native: "to_ascii_lowercase ''range'' = ''range''" "to_ascii_lowercase ''if-range'' = ''if-range''"
  by code_simp+

text \<open>What arrives, when the exchange gives a reply and leaves the server as it is.\<close>

lemma native_send_result:
  assumes "net_fetch nw req 0 (nn_link n\<lparr> ew_faults := tl (ew_faults (nn_link n)) \<rparr>) = (Inr (reply, None), ew)"
    and "native_send nw req n = (Inr (reply2, broken), n2)"
  shows "rp_status reply2 = rp_status reply \<and> rp_headers reply2 = rp_headers reply \<and> prefix (rp_body reply2) (rp_body reply)"
    "broken = None \<Longrightarrow> reply2 = reply"
  using assms
  by (auto simp: native_send_def native_outcome_def Let_def take_is_prefix split: fault.splits list.splits if_splits)

lemma exchange_wire:
  "rq_method r1 = rq_method r2 \<Longrightarrow> rq_url r1 = rq_url r2 \<Longrightarrow> wire_headers (rq_headers r1) = wire_headers (rq_headers r2) \<Longrightarrow>
   exchange nw r1 body w = exchange nw r2 body w"
  by (simp add: exchange_def)

lemma native_header_read:
  assumes "\<forall>v. list_all printable v \<longrightarrow> ne_header_text env v = Some v"
    and "filter (\<lambda>(n, v). to_ascii_lowercase n = name) (rp_headers reply) = [(n, v)]" and "list_all printable v"
  shows "native_header env reply name = Some v"
  using assms by (simp add: native_header_def)

lemma printable_texts: "list_all printable (show_nat n)" "list_all printable (show_int l)" "list_all printable (format_as_str f)"
proof -
  show n: "list_all printable (show_nat n)" for n by simp
  show "list_all printable (show_int l)" by (simp add: show_int_def n printable_def)
  show "list_all printable (format_as_str f)" by (cases f) (simp_all add: printable_def)
qed

lemma native_reply_read:
  assumes t: "\<forall>v. list_all printable v \<longrightarrow> ne_header_text env v = Some v"
    and h: "rp_headers reply = plan_headers m fmt lv echo part spec" and "list_all printable (fm_etag m)"
  shows "header_str env reply ''etag'' = fm_etag m" "native_format env reply = fmt"
    "fmt = Fmt_None \<Longrightarrow> header_str env reply ''content-length'' = show_nat (range_len spec)"
proof -
  have f: "filter (\<lambda>(n, v). to_ascii_lowercase n = ''etag'') (rp_headers reply) = [(''etag'', fm_etag m)]"
    "filter (\<lambda>(n, v). to_ascii_lowercase n = ''x-libfw-compress'') (rp_headers reply) = [(''x-libfw-compress'', format_as_str fmt)]"
    "fmt = Fmt_None \<Longrightarrow> filter (\<lambda>(n, v). to_ascii_lowercase n = ''content-length'') (rp_headers reply) =
      [(''content-length'', show_nat (range_len spec))]"
    by (simp_all add: h plan_headers_def lower_names lower_names2)
  note r = native_header_read [OF t, of _ reply]
  show "header_str env reply ''etag'' = fm_etag m" by (simp add: header_str_def r [OF f(1) assms(3)])
  show "native_format env reply = fmt"
    by (simp add: native_format_def r [OF f(2) printable_texts(3)] parse_format_str)
  show "fmt = Fmt_None \<Longrightarrow> header_str env reply ''content-length'' = show_nat (range_len spec)"
    by (simp add: header_str_def r [OF f(3) printable_texts(1)])
qed

text \<open>The native requests on the wire are those of a browser client with the same settings.\<close>

lemma native_as_browser:
  fixes cb :: "('e, unit, unit) client_env" and level :: int
  assumes "native_setup R base nw remote D p claims"
  defines "bb \<equiv> cb\<lparr> ce_zrip := ne_zrip base, ce_encode_uri := native_encode_path \<rparr>"
    and "jb \<equiv> \<lparr> dj_base_url = nc_base_url (ne_config base), dj_token = nc_token (ne_config base), dj_config = ne_client base,
      dj_level = level \<rparr>"
    and "fb \<equiv> \<lparr> fe_path = remote, fe_size = length D, fe_mtime = 0 \<rparr>"
  shows "download_setup R bb nw jb fb D p claims"
    "file_url (ce_encode_uri bb) (dj_base_url jb) (fe_path fb) = native_file_url base remote"
  using assms(1) unfolding native_setup_def download_setup_def bb_def jb_def fb_def
  by (simp_all add: native_url_same)

lemma native_headers_wire:
  assumes "native_setup R base nw remote D p claims"
  shows "native_headers base False None = auth_headers (nc_token (ne_config base)) False None"
    "native_headers base b (Some l) = auth_headers (nc_token (ne_config base)) b (Some l)"
proof -
  have "list_all printable (''Bearer '' @ nc_token (ne_config base))"
    using native_setupD(4) [OF assms] by (simp add: printable_def)
  note k = native_setupD(5) [OF assms this] native_setupD(5) [OF assms printable_texts(2)]
  show "native_headers base False None = auth_headers (nc_token (ne_config base)) False None"
    "native_headers base b (Some l) = auth_headers (nc_token (ne_config base)) b (Some l)"
    using k by (simp_all add: native_headers_def auth_headers_def Let_def show_int_def)
qed

text \<open>The length and the ETag.\<close>

lemma native_head_fetch:
  fixes base :: "('e, 's, native_net) native_env"
  assumes u: "native_setup R base nw remote D p claims" and f: "server_holds nw p d t D tag (ew_server ew)"
  shows "\<exists>reply m lv echo. net_fetch nw (native_head base remote) 0 ew = (Inr (reply, None), ew) \<and> rp_status reply = 200 \<and>
    rp_headers reply = plan_headers m Fmt_None lv echo False (range_full (length D)) \<and> fm_etag m = tag"
proof -
  fix cb :: "('e, unit, unit) client_env"
  let ?req = "native_head base remote"
  note b = native_as_browser [OF u, of cb 0]
  have "\<exists>m lv echo. exchange nw ?req (map Chunk (frames_of nw (rq_body ?req))) (ew_server ew) = (Returned
      \<lparr> rs_status = 200, rs_headers = plan_headers m Fmt_None lv echo False (range_full (length D)), rs_body = Empty_body \<rparr>,
      ew_server ew) \<and> fm_etag m = tag"
    by (rule exchange_head [OF b(1) f])
      (simp_all add: native_head_def native_headers_wire(1) [OF u] native_url_same)
  then obtain m lv echo where e: "exchange nw ?req (map Chunk (frames_of nw (rq_body ?req))) (ew_server ew) = (Returned
      \<lparr> rs_status = 200, rs_headers = plan_headers m Fmt_None lv echo False (range_full (length D)), rs_body = Empty_body \<rparr>,
      ew_server ew)" "fm_etag m = tag" by blast
  let ?reply = "\<lparr> rp_status = 200, rp_headers = plan_headers m Fmt_None lv echo False (range_full (length D)), rp_body = [] \<rparr>"
  have "net_fetch nw ?req 0 ew = (Inr (?reply, None), ew)" by (simp add: net_fetch_def e(1))
  then show ?thesis using e(2) by (intro exI [of _ ?reply]) auto
qed

lemma native_head_reply:
  assumes u: "native_setup R base nw remote D p claims" and f: "server_holds nw p d t D tag (ew_server (nn_link n))"
    and r: "native_send nw (native_head base remote) n = (Inr (reply2, broken), n2)"
  shows "header_str base reply2 ''etag'' = tag \<and> u64_from_str (header_str base reply2 ''content-length'') = Some (length D)"
proof -
  let ?ew = "nn_link n\<lparr> ew_faults := tl (ew_faults (nn_link n)) \<rparr>"
  have "server_holds nw p d t D tag (ew_server ?ew)" using f by simp
  from native_head_fetch [OF u this] obtain reply m lv echo where
    n: "net_fetch nw (native_head base remote) 0 ?ew = (Inr (reply, None), ?ew)"
      "rp_headers reply = plan_headers m Fmt_None lv echo False (range_full (length D))" "fm_etag m = tag" by blast
  have h: "rp_headers reply2 = plan_headers m Fmt_None lv echo False (range_full (length D))"
    using native_send_result(1) [OF n(1) r] n(2) by simp
  have "list_all printable (fm_etag m)" using holds_etag(2) [OF f] n(3) by simp
  note rd = native_reply_read [OF native_setupD(6) [OF u] h this]
  show ?thesis using rd(1,3) n(3) native_setupD(3) [OF u] by (simp add: range_len_def range_full_def)
qed

text \<open>A part of a body decodes to a part of what the whole decodes to, within the limits of both.\<close>

lemma feed_part:
  assumes w: "\<And>os. concat os = concat cs \<Longrightarrow> feed_all z (decompressor_with_limit fmt mx) os = Inr data"
    and p: "prefix xs cs" and f: "feed z (decompressor_new fmt) xs = Inr (out, x)" and "max_output_per_call \<le> mx"
  shows "prefix out data"
proof -
  obtain rest where r: "cs = xs @ rest" using p by (auto simp: prefix_def)
  have "\<exists>y. feed z (decompressor_with_limit fmt mx) xs = Inr (out, y)"
  proof (cases fmt)
    case Fmt_Zrip
    with f feed_limit [of z "[]" False max_output_per_call xs out x mx] assms(4) show ?thesis
      by (auto simp: decompressor_new_def decompressor_with_limit_def zrip_decompressor_with_max_output_def)
  qed (use f in \<open>auto simp: decompressor_new_def decompressor_with_limit_def\<close>)
  then obtain y where y: "feed z (decompressor_with_limit fmt mx) xs = Inr (out, y)" by blast
  have "feed_all z (decompressor_with_limit fmt mx) (xs @ [concat rest]) = Inr data" by (rule w) (simp add: r)
  then show ?thesis by (auto simp: feed_all_def feed_snoc y res_bind_Inr)
qed

lemma native_range_fetch:
  fixes base :: "('e, 's, native_net) native_env"
  assumes u: "native_setup R base nw remote D p claims" and f: "server_holds nw p d t D tag (ew_server ew)"
    and a: "nj_remote j = remote" "nj_etag j = tag" "a < e" "e \<le> length D"
  shows "\<exists>reply m fmt lv echo mx. net_fetch nw (range_get base j a e) 0 ew = (Inr (reply, None), ew) \<and> rp_status reply = 206 \<and>
    rp_headers reply = plan_headers m fmt lv echo True \<lparr> r_start = a, r_end = e \<rparr> \<and> fm_etag m = tag \<and>
    max_output_per_call \<le> mx \<and> (e - a \<le> max_output_per_call \<longrightarrow> mx = max_output_per_call) \<and>
    (\<forall>os. concat os = concat (rp_body reply) \<longrightarrow>
      feed_all (ne_zrip base) (decompressor_with_limit fmt mx) os = Inr (block_of D a e))"
proof -
  fix cb :: "('e, unit, unit) client_env"
  let ?req = "range_get base j a e"
  let ?rv = "''bytes='' @ show_nat a @ ''-'' @ show_nat (e - 1)" and ?jb = "\<lparr> dj_base_url = nc_base_url (ne_config base),
      dj_token = nc_token (ne_config base), dj_config = ne_client base, dj_level = nj_level j \<rparr>"
  let ?rb = "\<lparr> rq_method = ''GET'', rq_url = native_file_url base remote, rq_headers = range_headers ?jb ?rv tag, rq_body = [] \<rparr>"
  note b = native_as_browser [OF u, of cb "nj_level j"]
  note tg = holds_etag [OF f]
  have as: "asked_range tag tag x = Some x" for x using etag_text_matches [OF tg(1) tg(1)] by (simp add: asked_range_def)
  have s: "select_spec (asked_range tag tag (PBytes \<lparr> r_start = a, r_end = e \<rparr>)) (length D) = Inr \<lparr> r_start = a, r_end = e \<rparr>"
    using a(3,4) by (simp add: as select_spec_def range_clamp_def ok_or_def min_absorb1)
  have pr: "list_all printable ?rv" by (simp add: printable_def)
  have eu: "e \<le> u64_max" using a(4) native_setupD(3) [OF u] by simp
  let ?mx = "max (length (take (range_len \<lparr> r_start = a, r_end = e \<rparr>) (drop a D))) max_output_per_call"
  have "length (take (range_len \<lparr> r_start = a, r_end = e \<rparr>) (drop a D)) \<le> length D" by simp
  then have mx: "length (take (range_len \<lparr> r_start = a, r_end = e \<rparr>) (drop (r_start \<lparr> r_start = a, r_end = e \<rparr>) D)) \<le> ?mx" "?mx < u64_max"
    using native_setupD(3) [OF u] by (simp_all add: max_output_per_call_def max_frame_output_def chunk_size_def sat_mul_def u64_max_def)
  have q: "rq_method ?rb = ''GET''" "rq_url ?rb = file_url native_encode_path (nc_base_url (ne_config base)) remote"
    "rq_headers ?rb = range_headers ?jb ?rv tag" by (simp_all add: native_url_same)
  have q2: "rq_url ?rb = file_url (ce_encode_uri (cb\<lparr> ce_zrip := ne_zrip base, ce_encode_uri := native_encode_path \<rparr>))
      (dj_base_url ?jb) (fe_path \<lparr> fe_path = remote, fe_size = length D, fe_mtime = 0 \<rparr>)"
    by (simp add: native_url_same)
  note hx = exchange_get [OF b(1) f q(1) q2 q(3) pr tg(2) parse_range_closed [OF a(3) eu] s mx,
      of "map Chunk (frames_of nw (rq_body ?req))"]
  obtain m cs fmt lv echo where e: "exchange nw ?rb (map Chunk (frames_of nw (rq_body ?req))) (ew_server ew) = (Returned
      \<lparr> rs_status = 206, rs_headers = plan_headers m fmt lv echo True \<lparr> r_start = a, r_end = e \<rparr>,
        rs_body = Stream_body (map Chunk cs) \<rparr>, ew_server ew)" "fm_etag m = tag"
    "\<forall>os. concat os = concat cs \<longrightarrow>
      feed_all (sg_zrip (nw_serving nw)) (decompressor_with_limit fmt ?mx) os = Inr (take (range_len \<lparr> r_start = a, r_end = e \<rparr>) (drop a D))"
    using hx unfolding as range_spec.simps by auto
  have "wire_headers (rq_headers ?req) = wire_headers (rq_headers ?rb)"
    using a(1,2) by (simp add: range_get_def range_headers_def wire_headers_def native_headers_wire(2) [OF u] lower_names2
        lower_native)
  then have w: "exchange nw ?req body sw = exchange nw ?rb body sw" for body sw
    using a(1) by (intro exchange_wire) (simp_all add: range_get_def)
  have st: "stream_chunks (map Chunk cs) = (cs, None)" by (induction cs) simp_all
  let ?reply = "\<lparr> rp_status = 206, rp_headers = plan_headers m fmt lv echo True \<lparr> r_start = a, r_end = e \<rparr>, rp_body = cs \<rparr>"
  have n: "net_fetch nw ?req 0 ew = (Inr (?reply, None), ew)"
    by (simp add: net_fetch_def e(1) [folded w] st)
  have b: "take (range_len \<lparr> r_start = a, r_end = e \<rparr>) (drop a D) = block_of D a e"
    using a(3) eu by (simp add: range_len_def block_of_def)
  with e(3) have "\<forall>os. concat os = concat cs \<longrightarrow>
      feed_all (ne_zrip base) (decompressor_with_limit fmt ?mx) os = Inr (block_of D a e)"
    by (simp add: native_setupD(1) [OF u])
  moreover have "e - a \<le> max_output_per_call \<longrightarrow> ?mx = max_output_per_call" unfolding b by (auto simp: block_of_def)
  ultimately show ?thesis using n e(2)
    by (intro exI [of _ ?reply] exI [of _ m] exI [of _ fmt] exI [of _ lv] exI [of _ echo] exI [of _ ?mx]) simp
qed

lemma native_range_reply:
  fixes base :: "('e, 's, native_net) native_env"
  assumes u: "native_setup R base nw remote D p claims" and f: "server_holds nw p d t D tag (ew_server (nn_link n))"
    and a: "nj_remote j = remote" "nj_etag j = tag" "a < e" "e \<le> length D"
    and r: "native_send nw (range_get base j a e) n = (Inr (reply2, broken), n2)"
  shows "\<exists>fmt cs mx. native_format base reply2 = fmt \<and> prefix (rp_body reply2) cs \<and> (broken = None \<longrightarrow> rp_body reply2 = cs) \<and>
    max_output_per_call \<le> mx \<and> (e - a \<le> max_output_per_call \<longrightarrow> mx = max_output_per_call) \<and>
    (\<forall>os. concat os = concat cs \<longrightarrow> feed_all (ne_zrip base) (decompressor_with_limit fmt mx) os = Inr (block_of D a e))"
proof -
  let ?ew = "nn_link n\<lparr> ew_faults := tl (ew_faults (nn_link n)) \<rparr>"
  have "server_holds nw p d t D tag (ew_server ?ew)" using f by simp
  from native_range_fetch [OF u this a] obtain reply m fmt lv echo mx where
    n: "net_fetch nw (range_get base j a e) 0 ?ew = (Inr (reply, None), ?ew)"
    and h: "rp_headers reply = plan_headers m fmt lv echo True \<lparr> r_start = a, r_end = e \<rparr>" "fm_etag m = tag"
    and c: "max_output_per_call \<le> mx" "e - a \<le> max_output_per_call \<longrightarrow> mx = max_output_per_call"
      "\<forall>os. concat os = concat (rp_body reply) \<longrightarrow>
        feed_all (ne_zrip base) (decompressor_with_limit fmt mx) os = Inr (block_of D a e)" by blast
  note g = native_send_result [OF n r]
  have h2: "rp_headers reply2 = plan_headers m fmt lv echo True \<lparr> r_start = a, r_end = e \<rparr>" using g(1) h(1) by simp
  have "list_all printable (fm_etag m)" using holds_etag(2) [OF f] h(2) by simp
  note rd = native_reply_read [OF native_setupD(6) [OF u] h2 this]
  show ?thesis using rd(2) g c by (intro exI [of _ fmt] exI [of _ "rp_body reply"] exI [of _ mx]) auto
qed

subsection \<open>The deployment\<close>

definition native_fine :: "'e network \<Rightarrow> string \<Rightarrow> path \<Rightarrow> string \<Rightarrow> bytes \<Rightarrow> string \<Rightarrow> native_net \<Rightarrow> bool" where
  "native_fine nw p sd st D tag n \<longleftrightarrow> server_holds nw p sd st D tag (ew_server (nn_link n))"

lemma native_on_reads:
  "native_headers (native_on base nw) = native_headers base" "native_file_url (native_on base nw) = native_file_url base"
  "native_head (native_on base nw) = native_head base" "range_get (native_on base nw) = range_get base"
  "header_str (native_on base nw) = header_str base" "native_format (native_on base nw) = native_format base"
  by (simp_all add: fun_eq_iff native_headers_def native_file_url_def native_head_def range_get_def header_str_def
      native_format_def native_header_def Let_def split: option.split list.split)

lemma native_closed: "net_closed (native_on base nw) reads (native_fine nw p sd st D tag)"
proof -
  have "ew_server (nn_link (snd (native_send nw req n))) = ew_server (nn_link n)" if "reads req" for req n
    using reads_leave_link [OF that, of nw 0 "nn_link n\<lparr> ew_faults := tl (ew_faults (nn_link n)) \<rparr>"]
    by (auto simp: native_send_def Let_def split: prod.splits)
  then show ?thesis
    by (auto simp: net_closed_def native_fine_def net_order_def split: list.splits)
qed

text \<open>The contract holds of every closed set of connections to a server that holds the file.\<close>

lemma native_is_service:
  assumes u: "native_setup R base nw remote D p claims" and c: "net_closed (native_on base nw) reads ok"
    and fine: "\<And>n. ok n \<Longrightarrow> server_holds nw p sd st D tag (ew_server (nn_link n))"
  shows "native_service (native_on base nw) remote D tag ok"
proof unfold_locales
  let ?env = "native_on base nw" and ?fine = ok
  show "D \<noteq> []" "length D + 16777216 \<le> u64_max" by (fact native_setupD(2,3) [OF u])+
  show "net_closed ?env reads ?fine" by (rule c)
  show "x2 = x" if "ne_resume_parse ?env (take k (ne_resume_text ?env x)) = Some x2" for k x x2
    using native_setupD(7) [OF u] that by simp
  show "header_str ?env reply ''etag'' = tag \<and> u64_from_str (header_str ?env reply ''content-length'') = Some (length D)"
    if "?fine n" "ne_send ?env (native_head ?env remote) n = (Inr (reply, broken), n2)" for n reply broken n2
    using native_head_reply [OF u fine [OF that(1)]] that(2) by (simp add: native_on_reads)
  show "(\<forall>data. broken = None \<longrightarrow> whole_body (ne_zrip ?env) (native_format ?env reply) (concat (rp_body reply)) = Inr data \<longrightarrow>
        prefix data (block_of D s e)) \<and>
      (\<forall>xs ys out d. rp_body reply = xs @ ys \<longrightarrow>
        feed (ne_zrip ?env) (decompressor_new (native_format ?env reply)) xs = Inr (out, d) \<longrightarrow>
        prefix out (block_of D s e)) \<and>
      (\<forall>data. broken = None \<longrightarrow>
        feed_all (ne_zrip ?env) (decompressor_new (native_format ?env reply)) (rp_body reply) = Inr data \<longrightarrow>
        data = block_of D s e)"
    if "?fine n" "nj_remote j = remote" "nj_etag j = tag" "s < e" "e \<le> length D"
      "ne_send ?env (range_get ?env j s e) n = (Inr (reply, broken), n2)" for n j s e reply broken n2
  proof -
    note r = native_range_reply [OF u fine [OF that(1)] that(2-5), of reply broken n2]
      that(6) [unfolded native_on_simps native_on_reads]
    obtain fmt cs mx where q: "native_format base reply = fmt" "prefix (rp_body reply) cs"
      "broken = None \<longrightarrow> rp_body reply = cs" "max_output_per_call \<le> mx"
      "\<And>os. concat os = concat cs \<Longrightarrow> feed_all (ne_zrip base) (decompressor_with_limit fmt mx) os = Inr (block_of D s e)"
      using r by auto
    have full: "data = block_of D s e"
      if "feed_all (ne_zrip base) (decompressor_new fmt) os = Inr data" "concat os = concat cs" for os data
      using feed_all_limit [OF that(1) [unfolded decompressor_new_def] q(4)] q(5) [OF that(2)] by simp
    have whole: "feed_all (ne_zrip base) (decompressor_new fmt) [c] = Inr data"
      if "whole_body (ne_zrip base) fmt c = Inr data" for c data
      using that by (auto simp: whole_body_def feed_all_def map_err_Inr res_bind_Inr)
    have part: "prefix out (block_of D s e)"
      if "rp_body reply = xs @ ys" "feed (ne_zrip base) (decompressor_new fmt) xs = Inr (out, d)" for xs ys out d
    proof (rule feed_part [OF q(5) _ that(2) q(4)])
      show "prefix xs cs" using q(2) that(1) by (metis append_prefixD)
    qed
    show ?thesis
      unfolding native_on_simps native_on_reads q(1)
      using part full [OF whole, of "concat (rp_body reply)"] full [of "rp_body reply"] q(3) by auto
  qed
qed

locale native_deployment =
  fixes R :: "'e \<Rightarrow> bytes \<Rightarrow> bool" and base :: "('e, 's, native_net) native_env" and nw :: "'e network"
    and remote :: string and D :: bytes and p :: string and sd :: path and st :: string
    and claims :: token_claims and tag :: string
  assumes agree: "native_setup R base nw remote D p claims"

sublocale native_deployment \<subseteq> native: native_service "native_on base nw" remote D tag "native_fine nw p sd st D tag"
  by (rule native_is_service [OF agree native_closed]) (simp add: native_fine_def)

text \<open>A connection and a disk that lose nothing.\<close>

definition native_calm :: "'e network \<Rightarrow> string \<Rightarrow> path \<Rightarrow> string \<Rightarrow> bytes \<Rightarrow> string \<Rightarrow> native_net \<Rightarrow> bool" where
  "native_calm nw p sd st D tag n \<longleftrightarrow> native_fine nw p sd st D tag n \<and> ew_faults (nn_link n) = [] \<and> nn_disk n = []"

lemma native_send_calm:
  assumes "native_calm nw p sd st D tag n" and "net_fetch nw req 0 (nn_link n) = (Inr (reply, None), nn_link n)"
  shows "native_send nw req n = (Inr (reply, None), n)"
proof -
  have f: "ew_faults (nn_link n) = []" using assms(1) by (simp add: native_calm_def)
  then have id: "nn_link n\<lparr> ew_faults := [] \<rparr> = nn_link n" by simp
  show ?thesis by (simp add: native_send_def f id assms(2) native_outcome_def Let_def)
qed

lemma native_calm_closed: "net_closed (native_on base nw) reads (native_calm nw p sd st D tag)"
proof -
  have "ew_faults (nn_link (snd (native_send nw req n))) = []" if "ew_faults (nn_link n) = []" for req n
    using that by (auto simp: native_send_def net_fetch_def Let_def split: prod.splits outcome.splits)
  moreover have "nn_disk (snd (native_send nw req n)) = nn_disk n" for req n
    by (auto simp: native_send_def Let_def split: prod.splits)
  ultimately show ?thesis
    using native_closed [of base nw p sd st D tag]
    by (auto simp: net_closed_def native_calm_def net_order_def split: list.splits)
qed

lemma native_is_reliable:
  assumes u: "native_setup R base nw remote D p claims"
  shows "reliable_native (native_on base nw) remote D tag (native_calm nw p sd st D tag)"
proof (rule reliable_native.intro)
  let ?env = "native_on base nw" and ?ok = "native_calm nw p sd st D tag"
  show "native_service ?env remote D tag ?ok"
    by (rule native_is_service [OF u native_calm_closed, where sd = sd and st = st]) (simp add: native_calm_def native_fine_def)
  show "reliable_native_axioms ?env remote D tag ?ok"
  proof
    have f: "server_holds nw p sd st D tag (ew_server (nn_link n))" if "?ok n" for n
      using that by (simp add: native_calm_def native_fine_def)
    show "fst (ne_fault ?env n) = None" if "?ok n" for n using that by (simp add: native_calm_def)
    show "\<exists>reply n2. ne_send ?env (native_head ?env remote) n = (Inr (reply, None), n2) \<and> rp_status reply = 200"
      if ok: "?ok n" for n
    proof -
      obtain reply where r: "net_fetch nw (native_head base remote) 0 (nn_link n) = (Inr (reply, None), nn_link n)"
        "rp_status reply = 200" using native_head_fetch [OF u f [OF ok]] by blast
      show ?thesis unfolding native_on_simps native_on_reads native_send_calm [OF ok r(1)] using r(2) by blast
    qed
    show "\<exists>reply n2. ne_send ?env (range_get ?env j a e) n = (Inr (reply, None), n2) \<and> rp_status reply = 206 \<and>
        whole_body (ne_zrip ?env) (native_format ?env reply) (concat (rp_body reply)) = Inr (block_of D a e) \<and>
        feed_all (ne_zrip ?env) (decompressor_new (native_format ?env reply)) (rp_body reply) = Inr (block_of D a e)"
      if ok: "?ok n" and a: "nj_remote j = remote" "nj_etag j = tag" "a < e" "e \<le> length D" "e - a \<le> 16777216" for n j a e
    proof -
      have "e - a \<le> max_output_per_call"
        using a(5) by (simp add: max_output_per_call_def max_frame_output_def chunk_size_def sat_mul_def u64_max_def)
      with native_range_fetch [OF u f [OF ok] a(1-4)] obtain reply m fmt lv echo where
        r: "net_fetch nw (range_get base j a e) 0 (nn_link n) = (Inr (reply, None), nn_link n)" "rp_status reply = 206"
        and h: "rp_headers reply = plan_headers m fmt lv echo True \<lparr> r_start = a, r_end = e \<rparr>" "fm_etag m = tag"
        and d: "\<And>os. concat os = concat (rp_body reply) \<Longrightarrow>
          feed_all (ne_zrip base) (decompressor_with_limit fmt max_output_per_call) os = Inr (block_of D a e)" by blast
      have "list_all printable (fm_etag m)" using holds_etag(2) [OF f [OF ok]] h(2) by simp
      note fmt = native_reply_read(2) [OF native_setupD(6) [OF u] h(1) this]
      have dn: "feed_all (ne_zrip base) (decompressor_new fmt) os = Inr (block_of D a e)" if "concat os = concat (rp_body reply)" for os
        unfolding decompressor_new_def by (rule d [OF that])
      have "whole_body (ne_zrip base) fmt (concat (rp_body reply)) = Inr (block_of D a e)"
        using dn [of "[concat (rp_body reply)]"] by (auto simp: whole_body_def feed_all_def map_err_Inr res_bind_Inr)
      then show ?thesis
        unfolding native_on_simps native_on_reads native_send_calm [OF ok r(1)] using r(2) dn [OF refl] fmt by auto
    qed
  qed
qed

sublocale native_deployment \<subseteq> calm: reliable_native "native_on base nw" remote D tag "native_calm nw p sd st D tag"
  by (rule native_is_reliable [OF agree])

context native_deployment
begin

lemma native_run:
  assumes "native_fine nw p sd st D tag (nw_net (cl_world s))" and "engine_ok (cl_tune s)"
    and "sidecar_honest base D tag d t (nw_fs (cl_world s))"
  shows "cm_post (\<lambda>n s2. sidecar_honest base D tag d t (nw_fs (cl_world s2)) \<and>
      take (length D) (content_at (d @ [t]) (nw_fs (cl_world s2))) = D \<and>
      (0 < n \<longrightarrow> content_at (d @ [t]) (nw_fs (cl_world s2)) = D)) (\<lambda>_ s2. sidecar_honest base D tag d t (nw_fs (cl_world s2)))
    (\<lambda>_. True) (native_download_file (native_on base nw) remote (d @ [t]) s)"
proof -
  have h: "sidecar_honest (native_on base nw) D tag d t fs \<longleftrightarrow> sidecar_honest base D tag d t fs" for fs
    by (simp add: sidecar_honest_def sidecar_saves_def)
  have "at_fs (native_fine nw p sd st D tag) (native.honest d t) s"
    using assms by (simp add: in_order_def nw_is_def h)
  from satD [OF native.download_right this] show ?thesis
    by (rule cm_post_mono) (simp_all add: in_order_def nw_is_def h native.fetched_def)
qed

lemma calm_run:
  assumes "validate_relative remote = Inr ()" and "\<not> cg_auto_tune (ne_client base)"
    and "native_calm nw p sd st D tag (nw_net (cl_world s))" and "engine_ok (cl_tune s)"
    and "sidecar_honest base D tag d t (nw_fs (cl_world s))"
  shows "\<exists>n s2. native_download_file (native_on base nw) remote (d @ [t]) s = (Some (Inr n), s2) \<and>
    take (length D) (content_at (d @ [t]) (nw_fs (cl_world s2))) = D \<and>
    (0 < n \<longrightarrow> content_at (d @ [t]) (nw_fs (cl_world s2)) = D)"
proof -
  have "at_fs (native_calm nw p sd st D tag) (calm.honest d t) s"
    using assms(3-5) by (simp add: in_order_def nw_is_def sidecar_honest_def sidecar_saves_def)
  from satD [OF calm.download_succeeds this] assms(1,2) show ?thesis
    by (cases "native_download_file (native_on base nw) remote (d @ [t]) s";
        cases "fst (native_download_file (native_on base nw) remote (d @ [t]) s)";
        cases "the (fst (native_download_file (native_on base nw) remote (d @ [t]) s))")
      (auto simp: in_order_def nw_is_def calm.fetched_def)
qed

end



subsection \<open>A file that is longer\<close>

text \<open>Nothing is lost, and the local files are \<open>fs\<close>.\<close>

definition calm :: "'e network \<Rightarrow> string \<Rightarrow> path \<Rightarrow> string \<Rightarrow> bytes \<Rightarrow> string \<Rightarrow> fsys \<Rightarrow> ('s, native_net native_world) client \<Rightarrow> bool" where
  "calm nw p sd st D tag fs s \<longleftrightarrow> native_calm nw p sd st D tag (nw_net (cl_world s)) \<and> nw_fs (cl_world s) = fs"

lemma calm_tune [simp]: "calm nw p sd st D tag fs (s\<lparr> cl_tune := e \<rparr>) = calm nw p sd st D tag fs s"
  by (simp add: calm_def)

lemma calm_steps:
  fixes base :: "('e, 's, native_net) native_env"
  shows "cm_sat (calm nw p sd st D tag fs) (nv_emit (native_on base nw) ev) (\<lambda>_. calm nw p sd st D tag fs) E N"
    "cm_sat (calm nw p sd st D tag fs) (nv_log (native_on base nw) m) (\<lambda>_. calm nw p sd st D tag fs) E N"
    "cm_sat (calm nw p sd st D tag fs) (nv_now (native_on base nw)) (\<lambda>_. calm nw p sd st D tag fs) E N"
    "cm_sat (calm nw p sd st D tag fs) (cm_tuned g) (\<lambda>_. calm nw p sd st D tag fs) E N"
    "cm_sat (calm nw p sd st D tag fs) (nv_file (native_on base nw) (fs_silent q)) (\<lambda>r s. r = q fs \<and> calm nw p sd st D tag fs s) E N"
proof -
  show e: "cm_sat (calm nw p sd st D tag fs) (nv_emit (native_on base nw) ev) (\<lambda>_. calm nw p sd st D tag fs) E N" for ev
    unfolding nv_emit_def by (rule sat_world) (auto simp: calm_def native_calm_def)
  then show "cm_sat (calm nw p sd st D tag fs) (nv_log (native_on base nw) m) (\<lambda>_. calm nw p sd st D tag fs) E N"
    unfolding nv_log_def .
  show "cm_sat (calm nw p sd st D tag fs) (nv_now (native_on base nw)) (\<lambda>_. calm nw p sd st D tag fs) E N"
    unfolding nv_now_def by (rule sat_get)
  show "cm_sat (calm nw p sd st D tag fs) (cm_tuned g) (\<lambda>_. calm nw p sd st D tag fs) E N"
    by (simp add: cm_sat_def cm_tuned_def split: prod.split)
  show "cm_sat (calm nw p sd st D tag fs) (nv_file (native_on base nw) (fs_silent q)) (\<lambda>r s. r = q fs \<and> calm nw p sd st D tag fs s) E N"
    unfolding nv_file_def by (rule sat_world) (auto simp: calm_def native_calm_def)
qed

lemma calm_meta:
  fixes base :: "('e, 's, native_net) native_env"
  assumes u: "native_setup R base nw remote D p claims"
  shows "cm_sat (calm nw p sd st D tag fs) (native_fetch_meta (native_on base nw) remote)
    (\<lambda>x s. x = (tag, length D) \<and> calm nw p sd st D tag fs s) E N"
proof -
  let ?env = "native_on base nw" and ?C = "calm nw p sd st D tag fs"
  have "cm_sat ?C (nv_send ?env (native_head ?env remote))
      (\<lambda>r s. (rp_status (fst r) = 200 \<and> header_str ?env (fst r) ''etag'' = tag \<and>
        u64_from_str (header_str ?env (fst r) ''content-length'') = Some (length D)) \<and> ?C s) E N"
    unfolding nv_send_def
  proof (rule sat_world)
    fix s :: "('s, native_net native_world) client" and r w
    assume c: "?C s" and e: "(let (r, n) = ne_send ?env (native_head ?env remote) (nw_net (cl_world s))
      in (map_err Err_Network r, (cl_world s)\<lparr> nw_net := n \<rparr>)) = (r, w)"
    let ?n = "nw_net (cl_world s)"
    have f: "server_holds nw p sd st D tag (ew_server (nn_link ?n))" "ew_faults (nn_link ?n) = []"
      using c by (simp_all add: calm_def native_calm_def native_fine_def)
    have cn: "native_calm nw p sd st D tag ?n" using c by (simp add: calm_def)
    obtain reply m lv echo where g: "net_fetch nw (native_head base remote) 0 (nn_link ?n) = (Inr (reply, None), nn_link ?n)"
      "rp_status reply = 200" using native_head_fetch [OF u f(1)] by blast
    note sd = native_send_calm [OF cn g(1)]
    note h = native_head_reply [OF u f(1) sd]
    show "case r of Inl e \<Rightarrow> E e (s\<lparr> cl_world := w \<rparr>)
      | Inr r \<Rightarrow> (rp_status (fst r) = 200 \<and> header_str ?env (fst r) ''etag'' = tag \<and>
        u64_from_str (header_str ?env (fst r) ''content-length'') = Some (length D)) \<and> ?C (s\<lparr> cl_world := w \<rparr>)"
      using e c h g(2) by (auto simp: native_on_reads sd calm_def)
  qed
  then show ?thesis
    unfolding native_fetch_meta_def
    by (rule sat_bind, clarify, intro sat_fact) (auto intro!: sat_ret)
qed

lemma calm_prepare:
  fixes base :: "('e, 's, native_net) native_env"
  assumes "\<not> cg_auto_tune (ne_client base)"
  shows "cm_sat (calm nw p sd st D tag fs) (prepare_transfer (native_on base nw) k) (\<lambda>_. calm nw p sd st D tag fs) E N"
proof -
  have t: "transfer_capabilities (native_on base nw) = cm_ret capabilities_default"
    using assms by (simp add: transfer_capabilities_def)
  show ?thesis
    unfolding prepare_transfer_def t bind_ret Let_def by (rule sat_bind [OF calm_steps(3)], rule calm_steps(4))
qed

text \<open>
  A local file that is longer than the server's, with a sidecar that says it is complete, is reported as
  downloaded and keeps its tail: the comment on the final length is true only of a download that moves bytes.
\<close>

theorem longer_file_kept:
  fixes base :: "('e, 's, native_net) native_env"
  assumes u: "native_setup R base nw remote D p claims" and v: "validate_relative remote = Inr ()"
    and tu: "\<not> cg_auto_tune (ne_client base)"
    and c: "calm nw p sd st D tag fs s" and r: "ready d t fs"
    and sv: "sidecar_saves base (d @ [t]) fs \<lparr> rs_etag = tag, rs_offset = length D \<rparr>"
    and l: "length D \<le> length (content_at (d @ [t]) fs)"
  shows "\<exists>s2. native_download_file (native_on base nw) remote (d @ [t]) s = (Some (Inr 0), s2) \<and> nw_fs (cl_world s2) = fs"
proof -
  let ?env = "native_on base nw" and ?C = "calm nw p sd st D tag fs" and ?x = "\<lparr> rs_etag = tag, rs_offset = length D \<rparr>"
  let ?sat = "\<lambda>m Q. cm_sat ?C m Q (\<lambda>_ _. False) (\<lambda>_. False)"
  obtain k where k: "fs_node fs (resume_path (d @ [t])) = Some (NFile k)" "ne_resume_parse base (fs_data fs k) = Some ?x"
    using sv by (auto simp: sidecar_saves_def)
  then have o1: "fs_open fs (resume_path (d @ [t])) = Inr k"
    using ready_stat(2) [OF r] by (simp only: fs_open_def ok_or_simps res_bind_simps node.case)
  have load: "?sat (native_load_resume ?env (d @ [t])) (\<lambda>x s. x = Some ?x \<and> ?C s)"
    unfolding native_load_resume_def
    by (rule sat_bind [OF calm_steps(5)], rule sat_fact, rule sat_ret) (simp add: o1 [unfolded resume_path_snoc] k(2))
  have len: "?sat (local_length ?env (d @ [t])) (\<lambda>n s. length D \<le> n \<and> ?C s)"
  proof -
    have "D \<noteq> []" using native_setupD(2) [OF u] .
    then obtain i where i: "fs_node fs (d @ [t]) = Some (NFile i)" "length D \<le> fs_len fs i"
      using l by (cases "fs_node fs (d @ [t])") (auto simp: content_at_def fs_len_def split: node.splits)
    have q: "fs_stat fs True (d @ [t]) = Inr (NFile i)" using ready_stat(1) [OF r] i(1) by simp
    show ?thesis
      unfolding local_length_def
      by (rule sat_bind [OF calm_steps(5)], rule sat_fact, rule sat_ret) (simp add: q i(2))
  qed
  have once: "?sat (download_once ?env remote (d @ [t]) level False) (\<lambda>n s. n = 0 \<and> ?C s)" for level
    unfolding download_once_def
    apply (rule sat_bind [OF calm_meta [OF u]], rule sat_fact, simp only: prod.case)
    apply (rule sat_bind [OF load], rule sat_fact)
    apply (rule sat_bind [OF len], rule sat_fact)
    subgoal premises pr for x y n
    proof -
      have a: "resume_start False tag (length D) n y = length D" using pr by (simp add: resume_start_def)
      show ?thesis
        unfolding a Let_def
        by (auto intro!: sat_bind [OF sat_when] sat_bind [OF calm_steps(1)] calm_steps(2) sat_ret)
    qed
    done
  have "?sat (native_download_file ?env remote (d @ [t])) (\<lambda>n s. n = 0 \<and> ?C s)"
    unfolding native_download_file_def v bind_lift
    apply (rule sat_bind [OF calm_prepare [OF tu]])
    apply (rule sat_bind [OF sat_attempt [OF once]])
    subgoal for params first
      apply (rule sat_bind [where ?Q1.0 = "\<lambda>q s. q = Inr 0 \<and> ?C s"])
      subgoal by (cases first) (auto simp: cm_sat_def cm_ret_def)
      apply (rule sat_fact)
      unfolding finish_transfer_def
      apply (rule sat_bind [OF calm_steps(4)])
      apply (auto intro: sat_lift)
      done
    done
  from satD [OF this c] show ?thesis
    by (cases "native_download_file ?env remote (d @ [t]) s"; cases "fst (native_download_file ?env remote (d @ [t]) s)";
        cases "the (fst (native_download_file ?env remote (d @ [t]) s))") (auto simp: calm_def native_calm_def)
qed

subsection \<open>A concrete deployment\<close>

text \<open>A text for sidecars of which no proper part is another: the offset in unary, the ETag with a mark before each character.\<close>

definition plain_state :: "resume_state \<Rightarrow> bytes" where
  "plain_state x = replicate (rs_offset x) 1 @ [0] @ concat (map (\<lambda>c. [1, word_of_nat (of_char c)]) (rs_etag x)) @ [0]"

fun read_tag :: "bytes \<Rightarrow> string option" where
  "read_tag [] = None"
| "read_tag [x] = (if x = 0 then Some [] else None)"
| "read_tag (x # y # r) = (if x = 0 then None else map_option ((#) (char_of (unat y))) (read_tag r))"

definition read_state :: "bytes \<Rightarrow> resume_state option" where
  "read_state b =
     (let n = length (takeWhile (\<lambda>x. x = 1) b) in
      if drop n b = [] then None else map_option (\<lambda>g. \<lparr> rs_etag = g, rs_offset = n \<rparr>) (read_tag (tl (drop n b))))"

lemma byte_char: "char_of (unat (word_of_nat (of_char c) :: byte)) = c"
  by (simp add: unat_of_nat)

lemma read_tag_part: "read_tag (take m (concat (map (\<lambda>c. [1, word_of_nat (of_char c)]) g) @ [0])) = Some h \<Longrightarrow> h = g"
proof (induction g arbitrary: m h)
  case Nil
  then show ?case by (cases m) simp_all
next
  case (Cons c g)
  consider "m = 0" | "m = 1" | k where "m = Suc (Suc k)" by (cases m; cases "m - 1") auto
  then show ?case using Cons by cases (auto simp: byte_char)
qed

lemma read_state_part: "read_state (take k (plain_state x)) = Some y \<Longrightarrow> y = x"
proof -
  let ?n = "rs_offset x" and ?t = "concat (map (\<lambda>c. [1, word_of_nat (of_char c)]) (rs_etag x)) @ [0 :: byte]"
  assume a: "read_state (take k (plain_state x)) = Some y"
  have tw: "takeWhile (\<lambda>x. x = 1) (replicate n 1 @ 0 # r) = replicate n (1 :: byte)" "takeWhile (\<lambda>x. x = 1) (replicate n (1 :: byte)) = replicate n 1"
    for n r by (induction n) simp_all
  show ?thesis
  proof (cases "k \<le> ?n")
    case True
    then have "take k (plain_state x) = replicate k 1" by (simp add: plain_state_def min_absorb1)
    with a show ?thesis by (simp add: read_state_def tw)
  next
    case False
    then obtain m where "k = ?n + Suc m" by (metis add_Suc_right less_iff_Suc_add not_le)
    then have "take k (plain_state x) = replicate ?n 1 @ 0 # take m ?t" by (simp add: plain_state_def)
    with a show ?thesis using read_tag_part [of m "rs_etag x"] by (auto simp: read_state_def tw Let_def)
  qed
qed

lemma read_plain_state: "read_state (plain_state x) = Some x"
proof -
  have "takeWhile (\<lambda>x. x = 1) (replicate n 1 @ 0 # r) = replicate n (1 :: byte)" for n r by (induction n) simp_all
  moreover have "read_tag (concat (map (\<lambda>c. [1, word_of_nat (of_char c)]) g) @ [0]) = Some g" for g
    by (induction g) (simp_all add: byte_char)
  ultimately show ?thesis by (simp add: read_state_def plain_state_def)
qed

definition native_demo :: "(bytes, string \<rightharpoonup> string, native_net) native_env" where
  "native_demo = \<lparr> ne_config = (native_config_new ''http://h'' ''u'')\<lparr> nc_client := client_config_default\<lparr> cg_auto_tune := False \<rparr> \<rparr>,
     ne_tune = demo_env, ne_zrip = raw_zrip, ne_sha = (\<lambda>_. replicate 32 0), ne_meta_json = (\<lambda>_. []),
     ne_caps_json = (\<lambda>_. Inl []), ne_ranges_json = (\<lambda>_. Inr []), ne_dir_json = (\<lambda>_. Inr []),
     ne_resume_text = plain_state, ne_resume_parse = read_state, ne_header_ok = list_all printable,
     ne_header_text = (\<lambda>v. if list_all printable v then Some v else None), ne_display = join_on CHR ''/'', ne_dir_len = 0,
     ne_now = (\<lambda>_. Fin 0), ne_send = native_send demo_network, ne_fault = (\<lambda>n. (None, n)), ne_sleep = (\<lambda>_ n. n),
     ne_order = (\<lambda>k n. ([0..<k], n)), ne_bench = (\<lambda>_ _. None), ne_bench_clock = (\<lambda>_ _. Fin 0) \<rparr>"

lemma native_demo_simps [simp]:
  "ne_config native_demo = (native_config_new ''http://h'' ''u'')\<lparr> nc_client := client_config_default\<lparr> cg_auto_tune := False \<rparr> \<rparr>"
  "ne_zrip native_demo = raw_zrip" "ne_resume_text native_demo = plain_state" "ne_resume_parse native_demo = read_state"
  "ne_header_ok native_demo = list_all printable"
  "ne_header_text native_demo = (\<lambda>v. if list_all printable v then Some v else None)"
  by (simp_all add: native_demo_def)

lemma native_demo_setup: "native_setup (=) native_demo demo_network ''a'' [1, 2, 3, 4, 5] ''a'' demo_claims"
proof -
  note dd = download_setupD [OF dl_demo_setup]
  have e: "fe_path dl_entry = ''a''" "dj_token dl_job = ''u''" "ce_zrip dl_client = raw_zrip"
    by (simp_all add: dl_entry_def dl_job_def dl_client_def)
  have w: "nw_path demo_network (native_file_url native_demo ''a'') = ''/file/'' @ ''a''"
  proof -
    have "drop 8 (''http://h'' @ ''/file/'' @ ''a'') = ''/file/'' @ ''a''" by simp
    moreover have "native_file_url native_demo ''a'' = ''http://h'' @ ''/file/'' @ ''a''"
      unfolding native_file_url_def native_demo_simps native_config_new_def native_config.simps by code_simp
    ultimately show ?thesis by (simp add: demo_network_def)
  qed
  show ?thesis
    unfolding native_setup_def
    using dd(1-3,6,7) w read_state_part
    by (simp add: e native_config_new_def printable_def u64_max_def)
qed

interpretation demo_native: native_deployment "(=)" native_demo demo_network "''a''" "[1, 2, 3, 4, 5]" "''a''" "[''srv'']" "''a''"
    demo_claims dl_tag
  by unfold_locales (rule native_demo_setup)

text \<open>A longer file with the same beginning, and a sidecar that says it is complete.\<close>

definition native_home :: fsys where
  "native_home = \<lparr> fs_entries = [([''dest''], NDir 0), ([''dest'', ''a''], NFile 0), ([''dest'', ''a.libfw-resume.json''], NFile 1)],
     fs_data = (\<lambda>i. if i = 0 then [1, 2, 3, 4, 5, 9, 9] else plain_state \<lparr> rs_etag = dl_tag, rs_offset = 5 \<rparr>),
     fs_mtime = (\<lambda>_. 0), fs_next = 2, fs_now = 0 \<rparr>"

definition native_start :: "(string \<rightharpoonup> string, native_net native_world) client" where
  "native_start = \<lparr> cl_control = control_new 1, cl_tune = engine_new False Lv_Balanced,
     cl_world = \<lparr> nw_net = \<lparr> nn_link = \<lparr> ew_server = demo_world, ew_faults = [], ew_turns = [], ew_orders = [] \<rparr>, nn_disk = [] \<rparr>,
       nw_fs = native_home, nw_events = [] \<rparr> \<rparr>"

lemma native_home_node: "fs_node native_home q =
    (if q = [] then Some (NDir 0) else if q = [''dest''] then Some (NDir 0) else if q = [''dest'', ''a''] then Some (NFile 0)
     else if q = [''dest'', ''a.libfw-resume.json''] then Some (NFile 1) else None)"
  by (auto simp: fs_node_def native_home_def)

lemma native_home_fine:
  "ready [''dest''] ''a'' native_home" "content_at [''dest'', ''a''] native_home = [1, 2, 3, 4, 5, 9, 9]"
  "sidecar_saves native_demo [''dest'', ''a''] native_home x \<longleftrightarrow> x = \<lparr> rs_etag = dl_tag, rs_offset = 5 \<rparr>"
proof -
  have p: "resume_path [''dest'', ''a''] = [''dest'', ''a.libfw-resume.json'']" by (simp add: resume_path_def)
  have n: "fs_next native_home = 2" by (simp add: native_home_def)
  have "dir_ok native_home [''dest'']" by (auto simp: dir_ok_def is_dir_def native_home_node prefix_Cons)
  moreover have "fs_wf native_home" by (auto simp: fs_wf_def native_home_node n split: if_splits)
  ultimately show "ready [''dest''] ''a'' native_home" by (simp add: ready_def free_name_def native_home_node p)
  show "content_at [''dest'', ''a''] native_home = [1, 2, 3, 4, 5, 9, 9]"
    by (simp add: content_at_def native_home_node, simp add: native_home_def)
  have "fs_data native_home 1 = plain_state \<lparr> rs_etag = dl_tag, rs_offset = 5 \<rparr>" by (simp add: native_home_def)
  then show "sidecar_saves native_demo [''dest'', ''a''] native_home x \<longleftrightarrow> x = \<lparr> rs_etag = dl_tag, rs_offset = 5 \<rparr>"
    by (auto simp: sidecar_saves_def native_home_node p read_plain_state)
qed

lemma native_start_fine:
  "calm demo_network ''a'' [''srv''] ''a'' [1, 2, 3, 4, 5] dl_tag native_home native_start"
  "engine_ok (cl_tune native_start)" "sidecar_honest native_demo [1, 2, 3, 4, 5] dl_tag [''dest''] ''a'' native_home"
proof -
  have "native_fine demo_network ''a'' [''srv''] ''a'' [1, 2, 3, 4, 5] dl_tag (nw_net (cl_world native_start))"
    using dl_start_fine(1) by (simp add: native_fine_def native_start_def dl_fine_def dl_start_def)
  then show "calm demo_network ''a'' [''srv''] ''a'' [1, 2, 3, 4, 5] dl_tag native_home native_start"
    by (simp add: calm_def native_calm_def native_start_def)
  show "engine_ok (cl_tune native_start)" by (simp add: native_start_def engine_new_ok)
  show "sidecar_honest native_demo [1, 2, 3, 4, 5] dl_tag [''dest''] ''a'' native_home"
    using native_home_fine by (simp add: sidecar_honest_def agrees_def eval_nat_numeral)
qed


text \<open>An empty directory.\<close>

definition native_empty :: fsys where
  "native_empty = \<lparr> fs_entries = [([''dest''], NDir 0)], fs_data = (\<lambda>_. []), fs_mtime = (\<lambda>_. 0), fs_next = 0, fs_now = 0 \<rparr>"

lemma native_empty_fine:
  "sidecar_honest native_demo [1, 2, 3, 4, 5] dl_tag [''dest''] ''a'' native_empty"
proof -
  have n: "fs_node native_empty q = (if q = [] then Some (NDir 0) else if q = [''dest''] then Some (NDir 0) else None)" for q
    by (auto simp: fs_node_def native_empty_def)
  have "dir_ok native_empty [''dest'']" by (auto simp: dir_ok_def is_dir_def n prefix_Cons)
  moreover have "fs_wf native_empty" by (auto simp: fs_wf_def n split: if_splits)
  ultimately show ?thesis by (simp add: sidecar_honest_def ready_def free_name_def sidecar_saves_def n resume_path_def)
qed


end
