(* ===== verification/Spec2Isabelle.thy ===== *)
theory Spec2Isabelle
  imports End_To_End_Props End_To_End_Native Native_Confined
begin

text \<open>
  libfw, a resumable file transfer over HTTP: verification library.

  \<^bold>\<open>The program.\<close>  libfw-core (\<open>crates/libfw-core/src\<close>) holds the contracts shared by both sides: token
  claims and validators, path codecs, byte ranges, file metadata, the frame format, constants and the
  capability advertisement.  libfw-server (\<open>crates/libfw-server/src\<close>) serves downloads (\<open>GET\<close>, \<open>HEAD\<close>
  with ranges and ETags), listings and uploads over a storage backend, \<open>FsStorage\<close>.  libfw-client
  (\<open>crates/libfw-client/src\<close>) is the engine that downloads and uploads in blocks, tunes its own
  parallelism and can be paused or cancelled.

  \<^bold>\<open>The core.\<close>  \<open>Ranges\<close> is \<open>range.rs\<close> and the header functions of the server's \<open>http.rs\<close>;
  \<open>Metadata\<close> is \<open>metadata.rs\<close> (ETag, base64, metadata header, chunk plans); \<open>Claims_Auth\<close> is
  \<open>claims.rs\<close> and both \<open>auth.rs\<close>; \<open>Path_Codec\<close> is \<open>pathmap.rs\<close> and \<open>validate_rel_path\<close>; \<open>Compress\<close> is
  \<open>compress.rs\<close> (the zstd coder is a parameter, the frame parser and the buffering are modelled);
  \<open>Capabilities\<close> is \<open>capabilities.rs\<close> and \<open>constants.rs\<close>.  \<open>Byte_Text\<close>, \<open>Float64\<close> and \<open>Http\<close> hold what
  the code uses of the language and of HTTP: UTF-8, hexadecimal, IEEE binary64, header maps.

  \<^bold>\<open>The server.\<close>  \<open>Fs_Model\<close> is the file system below \<open>storage.rs\<close>: a tree of names over inodes, so an
  open file survives a rename of its name.  \<open>Storage\<close> is \<open>storage.rs\<close>: resolution, sinks, sessions with
  their \<open>.blocks\<close> sidecar, sweep.  \<open>Session_Store\<close> has \<open>merge_range\<close> and the contract of a session.
  \<open>Server_State\<close> is the configuration and the path resolution of \<open>lib.rs\<close>; \<open>Api\<close>, \<open>Download\<close> and
  \<open>Upload\<close> are \<open>handlers.rs\<close>: errors and responses, the planning and streaming of downloads, both
  upload protocols and listings.  \<open>Router\<close> is the front door in \<open>lib.rs\<close>: the protocol check, the route table, the token
  extractor and the conversion of results to responses.

  \<^bold>\<open>The browser client.\<close>  \<open>Tune\<close> and \<open>Tune_Engine\<close> are \<open>tune.rs\<close>; \<open>Client_State\<close> is \<open>state.rs\<close> and the
  error type; \<open>Client_Plan\<close> is \<open>config.rs\<close>, \<open>plan.rs\<close>, \<open>safe_u64\<close> of \<open>js.rs\<close> and the URL and header
  helpers of \<open>http.rs\<close>.  \<open>Client_Monad\<close> is a run over a control, a tuning engine and a world:
  \<open>None\<close> for one that does not end, else an error or a value.  \<open>Client_Upload\<close> is \<open>upload.rs\<close> and
  \<open>Client_Download\<close> \<open>download.rs\<close>, whole, in that monad; the fetches, callbacks and the disk of the page are
  its environment.  Requests in flight together are taken one after the other in any order the
  environment chooses.

  \<^bold>\<open>The native client.\<close>  \<open>Native_Client\<close> is \<open>native/mod.rs\<close>, \<open>Native_Upload\<close> \<open>native/upload.rs\<close> and
  \<open>Native_Download\<close> \<open>native/download.rs\<close>, in the same monad over \<open>Fs_Model\<close>: every operation on the local file
  system may fail, a write after any part of its data.

  \<^bold>\<open>Conventions.\<close>  A Rust \<open>Result\<close> is a sum (\<open>Inl\<close> the error), \<open>?\<close> is \<open>res_bind\<close>; handlers are functions
  of an explicit world (\<open>'a api\<close>, \<open>'a stm\<close>).  Unsigned integers are \<open>nat\<close> with the wrap-around or
  saturation of every operation written out (\<open>u64_add\<close>, \<open>sat_add\<close>); \<open>usize\<close> has 64 bits on the server
  and in the native build, and 32 in the parser of the browser's options.  Bytes are \<open>8 word\<close>.  A loop
  that may run for ever is a \<open>partial_function\<close> in \<open>option\<close>.  Every request is atomic in the model:
  one handler runs to its end before the next starts.

  \<^bold>\<open>What the lemmas show.\<close>  The contracts are locales, interpreted on the model: \<open>path_codec\<close> (the three
  codecs), \<open>request_validator\<close>, \<open>session_store\<close> (a session refines a partial map from offsets to
  bytes), \<open>upload_sink\<close> (the receiving loop, once for both upload protocols).  \<open>Storage_Props\<close>,
  \<open>Upload_Props\<close> and \<open>Upload_Session\<close> give the effect of every storage and upload operation on the names
  and inodes, with a frame (\<open>same_outside\<close>: every other name and file is as it was); from them follow
  the all-or-nothing upload and the assembly of a session's blocks.  \<open>Tune_Props\<close> is the invariant
  of all reachable states of the tuning engine and the end of its ramp: 260 error-free windows are
  enough for every advertisement, because each raise strictly moves one of three bounded dimensions.

  \<^bold>\<open>Client and server together.\<close>  \<open>Client_Triples\<close> has the rules for runs (\<open>cm_sat\<close>: what holds on success,
  on an error and when a run does not end; \<open>cm_keeps\<close>), \<open>Client_Ranges\<close> the arithmetic of the ranges a
  resumed upload still has to send.  What a client needs of a server is a locale: \<open>session_service\<close> and
  \<open>reliable_service\<close> (\<open>Client_Service\<close>), \<open>steady_client\<close> (\<open>Client_Steady\<close>) for uploads,
  \<open>delivery_service\<close> and \<open>steady_delivery\<close> (\<open>Client_Delivery\<close>, \<open>Client_Delivery_Live\<close>) for downloads; in
  them it is proved that a success means that the file is there, and that with no more losses than
  retries the transfer ends and succeeds.  \<open>Server_Session\<close> and \<open>End_To_End\<close> interpret the contracts of uploads on the
  router model, \<open>End_To_End_Download\<close> those of downloads: the requests of the client are run
  through the handlers, over a connection that loses and cuts messages.  \<open>End_To_End_Props\<close> has the
  results.  \<open>Native_Runs\<close> has the rules of runs over the local file system, \<open>Native_Confined\<close> what a
  hostile server can do to it, \<open>Native_Paths\<close> that URLs are read by the server as they were meant.
  \<open>Native_Chunks\<close> is the bookkeeping of ranges that arrive in any order, \<open>Native_Delivery\<close> and
  \<open>Native_Fetch\<close> the contract \<open>native_service\<close> and what it gives: a reported download has left the file, and
  the sidecar that stays after any outcome vouches only for bytes of the file.  \<open>Native_Ends\<close> shows that
  the download of a file ends whatever the server does (and that the walk of a directory need not);
  \<open>Native_Live\<close> extends the contract to \<open>reliable_native\<close>, a service that loses nothing, where the download
  also succeeds; \<open>End_To_End_Native\<close> interprets both contracts on the router model.

  \<^bold>\<open>Loops.\<close>  \<open>cm_while\<close> and \<open>bounds_loop\<close> are partial functions: \<open>None\<close> is a loop that does not end, and
  the liveness theorems of the browser client show that its transfers
  do end, and \<open>native_download_ends\<close> that the native client's downloads of a file do; of its uploads and of
  its walk of a directory it is shown what holds when they do.  Retries are functions with a measure, the
  retries that are left; the liveness theorems bound the rounds of the transfer loops by the bytes that
  are missing and the losses that are left.

  \<^bold>\<open>Parameters.\<close>  SHA-256, AES-GCM and its random numbers, the zstd coder, serde_json, the clock, the
  user's token verifier and validator are arguments, with their documented behaviour (a decoder
  inverts its encoder, a frame is self-delimiting) as named hypotheses (\<open>ext_ok\<close>, \<open>crypto_ok\<close>,
  \<open>zrip_ok\<close>); each has an instance in a witness.

  \<^bold>\<open>Not modelled.\<close>  The classes and callbacks of the browser build (\<open>wasm.rs\<close>, most of \<open>js.rs\<close>), the fetch and
  XHR watchdogs of \<open>http.rs\<close>, the HTTP library, the tracing output and the example programs: they are
  input and output around the code above.  Concurrent handlers (the lock table of sessions has no effect on
  atomic requests), poisoned locks, and data that the operating system has accepted and not yet
  written.
\<close>

end
